(* ===== verification/Prelude.thy ===== *)
theory Prelude
  imports Main "HOL-Library.Char_ord" "HOL-Library.List_Lexorder" "HOL-Library.Product_Lexorder"
    "HOL-Library.Sublist"
begin

text \<open>
  What every component of the model shares: Python exceptions as values, the result type and its
  sequencing operations, character classes and the string operations of \<open>str\<close> that the
  modelled modules use, and generic lemmas on lists.

  A Python \<open>str\<close> is a \<open>string\<close>: a list of code points below 256. Text outside that range is
  not given a made-up meaning; the functions that could produce it (UTF-8 decoding, JSON
  \<open>\u\<close> escapes) answer with the exception class \<open>Unmodelled\<close>. A \<open>bytes\<close> object is a
  \<open>string\<close> as well, one character per byte.
\<close>

section \<open>Collections of rewrite rules\<close>

named_theorems errors "rules that run or invert the sequencing operations on results"

section \<open>Exceptions and results\<close>

text \<open>
  One constructor per exception class the modelled modules raise or catch. A message keeps the
  fixed text of the source; values interpolated into it are left out.
\<close>

datatype exc_class =
    ValueError
  | TypeError
  | KeyError
  | AssertionError
  | JSONDecodeError
  | UnicodeDecodeError
  | OSError
  | FileNotFoundError
  | FileExistsError
  | RuntimeErr
  | ContractValidationError
  | ProtocolError
  | IosRegistryError
  | IosRegistryMissing
  | RuntimeSecurityError
  | FenceBusyError
  | IntentConflictError
  | ProcessLookupError
  | ConfigurationError
  | RungAdmissionError
  | RungEvidenceInvalid
  | SupervisorError
  | AdmissionError
  | RecoveryRequired
  | EpochDraining
  | ProviderError
  | ProviderCancelled
  | ProviderResidueError
  | ScopeError
  | RestoreTransactionError
  | FrontendClosedError
  | FrontendDrainTimeout
  | GenerationRevoked
  | ZeroDivisionError
  | RecursionError
  | IndexError
  | ManagedDoctorBlocked
  | OutOfFuel
  | Unmodelled

datatype exc = Exc (exc_class: exc_class) (exc_msg: string)

type_synonym 'a result = "exc + 'a"

abbreviation raise :: "exc_class \<Rightarrow> string \<Rightarrow> 'a result" where
  "raise cls msg \<equiv> Inl (Exc cls msg)"

text \<open>The subclasses of \<open>ValueError\<close> among the classes above, for \<open>except ValueError\<close>.\<close>

fun is_value_error :: "exc_class \<Rightarrow> bool" where
  "is_value_error c =
     (c \<in> {ValueError, JSONDecodeError, UnicodeDecodeError, ContractValidationError, ProtocolError,
           IosRegistryError, IosRegistryMissing, ConfigurationError, RungAdmissionError,
           RungEvidenceInvalid})"

text \<open>The subclasses of \<open>OSError\<close> among the classes above, for \<open>except OSError\<close>.\<close>

fun is_os_error :: "exc_class \<Rightarrow> bool" where
  "is_os_error c = (c \<in> {OSError, FileNotFoundError, FileExistsError, ProcessLookupError})"

text \<open>
  \<open>bindE\<close> runs a computation and passes its value on; an exception skips the rest.
  \<open>raise_if\<close> is the source's \<open>if bad: raise e\<close>; \<open>seqE\<close> runs a list of checks in order.
\<close>

definition bindE :: "'e + 'a \<Rightarrow> ('a \<Rightarrow> 'e + 'b) \<Rightarrow> 'e + 'b" where
  "bindE m f = (case m of Inl e \<Rightarrow> Inl e | Inr x \<Rightarrow> f x)"

definition thenE :: "'e + unit \<Rightarrow> 'e + 'b \<Rightarrow> 'e + 'b" where
  "thenE m k = bindE m (\<lambda>_. k)"

definition raise_if :: "bool \<Rightarrow> exc_class \<Rightarrow> string \<Rightarrow> unit result" where
  "raise_if bad cls msg = (if bad then raise cls msg else Inr ())"

definition voidE :: "'e + 'a \<Rightarrow> 'e + unit" where
  "voidE m = bindE m (\<lambda>_. Inr ())"

fun seqE :: "('e + unit) list \<Rightarrow> 'e + unit" where
  "seqE [] = Inr ()"
| "seqE (c # cs) = (case c of Inl e \<Rightarrow> Inl e | Inr _ \<Rightarrow> seqE cs)"

fun mapE :: "('a \<Rightarrow> 'e + 'b) \<Rightarrow> 'a list \<Rightarrow> 'e + 'b list" where
  "mapE f [] = Inr []"
| "mapE f (x # xs) = bindE (f x) (\<lambda>y. bindE (mapE f xs) (\<lambda>ys. Inr (y # ys)))"

text \<open>\<open>enumerate\<close> in a comprehension: the function also receives the index.\<close>

fun mapE_index :: "nat \<Rightarrow> (nat \<Rightarrow> 'a \<Rightarrow> 'e + 'b) \<Rightarrow> 'a list \<Rightarrow> 'e + 'b list" where
  "mapE_index i f [] = Inr []"
| "mapE_index i f (x # xs) =
     bindE (f i x) (\<lambda>y. bindE (mapE_index (Suc i) f xs) (\<lambda>ys. Inr (y # ys)))"

text \<open>\<open>try: m except <classes>: h\<close>, with \<open>caught\<close> telling which classes the clause names.\<close>

definition catchE :: "'a result \<Rightarrow> (exc_class \<Rightarrow> bool) \<Rightarrow> (exc \<Rightarrow> 'a result) \<Rightarrow> 'a result" where
  "catchE m caught h =
     (case m of Inl e \<Rightarrow> (if caught (exc_class e) then h e else Inl e) | Inr x \<Rightarrow> Inr x)"

definition is_ok :: "'e + 'a \<Rightarrow> bool" where
  "is_ok m = (case m of Inl _ \<Rightarrow> False | Inr _ \<Rightarrow> True)"

lemma bindE_simps [simp]:
  "bindE (Inl e) f = Inl e"
  "bindE (Inr x) f = f x"
  by (simp_all add: bindE_def)

lemma bindE_Inr_iff [errors]: "bindE m f = Inr y \<longleftrightarrow> (\<exists>x. m = Inr x \<and> f x = Inr y)"
  by (cases m) simp_all

lemma bindE_Inl_iff [errors]:
  "bindE m f = Inl e \<longleftrightarrow> m = Inl e \<or> (\<exists>x. m = Inr x \<and> f x = Inl e)"
  by (cases m) simp_all

lemma thenE_simps [simp]:
  "thenE (Inl e) k = Inl e"
  "thenE (Inr ()) k = k"
  by (simp_all add: thenE_def)

lemma thenE_Inr_iff [errors]: "thenE m k = Inr y \<longleftrightarrow> m = Inr () \<and> k = Inr y"
  by (cases m) (simp_all add: thenE_def)

lemma raise_if_Inr [simp]: "raise_if b cls msg = Inr () \<longleftrightarrow> \<not> b"
  by (simp add: raise_if_def)

lemma raise_if_Inr' [simp]: "raise_if b cls msg = Inr u \<longleftrightarrow> \<not> b"
  by (simp add: raise_if_def)

lemma raise_if_False [simp]: "raise_if False cls msg = Inr ()"
  by (simp add: raise_if_def)

lemma raise_if_True [simp]: "raise_if True cls msg = raise cls msg"
  by (simp add: raise_if_def)

lemma voidE_simps [simp]:
  "voidE (Inl e) = Inl e"
  "voidE (Inr x) = Inr ()"
  by (simp_all add: voidE_def)

lemma voidE_Inr_iff [errors]: "voidE m = Inr u \<longleftrightarrow> (\<exists>x. m = Inr x)"
  by (cases m) simp_all

lemma seqE_Inr_iff [errors]: "seqE cs = Inr u \<longleftrightarrow> (\<forall>c \<in> set cs. c = Inr ())"
  by (induction cs) (auto simp: seqE.simps split: sum.splits)

declare seqE.simps [simp del]

lemma seqE_simps [simp]:
  "seqE [] = Inr ()"
  "seqE (Inr u # cs) = seqE cs"
  "seqE (Inl e # cs) = Inl e"
  by (simp_all add: seqE.simps)

lemma seqE_Inl_in: "seqE cs = Inl e \<Longrightarrow> Inl e \<in> set cs"
  by (induction cs) (auto simp: seqE.simps split: sum.splits)

lemma seqE_append: "seqE (cs @ ds) = (case seqE cs of Inl e \<Rightarrow> Inl e | Inr _ \<Rightarrow> seqE ds)"
  by (induction cs) (auto simp: seqE.simps split: sum.splits)

lemma mapE_Inr_iff [errors]: "mapE f xs = Inr ys \<longleftrightarrow> list_all2 (\<lambda>x y. f x = Inr y) xs ys"
  by (induction xs arbitrary: ys) (auto simp: bindE_Inr_iff list_all2_Cons1)

lemma mapE_map_Inr: "(\<And>x. x \<in> set xs \<Longrightarrow> f (g x) = Inr x) \<Longrightarrow> mapE f (map g xs) = Inr xs"
  by (induction xs) simp_all

lemma mapE_index_map_Inr:
  "(\<And>i x. x \<in> set xs \<Longrightarrow> f i (g x) = Inr x) \<Longrightarrow> mapE_index n f (map g xs) = Inr xs"
  by (induction xs arbitrary: n) simp_all

lemma mapE_index_Inr_set:
  "mapE_index n f xs = Inr ys \<Longrightarrow> y \<in> set ys \<Longrightarrow> \<exists>i. \<exists>x \<in> set xs. f i x = Inr y"
  by (induction xs arbitrary: n ys) (fastforce simp: bindE_Inr_iff)+

lemma mapE_index_Inr_length: "mapE_index n f xs = Inr ys \<Longrightarrow> length ys = length xs"
  by (induction xs arbitrary: n ys) (auto simp: bindE_Inr_iff)

lemma catchE_simps [simp]:
  "catchE (Inr x) p h = Inr x"
  "catchE (Inl e) p h = (if p (exc_class e) then h e else Inl e)"
  by (simp_all add: catchE_def)

lemma catchE_Inr_iff [errors]:
  "catchE m p h = Inr y \<longleftrightarrow> m = Inr y \<or> (\<exists>e. m = Inl e \<and> p (exc_class e) \<and> h e = Inr y)"
  by (cases m) auto

lemma catchE_Inl_iff [errors]:
  "catchE m p h = Inl e \<longleftrightarrow>
     (\<exists>e'. m = Inl e' \<and> (if p (exc_class e') then h e' = Inl e else e' = e))"
  by (cases m) auto

lemma thenE_Inl_iff [errors]: "thenE m k = Inl e \<longleftrightarrow> m = Inl e \<or> (m = Inr () \<and> k = Inl e)"
  by (cases m) (simp_all add: thenE_def)

lemma raise_if_Inl [simp]: "raise_if b cls msg = Inl e \<longleftrightarrow> b \<and> e = Exc cls msg"
  by (auto simp: raise_if_def)

lemma is_ok_simps [simp]: "is_ok (Inr x)" "\<not> is_ok (Inl e)"
  by (simp_all add: is_ok_def)

lemma is_ok_iff: "is_ok m \<longleftrightarrow> (\<exists>x. m = Inr x)"
  by (cases m) simp_all

text \<open>\<open>raises C m\<close>: an exception of \<open>m\<close> belongs to one of the classes \<open>C\<close>.\<close>

definition raises :: "exc_class set \<Rightarrow> 'a result \<Rightarrow> bool" where
  "raises C m \<longleftrightarrow> (\<forall>e. m = Inl e \<longrightarrow> exc_class e \<in> C)"

named_theorems raising "rules that bound the classes of exceptions of a computation"

lemma raises_Inr [simp, raising]: "raises C (Inr x)"
  by (simp add: raises_def)

lemma raises_Inl [simp]: "raises C (Inl e) \<longleftrightarrow> exc_class e \<in> C"
  by (simp add: raises_def)

lemma raises_bindE [raising]:
  "raises C m \<Longrightarrow> (\<And>x. m = Inr x \<Longrightarrow> raises C (f x)) \<Longrightarrow> raises C (bindE m f)"
  by (auto simp: raises_def bindE_Inl_iff)

lemma raises_thenE [raising]: "raises C m \<Longrightarrow> (m = Inr () \<Longrightarrow> raises C k) \<Longrightarrow> raises C (thenE m k)"
  by (auto simp: raises_def thenE_Inl_iff)

lemma raises_raise_if: "c \<in> C \<Longrightarrow> raises C (raise_if b c m)"
  by (simp add: raises_def)

lemma raises_voidE [raising]: "raises C m \<Longrightarrow> raises C (voidE m)"
  by (auto simp: raises_def voidE_def bindE_Inl_iff)

lemma raises_seqE [raising]: "(\<And>c. c \<in> set cs \<Longrightarrow> raises C c) \<Longrightarrow> raises C (seqE cs)"
  by (auto simp: raises_def dest: seqE_Inl_in)

lemma raises_seqE_Cons: "raises C c \<Longrightarrow> (c = Inr () \<Longrightarrow> raises C (seqE cs)) \<Longrightarrow> raises C (seqE (c # cs))"
  by (cases c) simp_all

lemma raises_mapE_index [raising]:
  "(\<And>i x. raises C (f i x)) \<Longrightarrow> raises C (mapE_index n f xs)"
  by (induction xs arbitrary: n) (auto intro!: raising)

lemma raises_mapE [raising]: "(\<And>x. raises C (f x)) \<Longrightarrow> raises C (mapE f xs)"
  by (induction xs) (auto intro!: raising)

section \<open>Characters\<close>

abbreviation ord :: "char \<Rightarrow> nat" where
  "ord c \<equiv> of_char c"

lemma ord_less_256: "ord c < 256"
  by (metis char_of_char of_char_of mod_less_divisor zero_less_numeral)

definition is_digit :: "char \<Rightarrow> bool" where
  "is_digit c \<longleftrightarrow> 48 \<le> ord c \<and> ord c \<le> 57"

definition is_lower :: "char \<Rightarrow> bool" where
  "is_lower c \<longleftrightarrow> 97 \<le> ord c \<and> ord c \<le> 122"

definition is_upper :: "char \<Rightarrow> bool" where
  "is_upper c \<longleftrightarrow> 65 \<le> ord c \<and> ord c \<le> 90"

definition is_alnum :: "char \<Rightarrow> bool" where
  "is_alnum c \<longleftrightarrow> is_digit c \<or> is_lower c \<or> is_upper c"

text \<open>\<open>[0-9a-f]\<close>\<close>

definition is_hex :: "char \<Rightarrow> bool" where
  "is_hex c \<longleftrightarrow> is_digit c \<or> (97 \<le> ord c \<and> ord c \<le> 102)"

text \<open>\<open>str.isspace\<close> on code points below 256, the set that \<open>strip\<close> and \<open>split\<close> use.\<close>

definition is_space :: "char \<Rightarrow> bool" where
  "is_space c \<longleftrightarrow> ord c \<in> {9, 10, 11, 12, 13, 28, 29, 30, 31, 32, 133, 160}"

definition is_control :: "char \<Rightarrow> bool" where
  "is_control c \<longleftrightarrow> ord c < 32 \<or> ord c = 127"

lemmas char_class_defs =
  is_digit_def is_lower_def is_upper_def is_alnum_def is_hex_def is_space_def is_control_def

section \<open>Strings\<close>

definition starts_with :: "string \<Rightarrow> string \<Rightarrow> bool" where
  "starts_with s p = prefix p s"

text \<open>\<open>s.removeprefix(p)\<close>\<close>

definition removeprefix :: "string \<Rightarrow> string \<Rightarrow> string" where
  "removeprefix s p = (if starts_with s p then drop (length p) s else s)"

lemma starts_with_append [simp]: "starts_with (p @ s) p"
  by (simp add: starts_with_def)

lemma removeprefix_append [simp]: "removeprefix (p @ s) p = s"
  by (simp add: removeprefix_def)

lemma starts_with_removeprefix: "starts_with s p \<Longrightarrow> s = p @ removeprefix s p"
  by (auto simp: starts_with_def removeprefix_def prefix_def)

lemma removeprefix_inj:
  "starts_with s p \<Longrightarrow> starts_with t p \<Longrightarrow> removeprefix s p = removeprefix t p \<Longrightarrow> s = t"
  by (metis starts_with_removeprefix)

text \<open>\<open>sep.join(parts)\<close>\<close>

fun join :: "string \<Rightarrow> string list \<Rightarrow> string" where
  "join sep [] = []"
| "join sep [s] = s"
| "join sep (s # t # ss) = s @ sep @ join sep (t # ss)"

text \<open>\<open>s.strip()\<close>, \<open>s.split()\<close> and \<open>s.split(c)\<close> for one character.\<close>

definition strip :: "string \<Rightarrow> string" where
  "strip s = rev (dropWhile is_space (rev (dropWhile is_space s)))"

fun split_on :: "char \<Rightarrow> string \<Rightarrow> string list" where
  "split_on c [] = [[]]"
| "split_on c (x # xs) =
     (if x = c then [] # split_on c xs
      else (case split_on c xs of [] \<Rightarrow> [[x]] | w # ws \<Rightarrow> (x # w) # ws))"

fun split_ws_aux :: "string \<Rightarrow> string \<Rightarrow> string list" where
  "split_ws_aux acc [] = (if acc = [] then [] else [rev acc])"
| "split_ws_aux acc (x # xs) =
     (if is_space x then (if acc = [] then split_ws_aux [] xs else rev acc # split_ws_aux [] xs)
      else split_ws_aux (x # acc) xs)"

definition split_ws :: "string \<Rightarrow> string list" where
  "split_ws s = split_ws_aux [] s"

text \<open>Decimal numerals, \<open>str(n)\<close> and \<open>int(s)\<close> on digits.\<close>

definition digit_char :: "nat \<Rightarrow> char" where
  "digit_char d = char_of (48 + d)"

definition char_digit :: "char \<Rightarrow> nat" where
  "char_digit c = ord c - 48"

fun nat_dec :: "nat \<Rightarrow> string" where
  "nat_dec n = (if n < 10 then [digit_char n] else nat_dec (n div 10) @ [digit_char (n mod 10)])"

declare nat_dec.simps [simp del]

definition int_dec :: "int \<Rightarrow> string" where
  "int_dec i = (if i < 0 then CHR ''-'' # nat_dec (nat (- i)) else nat_dec (nat i))"

definition dec_nat :: "string \<Rightarrow> nat" where
  "dec_nat s = foldl (\<lambda>n c. 10 * n + char_digit c) 0 s"

lemma ord_digit_char: "d < 10 \<Longrightarrow> ord (digit_char d) = 48 + d"
  by (simp add: digit_char_def)

lemma is_digit_digit_char: "d < 10 \<Longrightarrow> is_digit (digit_char d)"
  by (simp add: is_digit_def ord_digit_char)

lemma char_digit_digit_char: "d < 10 \<Longrightarrow> char_digit (digit_char d) = d"
  by (simp add: char_digit_def ord_digit_char)

lemma nat_dec_digits: "c \<in> set (nat_dec n) \<Longrightarrow> is_digit c"
proof (induction n rule: nat_dec.induct)
  case (1 n)
  then show ?case
    by (cases "n < 10") (auto simp: nat_dec.simps [of n] is_digit_digit_char)
qed

lemma nat_dec_nonempty [simp]: "nat_dec n \<noteq> []"
  by (subst nat_dec.simps) simp

lemma dec_nat_nat_dec [simp]: "dec_nat (nat_dec n) = n"
proof (induction n rule: nat_dec.induct)
  case (1 n)
  then show ?case
    by (cases "n < 10")
      (simp_all add: nat_dec.simps [of n] dec_nat_def char_digit_digit_char)
qed

lemma nat_dec_inj: "nat_dec m = nat_dec n \<Longrightarrow> m = n"
  by (metis dec_nat_nat_dec)

text \<open>The numeral of a positive number does not start with a zero.\<close>

lemma nat_dec_hd: "0 < n \<Longrightarrow> hd (nat_dec n) \<noteq> CHR ''0''"
proof (induction n rule: nat_dec.induct)
  case (1 n)
  show ?case
  proof (cases "n < 10")
    case True
    with "1.prems" have "ord (digit_char n) \<noteq> ord (CHR ''0'')"
      by (simp add: ord_digit_char)
    with True show ?thesis by (auto simp: nat_dec.simps [of n])
  next
    case False
    with "1.IH" show ?thesis by (auto simp: nat_dec.simps [of n])
  qed
qed

lemma digit_char_eqI: "ord c = 48 + d \<Longrightarrow> digit_char d = c"
  by (metis char_of_char digit_char_def)

lemma nat_dec_0: "nat_dec 0 = ''0''"
  by (simp add: nat_dec.simps digit_char_eqI [of "CHR ''0''"])

section \<open>Lists\<close>

text \<open>\<open>xs.index(x)\<close>, \<open>None\<close> where Python raises \<open>ValueError\<close>.\<close>

fun index_of :: "'a \<Rightarrow> 'a list \<Rightarrow> nat option" where
  "index_of x [] = None"
| "index_of x (y # ys) = (if x = y then Some 0 else map_option Suc (index_of x ys))"

lemma index_of_None [simp]: "index_of x xs = None \<longleftrightarrow> x \<notin> set xs"
  by (induction xs) auto

lemma index_of_Some_nth: "index_of x xs = Some i \<Longrightarrow> i < length xs \<and> xs ! i = x"
  by (induction xs arbitrary: i) (auto split: if_splits)

lemma index_of_distinct: "distinct xs \<Longrightarrow> i < length xs \<Longrightarrow> index_of (xs ! i) xs = Some i"
proof (induction xs arbitrary: i)
  case (Cons x xs)
  then show ?case by (cases i) (auto simp: in_set_conv_nth)
qed simp

lemma index_of_inj: "index_of x xs = Some i \<Longrightarrow> index_of y xs = Some i \<Longrightarrow> x = y"
  by (metis index_of_Some_nth)

text \<open>A list whose positions in another list ascend is a subsequence of it.\<close>

lemma positions_subseq:
  assumes "list_all2 (\<lambda>y p. index_of y xs = Some p) ys ps" and "sorted_wrt (<) ps"
  shows "subseq ys xs"
proof -
  have "subseq ys (drop k xs)" if "\<forall>p \<in> set ps. k \<le> p" for k
    using assms that
  proof (induction ys ps arbitrary: k rule: list_all2_induct)
    case Nil
    then show ?case by simp
  next
    case (Cons y ys p ps)
    from Cons.hyps(1) have p: "p < length xs" "xs ! p = y"
      by (auto dest: index_of_Some_nth)
    from Cons.prems have kp: "k \<le> p" by simp
    from Cons.prems have "\<forall>q \<in> set ps. Suc p \<le> q" by (simp add: Suc_le_eq)
    with Cons have "subseq ys (drop (Suc p) xs)" by simp
    with p have "subseq (y # ys) (drop p xs)"
      by (metis Cons_nth_drop_Suc subseq_Cons2)
    moreover have "subseq (drop p xs) (drop k xs)"
      using kp by (metis suffix_drop suffix_imp_subseq drop_drop le_add_diff_inverse2)
    ultimately show ?case by (rule subseq_order.trans)
  qed
  from this [of 0] show ?thesis by simp
qed

lemma find_Some_iff_first:
  "find P xs = Some x \<Longrightarrow> x \<in> set xs \<and> P x"
  by (auto simp: find_Some_iff in_set_conv_nth)

lemma sort_key_fst_map_of:
  "distinct (map fst kvs) \<Longrightarrow> map_of (sort_key fst kvs) = map_of kvs"
  by (subst map_of_inject_set) (simp_all add: distinct_map)

text \<open>Sorting by a key that a map leaves alone, and sums and maxima over a sorted list.\<close>

lemma map_insort_key:
  "(\<And>x. f (g x) = f x) \<Longrightarrow> map g (insort_key f x xs) = insort_key f (g x) (map g xs)"
  by (induction xs) auto

lemma map_sort_key:
  "(\<And>x. f (g x) = f x) \<Longrightarrow> map g (sort_key f xs) = sort_key f (map g xs)"
  by (induction xs) (auto simp: map_insort_key)

lemma distinct_map_sort_key: "distinct (map f (sort_key f xs)) \<longleftrightarrow> distinct (map f xs)"
  by (induction xs) (auto simp: distinct_insort_key)

lemma sum_list_sort_key:
  fixes f :: "'a \<Rightarrow> nat"
  shows "sum_list (map f (sort_key g xs)) = sum_list (map f xs)"
proof (induction xs)
  case (Cons x xs)
  have "sum_list (map f (insort_key g x ys)) = f x + sum_list (map f ys)" for ys
    by (induction ys) auto
  with Cons show ?case by simp
qed simp

lemma foldr_max_le:
  fixes n :: nat
  shows "foldr max xs b \<le> n \<longleftrightarrow> b \<le> n \<and> (\<forall>x \<in> set xs. x \<le> n)"
  by (induction xs) auto

lemma add_foldr_max_Suc_le:
  fixes n :: nat
  shows "d + foldr max (map Suc xs) 0 \<le> n \<longleftrightarrow> d \<le> n \<and> (\<forall>x \<in> set xs. Suc d + x \<le> n)"
  by (induction xs) (auto simp: max_def)

text \<open>A writer with a reader that undoes it is injective.\<close>

lemma read_back_inj:
  assumes "\<And>x. P x \<Longrightarrow> f (g x) = Inr x" and "P v" and "P w" and "g v = g w"
  shows "v = w"
proof -
  have "Inr v = f (g v)" using assms(1,2) by simp
  also have "\<dots> = f (g w)" by (simp only: assms(4))
  also have "\<dots> = Inr w" using assms(1,3) by simp
  finally show ?thesis by simp
qed

text \<open>Association lists with distinct keys, compared up to order.\<close>

lemma sort_key_fst_eq_iff:
  assumes "distinct (map fst xs)" and "distinct (map fst ys)"
  shows "sort_key fst xs = sort_key fst ys \<longleftrightarrow> set xs = set ys"
proof
  assume "set xs = set ys"
  moreover have "inj_on fst (set (sort_key fst xs) \<union> set (sort_key fst ys))" if "set xs = set ys"
    using assms(1) that by (simp add: distinct_map)
  ultimately show "sort_key fst xs = sort_key fst ys"
    using assms by (intro map_sorted_distinct_set_unique [where f = fst])
      (auto simp: distinct_map_sort_key)
qed (metis set_sort)

lemma map_of_map_prod: "map_of (map (map_prod id f) kvs) k = map_option f (map_of kvs k)"
  by (induction kvs) auto

lemma assoc_set_eq_iff:
  assumes "distinct (map fst xs)" and "distinct (map fst ys)"
  shows "set xs = set ys \<longleftrightarrow>
    fst ` set xs = fst ` set ys \<and> (\<forall>kv \<in> set ys. map_of xs (fst kv) = Some (snd kv))"
proof
  assume r: "fst ` set xs = fst ` set ys \<and> (\<forall>kv \<in> set ys. map_of xs (fst kv) = Some (snd kv))"
  have "map_of xs k = map_of ys k" for k
  proof (cases "map_of ys k")
    case None
    with r show ?thesis by (metis map_of_eq_None_iff)
  next
    case (Some v)
    with r show ?thesis by (fastforce dest: map_of_SomeD)
  qed
  with assms show "set xs = set ys" by (metis map_of_inject_set ext)
qed (use assms in auto)

text \<open>Subsequences, and the one element with a given key.\<close>

lemma subseq_distinct: "subseq xs ys \<Longrightarrow> distinct ys \<Longrightarrow> distinct xs"
  by (induction rule: list_emb.induct) (auto dest: list_emb_set)

lemma subseq_set: "subseq xs ys \<Longrightarrow> set xs \<subseteq> set ys"
  by (auto dest: list_emb_set)

lemma find_key_Some:
  "distinct (map f xs) \<Longrightarrow> find (\<lambda>e. f e = k) xs = Some e \<longleftrightarrow> e \<in> set xs \<and> f e = k"
  by (induction xs) auto

end
