(* ===== verification/Json.thy ===== *)
theory Json
  imports Prelude
begin

text \<open>
  JSON values, the one canonical encoding of a record (\<open>canonical_json_bytes\<close> of
  \<open>system/grok-proxy/grok_ms/contract.py\<close>) and the strict control-packet reader and writer of
  \<open>system/grok-proxy/grok_ms/ipc.py\<close>. The standard library's \<open>json\<close> encoder and decoder are
  modelled as far as these modules use them. Main results: the encoder is injective on key-sorted
  values, the strict reader returns exactly the value a writer sent, whatever it accepts respects
  the bounds of \<open>_validate_json_tree\<close>, and it never runs out of the fuel it is given.
\<close>

section \<open>Values\<close>

text \<open>
  The Python values a record is made of. An object is a \<open>dict\<close> in insertion order; the keys of a
  \<open>dict\<close> are distinct, which \<open>json_wf\<close> states of a whole value. Floats never occur: the encoder
  refuses them and the readers modelled here stop at them.
\<close>

datatype json =
    JNull
  | JBool bool
  | JInt int
  | JStr string
  | JArr "json list"
  | JObj "(string \<times> json) list"

type_synonym jobject = "(string \<times> json) list"

primrec json_wf :: "json \<Rightarrow> bool" where
  "json_wf JNull = True"
| "json_wf (JBool b) = True"
| "json_wf (JInt i) = True"
| "json_wf (JStr s) = True"
| "json_wf (JArr xs) = list_all id (map json_wf xs)"
| "json_wf (JObj kvs) =
     (distinct (map fst kvs) \<and> list_all snd (map (map_prod id json_wf) kvs))"

text \<open>\<open>sort_keys=True\<close>: the value with the keys of every object in ascending order.\<close>

primrec json_canon :: "json \<Rightarrow> json" where
  "json_canon JNull = JNull"
| "json_canon (JBool b) = JBool b"
| "json_canon (JInt i) = JInt i"
| "json_canon (JStr s) = JStr s"
| "json_canon (JArr xs) = JArr (map json_canon xs)"
| "json_canon (JObj kvs) = JObj (sort_key fst (map (map_prod id json_canon) kvs))"

section \<open>The encoder\<close>

abbreviation DQ :: char where "DQ \<equiv> CHR 0x22"
abbreviation BS :: char where "BS \<equiv> CHR 0x5C"

definition hex_digit :: "nat \<Rightarrow> char" where
  "hex_digit d = (if d < 10 then char_of (48 + d) else char_of (87 + d))"

definition json_escape :: "char \<Rightarrow> string" where
  "json_escape c =
     (if c = DQ then [BS, DQ]
      else if c = BS then [BS, BS]
      else if ord c = 10 then [BS, CHR ''n'']
      else if ord c = 13 then [BS, CHR ''r'']
      else if ord c = 9 then [BS, CHR ''t'']
      else if ord c = 12 then [BS, CHR ''f'']
      else if ord c = 8 then [BS, CHR ''b'']
      else if 32 \<le> ord c \<and> ord c \<le> 126 then [c]
      else [BS, CHR ''u'', CHR ''0'', CHR ''0'', hex_digit (ord c div 16), hex_digit (ord c mod 16)])"

definition json_quote :: "string \<Rightarrow> string" where
  "json_quote s = DQ # concat (map json_escape s) @ [DQ]"

definition json_member :: "string \<times> string \<Rightarrow> string" where
  "json_member kd = json_quote (fst kd) @ CHR '':'' # snd kd"

primrec json_dumps :: "json \<Rightarrow> string" where
  "json_dumps JNull = ''null''"
| "json_dumps (JBool b) = (if b then ''true'' else ''false'')"
| "json_dumps (JInt i) = int_dec i"
| "json_dumps (JStr s) = json_quote s"
| "json_dumps (JArr xs) = CHR ''['' # join '','' (map json_dumps xs) @ '']''"
| "json_dumps (JObj kvs) =
     CHR ''{'' # join '','' (map json_member (map (map_prod id json_dumps) kvs)) @ ''}''"

text \<open>
  \<open>canonical_json_bytes\<close>: \<open>json.dumps\<close> with \<open>ensure_ascii\<close>, sorted keys and no spaces. On the
  values above \<open>_json_primitive\<close> is the identity.
\<close>

definition canonical_json_bytes :: "json \<Rightarrow> string" where
  "canonical_json_bytes v = json_dumps (json_canon v)"

section \<open>The decoder\<close>

definition is_json_ws :: "char \<Rightarrow> bool" where
  "is_json_ws c \<longleftrightarrow> ord c \<in> {9, 10, 13, 32}"

definition skip_ws :: "string \<Rightarrow> string" where
  "skip_ws s = dropWhile is_json_ws s"

abbreviation json_err :: "string \<Rightarrow> 'a result" where
  "json_err msg \<equiv> raise JSONDecodeError msg"

definition hex_val :: "char \<Rightarrow> nat option" where
  "hex_val c =
     (if is_digit c then Some (ord c - 48)
      else if 97 \<le> ord c \<and> ord c \<le> 102 then Some (ord c - 87)
      else if 65 \<le> ord c \<and> ord c \<le> 70 then Some (ord c - 55)
      else None)"

definition hex4 :: "char \<Rightarrow> char \<Rightarrow> char \<Rightarrow> char \<Rightarrow> nat option" where
  "hex4 a b c d =
     Option.bind (hex_val a) (\<lambda>w. Option.bind (hex_val b) (\<lambda>x. Option.bind (hex_val c) (\<lambda>y.
       Option.bind (hex_val d) (\<lambda>z. Some (((w * 16 + x) * 16 + y) * 16 + z)))))"

definition simple_escape :: "char \<Rightarrow> char option" where
  "simple_escape e =
     (if e = DQ then Some DQ
      else if e = BS then Some BS
      else if e = CHR ''/'' then Some (CHR ''/'')
      else if e = CHR ''b'' then Some (char_of (8::nat))
      else if e = CHR ''f'' then Some (char_of (12::nat))
      else if e = CHR ''n'' then Some (char_of (10::nat))
      else if e = CHR ''r'' then Some (char_of (13::nat))
      else if e = CHR ''t'' then Some (char_of (9::nat))
      else None)"

definition push_char :: "char \<Rightarrow> (string \<times> string) result \<Rightarrow> (string \<times> string) result" where
  "push_char c m = bindE m (\<lambda>(t, r). Inr (c # t, r))"

text \<open>The characters of a string literal after its opening quote.\<close>

fun parse_str :: "string \<Rightarrow> (string \<times> string) result" where
  "parse_str [] = json_err ''Unterminated string''"
| "parse_str (c # cs) =
     (if c = DQ then Inr ([], cs)
      else if c = BS then
        (case cs of
           [] \<Rightarrow> json_err ''Unterminated string''
         | e # es \<Rightarrow>
             (if e = CHR ''u'' then
                (case es of
                   x1 # x2 # x3 # x4 # rest \<Rightarrow>
                     (case hex4 x1 x2 x3 x4 of
                        None \<Rightarrow> json_err ''Invalid unicode escape''
                      | Some n \<Rightarrow>
                          (if n < 256 then push_char (char_of n) (parse_str rest)
                           else raise Unmodelled ''code point above 255''))
                 | _ \<Rightarrow> json_err ''Invalid unicode escape'')
              else
                (case simple_escape e of
                   None \<Rightarrow> json_err ''Invalid escape''
                 | Some ch \<Rightarrow> push_char ch (parse_str es))))
      else if ord c < 32 then json_err ''Invalid control character''
      else push_char c (parse_str cs))"

text \<open>
  A number. \<open>h\<close> is what the \<open>parse_float\<close> and \<open>parse_constant\<close> hooks raise. A fraction or an
  exponent counts only when a digit follows, as in the decoder's regular expression.
\<close>

definition float_suffix :: "string \<Rightarrow> bool" where
  "float_suffix s =
     (case s of
        c # d # t \<Rightarrow>
          (if c = CHR ''.'' then is_digit d
           else if c = CHR ''e'' \<or> c = CHR ''E'' then
             is_digit d \<or>
             ((d = CHR ''+'' \<or> d = CHR ''-'') \<and> (case t of x # _ \<Rightarrow> is_digit x | [] \<Rightarrow> False))
           else False)
      | _ \<Rightarrow> False)"

definition parse_natural :: "exc \<Rightarrow> bool \<Rightarrow> string \<Rightarrow> (json \<times> string) result" where
  "parse_natural h neg s =
     (case s of
        [] \<Rightarrow> json_err ''Expecting value''
      | c # cs \<Rightarrow>
          (if \<not> is_digit c then json_err ''Expecting value''
           else
             (let ds = (if c = CHR ''0'' then [c] else takeWhile is_digit s);
                  r = (if c = CHR ''0'' then cs else dropWhile is_digit s);
                  n = int (dec_nat ds)
              in if float_suffix r then Inl h else Inr (JInt (if neg then - n else n), r))))"

definition parse_number :: "exc \<Rightarrow> string \<Rightarrow> (json \<times> string) result" where
  "parse_number h s =
     (case s of
        c # cs \<Rightarrow> (if c = CHR ''-'' then parse_natural h True cs else parse_natural h False s)
      | [] \<Rightarrow> json_err ''Expecting value'')"

text \<open>
  The scanner. \<open>ph\<close> is the \<open>object_pairs_hook\<close>, applied to the members of an object once its
  closing brace is read. The number bounds the nested calls; of two nested calls at least one
  consumes a character, so twice the length of the text plus one is enough (\<open>parse_fuel\<close> below).
\<close>

fun parse_value :: "exc \<Rightarrow> (jobject \<Rightarrow> jobject result) \<Rightarrow> nat \<Rightarrow> string \<Rightarrow> (json \<times> string) result"
and parse_elems :: "exc \<Rightarrow> (jobject \<Rightarrow> jobject result) \<Rightarrow> nat \<Rightarrow> string \<Rightarrow> (json list \<times> string) result"
and parse_members :: "exc \<Rightarrow> (jobject \<Rightarrow> jobject result) \<Rightarrow> nat \<Rightarrow> string \<Rightarrow> (jobject \<times> string) result"
where
  "parse_value h ph 0 s = raise OutOfFuel []"
| "parse_value h ph (Suc n) s =
     (case s of
        [] \<Rightarrow> json_err ''Expecting value''
      | c # cs \<Rightarrow>
          (if c = DQ then bindE (parse_str cs) (\<lambda>(t, r). Inr (JStr t, r))
           else if c = CHR ''{'' then
             (case skip_ws cs of
                [] \<Rightarrow> json_err ''Expecting property name''
              | d # ds \<Rightarrow>
                  (if d = CHR ''}'' then bindE (ph []) (\<lambda>kvs. Inr (JObj kvs, ds))
                   else bindE (parse_members h ph n (d # ds)) (\<lambda>(kvs, r).
                          bindE (ph kvs) (\<lambda>kvs'. Inr (JObj kvs', r)))))
           else if c = CHR ''['' then
             (case skip_ws cs of
                [] \<Rightarrow> json_err ''Expecting value''
              | d # ds \<Rightarrow>
                  (if d = CHR '']'' then Inr (JArr [], ds)
                   else bindE (parse_elems h ph n (d # ds)) (\<lambda>(xs, r). Inr (JArr xs, r))))
           else if starts_with s ''null'' then Inr (JNull, drop 4 s)
           else if starts_with s ''true'' then Inr (JBool True, drop 4 s)
           else if starts_with s ''false'' then Inr (JBool False, drop 5 s)
           else if starts_with s ''NaN'' \<or> starts_with s ''Infinity'' \<or> starts_with s ''-Infinity''
             then Inl h
           else parse_number h s))"
| "parse_elems h ph 0 s = raise OutOfFuel []"
| "parse_elems h ph (Suc n) s =
     bindE (parse_value h ph n s) (\<lambda>(v, r).
       (case skip_ws r of
          [] \<Rightarrow> json_err ''Expecting delimiter''
        | e # es \<Rightarrow>
            (if e = CHR '']'' then Inr ([v], es)
             else if e = CHR '','' then
               bindE (parse_elems h ph n (skip_ws es)) (\<lambda>(xs, r'). Inr (v # xs, r'))
             else json_err ''Expecting delimiter'')))"
| "parse_members h ph 0 s = raise OutOfFuel []"
| "parse_members h ph (Suc n) s =
     (case s of
        [] \<Rightarrow> json_err ''Expecting property name''
      | c # cs \<Rightarrow>
          (if c \<noteq> DQ then json_err ''Expecting property name''
           else
             bindE (parse_str cs) (\<lambda>(k, r).
               (case skip_ws r of
                  [] \<Rightarrow> json_err ''Expecting colon''
                | d # ds \<Rightarrow>
                    (if d \<noteq> CHR '':'' then json_err ''Expecting colon''
                     else
                       bindE (parse_value h ph n (skip_ws ds)) (\<lambda>(v, r').
                         (case skip_ws r' of
                            [] \<Rightarrow> json_err ''Expecting delimiter''
                          | e # es \<Rightarrow>
                              (if e = CHR ''}'' then Inr ([(k, v)], es)
                               else if e = CHR '','' then
                                 bindE (parse_members h ph n (skip_ws es)) (\<lambda>(kvs, r'').
                                   Inr ((k, v) # kvs, r''))
                               else json_err ''Expecting delimiter'')))))))) "

definition json_loads :: "exc \<Rightarrow> (jobject \<Rightarrow> jobject result) \<Rightarrow> string \<Rightarrow> json result" where
  "json_loads h ph text =
     bindE (parse_value h ph (2 * length text + 1) (skip_ws text)) (\<lambda>(v, r).
       if skip_ws r = [] then Inr v else json_err ''Extra data'')"

text \<open>Without an \<open>object_pairs_hook\<close> a repeated key keeps its place and takes the last value.\<close>

fun dict_insert :: "string \<Rightarrow> json \<Rightarrow> jobject \<Rightarrow> jobject" where
  "dict_insert k v [] = [(k, v)]"
| "dict_insert k v ((k', v') # kvs) =
     (if k = k' then (k, v) # kvs else (k', v') # dict_insert k v kvs)"

definition dict_of_pairs :: "jobject \<Rightarrow> jobject result" where
  "dict_of_pairs kvs = Inr (foldl (\<lambda>d (k, v). dict_insert k v d) [] kvs)"

definition plain_json_loads :: "string \<Rightarrow> json result" where
  "plain_json_loads = json_loads (Exc Unmodelled ''float'') dict_of_pairs"

section \<open>The strict packet reader and writer\<close>

text \<open>\<open>_object_without_duplicates\<close>\<close>

fun object_without_duplicates :: "jobject \<Rightarrow> jobject result" where
  "object_without_duplicates [] = Inr []"
| "object_without_duplicates ((k, v) # kvs) =
     bindE (object_without_duplicates kvs) (\<lambda>rest.
       if k \<in> fst ` set rest then raise ProtocolError ''duplicate JSON key'' else Inr ((k, v) # rest))"

definition MAX_JSON_DEPTH :: nat where "MAX_JSON_DEPTH = 16"
definition MAX_JSON_NODES :: nat where "MAX_JSON_NODES = 4096"
definition MAX_JSON_STRING :: nat where "MAX_JSON_STRING = 16384"
definition DEFAULT_MAX_PACKET_BYTES :: nat where "DEFAULT_MAX_PACKET_BYTES = 65536"

text \<open>
  \<open>visit\<close> inside \<open>_validate_json_tree\<close>: the \<open>nonlocal\<close> node counter is passed through. The path
  argument of the source only feeds messages.
\<close>

fun visit :: "json \<Rightarrow> nat \<Rightarrow> nat \<Rightarrow> nat result"
and visit_items :: "json list \<Rightarrow> nat \<Rightarrow> nat \<Rightarrow> nat result"
and visit_members :: "jobject \<Rightarrow> nat \<Rightarrow> nat \<Rightarrow> nat result"
where
  "visit item depth nodes =
     (if Suc nodes > MAX_JSON_NODES then raise ProtocolError ''JSON record has too many values''
      else if depth > MAX_JSON_DEPTH then raise ProtocolError ''JSON record is nested too deeply''
      else
        (case item of
           JNull \<Rightarrow> Inr (Suc nodes)
         | JBool _ \<Rightarrow> Inr (Suc nodes)
         | JInt i \<Rightarrow>
             (if - (2 ^ 63) \<le> i \<and> i \<le> 2 ^ 63 - 1 then Inr (Suc nodes)
              else raise ProtocolError ''integer exceeds signed 64-bit range'')
         | JStr s \<Rightarrow>
             (if length s > MAX_JSON_STRING then raise ProtocolError ''string is too long''
              else if (\<exists>c \<in> set s. ord c = 0) then raise ProtocolError ''string contains NUL''
              else Inr (Suc nodes))
         | JArr xs \<Rightarrow> visit_items xs (Suc depth) (Suc nodes)
         | JObj kvs \<Rightarrow> visit_members kvs (Suc depth) (Suc nodes)))"
| "visit_items [] depth nodes = Inr nodes"
| "visit_items (x # xs) depth nodes = bindE (visit x depth nodes) (visit_items xs depth)"
| "visit_members [] depth nodes = Inr nodes"
| "visit_members ((k, v) # kvs) depth nodes =
     (if length k > 256 then raise ProtocolError ''invalid object key''
      else bindE (visit v depth nodes) (visit_members kvs depth))"

declare visit.simps [simp del]

definition validate_json_tree :: "json \<Rightarrow> unit result" where
  "validate_json_tree v = voidE (visit v 0 0)"

text \<open>UTF-8, as far as the decoded text stays below code point 256.\<close>

fun utf8_decode :: "string \<Rightarrow> string result" where
  "utf8_decode [] = Inr []"
| "utf8_decode (c # cs) =
     (if ord c < 128 then bindE (utf8_decode cs) (\<lambda>t. Inr (c # t))
      else if ord c < 194 \<or> 244 < ord c then raise UnicodeDecodeError ''invalid start byte''
      else if ord c < 196 then
        (case cs of
           [] \<Rightarrow> raise UnicodeDecodeError ''unexpected end of data''
         | d # ds \<Rightarrow>
             (if 128 \<le> ord d \<and> ord d < 192
              then bindE (utf8_decode ds) (\<lambda>t. Inr (char_of ((ord c - 192) * 64 + (ord d - 128)) # t))
              else raise UnicodeDecodeError ''invalid continuation byte''))
      else raise Unmodelled ''code point above 255'')"

definition strict_json_loads :: "string \<Rightarrow> nat \<Rightarrow> jobject result" where
  "strict_json_loads data max_packet_bytes =
     thenE (raise_if (data = []) ProtocolError ''empty control packet'')
    (thenE (raise_if (length data > max_packet_bytes) ProtocolError ''control packet is too large'')
    (bindE (catchE (utf8_decode data) (\<lambda>c. c = UnicodeDecodeError)
             (\<lambda>_. raise ProtocolError ''control packet is not valid UTF-8'')) (\<lambda>text.
     bindE (catchE (json_loads (Exc ProtocolError ''floating-point JSON values are forbidden'')
                      object_without_duplicates text)
             (\<lambda>c. c \<noteq> ProtocolError \<and> is_value_error c)
             (\<lambda>_. raise ProtocolError ''invalid JSON control packet'')) (\<lambda>value.
       (case value of
          JObj kvs \<Rightarrow> thenE (validate_json_tree value) (Inr kvs)
        | _ \<Rightarrow> raise ProtocolError ''control packet root must be an object'')))))"

definition encode_packet :: "json \<Rightarrow> nat \<Rightarrow> string result" where
  "encode_packet payload max_packet_bytes =
     (case payload of
        JObj _ \<Rightarrow>
          (let data = canonical_json_bytes payload in
             thenE (raise_if (length data > max_packet_bytes) ProtocolError
                      ''control packet is too large'') (Inr data))
      | _ \<Rightarrow> raise ProtocolError ''control packet payload must be an object'')"

section \<open>Facts about the encoder and the decoder\<close>

lemma skip_ws_Nil [simp]: "skip_ws [] = []"
  by (simp add: skip_ws_def)

lemma skip_ws_Cons [simp]: "\<not> is_json_ws c \<Longrightarrow> skip_ws (c # cs) = c # cs"
  by (simp add: skip_ws_def)

lemma skip_ws_length: "length (skip_ws s) \<le> length s"
  by (simp add: skip_ws_def length_dropWhile_le)

lemma skip_ws_length_Cons: "skip_ws s = c # cs \<Longrightarrow> length cs < length s"
  using skip_ws_length [of s] by simp

lemma not_json_ws_delims [simp]:
  "\<not> is_json_ws DQ" "\<not> is_json_ws (CHR '','')" "\<not> is_json_ws (CHR '':'')"
  "\<not> is_json_ws (CHR ''{'')" "\<not> is_json_ws (CHR ''}'')" "\<not> is_json_ws (CHR ''['')"
  "\<not> is_json_ws (CHR '']'')" "\<not> is_json_ws (CHR ''-'')" "\<not> is_json_ws (CHR ''n'')"
  "\<not> is_json_ws (CHR ''t'')" "\<not> is_json_ws (CHR ''f'')"
  by (simp_all add: is_json_ws_def)

lemma hex_val_hex_digit: "d < 16 \<Longrightarrow> hex_val (hex_digit d) = Some d"
  by (auto simp: hex_val_def hex_digit_def is_digit_def)

lemma hex_val_0: "hex_val (CHR ''0'') = Some 0"
  by (simp add: hex_val_def is_digit_def)

lemma hex4_low: "n < 256 \<Longrightarrow>
    hex4 (CHR ''0'') (CHR ''0'') (hex_digit (n div 16)) (hex_digit (n mod 16)) = Some n"
  by (simp add: hex4_def hex_val_0 hex_val_hex_digit less_mult_imp_div_less)

lemma char_eq_iff_ord: "c = d \<longleftrightarrow> ord c = ord d"
  by simp

lemma ord_eqD: "ord c = n \<Longrightarrow> c = char_of n"
  by (metis char_of_char)

lemma char_of_DQ_BS: "char_of (34::nat) = DQ" "char_of (92::nat) = BS"
  using ord_eqD [of DQ 34] ord_eqD [of BS 92] by simp_all

lemma parse_str_escape: "parse_str (json_escape c @ t) = push_char c (parse_str t)"
proof -
  have u: "ord c < 256" by (rule ord_less_256)
  show ?thesis
    by (auto simp: json_escape_def simple_escape_def hex4_low u char_eq_iff_ord [of c] char_of_DQ_BS
        dest!: ord_eqD)
qed

lemma parse_str_quote: "parse_str (concat (map json_escape s) @ DQ # rest) = Inr (s, rest)"
  by (induction s) (simp_all add: parse_str_escape push_char_def)

text \<open>What follows a value in an encoded text never continues a number.\<close>

definition ends_value :: "string \<Rightarrow> bool" where
  "ends_value s \<longleftrightarrow> s = [] \<or> hd s \<in> {CHR '','', CHR '']'', CHR ''}'', CHR 0x0A}"

lemma ends_value_not_digit: "ends_value (c # s) \<Longrightarrow> \<not> is_digit c"
  by (auto simp: ends_value_def is_digit_def)

lemma ends_value_not_float: "ends_value s \<Longrightarrow> \<not> float_suffix s"
  by (auto simp: ends_value_def float_suffix_def split: list.splits)

lemma nat_dec_positive: "0 < n \<Longrightarrow> \<exists>c cs. nat_dec n = c # cs \<and> is_digit c \<and> c \<noteq> CHR ''0''"
  by (metis list.exhaust list.sel(1) nat_dec_digits nat_dec_hd nat_dec_nonempty list.set_intros(1))

lemma parse_natural_nat_dec:
  assumes "ends_value rest"
  shows "parse_natural h neg (nat_dec n @ rest) = Inr (JInt (if neg then - int n else int n), rest)"
proof -
  have t: "takeWhile is_digit rest = []" "dropWhile is_digit rest = rest"
    using assms ends_value_not_digit by (cases rest; auto)+
  show ?thesis
  proof (cases "n = 0")
    case True
    then show ?thesis
      using assms by (simp add: parse_natural_def nat_dec_0 is_digit_def ends_value_not_float
          dec_nat_def char_digit_def)
  next
    case False
    then obtain c cs where c: "nat_dec n = c # cs" "is_digit c" "c \<noteq> CHR ''0''"
      using nat_dec_positive by blast
    have all: "\<forall>x \<in> set (nat_dec n). is_digit x" by (simp add: nat_dec_digits)
    have "takeWhile is_digit (nat_dec n @ rest) = nat_dec n"
      "dropWhile is_digit (nat_dec n @ rest) = rest"
      using all t by auto
    with c assms show ?thesis
      by (simp add: parse_natural_def ends_value_not_float Let_def) (metis c(1) dec_nat_nat_dec)
  qed
qed

lemma int_dec_hd: "\<exists>c cs. int_dec i = c # cs \<and> (is_digit c \<or> c = CHR ''-'')"
  by (cases "i < 0")
    (auto simp: int_dec_def intro: nat_dec_digits, metis list.exhaust nat_dec_digits nat_dec_nonempty list.set_intros(1))

lemma json_dumps_hd:
  "\<exists>c cs. json_dumps v = c # cs \<and> \<not> is_json_ws c \<and> c \<noteq> CHR '']'' \<and> c \<noteq> CHR ''}''"
proof (cases v)
  case (JInt i)
  obtain c cs where "int_dec i = c # cs" "is_digit c \<or> c = CHR ''-''"
    using int_dec_hd by blast
  with JInt show ?thesis by (auto simp: is_json_ws_def is_digit_def)
qed (auto simp: json_quote_def)

lemma parse_number_int_dec:
  assumes "ends_value rest"
  shows "parse_number h (int_dec i @ rest) = Inr (JInt i, rest)"
proof (cases "i < 0")
  case True
  with assms show ?thesis
    by (simp add: parse_number_def int_dec_def parse_natural_nat_dec)
next
  case False
  obtain c cs where c: "nat_dec (nat i) = c # cs" "is_digit c"
    by (metis list.exhaust list.set_intros(1) nat_dec_digits nat_dec_nonempty)
  then have "c \<noteq> CHR ''-''" by (auto simp: is_digit_def)
  with False c parse_natural_nat_dec [OF assms, of h False "nat i"] show ?thesis
    by (simp add: parse_number_def int_dec_def)
qed

lemma starts_with_Cons [simp]: "starts_with (c # cs) (d # ds) \<longleftrightarrow> c = d \<and> starts_with cs ds"
  by (auto simp: starts_with_def)

lemma starts_with_Nil [simp]: "starts_with s []"
  by (simp add: starts_with_def)

lemma starts_with_Nil_Cons [simp]: "\<not> starts_with [] (d # ds)"
  by (simp add: starts_with_def)

lemma parse_value_other:
  assumes "is_digit c \<or> c = CHR ''-''" and "\<not> starts_with (c # cs) ''-Infinity''"
  shows "parse_value h ph (Suc n) (c # cs) = parse_number h (c # cs)"
proof -
  have "c \<notin> {DQ, CHR ''{'', CHR ''['', CHR ''n'', CHR ''t'', CHR ''f'', CHR ''N'', CHR ''I''}"
    using assms(1) by (auto simp: is_digit_def)
  with assms(2) show ?thesis by auto
qed

lemma parse_value_int:
  assumes "ends_value rest"
  shows "parse_value h ph (Suc n) (int_dec i @ rest) = Inr (JInt i, rest)"
proof -
  obtain c cs where c: "int_dec i = c # cs" "is_digit c \<or> c = CHR ''-''"
    using int_dec_hd by blast
  have "\<not> starts_with (int_dec i @ rest) ''-Infinity''"
  proof (cases "i < 0")
    case True
    obtain d ds where "nat_dec (nat (- i)) = d # ds" "is_digit d"
      by (metis list.exhaust list.set_intros(1) nat_dec_digits nat_dec_nonempty)
    with True show ?thesis by (auto simp: int_dec_def is_digit_def)
  next
    case False
    obtain d ds where "nat_dec (nat i) = d # ds" "is_digit d"
      by (metis list.exhaust list.set_intros(1) nat_dec_digits nat_dec_nonempty)
    with False show ?thesis by (auto simp: int_dec_def is_digit_def)
  qed
  with c have "parse_value h ph (Suc n) (int_dec i @ rest) = parse_number h (int_dec i @ rest)"
    by (simp only: append_Cons) (rule parse_value_other)
  with parse_number_int_dec [OF assms] show ?thesis by metis
qed

text \<open>The scanner reads an encoded value back, elements and members included.\<close>

lemma join_length: "x \<in> set xs \<Longrightarrow> length x \<le> length (join sep xs)"
  by (induction sep xs rule: join.induct) auto

lemma ends_value_comma [simp]:
  "ends_value (CHR '','' # s)" "ends_value (CHR '']'' # s)" "ends_value (CHR ''}'' # s)"
  "ends_value []" "ends_value [CHR 0x0A]"
  by (simp_all add: ends_value_def)

definition reads_back :: "exc \<Rightarrow> (jobject \<Rightarrow> jobject result) \<Rightarrow> json \<Rightarrow> bool" where
  "reads_back h ph v \<longleftrightarrow>
     (\<forall>n rest. length (json_dumps v) \<le> n \<longrightarrow> ends_value rest \<longrightarrow>
        parse_value h ph n (json_dumps v @ rest) = Inr (v, rest))"

lemma parse_elems_reads_back:
  assumes "xs \<noteq> []" and "\<forall>x \<in> set xs. reads_back h ph x"
    and "Suc (length (join '','' (map json_dumps xs))) \<le> n"
  shows "parse_elems h ph n (join '','' (map json_dumps xs) @ CHR '']'' # rest) = Inr (xs, rest)"
  using assms
proof (induction xs arbitrary: n rule: list_nonempty_induct)
  case (single x)
  from single.prems obtain m where n: "n = Suc m" and "length (json_dumps x) \<le> m"
    by (cases n) auto
  then have "parse_value h ph m (json_dumps x @ CHR '']'' # rest) = Inr (x, CHR '']'' # rest)"
    using single.prems unfolding reads_back_def by simp
  with n show ?case by simp
next
  case (cons x xs)
  obtain y ys where xs: "xs = y # ys" using cons.hyps by (cases xs) auto
  from cons.prems obtain m where n: "n = Suc m"
    and m: "Suc (length (json_dumps x) + length (join '','' (map json_dumps xs))) \<le> m"
    by (cases n) (auto simp: xs)
  let ?tl = "join '','' (map json_dumps xs) @ CHR '']'' # rest"
  have v: "parse_value h ph m (json_dumps x @ CHR '','' # ?tl) = Inr (x, CHR '','' # ?tl)"
    using cons.prems m unfolding reads_back_def by simp
  obtain c cs where "json_dumps y = c # cs" "\<not> is_json_ws c" using json_dumps_hd by blast
  then have ws: "skip_ws ?tl = ?tl"
    by (cases ys) (simp_all add: xs)
  have "parse_elems h ph m ?tl = Inr (xs, rest)"
    using cons m by simp
  with v ws n show ?case by (simp add: xs)
qed

definition member_text :: "string \<times> json \<Rightarrow> string" where
  "member_text kv = json_member (fst kv, json_dumps (snd kv))"

lemma member_text_eq:
  "member_text (k, v) = DQ # concat (map json_escape k) @ DQ # CHR '':'' # json_dumps v"
  by (simp add: member_text_def json_member_def json_quote_def)

lemma json_dumps_JObj:
  "json_dumps (JObj kvs) = CHR ''{'' # join '','' (map member_text kvs) @ ''}''"
proof -
  have "map json_member (map (map_prod id json_dumps) kvs) = map member_text kvs"
    by (auto simp: member_text_def)
  then show ?thesis by (simp only: json_dumps.simps)
qed

lemma reads_backI:
  assumes "\<And>n rest. length (json_dumps v) \<le> Suc n \<Longrightarrow> ends_value rest \<Longrightarrow>
      parse_value h ph (Suc n) (json_dumps v @ rest) = Inr (v, rest)"
  shows "reads_back h ph v"
  unfolding reads_back_def
proof (intro allI impI)
  fix n rest
  assume n: "length (json_dumps v) \<le> n" "ends_value rest"
  moreover have "json_dumps v \<noteq> []" using json_dumps_hd [of v] by auto
  ultimately obtain m where "n = Suc m" by (cases n) auto
  with assms n show "parse_value h ph n (json_dumps v @ rest) = Inr (v, rest)" by simp
qed

lemma parse_members_step:
  assumes "reads_back h ph v" and "length (json_dumps v) \<le> m" and "ends_value rest"
  shows "parse_members h ph (Suc m) (member_text (k, v) @ rest) =
    (case skip_ws rest of
       [] \<Rightarrow> json_err ''Expecting delimiter''
     | e # es \<Rightarrow>
         (if e = CHR ''}'' then Inr ([(k, v)], es)
          else if e = CHR '','' then
            bindE (parse_members h ph m (skip_ws es)) (\<lambda>(kvs, r). Inr ((k, v) # kvs, r))
          else json_err ''Expecting delimiter''))"
proof -
  have v: "parse_value h ph m (json_dumps v @ rest) = Inr (v, rest)"
    using assms by (simp add: reads_back_def)
  obtain c cs where "json_dumps v = c # cs" "\<not> is_json_ws c" using json_dumps_hd by blast
  then have "skip_ws (json_dumps v @ rest) = json_dumps v @ rest" by simp
  with v show ?thesis
    by (simp add: member_text_eq parse_str_quote)
qed

lemma parse_members_reads_back:
  assumes "kvs \<noteq> []" and "\<forall>kv \<in> set kvs. reads_back h ph (snd kv)"
    and "Suc (length (join '','' (map member_text kvs))) \<le> n"
  shows "parse_members h ph n (join '','' (map member_text kvs) @ CHR ''}'' # rest) = Inr (kvs, rest)"
  using assms
proof (induction kvs arbitrary: n rule: list_nonempty_induct)
  case (single kv)
  obtain k v where kv: "kv = (k, v)" by (cases kv)
  from single.prems obtain m where n: "n = Suc m" and "length (json_dumps v) \<le> m"
    by (cases n) (auto simp: kv member_text_eq)
  with single.prems show ?case
    by (simp add: kv n parse_members_step del: parse_members.simps)
next
  case (cons kv kvs)
  obtain k v where kv: "kv = (k, v)" by (cases kv)
  obtain k' v' kvs' where kvs: "kvs = (k', v') # kvs'" using cons.hyps by (cases kvs) auto
  let ?tl = "join '','' (map member_text kvs) @ CHR ''}'' # rest"
  from cons.prems obtain m where n: "n = Suc m" and m: "length (json_dumps v) \<le> m"
    and ml: "Suc (length (join '','' (map member_text kvs))) \<le> m"
    by (cases n) (auto simp: kv kvs member_text_eq)
  have ws: "skip_ws ?tl = ?tl"
    by (cases kvs') (simp_all add: kvs member_text_eq)
  have "parse_members h ph m ?tl = Inr (kvs, rest)"
    using cons ml by simp
  moreover have "join '','' (map member_text (kv # kvs)) @ CHR ''}'' # rest =
      member_text (k, v) @ CHR '','' # ?tl"
    by (simp add: kv kvs)
  moreover have "parse_members h ph (Suc m) (member_text (k, v) @ CHR '','' # ?tl) =
      bindE (parse_members h ph m (skip_ws ?tl)) (\<lambda>(kvs, r). Inr ((k, v) # kvs, r))"
    using cons.prems m by (subst parse_members_step) (auto simp: kv)
  ultimately show ?case using ws by (simp add: n kv)
qed

text \<open>The hook leaves an object with distinct keys as it is.\<close>

definition keeps_distinct :: "(jobject \<Rightarrow> jobject result) \<Rightarrow> bool" where
  "keeps_distinct ph \<longleftrightarrow> (\<forall>kvs. distinct (map fst kvs) \<longrightarrow> ph kvs = Inr kvs)"

lemma reads_back_JArr:
  assumes "\<forall>x \<in> set xs. reads_back h ph x"
  shows "reads_back h ph (JArr xs)"
proof (rule reads_backI)
  fix n rest
  assume n: "length (json_dumps (JArr xs)) \<le> Suc n"
  show "parse_value h ph (Suc n) (json_dumps (JArr xs) @ rest) = Inr (JArr xs, rest)"
  proof (cases xs)
    case (Cons x xs')
    obtain c cs where c: "json_dumps x = c # cs" "\<not> is_json_ws c" "c \<noteq> CHR '']''"
      using json_dumps_hd by blast
    then obtain ds where "join '','' (map json_dumps xs) = c # ds"
      by (cases xs') (simp_all add: Cons)
    with parse_elems_reads_back [of xs h ph n rest] assms c n Cons show ?thesis by simp
  qed simp
qed

lemma reads_back_JObj:
  assumes "\<forall>kv \<in> set kvs. reads_back h ph (snd kv)" and "ph kvs = Inr kvs"
  shows "reads_back h ph (JObj kvs)"
proof (rule reads_backI)
  fix n rest
  assume n: "length (json_dumps (JObj kvs)) \<le> Suc n"
  show "parse_value h ph (Suc n) (json_dumps (JObj kvs) @ rest) = Inr (JObj kvs, rest)"
  proof (cases kvs)
    case Nil
    with assms(2) show ?thesis by simp
  next
    case (Cons kv kvs')
    obtain k v where "kv = (k, v)" by (cases kv)
    with Cons obtain ds where "join '','' (map member_text kvs) = DQ # ds"
      by (cases kvs') (simp_all add: member_text_eq)
    with parse_members_reads_back [of kvs h ph n rest] assms n Cons show ?thesis
      by (simp add: json_dumps_JObj del: json_dumps.simps)
  qed
qed

lemma json_dumps_reads_back:
  assumes "keeps_distinct ph" and "json_wf v"
  shows "reads_back h ph v"
  using assms(2)
proof (induction v)
  case (JArr xs)
  then show ?case by (intro reads_back_JArr) (auto simp: list_all_iff)
next
  case (JObj kvs)
  then show ?case using assms(1)
    by (intro reads_back_JObj) (auto simp: list_all_iff keeps_distinct_def)
next
  case (JInt i)
  then show ?case using parse_value_int by (intro reads_backI) simp
qed (auto intro!: reads_backI simp: json_quote_def parse_str_quote)

lemma object_without_duplicates_eq:
  "object_without_duplicates kvs =
     (if distinct (map fst kvs) then Inr kvs else raise ProtocolError ''duplicate JSON key'')"
proof (induction kvs)
  case (Cons kv kvs)
  obtain k v where "kv = (k, v)" by (cases kv)
  with Cons show ?case by (cases "distinct (map fst kvs)") simp_all
qed simp

lemma object_without_duplicates_Inr [simp]:
  "object_without_duplicates kvs = Inr r \<longleftrightarrow> r = kvs \<and> distinct (map fst kvs)"
  by (auto simp: object_without_duplicates_eq)

lemma keeps_distinct_object: "keeps_distinct object_without_duplicates"
  by (simp add: keeps_distinct_def object_without_duplicates_eq)

lemma dict_insert_fresh: "k \<notin> fst ` set d \<Longrightarrow> dict_insert k v d = d @ [(k, v)]"
  by (induction k v d rule: dict_insert.induct) auto

lemma dict_of_pairs_distinct_aux:
  "distinct (map fst (d @ kvs)) \<Longrightarrow> foldl (\<lambda>d (k, v). dict_insert k v d) d kvs = d @ kvs"
proof (induction kvs arbitrary: d)
  case (Cons kv kvs)
  obtain k v where kv: "kv = (k, v)" by (cases kv)
  with Cons.prems have "dict_insert k v d = d @ [(k, v)]"
    by (intro dict_insert_fresh) auto
  with Cons show ?case by (simp add: kv)
qed simp

lemma keeps_distinct_dict: "keeps_distinct dict_of_pairs"
  using dict_of_pairs_distinct_aux [of "[]"] by (simp add: keeps_distinct_def dict_of_pairs_def)

text \<open>The whole text, alone or as one line.\<close>

lemma json_loads_dumps_line:
  assumes "keeps_distinct ph" and "json_wf v" and "t \<in> {[], [CHR 0x0A]}"
  shows "json_loads h ph (json_dumps v @ t) = Inr v"
proof -
  obtain c cs where c: "json_dumps v = c # cs" "\<not> is_json_ws c" using json_dumps_hd by blast
  then have "skip_ws (json_dumps v @ t) = json_dumps v @ t" by simp
  moreover have "ends_value t" using assms(3) by auto
  then have "parse_value h ph (2 * length (json_dumps v @ t) + 1) (json_dumps v @ t) = Inr (v, t)"
    using json_dumps_reads_back [OF assms(1,2), of h, unfolded reads_back_def, rule_format,
        of "2 * length (json_dumps v @ t) + 1" t] by (simp del: parse_value.simps)
  moreover have "skip_ws t = []" using assms(3) by (auto simp: skip_ws_def is_json_ws_def)
  ultimately show ?thesis by (simp add: json_loads_def)
qed

lemma json_loads_dumps:
  assumes "keeps_distinct ph" and "json_wf v"
  shows "json_loads h ph (json_dumps v) = Inr v"
  using json_loads_dumps_line [OF assms, of "[]"] by simp

lemma json_dumps_inj: "json_wf v \<Longrightarrow> json_wf w \<Longrightarrow> json_dumps v = json_dumps w \<Longrightarrow> v = w"
  by (rule read_back_inj
      [of json_wf "json_loads (Exc Unmodelled []) object_without_duplicates" json_dumps];
      (rule json_loads_dumps [OF keeps_distinct_object])?)

lemma json_wf_canon: "json_wf v \<Longrightarrow> json_wf (json_canon v)"
  by (induction v) (auto simp: list_all_iff comp_def distinct_map_sort_key)

lemma json_canon_idem [simp]: "json_canon (json_canon v) = json_canon v"
proof (induction v)
  case (JObj kvs)
  then have "map (map_prod id json_canon) (map (map_prod id json_canon) kvs) =
      map (map_prod id json_canon) kvs"
    by (auto simp: snds.simps)
  then show ?case
    by (simp add: map_sort_key sort_key_id_if_sorted del: map_map)
qed auto

lemma canonical_json_bytes_inj_wf:
  "json_wf v \<Longrightarrow> json_wf w \<Longrightarrow>
   canonical_json_bytes v = canonical_json_bytes w \<longleftrightarrow> json_canon v = json_canon w"
  using json_dumps_inj [OF json_wf_canon json_wf_canon, of v w] by (auto simp: canonical_json_bytes_def)

subsection \<open>The text is ASCII\<close>

definition is_ascii :: "string \<Rightarrow> bool" where
  "is_ascii s \<longleftrightarrow> (\<forall>c \<in> set s. ord c < 128)"

lemma is_ascii_simps [simp]:
  "is_ascii []" "is_ascii (c # s) \<longleftrightarrow> ord c < 128 \<and> is_ascii s"
  "is_ascii (s @ t) \<longleftrightarrow> is_ascii s \<and> is_ascii t"
  by (auto simp: is_ascii_def)

lemma is_ascii_join: "is_ascii sep \<Longrightarrow> \<forall>s \<in> set ss. is_ascii s \<Longrightarrow> is_ascii (join sep ss)"
  by (induction sep ss rule: join.induct) auto

lemma is_ascii_escape: "is_ascii (json_escape c)"
proof -
  have "d < 16 \<Longrightarrow> ord (hex_digit d) < 128" for d by (simp add: hex_digit_def)
  moreover have "ord c div 16 < 16" using ord_less_256 [of c]
    by (simp add: less_mult_imp_div_less)
  ultimately show ?thesis by (simp add: json_escape_def)
qed

lemma is_ascii_quote: "is_ascii (json_quote s)"
proof -
  have "is_ascii (concat (map json_escape s))"
    by (induction s) (simp_all add: is_ascii_escape)
  then show ?thesis by (simp add: json_quote_def)
qed

lemma is_ascii_int_dec: "is_ascii (int_dec i)"
proof -
  have "is_ascii (nat_dec n)" for n
    by (auto simp: is_ascii_def is_digit_def dest!: nat_dec_digits)
  then show ?thesis by (simp add: int_dec_def)
qed

lemma is_ascii_json_dumps: "is_ascii (json_dumps v)"
proof (induction v)
  case (JObj kvs)
  then have "\<forall>s \<in> set (map member_text kvs). is_ascii s"
    by (auto simp: member_text_def json_member_def is_ascii_quote snds.simps)
  then show ?case by (simp add: json_dumps_JObj is_ascii_join del: json_dumps.simps)
qed (auto simp: is_ascii_quote is_ascii_int_dec intro!: is_ascii_join)

lemma utf8_decode_ascii: "is_ascii s \<Longrightarrow> utf8_decode s = Inr s"
  by (induction s rule: utf8_decode.induct) auto

subsection \<open>What the tree check accepts\<close>

text \<open>The number of values in a tree, its height, and the limits on its leaves and keys.\<close>

primrec json_nodes :: "json \<Rightarrow> nat" where
  "json_nodes JNull = 1"
| "json_nodes (JBool b) = 1"
| "json_nodes (JInt i) = 1"
| "json_nodes (JStr s) = 1"
| "json_nodes (JArr xs) = Suc (sum_list (map json_nodes xs))"
| "json_nodes (JObj kvs) = Suc (sum_list (map snd (map (map_prod id json_nodes) kvs)))"

primrec json_height :: "json \<Rightarrow> nat" where
  "json_height JNull = 0"
| "json_height (JBool b) = 0"
| "json_height (JInt i) = 0"
| "json_height (JStr s) = 0"
| "json_height (JArr xs) = foldr max (map Suc (map json_height xs)) 0"
| "json_height (JObj kvs) = foldr max (map Suc (map snd (map (map_prod id json_height) kvs))) 0"

primrec json_leaves_ok :: "json \<Rightarrow> bool" where
  "json_leaves_ok JNull = True"
| "json_leaves_ok (JBool b) = True"
| "json_leaves_ok (JInt i) = (- (2 ^ 63) \<le> i \<and> i \<le> 2 ^ 63 - 1)"
| "json_leaves_ok (JStr s) = (length s \<le> MAX_JSON_STRING \<and> (\<forall>c \<in> set s. ord c \<noteq> 0))"
| "json_leaves_ok (JArr xs) = list_all id (map json_leaves_ok xs)"
| "json_leaves_ok (JObj kvs) =
     list_all (\<lambda>(k, ok). length k \<le> 256 \<and> ok) (map (map_prod id json_leaves_ok) kvs)"

definition json_bounded :: "json \<Rightarrow> bool" where
  "json_bounded v \<longleftrightarrow>
     json_nodes v \<le> MAX_JSON_NODES \<and> json_height v \<le> MAX_JSON_DEPTH \<and> json_leaves_ok v"

lemma json_nodes_pos: "0 < json_nodes v"
  by (cases v) simp_all

lemma visit_items_spec:
  assumes "\<And>x d n m. x \<in> set xs \<Longrightarrow> visit x d n = Inr m \<longleftrightarrow>
      m = n + json_nodes x \<and> m \<le> MAX_JSON_NODES \<and> d + json_height x \<le> MAX_JSON_DEPTH \<and> json_leaves_ok x"
  shows "visit_items xs d n = Inr m \<longleftrightarrow>
      m = n + sum_list (map json_nodes xs) \<and> (xs \<noteq> [] \<longrightarrow> m \<le> MAX_JSON_NODES) \<and>
      (\<forall>x \<in> set xs. d + json_height x \<le> MAX_JSON_DEPTH \<and> json_leaves_ok x)"
  using assms
proof (induction xs arbitrary: n)
  case Nil
  then show ?case by auto
next
  case (Cons x xs)
  have "visit_items (x # xs) d n = Inr m \<longleftrightarrow>
      (\<exists>k. visit x d n = Inr k \<and> visit_items xs d k = Inr m)"
    by (simp add: bindE_Inr_iff)
  also have "\<dots> \<longleftrightarrow> n + json_nodes x \<le> MAX_JSON_NODES \<and> d + json_height x \<le> MAX_JSON_DEPTH \<and>
      json_leaves_ok x \<and> visit_items xs d (n + json_nodes x) = Inr m"
    using Cons.prems by auto
  finally show ?case using Cons.IH [of "n + json_nodes x"] Cons.prems by (cases "xs = []") auto
qed

lemma visit_members_items:
  "visit_members kvs d n = Inr m \<longleftrightarrow>
     list_all (\<lambda>kv. length (fst kv) \<le> 256) kvs \<and> visit_items (map snd kvs) d n = Inr m"
  by (induction kvs arbitrary: n) (auto simp: bindE_Inr_iff split: if_splits)

lemma json_height_JArr_le:
  "d + json_height (JArr xs) \<le> n \<longleftrightarrow> d \<le> n \<and> (\<forall>x \<in> set xs. Suc d + json_height x \<le> n)"
  by (simp add: add_foldr_max_Suc_le del: map_map)

lemma json_height_JObj_le:
  "d + json_height (JObj kvs) \<le> n \<longleftrightarrow>
     d \<le> n \<and> (\<forall>x \<in> set (map snd kvs). Suc d + json_height x \<le> n)"
  by (simp add: add_foldr_max_Suc_le del: map_map)

lemma json_leaves_JObj:
  "json_leaves_ok (JObj kvs) \<longleftrightarrow>
     list_all (\<lambda>kv. length (fst kv) \<le> 256) kvs \<and> (\<forall>x \<in> set (map snd kvs). json_leaves_ok x)"
  by (induction kvs) auto

lemma visit_spec:
  "visit v d n = Inr m \<longleftrightarrow>
     m = n + json_nodes v \<and> m \<le> MAX_JSON_NODES \<and> d + json_height v \<le> MAX_JSON_DEPTH \<and> json_leaves_ok v"
proof (induction v arbitrary: d n m)
  case (JArr xs)
  have "visit (JArr xs) d n = Inr m \<longleftrightarrow> Suc n \<le> MAX_JSON_NODES \<and> d \<le> MAX_JSON_DEPTH \<and>
      visit_items xs (Suc d) (Suc n) = Inr m"
    by (simp add: visit.simps)
  with JArr visit_items_spec [where xs = xs and d = "Suc d" and n = "Suc n" and m = m] show ?case
    by (cases "xs = []") (auto simp: json_height_JArr_le list_all_iff simp del: json_height.simps)
next
  case (JObj kvs)
  then have IH: "visit x d n = Inr m \<longleftrightarrow> m = n + json_nodes x \<and> m \<le> MAX_JSON_NODES \<and>
      d + json_height x \<le> MAX_JSON_DEPTH \<and> json_leaves_ok x" if "x \<in> set (map snd kvs)" for x d n m
    using that by (auto simp: snds.simps)
  have "visit (JObj kvs) d n = Inr m \<longleftrightarrow> Suc n \<le> MAX_JSON_NODES \<and> d \<le> MAX_JSON_DEPTH \<and>
      list_all (\<lambda>kv. length (fst kv) \<le> 256) kvs \<and> visit_items (map snd kvs) (Suc d) (Suc n) = Inr m"
    by (simp add: visit.simps visit_members_items)
  with visit_items_spec [where xs = "map snd kvs" and d = "Suc d" and n = "Suc n" and m = m, OF IH] show ?case
    by (cases "kvs = []")
      (auto simp: json_height_JObj_le json_leaves_JObj comp_def
        simp del: json_height.simps json_leaves_ok.simps)
qed (auto simp: visit.simps)

lemma validate_json_tree_iff: "validate_json_tree v = Inr () \<longleftrightarrow> json_bounded v"
  by (auto simp: validate_json_tree_def voidE_Inr_iff visit_spec json_bounded_def)

lemma json_bounded_canon: "json_bounded (json_canon v) \<longleftrightarrow> json_bounded v"
proof -
  have n: "json_nodes (json_canon v) = json_nodes v"
    by (induction v) (auto simp: comp_def sum_list_sort_key snds.simps intro!: arg_cong [of _ _ sum_list])
  have h: "json_height (json_canon v) = json_height v"
  proof (induction v)
    case (JObj kvs)
    have "json_height (json_canon (JObj kvs)) \<le> k \<longleftrightarrow> json_height (JObj kvs) \<le> k" for k
      using JObj json_height_JObj_le [of 0 _ k]
      by (auto simp: snds.simps simp del: json_height.simps)
    then show ?case by (metis order.antisym order.refl)
  qed (auto simp: comp_def cong: map_cong)
  have l: "json_leaves_ok (json_canon v) \<longleftrightarrow> json_leaves_ok v"
    by (induction v) (auto simp: list_all_iff snds.simps)
  show ?thesis by (simp add: json_bounded_def n h l)
qed

section \<open>What the readers accept\<close>

text \<open>A hook whose results have distinct keys makes the scanner return well-formed values.\<close>

definition makes_distinct :: "(jobject \<Rightarrow> jobject result) \<Rightarrow> bool" where
  "makes_distinct ph \<longleftrightarrow>
     (\<forall>kvs r. ph kvs = Inr r \<longrightarrow> distinct (map fst r) \<and> snd ` set r \<subseteq> snd ` set kvs)"

lemma makes_distinct_object: "makes_distinct object_without_duplicates"
  by (simp add: makes_distinct_def)

lemma parse_natural_wf: "parse_natural h neg s = Inr (v, r) \<Longrightarrow> json_wf v"
  by (auto simp: parse_natural_def Let_def split: list.splits if_splits)

lemma parse_number_wf: "parse_number h s = Inr (v, r) \<Longrightarrow> json_wf v"
  by (auto simp: parse_number_def dest: parse_natural_wf split: list.splits if_splits)

lemma json_wf_JObj: "json_wf (JObj kvs) \<longleftrightarrow> distinct (map fst kvs) \<and> (\<forall>v \<in> snd ` set kvs. json_wf v)"
  by (auto simp: list_all_iff)

lemma json_wf_JArr: "json_wf (JArr xs) \<longleftrightarrow> (\<forall>v \<in> set xs. json_wf v)"
  by (auto simp: list_all_iff)

text \<open>The scanner's branches, one premise each.\<close>

lemma parse_value_branches:
  assumes "\<And>msg. P (json_err msg)"
    and "\<And>cs. s = DQ # cs \<Longrightarrow> P (bindE (parse_str cs) (\<lambda>(t, r). Inr (JStr t, r)))"
    and "\<And>cs ds. s = CHR ''{'' # cs \<Longrightarrow> skip_ws cs = CHR ''}'' # ds \<Longrightarrow>
      P (bindE (ph []) (\<lambda>kvs. Inr (JObj kvs, ds)))"
    and "\<And>cs d ds. s = CHR ''{'' # cs \<Longrightarrow> skip_ws cs = d # ds \<Longrightarrow> d \<noteq> CHR ''}'' \<Longrightarrow>
      P (bindE (parse_members h ph n (d # ds)) (\<lambda>(kvs, r).
           bindE (ph kvs) (\<lambda>kvs'. Inr (JObj kvs', r))))"
    and "\<And>cs ds. s = CHR ''['' # cs \<Longrightarrow> skip_ws cs = CHR '']'' # ds \<Longrightarrow> P (Inr (JArr [], ds))"
    and "\<And>cs d ds. s = CHR ''['' # cs \<Longrightarrow> skip_ws cs = d # ds \<Longrightarrow> d \<noteq> CHR '']'' \<Longrightarrow>
      P (bindE (parse_elems h ph n (d # ds)) (\<lambda>(xs, r). Inr (JArr xs, r)))"
    and "s \<noteq> [] \<Longrightarrow> P (Inr (JNull, drop 4 s))"
    and "\<And>b k. s \<noteq> [] \<Longrightarrow> 0 < k \<Longrightarrow> P (Inr (JBool b, drop k s))"
    and "P (Inl h)"
    and "P (parse_number h s)"
  shows "P (parse_value h ph (Suc n) s)"
proof (cases s)
  case Nil
  then show ?thesis using assms(1) by simp
next
  case (Cons c cs)
  consider "c = DQ" | "c = CHR ''{''" | "c = CHR ''[''"
    | "c \<noteq> DQ" "c \<noteq> CHR ''{''" "c \<noteq> CHR ''[''" by blast
  then show ?thesis
  proof cases
    case 1
    with Cons assms(2) show ?thesis by simp
  next
    case 2
    with Cons assms(1,3,4) show ?thesis by (cases "skip_ws cs") simp_all
  next
    case 3
    with Cons assms(1,5,6) show ?thesis by (cases "skip_ws cs") simp_all
  next
    case 4
    have b: "P (Inr (JBool x, drop 4 (c # cs)))" "P (Inr (JBool x, drop 5 (c # cs)))" for x
      using Cons assms(8) [of 4] assms(8) [of 5] by simp_all
    show ?thesis
      unfolding Cons parse_value.simps list.case if_not_P [OF 4(1)] if_not_P [OF 4(2)] if_not_P [OF 4(3)]
      using assms(7,9,10) b Cons by (simp only: split: if_split) blast
  qed
qed

text \<open>Every value a computation returns satisfies \<open>P\<close>.\<close>

definition returns :: "('a \<Rightarrow> bool) \<Rightarrow> ('a \<times> string) result \<Rightarrow> bool" where
  "returns P m \<longleftrightarrow> (case m of Inl e \<Rightarrow> True | Inr (x, r) \<Rightarrow> P x)"

lemma returns_simps [simp]: "returns P (Inl e)" "returns P (Inr (x, r)) \<longleftrightarrow> P x"
  by (simp_all add: returns_def)

lemma returns_bindE:
  "returns Q m \<Longrightarrow> (\<And>x r. m = Inr (x, r) \<Longrightarrow> Q x \<Longrightarrow> returns P (f (x, r))) \<Longrightarrow> returns P (bindE m f)"
  by (cases m) (auto simp: returns_def)

lemma returns_case_delim:
  "(\<And>e es. returns P (f e es)) \<Longrightarrow> returns P (case s of [] \<Rightarrow> json_err msg | e # es \<Rightarrow> f e es)"
  by (cases s) auto

lemma returns_parse_str:
  "(\<And>x r. returns P (f (x, r))) \<Longrightarrow> returns P (bindE (parse_str s) f)"
  by (cases "parse_str s") auto

lemma parse_wf:
  assumes ph: "makes_distinct ph"
  shows "returns json_wf (parse_value h ph n s)"
    and "returns (list_all json_wf) (parse_elems h ph n s)"
    and "returns (list_all (\<lambda>kv. json_wf (snd kv))) (parse_members h ph n s)"
proof (induction n arbitrary: s and s and s)
  case (Suc n)
  have obj: "returns json_wf (bindE (ph kvs) (\<lambda>kvs'. Inr (JObj kvs', r)))"
    if "list_all (\<lambda>kv. json_wf (snd kv)) kvs" for kvs r
  proof (cases "ph kvs")
    case (Inr r')
    with ph have "distinct (map fst r')" "snd ` set r' \<subseteq> snd ` set kvs"
      by (auto simp: makes_distinct_def)
    moreover from that have "\<forall>v \<in> snd ` set kvs. json_wf v" by (auto simp: list_all_iff)
    ultimately have "json_wf (JObj r')" unfolding json_wf_JObj by blast
    with Inr show ?thesis by simp
  qed simp
  {
    case 1
    show ?case
    proof (rule parse_value_branches)
      show "returns json_wf (parse_number h s)"
        by (auto simp: returns_def dest: parse_number_wf split: sum.split)
    qed (auto intro!: returns_bindE [OF Suc.IH(2)] returns_bindE [OF Suc.IH(3)] obj
        returns_parse_str simp: json_wf_JArr list_all_iff simp del: json_wf.simps(5,6))
  next
    case 2
    show ?case
      by (auto intro!: returns_bindE [OF Suc.IH(1)] returns_bindE [OF Suc.IH(2)] returns_case_delim)
  next
    case 3
    show ?case
      by (cases s) (auto intro!: returns_bindE [OF Suc.IH(1)] returns_bindE [OF Suc.IH(3)]
        returns_parse_str returns_case_delim)
  }
qed simp_all

text \<open>
  Fuel. A computation is \<open>fuelled\<close> when it stops for a reason of the decoder or of the hooks, not
  for lack of fuel, and what it leaves is shorter than what it was given.
\<close>

abbreviation decoder_error :: "exc \<Rightarrow> bool" where
  "decoder_error e \<equiv> exc_class e \<in> {JSONDecodeError, ProtocolError, Unmodelled}"

definition fuelled :: "nat \<Rightarrow> ('a \<times> string) result \<Rightarrow> bool" where
  "fuelled k m \<longleftrightarrow> (case m of Inl e \<Rightarrow> decoder_error e | Inr (x, r) \<Rightarrow> length r < k)"

lemma fuelled_simps [simp]:
  "fuelled k (Inl e) \<longleftrightarrow> decoder_error e"
  "fuelled k (Inr (x, r)) \<longleftrightarrow> length r < k"
  by (simp_all add: fuelled_def)

lemma fuelled_bindE:
  assumes "fuelled j m" and "\<And>x r. m = Inr (x, r) \<Longrightarrow> length r < j \<Longrightarrow> fuelled k (f (x, r))"
  shows "fuelled k (bindE m f)"
  using assms by (cases m) (auto simp: fuelled_def)

lemma fuelled_mono: "fuelled j m \<Longrightarrow> j \<le> k \<Longrightarrow> fuelled k m"
  by (auto simp: fuelled_def split: sum.splits)

lemma fuelled_push_char [simp]: "fuelled k (push_char c m) \<longleftrightarrow> fuelled k m"
  by (cases m) (auto simp: push_char_def)

lemma parse_str_fuelled: "fuelled (Suc (length s)) (parse_str s)"
proof (induction s rule: length_induct)
  case (1 s)
  show ?case
  proof (cases s)
    case (Cons c cs)
    have IH: "fuelled (Suc (Suc (length cs))) (parse_str t)" if "length t \<le> length cs" for t
      using 1 Cons that fuelled_mono [of "Suc (length t)" "parse_str t"] by simp
    have esc: "fuelled (Suc (Suc (length cs))) (parse_str (BS # cs))"
    proof (cases cs)
      case (Cons e es)
      show ?thesis
      proof (cases "e = CHR ''u''")
        case True
        with Cons IH show ?thesis by (auto split: list.split option.split)
      next
        case False
        with Cons IH show ?thesis by (simp split: option.split)
      qed
    qed simp
    with Cons IH show ?thesis by (cases "c = BS") simp_all
  qed simp
qed

lemma parse_natural_fuelled:
  "decoder_error h \<Longrightarrow> fuelled (length s) (parse_natural h neg s)"
proof (cases s)
  case (Cons c cs)
  have "length (dropWhile is_digit cs) < Suc (length cs)"
    using length_dropWhile_le [of is_digit cs] by simp
  with Cons show ?thesis if "decoder_error h"
    using that by (simp add: parse_natural_def Let_def)
qed (simp add: parse_natural_def)

lemma parse_number_fuelled:
  assumes "decoder_error h"
  shows "fuelled (length s) (parse_number h s)"
proof (cases s)
  case (Cons c cs)
  have "fuelled (length s) (parse_natural h True cs)"
    using parse_natural_fuelled [OF assms, of cs True] Cons by (auto elim: fuelled_mono)
  with parse_natural_fuelled [OF assms, of s False] Cons show ?thesis
    by (simp add: parse_number_def)
qed (simp add: parse_number_def)

definition hook_errors_ok :: "(jobject \<Rightarrow> jobject result) \<Rightarrow> bool" where
  "hook_errors_ok ph \<longleftrightarrow> (\<forall>kvs e. ph kvs = Inl e \<longrightarrow> decoder_error e)"

lemma fuelled_parse_str:
  assumes "\<And>x r. length r \<le> length s \<Longrightarrow> fuelled k (f (x, r))"
  shows "fuelled k (bindE (parse_str s) f)"
  using parse_str_fuelled by (rule fuelled_bindE) (simp add: assms)

lemma fuelled_case_delim:
  assumes "\<And>e es. skip_ws r = e # es \<Longrightarrow> length es < length r \<Longrightarrow> fuelled k (f e es)"
  shows "fuelled k (case skip_ws r of [] \<Rightarrow> json_err msg | e # es \<Rightarrow> f e es)"
  using assms skip_ws_length_Cons [of r] by (cases "skip_ws r") auto

text \<open>What follows an element or a member: the closing bracket or a comma and the rest.\<close>

lemma fuelled_tail:
  assumes r: "length r < k"
    and rest: "\<And>t. length t + 2 \<le> k \<Longrightarrow> fuelled (Suc (length t)) (p t)"
  shows "fuelled (Suc k)
    (case skip_ws r of [] \<Rightarrow> json_err msg
     | e # es \<Rightarrow>
         (if e = close then Inr (x, es)
          else if e = CHR '','' then bindE (p (skip_ws es)) (\<lambda>(xs, r'). Inr (g xs, r'))
          else json_err msg'))"
proof (rule fuelled_case_delim)
  fix e es
  assume "length (es :: string) < length r"
  then have es: "length (skip_ws es) + 2 \<le> k" "length es < Suc k"
    using r skip_ws_length [of es] by simp_all
  from es(1) rest [OF es(1)] have "fuelled (Suc k) (bindE (p (skip_ws es)) (\<lambda>(xs, r'). Inr (g xs, r')))"
    by (auto elim!: fuelled_bindE)
  with es(2) show "fuelled (Suc k)
      (if e = close then Inr (x, es)
       else if e = CHR '','' then bindE (p (skip_ws es)) (\<lambda>(xs, r'). Inr (g xs, r'))
       else json_err msg')" by simp
qed

lemma parse_fuel:
  assumes ph: "hook_errors_ok ph" and h: "decoder_error h"
  shows "2 * length s < n \<Longrightarrow> fuelled (length s) (parse_value h ph n s)"
    and "2 * length s + 1 < n \<Longrightarrow> fuelled (Suc (length s)) (parse_elems h ph n s)"
    and "2 * length s + 1 < n \<Longrightarrow> fuelled (Suc (length s)) (parse_members h ph n s)"
proof (induction n arbitrary: s and s and s)
  case (Suc n)
  have obj: "fuelled k (bindE (ph kvs) (\<lambda>kvs'. Inr (JObj kvs', r)))" if "length r < k" for kvs r k
    using ph that by (cases "ph kvs") (auto simp: hook_errors_ok_def)
  {
    case 1
    show ?case
    proof (rule parse_value_branches)
      fix cs
      assume "s = DQ # cs"
      then show "fuelled (length s)
          (bindE (parse_str cs) (\<lambda>(t, r). Inr (JStr t, r)))"
        by (auto intro!: fuelled_parse_str)
    next
      fix cs d ds
      assume s: "s = CHR ''{'' # cs" "skip_ws cs = d # ds"
      then have "length (d # ds) \<le> length cs" using skip_ws_length [of cs] by simp
      moreover from this s 1 have "fuelled (Suc (length (d # ds))) (parse_members h ph n (d # ds))"
        by (intro Suc.IH(3)) simp
      ultimately show "fuelled (length s)
          (bindE (parse_members h ph n (d # ds)) (\<lambda>(kvs, r). bindE (ph kvs) (\<lambda>kvs'. Inr (JObj kvs', r))))"
        using s by (auto intro!: obj elim!: fuelled_bindE)
    next
      fix cs d ds
      assume s: "s = CHR ''['' # cs" "skip_ws cs = d # ds"
      then have "length (d # ds) \<le> length cs" using skip_ws_length [of cs] by simp
      moreover from this s 1 have "fuelled (Suc (length (d # ds))) (parse_elems h ph n (d # ds))"
        by (intro Suc.IH(2)) simp
      ultimately show "fuelled (length s)
          (bindE (parse_elems h ph n (d # ds)) (\<lambda>(xs, r). Inr (JArr xs, r)))"
        using s by (auto elim!: fuelled_bindE)
    next
      show "fuelled (length s) (parse_number h s)"
        by (rule parse_number_fuelled [OF h])
    qed (use h in \<open>auto intro!: obj dest: skip_ws_length_Cons\<close>)
  next
    case 2
    then have v: "fuelled (length s) (parse_value h ph n s)"
      by (intro Suc.IH(1)) simp
    show ?case unfolding parse_elems.simps
    proof (rule fuelled_bindE [OF v], unfold prod.case, rule fuelled_tail)
      fix r :: string
      assume "length r < length s"
      then show "length r < length s" .
    next
      fix t :: string
      assume "length t + 2 \<le> length s"
      with 2 show "fuelled (Suc (length t)) (parse_elems h ph n t)"
        by (intro Suc.IH(2)) simp
    qed
  next
    case 3
    {
      fix ds :: string
      let ?s = "skip_ws ds"
      assume ds: "length ds + 2 \<le> length s"
      with skip_ws_length [of ds] have sl: "length ?s + 2 \<le> length s" by simp
      with 3 have v: "fuelled (length ?s) (parse_value h ph n ?s)" by (intro Suc.IH(1)) simp
      have "fuelled (Suc (length s))
        (bindE (parse_value h ph n ?s) (\<lambda>(v, r').
           (case skip_ws r' of
              [] \<Rightarrow> json_err ''Expecting delimiter''
            | e # es \<Rightarrow>
                (if e = CHR ''}'' then Inr ([(k, v)], es)
                 else if e = CHR '','' then
                   bindE (parse_members h ph n (skip_ws es)) (\<lambda>(kvs, r''). Inr ((k, v) # kvs, r''))
                 else json_err ''Expecting delimiter''))))" for k
      proof (rule fuelled_bindE [OF v], unfold prod.case, rule fuelled_tail)
        fix r :: string
        assume "length r < length ?s"
        with sl show "length r < length s" by simp
      next
        fix t :: string
        assume "length t + 2 \<le> length s"
        with 3 show "fuelled (Suc (length t)) (parse_members h ph n t)"
          by (intro Suc.IH(3)) simp
      qed
    }
    then show ?case unfolding parse_members.simps
      by (auto intro!: fuelled_parse_str fuelled_case_delim split: list.split)
  }
qed simp_all

lemma hook_errors_object: "hook_errors_ok object_without_duplicates"
  by (auto simp: hook_errors_ok_def object_without_duplicates_eq)

lemma hook_errors_dict: "hook_errors_ok dict_of_pairs"
  by (simp add: hook_errors_ok_def dict_of_pairs_def)

lemma json_loads_errors:
  assumes "hook_errors_ok ph" and "decoder_error h" and "json_loads h ph s = Inl e"
  shows "decoder_error e"
proof -
  have "2 * length (skip_ws s) < 2 * length s + 1" using skip_ws_length [of s] by simp
  with parse_fuel(1) [OF assms(1,2)]
  have "fuelled (length (skip_ws s)) (parse_value h ph (2 * length s + 1) (skip_ws s))" .
  with assms(3) show ?thesis
    by (cases "parse_value h ph (2 * length s + 1) (skip_ws s)")
      (auto simp: json_loads_def split: if_splits)
qed

lemma json_loads_wf:
  assumes "makes_distinct ph" and "json_loads h ph s = Inr v"
  shows "json_wf v"
  using parse_wf(1) [OF assms(1), of h "2 * length s + 1" "skip_ws s"] assms(2)
  by (auto simp: json_loads_def bindE_Inr_iff returns_def split: if_splits)

lemma utf8_decode_errors: "utf8_decode s = Inl e \<Longrightarrow> exc_class e \<in> {UnicodeDecodeError, Unmodelled}"
  by (induction s rule: utf8_decode.induct)
    (auto simp: bindE_Inl_iff split: if_splits list.splits)

lemma visit_errors:
  "visit v d n = Inl e \<Longrightarrow> exc_class e = ProtocolError"
  "visit_items xs d n = Inl e \<Longrightarrow> exc_class e = ProtocolError"
  "visit_members kvs d n = Inl e \<Longrightarrow> exc_class e = ProtocolError"
  by (induction v d n and xs d n and kvs d n rule: visit_visit_items_visit_members.induct)
    (auto simp: visit.simps bindE_Inl_iff split: if_splits json.splits)

lemma validate_json_tree_errors: "validate_json_tree v = Inl e \<Longrightarrow> exc_class e = ProtocolError"
  by (auto simp: validate_json_tree_def voidE_def bindE_Inl_iff dest: visit_errors)

lemma case_JObj_Inr:
  "(case v of JObj kvs \<Rightarrow> f kvs | _ \<Rightarrow> Inl e) = Inr y \<longleftrightarrow> (\<exists>kvs. v = JObj kvs \<and> f kvs = Inr y)"
  by (cases v) auto

lemma case_JObj_Inl:
  "(case v of JObj kvs \<Rightarrow> f kvs | _ \<Rightarrow> Inl e) = Inl e' \<longleftrightarrow>
     (\<exists>kvs. v = JObj kvs \<and> f kvs = Inl e') \<or> ((\<forall>kvs. v \<noteq> JObj kvs) \<and> e = e')"
  by (cases v) auto

text \<open>The strict reader on what the canonical writer produced, alone or as one line.\<close>

lemma strict_json_loads_canonical:
  assumes "json_wf (JObj kvs)" and "json_bounded (JObj kvs)" and "t \<in> {[], [CHR 0x0A]}"
    and "length (canonical_json_bytes (JObj kvs) @ t) \<le> m"
  shows "map_sum id JObj (strict_json_loads (canonical_json_bytes (JObj kvs) @ t) m) =
    Inr (json_canon (JObj kvs))"
proof -
  let ?v = "json_canon (JObj kvs)"
  let ?data = "json_dumps ?v @ t"
  have "json_wf ?v" using assms(1) by (rule json_wf_canon)
  then have read: "json_loads h object_without_duplicates ?data = Inr ?v" for h
    by (rule json_loads_dumps_line [OF keeps_distinct_object _ assms(3)])
  have "?data \<noteq> []" using json_dumps_hd [of ?v] by auto
  moreover have "is_ascii ?data"
    using assms(3) by (auto simp: is_ascii_json_dumps simp del: json_canon.simps json_dumps.simps)
  then have "utf8_decode ?data = Inr ?data" by (rule utf8_decode_ascii)
  moreover have "validate_json_tree ?v = Inr ()"
    using assms(2) by (simp add: validate_json_tree_iff json_bounded_canon del: json_canon.simps)
  moreover obtain kvs' where "?v = JObj kvs'" by simp
  ultimately show ?thesis
    using assms(4) read
    by (simp add: strict_json_loads_def canonical_json_bytes_def del: json_canon.simps)
qed

section \<open>Properties\<close>

text \<open>
  C6: a control packet that \<open>encode_packet\<close> produced from a well-formed payload within the limits
  is accepted by \<open>strict_json_loads\<close> on the other side, which returns the payload itself, with the
  keys of its objects in ascending order.
\<close>

theorem packet_round_trip:
  assumes "json_wf (JObj kvs)" and "json_bounded (JObj kvs)"
    and "encode_packet (JObj kvs) m = Inr data"
  shows "map_sum id JObj (strict_json_loads data m) = Inr (json_canon (JObj kvs))"
  using strict_json_loads_canonical [OF assms(1,2), of "[]" m] assms(3)
  by (auto simp: encode_packet_def Let_def thenE_Inr_iff simp del: json_canon.simps)

theorem packet_round_trip_witness:
  "map_sum id JObj (strict_json_loads ''{\"a\":[-7,null],\"b\":true}'' 100) =
     Inr (JObj [(''a'', JArr [JInt (-7), JNull]), (''b'', JBool True)])"
proof -
  let ?kvs = "[(''b'', JBool True), (''a'', JArr [JInt (-7), JNull])]"
  have "encode_packet (JObj ?kvs) 100 = Inr ''{\"a\":[-7,null],\"b\":true}''" by code_simp
  moreover have "json_wf (JObj ?kvs)" "json_bounded (JObj ?kvs)"
    "json_canon (JObj ?kvs) = JObj [(''a'', JArr [JInt (-7), JNull]), (''b'', JBool True)]"
    by code_simp+
  ultimately show ?thesis using packet_round_trip [of ?kvs 100] by simp
qed

text \<open>
  C12: whatever \<open>strict_json_loads\<close> accepts is a non-empty packet of at most the given size whose
  value has no repeated key in any object, at most 4096 values, at most 16 levels of nesting, no
  integer outside 64 bits, no string above 16384 characters or with a NUL and no key above 256.
\<close>

theorem strict_json_loads_accepts:
  assumes "strict_json_loads data m = Inr kvs"
  shows "data \<noteq> [] \<and> length data \<le> m \<and> json_wf (JObj kvs) \<and> json_bounded (JObj kvs)"
proof -
  from assms obtain t v where "data \<noteq> []" "length data \<le> m"
    and read: "json_loads (Exc ProtocolError ''floating-point JSON values are forbidden'')
        object_without_duplicates t = Inr v"
    and v: "v = JObj kvs" "validate_json_tree v = Inr ()"
    by (auto simp: strict_json_loads_def thenE_Inr_iff bindE_Inr_iff catchE_Inr_iff case_JObj_Inr)
  moreover from read have "json_wf v" by (rule json_loads_wf [OF makes_distinct_object])
  ultimately show ?thesis by (simp add: validate_json_tree_iff del: json_wf.simps)
qed

theorem strict_json_loads_accepts_witness:
  "length ''{\"k\":[1,2]}'' \<le> (20 :: nat) \<and> json_bounded (JObj [(''k'', JArr [JInt 1, JInt 2])])"
proof -
  have "strict_json_loads ''{\"k\":[1,2]}'' 20 = Inr [(''k'', JArr [JInt 1, JInt 2])]"
    by code_simp
  from strict_json_loads_accepts [OF this] show ?thesis by simp
qed

text \<open>
  C15: the only exception \<open>strict_json_loads\<close> raises on a packet is \<open>ProtocolError\<close> (apart from text
  outside the modelled code points, and with the interpreter's recursion limit left out).
\<close>

theorem strict_json_loads_only_protocol_errors:
  assumes "strict_json_loads data m = Inl e"
  shows "exc_class e = ProtocolError \<or> exc_class e = Unmodelled"
proof -
  let ?h = "Exc ProtocolError ''floating-point JSON values are forbidden''"
  have dec: "decoder_error e'" if "json_loads ?h object_without_duplicates t = Inl e'" for e' t
    by (rule json_loads_errors [OF hook_errors_object _ that]) simp
  show ?thesis using assms
    by (auto simp: strict_json_loads_def thenE_Inl_iff bindE_Inl_iff catchE_Inl_iff
case_JObj_Inl
        split: if_splits dest!: dec utf8_decode_errors validate_json_tree_errors)
qed

theorem strict_json_loads_only_protocol_errors_witness:
  "strict_json_loads ''{\"a\":1,\"a\":2}'' 100 = Inl (Exc ProtocolError ''duplicate JSON key'') \<and>
   exc_class (Exc ProtocolError ''duplicate JSON key'') \<in> {ProtocolError, Unmodelled}"
proof -
  have "strict_json_loads ''{\"a\":1,\"a\":2}'' 100 = Inl (Exc ProtocolError ''duplicate JSON key'')"
    by code_simp
  with strict_json_loads_only_protocol_errors [OF this] show ?thesis by simp
qed

text \<open>
  Two records have the same canonical bytes exactly when they are the same value up to the order
  of the keys of their objects, so the SHA-256 of the canonical bytes identifies the record.
\<close>

lemma canonical_json_bytes_eq_iff:
  assumes "json_wf v" and "json_wf w"
  shows "canonical_json_bytes v = canonical_json_bytes w \<longleftrightarrow> json_canon v = json_canon w"
  using assms by (rule canonical_json_bytes_inj_wf)

lemma canonical_json_bytes_eq_iff_witness:
  "canonical_json_bytes (JObj [(''b'', JNull), (''a'', JInt 1)]) =
   canonical_json_bytes (JObj [(''a'', JInt 1), (''b'', JNull)])"
proof -
  have "json_wf (JObj [(''b'', JNull), (''a'', JInt 1)])" "json_wf (JObj [(''a'', JInt 1), (''b'', JNull)])"
    "json_canon (JObj [(''b'', JNull), (''a'', JInt 1)]) = json_canon (JObj [(''a'', JInt 1), (''b'', JNull)])"
    by code_simp+
  then show ?thesis using canonical_json_bytes_eq_iff by blast
qed

end
