(* ===== verification/Validators.thy ===== *)
theory Validators
  imports Json
begin

text \<open>
  The validators of \<open>system/grok-proxy/grok_ms/contract.py\<close> (\<open>_require_*\<close>) on values read from
  JSON, what each accepts (the collection \<open>valid\<close>) and which exception it raises otherwise (the
  collection \<open>invalid\<close>). A message is the path and the fixed text, as \<open>_fail\<close> builds it; most
  interpolated values are left out.
\<close>

section \<open>Validators\<close>

definition CONTRACT_SCHEMA_VERSION :: int where "CONTRACT_SCHEMA_VERSION = 2"
definition PROTOCOL_VERSION :: int where "PROTOCOL_VERSION = 2"
definition RUNG_QUALIFICATION_SCHEMA_VERSION :: int where "RUNG_QUALIFICATION_SCHEMA_VERSION = 1"
definition VPN_BROKER_BASE_TIMEOUT_MS :: int where "VPN_BROKER_BASE_TIMEOUT_MS = 120000"
definition VPN_BROKER_PER_ATTEMPT_MS :: int where "VPN_BROKER_PER_ATTEMPT_MS = 30000"

text \<open>The regular expressions, as \<open>fullmatch\<close> uses them.\<close>

definition DIGEST_RE :: "string \<Rightarrow> bool" where
  "DIGEST_RE s \<longleftrightarrow> length s = 64 \<and> list_all is_hex s"

definition TOKEN_RE :: "string \<Rightarrow> bool" where
  "TOKEN_RE s \<longleftrightarrow> s \<noteq> [] \<and> list_all (\<lambda>c. is_alnum c \<or> c \<in> set ''._:+/@-'') s"

definition HOME_LABEL_RE :: "string \<Rightarrow> bool" where
  "HOME_LABEL_RE s \<longleftrightarrow> s \<noteq> [] \<and> list_all (\<lambda>c. is_alnum c \<or> c \<in> set ''._:+@-'') s"

definition IOS_KEY_RE :: "string \<Rightarrow> bool" where
  "IOS_KEY_RE s \<longleftrightarrow>
     (case s of
        [] \<Rightarrow> False
      | c # cs \<Rightarrow> (is_lower c \<or> is_digit c) \<and> length cs \<le> 63 \<and>
          list_all (\<lambda>c. is_lower c \<or> is_digit c \<or> c \<in> set ''._-'') cs)"

definition COUNTRY_RE :: "string \<Rightarrow> bool" where
  "COUNTRY_RE s \<longleftrightarrow> length s = 2 \<and> list_all is_upper s"

definition ANY_RE :: "string \<Rightarrow> bool" where "ANY_RE s = True"

definition contract_fail :: "string \<Rightarrow> string \<Rightarrow> 'a result" where
  "contract_fail path msg = raise ContractValidationError (path @ '': '' @ msg)"

text \<open>\<open>if bad: raise _fail(path, msg)\<close>\<close>

definition fail_if :: "bool \<Rightarrow> string \<Rightarrow> string \<Rightarrow> unit result" where
  "fail_if bad path msg = (if bad then contract_fail path msg else Inr ())"

text \<open>The keys of a JSON object are strings, so the second check of \<open>_require_mapping\<close> is void.\<close>

definition require_mapping :: "json \<Rightarrow> string \<Rightarrow> jobject result" where
  "require_mapping v path =
     (case v of JObj kvs \<Rightarrow> Inr kvs | _ \<Rightarrow> contract_fail path ''expected an object'')"

definition require_exact_keys :: "jobject \<Rightarrow> string list \<Rightarrow> string \<Rightarrow> unit result" where
  "require_exact_keys kvs expected path =
     (let actual = map fst kvs;
          missing = filter (\<lambda>k. k \<notin> set actual) expected;
          extra = filter (\<lambda>k. k \<notin> set expected) actual
      in fail_if (missing \<noteq> [] \<or> extra \<noteq> []) path ''missing or unexpected keys'')"

definition require_int :: "json \<Rightarrow> string \<Rightarrow> int \<Rightarrow> int \<Rightarrow> int result" where
  "require_int v path minimum maximum =
     (case v of
        JInt i \<Rightarrow>
          (if minimum \<le> i \<and> i \<le> maximum then Inr i
           else contract_fail path
                  (''must be in ['' @ int_dec minimum @ '', '' @ int_dec maximum @ '']''))
      | _ \<Rightarrow> contract_fail path ''expected an integer'')"

definition require_bool :: "json \<Rightarrow> string \<Rightarrow> bool result" where
  "require_bool v path = (case v of JBool b \<Rightarrow> Inr b | _ \<Rightarrow> contract_fail path ''expected a boolean'')"

definition require_text ::
  "json \<Rightarrow> string \<Rightarrow> nat \<Rightarrow> nat \<Rightarrow> (string \<Rightarrow> bool) \<Rightarrow> string result" where
  "require_text v path minimum maximum pattern =
     (case v of
        JStr s \<Rightarrow>
          (if \<not> (minimum \<le> length s \<and> length s \<le> maximum) then
             contract_fail path ''length must be in bounds''
           else if (\<exists>c \<in> set s. is_control c) then
             contract_fail path ''control characters are forbidden''
           else if \<not> pattern s then contract_fail path ''contains unsupported characters''
           else Inr s)
      | _ \<Rightarrow> contract_fail path ''expected a string'')"

definition require_optional_text :: "json \<Rightarrow> string \<Rightarrow> nat \<Rightarrow> string option result" where
  "require_optional_text v path maximum =
     (if v = JNull then Inr None
      else bindE (require_text v path 1 maximum TOKEN_RE) (\<lambda>s. Inr (Some s)))"

definition require_digest :: "json \<Rightarrow> string \<Rightarrow> string result" where
  "require_digest v path =
     bindE (require_text v path 64 64 ANY_RE) (\<lambda>s.
       if \<not> DIGEST_RE s then contract_fail path ''expected a lowercase SHA-256 hex digest'' else Inr s)"

text \<open>\<open>type(value) is not list\<close>\<close>

definition require_list :: "json \<Rightarrow> string \<Rightarrow> string \<Rightarrow> json list result" where
  "require_list v path msg = (case v of JArr xs \<Rightarrow> Inr xs | _ \<Rightarrow> contract_fail path msg)"

text \<open>\<open>value[key]\<close> passed to a validator, and a validator run for its check alone.\<close>

definition field :: "jobject \<Rightarrow> string \<Rightarrow> (json \<Rightarrow> 'a result) \<Rightarrow> 'a result" where
  "field kvs k f = (case map_of kvs k of None \<Rightarrow> raise KeyError k | Some v \<Rightarrow> f v)"

text \<open>
  \<open>len(set(items)) != len(items)\<close> on items that were read from JSON and not yet checked: a list or
  a dict among them is unhashable, and \<open>True\<close> equals \<open>1\<close>.
\<close>

fun py_key :: "json \<Rightarrow> json" where
  "py_key (JBool b) = JInt (if b then 1 else 0)"
| "py_key v = v"

fun hashable :: "json \<Rightarrow> bool" where
  "hashable (JArr xs) = False"
| "hashable (JObj kvs) = False"
| "hashable v = True"

definition require_distinct :: "json list \<Rightarrow> string \<Rightarrow> string \<Rightarrow> unit result" where
  "require_distinct items path msg =
     thenE (raise_if (\<exists>v \<in> set items. \<not> hashable v) TypeError ''unhashable type'')
       (fail_if (\<not> distinct (map py_key items)) path msg)"

text \<open>The string or integer that a checked item is.\<close>

fun json_text :: "json \<Rightarrow> string" where
  "json_text (JStr s) = s"
| "json_text v = []"

fun json_int :: "json \<Rightarrow> int" where
  "json_int (JInt i) = i"
| "json_int v = 0"

section \<open>What the validators accept\<close>

definition text_ok :: "nat \<Rightarrow> nat \<Rightarrow> (string \<Rightarrow> bool) \<Rightarrow> string \<Rightarrow> bool" where
  "text_ok minimum maximum pattern s \<longleftrightarrow>
     minimum \<le> length s \<and> length s \<le> maximum \<and> (\<forall>c \<in> set s. \<not> is_control c) \<and> pattern s"

named_theorems valid "when a validator accepts, and with what value"

lemma contract_fail_not_Inr [simp, valid]: "contract_fail p m \<noteq> Inr x"
  by (simp add: contract_fail_def)

lemma fail_if_Inr [simp, valid]: "fail_if bad p m = Inr u \<longleftrightarrow> \<not> bad"
  by (simp add: fail_if_def)

lemma require_mapping_Inr [valid]: "require_mapping v p = Inr kvs \<longleftrightarrow> v = JObj kvs"
  by (auto simp: require_mapping_def split: json.split)

lemma require_exact_keys_Inr [valid]:
  "require_exact_keys kvs ks p = Inr u \<longleftrightarrow> fst ` set kvs = set ks"
  by (auto simp: require_exact_keys_def Let_def filter_empty_conv)

lemma require_int_Inr [valid]:
  "require_int v p mn mx = Inr i \<longleftrightarrow> v = JInt i \<and> mn \<le> i \<and> i \<le> mx"
  by (auto simp: require_int_def split: json.split)

lemma require_bool_Inr [valid]: "require_bool v p = Inr b \<longleftrightarrow> v = JBool b"
  by (auto simp: require_bool_def split: json.split)

lemma require_text_Inr [valid]:
  "require_text v p mn mx pat = Inr s \<longleftrightarrow> v = JStr s \<and> text_ok mn mx pat s"
  by (auto simp: require_text_def text_ok_def split: json.split)

lemma require_optional_text_Inr [valid]:
  "require_optional_text v p mx = Inr x \<longleftrightarrow>
     (v = JNull \<and> x = None) \<or> (\<exists>s. v = JStr s \<and> x = Some s \<and> text_ok 1 mx TOKEN_RE s)"
  by (auto simp: require_optional_text_def bindE_Inr_iff require_text_Inr)

lemma require_digest_Inr [valid]:
  "require_digest v p = Inr s \<longleftrightarrow> v = JStr s \<and> text_ok 64 64 DIGEST_RE s"
  by (auto simp: require_digest_def bindE_Inr_iff require_text_Inr text_ok_def ANY_RE_def)

lemma field_Inr [valid]: "field kvs k f = Inr x \<longleftrightarrow> (\<exists>v. map_of kvs k = Some v \<and> f v = Inr x)"
  by (auto simp: field_def split: option.split)

lemma require_list_Inr [valid]: "require_list v p m = Inr xs \<longleftrightarrow> v = JArr xs"
  by (auto simp: require_list_def split: json.split)

lemma require_distinct_Inr [valid]:
  "require_distinct vs p m = Inr u \<longleftrightarrow> (\<forall>v \<in> set vs. hashable v) \<and> distinct (map py_key vs)"
  by (auto simp: require_distinct_def thenE_Inr_iff)

lemma require_distinct_strings [simp]:
  "require_distinct (map JStr ss) p m = Inr u \<longleftrightarrow> distinct ss"
  by (auto simp: require_distinct_Inr distinct_map inj_on_def)

lemma all_image_iff:
  assumes "\<And>x. g (f x) = x"
  shows "(\<forall>v \<in> set vs. \<exists>x. v = f x \<and> P x) \<longleftrightarrow> (\<exists>xs. vs = map f xs \<and> (\<forall>x \<in> set xs. P x))"
proof
  assume all: "\<forall>v \<in> set vs. \<exists>x. v = f x \<and> P x"
  then have "map f (map g vs) = vs" by (auto simp: assms intro!: map_idI)
  moreover from all have "\<forall>x \<in> set (map g vs). P x" by (auto simp: assms)
  ultimately show "\<exists>xs. vs = map f xs \<and> (\<forall>x \<in> set xs. P x)" by metis
qed (use assms in fastforce)

lemmas all_strings_iff = all_image_iff [of json_text JStr, OF json_text.simps(1)]
lemmas all_ints_iff = all_image_iff [of json_int JInt, OF json_int.simps(1)]

lemma json_text_comp [simp]: "json_text \<circ> JStr = id" "json_int \<circ> JInt = id"
  by auto

lemma json_int_image [simp]: "json_text ` JStr ` S = S" "json_int ` JInt ` T = T"
  by (simp_all add: image_image)

lemma map_atoms_eq [simp]:
  "map JStr ss = map JStr ts \<longleftrightarrow> ss = ts" "map JInt js = map JInt ks \<longleftrightarrow> js = ks"
  by (auto simp: inj_def inj_map_eq_map)

text \<open>Which exceptions a validator raises.\<close>

abbreviation contract_errors :: "exc_class set" where
  "contract_errors \<equiv> {ContractValidationError, TypeError}"

lemma raises_contract_fail [simp]: "raises C (contract_fail p m) \<longleftrightarrow> ContractValidationError \<in> C"
  by (simp add: contract_fail_def)

lemma raises_fail_if [raising]: "raises contract_errors (fail_if b p m)"
  by (simp add: fail_if_def)

lemma raises_validators [raising]:
  "raises contract_errors (require_mapping v p)"
  "raises contract_errors (require_exact_keys kvs ks p)"
  "raises contract_errors (require_int v p mn mx)"
  "raises contract_errors (require_bool v p)"
  "raises contract_errors (require_text v p mnt mxt pat)"
  "raises contract_errors (require_list v p msg)"
  by (auto simp: require_mapping_def require_exact_keys_def fail_if_def require_int_def
      require_bool_def require_text_def require_list_def Let_def split: json.split)

lemma raises_optional_text [raising]: "raises contract_errors (require_optional_text v p mx)"
  unfolding require_optional_text_def by (auto intro!: raising)

lemma raises_digest [raising]: "raises contract_errors (require_digest v p)"
  unfolding require_digest_def by (auto intro!: raising)

lemma raises_distinct [raising]: "raises contract_errors (require_distinct vs p m)"
  unfolding require_distinct_def by (auto intro!: raising raises_raise_if)

text \<open>After \<open>_require_exact_keys\<close> no \<open>KeyError\<close> is left.\<close>

lemma raises_field [raising]:
  "k \<in> fst ` set kvs \<Longrightarrow> (\<And>v. raises C (f v)) \<Longrightarrow> raises C (field kvs k f)"
  by (auto simp: field_def split: option.split) (metis map_of_eq_None_iff image_eqI fst_conv)

end
