(* ===== verification/Codec.thy ===== *)
theory Codec
  imports Validators
begin

text \<open>
  The contract between a record and its JSON form, as an interface: \<open>from_dict\<close> accepts a value
  exactly when it is, up to the order of keys, what \<open>to_dict\<close> writes for a valid record. The
  consequences every record shares (reading back, strictness, one record per digest, lists of
  records) are proved once here; each dataclass interprets the interface.
\<close>

section \<open>Objects up to the order of their keys\<close>

lemma map_fst_map_prod: "map fst (map (map_prod id f) xs) = map fst xs"
  by simp

lemma sorted_objects_iff:
  assumes "distinct (map fst kvs)" and "distinct (map fst kvs')"
  shows "sort_key fst (map (map_prod id f) kvs) = sort_key fst (map (map_prod id f) kvs') \<longleftrightarrow>
    fst ` set kvs = fst ` set kvs' \<and>
    (\<forall>kv \<in> set kvs'. \<exists>a. map_of kvs (fst kv) = Some a \<and> f a = f (snd kv))"
proof -
  let ?c = "map (map_prod id f)"
  have d: "distinct (map fst (?c kvs))" "distinct (map fst (?c kvs'))"
    by (simp_all only: map_fst_map_prod assms)
  have "sort_key fst (?c kvs) = sort_key fst (?c kvs') \<longleftrightarrow> set (?c kvs) = set (?c kvs')"
    using sort_key_fst_eq_iff [OF d] by (simp del: set_map list.set_map)
  also have "\<dots> \<longleftrightarrow> fst ` set (?c kvs) = fst ` set (?c kvs') \<and>
      (\<forall>kv \<in> set (?c kvs'). map_of (?c kvs) (fst kv) = Some (snd kv))"
    by (rule assoc_set_eq_iff [OF d])
  also have "\<dots> \<longleftrightarrow> fst ` set kvs = fst ` set kvs' \<and>
      (\<forall>kv \<in> set kvs'. \<exists>a. map_of kvs (fst kv) = Some a \<and> f a = f (snd kv))"
    by (simp add: map_of_map_prod image_image)
  finally show ?thesis .
qed

lemma json_canon_JObj_iff:
  assumes "distinct (map fst kvs)" and "distinct (map fst kvs')"
  shows "json_canon (JObj kvs) = json_canon (JObj kvs') \<longleftrightarrow>
    fst ` set kvs = fst ` set kvs' \<and>
    (\<forall>kv \<in> set kvs'. \<exists>a. map_of kvs (fst kv) = Some a \<and> json_canon a = json_canon (snd kv))"
  using sorted_objects_iff [OF assms, of json_canon] by simp

text \<open>A value read by key against a record written out by \<open>to_dict\<close>.\<close>

lemma canon_record_iff:
  assumes "json_wf (JObj kvs)" and "distinct (map fst kvs')"
  shows "json_canon (JObj kvs) = json_canon (JObj kvs') \<longleftrightarrow>
    fst ` set kvs = fst ` set kvs' \<and>
    (\<forall>kv \<in> set kvs'. \<exists>a. map_of kvs (fst kv) = Some a \<and> json_canon a = json_canon (snd kv))"
  using assms by (simp add: json_canon_JObj_iff del: json_canon.simps)

lemma json_canon_JObj_neq [simp]:
  "JNull \<noteq> json_canon (JObj kvs)" "JBool b \<noteq> json_canon (JObj kvs)" "JInt i \<noteq> json_canon (JObj kvs)"
  "JStr s \<noteq> json_canon (JObj kvs)" "JArr xs \<noteq> json_canon (JObj kvs)"
  by simp_all

lemma json_canon_scalar [simp]:
  "json_canon v = JNull \<longleftrightarrow> v = JNull"
  "json_canon v = JBool b \<longleftrightarrow> v = JBool b"
  "json_canon v = JInt i \<longleftrightarrow> v = JInt i"
  "json_canon v = JStr s \<longleftrightarrow> v = JStr s"
  by (cases v; simp)+

lemma json_canon_list [simp]:
  "json_canon v = JArr (map JStr ss) \<longleftrightarrow> v = JArr (map JStr ss)"
  "json_canon v = JArr (map JInt js) \<longleftrightarrow> v = JArr (map JInt js)"
proof -
  have "map json_canon xs = map JStr ss \<longleftrightarrow> xs = map JStr ss" for xs
    by (induction xs arbitrary: ss) (auto simp: Cons_eq_map_conv)
  moreover have "map json_canon xs = map JInt js \<longleftrightarrow> xs = map JInt js" for xs
    by (induction xs arbitrary: js) (auto simp: Cons_eq_map_conv)
  ultimately show "json_canon v = JArr (map JStr ss) \<longleftrightarrow> v = JArr (map JStr ss)"
    "json_canon v = JArr (map JInt js) \<longleftrightarrow> v = JArr (map JInt js)"
    by (cases v; simp)+
qed

lemma json_canon_atom_lists:
  "json_canon (JArr (map JStr ss)) = JArr (map JStr ss)"
  "json_canon (JArr (map JInt js)) = JArr (map JInt js)"
  by simp_all

lemma map_json_canon_atoms [simp]: "map (json_canon \<circ> JStr) ss = map JStr ss"
  "map (json_canon \<circ> JInt) js = map JInt js"
  by simp_all

lemma json_wf_field: "json_wf (JObj kvs) \<Longrightarrow> map_of kvs k = Some a \<Longrightarrow> json_wf a"
  by (auto simp: json_wf_JObj simp del: json_wf.simps dest: map_of_SomeD)

section \<open>The interface\<close>

text \<open>\<open>None if value is None else C.from_dict(value)\<close>, and the matching writer.\<close>

definition opt_load :: "(json \<Rightarrow> 'a result) \<Rightarrow> json \<Rightarrow> 'a option result" where
  "opt_load load v = (if v = JNull then Inr None else bindE (load v) (\<lambda>x. Inr (Some x)))"

definition opt_dump :: "('a \<Rightarrow> json) \<Rightarrow> 'a option \<Rightarrow> json" where
  "opt_dump dump x = (case x of None \<Rightarrow> JNull | Some y \<Rightarrow> dump y)"

text \<open>
  \<open>valid\<close> is the record's \<open>__post_init__\<close> check, \<open>dump\<close> its \<open>to_dict\<close>, \<open>load\<close> its \<open>from_dict\<close>
  with the path it reports errors under.
\<close>

locale codec =
  fixes valid :: "'a \<Rightarrow> bool"
    and dump :: "'a \<Rightarrow> json"
    and load :: "json \<Rightarrow> string \<Rightarrow> 'a result"
  assumes load_iff: "json_wf v \<Longrightarrow> load v p = Inr x \<longleftrightarrow> valid x \<and> json_canon v = json_canon (dump x)"
    and dump_wf: "valid x \<Longrightarrow> json_wf (dump x)"
begin

lemma load_dump: "valid x \<Longrightarrow> load (dump x) p = Inr x"
  by (simp add: load_iff dump_wf)

lemma load_valid: "json_wf v \<Longrightarrow> load v p = Inr x \<Longrightarrow> valid x"
  by (simp add: load_iff)

lemma load_strict: "json_wf v \<Longrightarrow> load v p = Inr x \<Longrightarrow> canonical_json_bytes v = canonical_json_bytes (dump x)"
  by (simp add: load_iff canonical_json_bytes_def)

lemma load_path: "json_wf v \<Longrightarrow> load v p = Inr x \<Longrightarrow> load v q = Inr x"
  by (simp add: load_iff)

lemma load_field:
  "json_wf (JObj kvs) \<Longrightarrow>
   map_of kvs k = Some a \<and> load a p = Inr x \<longleftrightarrow>
   valid x \<and> map_of kvs k = Some a \<and> json_canon a = json_canon (dump x)"
  using json_wf_field load_iff by metis

lemma dump_inj_canon:
  assumes "valid x" and "valid y" and "json_canon (dump x) = json_canon (dump y)"
  shows "x = y"
proof -
  have "load (dump x) [] = Inr y" using assms by (simp add: load_iff dump_wf)
  with load_dump [OF assms(1), of "[]"] show ?thesis by simp
qed

lemma canonical_bytes_inj:
  assumes "valid x" and "valid y"
    and "canonical_json_bytes (dump x) = canonical_json_bytes (dump y)"
  shows "x = y"
proof -
  have "json_canon (dump x) = json_canon (dump y)"
    using assms dump_wf by (simp add: canonical_json_bytes_inj_wf)
  with assms(1,2) show ?thesis by (rule dump_inj_canon)
qed

text \<open>A list of records, read with an index in the path.\<close>

lemma load_list_iff:
  assumes "\<forall>v \<in> set vs. json_wf v"
  shows "mapE_index n (\<lambda>i v. load v (p i)) vs = Inr xs \<longleftrightarrow>
    (\<forall>x \<in> set xs. valid x) \<and> map json_canon vs = map (\<lambda>x. json_canon (dump x)) xs"
  using assms
proof (induction vs arbitrary: n xs)
  case (Cons v vs)
  then show ?case by (cases xs) (auto simp: bindE_Inr_iff load_iff)
qed auto

lemma canon_list_iff:
  assumes "json_wf v"
  shows "(\<exists>vs. v = JArr vs \<and> mapE_index n (\<lambda>i v. load v (p i)) vs = Inr xs) \<longleftrightarrow>
    (\<forall>x \<in> set xs. valid x) \<and> json_canon v = json_canon (JArr (map dump xs))"
proof (cases v)
  case (JArr vs)
  with assms have "\<forall>v \<in> set vs. json_wf v" by (simp add: json_wf_JArr del: json_wf.simps)
  with load_list_iff [OF this] JArr show ?thesis by (auto simp: comp_def)
qed auto

text \<open>A record or null.\<close>

lemma load_opt_iff:
  assumes "json_wf v" and not_null: "\<And>y. valid y \<Longrightarrow> dump y \<noteq> JNull"
  shows "opt_load (\<lambda>v. load v p) v = Inr x \<longleftrightarrow>
    (\<forall>y \<in> set_option x. valid y) \<and> json_canon v = json_canon (opt_dump dump x)"
proof (cases x)
  case (Some y)
  have "JNull \<noteq> json_canon (dump y)" if "valid y"
    using not_null [OF that] by (cases "dump y") simp_all
  with Some assms(1) show ?thesis by (auto simp: opt_load_def opt_dump_def bindE_Inr_iff load_iff)
qed (auto simp: opt_load_def opt_dump_def bindE_Inr_iff)

lemma opt_dump_wf: "\<forall>y \<in> set_option x. valid y \<Longrightarrow> json_wf (opt_dump dump x)"
  by (cases x) (simp_all add: opt_dump_def dump_wf)

lemma load_opt_field:
  assumes "json_wf (JObj kvs)" and "\<And>y. valid y \<Longrightarrow> dump y \<noteq> JNull"
  shows "map_of kvs k = Some a \<and> opt_load (\<lambda>v. load v p) a = Inr x \<longleftrightarrow>
    (\<forall>y \<in> set_option x. valid y) \<and> map_of kvs k = Some a \<and> json_canon a = json_canon (opt_dump dump x)"
  using json_wf_field [OF assms(1)] load_opt_iff [OF _ assms(2)] by blast

end

text \<open>How a record's \<open>from_dict\<close> is compared with its \<open>to_dict\<close>: these with the definitions at hand.\<close>

lemmas codec_simps = canon_record_iff insert_commute

declare json_wf.simps(6) [simp del] json_canon.simps(6) [simp del]

end
