(* ===== verification/Policies.thy ===== *)
theory Policies
  imports Codec
begin

text \<open>
  The policy records of \<open>system/grok-proxy/grok_ms/contract.py\<close>: endpoints, timeouts, stability
  and VPN policy, resource limits. A dataclass is a record; its \<open>__post_init__\<close> is the check
  \<open>..._post_init\<close>, and its constructor answers the record when the check passes. Every record
  interprets \<open>codec\<close>: \<open>from_dict\<close> accepts exactly what \<open>to_dict\<close> writes for a valid record.
\<close>

section \<open>Endpoint\<close>

record endpoint =
  ep_host :: string
  ep_port :: int

definition endpoint_post_init :: "endpoint \<Rightarrow> unit result" where
  "endpoint_post_init e = seqE [
     voidE (require_text (JStr (ep_host e)) ''endpoint.host'' 1 255 ANY_RE),
     voidE (require_int (JInt (ep_port e)) ''endpoint.port'' 1 65535)]"

definition endpoint_new :: "endpoint \<Rightarrow> endpoint result" where
  "endpoint_new e = thenE (endpoint_post_init e) (Inr e)"

definition endpoint_to_dict :: "endpoint \<Rightarrow> json" where
  "endpoint_to_dict e = JObj [(''host'', JStr (ep_host e)), (''port'', JInt (ep_port e))]"

definition endpoint_from_dict :: "json \<Rightarrow> string \<Rightarrow> endpoint result" where
  "endpoint_from_dict v path =
     bindE (require_mapping v path) (\<lambda>kvs.
     thenE (require_exact_keys kvs [''host'', ''port''] path)
    (bindE (field kvs ''host'' (\<lambda>x. require_text x (path @ ''.host'') 1 255 ANY_RE)) (\<lambda>host.
     bindE (field kvs ''port'' (\<lambda>x. require_int x (path @ ''.port'') 1 65535)) (\<lambda>port.
       endpoint_new \<lparr>ep_host = host, ep_port = port\<rparr>))))"

definition endpoint_ok :: "endpoint \<Rightarrow> bool" where
  "endpoint_ok e \<longleftrightarrow> text_ok 1 255 ANY_RE (ep_host e) \<and> 1 \<le> ep_port e \<and> ep_port e \<le> 65535"

lemma endpoint_new_iff [valid]: "endpoint_new e = Inr e' \<longleftrightarrow> e' = e \<and> endpoint_ok e"
  by (auto simp: endpoint_new_def endpoint_post_init_def endpoint_ok_def valid errors)

lemma endpoint_load_iff:
  assumes "json_wf v"
  shows "endpoint_from_dict v p = Inr e \<longleftrightarrow> endpoint_ok e \<and> json_canon v = json_canon (endpoint_to_dict e)"
  unfolding endpoint_to_dict_def
  using assms
  by (cases e; cases v; simp add: codec_simps endpoint_from_dict_def endpoint_ok_def valid errors; (simp only: conj_ac conj_absorb conj_left_absorb)?)

interpretation endpoint: codec endpoint_ok endpoint_to_dict endpoint_from_dict
  by unfold_locales (simp_all add: endpoint_load_iff endpoint_to_dict_def json_wf.simps(6))

section \<open>HomeEndpoint\<close>

record home_endpoint =
  he_label :: string
  he_host :: string
  he_user :: string
  he_port :: int

definition home_endpoint_post_init :: "home_endpoint \<Rightarrow> unit result" where
  "home_endpoint_post_init e = seqE [
     voidE (require_text (JStr (he_label e)) ''home_endpoint.label'' 1 120 HOME_LABEL_RE),
     voidE (require_text (JStr (he_host e)) ''home_endpoint.host'' 1 255 TOKEN_RE),
     voidE (require_text (JStr (he_user e)) ''home_endpoint.user'' 1 128 TOKEN_RE),
     voidE (require_int (JInt (he_port e)) ''home_endpoint.port'' 1 65535)]"

definition home_endpoint_new :: "home_endpoint \<Rightarrow> home_endpoint result" where
  "home_endpoint_new e = thenE (home_endpoint_post_init e) (Inr e)"

definition home_endpoint_to_dict :: "home_endpoint \<Rightarrow> json" where
  "home_endpoint_to_dict e = JObj [
     (''host'', JStr (he_host e)), (''label'', JStr (he_label e)),
     (''port'', JInt (he_port e)), (''user'', JStr (he_user e))]"

definition home_endpoint_from_dict :: "json \<Rightarrow> string \<Rightarrow> home_endpoint result" where
  "home_endpoint_from_dict v path =
     bindE (require_mapping v path) (\<lambda>kvs.
     thenE (require_exact_keys kvs [''label'', ''host'', ''user'', ''port''] path)
    (bindE (field kvs ''label'' (\<lambda>x. require_text x (path @ ''.label'') 1 120 HOME_LABEL_RE)) (\<lambda>label.
     bindE (field kvs ''host'' (\<lambda>x. require_text x (path @ ''.host'') 1 255 TOKEN_RE)) (\<lambda>host.
     bindE (field kvs ''user'' (\<lambda>x. require_text x (path @ ''.user'') 1 128 TOKEN_RE)) (\<lambda>user.
     bindE (field kvs ''port'' (\<lambda>x. require_int x (path @ ''.port'') 1 65535)) (\<lambda>port.
       home_endpoint_new \<lparr>he_label = label, he_host = host, he_user = user, he_port = port\<rparr>))))))"

definition home_endpoint_ok :: "home_endpoint \<Rightarrow> bool" where
  "home_endpoint_ok e \<longleftrightarrow>
     text_ok 1 120 HOME_LABEL_RE (he_label e) \<and> text_ok 1 255 TOKEN_RE (he_host e) \<and>
     text_ok 1 128 TOKEN_RE (he_user e) \<and> 1 \<le> he_port e \<and> he_port e \<le> 65535"

lemma home_endpoint_new_iff [valid]: "home_endpoint_new e = Inr e' \<longleftrightarrow> e' = e \<and> home_endpoint_ok e"
  by (auto simp: home_endpoint_new_def home_endpoint_post_init_def home_endpoint_ok_def valid errors)

lemma home_endpoint_load_iff:
  assumes "json_wf v"
  shows "home_endpoint_from_dict v p = Inr e \<longleftrightarrow>
    home_endpoint_ok e \<and> json_canon v = json_canon (home_endpoint_to_dict e)"
  unfolding home_endpoint_to_dict_def
  using assms
  by (cases e; cases v; simp add: codec_simps home_endpoint_from_dict_def home_endpoint_ok_def valid errors; (simp only: conj_ac conj_absorb conj_left_absorb)?)

interpretation home_endpoint: codec home_endpoint_ok home_endpoint_to_dict home_endpoint_from_dict
  by unfold_locales (simp_all add: home_endpoint_load_iff home_endpoint_to_dict_def json_wf.simps(6))

section \<open>IosEndpoint\<close>

record ios_endpoint =
  ie_key :: string
  ie_stable_node_id :: string

definition ios_endpoint_post_init :: "ios_endpoint \<Rightarrow> unit result" where
  "ios_endpoint_post_init e = seqE [
     voidE (require_text (JStr (ie_key e)) ''ios_endpoint.key'' 1 64 IOS_KEY_RE),
     voidE (require_text (JStr (ie_stable_node_id e)) ''ios_endpoint.stable_node_id'' 1 256 TOKEN_RE),
     fail_if (starts_with (ie_stable_node_id e) ''-'') ''ios_endpoint.stable_node_id''
       ''cannot be option-shaped'']"

definition ios_endpoint_new :: "ios_endpoint \<Rightarrow> ios_endpoint result" where
  "ios_endpoint_new e = thenE (ios_endpoint_post_init e) (Inr e)"

definition ios_endpoint_to_dict :: "ios_endpoint \<Rightarrow> json" where
  "ios_endpoint_to_dict e = JObj [
     (''key'', JStr (ie_key e)), (''stable_node_id'', JStr (ie_stable_node_id e))]"

definition ios_endpoint_from_dict :: "json \<Rightarrow> string \<Rightarrow> ios_endpoint result" where
  "ios_endpoint_from_dict v path =
     bindE (require_mapping v path) (\<lambda>kvs.
     thenE (require_exact_keys kvs [''key'', ''stable_node_id''] path)
    (bindE (field kvs ''key'' (\<lambda>x. require_text x (path @ ''.key'') 1 64 IOS_KEY_RE)) (\<lambda>key.
     bindE (field kvs ''stable_node_id''
       (\<lambda>x. require_text x (path @ ''.stable_node_id'') 1 256 TOKEN_RE)) (\<lambda>node.
       ios_endpoint_new \<lparr>ie_key = key, ie_stable_node_id = node\<rparr>))))"

definition ios_endpoint_ok :: "ios_endpoint \<Rightarrow> bool" where
  "ios_endpoint_ok e \<longleftrightarrow>
     text_ok 1 64 IOS_KEY_RE (ie_key e) \<and> text_ok 1 256 TOKEN_RE (ie_stable_node_id e) \<and>
     \<not> starts_with (ie_stable_node_id e) ''-''"

lemma ios_endpoint_new_iff [valid]: "ios_endpoint_new e = Inr e' \<longleftrightarrow> e' = e \<and> ios_endpoint_ok e"
  by (auto simp: ios_endpoint_new_def ios_endpoint_post_init_def ios_endpoint_ok_def valid errors)

lemma ios_endpoint_load_iff:
  assumes "json_wf v"
  shows "ios_endpoint_from_dict v p = Inr e \<longleftrightarrow>
    ios_endpoint_ok e \<and> json_canon v = json_canon (ios_endpoint_to_dict e)"
  unfolding ios_endpoint_to_dict_def
  using assms
  by (cases e; cases v; simp add: codec_simps ios_endpoint_from_dict_def ios_endpoint_ok_def valid errors; (simp only: conj_ac conj_absorb conj_left_absorb)?)

interpretation ios_endpoint: codec ios_endpoint_ok ios_endpoint_to_dict ios_endpoint_from_dict
  by unfold_locales (simp_all add: ios_endpoint_load_iff ios_endpoint_to_dict_def json_wf.simps(6))

section \<open>TimeoutPolicy\<close>

record timeout_policy =
  tp_connect_ms :: int
  tp_probe_ms :: int
  tp_transition_ms :: int
  tp_stop_ms :: int

definition timeout_policy_to_dict :: "timeout_policy \<Rightarrow> json" where
  "timeout_policy_to_dict t = JObj [
     (''connect_ms'', JInt (tp_connect_ms t)), (''probe_ms'', JInt (tp_probe_ms t)),
     (''stop_ms'', JInt (tp_stop_ms t)), (''transition_ms'', JInt (tp_transition_ms t))]"

text \<open>The loop over \<open>to_dict().items()\<close>.\<close>

definition timeout_policy_post_init :: "timeout_policy \<Rightarrow> unit result" where
  "timeout_policy_post_init t =
     (case timeout_policy_to_dict t of
        JObj kvs \<Rightarrow>
          seqE (map (\<lambda>(k, v). voidE (require_int v (''timeout_policy.'' @ k) 1 3600000)) kvs)
      | _ \<Rightarrow> Inr ())"

definition timeout_policy_new :: "timeout_policy \<Rightarrow> timeout_policy result" where
  "timeout_policy_new t = thenE (timeout_policy_post_init t) (Inr t)"

text \<open>
  The source reads the fields in the iteration order of a set, which only decides which of several
  bad fields the message names; the model uses the order of the declaration.
\<close>

definition timeout_policy_from_dict :: "json \<Rightarrow> string \<Rightarrow> timeout_policy result" where
  "timeout_policy_from_dict v path =
     bindE (require_mapping v path) (\<lambda>kvs.
     thenE (require_exact_keys kvs [''connect_ms'', ''probe_ms'', ''transition_ms'', ''stop_ms''] path)
    (bindE (field kvs ''connect_ms'' (\<lambda>x. require_int x (path @ ''.connect_ms'') 1 3600000)) (\<lambda>c.
     bindE (field kvs ''probe_ms'' (\<lambda>x. require_int x (path @ ''.probe_ms'') 1 3600000)) (\<lambda>p.
     bindE (field kvs ''transition_ms'' (\<lambda>x. require_int x (path @ ''.transition_ms'') 1 3600000)) (\<lambda>t.
     bindE (field kvs ''stop_ms'' (\<lambda>x. require_int x (path @ ''.stop_ms'') 1 3600000)) (\<lambda>s.
       timeout_policy_new
         \<lparr>tp_connect_ms = c, tp_probe_ms = p, tp_transition_ms = t, tp_stop_ms = s\<rparr>))))))"

definition timeout_policy_ok :: "timeout_policy \<Rightarrow> bool" where
  "timeout_policy_ok t \<longleftrightarrow>
     (\<forall>i \<in> {tp_connect_ms t, tp_probe_ms t, tp_transition_ms t, tp_stop_ms t}. 1 \<le> i \<and> i \<le> 3600000)"

lemma timeout_policy_new_iff [valid]: "timeout_policy_new t = Inr t' \<longleftrightarrow> t' = t \<and> timeout_policy_ok t"
  by (auto simp: timeout_policy_new_def timeout_policy_post_init_def timeout_policy_to_dict_def
      timeout_policy_ok_def valid errors)

lemma timeout_policy_load_iff:
  assumes "json_wf v"
  shows "timeout_policy_from_dict v p = Inr t \<longleftrightarrow>
    timeout_policy_ok t \<and> json_canon v = json_canon (timeout_policy_to_dict t)"
  unfolding timeout_policy_to_dict_def
  using assms
  by (cases t; cases v; simp add: codec_simps timeout_policy_from_dict_def timeout_policy_ok_def valid errors; (simp only: conj_ac conj_absorb conj_left_absorb)?)

interpretation timeout_policy: codec timeout_policy_ok timeout_policy_to_dict timeout_policy_from_dict
  by unfold_locales (simp_all add: timeout_policy_load_iff timeout_policy_to_dict_def json_wf.simps(6))

section \<open>StabilityPolicy\<close>

record stability_policy =
  sp_version :: string
  sp_sample_count :: int
  sp_sample_interval_ms :: int
  sp_require_same_exit :: bool

definition stability_policy_post_init :: "stability_policy \<Rightarrow> unit result" where
  "stability_policy_post_init s = seqE [
     voidE (require_text (JStr (sp_version s)) ''stability_policy.version'' 1 128 TOKEN_RE),
     voidE (require_int (JInt (sp_sample_count s)) ''stability_policy.sample_count'' 1 1000),
     voidE (require_int (JInt (sp_sample_interval_ms s)) ''stability_policy.sample_interval_ms''
       0 3600000),
     voidE (require_bool (JBool (sp_require_same_exit s)) ''stability_policy.require_same_exit'')]"

definition stability_policy_new :: "stability_policy \<Rightarrow> stability_policy result" where
  "stability_policy_new s = thenE (stability_policy_post_init s) (Inr s)"

definition stability_policy_to_dict :: "stability_policy \<Rightarrow> json" where
  "stability_policy_to_dict s = JObj [
     (''require_same_exit'', JBool (sp_require_same_exit s)),
     (''sample_count'', JInt (sp_sample_count s)),
     (''sample_interval_ms'', JInt (sp_sample_interval_ms s)),
     (''version'', JStr (sp_version s))]"

definition stability_policy_from_dict :: "json \<Rightarrow> string \<Rightarrow> stability_policy result" where
  "stability_policy_from_dict v path =
     bindE (require_mapping v path) (\<lambda>kvs.
     thenE (require_exact_keys kvs
       [''version'', ''sample_count'', ''sample_interval_ms'', ''require_same_exit''] path)
    (bindE (field kvs ''version'' (\<lambda>x. require_text x (path @ ''.version'') 1 128 TOKEN_RE)) (\<lambda>ver.
     bindE (field kvs ''sample_count'' (\<lambda>x. require_int x (path @ ''.sample_count'') 1 1000)) (\<lambda>n.
     bindE (field kvs ''sample_interval_ms''
       (\<lambda>x. require_int x (path @ ''.sample_interval_ms'') 0 3600000)) (\<lambda>ms.
     bindE (field kvs ''require_same_exit'' (\<lambda>x. require_bool x (path @ ''.require_same_exit''))) (\<lambda>b.
       stability_policy_new \<lparr>sp_version = ver, sp_sample_count = n, sp_sample_interval_ms = ms,
         sp_require_same_exit = b\<rparr>))))))"

definition stability_policy_ok :: "stability_policy \<Rightarrow> bool" where
  "stability_policy_ok s \<longleftrightarrow>
     text_ok 1 128 TOKEN_RE (sp_version s) \<and>
     1 \<le> sp_sample_count s \<and> sp_sample_count s \<le> 1000 \<and>
     0 \<le> sp_sample_interval_ms s \<and> sp_sample_interval_ms s \<le> 3600000"

lemma stability_policy_new_iff [valid]:
  "stability_policy_new s = Inr s' \<longleftrightarrow> s' = s \<and> stability_policy_ok s"
  by (auto simp: stability_policy_new_def stability_policy_post_init_def stability_policy_ok_def
      valid errors)

lemma stability_policy_load_iff:
  assumes "json_wf v"
  shows "stability_policy_from_dict v p = Inr s \<longleftrightarrow>
    stability_policy_ok s \<and> json_canon v = json_canon (stability_policy_to_dict s)"
  unfolding stability_policy_to_dict_def
  using assms
  by (cases s; cases v; simp add: codec_simps stability_policy_from_dict_def
      stability_policy_ok_def valid errors; (simp only: conj_ac conj_absorb conj_left_absorb)?)

interpretation stability_policy:
  codec stability_policy_ok stability_policy_to_dict stability_policy_from_dict
  by unfold_locales (simp_all add: stability_policy_load_iff stability_policy_to_dict_def json_wf.simps(6))

section \<open>VpnPolicy\<close>

text \<open>
  The country lists reach the constructor as \<open>from_dict\<close> read them, so \<open>__post_init__\<close> sees
  unchecked JSON values.
\<close>

record vpn_policy =
  vp_namespace :: string
  vp_max_tries :: int
  vp_ranking_version :: string
  vp_countries :: "string list"
  vp_blocked_countries :: "string list"

definition check_countries :: "string \<Rightarrow> json list \<Rightarrow> unit result" where
  "check_countries name cs =
     thenE (require_distinct cs (''vpn_policy.'' @ name) ''duplicates are forbidden'')
       (seqE (map (\<lambda>c. voidE (require_text c (''vpn_policy.'' @ name) 2 2 COUNTRY_RE)) cs))"

definition vpn_policy_post_init ::
  "string \<Rightarrow> int \<Rightarrow> string \<Rightarrow> json list \<Rightarrow> json list \<Rightarrow> unit result" where
  "vpn_policy_post_init namespace tries ranking cs bs = seqE [
     fail_if (namespace \<noteq> ''grokvpn'') ''vpn_policy.namespace''
       ''v1 requires the fixed grokvpn namespace'',
     voidE (require_int (JInt tries) ''vpn_policy.max_tries'' 1 8),
     voidE (require_text (JStr ranking) ''vpn_policy.ranking_version'' 1 128 TOKEN_RE),
     check_countries ''countries'' cs,
     check_countries ''blocked_countries'' bs,
     fail_if (\<exists>c \<in> set cs. c \<in> set bs) ''vpn_policy'' ''allowed and blocked countries overlap'']"

definition vpn_policy_new ::
  "string \<Rightarrow> int \<Rightarrow> string \<Rightarrow> json list \<Rightarrow> json list \<Rightarrow> vpn_policy result" where
  "vpn_policy_new namespace tries ranking cs bs =
     thenE (vpn_policy_post_init namespace tries ranking cs bs)
       (Inr \<lparr>vp_namespace = namespace, vp_max_tries = tries, vp_ranking_version = ranking,
             vp_countries = map json_text cs, vp_blocked_countries = map json_text bs\<rparr>)"

definition vpn_policy_to_dict :: "vpn_policy \<Rightarrow> json" where
  "vpn_policy_to_dict p = JObj [
     (''blocked_countries'', JArr (map JStr (vp_blocked_countries p))),
     (''countries'', JArr (map JStr (vp_countries p))),
     (''max_tries'', JInt (vp_max_tries p)),
     (''namespace'', JStr (vp_namespace p)),
     (''ranking_version'', JStr (vp_ranking_version p))]"

definition vpn_policy_from_dict :: "json \<Rightarrow> string \<Rightarrow> vpn_policy result" where
  "vpn_policy_from_dict v path =
     bindE (require_mapping v path) (\<lambda>kvs.
     thenE (require_exact_keys kvs
       [''namespace'', ''max_tries'', ''ranking_version'', ''countries'', ''blocked_countries''] path)
    (bindE (field kvs ''countries'' (\<lambda>x. require_list x path ''country fields must be arrays'')) (\<lambda>cs.
     bindE (field kvs ''blocked_countries''
       (\<lambda>x. require_list x path ''country fields must be arrays'')) (\<lambda>bs.
     bindE (field kvs ''namespace'' (\<lambda>x. require_text x (path @ ''.namespace'') 1 64 TOKEN_RE)) (\<lambda>ns.
     bindE (field kvs ''max_tries'' (\<lambda>x. require_int x (path @ ''.max_tries'') 1 8)) (\<lambda>n.
     bindE (field kvs ''ranking_version''
       (\<lambda>x. require_text x (path @ ''.ranking_version'') 1 128 TOKEN_RE)) (\<lambda>r.
       vpn_policy_new ns n r cs bs)))))))"

definition vpn_policy_ok :: "vpn_policy \<Rightarrow> bool" where
  "vpn_policy_ok p \<longleftrightarrow>
     vp_namespace p = ''grokvpn'' \<and> 1 \<le> vp_max_tries p \<and> vp_max_tries p \<le> 8 \<and>
     text_ok 1 128 TOKEN_RE (vp_ranking_version p) \<and>
     distinct (vp_countries p) \<and> distinct (vp_blocked_countries p) \<and>
     (\<forall>c \<in> set (vp_countries p) \<union> set (vp_blocked_countries p). text_ok 2 2 COUNTRY_RE c) \<and>
     set (vp_countries p) \<inter> set (vp_blocked_countries p) = {}"

lemma check_countries_Inr [valid]:
  "check_countries name cs = Inr u \<longleftrightarrow>
     (\<exists>ss. cs = map JStr ss \<and> distinct ss \<and> (\<forall>s \<in> set ss. text_ok 2 2 COUNTRY_RE s))"
proof -
  have "check_countries name cs = Inr u \<longleftrightarrow>
      require_distinct cs (''vpn_policy.'' @ name) ''duplicates are forbidden'' = Inr () \<and>
      (\<forall>v \<in> set cs. \<exists>s. v = JStr s \<and> text_ok 2 2 COUNTRY_RE s)"
    by (auto simp: check_countries_def valid errors)
  also have "\<dots> \<longleftrightarrow> (\<exists>ss. cs = map JStr ss \<and> distinct ss \<and> (\<forall>s \<in> set ss. text_ok 2 2 COUNTRY_RE s))"
    unfolding all_strings_iff by auto
  finally show ?thesis .
qed

lemma vpn_policy_new_iff [valid]:
  "vpn_policy_new ns n r cs bs = Inr p \<longleftrightarrow>
     vpn_policy_ok p \<and> ns = vp_namespace p \<and> n = vp_max_tries p \<and> r = vp_ranking_version p \<and>
     cs = map JStr (vp_countries p) \<and> bs = map JStr (vp_blocked_countries p)"
  by (cases p) (auto simp: vpn_policy_new_def vpn_policy_post_init_def vpn_policy_ok_def valid errors
      image_iff disjoint_iff, blast)

lemma vpn_policy_load_iff:
  assumes "json_wf v"
  shows "vpn_policy_from_dict v p = Inr x \<longleftrightarrow>
    vpn_policy_ok x \<and> json_canon v = json_canon (vpn_policy_to_dict x)"
proof -
  have "text_ok 1 64 TOKEN_RE ''grokvpn''" by code_simp
  then have split: "vpn_policy_ok x \<longleftrightarrow> vpn_policy_ok x \<and> text_ok 1 64 TOKEN_RE (vp_namespace x)"
    by (auto simp: vpn_policy_ok_def)
  show ?thesis
    unfolding vpn_policy_to_dict_def using assms
    by (subst split; cases x; cases v; simp add: codec_simps vpn_policy_from_dict_def
        vpn_policy_ok_def valid errors; (simp only: conj_ac conj_absorb conj_left_absorb)?)
qed

interpretation vpn_policy: codec vpn_policy_ok vpn_policy_to_dict vpn_policy_from_dict
  by unfold_locales (simp_all add: vpn_policy_load_iff vpn_policy_to_dict_def json_wf.simps(5,6) list_all_iff)

section \<open>ResourceLimits\<close>

record resource_limits =
  rl_max_leases :: int
  rl_max_control_connections :: int
  rl_max_frontend_streams :: int
  rl_max_packet_bytes :: int
  rl_per_stream_buffer_bytes :: int
  rl_total_buffer_bytes :: int

definition resource_limits_post_init :: "resource_limits \<Rightarrow> unit result" where
  "resource_limits_post_init r = seqE [
     voidE (require_int (JInt (rl_max_leases r)) ''limits.max_leases'' 1 4096),
     voidE (require_int (JInt (rl_max_control_connections r)) ''limits.max_control_connections'' 1 4096),
     fail_if (rl_max_control_connections r < rl_max_leases r + 2) ''limits.max_control_connections''
       ''must reserve at least two control connections beyond max_leases'',
     voidE (require_int (JInt (rl_max_frontend_streams r)) ''limits.max_frontend_streams'' 1 65536),
     voidE (require_int (JInt (rl_max_packet_bytes r)) ''limits.max_packet_bytes'' 1024 1048576),
     voidE (require_int (JInt (rl_per_stream_buffer_bytes r)) ''limits.per_stream_buffer_bytes''
       4096 16777216),
     voidE (require_int (JInt (rl_total_buffer_bytes r)) ''limits.total_buffer_bytes''
       (rl_per_stream_buffer_bytes r) 4294967296)]"

definition resource_limits_new :: "resource_limits \<Rightarrow> resource_limits result" where
  "resource_limits_new r = thenE (resource_limits_post_init r) (Inr r)"

definition resource_limits_to_dict :: "resource_limits \<Rightarrow> json" where
  "resource_limits_to_dict r = JObj [
     (''max_control_connections'', JInt (rl_max_control_connections r)),
     (''max_frontend_streams'', JInt (rl_max_frontend_streams r)),
     (''max_leases'', JInt (rl_max_leases r)),
     (''max_packet_bytes'', JInt (rl_max_packet_bytes r)),
     (''per_stream_buffer_bytes'', JInt (rl_per_stream_buffer_bytes r)),
     (''total_buffer_bytes'', JInt (rl_total_buffer_bytes r))]"

definition resource_limits_from_dict :: "json \<Rightarrow> string \<Rightarrow> resource_limits result" where
  "resource_limits_from_dict v path =
     bindE (require_mapping v path) (\<lambda>kvs.
     thenE (require_exact_keys kvs
       [''max_leases'', ''max_control_connections'', ''max_frontend_streams'', ''max_packet_bytes'',
        ''per_stream_buffer_bytes'', ''total_buffer_bytes''] path)
    (bindE (field kvs ''max_leases'' (\<lambda>x. require_int x (path @ ''.max_leases'') 1 4096)) (\<lambda>l.
     bindE (field kvs ''max_control_connections''
       (\<lambda>x. require_int x (path @ ''.max_control_connections'') 1 4096)) (\<lambda>c.
     bindE (field kvs ''max_frontend_streams''
       (\<lambda>x. require_int x (path @ ''.max_frontend_streams'') 1 65536)) (\<lambda>f.
     bindE (field kvs ''max_packet_bytes''
       (\<lambda>x. require_int x (path @ ''.max_packet_bytes'') 1024 1048576)) (\<lambda>p.
     bindE (field kvs ''per_stream_buffer_bytes''
       (\<lambda>x. require_int x (path @ ''.per_stream_buffer_bytes'') 4096 16777216)) (\<lambda>s.
     bindE (field kvs ''total_buffer_bytes''
       (\<lambda>x. require_int x (path @ ''.total_buffer_bytes'') 4096 4294967296)) (\<lambda>t.
       resource_limits_new
         \<lparr>rl_max_leases = l, rl_max_control_connections = c, rl_max_frontend_streams = f,
          rl_max_packet_bytes = p, rl_per_stream_buffer_bytes = s,
          rl_total_buffer_bytes = t\<rparr>))))))))"

definition resource_limits_ok :: "resource_limits \<Rightarrow> bool" where
  "resource_limits_ok r \<longleftrightarrow>
     1 \<le> rl_max_leases r \<and> rl_max_leases r + 2 \<le> rl_max_control_connections r \<and>
     rl_max_control_connections r \<le> 4096 \<and>
     1 \<le> rl_max_frontend_streams r \<and> rl_max_frontend_streams r \<le> 65536 \<and>
     1024 \<le> rl_max_packet_bytes r \<and> rl_max_packet_bytes r \<le> 1048576 \<and>
     4096 \<le> rl_per_stream_buffer_bytes r \<and> rl_per_stream_buffer_bytes r \<le> 16777216 \<and>
     rl_per_stream_buffer_bytes r \<le> rl_total_buffer_bytes r \<and> rl_total_buffer_bytes r \<le> 4294967296"

lemma resource_limits_new_iff [valid]:
  "resource_limits_new r = Inr r' \<longleftrightarrow> r' = r \<and> resource_limits_ok r"
  by (auto simp: resource_limits_new_def resource_limits_post_init_def resource_limits_ok_def
      valid errors)

lemma resource_limits_load_iff:
  assumes "json_wf v"
  shows "resource_limits_from_dict v p = Inr r \<longleftrightarrow>
    resource_limits_ok r \<and> json_canon v = json_canon (resource_limits_to_dict r)"
proof -
  have "resource_limits_ok r \<Longrightarrow>
      1 \<le> rl_max_leases r \<and> rl_max_leases r \<le> 4096 \<and> 1 \<le> rl_max_control_connections r \<and>
      4096 \<le> rl_total_buffer_bytes r"
    by (auto simp: resource_limits_ok_def)
  then have split: "resource_limits_ok r \<longleftrightarrow> resource_limits_ok r \<and>
      1 \<le> rl_max_leases r \<and> rl_max_leases r \<le> 4096 \<and> 1 \<le> rl_max_control_connections r \<and>
      4096 \<le> rl_total_buffer_bytes r"
    by blast
  show ?thesis
    unfolding resource_limits_to_dict_def using assms
    by (subst split; cases r; cases v; simp add: codec_simps resource_limits_from_dict_def
        resource_limits_ok_def valid errors; (simp only: conj_ac conj_absorb conj_left_absorb)?)
qed

interpretation resource_limits:
  codec resource_limits_ok resource_limits_to_dict resource_limits_from_dict
  by unfold_locales (simp_all add: resource_limits_load_iff resource_limits_to_dict_def json_wf.simps(6))

section \<open>What the readers raise\<close>

lemma raises_constructors [raising]:
  "raises contract_errors (endpoint_new e)"
  "raises contract_errors (home_endpoint_new h)"
  "raises contract_errors (ios_endpoint_new i)"
  "raises contract_errors (timeout_policy_new t)"
  "raises contract_errors (stability_policy_new s)"
  "raises contract_errors (vpn_policy_new ns n r cs bs)"
  "raises contract_errors (resource_limits_new l)"
  by (auto simp: endpoint_new_def endpoint_post_init_def home_endpoint_new_def
      home_endpoint_post_init_def ios_endpoint_new_def ios_endpoint_post_init_def
      timeout_policy_new_def timeout_policy_post_init_def timeout_policy_to_dict_def
      stability_policy_new_def stability_policy_post_init_def vpn_policy_new_def
      vpn_policy_post_init_def check_countries_def resource_limits_new_def
      resource_limits_post_init_def intro!: raising)

lemma raises_policies [raising]:
  "raises contract_errors (endpoint_from_dict v p)"
  "raises contract_errors (home_endpoint_from_dict v p)"
  "raises contract_errors (ios_endpoint_from_dict v p)"
  "raises contract_errors (timeout_policy_from_dict v p)"
  "raises contract_errors (stability_policy_from_dict v p)"
  "raises contract_errors (vpn_policy_from_dict v p)"
  "raises contract_errors (resource_limits_from_dict v p)"
  by (auto simp: endpoint_from_dict_def home_endpoint_from_dict_def ios_endpoint_from_dict_def
      timeout_policy_from_dict_def stability_policy_from_dict_def vpn_policy_from_dict_def
      resource_limits_from_dict_def require_exact_keys_Inr intro!: raising)

end
