(* ===== verification/Contract.thy ===== *)
theory Contract
  imports Policies
begin

text \<open>
  \<open>RouteContract\<close> of \<open>system/grok-proxy/grok_ms/contract.py\<close>: the immutable contract of one
  supervisor epoch. \<open>__post_init__\<close> is modelled check by check in the order of the source; what it
  accepts is characterised by \<open>route_contract_wf\<close>, and the record interprets \<open>codec\<close>. The ladder and
  the private ports reach the constructor as the JSON values \<open>from_dict\<close> read.
\<close>

section \<open>Data\<close>

datatype route_mode = AUTO | DIRECT | HOME | IOS | VPN

fun route_mode_value :: "route_mode \<Rightarrow> string" where
  "route_mode_value AUTO = ''auto''"
| "route_mode_value DIRECT = ''direct''"
| "route_mode_value HOME = ''home''"
| "route_mode_value IOS = ''ios''"
| "route_mode_value VPN = ''vpn''"

text \<open>\<open>RouteMode(text)\<close>\<close>

definition route_mode_of :: "string \<Rightarrow> route_mode option" where
  "route_mode_of s =
     (if s = ''auto'' then Some AUTO else if s = ''direct'' then Some DIRECT
      else if s = ''home'' then Some HOME else if s = ''ios'' then Some IOS
      else if s = ''vpn'' then Some VPN else None)"

record route_contract =
  rc_schema_version :: int
  rc_protocol_version :: int
  rc_release_id :: string
  rc_model_id :: string
  rc_route_mode :: route_mode
  rc_forced_host :: "string option"
  rc_home_endpoints :: "home_endpoint list"
  rc_ios_endpoints :: "ios_endpoint list"
  rc_forced_ios_key :: "string option"
  rc_allow_direct :: bool
  rc_ladder :: "string list"
  rc_routing_config_digest :: string
  rc_probe_policy_version :: string
  rc_timeout_policy :: timeout_policy
  rc_stability_policy :: stability_policy
  rc_vpn_policy :: vpn_policy
  rc_helper_release_ids :: "(string \<times> string) list"
  rc_grok_release_id :: string
  rc_public_endpoint :: endpoint
  rc_private_ports :: "int list"
  rc_limits :: resource_limits

abbreviation labels :: "route_contract \<Rightarrow> string list" where
  "labels c \<equiv> map he_label (rc_home_endpoints c)"

abbreviation ios_keys :: "route_contract \<Rightarrow> string list" where
  "ios_keys c \<equiv> map ie_key (rc_ios_endpoints c)"

abbreviation ios_node_ids :: "route_contract \<Rightarrow> string list" where
  "ios_node_ids c \<equiv> map ie_stable_node_id (rc_ios_endpoints c)"

definition opt_json :: "string option \<Rightarrow> json" where
  "opt_json x = (case x of None \<Rightarrow> JNull | Some s \<Rightarrow> JStr s)"

section \<open>The checks of \<open>__post_init__\<close>\<close>

definition check_identity :: "route_contract \<Rightarrow> unit result" where
  "check_identity c = seqE [
     fail_if (rc_schema_version c \<noteq> CONTRACT_SCHEMA_VERSION) ''schema_version'' ''unsupported value'',
     fail_if (rc_protocol_version c \<noteq> PROTOCOL_VERSION) ''protocol_version'' ''unsupported value'',
     voidE (require_text (JStr (rc_release_id c)) ''release_id'' 1 128 TOKEN_RE),
     voidE (require_text (JStr (rc_model_id c)) ''model_id'' 1 128 TOKEN_RE)]"

definition check_home_endpoints :: "route_contract \<Rightarrow> unit result" where
  "check_home_endpoints c = seqE [
     voidE (require_optional_text (opt_json (rc_forced_host c)) ''forced_host'' 128),
     (case rc_forced_host c of
        None \<Rightarrow> Inr ()
      | Some h \<Rightarrow> voidE (require_text (JStr h) ''forced_host'' 1 120 HOME_LABEL_RE)),
     fail_if (\<not> distinct (labels c)) ''home_endpoints'' ''duplicate labels are forbidden'']"

definition check_ios_endpoints :: "route_contract \<Rightarrow> unit result" where
  "check_ios_endpoints c = seqE [
     fail_if (length (rc_ios_endpoints c) > 16) ''ios_endpoints'' ''at most 16 devices are supported'',
     fail_if (\<not> distinct (ios_keys c)) ''ios_endpoints'' ''duplicate keys are forbidden'',
     fail_if (\<not> distinct (ios_node_ids c)) ''ios_endpoints'' ''duplicate stable node IDs are forbidden'',
     (case rc_forced_ios_key c of
        None \<Rightarrow> Inr ()
      | Some k \<Rightarrow> voidE (require_text (JStr k) ''forced_ios_key'' 1 64 IOS_KEY_RE))]"

definition check_mode :: "route_contract \<Rightarrow> unit result" where
  "check_mode c =
     (let mode = rc_route_mode c; host = rc_forced_host c; key = rc_forced_ios_key c in seqE [
     fail_if (mode = HOME \<and> host = None) ''forced_host'' ''a forced home route requires a host label'',
     fail_if (mode \<noteq> HOME \<and> host \<noteq> None) ''forced_host'' ''is valid only with route_mode=home'',
     fail_if (mode = IOS \<and> rc_ios_endpoints c = []) ''ios_endpoints''
       ''an iOS route requires a registered device'',
     fail_if (mode \<noteq> IOS \<and> key \<noteq> None) ''forced_ios_key'' ''is valid only with route_mode=ios'',
     fail_if (\<exists>k \<in> set_option key. k \<notin> set (ios_keys c)) ''forced_ios_key''
       ''does not name a frozen iOS endpoint'',
     fail_if (\<exists>k \<in> set_option key. ios_keys c \<noteq> [k]) ''ios_endpoints''
       ''an exact iOS route must freeze only its selected endpoint'',
     fail_if (\<exists>h \<in> set_option host. h \<notin> set (labels c)) ''forced_host''
       ''does not name a frozen home endpoint'',
     fail_if (mode = DIRECT \<and> \<not> rc_allow_direct c) ''allow_direct''
       ''cannot be false for a forced direct route''])"

text \<open>The body of the loop over the ladder, and the ladder.\<close>

definition check_rung :: "route_contract \<Rightarrow> json \<Rightarrow> unit result" where
  "check_rung c v =
     bindE (require_text v ''ladder'' 1 128 ANY_RE) (\<lambda>rung.
       seqE [
         fail_if (rung \<notin> {''direct'', ''vpn''} \<and> \<not> starts_with rung ''home:'' \<and>
             \<not> starts_with rung ''ios:'') ''ladder'' ''unsupported rung'',
         (if starts_with rung ''home:'' then
            bindE (require_text (JStr (removeprefix rung ''home:'')) ''ladder.home_label'' 1 120
                HOME_LABEL_RE) (\<lambda>label.
              fail_if (label \<notin> set (labels c)) ''ladder'' ''home endpoint is not frozen'')
          else Inr ()),
         (if starts_with rung ''ios:'' then
            bindE (require_text (JStr (removeprefix rung ''ios:'')) ''ladder.ios_key'' 1 64 IOS_KEY_RE)
              (\<lambda>key. fail_if (key \<notin> set (ios_keys c)) ''ladder'' ''iOS endpoint is not frozen'')
          else Inr ())])"

definition check_ladder :: "route_contract \<Rightarrow> json list \<Rightarrow> unit result" where
  "check_ladder c ladder = seqE (
     fail_if (ladder = []) ''ladder'' ''expected a nonempty immutable tuple''
   # require_distinct ladder ''ladder'' ''duplicates are forbidden''
   # map (check_rung c) ladder)"

definition check_ios_ladder :: "route_contract \<Rightarrow> string list \<Rightarrow> unit result" where
  "check_ios_ladder c ladder =
     (if rc_route_mode c = IOS then
        (case rc_forced_ios_key c of
           Some k \<Rightarrow> fail_if (ladder \<noteq> [''ios:'' @ k]) ''ladder''
             ''an exact iOS route must contain exactly its frozen device selection''
         | None \<Rightarrow> fail_if (\<exists>rung \<in> set ladder. \<not> starts_with rung ''ios:'') ''ladder''
             ''an iOS family route must contain only frozen iOS devices'')
      else Inr ())"

text \<open>The rungs of one family with the prefix removed, and their positions in the frozen list.\<close>

definition rung_names :: "string \<Rightarrow> string list \<Rightarrow> string list" where
  "rung_names p ladder = map (\<lambda>r. removeprefix r p) (filter (\<lambda>r. starts_with r p) ladder)"

definition positions_in :: "string list \<Rightarrow> string list \<Rightarrow> nat list result" where
  "positions_in frozen = mapE (\<lambda>x.
     case index_of x frozen of None \<Rightarrow> raise KeyError x | Some i \<Rightarrow> Inr i)"

definition check_order :: "string list \<Rightarrow> string list \<Rightarrow> string \<Rightarrow> string \<Rightarrow> unit result" where
  "check_order frozen names path msg =
     bindE (positions_in frozen names) (\<lambda>ps. fail_if (ps \<noteq> sort ps) path msg)"

definition check_ladder_order :: "route_contract \<Rightarrow> string list \<Rightarrow> unit result" where
  "check_ladder_order c ladder = seqE [
     (if rc_route_mode c = AUTO then
        check_order (labels c) (rung_names ''home:'' ladder) ''home_endpoints''
          ''auto-mode ladder must preserve frozen home endpoint order''
      else Inr ()),
     check_order (ios_keys c) (rung_names ''ios:'' ladder) ''ios_endpoints''
       ''ladder must preserve frozen iOS endpoint order'']"

text \<open>The deadline of one VPN transition: the broker's attempts and one full qualification.\<close>

definition required_transition_ms :: "route_contract \<Rightarrow> int" where
  "required_transition_ms c =
     (let t = rc_timeout_policy c; s = rc_stability_policy c;
          broker_ms = VPN_BROKER_BASE_TIMEOUT_MS + VPN_BROKER_PER_ATTEMPT_MS * vp_max_tries (rc_vpn_policy c);
          qualification_ms = (sp_sample_count s + 1) * tp_probe_ms t
            + max 0 (sp_sample_count s - 1) * sp_sample_interval_ms s
      in max (max (tp_connect_ms t) (tp_stop_ms t)) (broker_ms + qualification_ms))"

definition check_policies :: "route_contract \<Rightarrow> string list \<Rightarrow> unit result" where
  "check_policies c ladder = seqE [
     voidE (require_digest (JStr (rc_routing_config_digest c)) ''routing_config_digest''),
     voidE (require_text (JStr (rc_probe_policy_version c)) ''probe_policy_version'' 1 128 TOKEN_RE),
     fail_if (''vpn'' \<in> set ladder \<and>
         tp_transition_ms (rc_timeout_policy c) < required_transition_ms c)
       ''timeout_policy.transition_ms'' ''must be at least the bound for the VPN broker and one complete qualification'']"

definition check_helpers :: "(string \<times> string) list \<Rightarrow> unit result" where
  "check_helpers hs = seqE (
     fail_if (sort hs \<noteq> hs) ''helper_release_ids'' ''entries must be sorted by helper name''
   # map (\<lambda>(name, release). seqE [
       voidE (require_text (JStr name) ''helper_release_ids.name'' 1 64 TOKEN_RE),
       voidE (require_text (JStr release) ''helper_release_ids.release'' 1 128 TOKEN_RE)]) hs
   @ [fail_if (\<not> distinct (map fst hs)) ''helper_release_ids'' ''duplicate helper names are forbidden''])"

definition check_ports :: "endpoint \<Rightarrow> json list \<Rightarrow> unit result" where
  "check_ports public ports = seqE (
     fail_if (ep_host public \<noteq> ''127.0.0.1'') ''public_endpoint.host'' ''v1 requires 127.0.0.1''
   # fail_if (length ports < 2) ''private_ports'' ''at least two immutable ports are required''
   # map (\<lambda>p. voidE (require_int p ''private_ports'' 1 65535)) ports
   @ [fail_if (\<not> distinct (map json_int ports)) ''private_ports'' ''duplicates are forbidden'',
      fail_if (ep_port public \<in> set (map json_int ports)) ''private_ports''
        ''must not contain the public frontend port''])"

definition route_contract_post_init ::
  "route_contract \<Rightarrow> json list \<Rightarrow> json list \<Rightarrow> unit result" where
  "route_contract_post_init c ladder ports =
     (let rungs = map json_text ladder in seqE [
        check_identity c, check_home_endpoints c, check_ios_endpoints c, check_mode c,
        check_ladder c ladder, check_ios_ladder c rungs, check_ladder_order c rungs,
        check_policies c rungs, check_helpers (rc_helper_release_ids c),
        voidE (require_text (JStr (rc_grok_release_id c)) ''grok_release_id'' 1 128 TOKEN_RE),
        check_ports (rc_public_endpoint c) ports])"

text \<open>The constructor: \<open>c\<close> holds the other fields, \<open>ladder\<close> and \<open>ports\<close> those read from JSON.\<close>

definition route_contract_new :: "route_contract \<Rightarrow> json list \<Rightarrow> json list \<Rightarrow> route_contract result" where
  "route_contract_new c ladder ports =
     thenE (route_contract_post_init c ladder ports)
       (Inr (c\<lparr>rc_ladder := map json_text ladder, rc_private_ports := map json_int ports\<rparr>))"

section \<open>The JSON form\<close>

definition route_contract_to_dict :: "route_contract \<Rightarrow> json" where
  "route_contract_to_dict c = JObj [
     (''allow_direct'', JBool (rc_allow_direct c)),
     (''forced_host'', opt_json (rc_forced_host c)),
     (''grok_release_id'', JStr (rc_grok_release_id c)),
     (''helper_release_ids'', JObj (map (map_prod id JStr) (rc_helper_release_ids c))),
     (''home_endpoints'', JArr (map home_endpoint_to_dict (rc_home_endpoints c))),
     (''ios_endpoints'', JArr (map ios_endpoint_to_dict (rc_ios_endpoints c))),
     (''forced_ios_key'', opt_json (rc_forced_ios_key c)),
     (''ladder'', JArr (map JStr (rc_ladder c))),
     (''limits'', resource_limits_to_dict (rc_limits c)),
     (''model_id'', JStr (rc_model_id c)),
     (''private_ports'', JArr (map JInt (rc_private_ports c))),
     (''probe_policy_version'', JStr (rc_probe_policy_version c)),
     (''protocol_version'', JInt (rc_protocol_version c)),
     (''public_endpoint'', endpoint_to_dict (rc_public_endpoint c)),
     (''release_id'', JStr (rc_release_id c)),
     (''route_mode'', JStr (route_mode_value (rc_route_mode c))),
     (''routing_config_digest'', JStr (rc_routing_config_digest c)),
     (''schema_version'', JInt (rc_schema_version c)),
     (''stability_policy'', stability_policy_to_dict (rc_stability_policy c)),
     (''timeout_policy'', timeout_policy_to_dict (rc_timeout_policy c)),
     (''vpn_policy'', vpn_policy_to_dict (rc_vpn_policy c))]"

definition route_contract_fields :: "string list" where
  "route_contract_fields = [
     ''schema_version'', ''protocol_version'', ''release_id'', ''model_id'', ''route_mode'',
     ''forced_host'', ''home_endpoints'', ''ios_endpoints'', ''forced_ios_key'', ''allow_direct'',
     ''ladder'', ''routing_config_digest'', ''probe_policy_version'', ''timeout_policy'',
     ''stability_policy'', ''vpn_policy'', ''helper_release_ids'', ''grok_release_id'',
     ''public_endpoint'', ''private_ports'', ''limits'']"

text \<open>One \<open>(name, release)\<close> pair of \<open>helpers.items()\<close>.\<close>

definition helper_pair :: "string \<Rightarrow> string \<times> json \<Rightarrow> (string \<times> string) result" where
  "helper_pair path nr =
     bindE (require_text (JStr (fst nr)) (path @ ''.helper_release_ids.name'') 1 64 TOKEN_RE) (\<lambda>name.
     bindE (require_text (snd nr) (path @ ''.helper_release_ids.'' @ fst nr) 1 128 TOKEN_RE) (\<lambda>release.
       Inr (name, release)))"

definition read_route_mode :: "json \<Rightarrow> string \<Rightarrow> route_mode result" where
  "read_route_mode v path =
     bindE (require_text v path 1 16 ANY_RE) (\<lambda>s.
       case route_mode_of s of None \<Rightarrow> contract_fail path ''unsupported value'' | Some m \<Rightarrow> Inr m)"

definition arrays_msg :: string where
  "arrays_msg = ''home_endpoints, ios_endpoints, ladder, and private_ports must be arrays''"

definition route_contract_from_dict :: "json \<Rightarrow> string \<Rightarrow> route_contract result" where
  "route_contract_from_dict v path =
     bindE (require_mapping v path) (\<lambda>kvs.
     thenE (require_exact_keys kvs route_contract_fields path)
    (bindE (field kvs ''route_mode'' (\<lambda>x. read_route_mode x (path @ ''.route_mode''))) (\<lambda>mode.
     bindE (field kvs ''helper_release_ids''
       (\<lambda>x. require_mapping x (path @ ''.helper_release_ids''))) (\<lambda>helpers.
     bindE (field kvs ''ladder'' (\<lambda>x. require_list x path arrays_msg)) (\<lambda>ladder.
     bindE (field kvs ''home_endpoints'' (\<lambda>x. require_list x path arrays_msg)) (\<lambda>homes.
     bindE (field kvs ''ios_endpoints'' (\<lambda>x. require_list x path arrays_msg)) (\<lambda>ioss.
     bindE (field kvs ''private_ports'' (\<lambda>x. require_list x path arrays_msg)) (\<lambda>ports.
     bindE (mapE (helper_pair path) helpers) (\<lambda>pairs.
     bindE (field kvs ''schema_version''
       (\<lambda>x. require_int x (path @ ''.schema_version'') 1 (2 ^ 31 - 1))) (\<lambda>schema.
     bindE (field kvs ''protocol_version''
       (\<lambda>x. require_int x (path @ ''.protocol_version'') 1 (2 ^ 31 - 1))) (\<lambda>protocol.
     bindE (field kvs ''release_id'' (\<lambda>x. require_text x (path @ ''.release_id'') 1 128 TOKEN_RE)) (\<lambda>release.
     bindE (field kvs ''model_id'' (\<lambda>x. require_text x (path @ ''.model_id'') 1 128 TOKEN_RE)) (\<lambda>model.
     bindE (field kvs ''forced_host'' (\<lambda>x. require_optional_text x (path @ ''.forced_host'') 128)) (\<lambda>host.
     bindE (mapE_index 0 (\<lambda>i x. home_endpoint_from_dict x
       (path @ ''.home_endpoints['' @ nat_dec i @ '']'')) homes) (\<lambda>home_endpoints.
     bindE (mapE_index 0 (\<lambda>i x. ios_endpoint_from_dict x
       (path @ ''.ios_endpoints['' @ nat_dec i @ '']'')) ioss) (\<lambda>ios_endpoints.
     bindE (field kvs ''forced_ios_key'' (\<lambda>x. require_optional_text x (path @ ''.forced_ios_key'') 64)) (\<lambda>key.
     bindE (field kvs ''allow_direct'' (\<lambda>x. require_bool x (path @ ''.allow_direct''))) (\<lambda>direct.
     bindE (field kvs ''routing_config_digest''
       (\<lambda>x. require_digest x (path @ ''.routing_config_digest''))) (\<lambda>digest.
     bindE (field kvs ''probe_policy_version''
       (\<lambda>x. require_text x (path @ ''.probe_policy_version'') 1 128 TOKEN_RE)) (\<lambda>probe.
     bindE (field kvs ''timeout_policy''
       (\<lambda>x. timeout_policy_from_dict x (path @ ''.timeout_policy''))) (\<lambda>timeout.
     bindE (field kvs ''stability_policy''
       (\<lambda>x. stability_policy_from_dict x (path @ ''.stability_policy''))) (\<lambda>stability.
     bindE (field kvs ''vpn_policy'' (\<lambda>x. vpn_policy_from_dict x (path @ ''.vpn_policy''))) (\<lambda>vpn.
     bindE (field kvs ''grok_release_id''
       (\<lambda>x. require_text x (path @ ''.grok_release_id'') 1 128 TOKEN_RE)) (\<lambda>grok.
     bindE (field kvs ''public_endpoint''
       (\<lambda>x. endpoint_from_dict x (path @ ''.public_endpoint''))) (\<lambda>public.
     bindE (field kvs ''limits'' (\<lambda>x. resource_limits_from_dict x (path @ ''.limits''))) (\<lambda>limits.
       route_contract_new
         \<lparr>rc_schema_version = schema, rc_protocol_version = protocol, rc_release_id = release,
          rc_model_id = model, rc_route_mode = mode, rc_forced_host = host,
          rc_home_endpoints = home_endpoints, rc_ios_endpoints = ios_endpoints,
          rc_forced_ios_key = key, rc_allow_direct = direct, rc_ladder = [],
          rc_routing_config_digest = digest, rc_probe_policy_version = probe,
          rc_timeout_policy = timeout, rc_stability_policy = stability, rc_vpn_policy = vpn,
          rc_helper_release_ids = sort pairs, rc_grok_release_id = grok,
          rc_public_endpoint = public, rc_private_ports = [], rc_limits = limits\<rparr>
         ladder ports))))))))))))))))))))))))))"

definition route_contract_digest :: "(string \<Rightarrow> string) \<Rightarrow> route_contract \<Rightarrow> string" where
  "route_contract_digest sha c = sha (canonical_json_bytes (route_contract_to_dict c))"

text \<open>The look-up methods \<open>home_endpoint\<close> and \<open>ios_endpoint\<close>.\<close>

definition find_home_endpoint :: "route_contract \<Rightarrow> string \<Rightarrow> home_endpoint option result" where
  "find_home_endpoint c label =
     bindE (require_text (JStr label) ''home_endpoint.label'' 1 120 HOME_LABEL_RE) (\<lambda>l.
       Inr (find (\<lambda>e. he_label e = l) (rc_home_endpoints c)))"

definition find_ios_endpoint :: "route_contract \<Rightarrow> string \<Rightarrow> ios_endpoint option result" where
  "find_ios_endpoint c key =
     bindE (require_text (JStr key) ''ios_endpoint.key'' 1 64 IOS_KEY_RE) (\<lambda>k.
       Inr (find (\<lambda>e. ie_key e = k) (rc_ios_endpoints c)))"

section \<open>What the constructor accepts\<close>

text \<open>A rung of a ladder and the endpoint it stands for.\<close>

definition rung_frozen :: "route_contract \<Rightarrow> string \<Rightarrow> bool" where
  "rung_frozen c r \<longleftrightarrow>
     r = ''direct'' \<or> r = ''vpn'' \<or>
     (\<exists>l \<in> set (labels c). r = ''home:'' @ l \<and> text_ok 1 120 HOME_LABEL_RE l) \<or>
     (\<exists>k \<in> set (ios_keys c). r = ''ios:'' @ k \<and> text_ok 1 64 IOS_KEY_RE k)"

definition mode_ok :: "route_contract \<Rightarrow> bool" where
  "mode_ok c \<longleftrightarrow>
     (case rc_forced_host c of
        None \<Rightarrow> rc_route_mode c \<noteq> HOME
      | Some h \<Rightarrow> rc_route_mode c = HOME \<and> h \<in> set (labels c) \<and> text_ok 1 120 HOME_LABEL_RE h) \<and>
     (case rc_forced_ios_key c of
        None \<Rightarrow> rc_route_mode c = IOS \<longrightarrow>
          rc_ios_endpoints c \<noteq> [] \<and> (\<forall>r \<in> set (rc_ladder c). starts_with r ''ios:'')
      | Some k \<Rightarrow> rc_route_mode c = IOS \<and> ios_keys c = [k] \<and> text_ok 1 64 IOS_KEY_RE k \<and>
          rc_ladder c = [''ios:'' @ k]) \<and>
     (rc_route_mode c = DIRECT \<longrightarrow> rc_allow_direct c)"

definition helpers_ok :: "(string \<times> string) list \<Rightarrow> bool" where
  "helpers_ok hs \<longleftrightarrow> sorted hs \<and> distinct (map fst hs) \<and>
     (\<forall>(n, r) \<in> set hs. text_ok 1 64 TOKEN_RE n \<and> text_ok 1 128 TOKEN_RE r)"

definition ports_ok :: "endpoint \<Rightarrow> int list \<Rightarrow> bool" where
  "ports_ok public ports \<longleftrightarrow> ep_host public = ''127.0.0.1'' \<and> 2 \<le> length ports \<and> distinct ports \<and>
     (\<forall>p \<in> set ports. 1 \<le> p \<and> p \<le> 65535) \<and> ep_port public \<notin> set ports"

definition ladder_ok :: "route_contract \<Rightarrow> bool" where
  "ladder_ok c \<longleftrightarrow> rc_ladder c \<noteq> [] \<and> distinct (rc_ladder c) \<and>
     (\<forall>r \<in> set (rc_ladder c). rung_frozen c r) \<and>
     (rc_route_mode c = AUTO \<longrightarrow> subseq (rung_names ''home:'' (rc_ladder c)) (labels c)) \<and>
     subseq (rung_names ''ios:'' (rc_ladder c)) (ios_keys c)"

definition route_contract_wf :: "route_contract \<Rightarrow> bool" where
  "route_contract_wf c \<longleftrightarrow>
     rc_schema_version c = 2 \<and> rc_protocol_version c = 2 \<and>
     text_ok 1 128 TOKEN_RE (rc_release_id c) \<and> text_ok 1 128 TOKEN_RE (rc_model_id c) \<and>
     distinct (labels c) \<and> length (rc_ios_endpoints c) \<le> 16 \<and>
     distinct (ios_keys c) \<and> distinct (ios_node_ids c) \<and>
     mode_ok c \<and> ladder_ok c \<and>
     text_ok 64 64 DIGEST_RE (rc_routing_config_digest c) \<and>
     text_ok 1 128 TOKEN_RE (rc_probe_policy_version c) \<and>
     (''vpn'' \<in> set (rc_ladder c) \<longrightarrow>
        required_transition_ms c \<le> tp_transition_ms (rc_timeout_policy c)) \<and>
     helpers_ok (rc_helper_release_ids c) \<and>
     text_ok 1 128 TOKEN_RE (rc_grok_release_id c) \<and>
     ports_ok (rc_public_endpoint c) (rc_private_ports c)"

text \<open>The parts are objects of their own classes, so their constructors have run.\<close>

definition route_contract_ok :: "route_contract \<Rightarrow> bool" where
  "route_contract_ok c \<longleftrightarrow> route_contract_wf c \<and>
     (\<forall>e \<in> set (rc_home_endpoints c). home_endpoint_ok e) \<and>
     (\<forall>e \<in> set (rc_ios_endpoints c). ios_endpoint_ok e) \<and>
     timeout_policy_ok (rc_timeout_policy c) \<and> stability_policy_ok (rc_stability_policy c) \<and>
     vpn_policy_ok (rc_vpn_policy c) \<and> endpoint_ok (rc_public_endpoint c) \<and>
     resource_limits_ok (rc_limits c)"

section \<open>The checks, characterised\<close>

lemma opt_json_simps [simp]: "opt_json None = JNull" "opt_json (Some s) = JStr s"
  by (simp_all add: opt_json_def)

lemma TOKEN_of_HOME_LABEL: "HOME_LABEL_RE s \<Longrightarrow> TOKEN_RE s"
  by (auto simp: HOME_LABEL_RE_def TOKEN_RE_def list_all_iff)

lemma TOKEN_of_IOS_KEY: "IOS_KEY_RE s \<Longrightarrow> TOKEN_RE s"
  by (auto simp: IOS_KEY_RE_def TOKEN_RE_def is_alnum_def list_all_iff split: list.splits)

lemma home_label_token: "text_ok (Suc 0) 120 HOME_LABEL_RE h \<Longrightarrow> text_ok (Suc 0) 128 TOKEN_RE h"
  by (auto simp: text_ok_def intro: TOKEN_of_HOME_LABEL)

lemma ios_key_token: "text_ok (Suc 0) 64 IOS_KEY_RE k \<Longrightarrow> text_ok (Suc 0) 64 TOKEN_RE k"
  by (auto simp: text_ok_def intro: TOKEN_of_IOS_KEY)

lemma text_ok_append:
  "text_ok mn mx P s \<Longrightarrow> \<forall>c \<in> set p. \<not> is_control c \<Longrightarrow> length p + mx \<le> mx' \<Longrightarrow> mn' \<le> length p \<Longrightarrow>
   text_ok mn' mx' ANY_RE (p @ s)"
  by (auto simp: text_ok_def ANY_RE_def)

lemma check_identity_Inr [valid]:
  "check_identity c = Inr u \<longleftrightarrow> rc_schema_version c = 2 \<and> rc_protocol_version c = 2 \<and>
     text_ok 1 128 TOKEN_RE (rc_release_id c) \<and> text_ok 1 128 TOKEN_RE (rc_model_id c)"
  by (auto simp: check_identity_def CONTRACT_SCHEMA_VERSION_def PROTOCOL_VERSION_def valid errors)

lemma check_home_endpoints_Inr [valid]:
  "check_home_endpoints c = Inr u \<longleftrightarrow> distinct (labels c) \<and>
     (\<forall>h \<in> set_option (rc_forced_host c). text_ok 1 120 HOME_LABEL_RE h)"
  by (cases "rc_forced_host c")
    (auto simp: check_home_endpoints_def valid errors dest: home_label_token)

lemma check_ios_endpoints_Inr [valid]:
  "check_ios_endpoints c = Inr u \<longleftrightarrow> length (rc_ios_endpoints c) \<le> 16 \<and> distinct (ios_keys c) \<and>
     distinct (ios_node_ids c) \<and> (\<forall>k \<in> set_option (rc_forced_ios_key c). text_ok 1 64 IOS_KEY_RE k)"
  by (cases "rc_forced_ios_key c") (auto simp: check_ios_endpoints_def valid errors)

lemma check_rung_Inr:
  "check_rung c v = Inr u \<longleftrightarrow> (\<exists>r. v = JStr r \<and> rung_frozen c r)"
proof -
  have len: "text_ok 1 128 ANY_RE r" if "rung_frozen c r" for r
    using that by (auto simp: rung_frozen_def intro!: text_ok_append)
      (auto simp: text_ok_def ANY_RE_def is_control_def)
  have "seqE [fail_if (r \<notin> {''direct'', ''vpn''} \<and> \<not> starts_with r ''home:'' \<and> \<not> starts_with r ''ios:'')
            ''ladder'' ''unsupported rung'',
         (if starts_with r ''home:'' then
            bindE (require_text (JStr (removeprefix r ''home:'')) ''ladder.home_label'' 1 120
                HOME_LABEL_RE) (\<lambda>label.
              fail_if (label \<notin> set (labels c)) ''ladder'' ''home endpoint is not frozen'')
          else Inr ()),
         (if starts_with r ''ios:'' then
            bindE (require_text (JStr (removeprefix r ''ios:'')) ''ladder.ios_key'' 1 64 IOS_KEY_RE)
              (\<lambda>key. fail_if (key \<notin> set (ios_keys c)) ''ladder'' ''iOS endpoint is not frozen'')
          else Inr ())] = Inr u \<longleftrightarrow> rung_frozen c r" for r
  proof -
    consider "starts_with r ''home:''" "\<not> starts_with r ''ios:''"
      | "starts_with r ''ios:''" "\<not> starts_with r ''home:''"
      | "\<not> starts_with r ''home:''" "\<not> starts_with r ''ios:''"
      by (cases r) (auto simp: )
    then show ?thesis
    proof cases
      case 1
      then obtain l where "r = ''home:'' @ l" using starts_with_removeprefix by blast
      then show ?thesis by (auto simp: rung_frozen_def valid errors removeprefix_def)
    next
      case 2
      then obtain l where "r = ''ios:'' @ l" using starts_with_removeprefix by blast
      then show ?thesis by (auto simp: rung_frozen_def valid errors removeprefix_def)
    next
      case 3
      then show ?thesis by (auto simp: rung_frozen_def errors)
    qed
  qed
  with len show ?thesis by (auto simp: check_rung_def valid errors)
qed

lemma check_ladder_Inr [valid]:
  "check_ladder c ladder = Inr u \<longleftrightarrow>
     (\<exists>rs. ladder = map JStr rs \<and> rs \<noteq> [] \<and> distinct rs \<and> (\<forall>r \<in> set rs. rung_frozen c r))"
proof -
  have "check_ladder c ladder = Inr u \<longleftrightarrow> ladder \<noteq> [] \<and>
      require_distinct ladder ''ladder'' ''duplicates are forbidden'' = Inr () \<and>
      (\<forall>v \<in> set ladder. \<exists>r. v = JStr r \<and> rung_frozen c r)"
    by (auto simp: check_ladder_def check_rung_Inr errors)
  also have "\<dots> \<longleftrightarrow> (\<exists>rs. ladder = map JStr rs \<and> rs \<noteq> [] \<and> distinct rs \<and> (\<forall>r \<in> set rs. rung_frozen c r))"
    unfolding all_strings_iff by auto
  finally show ?thesis .
qed

text \<open>Names in frozen order are a subsequence of the frozen names.\<close>

lemma positions_in_Inr:
  "positions_in frozen names = Inr ps \<longleftrightarrow> list_all2 (\<lambda>x i. index_of x frozen = Some i) names ps"
proof -
  have "(\<lambda>x i. (case index_of x frozen of None \<Rightarrow> raise KeyError x | Some i \<Rightarrow> Inr i) = Inr i) =
      (\<lambda>x i. index_of x frozen = Some i)"
    by (auto simp: fun_eq_iff split: option.split)
  then show ?thesis by (simp only: positions_in_def mapE_Inr_iff)
qed

lemma index_of_shift:
  assumes "list_all2 (\<lambda>x i. index_of x ys = Some i) xs ps" and "y \<notin> set xs"
  shows "list_all2 (\<lambda>x i. index_of x (y # ys) = Some i) xs (map Suc ps)"
  using assms by (induction rule: list_all2_induct) auto

lemma subseq_positions:
  assumes "subseq names frozen" and "distinct frozen"
  shows "\<exists>ps. positions_in frozen names = Inr ps \<and> sorted ps"
  using assms unfolding positions_in_Inr
proof (induction names frozen rule: list_emb.induct)
  case (list_emb_Nil ys)
  then show ?case by simp
next
  case (list_emb_Cons xs ys y)
  then obtain ps where ps: "list_all2 (\<lambda>x i. index_of x ys = Some i) xs ps" "sorted ps" by auto
  have "y \<notin> set xs"
    using list_emb_Cons.hyps list_emb_Cons.prems by (auto dest: list_emb_set)
  with ps show ?case
    by (intro exI [of _ "map Suc ps"] conjI index_of_shift) (simp_all add: sorted_map)
next
  case (list_emb_Cons2 x y xs ys)
  then obtain ps where ps: "list_all2 (\<lambda>x i. index_of x ys = Some i) xs ps" "sorted ps" by auto
  have "y \<notin> set xs"
    using list_emb_Cons2.hyps list_emb_Cons2.prems by (auto dest: list_emb_set)
  with ps have "list_all2 (\<lambda>x i. index_of x (y # ys) = Some i) xs (map Suc ps)"
    by (intro index_of_shift)
  with ps list_emb_Cons2.hyps show ?case
    by (intro exI [of _ "0 # map Suc ps"]) (simp add: sorted_map)
qed

lemma positions_distinct:
  assumes "list_all2 (\<lambda>x i. index_of x ys = Some i) xs ps" and "distinct xs"
  shows "distinct ps"
  using assms
proof (induction rule: list_all2_induct)
  case (Cons x xs p ps)
  have "p \<notin> set ps"
  proof
    assume "p \<in> set ps"
    then obtain i where "i < length ps" "ps ! i = p" by (auto simp: in_set_conv_nth)
    with Cons.hyps(2) have "xs ! i \<in> set xs" "index_of (xs ! i) ys = Some p"
      by (auto simp: list_all2_conv_all_nth)
    with Cons.hyps(1) Cons.prems show False by (auto dest: index_of_inj)
  qed
  with Cons show ?case by simp
qed simp

lemma check_order_Inr [valid]:
  assumes "distinct frozen" and "distinct names"
  shows "check_order frozen names p m = Inr u \<longleftrightarrow> subseq names frozen"
proof
  assume "check_order frozen names p m = Inr u"
  then obtain ps where ps: "positions_in frozen names = Inr ps" "sort ps = ps"
    by (auto simp: check_order_def bindE_Inr_iff)
  then have all: "list_all2 (\<lambda>x i. index_of x frozen = Some i) names ps" by (simp add: positions_in_Inr)
  with assms(2) have "distinct ps" by (rule positions_distinct [rotated -1]) 
  moreover have "sorted ps" using ps(2) by (metis sorted_sort)
  ultimately have "sorted_wrt (<) ps" by (simp add: strict_sorted_iff)
  with all show "subseq names frozen" by (rule positions_subseq)
next
  assume "subseq names frozen"
  from subseq_positions [OF this assms(1)] show "check_order frozen names p m = Inr u"
    by (auto simp: check_order_def sort_key_id_if_sorted)
qed

lemma check_policies_Inr [valid]:
  "check_policies c rungs = Inr u \<longleftrightarrow> text_ok 64 64 DIGEST_RE (rc_routing_config_digest c) \<and>
     text_ok 1 128 TOKEN_RE (rc_probe_policy_version c) \<and>
     (''vpn'' \<in> set rungs \<longrightarrow> required_transition_ms c \<le> tp_transition_ms (rc_timeout_policy c))"
  by (auto simp: check_policies_def valid errors)

lemma check_helpers_Inr [valid]: "check_helpers hs = Inr u \<longleftrightarrow> helpers_ok hs"
proof -
  have "sort hs = hs \<longleftrightarrow> sorted hs" by (metis sorted_sort sort_key_id_if_sorted list.map_ident)
  then show ?thesis
    by (auto simp: check_helpers_def helpers_ok_def valid errors)
qed

lemma check_ports_Inr [valid]:
  "check_ports public ports = Inr u \<longleftrightarrow> (\<exists>ps. ports = map JInt ps \<and> ports_ok public ps)"
proof -
  have "check_ports public ports = Inr u \<longleftrightarrow> ep_host public = ''127.0.0.1'' \<and> 2 \<le> length ports \<and>
      (\<forall>v \<in> set ports. \<exists>p. v = JInt p \<and> 1 \<le> p \<and> p \<le> 65535) \<and>
      distinct (map json_int ports) \<and> ep_port public \<notin> set (map json_int ports)"
    by (auto simp: check_ports_def valid errors)
  also have "\<dots> \<longleftrightarrow> (\<exists>ps. ports = map JInt ps \<and> ports_ok public ps)"
    unfolding all_ints_iff ports_ok_def by auto
  finally show ?thesis .
qed

lemma distinct_rung_names:
  assumes "distinct rs"
  shows "distinct (rung_names p rs)"
proof -
  have "inj_on (\<lambda>r. removeprefix r p) (set (filter (\<lambda>r. starts_with r p) rs))"
    by (rule inj_onI) (auto intro: removeprefix_inj)
  with assms show ?thesis by (simp add: rung_names_def distinct_map)
qed

lemma check_mode_Inr:
  "check_mode c = Inr u \<and> check_ios_ladder c (rc_ladder c) = Inr u' \<and>
   (\<forall>h \<in> set_option (rc_forced_host c). text_ok 1 120 HOME_LABEL_RE h) \<and>
   (\<forall>k \<in> set_option (rc_forced_ios_key c). text_ok 1 64 IOS_KEY_RE k) \<longleftrightarrow> mode_ok c"
proof -
  have single: "ios_keys c = [a] \<Longrightarrow> rc_ios_endpoints c \<noteq> [] \<and> a \<in> ie_key ` set (rc_ios_endpoints c)" for a
    by (cases "rc_ios_endpoints c") auto
  show ?thesis
    by (cases "rc_forced_host c"; cases "rc_forced_ios_key c"; cases "rc_route_mode c";
        simp add: check_mode_def check_ios_ladder_def mode_ok_def Let_def seqE_Inr_iff;
        (metis single)?)
qed

lemma check_ladder_order_Inr:
  assumes "distinct (labels c)" and "distinct (ios_keys c)" and "distinct rs"
  shows "check_ladder_order c rs = Inr u \<longleftrightarrow>
    (rc_route_mode c = AUTO \<longrightarrow> subseq (rung_names ''home:'' rs) (labels c)) \<and>
    subseq (rung_names ''ios:'' rs) (ios_keys c)"
  using assms by (auto simp: check_ladder_order_def check_order_Inr distinct_rung_names errors)

text \<open>The later checks do not look at the ladder and the ports inside the record.\<close>

abbreviation with_lists :: "route_contract \<Rightarrow> string list \<Rightarrow> int list \<Rightarrow> route_contract" where
  "with_lists c rs ps \<equiv> c\<lparr>rc_ladder := rs, rc_private_ports := ps\<rparr>"

lemma checks_with_lists [simp]:
  "check_identity (with_lists c rs ps) = check_identity c"
  "check_home_endpoints (with_lists c rs ps) = check_home_endpoints c"
  "check_ios_endpoints (with_lists c rs ps) = check_ios_endpoints c"
  "check_mode (with_lists c rs ps) = check_mode c"
  "check_ios_ladder (with_lists c rs ps) rs' = check_ios_ladder c rs'"
  "required_transition_ms (with_lists c rs ps) = required_transition_ms c"
  "rung_frozen (with_lists c rs ps) r = rung_frozen c r"
  by (simp_all add: check_identity_def check_home_endpoints_def check_ios_endpoints_def check_mode_def
      check_ios_ladder_def required_transition_ms_def rung_frozen_def)

lemma route_contract_post_init_Inr:
  "route_contract_post_init c ladder ports = Inr u \<longleftrightarrow>
     (\<exists>rs ps. ladder = map JStr rs \<and> ports = map JInt ps \<and> route_contract_wf (with_lists c rs ps))"
proof -
  have "route_contract_post_init c (map JStr rs) (map JInt ps) = Inr u \<longleftrightarrow>
      route_contract_wf (with_lists c rs ps)" for rs ps
  proof -
    let ?d = "with_lists c rs ps"
    have "route_contract_post_init c (map JStr rs) (map JInt ps) = Inr u \<longleftrightarrow>
        check_identity c = Inr () \<and> check_home_endpoints c = Inr () \<and> check_ios_endpoints c = Inr () \<and>
        check_mode c = Inr () \<and> check_ladder c (map JStr rs) = Inr () \<and> check_ios_ladder c rs = Inr () \<and>
        check_ladder_order c rs = Inr () \<and> check_policies c rs = Inr () \<and>
        helpers_ok (rc_helper_release_ids c) \<and> text_ok 1 128 TOKEN_RE (rc_grok_release_id c) \<and>
        ports_ok (rc_public_endpoint c) ps"
      by (simp add: route_contract_post_init_def Let_def check_helpers_Inr check_ports_Inr
          require_text_Inr seqE_Inr_iff voidE_Inr_iff)
    also have "\<dots> \<longleftrightarrow> route_contract_wf ?d"
      using check_mode_Inr [of ?d "()" "()"] check_ladder_order_Inr [of c rs "()"]
      by (auto simp: route_contract_wf_def check_identity_Inr check_home_endpoints_Inr
          check_ios_endpoints_Inr check_ladder_Inr check_policies_Inr ladder_ok_def)
    finally show ?thesis .
  qed
  moreover have "\<exists>rs. ladder = map JStr rs" "\<exists>ps. ports = map JInt ps"
    if "route_contract_post_init c ladder ports = Inr u"
  proof -
    from that have "check_ladder c ladder = Inr ()" "check_ports (rc_public_endpoint c) ports = Inr ()"
      by (simp_all add: route_contract_post_init_def Let_def seqE_Inr_iff)
    then show "\<exists>rs. ladder = map JStr rs" "\<exists>ps. ports = map JInt ps"
      unfolding check_ladder_Inr check_ports_Inr by blast+
  qed
  ultimately show ?thesis by metis
qed

lemma route_contract_new_Inr [valid]:
  "route_contract_new c ladder ports = Inr c' \<longleftrightarrow>
     route_contract_wf c' \<and> ladder = map JStr (rc_ladder c') \<and> ports = map JInt (rc_private_ports c') \<and>
     c' = with_lists c (rc_ladder c') (rc_private_ports c')"
  by (auto simp: route_contract_new_def route_contract_post_init_Inr thenE_Inr_iff)

section \<open>The record and its JSON form\<close>

lemma route_mode_of_value [simp]: "route_mode_of (route_mode_value m) = Some m"
  by (cases m) (simp_all add: route_mode_of_def)

lemma route_mode_of_Some: "route_mode_of s = Some m \<longleftrightarrow> s = route_mode_value m"
  by (cases m) (auto simp: route_mode_of_def split: if_splits)

lemma route_mode_value_inj [simp]: "route_mode_value m = route_mode_value n \<longleftrightarrow> m = n"
  by (cases m; cases n) simp_all

lemma read_route_mode_Inr [valid]: "read_route_mode v p = Inr m \<longleftrightarrow> v = JStr (route_mode_value m)"
proof -
  have "text_ok (Suc 0) 16 ANY_RE (route_mode_value m)"
    by (cases m) (simp_all add: text_ok_def ANY_RE_def is_control_def)
  then show ?thesis
    by (cases v) (auto simp: read_route_mode_def valid errors route_mode_of_Some split: option.split)
qed

text \<open>The helper releases: a dict read in any order, kept sorted.\<close>

definition helpers_json :: "(string \<times> string) list \<Rightarrow> json" where
  "helpers_json hs = JObj (map (map_prod id JStr) hs)"

lemma helper_pair_Inr:
  "helper_pair p nr = Inr x \<longleftrightarrow>
     nr = map_prod id JStr x \<and> text_ok 1 64 TOKEN_RE (fst x) \<and> text_ok 1 128 TOKEN_RE (snd x)"
  by (cases nr; cases x) (auto simp: helper_pair_def valid errors)

lemma mapE_helper_pair_Inr:
  "mapE (helper_pair p) hs = Inr pairs \<longleftrightarrow> hs = map (map_prod id JStr) pairs \<and>
     (\<forall>(n, r) \<in> set pairs. text_ok 1 64 TOKEN_RE n \<and> text_ok 1 128 TOKEN_RE r)"
  unfolding mapE_Inr_iff helper_pair_Inr
  by (induction hs arbitrary: pairs) (auto simp: list_all2_Cons1 Cons_eq_map_conv)

lemma sort_eq_of_set:
  fixes xs :: "'a::linorder list"
  assumes "distinct xs" and "sorted ys" and "distinct ys"
  shows "sort xs = ys \<longleftrightarrow> set xs = set ys"
  using assms by (metis distinct_sort set_sort sorted_distinct_set_unique sorted_sort)

lemma helpers_load_aux:
  assumes "distinct (map fst kvs)" and "helpers_ok hs"
  shows "(\<exists>pairs. mapE (helper_pair p) kvs = Inr pairs \<and> sort pairs = hs) \<longleftrightarrow>
    fst ` set kvs = fst ` set hs \<and> (\<forall>(k, r) \<in> set hs. map_of kvs k = Some (JStr r))"
proof
  assume "\<exists>pairs. mapE (helper_pair p) kvs = Inr pairs \<and> sort pairs = hs"
  then obtain pairs where pairs: "kvs = map (map_prod id JStr) pairs" "sort pairs = hs"
    by (auto simp: mapE_helper_pair_Inr)
  then have "set pairs = set hs" by auto
  moreover have "distinct (map fst pairs)" using assms(1) pairs(1) by (simp add: comp_def)
  ultimately show "fst ` set kvs = fst ` set hs \<and> (\<forall>(k, r) \<in> set hs. map_of kvs k = Some (JStr r))"
    using pairs(1) by (auto simp: map_of_map_prod image_image)
next
  assume r: "fst ` set kvs = fst ` set hs \<and> (\<forall>(k, r) \<in> set hs. map_of kvs k = Some (JStr r))"
  define pairs where "pairs = map (map_prod id json_text) kvs"
  have d: "distinct (map fst pairs)" using assms(1) by (simp add: pairs_def comp_def)
  have str: "\<exists>t. v = JStr t" if kv: "(k, v) \<in> set kvs" for k v
  proof -
    from r kv have "k \<in> fst ` set hs" by (metis fst_conv image_eqI)
    then obtain t where "(k, t) \<in> set hs" by auto
    with r have "map_of kvs k = Some (JStr t)" by blast
    with kv assms(1) show ?thesis by simp
  qed
  then have kvs: "kvs = map (map_prod id JStr) pairs"
    by (fastforce simp: pairs_def intro!: map_idI [symmetric])
  have "map_of pairs k = map_option json_text (map_of kvs k)" for k
    by (simp add: pairs_def map_of_map_prod)
  with r have "\<forall>kv \<in> set hs. map_of pairs (fst kv) = Some (snd kv)" by auto
  moreover have "fst ` set pairs = fst ` set hs" using r by (simp add: pairs_def image_image)
  ultimately have "set pairs = set hs"
    using d assms(2) by (subst assoc_set_eq_iff) (auto simp: helpers_ok_def)
  moreover have "distinct hs" "distinct pairs"
    using assms(2) d by (simp_all add: helpers_ok_def distinct_map)
  ultimately have "sort pairs = hs" and "\<forall>(n, r) \<in> set pairs. text_ok 1 64 TOKEN_RE n \<and> text_ok 1 128 TOKEN_RE r"
    using assms(2) by (auto simp: helpers_ok_def sort_eq_of_set)
  with kvs show "\<exists>pairs. mapE (helper_pair p) kvs = Inr pairs \<and> sort pairs = hs"
    by (auto simp: mapE_helper_pair_Inr)
qed

lemma helpers_load:
  assumes "json_wf v"
  shows "(\<exists>kvs. v = JObj kvs \<and> (\<exists>pairs. mapE (helper_pair p) kvs = Inr pairs \<and> sort pairs = hs)) \<and>
      helpers_ok hs \<longleftrightarrow> helpers_ok hs \<and> json_canon v = json_canon (helpers_json hs)"
proof (cases v)
  case (JObj kvs)
  show ?thesis
  proof (cases "helpers_ok hs")
    case True
    have "distinct (map fst (map (map_prod id JStr) hs))"
      using True by (simp add: helpers_ok_def map_fst_map_prod del: map_map)
    then have "json_canon v = json_canon (helpers_json hs) \<longleftrightarrow>
        fst ` set kvs = fst ` set hs \<and> (\<forall>(k, r) \<in> set hs. map_of kvs k = Some (JStr r))"
      using assms JObj by (auto simp: helpers_json_def canon_record_iff image_image)
    then show ?thesis using assms JObj True helpers_load_aux [of kvs hs p]
      by (simp add: json_wf.simps(6))
  qed simp
qed (auto simp: helpers_json_def)

lemma json_wf_helpers: "helpers_ok hs \<Longrightarrow> json_wf (helpers_json hs)"
  by (auto simp: helpers_ok_def helpers_json_def json_wf.simps(6) list_all_iff)

lemma json_wf_opt [simp]: "json_wf (opt_json x)"
  by (cases x) simp_all

lemma route_contract_dump_wf: "route_contract_ok c \<Longrightarrow> json_wf (route_contract_to_dict c)"
  unfolding route_contract_to_dict_def helpers_json_def [symmetric]
  by (simp add: json_wf.simps(6) json_wf_JArr json_wf_helpers route_contract_ok_def
      route_contract_wf_def endpoint.dump_wf home_endpoint.dump_wf ios_endpoint.dump_wf
      timeout_policy.dump_wf stability_policy.dump_wf vpn_policy.dump_wf resource_limits.dump_wf
      del: json_wf.simps(5))

text \<open>\<open>from_dict\<close> field by field.\<close>

definition reads_list :: "jobject \<Rightarrow> string \<Rightarrow> string \<Rightarrow> (nat \<Rightarrow> json \<Rightarrow> 'a result) \<Rightarrow> 'a list \<Rightarrow> bool" where
  "reads_list kvs k p f xs \<longleftrightarrow>
     (\<exists>vs. field kvs k (\<lambda>x. require_list x p arrays_msg) = Inr vs \<and> mapE_index 0 f vs = Inr xs)"

definition reads_helpers :: "jobject \<Rightarrow> string \<Rightarrow> (string \<times> string) list \<Rightarrow> bool" where
  "reads_helpers kvs p hs \<longleftrightarrow>
     (\<exists>vs pairs. field kvs ''helper_release_ids'' (\<lambda>x. require_mapping x (p @ ''.helper_release_ids'')) = Inr vs \<and>
        mapE (helper_pair p) vs = Inr pairs \<and> sort pairs = hs)"

lemma route_contract_from_dict_Inr:
  "route_contract_from_dict (JObj kvs) p = Inr c \<longleftrightarrow>
     fst ` set kvs = set route_contract_fields \<and>
     field kvs ''route_mode'' (\<lambda>x. read_route_mode x (p @ ''.route_mode'')) = Inr (rc_route_mode c) \<and>
     reads_helpers kvs p (rc_helper_release_ids c) \<and>
     field kvs ''ladder'' (\<lambda>x. require_list x p arrays_msg) = Inr (map JStr (rc_ladder c)) \<and>
     reads_list kvs ''home_endpoints'' p (\<lambda>i x. home_endpoint_from_dict x
       (p @ ''.home_endpoints['' @ nat_dec i @ '']'')) (rc_home_endpoints c) \<and>
     reads_list kvs ''ios_endpoints'' p (\<lambda>i x. ios_endpoint_from_dict x
       (p @ ''.ios_endpoints['' @ nat_dec i @ '']'')) (rc_ios_endpoints c) \<and>
     field kvs ''private_ports'' (\<lambda>x. require_list x p arrays_msg) = Inr (map JInt (rc_private_ports c)) \<and>
     field kvs ''schema_version''
       (\<lambda>x. require_int x (p @ ''.schema_version'') 1 (2 ^ 31 - 1)) = Inr (rc_schema_version c) \<and>
     field kvs ''protocol_version''
       (\<lambda>x. require_int x (p @ ''.protocol_version'') 1 (2 ^ 31 - 1)) = Inr (rc_protocol_version c) \<and>
     field kvs ''release_id'' (\<lambda>x. require_text x (p @ ''.release_id'') 1 128 TOKEN_RE) = Inr (rc_release_id c) \<and>
     field kvs ''model_id'' (\<lambda>x. require_text x (p @ ''.model_id'') 1 128 TOKEN_RE) = Inr (rc_model_id c) \<and>
     field kvs ''forced_host'' (\<lambda>x. require_optional_text x (p @ ''.forced_host'') 128) = Inr (rc_forced_host c) \<and>
     field kvs ''forced_ios_key'' (\<lambda>x. require_optional_text x (p @ ''.forced_ios_key'') 64) = Inr (rc_forced_ios_key c) \<and>
     field kvs ''allow_direct'' (\<lambda>x. require_bool x (p @ ''.allow_direct'')) = Inr (rc_allow_direct c) \<and>
     field kvs ''routing_config_digest''
       (\<lambda>x. require_digest x (p @ ''.routing_config_digest'')) = Inr (rc_routing_config_digest c) \<and>
     field kvs ''probe_policy_version''
       (\<lambda>x. require_text x (p @ ''.probe_policy_version'') 1 128 TOKEN_RE) = Inr (rc_probe_policy_version c) \<and>
     field kvs ''timeout_policy''
       (\<lambda>x. timeout_policy_from_dict x (p @ ''.timeout_policy'')) = Inr (rc_timeout_policy c) \<and>
     field kvs ''stability_policy''
       (\<lambda>x. stability_policy_from_dict x (p @ ''.stability_policy'')) = Inr (rc_stability_policy c) \<and>
     field kvs ''vpn_policy'' (\<lambda>x. vpn_policy_from_dict x (p @ ''.vpn_policy'')) = Inr (rc_vpn_policy c) \<and>
     field kvs ''grok_release_id''
       (\<lambda>x. require_text x (p @ ''.grok_release_id'') 1 128 TOKEN_RE) = Inr (rc_grok_release_id c) \<and>
     field kvs ''public_endpoint''
       (\<lambda>x. endpoint_from_dict x (p @ ''.public_endpoint'')) = Inr (rc_public_endpoint c) \<and>
     field kvs ''limits'' (\<lambda>x. resource_limits_from_dict x (p @ ''.limits'')) = Inr (rc_limits c) \<and>
     route_contract_wf c" (is "?L \<longleftrightarrow> ?R")
proof
  assume ?L
  then show ?R
    unfolding route_contract_from_dict_def thenE_Inr_iff bindE_Inr_iff
      require_mapping_Inr route_contract_new_Inr require_exact_keys_Inr
    by (elim exE conjE; cases c; simp add: reads_list_def reads_helpers_def; blast)
next
  assume ?R
  then show ?L
    by (cases c) (auto simp: route_contract_from_dict_def require_mapping_def reads_list_def
        reads_helpers_def require_exact_keys_Inr thenE_Inr_iff route_contract_new_Inr)
qed

lemma reads_list_iff:
  assumes "codec valid dump load" and "json_wf (JObj kvs)"
  shows "reads_list kvs k p (\<lambda>i x. load x (q i)) xs \<longleftrightarrow>
    (\<forall>x \<in> set xs. valid x) \<and> (\<exists>a. map_of kvs k = Some a \<and> json_canon a = json_canon (JArr (map dump xs)))"
proof -
  have "reads_list kvs k p (\<lambda>i x. load x (q i)) xs \<longleftrightarrow>
      (\<exists>a. map_of kvs k = Some a \<and> (\<exists>vs. a = JArr vs \<and> mapE_index 0 (\<lambda>i x. load x (q i)) vs = Inr xs))"
    by (auto simp: reads_list_def field_Inr require_list_Inr)
  also have "\<dots> \<longleftrightarrow> (\<exists>a. map_of kvs k = Some a \<and> (\<forall>x \<in> set xs. valid x) \<and>
      json_canon a = json_canon (JArr (map dump xs)))"
    by (intro ex_cong1 conj_cong refl)
      (rule codec.canon_list_iff [OF assms(1)], erule json_wf_field [OF assms(2)])
  finally show ?thesis by blast
qed

lemma reads_helpers_iff:
  assumes "json_wf (JObj kvs)"
  shows "reads_helpers kvs p hs \<and> helpers_ok hs \<longleftrightarrow>
    (\<exists>a. map_of kvs ''helper_release_ids'' = Some a \<and> json_canon a = json_canon (helpers_json hs)) \<and>
    helpers_ok hs"
proof -
  have "reads_helpers kvs p hs \<longleftrightarrow>
      (\<exists>a. map_of kvs ''helper_release_ids'' = Some a \<and>
        (\<exists>vs. a = JObj vs \<and> (\<exists>pairs. mapE (helper_pair p) vs = Inr pairs \<and> sort pairs = hs)))"
    by (auto simp: reads_helpers_def field_Inr require_mapping_Inr)
  then show ?thesis
    using helpers_load [OF json_wf_field [OF assms], of "''helper_release_ids''" _ p hs]
    by (cases "map_of kvs ''helper_release_ids''") auto
qed

text \<open>The checks that \<open>from_dict\<close> repeats before the constructor runs.\<close>

lemma route_contract_wf_repeats:
  "route_contract_wf c \<Longrightarrow>
     rc_schema_version c \<le> 2 ^ 31 - 1 \<and> 1 \<le> rc_schema_version c \<and>
     rc_protocol_version c \<le> 2 ^ 31 - 1 \<and> 1 \<le> rc_protocol_version c \<and>
     text_ok 1 128 TOKEN_RE (rc_release_id c) \<and> text_ok 1 128 TOKEN_RE (rc_model_id c) \<and>
     (\<forall>h \<in> set_option (rc_forced_host c). text_ok 1 128 TOKEN_RE h) \<and>
     (\<forall>k \<in> set_option (rc_forced_ios_key c). text_ok 1 64 TOKEN_RE k) \<and>
     text_ok 64 64 DIGEST_RE (rc_routing_config_digest c) \<and>
     text_ok 1 128 TOKEN_RE (rc_probe_policy_version c) \<and>
     text_ok 1 128 TOKEN_RE (rc_grok_release_id c) \<and> helpers_ok (rc_helper_release_ids c)"
  by (auto simp: route_contract_wf_def mode_ok_def dest: home_label_token ios_key_token)

lemma require_optional_text_iff:
  "require_optional_text v p mx = Inr x \<longleftrightarrow>
     json_canon v = json_canon (opt_json x) \<and> (\<forall>s \<in> set_option x. text_ok 1 mx TOKEN_RE s)"
  by (cases x) (auto simp: require_optional_text_Inr)

lemma route_contract_load_JObj:
  assumes wf: "json_wf (JObj kvs)"
  shows "route_contract_from_dict (JObj kvs) p = Inr c \<longleftrightarrow>
    route_contract_ok c \<and> json_canon (JObj kvs) = json_canon (route_contract_to_dict c)"
proof (cases "route_contract_wf c")
  case True
  note repeats = route_contract_wf_repeats [OF True]
  have helpers: "reads_helpers kvs p (rc_helper_release_ids c) \<longleftrightarrow>
      (\<exists>a. map_of kvs ''helper_release_ids'' = Some a \<and>
        json_canon a = json_canon (helpers_json (rc_helper_release_ids c)))"
    using reads_helpers_iff [OF wf, of p "rc_helper_release_ids c"] repeats by simp
  note lists = reads_list_iff [OF home_endpoint.codec_axioms wf] reads_list_iff [OF ios_endpoint.codec_axioms wf]
  note fields = endpoint.load_field [OF wf] timeout_policy.load_field [OF wf]
    stability_policy.load_field [OF wf] vpn_policy.load_field [OF wf] resource_limits.load_field [OF wf]
  show ?thesis
    unfolding route_contract_from_dict_Inr helpers route_contract_to_dict_def
      helpers_json_def [symmetric] route_contract_ok_def
    using repeats
    by (simp add: canon_record_iff wf lists fields field_Inr require_optional_text_iff valid
        route_contract_fields_def insert_commute json_canon_atom_lists cong: conj_cong del: json_canon.simps(5);
        (simp only: conj_ac conj_absorb conj_left_absorb)?)
qed (simp add: route_contract_from_dict_Inr route_contract_ok_def)

lemma route_contract_load_iff:
  assumes "json_wf v"
  shows "route_contract_from_dict v p = Inr c \<longleftrightarrow>
    route_contract_ok c \<and> json_canon v = json_canon (route_contract_to_dict c)"
proof (cases "\<exists>kvs. v = JObj kvs")
  case True
  with assms show ?thesis using route_contract_load_JObj by blast
next
  case False
  then have "route_contract_from_dict v p \<noteq> Inr c"
    by (simp add: route_contract_from_dict_def bindE_Inr_iff require_mapping_Inr)
  moreover from False have "json_canon v \<noteq> json_canon (route_contract_to_dict c)"
    by (cases v) (auto simp: route_contract_to_dict_def)
  ultimately show ?thesis by blast
qed

interpretation route_contract: codec route_contract_ok route_contract_to_dict route_contract_from_dict
  by unfold_locales (simp_all add: route_contract_load_iff route_contract_dump_wf)

section \<open>What the reader raises\<close>

lemma raises_check_order:
  assumes "set names \<subseteq> set frozen"
  shows "raises contract_errors (check_order frozen names p m)"
proof -
  have "positions_in frozen names \<noteq> Inl e" for e
    using assms by (induction names) (auto simp: positions_in_def bindE_Inl_iff split: option.splits)
  then have "raises contract_errors (positions_in frozen names)" by (simp add: raises_def)
  then show ?thesis by (auto simp: check_order_def intro!: raising)
qed

lemma rung_frozen_home:
  "rung_frozen c (''home:'' @ l) \<longleftrightarrow> l \<in> set (labels c) \<and> text_ok 1 120 HOME_LABEL_RE l"
  "rung_frozen c (''ios:'' @ k) \<longleftrightarrow> k \<in> set (ios_keys c) \<and> text_ok 1 64 IOS_KEY_RE k"
  by (auto simp: rung_frozen_def)

lemma rung_names_in: "x \<in> set (rung_names p rs) \<longleftrightarrow> p @ x \<in> set rs"
proof
  assume "x \<in> set (rung_names p rs)"
  then obtain r where "r \<in> set rs" "starts_with r p" "x = removeprefix r p"
    by (auto simp: rung_names_def)
  then show "p @ x \<in> set rs" using starts_with_removeprefix by metis
next
  assume "p @ x \<in> set rs"
  then have "removeprefix (p @ x) p \<in> set (rung_names p rs)"
    unfolding rung_names_def by (intro image_eqI [where x = "p @ x"] | simp)+
  then show "x \<in> set (rung_names p rs)" by simp
qed

lemma rung_names_frozen:
  assumes "\<forall>r \<in> set rs. rung_frozen c r"
  shows "set (rung_names ''home:'' rs) \<subseteq> set (labels c)" and "set (rung_names ''ios:'' rs) \<subseteq> set (ios_keys c)"
  using assms rung_frozen_home rung_names_in by blast+

lemma raises_ladder_order:
  assumes "check_ladder c ladder = Inr ()"
  shows "raises contract_errors (check_ladder_order c (map json_text ladder))"
proof -
  from assms obtain rs where rs: "ladder = map JStr rs" "\<forall>r \<in> set rs. rung_frozen c r"
    unfolding check_ladder_Inr by blast
  from rung_names_frozen [OF rs(2)] show ?thesis
    unfolding check_ladder_order_def rs(1)
    by (intro raises_seqE_Cons) (simp_all add: raises_check_order)
qed

lemma raises_checks [raising]:
  "raises contract_errors (check_identity c)"
  "raises contract_errors (check_home_endpoints c)"
  "raises contract_errors (check_ios_endpoints c)"
  "raises contract_errors (check_mode c)"
  "raises contract_errors (check_rung c v)"
  "raises contract_errors (check_ladder c ladder)"
  "raises contract_errors (check_ios_ladder c rs)"
  "raises contract_errors (check_policies c rs)"
  "raises contract_errors (check_helpers hs)"
  "raises contract_errors (check_ports e ports)"
proof -
  show rung: "raises contract_errors (check_rung c v)" for v
    by (auto simp: check_rung_def intro!: raising)
  show "raises contract_errors (check_ladder c ladder)"
    by (auto simp: check_ladder_def intro!: raising rung)
  show "raises contract_errors (check_mode c)"
    by (auto simp: check_mode_def Let_def intro!: raising)
qed (auto simp: check_identity_def check_home_endpoints_def check_ios_endpoints_def
    check_ios_ladder_def check_policies_def check_helpers_def check_ports_def
    intro!: raising split: option.split)

lemma raises_route_contract_new [raising]: "raises contract_errors (route_contract_new c ladder ports)"
  unfolding route_contract_new_def route_contract_post_init_def Let_def
  by (intro raises_thenE raises_seqE_Cons raises_ladder_order) (auto intro!: raising)

lemma raises_route_contract_from_dict:
  "raises contract_errors (route_contract_from_dict v p)"
proof -
  have mode: "raises contract_errors (read_route_mode x q)" for x q
    by (auto simp: read_route_mode_def intro!: raising split: option.split)
  have pair: "raises contract_errors (helper_pair q nr)" for q nr
    by (auto simp: helper_pair_def intro!: raising)
  show ?thesis
    unfolding route_contract_from_dict_def
    by (intro raising mode pair; simp add: require_exact_keys_Inr route_contract_fields_def)
qed

section \<open>A sample contract\<close>

text \<open>An automatic route with one home host, one phone, the VPN and no direct rung.\<close>

definition sample_contract :: route_contract where
  "sample_contract = \<lparr>
     rc_schema_version = 2, rc_protocol_version = 2, rc_release_id = ''r1'', rc_model_id = ''grok-4'',
     rc_route_mode = AUTO, rc_forced_host = None,
     rc_home_endpoints = [\<lparr>he_label = ''desk'', he_host = ''h.example'', he_user = ''u'', he_port = 22\<rparr>],
     rc_ios_endpoints = [\<lparr>ie_key = ''phone'', ie_stable_node_id = ''nABC''\<rparr>],
     rc_forced_ios_key = None, rc_allow_direct = False,
     rc_ladder = [''home:desk'', ''ios:phone'', ''vpn''],
     rc_routing_config_digest = replicate 64 (CHR ''a''), rc_probe_policy_version = ''p1'',
     rc_timeout_policy = \<lparr>tp_connect_ms = 1000, tp_probe_ms = 20000, tp_transition_ms = 300000,
       tp_stop_ms = 5000\<rparr>,
     rc_stability_policy = \<lparr>sp_version = ''s1'', sp_sample_count = 3, sp_sample_interval_ms = 1000,
       sp_require_same_exit = True\<rparr>,
     rc_vpn_policy = \<lparr>vp_namespace = ''grokvpn'', vp_max_tries = 3, vp_ranking_version = ''v1'',
       vp_countries = [''US''], vp_blocked_countries = [''CN'']\<rparr>,
     rc_helper_release_ids = [(''broker'', ''b1''), (''relay'', ''y2'')],
     rc_grok_release_id = ''g1'',
     rc_public_endpoint = \<lparr>ep_host = ''127.0.0.1'', ep_port = 8080\<rparr>,
     rc_private_ports = [9001, 9002],
     rc_limits = \<lparr>rl_max_leases = 8, rl_max_control_connections = 16, rl_max_frontend_streams = 64,
       rl_max_packet_bytes = 65536, rl_per_stream_buffer_bytes = 65536,
       rl_total_buffer_bytes = 1048576\<rparr>\<rparr>"

lemma sample_contract_ok: "route_contract_ok sample_contract"
  by code_simp

section \<open>Properties\<close>

text \<open>
  C9: \<open>RouteContract.from_dict\<close> accepts a JSON record exactly when it is, up to the order of its
  keys, the \<open>to_dict\<close> form of a valid contract, and returns that contract: nothing is coerced,
  defaulted or ignored, and every valid contract is read back.
\<close>

theorem contract_from_dict_exact:
  assumes "json_wf v"
  shows "route_contract_from_dict v path = Inr c \<longleftrightarrow>
    route_contract_ok c \<and> canonical_json_bytes v = canonical_json_bytes (route_contract_to_dict c)"
  using canonical_json_bytes_inj_wf [OF assms] route_contract_dump_wf [of c]
  by (auto simp: route_contract_load_iff [OF assms])

theorem contract_from_dict_exact_witness:
  "route_contract_from_dict (route_contract_to_dict sample_contract) ''contract'' = Inr sample_contract"
  using contract_from_dict_exact [OF route_contract_dump_wf [OF sample_contract_ok]] sample_contract_ok
  by blast

text \<open>
  C10: the constructor of \<open>RouteContract\<close>, given a ladder and ports as JSON values, succeeds exactly
  when these are lists of strings and of integers and the record with them satisfies the declarative
  contract \<open>route_contract_wf\<close>: unique labels, keys and node IDs, a non-empty ladder without
  duplicates whose every rung names a frozen endpoint and keeps the frozen order, a mode consistent
  with its forced endpoint, sorted helper releases, distinct private ports, the VPN deadline.
\<close>

theorem route_contract_constructor:
  "route_contract_new c ladder ports = Inr c' \<longleftrightarrow>
     (\<exists>rs ps. ladder = map JStr rs \<and> ports = map JInt ps \<and>
        c' = c\<lparr>rc_ladder := rs, rc_private_ports := ps\<rparr> \<and> route_contract_wf c')"
  by (auto simp: route_contract_new_Inr)



text \<open>
  C16: reading a contract from JSON never fails with anything but a validation error, or the
  \<open>TypeError\<close> of hashing a nested list or object; in particular no key lookup fails.
\<close>

theorem contract_from_dict_raises:
  "raises {ContractValidationError, TypeError} (route_contract_from_dict v path)"
  by (rule raises_route_contract_from_dict)

end
