(* ===== verification/Differences.thy ===== *)
theory Differences
  imports Contract
begin

text \<open>
  \<open>RouteContract.semantic_differences\<close> of \<open>system/grok-proxy/grok_ms/contract.py\<close>: the list of
  dotted paths at which the JSON forms of two contracts differ. Its nested \<open>compare\<close> uses Python's
  \<open>==\<close>, which equates \<open>True\<close> with \<open>1\<close> and ignores the order of keys; between two contracts it is
  equality all the same, which is the result of this theory.
\<close>

section \<open>Python's equality on JSON values\<close>

primrec py_norm :: "json \<Rightarrow> json" where
  "py_norm JNull = JNull"
| "py_norm (JBool b) = JInt (if b then 1 else 0)"
| "py_norm (JInt i) = JInt i"
| "py_norm (JStr s) = JStr s"
| "py_norm (JArr xs) = JArr (map py_norm xs)"
| "py_norm (JObj kvs) = JObj (sort_key fst (map (map_prod id py_norm) kvs))"

definition py_eq :: "json \<Rightarrow> json \<Rightarrow> bool" where
  "py_eq v w \<longleftrightarrow> py_norm v = py_norm w"

section \<open>The comparison\<close>

text \<open>\<open>differences\<close> is appended to in the source; here the paths found are returned.\<close>

definition sub_path :: "string \<Rightarrow> string \<Rightarrow> string" where
  "sub_path path key = (if path = [] then key else path @ ''.'' @ key)"

lemma size_member: "(k, v) \<in> set kvs \<Longrightarrow> size v < Suc (size_list (size_prod (\<lambda>_. 0) size) kvs)"
  using size_list_estimation' [of "(k, v)" kvs "size v" "size_prod (\<lambda>_. 0) size"] by simp

function compare :: "json \<Rightarrow> json \<Rightarrow> string \<Rightarrow> string list" where
  "compare left right path =
     (case (left, right) of
        (JObj l, JObj r) \<Rightarrow>
          (if set (map fst l) \<noteq> set (map fst r) then [path]
           else concat (map (\<lambda>(k, v).
                  case map_of r k of None \<Rightarrow> [] | Some w \<Rightarrow> compare v w (sub_path path k))
                (sort_key fst l)))
      | _ \<Rightarrow> (if py_eq left right then [] else [path]))"
  by pat_completeness auto

termination
  by (relation "measure (\<lambda>(v, _, _). size v)") (auto dest: size_member)

declare compare.simps [simp del]

definition semantic_differences :: "route_contract \<Rightarrow> route_contract \<Rightarrow> string list" where
  "semantic_differences c d = compare (route_contract_to_dict c) (route_contract_to_dict d) []"

section \<open>No difference means equal\<close>

lemma py_norm_record_iff:
  assumes "distinct (map fst kvs)" and "distinct (map fst kvs')"
  shows "py_norm (JObj kvs) = py_norm (JObj kvs') \<longleftrightarrow>
    fst ` set kvs = fst ` set kvs' \<and>
    (\<forall>kv \<in> set kvs'. \<exists>a. map_of kvs (fst kv) = Some a \<and> py_norm a = py_norm (snd kv))"
  using sorted_objects_iff [OF assms, of py_norm] by simp

lemma compare_JObj:
  "compare (JObj l) (JObj r) p =
     (if set (map fst l) \<noteq> set (map fst r) then [p]
      else concat (map (\<lambda>(k, v). case map_of r k of None \<Rightarrow> [] | Some w \<Rightarrow> compare v w (sub_path p k))
             (sort_key fst l)))"
  by (subst compare.simps) simp

lemma compare_other:
  "\<not> ((\<exists>l. v = JObj l) \<and> (\<exists>r. w = JObj r)) \<Longrightarrow> compare v w p = (if py_eq v w then [] else [p])"
  by (subst compare.simps) (auto split: json.split)

text \<open>On well-formed values the list of differences is empty exactly for equal values.\<close>

lemma compare_Nil_iff:
  assumes "json_wf v" and "json_wf w"
  shows "compare v w p = [] \<longleftrightarrow> py_eq v w"
  using assms
proof (induction v w p rule: compare.induct)
  case (1 v w p)
  show ?case
  proof (cases "(\<exists>l. v = JObj l) \<and> (\<exists>r. w = JObj r)")
    case True
    then obtain l r where lr: "v = JObj l" "w = JObj r" by blast
    with "1.prems" have d: "distinct (map fst l)" "distinct (map fst r)"
      by (auto simp: json_wf.simps(6))
    show ?thesis
    proof (cases "set (map fst l) = set (map fst r)")
      case False
      then show ?thesis
        using lr py_norm_record_iff [OF d]
        by (simp add: compare_JObj py_eq_def del: py_norm.simps)
    next
      case keys: True
      have "compare v w p = [] \<longleftrightarrow> (\<forall>(k, a) \<in> set l. \<exists>b. map_of r k = Some b \<and> py_eq a b)"
      proof -
        have "compare v w p = [] \<longleftrightarrow> (\<forall>(k, a) \<in> set l.
            (case map_of r k of None \<Rightarrow> [] | Some b \<Rightarrow> compare a b (sub_path p k)) = [])"
          using keys lr by (simp add: compare_JObj case_prod_beta)
        also have "\<dots> \<longleftrightarrow> (\<forall>(k, a) \<in> set l. \<exists>b. map_of r k = Some b \<and> py_eq a b)"
        proof (intro ball_cong refl, clarify)
          fix k a
          assume ka: "(k, a) \<in> set l"
          with keys obtain b where b: "map_of r k = Some b"
            by (metis fst_conv image_eqI list.set_map map_of_eq_None_iff not_None_eq)
          have "json_wf a" "json_wf b"
            using "1.prems" lr ka b by (auto simp: json_wf_JObj dest: map_of_SomeD)
          with "1.IH" [OF refl lr] keys ka b
          show "(case map_of r k of None \<Rightarrow> [] | Some b \<Rightarrow> compare a b (sub_path p k)) = [] \<longleftrightarrow>
              (\<exists>b. map_of r k = Some b \<and> py_eq a b)"
            by auto
        qed
        finally show ?thesis .
      qed
      also have "\<dots> \<longleftrightarrow> py_eq w v"
        using keys lr py_norm_record_iff [OF d(2,1)]
        by (simp add: py_eq_def case_prod_beta del: py_norm.simps) metis
      finally show ?thesis by (auto simp: py_eq_def)
    qed
  next
    case False
    then show ?thesis by (simp add: compare_other)
  qed
qed

lemma py_norm_atoms [simp]:
  "map (py_norm \<circ> JStr) ss = map JStr ss" "map (py_norm \<circ> JInt) js = map JInt js"
  by simp_all

lemma py_norm_opt [simp]: "py_norm (opt_json x) = py_norm (opt_json y) \<longleftrightarrow> x = y"
  by (cases x; cases y) simp_all

lemma py_norm_policies:
  "py_norm (endpoint_to_dict a) = py_norm (endpoint_to_dict a') \<longleftrightarrow> a = a'"
  "py_norm (home_endpoint_to_dict b) = py_norm (home_endpoint_to_dict b') \<longleftrightarrow> b = b'"
  "py_norm (ios_endpoint_to_dict c) = py_norm (ios_endpoint_to_dict c') \<longleftrightarrow> c = c'"
  "py_norm (timeout_policy_to_dict d) = py_norm (timeout_policy_to_dict d') \<longleftrightarrow> d = d'"
  "py_norm (stability_policy_to_dict e) = py_norm (stability_policy_to_dict e') \<longleftrightarrow> e = e'"
  "py_norm (vpn_policy_to_dict f) = py_norm (vpn_policy_to_dict f') \<longleftrightarrow> f = f'"
  "py_norm (resource_limits_to_dict g) = py_norm (resource_limits_to_dict g') \<longleftrightarrow> g = g'"
  subgoal by (cases a; cases a')
    (auto simp: endpoint_to_dict_def py_norm_record_iff simp del: py_norm.simps(6))
  subgoal by (cases b; cases b')
    (auto simp: home_endpoint_to_dict_def py_norm_record_iff simp del: py_norm.simps(6))
  subgoal by (cases c; cases c')
    (auto simp: ios_endpoint_to_dict_def py_norm_record_iff simp del: py_norm.simps(6))
  subgoal by (cases d; cases d')
    (auto simp: timeout_policy_to_dict_def py_norm_record_iff simp del: py_norm.simps(6))
  subgoal by (cases e; cases e')
    (auto simp: stability_policy_to_dict_def py_norm_record_iff simp del: py_norm.simps(6) split: if_splits)
  subgoal by (cases f; cases f')
    (auto simp: vpn_policy_to_dict_def py_norm_record_iff simp del: py_norm.simps(6))
  subgoal by (cases g; cases g')
    (auto simp: resource_limits_to_dict_def py_norm_record_iff simp del: py_norm.simps(6))
  done

lemma py_norm_list:
  "(\<And>x y. py_norm (f x) = py_norm (f y) \<longleftrightarrow> x = y) \<Longrightarrow>
   py_norm (JArr (map f xs)) = py_norm (JArr (map f ys)) \<longleftrightarrow> xs = ys"
  by (auto simp: comp_def) (metis (no_types, lifting) injI inj_map_eq_map)

lemma py_norm_helpers:
  assumes "helpers_ok hs" and "helpers_ok gs"
  shows "py_norm (helpers_json hs) = py_norm (helpers_json gs) \<longleftrightarrow> hs = gs"
proof
  let ?j = "map (map_prod id JStr)"
  assume "py_norm (helpers_json hs) = py_norm (helpers_json gs)"
  moreover have "map (map_prod id py_norm) (?j xs) = ?j xs" for xs :: "(string \<times> string) list"
    by auto
  ultimately have "sort_key fst (?j hs) = sort_key fst (?j gs)"
    by (simp only: helpers_json_def py_norm.simps json.inject)
  then have "set (?j hs) = set (?j gs)" by (metis set_sort)
  then have "set hs = set gs"
    by (simp add: inj_image_eq_iff prod.inj_map inj_def)
  with assms show "hs = gs"
    by (intro sorted_distinct_set_unique) (auto simp: helpers_ok_def distinct_map)
qed simp

lemma py_eq_contract:
  assumes "route_contract_ok c" and "route_contract_ok d"
  shows "py_eq (route_contract_to_dict c) (route_contract_to_dict d) \<longleftrightarrow> c = d"
proof -
  have h: "helpers_ok (rc_helper_release_ids c)" "helpers_ok (rc_helper_release_ids d)"
    using assms by (auto simp: route_contract_ok_def route_contract_wf_def)
  have b: "(if x then 1 else 0 :: int) = (if y then 1 else 0) \<longleftrightarrow> x = y" for x y by simp
  show ?thesis
    unfolding py_eq_def route_contract_to_dict_def helpers_json_def [symmetric]
    apply (cases c; cases d)
    using h by (simp add: py_norm_record_iff py_norm_policies py_norm_list py_norm_helpers b
        del: py_norm.simps(5,6); (simp only: conj_ac conj_absorb conj_left_absorb)?)
qed

section \<open>Properties\<close>

text \<open>
  C14: \<open>semantic_differences\<close> of two valid contracts is empty exactly when they are the same contract.
\<close>

theorem semantic_differences_Nil:
  assumes "route_contract_ok c" and "route_contract_ok d"
  shows "semantic_differences c d = [] \<longleftrightarrow> c = d"
  using assms
  by (simp add: semantic_differences_def compare_Nil_iff route_contract_dump_wf py_eq_contract)

theorem semantic_differences_Nil_witness:
  "semantic_differences sample_contract (sample_contract\<lparr>rc_model_id := ''grok-5''\<rparr>) \<noteq> []"
proof -
  have "route_contract_ok (sample_contract\<lparr>rc_model_id := ''grok-5''\<rparr>)" by code_simp
  moreover have "sample_contract \<noteq> sample_contract\<lparr>rc_model_id := ''grok-5''\<rparr>"
    by (simp add: sample_contract_def)
  ultimately show ?thesis
    using semantic_differences_Nil [OF sample_contract_ok] by blast
qed

text \<open>
  C13: the canonical bytes of a contract identify it: two valid contracts with the same bytes are
  the same contract.
\<close>

theorem contract_bytes_identify:
  assumes "route_contract_ok c" and "route_contract_ok d"
  shows "canonical_json_bytes (route_contract_to_dict c) = canonical_json_bytes (route_contract_to_dict d)
    \<longleftrightarrow> c = d"
  using route_contract.canonical_bytes_inj [OF assms] by blast

theorem contract_bytes_identify_witness:
  "canonical_json_bytes (route_contract_to_dict sample_contract) \<noteq>
   canonical_json_bytes (route_contract_to_dict (sample_contract\<lparr>rc_allow_direct := True\<rparr>))"
proof -
  have "route_contract_ok (sample_contract\<lparr>rc_allow_direct := True\<rparr>)" by code_simp
  moreover have "sample_contract \<noteq> sample_contract\<lparr>rc_allow_direct := True\<rparr>"
    by (simp add: sample_contract_def)
  ultimately show ?thesis
    using contract_bytes_identify [OF sample_contract_ok] by blast
qed

end
