(* ===== verification/Qualification.thy ===== *)
theory Qualification
  imports Contract
begin

text \<open>
  \<open>RungQualificationContract\<close>, \<open>reconstruct_original_contract\<close> and
  \<open>qualification_route_profile_matches\<close> of \<open>system/grok-proxy/grok_ms/contract.py\<close>: the
  projection of a contract to one rung, under which qualification evidence is filed, and the
  ladder a contract had before qualification narrowed it.
\<close>

section \<open>The classification of the fields\<close>

definition included_route_fields :: "string list" where
  "included_route_fields = [
     ''schema_version'', ''protocol_version'', ''release_id'', ''model_id'', ''probe_policy_version'',
     ''timeout_policy'', ''stability_policy'', ''vpn_policy'', ''helper_release_ids'',
     ''grok_release_id'', ''public_endpoint'', ''private_ports'', ''limits'']"

definition selected_endpoint_fields :: "string list" where
  "selected_endpoint_fields = [''home_endpoints'', ''ios_endpoints'']"

definition normalized_route_fields :: "string list" where
  "normalized_route_fields = [
     ''route_mode'', ''forced_host'', ''forced_ios_key'', ''allow_direct'', ''ladder'',
     ''routing_config_digest'']"

text \<open>The assertion the module makes when it is loaded, for any partition of any fields.\<close>

definition assert_field_classification :: "string list list \<Rightarrow> string list \<Rightarrow> unit result" where
  "assert_field_classification partitions actual =
     (let classified = remdups (concat partitions);
          duplicates = filter (\<lambda>n. length (filter (\<lambda>p. n \<in> set p) partitions) \<noteq> 1) classified;
          missing = filter (\<lambda>n. n \<notin> set classified) actual;
          unexpected = filter (\<lambda>n. n \<notin> set actual) classified
      in raise_if (duplicates \<noteq> [] \<or> missing \<noteq> [] \<or> unexpected \<noteq> []) RuntimeErr
           ''incomplete RouteContract rung-qualification field classification'')"

section \<open>Data\<close>

record rung_qualification =
  rq_schema_version :: int
  rq_route_contract_schema_version :: int
  rq_protocol_version :: int
  rq_release_id :: string
  rq_model_id :: string
  rq_rung :: string
  rq_home :: "home_endpoint option"
  rq_ios :: "ios_endpoint option"
  rq_probe_policy_version :: string
  rq_timeout_policy :: timeout_policy
  rq_stability_policy :: stability_policy
  rq_vpn_policy :: vpn_policy
  rq_helper_release_ids :: "(string \<times> string) list"
  rq_grok_release_id :: string
  rq_public_endpoint :: endpoint
  rq_private_ports :: "int list"
  rq_limits :: resource_limits

definition check_versions :: "rung_qualification \<Rightarrow> unit result" where
  "check_versions q = seqE [
     fail_if (rq_schema_version q \<noteq> RUNG_QUALIFICATION_SCHEMA_VERSION) ''schema_version''
       ''unsupported value'',
     fail_if (rq_route_contract_schema_version q \<noteq> CONTRACT_SCHEMA_VERSION)
       ''route_contract_schema_version'' ''unsupported value'',
     fail_if (rq_protocol_version q \<noteq> PROTOCOL_VERSION) ''protocol_version'' ''unsupported value'',
     voidE (require_text (JStr (rq_release_id q)) ''release_id'' 1 128 TOKEN_RE),
     voidE (require_text (JStr (rq_model_id q)) ''model_id'' 1 128 TOKEN_RE),
     voidE (require_text (JStr (rq_rung q)) ''rung'' 1 128 ANY_RE)]"

definition check_selected :: "rung_qualification \<Rightarrow> unit result" where
  "check_selected q =
     (let rung = rq_rung q in
      if starts_with rung ''home:'' then
        bindE (require_text (JStr (removeprefix rung ''home:'')) ''rung.home_label'' 1 120 HOME_LABEL_RE)
          (\<lambda>label. case rq_home q of
             None \<Rightarrow> contract_fail ''selected_home_endpoint'' ''a home rung requires one HomeEndpoint''
           | Some e \<Rightarrow> seqE [
               fail_if (he_label e \<noteq> label) ''selected_home_endpoint.label''
                 ''must match the selected home rung'',
               fail_if (rq_ios q \<noteq> None) ''selected_ios_endpoint'' ''must be null for a home rung''])
      else if starts_with rung ''ios:'' then
        bindE (require_text (JStr (removeprefix rung ''ios:'')) ''rung.ios_key'' 1 64 IOS_KEY_RE)
          (\<lambda>key. case rq_ios q of
             None \<Rightarrow> contract_fail ''selected_ios_endpoint'' ''an iOS rung requires one IosEndpoint''
           | Some e \<Rightarrow> seqE [
               fail_if (ie_key e \<noteq> key) ''selected_ios_endpoint.key''
                 ''must match the selected iOS rung'',
               fail_if (rq_home q \<noteq> None) ''selected_home_endpoint'' ''must be null for an iOS rung''])
      else if rung \<in> {''direct'', ''vpn''} then seqE [
        fail_if (rq_home q \<noteq> None) ''selected_home_endpoint'' ''must be null for a non-endpoint rung'',
        fail_if (rq_ios q \<noteq> None) ''selected_ios_endpoint'' ''must be null for a non-endpoint rung'']
      else contract_fail ''rung'' ''unsupported rung'')"

definition rung_qualification_post_init :: "rung_qualification \<Rightarrow> json list \<Rightarrow> unit result" where
  "rung_qualification_post_init q ports = seqE [
     check_versions q, check_selected q,
     voidE (require_text (JStr (rq_probe_policy_version q)) ''probe_policy_version'' 1 128 TOKEN_RE),
     check_helpers (rq_helper_release_ids q),
     voidE (require_text (JStr (rq_grok_release_id q)) ''grok_release_id'' 1 128 TOKEN_RE),
     check_ports (rq_public_endpoint q) ports]"

definition rung_qualification_new :: "rung_qualification \<Rightarrow> json list \<Rightarrow> rung_qualification result" where
  "rung_qualification_new q ports =
     thenE (rung_qualification_post_init q ports) (Inr (q\<lparr>rq_private_ports := map json_int ports\<rparr>))"

section \<open>The JSON form\<close>

definition rung_qualification_to_dict :: "rung_qualification \<Rightarrow> json" where
  "rung_qualification_to_dict q = JObj [
     (''grok_release_id'', JStr (rq_grok_release_id q)),
     (''helper_release_ids'', JObj (map (map_prod id JStr) (rq_helper_release_ids q))),
     (''limits'', resource_limits_to_dict (rq_limits q)),
     (''model_id'', JStr (rq_model_id q)),
     (''private_ports'', JArr (map JInt (rq_private_ports q))),
     (''probe_policy_version'', JStr (rq_probe_policy_version q)),
     (''protocol_version'', JInt (rq_protocol_version q)),
     (''public_endpoint'', endpoint_to_dict (rq_public_endpoint q)),
     (''release_id'', JStr (rq_release_id q)),
     (''route_contract_schema_version'', JInt (rq_route_contract_schema_version q)),
     (''rung'', JStr (rq_rung q)),
     (''schema_version'', JInt (rq_schema_version q)),
     (''selected_home_endpoint'', opt_dump home_endpoint_to_dict (rq_home q)),
     (''selected_ios_endpoint'', opt_dump ios_endpoint_to_dict (rq_ios q)),
     (''stability_policy'', stability_policy_to_dict (rq_stability_policy q)),
     (''timeout_policy'', timeout_policy_to_dict (rq_timeout_policy q)),
     (''vpn_policy'', vpn_policy_to_dict (rq_vpn_policy q))]"

definition rung_qualification_fields :: "string list" where
  "rung_qualification_fields = [
     ''schema_version'', ''route_contract_schema_version'', ''protocol_version'', ''release_id'',
     ''model_id'', ''rung'', ''selected_home_endpoint'', ''selected_ios_endpoint'',
     ''probe_policy_version'', ''timeout_policy'', ''stability_policy'', ''vpn_policy'',
     ''helper_release_ids'', ''grok_release_id'', ''public_endpoint'', ''private_ports'', ''limits'']"

definition rung_qualification_from_dict :: "json \<Rightarrow> string \<Rightarrow> rung_qualification result" where
  "rung_qualification_from_dict v path =
     bindE (require_mapping v path) (\<lambda>kvs.
     thenE (require_exact_keys kvs rung_qualification_fields path)
    (bindE (field kvs ''private_ports''
       (\<lambda>x. require_list x (path @ ''.private_ports'') ''expected an array'')) (\<lambda>ports.
     bindE (field kvs ''helper_release_ids''
       (\<lambda>x. require_mapping x (path @ ''.helper_release_ids''))) (\<lambda>helpers.
     bindE (mapE (helper_pair path) helpers) (\<lambda>pairs.
     bindE (field kvs ''schema_version''
       (\<lambda>x. require_int x (path @ ''.schema_version'') 1 (2 ^ 31 - 1))) (\<lambda>schema.
     bindE (field kvs ''route_contract_schema_version''
       (\<lambda>x. require_int x (path @ ''.route_contract_schema_version'') 1 (2 ^ 31 - 1))) (\<lambda>route_schema.
     bindE (field kvs ''protocol_version''
       (\<lambda>x. require_int x (path @ ''.protocol_version'') 1 (2 ^ 31 - 1))) (\<lambda>protocol.
     bindE (field kvs ''release_id'' (\<lambda>x. require_text x (path @ ''.release_id'') 1 128 TOKEN_RE)) (\<lambda>release.
     bindE (field kvs ''model_id'' (\<lambda>x. require_text x (path @ ''.model_id'') 1 128 TOKEN_RE)) (\<lambda>model.
     bindE (field kvs ''rung'' (\<lambda>x. require_text x (path @ ''.rung'') 1 128 ANY_RE)) (\<lambda>rung.
     bindE (field kvs ''selected_home_endpoint''
       (\<lambda>x. opt_load (\<lambda>y. home_endpoint_from_dict y (path @ ''.selected_home_endpoint'')) x)) (\<lambda>home.
     bindE (field kvs ''selected_ios_endpoint''
       (\<lambda>x. opt_load (\<lambda>y. ios_endpoint_from_dict y (path @ ''.selected_ios_endpoint'')) x)) (\<lambda>ios.
     bindE (field kvs ''probe_policy_version''
       (\<lambda>x. require_text x (path @ ''.probe_policy_version'') 1 128 TOKEN_RE)) (\<lambda>probe.
     bindE (field kvs ''timeout_policy''
       (\<lambda>x. timeout_policy_from_dict x (path @ ''.timeout_policy''))) (\<lambda>timeout.
     bindE (field kvs ''stability_policy''
       (\<lambda>x. stability_policy_from_dict x (path @ ''.stability_policy''))) (\<lambda>stability.
     bindE (field kvs ''vpn_policy'' (\<lambda>x. vpn_policy_from_dict x (path @ ''.vpn_policy''))) (\<lambda>vpn.
     bindE (field kvs ''grok_release_id''
       (\<lambda>x. require_text x (path @ ''.grok_release_id'') 1 128 TOKEN_RE)) (\<lambda>grok.
     bindE (field kvs ''public_endpoint''
       (\<lambda>x. endpoint_from_dict x (path @ ''.public_endpoint''))) (\<lambda>public.
     bindE (field kvs ''limits'' (\<lambda>x. resource_limits_from_dict x (path @ ''.limits''))) (\<lambda>limits.
       rung_qualification_new
         \<lparr>rq_schema_version = schema, rq_route_contract_schema_version = route_schema,
          rq_protocol_version = protocol, rq_release_id = release, rq_model_id = model, rq_rung = rung,
          rq_home = home, rq_ios = ios, rq_probe_policy_version = probe, rq_timeout_policy = timeout,
          rq_stability_policy = stability, rq_vpn_policy = vpn, rq_helper_release_ids = sort pairs,
          rq_grok_release_id = grok, rq_public_endpoint = public, rq_private_ports = [],
          rq_limits = limits\<rparr>
         ports))))))))))))))))))))"

definition rung_qualification_digest :: "(string \<Rightarrow> string) \<Rightarrow> rung_qualification \<Rightarrow> string" where
  "rung_qualification_digest sha q = sha (canonical_json_bytes (rung_qualification_to_dict q))"

section \<open>The original contract and the projection\<close>

definition original_ladder :: "route_contract \<Rightarrow> string list result" where
  "original_ladder c =
     (case rc_route_mode c of
        DIRECT \<Rightarrow> Inr [''direct'']
      | HOME \<Rightarrow> (case rc_forced_host c of
          None \<Rightarrow> raise AssertionError [] | Some h \<Rightarrow> Inr [''home:'' @ h])
      | IOS \<Rightarrow> (case rc_forced_ios_key c of
          Some k \<Rightarrow> Inr [''ios:'' @ k] | None \<Rightarrow> Inr (map (\<lambda>k. ''ios:'' @ k) (ios_keys c)))
      | VPN \<Rightarrow> Inr [''vpn'']
      | AUTO \<Rightarrow> Inr (map (\<lambda>l. ''home:'' @ l) (labels c) @ map (\<lambda>k. ''ios:'' @ k) (ios_keys c)
          @ [''vpn''] @ (if rc_allow_direct c then [''direct''] else [])))"

definition reconstruct_original_contract :: "route_contract \<Rightarrow> route_contract result" where
  "reconstruct_original_contract c =
     bindE (original_ladder c) (\<lambda>original.
     bindE (mapE (\<lambda>rung. case index_of rung original of
         None \<Rightarrow> contract_fail ''ladder'' ''rung is not authorized by frozen route inputs''
       | Some i \<Rightarrow> Inr i) (rc_ladder c)) (\<lambda>positions.
     thenE (fail_if (positions \<noteq> sort positions) ''ladder''
         ''filtered rungs do not preserve original route order'')
       (route_contract_new c (map JStr original) (map JInt (rc_private_ports c)))))"

definition selected_endpoints ::
  "route_contract \<Rightarrow> string \<Rightarrow> (home_endpoint option \<times> ios_endpoint option) result" where
  "selected_endpoints original rung =
     (if starts_with rung ''home:'' then
        bindE (find_home_endpoint original (removeprefix rung ''home:'')) (\<lambda>e.
          if e = None then contract_fail ''rung'' ''selected home endpoint is not frozen''
          else Inr (e, None))
      else if starts_with rung ''ios:'' then
        bindE (find_ios_endpoint original (removeprefix rung ''ios:'')) (\<lambda>e.
          if e = None then contract_fail ''rung'' ''selected iOS endpoint is not frozen''
          else Inr (None, e))
      else Inr (None, None))"

definition from_route_contract :: "route_contract \<Rightarrow> string \<Rightarrow> rung_qualification result" where
  "from_route_contract c rung =
     thenE (voidE (require_text (JStr rung) ''rung'' 1 128 ANY_RE))
    (bindE (reconstruct_original_contract c) (\<lambda>original.
     thenE (fail_if (rung \<notin> set (rc_ladder original)) ''rung'' ''is not an authorized rung'')
    (bindE (selected_endpoints original rung) (\<lambda>(home, ios).
       rung_qualification_new
         \<lparr>rq_schema_version = RUNG_QUALIFICATION_SCHEMA_VERSION,
          rq_route_contract_schema_version = rc_schema_version original,
          rq_protocol_version = rc_protocol_version original,
          rq_release_id = rc_release_id original, rq_model_id = rc_model_id original, rq_rung = rung,
          rq_home = home, rq_ios = ios, rq_probe_policy_version = rc_probe_policy_version original,
          rq_timeout_policy = rc_timeout_policy original,
          rq_stability_policy = rc_stability_policy original, rq_vpn_policy = rc_vpn_policy original,
          rq_helper_release_ids = rc_helper_release_ids original,
          rq_grok_release_id = rc_grok_release_id original,
          rq_public_endpoint = rc_public_endpoint original, rq_private_ports = [],
          rq_limits = rc_limits original\<rparr>
         (map JInt (rc_private_ports original))))))"

text \<open>Only \<open>ContractValidationError\<close> is caught; \<open>None\<close> of the model is never produced here.\<close>

definition qualification_route_profile_matches ::
  "route_contract \<Rightarrow> string \<Rightarrow> string \<Rightarrow> bool result" where
  "qualification_route_profile_matches c profile rung =
     (case reconstruct_original_contract c of
        Inl e \<Rightarrow> (if exc_class e = ContractValidationError then Inr False else Inl e)
      | Inr original \<Rightarrow> Inr (
          if rung \<notin> set (rc_ladder original) then False
          else (case rc_route_mode original of
            DIRECT \<Rightarrow> profile = ''direct'' \<and> rung = ''direct''
          | HOME \<Rightarrow> (let expected = ''home:'' @ (case rc_forced_host original of None \<Rightarrow> ''None'' | Some h \<Rightarrow> h)
              in profile = expected \<and> rung = expected)
          | IOS \<Rightarrow> (case rc_forced_ios_key original of
              Some k \<Rightarrow> profile = ''ios:'' @ k \<and> rung = ''ios:'' @ k
            | None \<Rightarrow> profile = ''iphone'' \<and> starts_with rung ''ios:'')
          | VPN \<Rightarrow> profile = ''vpn'' \<and> rung = ''vpn''
          | AUTO \<Rightarrow> profile = (if rc_allow_direct original then ''auto'' else ''auto-no-direct''))))"

section \<open>What the constructor accepts\<close>

definition selected_ok :: "rung_qualification \<Rightarrow> bool" where
  "selected_ok q \<longleftrightarrow>
     (rq_rung q \<in> {''direct'', ''vpn''} \<and> rq_home q = None \<and> rq_ios q = None) \<or>
     (\<exists>e. rq_home q = Some e \<and> rq_ios q = None \<and> rq_rung q = ''home:'' @ he_label e \<and>
        text_ok 1 120 HOME_LABEL_RE (he_label e)) \<or>
     (\<exists>e. rq_ios q = Some e \<and> rq_home q = None \<and> rq_rung q = ''ios:'' @ ie_key e \<and>
        text_ok 1 64 IOS_KEY_RE (ie_key e))"

definition rung_qualification_wf :: "rung_qualification \<Rightarrow> bool" where
  "rung_qualification_wf q \<longleftrightarrow>
     rq_schema_version q = 1 \<and> rq_route_contract_schema_version q = 2 \<and> rq_protocol_version q = 2 \<and>
     text_ok 1 128 TOKEN_RE (rq_release_id q) \<and> text_ok 1 128 TOKEN_RE (rq_model_id q) \<and>
     selected_ok q \<and> text_ok 1 128 TOKEN_RE (rq_probe_policy_version q) \<and>
     helpers_ok (rq_helper_release_ids q) \<and> text_ok 1 128 TOKEN_RE (rq_grok_release_id q) \<and>
     ports_ok (rq_public_endpoint q) (rq_private_ports q)"

definition rung_qualification_ok :: "rung_qualification \<Rightarrow> bool" where
  "rung_qualification_ok q \<longleftrightarrow> rung_qualification_wf q \<and>
     (\<forall>e \<in> set_option (rq_home q). home_endpoint_ok e) \<and>
     (\<forall>e \<in> set_option (rq_ios q). ios_endpoint_ok e) \<and>
     timeout_policy_ok (rq_timeout_policy q) \<and> stability_policy_ok (rq_stability_policy q) \<and>
     vpn_policy_ok (rq_vpn_policy q) \<and> endpoint_ok (rq_public_endpoint q) \<and>
     resource_limits_ok (rq_limits q)"

text \<open>A string is in at most one family of rungs.\<close>

lemma rung_cases [case_names home ios other]:
  assumes "\<And>l. r = ''home:'' @ l \<Longrightarrow> P" and "\<And>k. r = ''ios:'' @ k \<Longrightarrow> P"
    and "\<not> starts_with r ''home:'' \<Longrightarrow> \<not> starts_with r ''ios:'' \<Longrightarrow> P"
  shows P
  using assms starts_with_removeprefix by metis

lemma home_not_ios [simp]: "\<not> starts_with (''home:'' @ l) ''ios:''" "\<not> starts_with (''ios:'' @ k) ''home:''"
  "\<not> starts_with ''vpn'' ''home:''" "\<not> starts_with ''vpn'' ''ios:''"
  "\<not> starts_with ''direct'' ''home:''" "\<not> starts_with ''direct'' ''ios:''"
  by (auto simp: starts_with_def)

lemma selected_ok_text: "selected_ok q \<Longrightarrow> text_ok 1 128 ANY_RE (rq_rung q)"
  by (auto simp: selected_ok_def intro!: text_ok_append) (auto simp: text_ok_def ANY_RE_def is_control_def)

lemma check_selected_Inr: "check_selected q = Inr u \<longleftrightarrow> selected_ok q"
proof (cases rule: rung_cases [of "rq_rung q"])
  case (home l)
  then show ?thesis
    by (auto simp: check_selected_def Let_def selected_ok_def valid errors removeprefix_def split: option.split)
next
  case (ios k)
  then show ?thesis
    by (auto simp: check_selected_def Let_def selected_ok_def valid errors removeprefix_def split: option.split)
next
  case other
  then show ?thesis
    by (auto simp: check_selected_def Let_def selected_ok_def errors)
qed

lemma check_versions_Inr:
  "check_versions q = Inr u \<longleftrightarrow> rq_schema_version q = 1 \<and> rq_route_contract_schema_version q = 2 \<and>
     rq_protocol_version q = 2 \<and> text_ok 1 128 TOKEN_RE (rq_release_id q) \<and>
     text_ok 1 128 TOKEN_RE (rq_model_id q) \<and> text_ok 1 128 ANY_RE (rq_rung q)"
  by (auto simp: check_versions_def RUNG_QUALIFICATION_SCHEMA_VERSION_def CONTRACT_SCHEMA_VERSION_def
      PROTOCOL_VERSION_def valid errors)

lemma rung_qualification_new_Inr [valid]:
  "rung_qualification_new q ports = Inr q' \<longleftrightarrow>
     rung_qualification_wf q' \<and> ports = map JInt (rq_private_ports q') \<and>
     q' = q\<lparr>rq_private_ports := rq_private_ports q'\<rparr>"
proof -
  have "rung_qualification_post_init q ports = Inr () \<longleftrightarrow>
      (\<exists>ps. ports = map JInt ps \<and> rung_qualification_wf (q\<lparr>rq_private_ports := ps\<rparr>))"
    using selected_ok_text [of q]
    by (auto simp: rung_qualification_post_init_def seqE_Inr_iff voidE_Inr_iff check_versions_Inr
        check_selected_Inr check_helpers_Inr check_ports_Inr require_text_Inr rung_qualification_wf_def
        selected_ok_def)
  then show ?thesis
    by (auto simp: rung_qualification_new_def thenE_Inr_iff)
qed

section \<open>The record and its JSON form\<close>

lemma rung_qualification_dump_wf: "rung_qualification_ok q \<Longrightarrow> json_wf (rung_qualification_to_dict q)"
  unfolding rung_qualification_to_dict_def helpers_json_def [symmetric]
  by (simp add: json_wf.simps(6) json_wf_helpers rung_qualification_ok_def
      rung_qualification_wf_def endpoint.dump_wf home_endpoint.opt_dump_wf ios_endpoint.opt_dump_wf
      timeout_policy.dump_wf stability_policy.dump_wf vpn_policy.dump_wf resource_limits.dump_wf
      json_wf_JArr del: json_wf.simps(5))

lemma rung_qualification_from_dict_Inr:
  "rung_qualification_from_dict (JObj kvs) p = Inr q \<longleftrightarrow>
     fst ` set kvs = set rung_qualification_fields \<and>
     field kvs ''private_ports'' (\<lambda>x. require_list x (p @ ''.private_ports'') ''expected an array'') =
       Inr (map JInt (rq_private_ports q)) \<and>
     reads_helpers kvs p (rq_helper_release_ids q) \<and>
     field kvs ''schema_version''
       (\<lambda>x. require_int x (p @ ''.schema_version'') 1 (2 ^ 31 - 1)) = Inr (rq_schema_version q) \<and>
     field kvs ''route_contract_schema_version''
       (\<lambda>x. require_int x (p @ ''.route_contract_schema_version'') 1 (2 ^ 31 - 1)) =
       Inr (rq_route_contract_schema_version q) \<and>
     field kvs ''protocol_version''
       (\<lambda>x. require_int x (p @ ''.protocol_version'') 1 (2 ^ 31 - 1)) = Inr (rq_protocol_version q) \<and>
     field kvs ''release_id'' (\<lambda>x. require_text x (p @ ''.release_id'') 1 128 TOKEN_RE) = Inr (rq_release_id q) \<and>
     field kvs ''model_id'' (\<lambda>x. require_text x (p @ ''.model_id'') 1 128 TOKEN_RE) = Inr (rq_model_id q) \<and>
     field kvs ''rung'' (\<lambda>x. require_text x (p @ ''.rung'') 1 128 ANY_RE) = Inr (rq_rung q) \<and>
     field kvs ''selected_home_endpoint''
       (\<lambda>x. opt_load (\<lambda>y. home_endpoint_from_dict y (p @ ''.selected_home_endpoint'')) x) = Inr (rq_home q) \<and>
     field kvs ''selected_ios_endpoint''
       (\<lambda>x. opt_load (\<lambda>y. ios_endpoint_from_dict y (p @ ''.selected_ios_endpoint'')) x) = Inr (rq_ios q) \<and>
     field kvs ''probe_policy_version''
       (\<lambda>x. require_text x (p @ ''.probe_policy_version'') 1 128 TOKEN_RE) = Inr (rq_probe_policy_version q) \<and>
     field kvs ''timeout_policy''
       (\<lambda>x. timeout_policy_from_dict x (p @ ''.timeout_policy'')) = Inr (rq_timeout_policy q) \<and>
     field kvs ''stability_policy''
       (\<lambda>x. stability_policy_from_dict x (p @ ''.stability_policy'')) = Inr (rq_stability_policy q) \<and>
     field kvs ''vpn_policy'' (\<lambda>x. vpn_policy_from_dict x (p @ ''.vpn_policy'')) = Inr (rq_vpn_policy q) \<and>
     field kvs ''grok_release_id''
       (\<lambda>x. require_text x (p @ ''.grok_release_id'') 1 128 TOKEN_RE) = Inr (rq_grok_release_id q) \<and>
     field kvs ''public_endpoint''
       (\<lambda>x. endpoint_from_dict x (p @ ''.public_endpoint'')) = Inr (rq_public_endpoint q) \<and>
     field kvs ''limits'' (\<lambda>x. resource_limits_from_dict x (p @ ''.limits'')) = Inr (rq_limits q) \<and>
     rung_qualification_wf q" (is "?L \<longleftrightarrow> ?R")
proof
  assume ?L
  then show ?R
    unfolding rung_qualification_from_dict_def thenE_Inr_iff bindE_Inr_iff
      require_mapping_Inr rung_qualification_new_Inr require_exact_keys_Inr
    by (elim exE conjE; cases q; simp add: reads_helpers_def; blast)
next
  assume ?R
  then show ?L
    by (cases q) (auto simp: rung_qualification_from_dict_def require_mapping_def
        reads_helpers_def require_exact_keys_Inr thenE_Inr_iff rung_qualification_new_Inr)
qed

lemma endpoint_dumps_not_null:
  "home_endpoint_to_dict h \<noteq> JNull" "ios_endpoint_to_dict i \<noteq> JNull"
  by (simp_all add: home_endpoint_to_dict_def ios_endpoint_to_dict_def)

lemma rung_qualification_wf_repeats:
  "rung_qualification_wf q \<Longrightarrow>
     rq_schema_version q \<le> 2 ^ 31 - 1 \<and> 1 \<le> rq_schema_version q \<and>
     rq_route_contract_schema_version q \<le> 2 ^ 31 - 1 \<and> 1 \<le> rq_route_contract_schema_version q \<and>
     rq_protocol_version q \<le> 2 ^ 31 - 1 \<and> 1 \<le> rq_protocol_version q \<and>
     text_ok 1 128 TOKEN_RE (rq_release_id q) \<and> text_ok 1 128 TOKEN_RE (rq_model_id q) \<and>
     text_ok 1 128 ANY_RE (rq_rung q) \<and> text_ok 1 128 TOKEN_RE (rq_probe_policy_version q) \<and>
     text_ok 1 128 TOKEN_RE (rq_grok_release_id q) \<and> helpers_ok (rq_helper_release_ids q)"
  using selected_ok_text [of q] by (auto simp: rung_qualification_wf_def)

lemma rung_qualification_load_JObj:
  assumes wf: "json_wf (JObj kvs)"
  shows "rung_qualification_from_dict (JObj kvs) p = Inr q \<longleftrightarrow>
    rung_qualification_ok q \<and> json_canon (JObj kvs) = json_canon (rung_qualification_to_dict q)"
proof (cases "rung_qualification_wf q")
  case True
  note repeats = rung_qualification_wf_repeats [OF True]
  have helpers: "reads_helpers kvs p (rq_helper_release_ids q) \<longleftrightarrow>
      (\<exists>a. map_of kvs ''helper_release_ids'' = Some a \<and>
        json_canon a = json_canon (helpers_json (rq_helper_release_ids q)))"
    using reads_helpers_iff [OF wf, of p "rq_helper_release_ids q"] repeats by simp
  note fields = endpoint.load_field [OF wf] timeout_policy.load_field [OF wf]
    stability_policy.load_field [OF wf] vpn_policy.load_field [OF wf] resource_limits.load_field [OF wf]
    home_endpoint.load_opt_field [OF wf endpoint_dumps_not_null(1)]
    ios_endpoint.load_opt_field [OF wf endpoint_dumps_not_null(2)]
  show ?thesis
    unfolding rung_qualification_from_dict_Inr helpers rung_qualification_to_dict_def
      helpers_json_def [symmetric] rung_qualification_ok_def
    using repeats
    by (simp add: canon_record_iff wf fields field_Inr valid
        rung_qualification_fields_def insert_commute json_canon_atom_lists cong: conj_cong del: json_canon.simps(5);
        (simp only: conj_ac conj_absorb conj_left_absorb)?)
qed (simp add: rung_qualification_from_dict_Inr rung_qualification_ok_def)

lemma rung_qualification_load_iff:
  assumes "json_wf v"
  shows "rung_qualification_from_dict v p = Inr q \<longleftrightarrow>
    rung_qualification_ok q \<and> json_canon v = json_canon (rung_qualification_to_dict q)"
proof (cases "\<exists>kvs. v = JObj kvs")
  case True
  with assms show ?thesis using rung_qualification_load_JObj by blast
next
  case False
  then have "rung_qualification_from_dict v p \<noteq> Inr q"
    by (simp add: rung_qualification_from_dict_def bindE_Inr_iff require_mapping_Inr)
  moreover from False have "json_canon v \<noteq> json_canon (rung_qualification_to_dict q)"
    by (cases v) (auto simp: rung_qualification_to_dict_def)
  ultimately show ?thesis by blast
qed

interpretation rung_qualification: codec rung_qualification_ok rung_qualification_to_dict
  rung_qualification_from_dict
  by unfold_locales (simp_all add: rung_qualification_load_iff rung_qualification_dump_wf)

section \<open>The original ladder\<close>

lemma rung_names_append [simp]: "rung_names p (xs @ ys) = rung_names p xs @ rung_names p ys"
  by (simp add: rung_names_def)

lemma rung_names_map [simp]: "rung_names p (map (\<lambda>x. p @ x) xs) = xs"
  by (induction xs) (simp_all add: rung_names_def)

lemma rung_names_none: "(\<And>r. r \<in> set rs \<Longrightarrow> \<not> starts_with r p) \<Longrightarrow> rung_names p rs = []"
  by (auto simp: rung_names_def filter_empty_conv)

lemma rung_names_other [simp]:
  "rung_names ''ios:'' (map (\<lambda>l. CHR ''h'' # CHR ''o'' # CHR ''m'' # CHR ''e'' # CHR '':'' # l) xs) = []"
  "rung_names ''home:'' (map (\<lambda>k. CHR ''i'' # CHR ''o'' # CHR ''s'' # CHR '':'' # k) ys) = []"
  using home_not_ios by (auto intro!: rung_names_none)

text \<open>Every original ladder lists homes, then devices, then the rungs without an endpoint.\<close>

definition families :: "string list \<Rightarrow> string list \<Rightarrow> string list \<Rightarrow> string list" where
  "families hs ks t = map (\<lambda>l. ''home:'' @ l) hs @ map (\<lambda>k. ''ios:'' @ k) ks @ t"

lemma rung_names_families:
  assumes "set t \<subseteq> {''direct'', ''vpn''}"
  shows "rung_names ''home:'' (families hs ks t) = hs" "rung_names ''ios:'' (families hs ks t) = ks"
proof -
  have "rung_names ''home:'' t = []" "rung_names ''ios:'' t = []"
    using assms by (auto intro!: rung_names_none)
  moreover have "rung_names ''home:'' (map (\<lambda>l. ''home:'' @ l) hs) = hs"
    "rung_names ''ios:'' (map (\<lambda>k. ''ios:'' @ k) ks) = ks"
    by (rule rung_names_map)+
  ultimately show "rung_names ''home:'' (families hs ks t) = hs" "rung_names ''ios:'' (families hs ks t) = ks"
    by (simp_all add: families_def)
qed

lemma distinct_families:
  assumes "set t \<subseteq> {''direct'', ''vpn''}"
  shows "distinct (families hs ks t) \<longleftrightarrow> distinct hs \<and> distinct ks \<and> distinct t"
  using assms by (auto simp: families_def distinct_map inj_on_def)

lemma original_ladder_families:
  "original_ladder c = Inr l \<Longrightarrow> mode_ok c \<Longrightarrow> \<exists>hs ks t. l = families hs ks t \<and>
     hs \<in> {[], labels c} \<union> (\<lambda>h. [h]) ` set (labels c) \<and> ks \<in> {[], ios_keys c} \<and>
     (rc_route_mode c = AUTO \<longrightarrow> hs = labels c) \<and> set t \<subseteq> {''direct'', ''vpn''} \<and> distinct t"
proof -
  assume l: "original_ladder c = Inr l" and mode: "mode_ok c"
  show ?thesis
  proof (cases "rc_route_mode c")
    case AUTO
    with l show ?thesis
      by (intro exI [of _ "labels c"] exI [of _ "ios_keys c"]
          exI [of _ "[''vpn''] @ (if rc_allow_direct c then [''direct''] else [])"])
        (auto simp: original_ladder_def families_def)
  next
    case DIRECT
    with l show ?thesis
      by (intro exI [of _ "[]"] exI [of _ "[''direct'']"]) (auto simp: original_ladder_def families_def)
  next
    case HOME
    then obtain h where "rc_forced_host c = Some h" "h \<in> set (labels c)"
      using mode by (auto simp: mode_ok_def split: option.splits)
    with HOME l show ?thesis
      by (intro exI [of _ "[h]"] exI [of _ "[]"]) (auto simp: original_ladder_def families_def)
  next
    case IOS
    have "l = map (\<lambda>k. ''ios:'' @ k) (ios_keys c)"
      using IOS l mode by (cases "rc_forced_ios_key c") (auto simp: original_ladder_def mode_ok_def)
    with IOS show ?thesis
      by (intro exI [of _ "[]"] exI [of _ "ios_keys c"] exI [of _ "[]"]) (simp add: families_def)
  next
    case VPN
    with l show ?thesis
      by (intro exI [of _ "[]"] exI [of _ "[''vpn'']"]) (auto simp: original_ladder_def families_def)
  qed
qed

text \<open>What \<open>route_contract_wf\<close> requires of a ladder, the VPN deadline aside.\<close>

lemma original_mode_ok:
  assumes "mode_ok c" and "original_ladder c = Inr l"
  shows "mode_ok (c\<lparr>rc_ladder := l\<rparr>)"
  using assms by (cases "rc_route_mode c")
    (auto simp: mode_ok_def original_ladder_def split: option.splits)

lemma original_ladder_Nil:
  assumes "mode_ok c" and "original_ladder c = Inr l"
  shows "l \<noteq> []"
  using assms by (cases "rc_route_mode c")
    (auto simp: mode_ok_def original_ladder_def split: option.splits)

lemma original_ladder_ok:
  assumes ok: "route_contract_ok c" and l: "original_ladder c = Inr l"
  shows "ladder_ok (c\<lparr>rc_ladder := l\<rparr>)"
proof -
  have labels: "\<forall>l \<in> set (labels c). text_ok 1 120 HOME_LABEL_RE l"
    and keys: "\<forall>k \<in> set (ios_keys c). text_ok 1 64 IOS_KEY_RE k"
    and mode: "mode_ok c" and dist: "distinct (labels c)" "distinct (ios_keys c)"
    using ok by (auto simp: route_contract_ok_def route_contract_wf_def home_endpoint_ok_def ios_endpoint_ok_def)
  obtain hs ks t where fam: "l = families hs ks t"
    and hs: "hs \<in> {[], labels c} \<union> (\<lambda>h. [h]) ` set (labels c)" and ks: "ks \<in> {[], ios_keys c}"
    and auto: "rc_route_mode c = AUTO \<longrightarrow> hs = labels c"
    and t: "set t \<subseteq> {''direct'', ''vpn''}" "distinct t"
    using original_ladder_families [OF l mode] by (elim exE conjE) (rule that)
  have sub: "set hs \<subseteq> set (labels c)" "set ks \<subseteq> set (ios_keys c)" using hs ks by auto
  have frozen: "rung_frozen (c\<lparr>rc_ladder := l\<rparr>) r" if "r \<in> set l" for r
    using that sub labels keys t unfolding fam families_def rung_frozen_def by auto
  have "distinct hs" "distinct ks" using hs ks dist by auto
  then have "distinct l" unfolding fam using distinct_families [OF t(1)] t(2) by simp
  moreover have "subseq ks (ios_keys c)" using ks by auto
  ultimately show ?thesis
    using original_ladder_Nil [OF mode l] frozen auto
    by (simp add: ladder_ok_def fam rung_names_families [OF t(1)])
qed

lemma original_wf:
  assumes ok: "route_contract_ok c" and l: "original_ladder c = Inr l"
  shows "route_contract_wf (c\<lparr>rc_ladder := l\<rparr>) \<longleftrightarrow>
    (''vpn'' \<in> set l \<longrightarrow> required_transition_ms c \<le> tp_transition_ms (rc_timeout_policy c))"
proof -
  have "mode_ok c" using ok by (simp add: route_contract_ok_def route_contract_wf_def)
  with original_mode_ok [OF _ l] original_ladder_ok [OF ok l] show ?thesis
    using ok by (simp add: route_contract_ok_def route_contract_wf_def required_transition_ms_def)
qed

lemma original_ladder_total:
  assumes "route_contract_ok c"
  shows "\<exists>l. original_ladder c = Inr l"
  using assms by (cases "rc_route_mode c")
    (auto simp: original_ladder_def route_contract_ok_def route_contract_wf_def mode_ok_def split: option.splits)

lemma original_ladder_update [simp]: "original_ladder (c\<lparr>rc_ladder := l\<rparr>) = original_ladder c"
  by (cases "rc_route_mode c") (simp_all add: original_ladder_def split: option.split)

section \<open>Reconstruction\<close>

lemma ladder_positions_Inr:
  fixes frozen :: "string list"
  assumes "distinct frozen" and "distinct names"
  shows "(\<exists>ps. mapE (\<lambda>x. case index_of x frozen of None \<Rightarrow> contract_fail p m | Some i \<Rightarrow> Inr i) names = Inr ps \<and>
      \<not> ps \<noteq> sort ps) \<longleftrightarrow> subseq names frozen"
proof -
  have "(\<lambda>x i. (case index_of x frozen of None \<Rightarrow> contract_fail p m | Some i \<Rightarrow> Inr i) = Inr i) =
      (\<lambda>x i. index_of x frozen = Some i)"
    by (auto simp: fun_eq_iff split: option.split)
  then have "mapE (\<lambda>x. case index_of x frozen of None \<Rightarrow> contract_fail p m | Some i \<Rightarrow> Inr i) names = Inr ps \<longleftrightarrow>
      positions_in frozen names = Inr ps" for ps
    by (simp only: mapE_Inr_iff positions_in_Inr)
  then show ?thesis
    using check_order_Inr [OF assms, of "[]" "[]" "()"] by (simp add: check_order_def bindE_Inr_iff)
qed

lemma reconstruct_Inr:
  assumes ok: "route_contract_ok c"
  shows "reconstruct_original_contract c = Inr d \<longleftrightarrow>
    (\<exists>l. original_ladder c = Inr l \<and> d = c\<lparr>rc_ladder := l\<rparr> \<and> subseq (rc_ladder c) l \<and>
       (''vpn'' \<in> set l \<longrightarrow> required_transition_ms c \<le> tp_transition_ms (rc_timeout_policy c)))"
proof -
  obtain l where l: "original_ladder c = Inr l" using original_ladder_total [OF ok] by blast
  have dist: "distinct (rc_ladder c)" "distinct l"
    using ok original_ladder_ok [OF ok l] by (simp_all add: route_contract_ok_def route_contract_wf_def ladder_ok_def)
  have "reconstruct_original_contract c = Inr d \<longleftrightarrow>
      subseq (rc_ladder c) l \<and> route_contract_new c (map JStr l) (map JInt (rc_private_ports c)) = Inr d"
    using ladder_positions_Inr [OF dist(2,1)]
    by (auto simp: reconstruct_original_contract_def l bindE_Inr_iff thenE_Inr_iff)
  also have "\<dots> \<longleftrightarrow> subseq (rc_ladder c) l \<and> d = c\<lparr>rc_ladder := l\<rparr> \<and> route_contract_wf d"
    by (cases c; cases d) (auto simp: route_contract_new_Inr)
  finally show ?thesis using l original_wf [OF ok l] by auto
qed

lemma reconstruct_ok:
  assumes "route_contract_ok c" and "reconstruct_original_contract c = Inr d"
  shows "route_contract_ok d"
  using assms original_wf [OF assms(1)] by (auto simp: reconstruct_Inr route_contract_ok_def)

text \<open>Any non-empty selection of rungs, in order, is a valid contract with the same original.\<close>

lemma rung_names_subseq: "subseq xs ys \<Longrightarrow> subseq (rung_names p xs) (rung_names p ys)"
  unfolding rung_names_def by (intro subseq_map subseq_filter)

lemma subseq_one: "subseq l [x] \<Longrightarrow> l \<noteq> [] \<Longrightarrow> l = [x]"
  by (cases l) (auto split: if_splits)

lemma narrowed_ok:
  assumes ok: "route_contract_ok d" and sub: "subseq l (rc_ladder d)" and "l \<noteq> []"
  shows "route_contract_ok (d\<lparr>rc_ladder := l\<rparr>)"
proof -
  have set: "set l \<subseteq> set (rc_ladder d)" using sub by (auto dest: list_emb_set)
  have "ladder_ok d" "mode_ok d" using ok by (simp_all add: route_contract_ok_def route_contract_wf_def)
  have "ladder_ok (d\<lparr>rc_ladder := l\<rparr>)"
    using \<open>ladder_ok d\<close> assms(3) set sub
      subseq_order.trans [OF rung_names_subseq [OF sub]]
    by (auto simp: ladder_ok_def rung_frozen_def subseq_distinct)
  moreover have "mode_ok (d\<lparr>rc_ladder := l\<rparr>)"
    using \<open>mode_ok d\<close> assms(3) set sub
    by (cases "rc_forced_ios_key d") (auto simp: mode_ok_def dest: subseq_one split: option.splits)
  ultimately show ?thesis
    using ok set by (auto simp: route_contract_ok_def route_contract_wf_def required_transition_ms_def)
qed

section \<open>Projection\<close>

lemma find_home_Inr:
  assumes "distinct (labels c)"
  shows "find_home_endpoint c l = Inr (Some e) \<longleftrightarrow>
    e \<in> set (rc_home_endpoints c) \<and> he_label e = l \<and> text_ok 1 120 HOME_LABEL_RE l"
  using assms by (auto simp: find_home_endpoint_def bindE_Inr_iff require_text_Inr find_key_Some)

lemma find_ios_Inr:
  assumes "distinct (ios_keys c)"
  shows "find_ios_endpoint c k = Inr (Some e) \<longleftrightarrow>
    e \<in> set (rc_ios_endpoints c) \<and> ie_key e = k \<and> text_ok 1 64 IOS_KEY_RE k"
  using assms by (auto simp: find_ios_endpoint_def bindE_Inr_iff require_text_Inr find_key_Some)

text \<open>The endpoints that a rung names.\<close>

definition selects ::
  "route_contract \<Rightarrow> string \<Rightarrow> home_endpoint option \<Rightarrow> ios_endpoint option \<Rightarrow> bool" where
  "selects c r h i \<longleftrightarrow>
     (r \<in> {''direct'', ''vpn''} \<and> h = None \<and> i = None) \<or>
     (\<exists>e \<in> set (rc_home_endpoints c). h = Some e \<and> i = None \<and> r = ''home:'' @ he_label e) \<or>
     (\<exists>e \<in> set (rc_ios_endpoints c). h = None \<and> i = Some e \<and> r = ''ios:'' @ ie_key e)"

definition projection ::
  "route_contract \<Rightarrow> string \<Rightarrow> home_endpoint option \<Rightarrow> ios_endpoint option \<Rightarrow> rung_qualification" where
  "projection c r h i =
     \<lparr>rq_schema_version = 1, rq_route_contract_schema_version = rc_schema_version c,
      rq_protocol_version = rc_protocol_version c, rq_release_id = rc_release_id c,
      rq_model_id = rc_model_id c, rq_rung = r, rq_home = h, rq_ios = i,
      rq_probe_policy_version = rc_probe_policy_version c, rq_timeout_policy = rc_timeout_policy c,
      rq_stability_policy = rc_stability_policy c, rq_vpn_policy = rc_vpn_policy c,
      rq_helper_release_ids = rc_helper_release_ids c, rq_grok_release_id = rc_grok_release_id c,
      rq_public_endpoint = rc_public_endpoint c, rq_private_ports = rc_private_ports c,
      rq_limits = rc_limits c\<rparr>"

lemma selects_update [simp]: "selects (c\<lparr>rc_ladder := l\<rparr>) r h i = selects c r h i"
  by (simp add: selects_def)

lemma projection_update [simp]: "projection (c\<lparr>rc_ladder := l\<rparr>) r h i = projection c r h i"
  by (simp add: projection_def)

lemma selected_endpoints_Inr:
  assumes ok: "route_contract_ok c" and r: "r \<in> set (rc_ladder c)"
  shows "selected_endpoints c r = Inr (h, i) \<longleftrightarrow> selects c r h i"
proof -
  have dist: "distinct (labels c)" "distinct (ios_keys c)" and frozen: "rung_frozen c r"
    using ok r by (auto simp: route_contract_ok_def route_contract_wf_def ladder_ok_def)
  show ?thesis
  proof (cases rule: rung_cases [of r])
    case (home l)
    then have "text_ok 1 120 HOME_LABEL_RE l" using frozen by (simp add: rung_frozen_home [simplified])
    then show ?thesis
      using home find_home_Inr [OF dist(1)] home_not_ios(1) [of l]
      by (auto simp: selected_endpoints_def selects_def bindE_Inr_iff removeprefix_def)
  next
    case (ios k)
    then have "text_ok 1 64 IOS_KEY_RE k" using frozen by (simp add: rung_frozen_home [simplified])
    then show ?thesis
      using ios find_ios_Inr [OF dist(2)] home_not_ios(2) [of k]
      by (auto simp: selected_endpoints_def selects_def bindE_Inr_iff removeprefix_def)
  next
    case other
    then show ?thesis using frozen
      by (auto simp: selected_endpoints_def selects_def rung_frozen_def)
  qed
qed

lemma selects_total: "rung_frozen c r \<Longrightarrow> \<exists>h i. selects c r h i"
  by (auto simp: rung_frozen_def selects_def)

lemma projection_ok:
  assumes "route_contract_ok c" and "selects c r h i"
  shows "rung_qualification_ok (projection c r h i)"
proof -
  have "selected_ok (projection c r h i)"
    using assms by (auto simp: selected_ok_def projection_def selects_def route_contract_ok_def
        home_endpoint_ok_def ios_endpoint_ok_def)
  moreover have "\<forall>e \<in> set_option h. home_endpoint_ok e" "\<forall>e \<in> set_option i. ios_endpoint_ok e"
    using assms by (auto simp: selects_def route_contract_ok_def)
  ultimately show ?thesis
    using assms(1)
    by (simp add: rung_qualification_ok_def rung_qualification_wf_def projection_def
        route_contract_ok_def route_contract_wf_def)
qed

lemma from_route_contract_Inr:
  assumes ok: "route_contract_ok c" and d: "reconstruct_original_contract c = Inr d"
  shows "from_route_contract c r = Inr q \<longleftrightarrow>
    r \<in> set (rc_ladder d) \<and> (\<exists>h i. selects c r h i \<and> q = projection c r h i)"
proof -
  have dok: "route_contract_ok d" by (rule reconstruct_ok [OF ok d])
  obtain l where l: "d = c\<lparr>rc_ladder := l\<rparr>" using d by (auto simp: reconstruct_Inr [OF ok])
  have len: "text_ok 1 128 ANY_RE r" if "r \<in> set (rc_ladder d)"
  proof -
    have "rung_frozen d r"
      using that dok by (auto simp: route_contract_ok_def route_contract_wf_def ladder_ok_def)
    then obtain h i where "selects d r h i" using selects_total by blast
    from projection_ok [OF dok this] show ?thesis
      using selected_ok_text [of "projection d r h i"]
      by (simp add: rung_qualification_ok_def rung_qualification_wf_def) (simp add: projection_def)
  qed
  have "rung_qualification_new (projection d r h i\<lparr>rq_private_ports := []\<rparr>)
      (map JInt (rc_private_ports d)) = Inr q \<longleftrightarrow>
      rung_qualification_wf (projection d r h i) \<and> q = projection d r h i" for h i
    by (auto simp: rung_qualification_new_Inr projection_def)
  then have unfolded: "from_route_contract c r = Inr q \<longleftrightarrow> text_ok 1 128 ANY_RE r \<and> r \<in> set (rc_ladder d) \<and>
      (\<exists>h i. selected_endpoints d r = Inr (h, i) \<and>
        rung_qualification_wf (projection d r h i) \<and> q = projection d r h i)"
    by (simp add: from_route_contract_def d thenE_Inr_iff voidE_Inr_iff bindE_Inr_iff require_text_Inr
        projection_def RUNG_QUALIFICATION_SCHEMA_VERSION_def)
  show ?thesis
  proof (cases "r \<in> set (rc_ladder d)")
    case True
    have "selected_endpoints d r = Inr (h, i) \<and> rung_qualification_wf (projection d r h i) \<longleftrightarrow>
        selects c r h i" for h i
      using selected_endpoints_Inr [OF dok True] projection_ok [OF dok] l
      by (auto simp: rung_qualification_ok_def)
    with True len show ?thesis unfolding unfolded conj_assoc [symmetric] by (simp add: l)
  qed (simp add: unfolded)
qed

lemma from_route_contract_reconstructs:
  "from_route_contract c r = Inr q \<Longrightarrow> \<exists>d. reconstruct_original_contract c = Inr d"
  by (auto simp: from_route_contract_def thenE_Inr_iff bindE_Inr_iff)

lemma from_route_contract_projection:
  assumes "route_contract_ok c" and "from_route_contract c r = Inr q"
  shows "\<exists>h i. selects c r h i \<and> q = projection c r h i"
  using from_route_contract_reconstructs [OF assms(2)] from_route_contract_Inr [OF assms(1)] assms(2)
  by blast

text \<open>Two contracts agree on every field that qualification copies.\<close>

definition same_included :: "route_contract \<Rightarrow> route_contract \<Rightarrow> bool" where
  "same_included c c' \<longleftrightarrow>
     rc_release_id c = rc_release_id c' \<and> rc_model_id c = rc_model_id c' \<and>
     rc_probe_policy_version c = rc_probe_policy_version c' \<and>
     rc_timeout_policy c = rc_timeout_policy c' \<and> rc_stability_policy c = rc_stability_policy c' \<and>
     rc_vpn_policy c = rc_vpn_policy c' \<and> rc_helper_release_ids c = rc_helper_release_ids c' \<and>
     rc_grok_release_id c = rc_grok_release_id c' \<and> rc_public_endpoint c = rc_public_endpoint c' \<and>
     rc_private_ports c = rc_private_ports c' \<and> rc_limits c = rc_limits c'"

lemma projection_eq_iff:
  assumes "route_contract_ok c" and "route_contract_ok c'"
  shows "projection c r h i = projection c' r' h' i' \<longleftrightarrow>
    same_included c c' \<and> r = r' \<and> h = h' \<and> i = i'"
proof -
  have "rc_schema_version c = rc_schema_version c'" "rc_protocol_version c = rc_protocol_version c'"
    using assms by (simp_all add: route_contract_ok_def route_contract_wf_def)
  then show ?thesis by (auto simp: projection_def same_included_def)
qed

section \<open>Route profiles\<close>

lemma profile_matches_True:
  assumes ok: "route_contract_ok c"
  shows "qualification_route_profile_matches c p r = Inr True \<longleftrightarrow>
    (\<exists>d. reconstruct_original_contract c = Inr d \<and> r \<in> set (rc_ladder d) \<and>
       (case rc_route_mode c of
          DIRECT \<Rightarrow> p = ''direct''
        | HOME \<Rightarrow> p = ''home:'' @ the (rc_forced_host c)
        | IOS \<Rightarrow> p = (case rc_forced_ios_key c of None \<Rightarrow> ''iphone'' | Some k \<Rightarrow> ''ios:'' @ k)
        | VPN \<Rightarrow> p = ''vpn''
        | AUTO \<Rightarrow> p = (if rc_allow_direct c then ''auto'' else ''auto-no-direct'')))"
proof (cases "reconstruct_original_contract c")
  case (Inr d)
  then obtain l where l: "original_ladder c = Inr l" "d = c\<lparr>rc_ladder := l\<rparr>"
    by (auto simp: reconstruct_Inr [OF ok])
  have "mode_ok c" using ok by (simp add: route_contract_ok_def route_contract_wf_def)
  with l Inr show ?thesis
    by (cases "rc_route_mode c")
      (auto simp: qualification_route_profile_matches_def original_ladder_def mode_ok_def Let_def
        split: option.splits)
qed (simp add: qualification_route_profile_matches_def)

section \<open>Samples\<close>

text \<open>The sample contract narrowed to its phone, and a forced route to the same phone.\<close>

definition narrowed_contract :: route_contract where
  "narrowed_contract = sample_contract\<lparr>rc_ladder := [''ios:phone'']\<rparr>"

definition phone_contract :: route_contract where
  "phone_contract = sample_contract\<lparr>rc_route_mode := IOS, rc_forced_ios_key := Some ''phone'',
     rc_ladder := [''ios:phone'']\<rparr>"

lemma sample_reconstruct: "reconstruct_original_contract sample_contract = Inr sample_contract"
  by code_simp

lemma narrowed_contract_ok: "route_contract_ok narrowed_contract" by code_simp

lemma narrowed_reconstruct: "reconstruct_original_contract narrowed_contract = Inr sample_contract"
  by code_simp

lemma phone_contract_ok: "route_contract_ok phone_contract" by code_simp

lemma sample_from_route_contract:
  "\<exists>q. from_route_contract sample_contract ''ios:phone'' = Inr q \<and>
     from_route_contract phone_contract ''ios:phone'' = Inr q"
proof -
  have "is_ok (from_route_contract sample_contract ''ios:phone'')"
    "from_route_contract phone_contract ''ios:phone'' = from_route_contract sample_contract ''ios:phone''"
    by code_simp+
  then show ?thesis by (simp add: is_ok_iff)
qed

lemma sample_profile: "qualification_route_profile_matches sample_contract ''auto-no-direct'' ''vpn'' = Inr True"
  by code_simp

section \<open>Properties\<close>

text \<open>
  C17: \<open>RungQualificationContract.from_dict\<close> accepts a JSON record exactly when it is, up to the order
  of its keys, the \<open>to_dict\<close> form of a valid projection, and returns that projection.
\<close>

lemma qualification_from_dict_exact:
  assumes "json_wf v"
  shows "rung_qualification_from_dict v path = Inr q \<longleftrightarrow>
    rung_qualification_ok q \<and>
    canonical_json_bytes v = canonical_json_bytes (rung_qualification_to_dict q)"
  using canonical_json_bytes_inj_wf [OF assms] rung_qualification_dump_wf [of q]
  by (auto simp: rung_qualification_load_iff [OF assms])

lemma qualification_from_dict_exact_witness:
  "\<exists>q. from_route_contract sample_contract ''ios:phone'' = Inr q \<and>
     rung_qualification_from_dict (rung_qualification_to_dict q) ''q'' = Inr q"
proof -
  obtain q where q: "from_route_contract sample_contract ''ios:phone'' = Inr q"
    using sample_from_route_contract by blast
  then have "rung_qualification_ok q"
    using from_route_contract_projection [OF sample_contract_ok] projection_ok [OF sample_contract_ok] by blast
  with q show ?thesis
    using qualification_from_dict_exact [OF rung_qualification_dump_wf] by blast
qed

text \<open>
  C19: reconstruction puts back the whole ladder of the route mode over the frozen endpoints and
  changes nothing else. It succeeds exactly when the given ladder is a subsequence of that ladder
  (every rung authorised, in the original order) and, where the original contains the VPN rung, the
  transition deadline covers it.
\<close>

theorem reconstruct_exact:
  assumes "route_contract_ok c"
  shows "reconstruct_original_contract c = Inr d \<longleftrightarrow>
    (\<exists>l. original_ladder c = Inr l \<and> d = c\<lparr>rc_ladder := l\<rparr> \<and> subseq (rc_ladder c) l \<and>
       (''vpn'' \<in> set l \<longrightarrow> required_transition_ms c \<le> tp_transition_ms (rc_timeout_policy c)))"
  by (rule reconstruct_Inr [OF assms])

theorem reconstruct_exact_witness:
  "\<exists>l. original_ladder narrowed_contract = Inr l \<and> sample_contract = narrowed_contract\<lparr>rc_ladder := l\<rparr> \<and>
     subseq [''ios:phone''] l"
  using reconstruct_exact [OF narrowed_contract_ok] narrowed_reconstruct
  by (auto simp: narrowed_contract_def)

text \<open>
  C18: qualification may narrow the ladder of an original contract to any non-empty selection of its
  rungs in order: the narrowed contract is valid, and the original contract is recovered from it.
  Reconstruction is therefore idempotent.
\<close>

theorem narrowing_keeps_original:
  assumes "route_contract_ok c" and "reconstruct_original_contract c = Inr d"
    and "subseq l (rc_ladder d)" and "l \<noteq> []"
  shows "route_contract_ok (d\<lparr>rc_ladder := l\<rparr>) \<and>
    reconstruct_original_contract (d\<lparr>rc_ladder := l\<rparr>) = Inr d"
proof -
  have d: "route_contract_ok d" by (rule reconstruct_ok [OF assms(1,2)])
  have "route_contract_ok (d\<lparr>rc_ladder := l\<rparr>)" by (rule narrowed_ok [OF d assms(3,4)])
  moreover from assms(2,3) have "reconstruct_original_contract (d\<lparr>rc_ladder := l\<rparr>) = Inr d"
    by (auto simp: reconstruct_Inr [OF assms(1)] reconstruct_Inr [OF \<open>route_contract_ok (d\<lparr>rc_ladder := l\<rparr>)\<close>]
        required_transition_ms_def)
  ultimately show ?thesis by blast
qed

theorem narrowing_keeps_original_witness:
  "reconstruct_original_contract (sample_contract\<lparr>rc_ladder := [''home:desk'', ''vpn'']\<rparr>) = Inr sample_contract"
  using narrowing_keeps_original [OF narrowed_contract_ok narrowed_reconstruct, of "[''home:desk'', ''vpn'']"]
  by (simp add: sample_contract_def)

text \<open>
  C17: a projection is exactly its rung, the endpoint the rung names and the fields classified as
  included: projections of two valid contracts have the same canonical bytes, and so the same
  digest, exactly when these agree. Route mode, forced selections, ladder, direct permission and the
  routing configuration digest have no influence, so forced and automatic routes share evidence.
\<close>

theorem qualification_identity:
  assumes "route_contract_ok c" and "route_contract_ok c'"
    and "from_route_contract c r = Inr q" and "from_route_contract c' r' = Inr q'"
  shows "canonical_json_bytes (rung_qualification_to_dict q) =
      canonical_json_bytes (rung_qualification_to_dict q') \<longleftrightarrow>
    same_included c c' \<and> r = r' \<and> rq_home q = rq_home q' \<and> rq_ios q = rq_ios q'"
proof -
  obtain h i h' i' where q: "selects c r h i" "q = projection c r h i"
    and q': "selects c' r' h' i'" "q' = projection c' r' h' i'"
    using from_route_contract_projection assms by metis
  have "rung_qualification_ok q" "rung_qualification_ok q'"
    using q q' projection_ok assms(1,2) by blast+
  then have "canonical_json_bytes (rung_qualification_to_dict q) =
      canonical_json_bytes (rung_qualification_to_dict q') \<longleftrightarrow> q = q'"
    using rung_qualification.canonical_bytes_inj by blast
  then show ?thesis
    using q q' projection_eq_iff [OF assms(1,2)] by (simp add: projection_def)
qed

theorem qualification_identity_witness:
  "\<exists>q q'. from_route_contract sample_contract ''ios:phone'' = Inr q \<and>
     from_route_contract phone_contract ''ios:phone'' = Inr q' \<and>
     canonical_json_bytes (rung_qualification_to_dict q) = canonical_json_bytes (rung_qualification_to_dict q')"
proof -
  obtain q where q: "from_route_contract sample_contract ''ios:phone'' = Inr q"
    "from_route_contract phone_contract ''ios:phone'' = Inr q"
    using sample_from_route_contract by blast
  have "same_included sample_contract phone_contract" by (simp add: same_included_def phone_contract_def)
  with q show ?thesis
    using qualification_identity [OF sample_contract_ok phone_contract_ok] by blast
qed

text \<open>
  C20: a canary profile binds the route selection: contracts that match the same profile have the
  same route mode, the same forced host and forced device and, in automatic mode, the same
  permission for the direct rung; and the rung that matches is authorised by the original contract.
\<close>

theorem profile_binds_route:
  assumes "route_contract_ok c" and "route_contract_ok c'"
    and "qualification_route_profile_matches c p r = Inr True"
    and "qualification_route_profile_matches c' p r' = Inr True"
  shows "rc_route_mode c = rc_route_mode c' \<and> rc_forced_host c = rc_forced_host c' \<and>
    rc_forced_ios_key c = rc_forced_ios_key c' \<and>
    (rc_route_mode c = AUTO \<longrightarrow> rc_allow_direct c = rc_allow_direct c') \<and>
    (\<exists>d. reconstruct_original_contract c = Inr d \<and> r \<in> set (rc_ladder d))"
proof -
  have "mode_ok c" "mode_ok c'"
    using assms(1,2) by (simp_all add: route_contract_ok_def route_contract_wf_def)
  then show ?thesis
    using assms(3,4) unfolding profile_matches_True [OF assms(1)] profile_matches_True [OF assms(2)]
    by (cases "rc_route_mode c"; cases "rc_route_mode c'")
      (auto simp: mode_ok_def split: option.splits if_splits)
qed

theorem profile_binds_route_witness:
  "\<exists>d. reconstruct_original_contract sample_contract = Inr d \<and> ''vpn'' \<in> set (rc_ladder d)"
  using profile_binds_route [OF sample_contract_ok sample_contract_ok sample_profile sample_profile] by blast

end
