(* ===== verification/Interpolation.thy ===== *)
theory Interpolation
  imports Main
begin

text \<open>
  Polynomials over a field as coefficient lists: a bound on the number of roots, Lagrange
  interpolation, and the unique polynomial through given points. The secret sharing of
  \<open>bin/lib/shamir.py\<close> uses them over a field of 256 elements.
\<close>

section \<open>Evaluation and roots\<close>

fun peval :: "'a::comm_ring_1 list \<Rightarrow> 'a \<Rightarrow> 'a" where
  "peval [] x = 0"
| "peval (c # cs) x = c + x * peval cs x"

text \<open>The quotient of \<open>c # cs\<close> by \<open>x - a\<close>.\<close>

fun pdiv :: "'a::comm_ring_1 list \<Rightarrow> 'a \<Rightarrow> 'a list" where
  "pdiv [] a = []"
| "pdiv (d # ds) a = peval (d # ds) a # pdiv ds a"

lemma length_pdiv [simp]: "length (pdiv cs a) = length cs"
  by (induction cs) simp_all

lemma peval_pdiv: "peval (c # cs) x = peval (c # cs) a + (x - a) * peval (pdiv cs a) x"
proof (induction cs arbitrary: c)
  case (Cons d cs)
  have "peval (c # d # cs) x = c + x * peval (d # cs) x" by simp
  also have "\<dots> = c + x * (peval (d # cs) a + (x - a) * peval (pdiv cs a) x)"
    by (simp only: Cons.IH [of d])
  finally show ?case by (simp add: algebra_simps)
qed simp

lemma peval_zero: "\<forall>c \<in> set cs. c = 0 \<Longrightarrow> peval cs x = 0"
  by (induction cs) simp_all

lemma pdiv_zero: "\<forall>c \<in> set (pdiv cs a). c = 0 \<Longrightarrow> \<forall>c \<in> set cs. c = 0"
  by (induction cs) (auto simp: peval_zero)

lemma roots_zero:
  fixes cs :: "'a::field list"
  assumes "distinct xs" and "length cs \<le> length xs" and "\<forall>x \<in> set xs. peval cs x = 0"
  shows "\<forall>c \<in> set cs. c = 0"
  using assms
proof (induction xs arbitrary: cs)
  case (Cons a xs)
  show ?case
  proof (cases cs)
    case cs: (Cons c ds)
    have "peval (pdiv ds a) x = 0" if "x \<in> set xs" for x
    proof -
      have "peval (c # ds) x = 0" "peval (c # ds) a = 0" using Cons.prems(3) that cs by simp_all
      with peval_pdiv [of c ds x a] have "(x - a) * peval (pdiv ds a) x = 0"
        by (simp del: peval.simps)
      moreover have "x \<noteq> a" using Cons.prems that by auto
      ultimately show ?thesis by simp
    qed
    with Cons.prems have "\<forall>d \<in> set (pdiv ds a). d = 0"
      by (intro Cons.IH) (simp_all add: cs)
    then have "\<forall>d \<in> set ds. d = 0" by (rule pdiv_zero)
    then show ?thesis using Cons.prems cs by (auto simp: peval_zero)
  qed simp
qed simp

section \<open>Polynomial functions\<close>

text \<open>Functions given by \<open>n\<close> coefficients.\<close>

definition polyfn :: "nat \<Rightarrow> ('a::field \<Rightarrow> 'a) \<Rightarrow> bool" where
  "polyfn n f \<longleftrightarrow> (\<exists>cs. length cs = n \<and> (\<forall>x. f x = peval cs x))"

named_theorems poly_intros "closure of polynomial functions"

lemma peval_replicate [simp]: "peval (replicate n 0) x = 0"
  by (induction n) simp_all

lemma peval_append: "peval (cs @ ds) x = peval cs x + x ^ length cs * peval ds x"
  by (induction cs) (simp_all add: algebra_simps)

lemma polyfn_peval [poly_intros]: "length cs \<le> n \<Longrightarrow> polyfn n (peval cs)"
  unfolding polyfn_def
  by (intro exI [of _ "cs @ replicate (n - length cs) 0"]) (simp add: peval_append)

lemma polyfn_zero [poly_intros]: "polyfn n (\<lambda>x. 0)"
  unfolding polyfn_def by (intro exI [of _ "replicate n 0"]) simp

lemma peval_map2:
  "length cs = length ds \<Longrightarrow> peval (map2 (+) cs ds) x = peval cs x + peval ds x"
  by (induction cs ds rule: list_induct2) (simp_all add: algebra_simps)

lemma polyfn_add [poly_intros]: "polyfn n f \<Longrightarrow> polyfn n g \<Longrightarrow> polyfn n (\<lambda>x. f x + g x)"
  unfolding polyfn_def by (metis peval_map2 length_map length_zip min.idem)

lemma peval_scale: "peval (map ((*) a) cs) x = a * peval cs x"
  by (induction cs) (simp_all add: algebra_simps)

lemma polyfn_scale [poly_intros]: "polyfn n f \<Longrightarrow> polyfn n (\<lambda>x. a * f x)"
  unfolding polyfn_def by (metis peval_scale length_map)

lemma polyfn_diff [poly_intros]: "polyfn n f \<Longrightarrow> polyfn n g \<Longrightarrow> polyfn n (\<lambda>x. f x - g x)"
  using polyfn_add [of n f "\<lambda>x. - 1 * g x"] polyfn_scale [of n g "- 1"] by simp

lemma polyfn_sum [poly_intros]:
  "(\<And>i. i \<in> I \<Longrightarrow> polyfn n (f i)) \<Longrightarrow> polyfn n (\<lambda>x. \<Sum>i \<in> I. f i x)"
  by (induction I rule: infinite_finite_induct) (auto intro!: poly_intros)

lemma polyfn_linear: "polyfn n f \<Longrightarrow> polyfn (Suc n) (\<lambda>x. (x - a) / b * f x)"
proof -
  assume "polyfn n f"
  then obtain cs where cs: "length cs = n" "\<forall>x. f x = peval cs x" by (auto simp: polyfn_def)
  have "polyfn (Suc n) (\<lambda>x. 1 / b * (peval (0 # cs) x - a * peval cs x))"
    using cs(1) by (intro poly_intros) simp_all
  then show ?thesis using cs(2) by (simp add: field_simps)
qed

lemma polyfn_prod:
  "finite S \<Longrightarrow> polyfn (Suc (card S)) (\<lambda>x. \<Prod>m \<in> S. (x - m) / (j - m))"
proof (induction rule: finite_induct)
  case empty
  show ?case unfolding polyfn_def by (intro exI [of _ "[1]"]) simp
next
  case (insert m S)
  with polyfn_linear [OF insert.IH, of m "j - m"] show ?case by simp
qed

lemma polyfn_zero_at:
  assumes "polyfn n f" and "finite A" and "n \<le> card A" and "\<forall>a \<in> A. f a = 0"
  shows "f x = 0"
proof -
  obtain cs where cs: "length cs = n" "\<forall>x. f x = peval cs x" using assms(1) by (auto simp: polyfn_def)
  obtain xs where xs: "set xs = A" "distinct xs" using finite_distinct_list [OF assms(2)] by blast
  then have "\<forall>c \<in> set cs. c = 0"
    using roots_zero [of xs cs] assms(3,4) cs distinct_card [of xs] by simp
  then show ?thesis using cs(2) by (simp add: peval_zero)
qed

section \<open>Interpolation\<close>

definition basis :: "'a::field set \<Rightarrow> 'a \<Rightarrow> 'a \<Rightarrow> 'a" where
  "basis A j x = (\<Prod>m \<in> A - {j}. (x - m) / (j - m))"

lemma basis_at:
  assumes "finite A" and "a \<in> A" and "j \<in> A"
  shows "basis A j a = (if a = j then 1 else 0)"
  using assms by (auto simp: basis_def intro!: prod.neutral)

lemma polyfn_basis: "finite A \<Longrightarrow> j \<in> A \<Longrightarrow> polyfn (card A) (basis A j)"
  using polyfn_prod [of "A - {j}" j] card_Suc_Diff1 [of A j] by (simp add: basis_def [abs_def])

lemma sum_basis_at:
  assumes "finite A" and "a \<in> A"
  shows "(\<Sum>j \<in> A. f j * basis A j a) = f a"
proof -
  have "(\<Sum>j \<in> A. f j * basis A j a) = (\<Sum>j \<in> A. if a = j then f j else 0)"
    using assms by (intro sum.cong) (simp_all add: basis_at)
  then show ?thesis using assms by simp
qed

lemma lagrange:
  fixes A :: "'a::field set"
  assumes "finite A" and "length cs \<le> card A"
  shows "peval cs x = (\<Sum>j \<in> A. peval cs j * basis A j x)"
proof -
  have "polyfn (card A) (\<lambda>x. (\<Sum>j \<in> A. peval cs j * basis A j x) - peval cs x)"
    using assms by (intro poly_intros polyfn_basis)
  from polyfn_zero_at [OF this assms(1)] show ?thesis
    using assms(1) by (simp add: sum_basis_at)
qed

text \<open>Through given values at \<open>n\<close> points passes exactly one polynomial with \<open>n\<close> coefficients.\<close>

lemma interpolation_unique:
  fixes A :: "'a::field set"
  assumes "finite A"
  shows "\<exists>!cs. length cs = card A \<and> (\<forall>a \<in> A. peval cs a = f a)"
proof -
  have "polyfn (card A) (\<lambda>x. \<Sum>j \<in> A. f j * basis A j x)"
    using assms by (intro poly_intros polyfn_basis)
  then obtain cs where cs: "length cs = card A" "\<forall>x. (\<Sum>j \<in> A. f j * basis A j x) = peval cs x"
    by (auto simp: polyfn_def)
  then have ex: "length cs = card A \<and> (\<forall>a \<in> A. peval cs a = f a)"
    using sum_basis_at [OF assms] by metis
  moreover have "ds = cs" if ds: "length ds = card A \<and> (\<forall>a \<in> A. peval ds a = f a)" for ds
  proof -
    let ?e = "map2 (+) ds (map ((*) (- 1)) cs)"
    have len: "length ds = length (map ((*) (- 1)) cs)" using ds ex by simp
    obtain xs where xs: "set xs = A" "distinct xs" using finite_distinct_list [OF assms] by blast
    have "\<forall>x \<in> set xs. peval ?e x = 0"
      using ds ex xs by (simp add: peval_map2 [OF len] peval_scale del: map_map)
    then have "\<forall>c \<in> set ?e. c = 0"
      using roots_zero [of xs ?e] ds ex xs distinct_card [of xs] by simp
    then have "?e ! i = 0" if "i < length ds" for i
      using that ds ex nth_mem [of i ?e] by auto
    then show ?thesis using ds ex by (intro nth_equalityI) auto
  qed
  ultimately show ?thesis by blast
qed

end
