(* ===== verification/Gf256.thy ===== *)
theory Gf256
  imports "HOL-Library.Word"
begin

text \<open>
  The field of 256 elements in which \<open>bin/lib/shamir.py\<close> computes: bytes with exclusive or as
  addition and multiplication of polynomials modulo \<open>0x11B\<close>. The multiplication is described by
  the doubling map \<open>xtime\<close> and its linearity; every non-zero element is a power of 3, which gives
  the inverses.
\<close>

unbundle bit_operations_syntax

section \<open>Doubling\<close>

definition xtime :: "8 word \<Rightarrow> 8 word" where
  "xtime a = push_bit 1 a XOR (if bit a 7 then 0x1B else 0)"

lemma push_bit_xor_word: "push_bit n (a XOR b :: 8 word) = push_bit n a XOR push_bit n b"
  by (rule push_bit_xor)

lemma xtime_xor: "xtime (a XOR b) = xtime a XOR xtime b"
  by (simp add: xtime_def push_bit_xor_word bit_xor_iff ac_simps) 

lemma xtime_0 [simp]: "xtime 0 = 0"
  by (simp add: xtime_def)

text \<open>The exclusive or of the values of \<open>f\<close> at the set bits of a byte.\<close>

definition lin :: "(nat \<Rightarrow> 8 word) \<Rightarrow> 8 word \<Rightarrow> 8 word" where
  "lin f b = foldr (\<lambda>j acc. (if bit b j then f j else 0) XOR acc) [0..<8] 0"

definition linear :: "(8 word \<Rightarrow> 8 word) \<Rightarrow> bool" where
  "linear T \<longleftrightarrow> (\<forall>a b. T (a XOR b) = T a XOR T b)"

lemma linearD: "linear T \<Longrightarrow> T (a XOR b) = T a XOR T b" by (simp add: linear_def)

lemma linear_0: "linear T \<Longrightarrow> T 0 = 0"
  using linearD [of T 0 0] by simp

lemma foldr_xor_hom:
  assumes "linear T"
  shows "T (foldr (\<lambda>j acc. (if P j then f j else 0) XOR acc) js 0) =
    foldr (\<lambda>j acc. (if P j then T (f j) else 0) XOR acc) js 0"
  using assms by (induction js) (auto simp: linearD linear_0)

lemma lin_hom: "linear T \<Longrightarrow> T (lin f b) = lin (\<lambda>j. T (f j)) b"
  unfolding lin_def by (rule foldr_xor_hom)

lemma foldr_xor_bits:
  fixes f :: "nat \<Rightarrow> 8 word"
  shows "foldr (\<lambda>j acc. (if P j = (\<not> Q j) then f j else 0) XOR acc) js 0 =
    foldr (\<lambda>j acc. (if P j then f j else 0) XOR acc) js 0 XOR
    foldr (\<lambda>j acc. (if Q j then f j else 0) XOR acc) js 0"
  by (induction js) (auto simp: ac_simps)

lemma linear_lin: "linear (lin f)"
  unfolding linear_def lin_def
  by (intro allI) (simp add: bit_xor_iff foldr_xor_bits)

lemma foldr_xor_single:
  fixes f :: "nat \<Rightarrow> 8 word"
  shows "distinct js \<Longrightarrow> foldr (\<lambda>i acc. (if i = j then f i else 0) XOR acc) js 0 = (if j \<in> set js then f j else 0)"
  by (induction js) auto

lemma lin_pow2: "j < 8 \<Longrightarrow> lin f (2 ^ j) = f j"
proof -
  assume j: "j < 8"
  have "lin f (2 ^ j) = foldr (\<lambda>i acc. (if i = j then f i else 0) XOR acc) [0..<8] 0"
    unfolding lin_def by (rule foldr_cong) (auto simp: bit_exp_iff)
  with j show ?thesis by (simp add: foldr_xor_single)
qed

lemma upt_8: "[0..<8] = [0, 1, 2, 3, 4, 5, 6, 7]"
  by code_simp

lemma lin_bits: "lin (\<lambda>j. 2 ^ j) b = b"
proof (rule bit_word_eqI)
  fix n assume "n < LENGTH(8)"
  then consider "n = 0" | "n = 1" | "n = 2" | "n = 3" | "n = 4" | "n = 5" | "n = 6" | "n = 7" by force
  then show "bit (lin (\<lambda>j. 2 ^ j) b) n = bit b n"
    by cases (simp_all add: lin_def upt_8 bit_xor_iff)
qed

text \<open>A linear map is determined by its values on the bits.\<close>

lemma linear_eqI:
  assumes "linear S" and "linear T" and "\<And>j. j < 8 \<Longrightarrow> S (2 ^ j) = T (2 ^ j)"
  shows "S b = T b"
proof -
  have "S b = lin (\<lambda>j. S (2 ^ j)) b" using lin_hom [OF assms(1), of "\<lambda>j. 2 ^ j" b] by (simp add: lin_bits)
  also have "\<dots> = lin (\<lambda>j. T (2 ^ j)) b" using assms(3) unfolding lin_def by (intro foldr_cong) auto
  also have "\<dots> = T b" using lin_hom [OF assms(2), of "\<lambda>j. 2 ^ j" b] by (simp add: lin_bits)
  finally show ?thesis .
qed

named_theorems linears "closure of linear maps"

lemma linear_xtime [linears]: "linear xtime"
  by (simp add: linear_def xtime_xor)

lemma linear_id [linears]: "linear (\<lambda>a. a)" "linear (\<lambda>a. 0)"
  by (simp_all add: linear_def)

lemma linear_xor [linears]: "linear S \<Longrightarrow> linear T \<Longrightarrow> linear (\<lambda>a. S a XOR T a)"
  by (simp add: linear_def ac_simps)

lemma linear_if [linears]: "linear S \<Longrightarrow> linear (\<lambda>a. if P then S a else 0)"
  by (simp add: linear_def)

lemma linear_funpow [linears]: "linear ((xtime ^^ n))"
  by (induction n) (simp_all add: linear_def xtime_xor)

section \<open>Multiplication\<close>

definition wmul :: "8 word \<Rightarrow> 8 word \<Rightarrow> 8 word" where
  "wmul a b = lin (\<lambda>j. (xtime ^^ j) a) b"

lemma linear_wmul_right: "linear (wmul a)"
  unfolding wmul_def by (rule linear_lin)

lemma linear_foldr:
  "(\<And>j. linear (g j)) \<Longrightarrow> linear (\<lambda>a. foldr (\<lambda>j acc. (if P j then g j a else 0) XOR acc) js 0)"
  by (induction js) (auto intro!: linears)

lemma linear_wmul_left: "linear (\<lambda>a. wmul a b)"
  unfolding wmul_def lin_def by (intro linear_foldr linears)

lemma wmul_pow2: "j < 8 \<Longrightarrow> wmul a (2 ^ j) = (xtime ^^ j) a"
  by (simp add: wmul_def lin_pow2)

lemma xtime_pow8:
  "(xtime ^^ 8) a = (xtime ^^ 4) a XOR (xtime ^^ 3) a XOR xtime a XOR a"
proof (rule linear_eqI [of "xtime ^^ 8" "\<lambda>a. (xtime ^^ 4) a XOR (xtime ^^ 3) a XOR xtime a XOR a"])
  have "list_all (\<lambda>j. (xtime ^^ 8) (2 ^ j) =
      (xtime ^^ 4) (2 ^ j) XOR (xtime ^^ 3) (2 ^ j) XOR xtime (2 ^ j) XOR 2 ^ j) [0..<8]"
    by code_simp
  then show "(xtime ^^ 8) (2 ^ j) = (xtime ^^ 4) (2 ^ j) XOR (xtime ^^ 3) (2 ^ j) XOR xtime (2 ^ j) XOR 2 ^ j"
    if "j < 8" for j :: nat
    using that by (simp add: list_all_iff)
qed (intro linears)+

lemma wmul_xtime: "wmul a (xtime b) = xtime (wmul a b)"
proof (rule linear_eqI [of "\<lambda>b. wmul a (xtime b)" "\<lambda>b. xtime (wmul a b)"])
  show "wmul a (xtime (2 ^ j)) = xtime (wmul a (2 ^ j))" if "j < 8" for j
  proof (cases "j = 7")
    case True
    have "xtime (2 ^ 7) = (2 ^ 4 XOR 2 ^ 3 XOR 2 ^ 1 XOR 2 ^ 0 :: 8 word)" by code_simp
    then have "wmul a (xtime (2 ^ 7)) = (xtime ^^ 8) a"
      by (simp only: linearD [OF linear_wmul_right] wmul_pow2 xtime_pow8) simp
    also have "(xtime ^^ 8) a = xtime ((xtime ^^ 7) a)"
      using funpow.simps(2) [of 7 xtime] by (simp add: comp_def fun_eq_iff)
    finally show ?thesis using True wmul_pow2 [of 7 a] by simp
  next
    case False
    with that have j: "Suc j < 8" "j < 7" by simp_all
    then have "xtime (2 ^ j) = (2 ^ Suc j :: 8 word)"
      by (simp add: xtime_def bit_exp_iff push_bit_eq_mult)
    with j that show ?thesis by (simp only: wmul_pow2) simp
  qed
qed (use linear_xtime linear_wmul_right in \<open>simp_all add: linear_def\<close>)

lemma wmul_xtime_left: "wmul (xtime a) b = xtime (wmul a b)"
  unfolding wmul_def by (subst lin_hom [OF linear_xtime]) (simp add: funpow_swap1)

lemma wmul_funpow: "wmul a ((xtime ^^ j) b) = (xtime ^^ j) (wmul a b)"
  "wmul ((xtime ^^ j) a) b = (xtime ^^ j) (wmul a b)"
  by (induction j) (simp_all add: wmul_xtime wmul_xtime_left)

lemma wmul_1: "wmul a 1 = a" "wmul 1 a = a"
proof -
  have "(xtime ^^ j) 1 = 2 ^ j" if "j < 8" for j
  proof -
    have "list_all (\<lambda>j. (xtime ^^ j) 1 = 2 ^ j) [0..<8]" by code_simp
    with that show ?thesis by (simp add: list_all_iff)
  qed
  then have "wmul 1 a = lin (\<lambda>j. 2 ^ j) a" unfolding wmul_def lin_def by (intro foldr_cong) auto
  then show "wmul 1 a = a" by (simp add: lin_bits)
  show "wmul a 1 = a" using wmul_pow2 [of 0 a] by simp
qed

lemma wmul_commute: "wmul a b = wmul b a"
proof -
  have "wmul a b = wmul (lin (\<lambda>j. (xtime ^^ j) 1) a) b"
    using wmul_1(2) [of a] by (simp add: wmul_def)
  also have "\<dots> = lin (\<lambda>j. wmul ((xtime ^^ j) 1) b) a" by (rule lin_hom [OF linear_wmul_left])
  also have "\<dots> = wmul b a" by (simp add: wmul_funpow wmul_1) (simp add: wmul_def)
  finally show ?thesis .
qed

lemma wmul_assoc: "wmul (wmul a b) c = wmul a (wmul b c)"
proof -
  have "wmul a (wmul b c) = lin (\<lambda>j. wmul a ((xtime ^^ j) b)) c"
    unfolding wmul_def [of b c] by (rule lin_hom [OF linear_wmul_right])
  also have "\<dots> = wmul (wmul a b) c" by (simp add: wmul_funpow) (simp add: wmul_def)
  finally show ?thesis by simp
qed

section \<open>The powers of 3\<close>

text \<open>Multiplication by 3, and the table of the powers of 3.\<close>

definition times3 :: "8 word \<Rightarrow> 8 word" where
  "times3 a = xtime a XOR a"

lemma times3_wmul: "times3 a = wmul a 3"
proof -
  have "(3 :: 8 word) = 2 ^ 1 XOR 2 ^ 0" by code_simp
  then show ?thesis
    using linearD [OF linear_wmul_right, of a "2 ^ 1" "2 ^ 0"] wmul_pow2 [of 1 a] wmul_pow2 [of 0 a]
    by (simp add: times3_def)
qed

text \<open>The table is computed on integers.\<close>

definition times3_int :: "int \<Rightarrow> int" where
  "times3_int a = (let b = a + a in (if 256 \<le> b then (b - 256) XOR 27 else b) XOR a)"

fun table :: "nat \<Rightarrow> int \<Rightarrow> int list" where
  "table 0 a = []"
| "table (Suc n) a = a # table n (times3_int a)"

lemma table_check: "sort (table 255 1) = [1..255]" "times3_int 246 = 1" "last (table 255 1) = 246"
  by code_simp+

lemma uint_less_256: "uint (a :: 8 word) < 256"
  using uint_bounded [of a] by simp

lemma bit_7: "bit a 7 \<longleftrightarrow> 128 \<le> uint a" for a :: "8 word"
proof -
  have "uint a div 128 = 0 \<or> uint a div 128 = 1"
    using uint_less_256 [of a] uint_nonnegative [of a] by linarith
  moreover have "bit a 7 \<longleftrightarrow> bit (uint a) 7" by (simp add: bit_uint_iff)
  then have "bit a 7 \<longleftrightarrow> odd (uint a div 128)" by (simp add: bit_iff_odd [of "uint a"])
  ultimately show ?thesis by auto
qed

lemma double: "0 \<le> u \<Longrightarrow> u < 256 \<Longrightarrow> (2 * u) mod 256 = (if 128 \<le> u then u + u - 256 else u + u)" for u :: int
  using minus_mod_self2 [of "2 * u" 256] mod_pos_pos_trivial [of "2 * u - 256" 256]
    mod_pos_pos_trivial [of "2 * u" 256] by simp

lemma uint_xtime:
  "uint (xtime a) = (if 256 \<le> uint a + uint a then (uint a + uint a - 256) XOR 27 else uint a + uint a)"
proof -
  have "uint (push_bit 1 a) = take_bit 8 (push_bit 1 (uint a))"
    by (simp only: unsigned_push_bit_eq) simp
  also have "\<dots> = (2 * uint a) mod 256" by (simp add: take_bit_eq_mod push_bit_eq_mult mult.commute)
  also have "\<dots> = (if 128 \<le> uint a then uint a + uint a - 256 else uint a + uint a)"
    using double [OF uint_nonnegative uint_less_256] .
  finally show ?thesis by (simp add: xtime_def bit_7 unsigned_xor_eq)
qed

lemma uint_times3: "uint (times3 a) = times3_int (uint a)"
  by (simp add: times3_def times3_int_def Let_def unsigned_xor_eq uint_xtime)

section \<open>The field\<close>

datatype gf = GF (byte_of: "8 word")

instantiation gf :: comm_ring_1
begin

definition zero_gf :: gf where "zero_gf = GF 0"
definition one_gf :: gf where "one_gf = GF 1"
definition plus_gf :: "gf \<Rightarrow> gf \<Rightarrow> gf" where "plus_gf a b = GF (byte_of a XOR byte_of b)"
definition minus_gf :: "gf \<Rightarrow> gf \<Rightarrow> gf" where "minus_gf a b = GF (byte_of a XOR byte_of b)"
definition uminus_gf :: "gf \<Rightarrow> gf" where "uminus_gf a = a"
definition times_gf :: "gf \<Rightarrow> gf \<Rightarrow> gf" where "times_gf a b = GF (wmul (byte_of a) (byte_of b))"

instance
proof
  fix a b c :: gf
  show "a + b + c = a + (b + c)" "a + b = b + a" "0 + a = a" "- a + a = 0" "a - b = a + - b"
    by (simp_all add: plus_gf_def zero_gf_def minus_gf_def uminus_gf_def ac_simps)
  show "a * b * c = a * (b * c)" "1 * a = a"
    by (simp_all add: times_gf_def one_gf_def wmul_assoc wmul_1)
  show "a * b = b * a" unfolding times_gf_def by (subst wmul_commute) (rule refl)
  show "(a + b) * c = a * c + b * c"
    by (simp add: times_gf_def plus_gf_def linearD [OF linear_wmul_left])
  show "(0 :: gf) \<noteq> 1" by (simp add: zero_gf_def one_gf_def)
qed

end

lemma table_powers: "uint (byte_of a) = i \<Longrightarrow> j < n \<Longrightarrow> table n i ! j = uint (byte_of (a * GF 3 ^ j))"
proof (induction n arbitrary: a i j)
  case (Suc n)
  have "uint (byte_of (a * GF 3)) = times3_int i"
    using Suc.prems(1) uint_times3 [of "byte_of a"] by (simp add: times_gf_def times3_wmul)
  with Suc show ?case by (cases j) (simp_all add: ac_simps)
qed simp

lemma length_table [simp]: "length (table n i) = n"
  by (induction n arbitrary: i) simp_all

lemma power3_cycle: "GF 3 ^ 255 = 1"
proof -
  have t: "table 255 1 ! j = uint (byte_of (GF 3 ^ j))" if "j < 255" for j
    using table_powers [of 1 1 j 255] that by (simp add: one_gf_def [symmetric])
      (simp add: one_gf_def)
  have "last (table 255 1) = table 255 1 ! 254" by (subst last_conv_nth) (auto simp flip: length_0_conv)
  then have "uint (byte_of (GF 3 ^ 254)) = 246" using t [of 254] table_check(3) by simp
  then have "uint (byte_of (GF 3 ^ 254 * GF 3)) = 1"
    using uint_times3 [of "byte_of (GF 3 ^ 254)"] table_check(2) by (simp add: times_gf_def times3_wmul)
  then have "byte_of (GF 3 ^ 254 * GF 3) = 1" by (metis word_uint_eqI uint_1)
  then show ?thesis
    by (metis One_nat_def Suc_numeral gf.collapse one_gf_def power_Suc2 semiring_norm(5) semiring_norm(8))
qed

lemma nonzero_power3:
  assumes "a \<noteq> 0"
  shows "\<exists>j < 255. a = GF 3 ^ j"
proof -
  have "uint (byte_of a) \<noteq> 0" using assms by (cases a) (simp add: zero_gf_def uint_0_iff)
  then have "1 \<le> uint (byte_of a)" using uint_nonnegative [of "byte_of a"] by linarith
  then have "uint (byte_of a) \<in> set [1..255]" using uint_less_256 [of "byte_of a"] by simp
  then have "uint (byte_of a) \<in> set (table 255 1)" by (metis set_sort table_check(1))
  then obtain j where "j < 255" "table 255 1 ! j = uint (byte_of a)" by (auto simp: in_set_conv_nth)
  moreover from this have "uint (byte_of (1 * GF 3 ^ j)) = uint (byte_of a)"
    using table_powers [of 1 1 j 255] by (simp add: one_gf_def)
  ultimately show ?thesis by (metis gf.expand mult_1 word_uint_eqI)
qed

text \<open>The inverse as the code computes it, the power 254.\<close>

lemma power_255: "a \<noteq> 0 \<Longrightarrow> (a :: gf) ^ 255 = 1"
  using nonzero_power3 [of a] by (metis power3_cycle power_mult mult.commute power_one)

instantiation gf :: field
begin

definition inverse_gf :: "gf \<Rightarrow> gf" where "inverse_gf a = a ^ 254"
definition divide_gf :: "gf \<Rightarrow> gf \<Rightarrow> gf" where "divide_gf a b = a * inverse b"

instance
proof
  fix a b :: gf
  show "inverse a * a = 1" if "a \<noteq> 0"
    using power_255 [OF that] power_Suc2 [of a 254] by (simp add: inverse_gf_def)
  show "a div b = a * inverse b" by (simp add: divide_gf_def)
  show "inverse (0 :: gf) = 0" by (simp add: inverse_gf_def)
qed

end

lemma uminus_gf [simp]: "- a = (a :: gf)" by (simp add: uminus_gf_def)

lemma finite_gf: "finite (UNIV :: gf set)"
proof -
  have "(UNIV :: gf set) \<subseteq> range GF" by (metis gf.exhaust rangeI subsetI)
  then show ?thesis by (rule finite_subset) simp
qed

end
