(* ===== verification/Shamir.thy ===== *)
theory Shamir
  imports Prelude Interpolation Gf256
begin

text \<open>
  The secret sharing of \<open>bin/lib/shamir.py\<close>. The arithmetic is the code's, on unbounded integers
  with shifts and masks; the multiplication loop is a partial function, so that not returning is the
  value \<open>None\<close>. A run is \<open>None\<close>, an exception or a value. The random coefficients are a parameter:
  the stream of values \<open>randbelow(256)\<close> returns.
\<close>

section \<open>Runs\<close>

type_synonym 'a run = "'a result option"

definition bindR :: "'a run \<Rightarrow> ('a \<Rightarrow> 'b run) \<Rightarrow> 'b run" where
  "bindR m f = (case m of None \<Rightarrow> None | Some (Inl e) \<Rightarrow> Some (Inl e) | Some (Inr x) \<Rightarrow> f x)"

abbreviation returnR :: "'a \<Rightarrow> 'a run" where
  "returnR x \<equiv> Some (Inr x)"

fun mapR :: "('a \<Rightarrow> 'b run) \<Rightarrow> 'a list \<Rightarrow> 'b list run" where
  "mapR f [] = returnR []"
| "mapR f (x # xs) = bindR (f x) (\<lambda>y. bindR (mapR f xs) (\<lambda>ys. returnR (y # ys)))"

lemma bindR_simps [simp]:
  "bindR None f = None" "bindR (Some (Inl e)) f = Some (Inl e)" "bindR (returnR x) f = f x"
  by (simp_all add: bindR_def)

lemma mapR_return: "(\<And>x. x \<in> set xs \<Longrightarrow> f x = returnR (g x)) \<Longrightarrow> mapR f xs = returnR (map g xs)"
  by (induction xs) simp_all

section \<open>Field arithmetic on integers\<close>

partial_function (option) gf_mul_loop :: "int \<Rightarrow> int \<Rightarrow> int \<Rightarrow> int option" where
  "gf_mul_loop out a b =
     (if b = 0 then Some out
      else (let out' = (if b AND 1 \<noteq> 0 then out XOR a else out);
                a1 = push_bit 1 a;
                a2 = (if a1 AND 0x100 \<noteq> 0 then a1 XOR 0x11B else a1)
            in gf_mul_loop out' a2 (drop_bit 1 b)))"

declare gf_mul_loop.simps [code]

definition gf_mul :: "int \<Rightarrow> int \<Rightarrow> int run" where
  "gf_mul a b = map_option Inr (gf_mul_loop 0 a b)"

fun gf_pow_loop :: "nat \<Rightarrow> int \<Rightarrow> int \<Rightarrow> int run" where
  "gf_pow_loop 0 out a = returnR out"
| "gf_pow_loop (Suc e) out a = bindR (gf_mul out a) (\<lambda>out'. gf_pow_loop e out' a)"

definition gf_pow :: "int \<Rightarrow> nat \<Rightarrow> int run" where
  "gf_pow a e = gf_pow_loop e 1 a"

definition gf_inv :: "int \<Rightarrow> int run" where
  "gf_inv a = (if a = 0 then Some (raise ZeroDivisionError ''gf inverse of 0'') else gf_pow a 254)"

section \<open>Sharing\<close>

text \<open>\<open>bytearray.append\<close> and \<open>bytes.hex\<close>\<close>

definition byte_append :: "int \<Rightarrow> char run" where
  "byte_append y = (if 0 \<le> y \<and> y < 256 then returnR (char_of (nat y))
     else Some (raise ValueError ''byte must be in range(0, 256)''))"

definition hex_digit :: "nat \<Rightarrow> char" where
  "hex_digit d = (if d < 10 then char_of (48 + d) else char_of (87 + d))"

definition bytes_hex :: "string \<Rightarrow> string" where
  "bytes_hex s = concat (map (\<lambda>c. [hex_digit (ord c div 16), hex_digit (ord c mod 16)]) s)"

text \<open>The loop over the coefficients of one byte.\<close>

fun eval_share :: "int \<Rightarrow> int \<Rightarrow> nat \<Rightarrow> int list \<Rightarrow> int run" where
  "eval_share y x j [] = returnR y"
| "eval_share y x j (c # cs) =
     bindR (gf_pow x j) (\<lambda>p. bindR (gf_mul c p) (\<lambda>m. eval_share (y XOR m) x (Suc j) cs))"

definition share_line :: "string \<Rightarrow> int list list \<Rightarrow> int \<Rightarrow> string run" where
  "share_line secret coeffs x =
     bindR (mapR (\<lambda>(byte, cs). bindR (eval_share (int (ord byte)) x 1 cs) byte_append) (zip secret coeffs))
       (\<lambda>ys. returnR (''shamir-v1:'' @ int_dec x @ '':'' @ bytes_hex ys))"

definition split_with :: "int list list \<Rightarrow> string \<Rightarrow> int \<Rightarrow> int \<Rightarrow> string list run" where
  "split_with coeffs secret k n =
     (if \<not> (2 \<le> k \<and> k \<le> n \<and> n \<le> 255) then Some (raise ValueError ''need 2 <= k <= n <= 255'')
      else if secret = [] then Some (raise ValueError ''empty secret'')
      else mapR (share_line secret coeffs) [1..n])"

definition draw_coeffs :: "(nat \<Rightarrow> int) \<Rightarrow> string \<Rightarrow> int \<Rightarrow> int list list" where
  "draw_coeffs rnd secret k =
     (let m = nat (k - 1) in map (\<lambda>i. map (\<lambda>j. rnd (i * m + j)) [0..<m]) [0..<length secret])"

definition split_secret :: "(nat \<Rightarrow> int) \<Rightarrow> string \<Rightarrow> int \<Rightarrow> int \<Rightarrow> string list run" where
  "split_secret rnd secret k n = split_with (draw_coeffs rnd secret k) secret k n"

section \<open>Reading shares\<close>

text \<open>\<open>line.split(":", 2)\<close> where it yields three parts.\<close>

definition split_two :: "string \<Rightarrow> (string \<times> string \<times> string) option" where
  "split_two s =
     (let a = takeWhile (\<lambda>c. c \<noteq> CHR '':'') s; r = dropWhile (\<lambda>c. c \<noteq> CHR '':'') s;
          b = takeWhile (\<lambda>c. c \<noteq> CHR '':'') (tl r); q = dropWhile (\<lambda>c. c \<noteq> CHR '':'') (tl r)
      in if r = [] \<or> q = [] then None else Some (a, b, tl q))"

text \<open>
  \<open>int(s)\<close>: blanks around, one sign, decimal digits with single underscores between them, at most
  4300 digits. In a text outside ASCII every blank counts, in ASCII only the C blanks.
\<close>

definition is_c_space :: "char \<Rightarrow> bool" where
  "is_c_space c \<longleftrightarrow> ord c \<in> {9, 10, 11, 12, 13, 32}"

definition digits_of :: "string \<Rightarrow> string option" where
  "digits_of s =
     (let parts = split_on (CHR ''_'') s; ds = concat parts
      in if list_all (\<lambda>p. p \<noteq> [] \<and> list_all is_digit p) parts \<and> length ds \<le> 4300 then Some ds else None)"

definition py_int :: "string \<Rightarrow> int option" where
  "py_int s =
     (let blank = (if list_all (\<lambda>c. ord c < 128) s then is_c_space else is_space);
          t = rev (dropWhile blank (rev (dropWhile blank s)))
      in case t of
           [] \<Rightarrow> None
         | c # cs \<Rightarrow>
             if c = CHR ''-'' then map_option (\<lambda>ds. - int (dec_nat ds)) (digits_of cs)
             else if c = CHR ''+'' then map_option (\<lambda>ds. int (dec_nat ds)) (digits_of cs)
             else map_option (\<lambda>ds. int (dec_nat ds)) (digits_of t))"

text \<open>\<open>bytes.fromhex\<close>\<close>

definition hex_value :: "char \<Rightarrow> nat option" where
  "hex_value c =
     (if is_digit c then Some (ord c - 48)
      else if 97 \<le> ord c \<and> ord c \<le> 102 then Some (ord c - 87)
      else if 65 \<le> ord c \<and> ord c \<le> 70 then Some (ord c - 55) else None)"

fun bytes_fromhex :: "string \<Rightarrow> string option" where
  "bytes_fromhex [] = Some []"
| "bytes_fromhex [c] = (if is_c_space c then Some [] else None)"
| "bytes_fromhex (c # d # cs) =
     (if is_c_space c then bytes_fromhex (d # cs)
      else (case (hex_value c, hex_value d) of
          (Some h, Some l) \<Rightarrow> map_option ((#) (char_of (16 * h + l))) (bytes_fromhex cs)
        | _ \<Rightarrow> None))"

text \<open>\<open>pts[x] = ys\<close> on the association list of points, and the loop over the lines.\<close>

definition put_point :: "int \<Rightarrow> string \<Rightarrow> (int \<times> string) list \<Rightarrow> (int \<times> string) list" where
  "put_point x ys pts = (x, ys) # filter (\<lambda>p. fst p \<noteq> x) pts"

definition parse_share :: "string \<Rightarrow> (int \<times> string) result" where
  "parse_share line =
     (case split_two line of
        None \<Rightarrow> raise ValueError ''not enough values to unpack''
      | Some (tag, xs, hexpart) \<Rightarrow>
          if tag \<noteq> ''shamir-v1'' then raise ValueError ''unknown share format''
          else (case py_int xs of
              None \<Rightarrow> raise ValueError ''invalid literal for int()''
            | Some x \<Rightarrow> (case bytes_fromhex hexpart of
                None \<Rightarrow> raise ValueError ''non-hexadecimal number found''
              | Some ys \<Rightarrow> Inr (x, ys))))"

fun read_shares ::
  "(int \<times> string) list \<Rightarrow> nat option \<Rightarrow> string list \<Rightarrow> ((int \<times> string) list \<times> nat option) result" where
  "read_shares pts len [] = Inr (pts, len)"
| "read_shares pts len (l # ls) =
     (let line = strip l in
      if line = [] then read_shares pts len ls
      else bindE (parse_share line) (\<lambda>(x, ys).
        if len \<noteq> None \<and> len \<noteq> Some (length ys) then raise ValueError ''share length mismatch''
        else read_shares (put_point x ys pts) (Some (length ys)) ls))"

section \<open>Combining\<close>

fun coefficient_loop :: "int \<Rightarrow> int \<Rightarrow> int list \<Rightarrow> int run" where
  "coefficient_loop xj lj [] = returnR lj"
| "coefficient_loop xj lj (xm # xs) =
     (if xm \<noteq> xj then
        bindR (gf_inv (xj XOR xm)) (\<lambda>v. bindR (gf_mul xm v) (\<lambda>q. bindR (gf_mul lj q) (\<lambda>l.
          coefficient_loop xj l xs)))
      else coefficient_loop xj lj xs)"

text \<open>Every value of \<open>pts\<close> has the common length, so the index is in range.\<close>

fun combine_loop :: "(int \<times> string) list \<Rightarrow> int list \<Rightarrow> nat \<Rightarrow> int \<Rightarrow> int list \<Rightarrow> int run" where
  "combine_loop pts xs i acc [] = returnR acc"
| "combine_loop pts xs i acc (xj # js) =
     bindR (coefficient_loop xj 1 xs) (\<lambda>lj.
     bindR (gf_mul (int (ord (the (map_of pts xj) ! i))) lj) (\<lambda>m.
       combine_loop pts xs i (acc XOR m) js))"

definition combine_points :: "(int \<times> string) list \<Rightarrow> nat \<Rightarrow> string run" where
  "combine_points pts len =
     (let xs = sort (map fst pts) in
      mapR (\<lambda>i. bindR (combine_loop pts xs i 0 xs) byte_append) [0..<len])"

definition combine_shares :: "string list \<Rightarrow> string run" where
  "combine_shares lines =
     (case read_shares [] None lines of
        Inl e \<Rightarrow> Some (Inl e)
      | Inr (pts, None) \<Rightarrow> Some (raise ValueError ''need at least 2 distinct shares'')
      | Inr (pts, Some len) \<Rightarrow>
          if length pts < 2 then Some (raise ValueError ''need at least 2 distinct shares'')
          else combine_points pts len)"

section \<open>The arithmetic computes in the field\<close>

definition num :: "gf \<Rightarrow> int" where
  "num a = uint (byte_of a)"

definition elt :: "int \<Rightarrow> gf" where
  "elt i = GF (word_of_int i)"

lemma num_range [simp]: "0 \<le> num a" "num a < 256"
  using uint_less_256 [of "byte_of a"] by (simp_all add: num_def)

lemma elt_num [simp]: "elt (num a) = a"
  by (simp add: elt_def num_def)

lemma num_elt: "0 \<le> i \<Longrightarrow> i < 256 \<Longrightarrow> num (elt i) = i"
  by (simp add: elt_def num_def uint_word_of_int_eq take_bit_int_eq_self)

lemma num_inj [simp]: "num a = num b \<longleftrightarrow> a = b"
  by (metis elt_num)

lemma num_0 [simp]: "num 0 = 0" "num 1 = 1" "num a = 0 \<longleftrightarrow> a = 0"
proof -
  show z: "num 0 = 0" "num 1 = 1" by (simp_all add: num_def zero_gf_def one_gf_def)
  show "num a = 0 \<longleftrightarrow> a = 0" using num_inj [of a 0] z by simp
qed

named_theorems gf_sim "what the integer operations compute on field elements"

lemma num_xor [gf_sim]: "num a XOR num b = num (a + b)"
  by (simp add: num_def plus_gf_def unsigned_xor_eq)

lemma and_256: "v AND 256 \<noteq> 0 \<longleftrightarrow> bit v 8" for v :: int
  using and_exp_eq_0_iff_not_bit [of v 8] by simp

lemma doubling_int:
  fixes a :: "8 word"
  defines "v \<equiv> push_bit 1 (uint a)"
  shows "(if v AND 0x100 \<noteq> 0 then v XOR 0x11B else v) = uint (xtime a)"
proof -
  have v: "v = uint a + uint a" by (simp add: v_def push_bit_eq_mult)
  then have v9: "take_bit 9 v = v"
    using uint_less_256 [of a] uint_nonnegative [of a] by (simp add: take_bit_int_eq_self)
  have msb: "take_bit 9 w = 256 * of_bool (bit w 8) + take_bit 8 w" for w :: int
    using take_bit_Suc_from_most [of 8 w] by simp
  have bit8: "bit v 8 \<longleftrightarrow> 256 \<le> uint a + uint a"
  proof (cases "bit v 8")
    case True
    with msb [of v] v9 have "v = 256 + take_bit 8 v" by simp
    with True v take_bit_nonnegative [of 8 v] show ?thesis by linarith
  next
    case False
    with msb [of v] v9 have "v = take_bit 8 v" by simp
    with False v take_bit_int_less_exp [of 8 v] show ?thesis by simp
  qed
  show ?thesis
  proof (cases "bit v 8")
    case True
    have "take_bit 9 (v XOR 0x11B) = v XOR 0x11B" using v9 by (simp add: take_bit_xor)
    moreover have "\<not> bit (v XOR 0x11B) 8" using True by (simp add: bit_xor_iff)
    ultimately have "v XOR 0x11B = take_bit 8 (v XOR 0x11B)" using msb [of "v XOR 0x11B"] by simp
    also have "\<dots> = take_bit 8 v XOR 0x1B" by (simp add: take_bit_xor)
    also have "take_bit 8 v = v - 256" using msb [of v] v9 True by simp
    finally show ?thesis using True bit8 v and_256 [of v] by (simp add: uint_xtime)
  next
    case False
    then show ?thesis using bit8 v and_256 [of v] by (simp add: uint_xtime)
  qed
qed

lemma gf_mul_loop_bits:
  "0 \<le> b \<Longrightarrow> b < 2 ^ n \<Longrightarrow> gf_mul_loop (uint out) (uint a) b =
     Some (uint (out XOR foldr (\<lambda>j acc. (if bit b j then (xtime ^^ j) a else 0) XOR acc) [0..<n] 0))"
proof (induction n arbitrary: out a b)
  case 0
  then show ?case by (simp add: gf_mul_loop.simps)
next
  case (Suc n)
  show ?case
  proof (cases "b = 0")
    case True
    have "foldr (\<lambda>j acc. (if bit (0::int) j then (xtime ^^ j) a else 0) XOR acc) js 0 = 0" for js
      by (induction js) simp_all
    with True show ?thesis by (simp add: gf_mul_loop.simps del: upt_Suc)
  next
    case False
    let ?out = "if bit b 0 then out XOR a else out"
    have "gf_mul_loop (uint out) (uint a) b = gf_mul_loop (uint ?out) (uint (xtime a)) (drop_bit 1 b)"
      using False
      by (subst gf_mul_loop.simps, simp only: Let_def doubling_int if_False)
        (simp add: and_one_eq odd_iff_mod_2_eq_one [symmetric] bit_0 unsigned_xor_eq)
    also have "\<dots> = Some (uint (?out XOR foldr (\<lambda>j acc. (if bit (drop_bit 1 b) j then (xtime ^^ j) (xtime a) else 0)
        XOR acc) [0..<n] 0))"
      using Suc.prems by (intro Suc.IH) (simp_all add: drop_bit_eq_div)
    also have "foldr (\<lambda>j acc. (if bit (drop_bit 1 b) j then (xtime ^^ j) (xtime a) else 0) XOR acc) [0..<n] 0 =
        foldr (\<lambda>j acc. (if bit b j then (xtime ^^ j) a else 0) XOR acc) (map Suc [0..<n]) 0"
      by (simp add: foldr_map comp_def bit_drop_bit_eq funpow_Suc_right cong: if_cong del: funpow.simps)
    finally show ?thesis
      by (simp add: map_Suc_upt upt_conv_Cons ac_simps del: upt_Suc)
  qed
qed

lemma gf_mul_num [gf_sim]: "gf_mul (num a) (num b) = returnR (num (a * b))"
proof -
  have "num b < 2 ^ 8" by simp
  from gf_mul_loop_bits [OF num_range(1) this, of 0 "byte_of a"]
  have "gf_mul_loop 0 (num a) (num b) =
      Some (uint (foldr (\<lambda>j acc. (if bit (num b) j then (xtime ^^ j) (byte_of a) else 0) XOR acc) [0..<8] 0))"
    by (simp add: num_def)
  also have "foldr (\<lambda>j acc. (if bit (num b) j then (xtime ^^ j) (byte_of a) else 0) XOR acc) [0..<8] 0 =
      wmul (byte_of a) (byte_of b)"
    unfolding wmul_def lin_def by (intro foldr_cong) (auto simp: num_def bit_uint_iff)
  finally show ?thesis by (simp add: gf_mul_def num_def times_gf_def)
qed

lemma gf_pow_loop_num: "gf_pow_loop e (num a) (num b) = returnR (num (a * b ^ e))"
  by (induction e arbitrary: a) (simp_all add: gf_sim mult.assoc)

lemma gf_pow_num [gf_sim]: "gf_pow (num a) e = returnR (num (a ^ e))"
  using gf_pow_loop_num [of e 1 a] by (simp add: gf_pow_def)

lemma gf_inv_num [gf_sim]: "a \<noteq> 0 \<Longrightarrow> gf_inv (num a) = returnR (num (inverse a))"
  by (simp add: gf_inv_def gf_sim inverse_gf_def)

section \<open>Shares as field elements\<close>

definition byte_elt :: "char \<Rightarrow> gf" where
  "byte_elt c = elt (int (ord c))"

definition elt_byte :: "gf \<Rightarrow> char" where
  "elt_byte a = char_of (nat (num a))"

lemma num_byte_elt [simp]: "num (byte_elt c) = int (ord c)"
  using ord_less_256 [of c] by (simp add: byte_elt_def num_elt)

lemma byte_elt_byte [simp]: "byte_elt (elt_byte a) = a" "elt_byte (byte_elt c) = c"
proof -
  have "nat (num a) < 256" using num_range [of a] by linarith
  then have "ord (elt_byte a) = nat (num a)" by (simp add: elt_byte_def)
  then show "byte_elt (elt_byte a) = a" by (simp add: byte_elt_def)
  show "elt_byte (byte_elt c) = c" by (simp add: elt_byte_def)
qed

lemma byte_append_num [gf_sim]: "byte_append (num a) = returnR (elt_byte a)"
  by (simp add: byte_append_def elt_byte_def)

lemma eval_share_num:
  "eval_share (num y) (num x) j (map num cs) = returnR (num (y + x ^ j * peval cs x))"
  by (induction cs arbitrary: y j) (simp_all add: gf_sim algebra_simps)

text \<open>Coefficients as \<open>split\<close> draws them, the polynomial of one byte and the bytes of one share.\<close>

definition coeffs_ok :: "int \<Rightarrow> string \<Rightarrow> int list list \<Rightarrow> bool" where
  "coeffs_ok k secret coeffs \<longleftrightarrow> length coeffs = length secret \<and>
     (\<forall>cs \<in> set coeffs. length cs = nat (k - 1) \<and> (\<forall>c \<in> set cs. 0 \<le> c \<and> c < 256))"

definition byte_poly :: "char \<Rightarrow> int list \<Rightarrow> gf list" where
  "byte_poly b cs = byte_elt b # map elt cs"

definition share_bytes :: "string \<Rightarrow> int list list \<Rightarrow> int \<Rightarrow> string" where
  "share_bytes secret coeffs x = map2 (\<lambda>b cs. elt_byte (peval (byte_poly b cs) (elt x))) secret coeffs"

definition share_text :: "int \<Rightarrow> string \<Rightarrow> string" where
  "share_text x ys = ''shamir-v1:'' @ int_dec x @ '':'' @ bytes_hex ys"

lemma eval_share_byte:
  assumes "\<forall>c \<in> set cs. 0 \<le> c \<and> c < 256" and "0 \<le> x" "x < 256"
  shows "bindR (eval_share (int (ord b)) x 1 cs) byte_append = returnR (elt_byte (peval (byte_poly b cs) (elt x)))"
proof -
  have "map num (map elt cs) = cs" using assms(1) by (auto simp: num_elt intro!: map_idI)
  then have "eval_share (int (ord b)) x 1 cs = returnR (num (peval (byte_poly b cs) (elt x)))"
    using eval_share_num [of "byte_elt b" "elt x" 1 "map elt cs"] assms(2,3)
    by (simp add: num_elt byte_poly_def)
  then show ?thesis by (simp add: gf_sim)
qed

lemma share_line_ok:
  assumes "coeffs_ok k secret coeffs" and "0 \<le> x" "x < 256"
  shows "share_line secret coeffs x = returnR (share_text x (share_bytes secret coeffs x))"
proof -
  have "mapR (\<lambda>(byte, cs). bindR (eval_share (int (ord byte)) x 1 cs) byte_append) (zip secret coeffs) =
      returnR (share_bytes secret coeffs x)"
    unfolding share_bytes_def
    using assms by (intro mapR_return) (auto simp: coeffs_ok_def eval_share_byte [simplified] dest!: set_zip_rightD)
  then show ?thesis by (simp add: share_line_def share_text_def)
qed

lemma split_with_ok:
  assumes "coeffs_ok k secret coeffs" and "2 \<le> k" "k \<le> n" "n \<le> 255" and "secret \<noteq> []"
  shows "split_with coeffs secret k n =
    returnR (map (\<lambda>x. share_text x (share_bytes secret coeffs x)) [1..n])"
  unfolding split_with_def using assms by (auto intro!: mapR_return share_line_ok)

lemma draw_coeffs_ok:
  "(\<And>i. 0 \<le> rnd i \<and> rnd i < 256) \<Longrightarrow> coeffs_ok k secret (draw_coeffs rnd secret k)"
  by (auto simp: coeffs_ok_def draw_coeffs_def Let_def)

lemma length_share_bytes: "coeffs_ok k secret coeffs \<Longrightarrow> length (share_bytes secret coeffs x) = length secret"
  by (simp add: coeffs_ok_def share_bytes_def)

section \<open>Reading back a share\<close>

lemma hex_digit_value: "d < 16 \<Longrightarrow> hex_value (hex_digit d) = Some d"
  by (auto simp: hex_value_def hex_digit_def is_digit_def)

lemma hex_digit_ord: "d < 16 \<Longrightarrow> 48 \<le> ord (hex_digit d) \<and> ord (hex_digit d) \<le> 102 \<and> ord (hex_digit d) \<noteq> 58"
  by (auto simp: hex_digit_def)

lemma bytes_fromhex_hex [simp]: "bytes_fromhex (bytes_hex s) = Some s"
proof (induction s)
  case (Cons c s)
  have d: "ord c div 16 < 16" "ord c mod 16 < 16" using ord_less_256 [of c] by (simp_all add: less_mult_imp_div_less)
  have "\<not> is_c_space (hex_digit (ord c div 16))"
    using hex_digit_ord [OF d(1)] by (auto simp: is_c_space_def)
  with Cons show ?case by (simp add: bytes_hex_def hex_digit_value d)
qed (simp add: bytes_hex_def)

lemma strip_id: "s \<noteq> [] \<Longrightarrow> \<not> is_space (hd s) \<Longrightarrow> \<not> is_space (last s) \<Longrightarrow> strip s = s"
proof -
  assume s: "s \<noteq> []" "\<not> is_space (hd s)" "\<not> is_space (last s)"
  have "dropWhile P t = t" if "t \<noteq> []" "\<not> P (hd t)" for P and t :: string
    using that by (cases t) auto
  from this [of s is_space] this [of "rev s" is_space] s show ?thesis by (simp add: strip_def hd_rev)
qed

lemma bytes_hex_last: "c \<in> set (bytes_hex s) \<Longrightarrow> \<not> is_space c"
proof -
  assume "c \<in> set (bytes_hex s)"
  then obtain x where "c = hex_digit (ord x div 16) \<or> c = hex_digit (ord x mod 16)"
    by (auto simp: bytes_hex_def)
  moreover have "ord x div 16 < 16" "ord x mod 16 < 16"
    using ord_less_256 [of x] by (simp_all add: less_mult_imp_div_less)
  ultimately obtain d where "d < 16" "c = hex_digit d" by blast
  with hex_digit_ord [of d] show ?thesis by (auto simp: is_space_def)
qed

lemma split_on_none: "c \<notin> set s \<Longrightarrow> split_on c s = [s]"
  by (induction s) auto

lemma nat_dec_length: "n < 1000 \<Longrightarrow> length (nat_dec n) \<le> 3"
  by (simp add: nat_dec.simps [of n] nat_dec.simps [of "n div 10"] nat_dec.simps [of "n div 10 div 10"])

lemma py_int_dec:
  assumes "0 \<le> x" "x < 1000"
  shows "py_int (int_dec x) = Some x"
proof -
  let ?s = "nat_dec (nat x)"
  have digits: "\<forall>c \<in> set ?s. is_digit c" by (auto dest: nat_dec_digits)
  have blank: "\<not> is_c_space c" "c \<noteq> CHR ''-''" "c \<noteq> CHR ''+''" "c \<noteq> CHR ''_''" "ord c < 128" if "c \<in> set ?s" for c
    using digits that by (auto simp: is_digit_def is_c_space_def)
  have dw: "dropWhile is_c_space t = t" if "set t \<subseteq> set ?s" for t
    using blank(1) that by (cases t) auto
  have ascii: "list_all (\<lambda>c. ord c < 128) ?s" using blank(5) by (simp add: list_all_iff)
  have "split_on (CHR ''_'') ?s = [?s]" using blank(4) by (intro split_on_none) blast
  then have "digits_of ?s = Some ?s"
    using digits nat_dec_length [of "nat x"] assms
    by (simp add: digits_of_def Let_def list_all_iff nat_less_iff)
  moreover have "dec_nat ?s = nat x" by simp
  moreover obtain c cs where "?s = c # cs" by (cases ?s) auto
  ultimately show ?thesis
    using assms ascii dw [of ?s] dw [of "rev ?s"] blank(2,3) [of c]
    by (simp add: py_int_def int_dec_def Let_def)
qed

lemma split_two_three:
  assumes "CHR '':'' \<notin> set a" and "CHR '':'' \<notin> set b"
  shows "split_two (a @ '':'' @ b @ '':'' @ c) = Some (a, b, c)"
proof -
  have tw: "takeWhile (\<lambda>c. c \<noteq> CHR '':'') (s @ CHR '':'' # t) = s"
    "dropWhile (\<lambda>c. c \<noteq> CHR '':'') (s @ CHR '':'' # t) = CHR '':'' # t" if "CHR '':'' \<notin> set s" for s t
    using that by (induction s) auto
  show ?thesis using assms by (simp add: split_two_def Let_def tw)
qed

lemma parse_share_fields:
  assumes "CHR '':'' \<notin> set t" and "py_int t = Some x"
  shows "strip (''shamir-v1:'' @ t @ '':'' @ bytes_hex ys) = ''shamir-v1:'' @ t @ '':'' @ bytes_hex ys"
    and "parse_share (''shamir-v1:'' @ t @ '':'' @ bytes_hex ys) = Inr (x, ys)"
proof -
  let ?s = "''shamir-v1:'' @ t @ '':'' @ bytes_hex ys"
  have "last ?s = (if bytes_hex ys = [] then CHR '':'' else last (bytes_hex ys))" by simp
  then have "\<not> is_space (last ?s)"
    using bytes_hex_last [of "last (bytes_hex ys)" ys] by (auto simp: is_space_def)
  then show "strip ?s = ?s" by (intro strip_id) (simp_all add: is_space_def)
  have "split_two ?s = Some (''shamir-v1'', t, bytes_hex ys)"
    using split_two_three [of "''shamir-v1''" t "bytes_hex ys"] assms(1) by simp
  then show "parse_share ?s = Inr (x, ys)" using assms(2) by (simp add: parse_share_def)
qed

lemma parse_share_text:
  assumes "0 \<le> x" "x < 256"
  shows "strip (share_text x ys) = share_text x ys" and "parse_share (share_text x ys) = Inr (x, ys)"
proof -
  have "CHR '':'' \<notin> set (int_dec x)"
    using assms nat_dec_digits [of "CHR '':''" "nat x"] by (auto simp: int_dec_def is_digit_def)
  with assms show "strip (share_text x ys) = share_text x ys" "parse_share (share_text x ys) = Inr (x, ys)"
    unfolding share_text_def by (intro parse_share_fields; simp add: py_int_dec)+
qed

section \<open>Collecting the points\<close>

definition points_of :: "(int \<Rightarrow> string) \<Rightarrow> (int \<times> string) list \<Rightarrow> bool" where
  "points_of sh pts \<longleftrightarrow> distinct (map fst pts) \<and> (\<forall>p \<in> set pts. snd p = sh (fst p))"

lemma put_point_of:
  assumes "points_of sh pts"
  shows "points_of sh (put_point x (sh x) pts) \<and> fst ` set (put_point x (sh x) pts) = insert x (fst ` set pts)"
  using assms by (auto simp: points_of_def put_point_def distinct_map_filter)

lemma read_shares_texts:
  assumes "points_of sh pts" and "len \<in> {None, Some m}" and "len = None \<longrightarrow> xs \<noteq> []"
    and "\<forall>x \<in> set xs. 0 \<le> x \<and> x < 256 \<and> length (sh x) = m"
  shows "\<exists>pts'. read_shares pts len (map (\<lambda>x. share_text x (sh x)) xs) = Inr (pts', Some m) \<and>
    points_of sh pts' \<and> fst ` set pts' = fst ` set pts \<union> set xs"
  using assms
proof (induction xs arbitrary: pts len)
  case (Cons x xs)
  have "share_text x (sh x) \<noteq> []" by (simp add: share_text_def)
  then have "read_shares pts len (map (\<lambda>x. share_text x (sh x)) (x # xs)) =
      read_shares (put_point x (sh x) pts) (Some m) (map (\<lambda>x. share_text x (sh x)) xs)"
    using Cons.prems by (auto simp: Let_def parse_share_text)
  with Cons.IH [of "put_point x (sh x) pts" "Some m"] Cons.prems put_point_of [OF Cons.prems(1), of x]
  show ?case by simp
qed auto

section \<open>Interpolation at zero\<close>

lemma coefficient_loop_num:
  "coefficient_loop (num j) (num l) (map num ms) =
     returnR (num (l * prod_list (map (\<lambda>m. m * inverse (j + m)) (filter (\<lambda>m. m \<noteq> j) ms))))"
proof (induction ms arbitrary: l)
  case (Cons m ms)
  have "j + m \<noteq> 0" if "m \<noteq> j"
    using that by (metis add_eq_0_iff uminus_gf)
  then show ?case by (simp add: gf_sim Cons mult.assoc)
qed simp

lemma coefficient_basis:
  assumes "distinct ms"
  shows "prod_list (map (\<lambda>m. m * inverse (j + m)) (filter (\<lambda>m. m \<noteq> j) ms)) = basis (set ms) j (0 :: gf)"
proof -
  have "prod_list (map f (filter (\<lambda>m. m \<noteq> j) ms)) = prod f (set ms - {j})" for f :: "gf \<Rightarrow> gf"
    using assms by (subst prod.distinct_set_conv_list [symmetric]) (auto intro!: prod.cong)
  moreover have "(0 - m) / (j - m) = m * inverse (j + m)" for m :: gf
    by (metis diff_0 diff_minus_eq_add divide_inverse uminus_gf)
  ultimately show ?thesis by (simp add: basis_def)
qed

lemma combine_loop_num:
  assumes "distinct ms"
    and "\<forall>j \<in> set js. i < length (the (map_of pts (num j))) \<and> byte_elt (the (map_of pts (num j)) ! i) = f j"
  shows "combine_loop pts (map num ms) i (num acc) (map num js) =
    returnR (num (acc + sum_list (map (\<lambda>j. f j * basis (set ms) j 0) js)))"
  using assms(2)
proof (induction js arbitrary: acc)
  case (Cons j js)
  have "int (ord (the (map_of pts (num j)) ! i)) = num (f j)"
    using Cons.prems num_byte_elt by (metis list.set_intros(1))
  with Cons show ?case
    using coefficient_loop_num [of j 1 ms] by (simp add: gf_sim coefficient_basis [OF assms(1)] add.assoc)
qed simp

lemma share_bytes_nth:
  "coeffs_ok k secret coeffs \<Longrightarrow> i < length secret \<Longrightarrow>
   share_bytes secret coeffs x ! i = elt_byte (peval (byte_poly (secret ! i) (coeffs ! i)) (elt x))"
  by (simp add: share_bytes_def coeffs_ok_def)

lemma length_byte_poly:
  "coeffs_ok k secret coeffs \<Longrightarrow> i < length secret \<Longrightarrow> 1 \<le> k \<Longrightarrow>
   length (byte_poly (secret ! i) (coeffs ! i)) = nat k"
  by (simp add: byte_poly_def coeffs_ok_def)

lemma peval_byte_poly_0 [simp]: "peval (byte_poly b cs) 0 = byte_elt b"
  by (simp add: byte_poly_def)

lemma combine_points_ok:
  assumes ok: "coeffs_ok k secret coeffs" and k: "1 \<le> k" "nat k \<le> length pts"
    and pts: "points_of (share_bytes secret coeffs) pts" and range: "\<forall>x \<in> fst ` set pts. 0 \<le> x \<and> x < 256"
  shows "combine_points pts (length secret) = returnR secret"
proof -
  define xs where "xs = sort (map fst pts)"
  define ms where "ms = map elt xs"
  have set_xs: "set xs = fst ` set pts" and "distinct xs" and len: "length xs = length pts"
    using pts by (simp_all add: xs_def points_of_def)
  have "\<forall>x \<in> set xs. num (elt x) = x" unfolding set_xs using range num_elt by blast
  then have xs: "xs = map num ms" by (simp add: ms_def map_idI)
  then have dist: "distinct ms" using \<open>distinct xs\<close> by (simp add: distinct_map)
  have at: "map_of pts (num j) = Some (share_bytes secret coeffs (num j))" if "j \<in> set ms" for j
  proof -
    have "num j \<in> fst ` set pts" using that set_xs xs by auto
    then show ?thesis using pts by (auto simp: points_of_def)
  qed
  have loop: "combine_loop pts xs i 0 xs = returnR (num (byte_elt (secret ! i)))" if i: "i < length secret" for i
  proof -
    let ?p = "byte_poly (secret ! i) (coeffs ! i)"
    have "combine_loop pts (map num ms) i (num 0) (map num ms) =
        returnR (num (0 + sum_list (map (\<lambda>j. peval ?p j * basis (set ms) j 0) ms)))"
      using at i length_share_bytes [OF ok] share_bytes_nth [OF ok i]
      by (intro combine_loop_num [OF dist]) simp
    also have "sum_list (map (\<lambda>j. peval ?p j * basis (set ms) j 0) ms) =
        (\<Sum>j \<in> set ms. peval ?p j * basis (set ms) j 0)"
      using dist by (simp add: sum.distinct_set_conv_list)
    also have "\<dots> = peval ?p 0"
      using k len distinct_card [OF dist] xs
      by (intro lagrange [symmetric]) (simp_all add: length_byte_poly [OF ok i])
    finally show ?thesis using xs by simp
  qed
  have "mapR (\<lambda>i. bindR (combine_loop pts xs i 0 xs) byte_append) [0..<length secret] =
      returnR (map (\<lambda>i. secret ! i) [0..<length secret])"
    by (intro mapR_return) (simp only: loop set_upt atLeastLessThan_iff bindR_simps byte_append_num byte_elt_byte)
  then show ?thesis by (simp add: combine_points_def xs_def map_nth)
qed

section \<open>Any share lines\<close>

lemma read_shares_lengths:
  assumes "read_shares pts len lines = Inr (pts', Some m)"
    and "distinct (map fst pts) \<and> (\<forall>p \<in> set pts. len = Some (length (snd p)))"
  shows "distinct (map fst pts') \<and> (\<forall>p \<in> set pts'. length (snd p) = m)"
  using assms
proof (induction lines arbitrary: pts len)
  case (Cons l lines)
  show ?case
  proof (cases "strip l = []")
    case False
    then obtain r where r: "parse_share (strip l) = Inr r"
      using Cons.prems(1) by (cases "parse_share (strip l)") (simp_all add: Let_def)
    obtain x ys where p: "parse_share (strip l) = Inr (x, ys)" by (cases r) (simp add: r)
    from p False Cons.prems(1) have step: "len = None \<or> len = Some (length ys)"
      "read_shares (put_point x ys pts) (Some (length ys)) lines = Inr (pts', Some m)"
      by (simp_all add: Let_def split: if_split_asm)
    have "distinct (map fst (put_point x ys pts))"
      using Cons.prems(2) by (auto simp: put_point_def distinct_map_filter)
    moreover have "length (snd p) = length ys" if "p \<in> set (put_point x ys pts)" for p
      using Cons.prems(2) step(1) that by (auto simp: put_point_def)
    ultimately have "distinct (map fst (put_point x ys pts)) \<and>
        (\<forall>p \<in> set (put_point x ys pts). Some (length ys) = Some (length (snd p)))" by simp
    then show ?thesis by (rule Cons.IH [OF step(2)])
  qed (use Cons.prems in \<open>intro Cons.IH [of pts len]; simp add: Let_def\<close>)
qed auto

lemma combine_points_returns:
  assumes "distinct (map fst pts)" and "\<forall>p \<in> set pts. 0 \<le> fst p \<and> fst p < 256 \<and> length (snd p) = m"
  shows "\<exists>s. combine_points pts m = returnR s \<and> length s = m"
proof -
  define xs where "xs = sort (map fst pts)"
  define ms where "ms = map elt xs"
  have "\<forall>x \<in> set xs. num (elt x) = x" using assms(2) by (auto simp: xs_def num_elt)
  then have xs: "xs = map num ms" by (simp add: ms_def map_idI)
  moreover have "distinct xs" using assms(1) by (simp add: xs_def)
  ultimately have dist: "distinct ms" by (simp add: distinct_map)
  have at: "\<exists>ys. map_of pts (num j) = Some ys \<and> length ys = m" if "j \<in> set ms" for j
  proof -
    have "num j \<in> fst ` set pts" using that xs xs_def by (metis image_eqI image_set set_sort)
    then show ?thesis using assms by force
  qed
  have "\<exists>g. \<forall>i < m. combine_loop pts xs i 0 xs = returnR (num (g i))"
  proof -
    let ?f = "\<lambda>i j. byte_elt (the (map_of pts (num j)) ! i)"
    have "combine_loop pts (map num ms) i (num 0) (map num ms) =
        returnR (num (0 + sum_list (map (\<lambda>j. ?f i j * basis (set ms) j 0) ms)))" if "i < m" for i
      using at that by (intro combine_loop_num [OF dist]) fastforce
    then have "\<forall>i < m. combine_loop pts xs i 0 xs = returnR (num (sum_list (map (\<lambda>j. ?f i j * basis (set ms) j 0) ms)))"
      by (simp add: xs)
    then show ?thesis by (rule exI [of _ "\<lambda>i. sum_list (map (\<lambda>j. ?f i j * basis (set ms) j 0) ms)"])
  qed
  then obtain g where g: "\<forall>i < m. combine_loop pts xs i 0 xs = returnR (num (g i))" by blast
  have "mapR (\<lambda>i. bindR (combine_loop pts xs i 0 xs) byte_append) [0..<m] = returnR (map (\<lambda>i. elt_byte (g i)) [0..<m])"
    using g by (intro mapR_return) (simp add: byte_append_num)
  then show ?thesis by (simp add: combine_points_def xs_def)
qed

text \<open>The multiplication loop does not return on a negative multiplier.\<close>

lemma gf_mul_loop_nonneg: "gf_mul_loop out a b = Some y \<Longrightarrow> 0 \<le> b"
proof (induction rule: gf_mul_loop.raw_induct [rotated 1, consumes 1, case_names step])
  case (step loop out a b y)
  show ?case
  proof (cases "b = 0")
    case False
    with step(2) have "0 \<le> drop_bit 1 b" by (auto simp: Let_def split: if_splits dest: step(1))
    then show ?thesis by simp
  qed simp
qed

lemma gf_mul_negative: "b < 0 \<Longrightarrow> gf_mul a b = None"
  using gf_mul_loop_nonneg [of 0 a b] by (cases "gf_mul_loop 0 a b") (auto simp: gf_mul_def)

lemma gf_inv_negative: "a < 0 \<Longrightarrow> gf_inv a = None"
  using gf_pow_loop.simps(2) [of 253 1 a] gf_mul_negative [of a 1]
  by (simp add: gf_inv_def gf_pow_def del: gf_pow_loop.simps)

section \<open>Secrecy of too few shares\<close>

lemma share_text_inj: "0 \<le> x \<Longrightarrow> x < 256 \<Longrightarrow> share_text x ys = share_text x zs \<longleftrightarrow> ys = zs"
  by (metis Inr_inject parse_share_text(2) prod.inject)

lemma elt_byte_inj [simp]: "elt_byte a = elt_byte b \<longleftrightarrow> a = b"
proof
  assume "elt_byte a = elt_byte b"
  then have "byte_elt (elt_byte a) = byte_elt (elt_byte b)" by (rule arg_cong)
  then show "a = b" by simp
qed simp

lemma elt_inj: "0 \<le> x \<Longrightarrow> x < 256 \<Longrightarrow> 0 \<le> y \<Longrightarrow> y < 256 \<Longrightarrow> elt x = elt y \<longleftrightarrow> x = y"
  by (metis num_elt)

text \<open>Given values at \<open>k - 1\<close> non-zero points fit every secret byte with exactly one polynomial.\<close>

lemma byte_coefficients_unique:
  assumes X: "finite X" "\<forall>x \<in> X. 0 < x \<and> x < 256"
  shows "\<exists>!cs. length cs = card X \<and> (\<forall>c \<in> set cs. 0 \<le> c \<and> c < 256) \<and>
    (\<forall>x \<in> X. peval (byte_poly b cs) (elt x) = v x)"
proof -
  let ?A = "insert 0 (elt ` X)"
  have inj: "inj_on elt X" using X(2) by (intro inj_onI) (metis elt_inj less_le)
  have zero: "0 \<notin> elt ` X" using X(2) by (metis image_iff less_le num_0(1) num_elt)
  have card: "card ?A = Suc (card X)" using X(1) zero inj by (simp add: card_image)
  let ?f = "\<lambda>a. if a = 0 then byte_elt b else v (num a)"
  have "\<exists>!ds. length ds = Suc (card X) \<and> (\<forall>a \<in> ?A. peval ds a = ?f a)"
    using interpolation_unique [of ?A ?f] X(1) card by simp
  moreover have fv: "?f (elt x) = v x" if "x \<in> X" for x
    using that X(2) zero by (auto simp: num_elt)
  ultimately have ex1: "\<exists>!ds. length ds = Suc (card X) \<and> peval ds 0 = byte_elt b \<and>
      (\<forall>x \<in> X. peval ds (elt x) = v x)" by simp
  then obtain ds where ds: "length ds = Suc (card X)" "peval ds 0 = byte_elt b" "\<forall>x \<in> X. peval ds (elt x) = v x"
    by blast
  then obtain es where es: "ds = byte_elt b # es" by (cases ds) auto
  have "map elt (map num es) = es" by (simp add: comp_def)
  then have "length (map num es) = card X \<and> (\<forall>c \<in> set (map num es). 0 \<le> c \<and> c < 256) \<and>
      (\<forall>x \<in> X. peval (byte_poly b (map num es)) (elt x) = v x)"
    using ds es by (simp add: byte_poly_def)
  moreover have "cs = map num es"
    if cs: "length cs = card X \<and> (\<forall>c \<in> set cs. 0 \<le> c \<and> c < 256) \<and>
      (\<forall>x \<in> X. peval (byte_poly b cs) (elt x) = v x)" for cs
  proof -
    have "byte_poly b cs = ds" using ex1 ds cs by (auto simp: byte_poly_def)
    then have "map elt cs = es" by (simp add: byte_poly_def es)
    then have "map num (map elt cs) = map num es" by simp
    then show ?thesis using cs by (simp add: num_elt map_idI cong: map_cong)
  qed
  ultimately show ?thesis by blast
qed

lemma share_bytes_eq_iff:
  assumes "coeffs_ok k secret coeffs" and "coeffs_ok k secret' coeffs'" and "length secret' = length secret"
  shows "share_bytes secret' coeffs' x = share_bytes secret coeffs x \<longleftrightarrow>
    (\<forall>i < length secret. peval (byte_poly (secret' ! i) (coeffs' ! i)) (elt x) =
       peval (byte_poly (secret ! i) (coeffs ! i)) (elt x))"
  using assms length_share_bytes [OF assms(1)] length_share_bytes [OF assms(2)]
  by (auto simp: list_eq_iff_nth_eq share_bytes_nth [OF assms(1)] share_bytes_nth [OF assms(2)])

lemma list_unique:
  assumes "\<And>i. i < n \<Longrightarrow> \<exists>!x. P i x"
  shows "\<exists>!xs. length xs = n \<and> (\<forall>i < n. P i (xs ! i))"
proof -
  define xs where "xs = map (\<lambda>i. THE x. P i x) [0..<n]"
  have "P i (xs ! i)" if "i < n" for i
    using theI' [OF assms [OF that]] that by (simp add: xs_def)
  moreover have "ys = xs" if "length ys = n \<and> (\<forall>i < n. P i (ys ! i))" for ys
    using that the1_equality [OF assms] by (intro nth_equalityI) (auto simp: xs_def)
  ultimately show ?thesis by (intro ex1I [of _ xs]) (simp_all add: xs_def)
qed

section \<open>Properties\<close>

text \<open>
  C7: any \<open>k\<close> or more distinct shares made by \<open>split\<close>, in any order and with repetitions, are combined
  to the secret. The random source only has to stay in its range, as \<open>randbelow(256)\<close> does.
\<close>

theorem shamir_round_trip:
  assumes "\<And>i. 0 \<le> rnd i \<and> rnd i < 256" and "split_secret rnd secret k n = returnR shares"
    and "set lines \<subseteq> set shares" and "nat k \<le> card (set lines)"
  shows "combine_shares lines = returnR secret"
proof -
  have guards: "2 \<le> k" "k \<le> n" "n \<le> 255" "secret \<noteq> []"
    using assms(2) by (auto simp: split_secret_def split_with_def split: if_splits)
  define coeffs where "coeffs = draw_coeffs rnd secret k"
  have ok: "coeffs_ok k secret coeffs" unfolding coeffs_def by (rule draw_coeffs_ok [OF assms(1)])
  let ?sh = "share_bytes secret coeffs"
  have "shares = map (\<lambda>x. share_text x (?sh x)) [1..n]"
    using assms(2) split_with_ok [OF ok guards] by (simp add: split_secret_def coeffs_def)
  then have "\<forall>l \<in> set lines. \<exists>x \<in> {1..n}. l = share_text x (?sh x)" using assms(3) by auto
  then obtain idx where idx: "\<forall>l \<in> set lines. idx l \<in> {1..n} \<and> l = share_text (idx l) (?sh (idx l))"
    by metis
  define xs where "xs = map idx lines"
  have lines: "lines = map (\<lambda>x. share_text x (?sh x)) xs" using idx by (simp add: xs_def map_idI)
  have xs: "\<forall>x \<in> set xs. 1 \<le> x \<and> x \<le> n" using idx by (auto simp: xs_def)
  have card: "nat k \<le> card (set xs)"
    using assms(4) card_image_le [of "set xs" "\<lambda>x. share_text x (?sh x)"] by (simp add: lines)
  then have "xs \<noteq> []" using guards(1) by auto
  with read_shares_texts [of ?sh "[]" None "length secret" xs] obtain pts where
    pts: "read_shares [] None lines = Inr (pts, Some (length secret))" "points_of ?sh pts" "fst ` set pts = set xs"
    using xs guards length_share_bytes [OF ok] by (fastforce simp: lines points_of_def)
  have len: "length pts = card (set xs)"
    using pts(2,3) distinct_card [of "map fst pts"] by (simp add: points_of_def)
  then have "combine_points pts (length secret) = returnR secret"
    using card guards pts(3) xs by (intro combine_points_ok [OF ok _ _ pts(2)]) auto
  then show ?thesis using pts(1) len card guards by (simp add: combine_shares_def)
qed

text \<open>A secret of two bytes, shared two of three, and two of its shares.\<close>

definition sample_rnd :: "nat \<Rightarrow> int" where
  "sample_rnd i = (if i = 0 then 7 else 200)"

lemma sample_split:
  "split_secret sample_rnd ''hi'' 2 3 = returnR
     [''shamir-v1:1:6fa1'', ''shamir-v1:2:66e2'', ''shamir-v1:3:612a'']"
  by code_simp

theorem shamir_round_trip_witness:
  "combine_shares [''shamir-v1:3:612a'', ''shamir-v1:1:6fa1''] = returnR ''hi''"
  by (rule shamir_round_trip [OF _ sample_split]) (simp_all add: sample_rnd_def)

text \<open>
  C8: fewer than \<open>k\<close> shares say nothing about the secret: for every other secret of the same length
  there is exactly one choice of coefficients under which \<open>split\<close> makes the very same \<open>k - 1\<close> shares.
  With coefficients drawn uniformly, every secret is therefore equally likely given those shares.
\<close>

theorem shamir_secrecy:
  assumes "coeffs_ok k secret coeffs" and "X \<subseteq> {1..n}" and "n \<le> 255" and "int (card X) = k - 1"
    and "length secret' = length secret"
  shows "\<exists>!coeffs'. coeffs_ok k secret' coeffs' \<and>
    (\<forall>x \<in> X. share_line secret' coeffs' x = share_line secret coeffs x)"
proof -
  have X: "finite X" "\<forall>x \<in> X. 0 < x \<and> x < 256"
    using assms(2,3) finite_subset by auto
  let ?v = "\<lambda>i x. peval (byte_poly (secret ! i) (coeffs ! i)) (elt x)"
  let ?P = "\<lambda>i cs. length cs = card X \<and> (\<forall>c \<in> set cs. 0 \<le> c \<and> c < 256) \<and>
    (\<forall>x \<in> X. peval (byte_poly (secret' ! i) cs) (elt x) = ?v i x)"
  have shape: "coeffs_ok k secret' cs \<longleftrightarrow> length cs = length secret \<and>
      (\<forall>i < length secret. length (cs ! i) = card X \<and> (\<forall>c \<in> set (cs ! i). 0 \<le> c \<and> c < 256))" for cs
    using assms(4,5) unfolding coeffs_ok_def all_set_conv_all_nth [of cs] by auto
  have "coeffs_ok k secret' cs \<and> (\<forall>x \<in> X. share_line secret' cs x = share_line secret coeffs x) \<longleftrightarrow>
      length cs = length secret \<and> (\<forall>i < length secret. ?P i (cs ! i))" for cs
  proof (cases "coeffs_ok k secret' cs")
    case True
    have "share_line secret' cs x = share_line secret coeffs x \<longleftrightarrow>
        (\<forall>i < length secret. peval (byte_poly (secret' ! i) (cs ! i)) (elt x) = ?v i x)" if "x \<in> X" for x
      using that X(2) share_line_ok [OF True] share_line_ok [OF assms(1)]
        share_bytes_eq_iff [OF assms(1) True assms(5)] by (simp add: share_text_inj less_imp_le)
    then show ?thesis using True shape [of cs] by blast
  qed (use shape in blast)
  moreover have "\<exists>!cs. length cs = length secret \<and> (\<forall>i < length secret. ?P i (cs ! i))"
    by (intro list_unique byte_coefficients_unique [OF X])
  ultimately show ?thesis by simp
qed

theorem shamir_secrecy_witness:
  "\<exists>!coeffs'. coeffs_ok 2 ''no'' coeffs' \<and>
     (\<forall>x \<in> {3}. share_line ''no'' coeffs' x = share_line ''hi'' [[7], [200]] x)"
  by (rule shamir_secrecy [where n = 3]) (simp_all add: coeffs_ok_def)

text \<open>
  C21: \<open>split\<close> returns \<open>n\<close> shares with the indices 1 to \<open>n\<close> exactly when \<open>2 \<le> k \<le> n \<le> 255\<close> and the secret
  is not empty, and raises \<open>ValueError\<close> otherwise; its loops always end.
\<close>

theorem split_secret_total:
  assumes "\<And>i. 0 \<le> rnd i \<and> rnd i < 256"
  shows "if 2 \<le> k \<and> k \<le> n \<and> n \<le> 255 \<and> secret \<noteq> []
    then \<exists>shares. split_secret rnd secret k n = returnR shares \<and>
      map (map_sum id fst \<circ> parse_share) shares = map Inr [1..n]
    else \<exists>msg. split_secret rnd secret k n = Some (raise ValueError msg)"
proof (cases "2 \<le> k \<and> k \<le> n \<and> n \<le> 255 \<and> secret \<noteq> []")
  case True
  then have "split_secret rnd secret k n =
      returnR (map (\<lambda>x. share_text x (share_bytes secret (draw_coeffs rnd secret k) x)) [1..n])"
    unfolding split_secret_def by (intro split_with_ok [OF draw_coeffs_ok [OF assms]]) simp_all
  with True show ?thesis by (auto simp: parse_share_text)
next
  case False
  then show ?thesis by (auto simp: split_secret_def split_with_def)
qed

theorem split_secret_total_witness:
  "\<exists>shares. split_secret sample_rnd ''hi'' 2 3 = returnR shares \<and>
     map (map_sum id fst \<circ> parse_share) shares = map Inr [1..3]"
  using split_secret_total [of sample_rnd 2 3 "''hi''"] by (simp add: sample_rnd_def)

text \<open>
  C22: \<open>combine\<close> returns a secret of the common length for any two or more distinct, well-formed shares
  of one length whose indices are in the range of a byte: no loop runs forever, no inverse of zero is
  taken, no byte is out of range.
\<close>

theorem combine_returns:
  assumes "read_shares [] None lines = Inr (pts, Some len)" and "2 \<le> length pts"
    and "\<forall>x \<in> fst ` set pts. 0 \<le> x \<and> x < 256"
  shows "\<exists>s. combine_shares lines = returnR s \<and> length s = len"
  using combine_points_returns [of pts len] read_shares_lengths [OF assms(1)] assms
  by (auto simp: combine_shares_def)

theorem combine_returns_witness:
  "\<exists>s. combine_shares [''shamir-v1:0:00ff'', ''shamir-v1:255:0102''] = returnR s \<and> length s = 2"
  by (rule combine_returns [where pts = "[(255, [CHR 0x01, CHR 0x02]), (0, [CHR 0x00, CHR 0xFF])]"])
    (code_simp, simp_all)

text \<open>
  C23: the range of the index is not checked, and it matters: with one share of index 1 and one of
  index -1 \<open>combine\<close> never returns, because the multiplication loop shifts a negative number to the
  right forever.
\<close>

theorem combine_negative_index:
  assumes "ys \<noteq> []" and "length zs = length ys"
  shows "combine_shares [share_text 1 ys, ''shamir-v1:-1:'' @ bytes_hex zs] = None"
proof -
  have "combine_points [(-1, zs), (1, ys)] (length ys) = None"
  proof -
    obtain n where n: "length ys = Suc n" using assms(1) by (cases ys) auto
    have "coefficient_loop (- 1) 1 [- 1, 1] = None" by (simp add: gf_inv_negative)
    then show ?thesis by (simp add: combine_points_def n upt_conv_Cons del: upt_Suc)
  qed
  moreover have minus: "py_int ''-1'' = Some (- 1)" by code_simp
  have "read_shares [] None [share_text 1 ys, ''shamir-v1:-1:'' @ bytes_hex zs] =
      Inr ([(-1, zs), (1, ys)], Some (length ys))"
    using assms parse_share_fields [of "''-1''" "- 1" zs] parse_share_text [of 1 ys] minus
    by (simp add: Let_def put_point_def) (simp add: share_text_def)
  ultimately show ?thesis by (simp add: combine_shares_def)
qed

theorem combine_negative_index_witness:
  "combine_shares [''shamir-v1:1:00'', ''shamir-v1:-1:00''] = None"
proof -
  have "share_text 1 [CHR 0x00] = ''shamir-v1:1:00''" "bytes_hex [CHR 0x00] = ''00''" by code_simp+
  with combine_negative_index [of "[CHR 0x00]" "[CHR 0x00]"] show ?thesis by simp
qed

end
