(* ===== verification/Files.thy ===== *)
theory Files
  imports Prelude
begin

text \<open>
  Programs over one directory of a POSIX file system, for the modules that keep durable records
  (\<open>system/grok-proxy/grok_ms/runtime.py\<close> and \<open>ios_registry.py\<close>). A program is a tree of system
  calls, each followed by what the code does with its answer. A run takes one choice per call: the
  call proceeds, with a number that settles what the kernel is free to choose (how many bytes one
  \<open>read\<close> or \<open>write\<close> moves, the next random token), or it fails with an \<open>OSError\<close> and no effect.
  A run whose choices end early is a process that died at that point, with none of its clean-up.

  The directory also keeps what a power failure may leave behind: the contents a file is known to
  have on disk (\<open>in_synced\<close>), and every version of the directory since its last \<open>fsync\<close>
  (\<open>dr_views\<close>), any of which may be the one on disk. File descriptors are the inode numbers; closing
  one changes no file and is left out.
\<close>

section \<open>The directory\<close>

datatype file_kind = RegularFile | DirectoryFile | SymbolicLink | SpecialFile

record inode =
  in_kind :: file_kind
  in_uid :: nat
  in_mode :: nat
  in_data :: string
  in_synced :: bool
  in_links_elsewhere :: nat

type_synonym entries = "(string \<times> nat) list"

record dir =
  dr_present :: bool
  dr_kind :: file_kind
  dr_uid :: nat
  dr_mode :: nat
  dr_entries :: entries
  dr_inode :: "nat \<Rightarrow> inode"
  dr_next :: nat
  dr_views :: "entries list"
  dr_getuid :: nat
  dr_umask :: nat

record stat =
  st_kind :: file_kind
  st_uid :: nat
  st_mode :: nat
  st_nlink :: nat
  st_size :: nat
  st_ino :: nat

abbreviation look :: "dir \<Rightarrow> string \<Rightarrow> nat option" where
  "look s n \<equiv> map_of (dr_entries s) n"

definition remove_entry :: "string \<Rightarrow> entries \<Rightarrow> entries" where
  "remove_entry n es = filter (\<lambda>e. fst e \<noteq> n) es"

definition put_entry :: "string \<Rightarrow> nat \<Rightarrow> entries \<Rightarrow> entries" where
  "put_entry n i es = (n, i) # remove_entry n es"

text \<open>A change of the entries leaves the previous version as one that may be on disk.\<close>

definition set_entries :: "dir \<Rightarrow> entries \<Rightarrow> dir" where
  "set_entries s es = s\<lparr>dr_entries := es, dr_views := dr_entries s # dr_views s\<rparr>"

definition stat_of :: "dir \<Rightarrow> nat \<Rightarrow> stat" where
  "stat_of s i =
     (let f = dr_inode s i in
      \<lparr>st_kind = in_kind f, st_uid = in_uid f, st_mode = in_mode f,
       st_nlink = in_links_elsewhere f + length (filter (\<lambda>e. snd e = i) (dr_entries s)),
       st_size = length (in_data f), st_ino = i\<rparr>)"

definition stat_of_dir :: "dir \<Rightarrow> stat" where
  "stat_of_dir s = \<lparr>st_kind = dr_kind s, st_uid = dr_uid s, st_mode = dr_mode s, st_nlink = 2,
     st_size = 0, st_ino = 0\<rparr>"

section \<open>System calls\<close>

datatype syscall =
    Lstat_dir
  | Mkdir nat
  | Chmod_dir nat
  | Open_dir
  | Fstat_dir
  | Open_read string
  | Open_create string nat
  | Fstat nat
  | Stat_name string
  | Fchmod nat nat
  | Read nat nat nat
  | Write nat string
  | Fsync nat
  | Fsync_dir
  | Link string string
  | Rename string string
  | Unlink string
  | Listdir
  | Token

datatype response =
    R_unit
  | R_stat stat
  | R_fd nat
  | R_data string
  | R_count nat
  | R_names "string list"
  | R_token string
  | R_error exc_class

datatype choice = Proceed nat | Fail

text \<open>\<open>mode & ~umask\<close>\<close>

definition masked :: "nat \<Rightarrow> nat \<Rightarrow> nat" where
  "masked umask mode = mode - and mode umask"

text \<open>\<open>secrets.token_hex(12)\<close>: 24 hexadecimal digits.\<close>

definition hex_char :: "nat \<Rightarrow> char" where
  "hex_char d = (if d < 10 then char_of (48 + d) else char_of (87 + d))"

fun hex_digits :: "nat \<Rightarrow> nat \<Rightarrow> string" where
  "hex_digits 0 n = []"
| "hex_digits (Suc k) n = hex_char (n mod 16) # hex_digits k (n div 16)"

definition token_hex12 :: "nat \<Rightarrow> string" where
  "token_hex12 n = hex_digits 24 n"

fun perform :: "nat \<Rightarrow> syscall \<Rightarrow> dir \<Rightarrow> response \<times> dir" where
  "perform n Lstat_dir s =
     (if dr_present s then R_stat (stat_of_dir s) else R_error FileNotFoundError, s)"
| "perform n (Mkdir m) s =
     (if dr_present s then (R_error FileExistsError, s)
      else (R_unit, s\<lparr>dr_present := True, dr_kind := DirectoryFile, dr_uid := dr_getuid s,
        dr_mode := masked (dr_umask s) m, dr_entries := [], dr_views := [[]]\<rparr>))"
| "perform n (Chmod_dir m) s =
     (if dr_present s then (R_unit, s\<lparr>dr_mode := m\<rparr>) else (R_error FileNotFoundError, s))"
| "perform n Open_dir s =
     (if \<not> dr_present s then R_error FileNotFoundError
      else if dr_kind s \<noteq> DirectoryFile then R_error OSError else R_unit, s)"
| "perform n Fstat_dir s = (R_stat (stat_of_dir s), s)"
| "perform n (Open_read a) s =
     (case look s a of
        None \<Rightarrow> R_error FileNotFoundError
      | Some i \<Rightarrow> if in_kind (dr_inode s i) = SymbolicLink then R_error OSError else R_fd i, s)"
| "perform n (Open_create a m) s =
     (case look s a of
        Some i \<Rightarrow> (R_error FileExistsError, s)
      | None \<Rightarrow>
          let i = dr_next s;
              f = \<lparr>in_kind = RegularFile, in_uid = dr_getuid s, in_mode = masked (dr_umask s) m,
                in_data = [], in_synced = False, in_links_elsewhere = 0\<rparr>
          in (R_fd i, set_entries (s\<lparr>dr_inode := (dr_inode s)(i := f), dr_next := Suc i\<rparr>)
                (put_entry a i (dr_entries s))))"
| "perform n (Fstat i) s = (R_stat (stat_of s i), s)"
| "perform n (Stat_name a) s =
     (case look s a of None \<Rightarrow> R_error FileNotFoundError | Some i \<Rightarrow> R_stat (stat_of s i), s)"
| "perform n (Fchmod i m) s = (R_unit, s\<lparr>dr_inode := (dr_inode s)(i := (dr_inode s i)\<lparr>in_mode := m\<rparr>)\<rparr>)"
| "perform n (Read i off mx) s = (R_data (take (min mx (Suc n)) (drop off (in_data (dr_inode s i)))), s)"
| "perform n (Write i d) s =
     (let f = dr_inode s i; k = min n (length d)
      in (R_count k, s\<lparr>dr_inode := (dr_inode s)(i :=
            f\<lparr>in_data := in_data f @ take k d, in_synced := in_synced f \<and> k = 0\<rparr>)\<rparr>))"
| "perform n (Fsync i) s =
     (R_unit, s\<lparr>dr_inode := (dr_inode s)(i := (dr_inode s i)\<lparr>in_synced := True\<rparr>)\<rparr>)"
| "perform n Fsync_dir s = (R_unit, s\<lparr>dr_views := []\<rparr>)"
| "perform n (Link a b) s =
     (case look s a of
        None \<Rightarrow> (R_error FileNotFoundError, s)
      | Some i \<Rightarrow>
          if look s b \<noteq> None then (R_error FileExistsError, s)
          else (R_unit, set_entries s (put_entry b i (dr_entries s))))"
| "perform n (Rename a b) s =
     (case look s a of
        None \<Rightarrow> (R_error FileNotFoundError, s)
      | Some i \<Rightarrow>
          if look s b = Some i then (R_unit, s)
          else if \<exists>j \<in> set_option (look s b). in_kind (dr_inode s j) = DirectoryFile then (R_error OSError, s)
          else (R_unit, set_entries s (put_entry b i (remove_entry a (dr_entries s)))))"
| "perform n (Unlink a) s =
     (case look s a of
        None \<Rightarrow> (R_error FileNotFoundError, s)
      | Some i \<Rightarrow>
          if in_kind (dr_inode s i) = DirectoryFile then (R_error OSError, s)
          else (R_unit, set_entries s (remove_entry a (dr_entries s))))"
| "perform n Listdir s = (R_names (map fst (dr_entries s)), s)"
| "perform n Token s = (R_token (token_hex12 n), s)"

fun exec :: "choice \<Rightarrow> syscall \<Rightarrow> dir \<Rightarrow> response \<times> dir" where
  "exec (Proceed n) c s = perform n c s"
| "exec Fail c s = (R_error OSError, s)"

section \<open>Programs\<close>

datatype 'a prog = Done "'a result" | Call syscall "response \<Rightarrow> 'a prog"

text \<open>What follows when a program has ended, by value or exception: \<open>try\<close>, \<open>finally\<close>, sequencing.\<close>

primrec handleP :: "'a prog \<Rightarrow> ('a result \<Rightarrow> 'b prog) \<Rightarrow> 'b prog" where
  "handleP (Done r) h = h r"
| "handleP (Call c k) h = Call c (\<lambda>x. handleP (k x) h)"

abbreviation returnP :: "'a \<Rightarrow> 'a prog" where
  "returnP x \<equiv> Done (Inr x)"

abbreviation raiseP :: "exc_class \<Rightarrow> string \<Rightarrow> 'a prog" where
  "raiseP cls msg \<equiv> Done (raise cls msg)"

definition bindP :: "'a prog \<Rightarrow> ('a \<Rightarrow> 'b prog) \<Rightarrow> 'b prog" where
  "bindP p f = handleP p (\<lambda>r. case r of Inl e \<Rightarrow> Done (Inl e) | Inr x \<Rightarrow> f x)"

definition thenP :: "unit prog \<Rightarrow> 'b prog \<Rightarrow> 'b prog" where
  "thenP p q = bindP p (\<lambda>_. q)"

text \<open>\<open>try: p except <caught>: h\<close>, and \<open>try: p finally: q\<close>; an exception of \<open>q\<close> replaces the outcome.\<close>

definition catchP :: "'a prog \<Rightarrow> (exc_class \<Rightarrow> bool) \<Rightarrow> (exc \<Rightarrow> 'a prog) \<Rightarrow> 'a prog" where
  "catchP p caught h = handleP p (\<lambda>r. case r of
     Inl e \<Rightarrow> (if caught (exc_class e) then h e else Done (Inl e)) | Inr x \<Rightarrow> returnP x)"

definition finallyP :: "'a prog \<Rightarrow> unit prog \<Rightarrow> 'a prog" where
  "finallyP p q = handleP p (\<lambda>r. bindP q (\<lambda>_. Done r))"

text \<open>A pure check or computation of the code inside a program.\<close>

definition liftP :: "'a result \<Rightarrow> 'a prog" where
  "liftP r = Done r"

text \<open>One call whose answer is taken by \<open>f\<close>; an error of the kernel is the exception.\<close>

definition callP :: "syscall \<Rightarrow> (response \<Rightarrow> 'a result) \<Rightarrow> 'a prog" where
  "callP c f = Call c (\<lambda>x. Done (case x of R_error cls \<Rightarrow> raise cls [] | _ \<Rightarrow> f x))"

definition call_unit :: "syscall \<Rightarrow> unit prog" where
  "call_unit c = callP c (\<lambda>_. Inr ())"

fun the_stat :: "response \<Rightarrow> stat result" where
  "the_stat (R_stat st) = Inr st"
| "the_stat _ = raise TypeError []"

fun the_fd :: "response \<Rightarrow> nat result" where
  "the_fd (R_fd i) = Inr i"
| "the_fd _ = raise TypeError []"

fun the_data :: "response \<Rightarrow> string result" where
  "the_data (R_data d) = Inr d"
| "the_data _ = raise TypeError []"

fun the_count :: "response \<Rightarrow> nat result" where
  "the_count (R_count n) = Inr n"
| "the_count _ = raise TypeError []"

fun the_names :: "response \<Rightarrow> string list result" where
  "the_names (R_names ns) = Inr ns"
| "the_names _ = raise TypeError []"

fun the_token :: "response \<Rightarrow> string result" where
  "the_token (R_token t) = Inr t"
| "the_token _ = raise TypeError []"

section \<open>Runs\<close>

fun run :: "choice list \<Rightarrow> 'a prog \<Rightarrow> dir \<Rightarrow> 'a prog \<times> dir" where
  "run [] p s = (p, s)"
| "run (ch # cs) (Done r) s = (Done r, s)"
| "run (ch # cs) (Call c k) s = (case exec ch c s of (x, s') \<Rightarrow> run cs (k x) s')"

text \<open>The outcome of a run that came to its end.\<close>

primrec outcome :: "'a prog \<Rightarrow> 'a result option" where
  "outcome (Done r) = Some r"
| "outcome (Call c k) = None"

lemma run_Done [simp]: "run cs (Done r) s = (Done r, s)"
  by (cases cs) simp_all

text \<open>Every program ends when it is given enough choices.\<close>

lemma run_ends: "\<exists>n. \<forall>m \<ge> n. \<exists>r s'. run (map f [0..<m]) p s = (Done r, s')"
proof (induction p arbitrary: s f)
  case (Call c k)
  obtain x s1 where x: "exec (f 0) c s = (x, s1)" by (cases "exec (f 0) c s")
  have "k x \<in> range k" by blast
  from Call.IH [OF this, of "\<lambda>i. f (Suc i)" s1] obtain n where
    n: "\<forall>m \<ge> n. \<exists>r s'. run (map (\<lambda>i. f (Suc i)) [0..<m]) (k x) s1 = (Done r, s')" by blast
  have "\<exists>r s'. run (map f [0..<m]) (Call c k) s = (Done r, s')" if "m \<ge> Suc n" for m
  proof -
    from that obtain m' where m: "m = Suc m'" "n \<le> m'" by (cases m) auto
    have "map f [0..<m] = f 0 # map (\<lambda>i. f (Suc i)) [0..<m']"
      by (simp add: m(1) upt_conv_Cons map_Suc_upt [symmetric] comp_def del: upt_Suc)
    with n m(2) x show ?thesis by simp
  qed
  then show ?case by blast
qed simp

text \<open>
  \<open>always C I p Q s\<close>: whatever choices of \<open>C\<close> the run takes, every state on the way satisfies \<open>I\<close>
  (where the process may die), and when it ends \<open>Q\<close> holds of its outcome and state.
\<close>

primrec always :: "choice set \<Rightarrow> (dir \<Rightarrow> bool) \<Rightarrow> 'a prog \<Rightarrow> ('a result \<Rightarrow> dir \<Rightarrow> bool) \<Rightarrow> dir \<Rightarrow> bool" where
  "always C I (Done r) Q = (\<lambda>s. I s \<and> Q r s)"
| "always C I (Call c k) Q = (\<lambda>s. I s \<and>
     (\<forall>ch \<in> C. always C I (k (fst (exec ch c s))) Q (snd (exec ch c s))))"

lemma always_run:
  "always C I p Q s \<Longrightarrow> set cs \<subseteq> C \<Longrightarrow> run cs p s = (p', s') \<Longrightarrow>
   I s' \<and> (\<forall>r. p' = Done r \<longrightarrow> Q r s')"
proof (induction cs arbitrary: p s)
  case Nil
  then show ?case by (cases p) auto
next
  case (Cons ch cs)
  show ?case
  proof (cases p)
    case (Done r)
    with Cons.prems show ?thesis by auto
  next
    case (Call c k)
    with Cons.prems have "always C I (k (fst (exec ch c s))) Q (snd (exec ch c s))" by auto
    from Cons.IH [OF this] Cons.prems(2,3) Call show ?thesis by (simp add: case_prod_unfold)
  qed
qed

text \<open>The converse, so that \<open>always\<close> says exactly what runs show.\<close>

lemma always_iff_run:
  "always C I p Q s \<longleftrightarrow>
   (\<forall>cs p' s'. set cs \<subseteq> C \<longrightarrow> run cs p s = (p', s') \<longrightarrow> I s' \<and> (\<forall>r. p' = Done r \<longrightarrow> Q r s'))"
proof
  assume all: "\<forall>cs p' s'. set cs \<subseteq> C \<longrightarrow> run cs p s = (p', s') \<longrightarrow> I s' \<and> (\<forall>r. p' = Done r \<longrightarrow> Q r s')"
  then show "always C I p Q s"
  proof (induction p arbitrary: s)
    case (Done r)
    from Done [rule_format, of "[]"] show ?case by simp
  next
    case (Call c k)
    have "always C I (k (fst (exec ch c s))) Q (snd (exec ch c s))" if "ch \<in> C" for ch
    proof (rule Call.IH [OF rangeI], intro allI impI)
      fix cs p' s'
      assume "set cs \<subseteq> C" and "run cs (k (fst (exec ch c s))) (snd (exec ch c s)) = (p', s')"
      then show "I s' \<and> (\<forall>r. p' = Done r \<longrightarrow> Q r s')"
        using Call.prems [rule_format, of "ch # cs" p' s'] that by (simp add: case_prod_unfold)
    qed
    moreover have "I s" using Call.prems [rule_format, of "[]"] by simp
    ultimately show ?case by simp
  qed
qed (use always_run in blast)

section \<open>Rules\<close>

lemma always_inv: "always C I p Q s \<Longrightarrow> I s"
  by (cases p) simp_all

lemma always_mono:
  "always C I p Q s \<Longrightarrow> (\<And>s. I s \<Longrightarrow> I' s) \<Longrightarrow> (\<And>r s. I s \<Longrightarrow> Q r s \<Longrightarrow> Q' r s) \<Longrightarrow> always C I' p Q' s"
  by (induction p arbitrary: s) auto

lemma always_subset: "always C I p Q s \<Longrightarrow> C' \<subseteq> C \<Longrightarrow> always C' I p Q s"
  by (induction p arbitrary: s) auto

lemma always_handleP: "always C I (handleP p h) Q s \<longleftrightarrow> always C I p (\<lambda>r. always C I (h r) Q) s"
proof (induction p arbitrary: s)
  case (Done r)
  then show ?case using always_inv by auto
qed simp

lemma always_bindI:
  assumes "always C I p R s"
    and "\<And>x s'. I s' \<Longrightarrow> R (Inr x) s' \<Longrightarrow> always C I (f x) Q s'"
    and "\<And>e s'. I s' \<Longrightarrow> R (Inl e) s' \<Longrightarrow> Q (Inl e) s'"
  shows "always C I (bindP p f) Q s"
  unfolding bindP_def always_handleP
proof (rule always_mono [OF assms(1)])
  fix r s' assume r: "I s'" "R r s'"
  then show "always C I (case r of Inl e \<Rightarrow> Done (Inl e) | Inr x \<Rightarrow> f x) Q s'"
    using assms(2,3) by (cases r) auto
qed

lemma always_thenI:
  assumes "always C I p R s"
    and "\<And>s'. I s' \<Longrightarrow> R (Inr ()) s' \<Longrightarrow> always C I q Q s'"
    and "\<And>e s'. I s' \<Longrightarrow> R (Inl e) s' \<Longrightarrow> Q (Inl e) s'"
  shows "always C I (thenP p q) Q s"
  unfolding thenP_def by (rule always_bindI [OF assms(1)]) (use assms(2,3) in auto)

lemma always_catchI:
  assumes "always C I p R s"
    and "\<And>x s'. I s' \<Longrightarrow> R (Inr x) s' \<Longrightarrow> Q (Inr x) s'"
    and "\<And>e s'. I s' \<Longrightarrow> R (Inl e) s' \<Longrightarrow> caught (exc_class e) \<Longrightarrow> always C I (h e) Q s'"
    and "\<And>e s'. I s' \<Longrightarrow> R (Inl e) s' \<Longrightarrow> \<not> caught (exc_class e) \<Longrightarrow> Q (Inl e) s'"
  shows "always C I (catchP p caught h) Q s"
  unfolding catchP_def always_handleP
proof (rule always_mono [OF assms(1)])
  fix r s' assume r: "I s'" "R r s'"
  then show "always C I (case r of Inl e \<Rightarrow> if caught (exc_class e) then h e else Done (Inl e)
      | Inr x \<Rightarrow> returnP x) Q s'"
    using assms(2-4) by (cases r) auto
qed

lemma always_finallyI:
  assumes "always C I p R s"
    and "\<And>r s'. I s' \<Longrightarrow> R r s' \<Longrightarrow> always C I q (\<lambda>r' s''. case r' of Inl e \<Rightarrow> Q (Inl e) s'' | Inr _ \<Rightarrow> Q r s'') s'"
  shows "always C I (finallyP p q) Q s"
  unfolding finallyP_def always_handleP
proof (rule always_mono [OF assms(1)])
  fix r s' assume r: "I s'" "R r s'"
  show "always C I (bindP q (\<lambda>_. Done r)) Q s'"
    using assms(2) [OF r] by (rule always_bindI) auto
qed

lemma always_callP:
  "always C I (callP c f) Q s \<longleftrightarrow> I s \<and> (\<forall>ch \<in> C. case exec ch c s of (x, s') \<Rightarrow>
     I s' \<and> Q (case x of R_error cls \<Rightarrow> raise cls [] | _ \<Rightarrow> f x) s')"
  by (simp add: callP_def case_prod_unfold)

text \<open>All choices, and the choices of a run in which the kernel works and makes progress.\<close>

abbreviation any_choice :: "choice set" where
  "any_choice \<equiv> UNIV"

definition working :: "choice set" where
  "working = {Proceed (Suc n) | n. True}"

lemma all_working [simp]: "(\<forall>ch \<in> working. P ch) \<longleftrightarrow> (\<forall>n. P (Proceed (Suc n)))"
  by (auto simp: working_def)

lemma all_choices [simp]: "(\<forall>ch \<in> any_choice. P ch) \<longleftrightarrow> P Fail \<and> (\<forall>n. P (Proceed n))"
  by (auto, metis choice.exhaust)

text \<open>With enough choices a run of the program ends in an outcome that \<open>always\<close> promises.\<close>

lemma always_total:
  assumes "always C I p Q s" and "range f \<subseteq> C"
  shows "\<exists>n. \<forall>m \<ge> n. \<exists>r s'. run (map f [0..<m]) p s = (Done r, s') \<and> Q r s'"
proof -
  obtain n where n: "\<forall>m \<ge> n. \<exists>r s'. run (map f [0..<m]) p s = (Done r, s')" using run_ends by blast
  have "set (map f [0..<m]) \<subseteq> C" for m using assms(2) by auto
  with n assms(1) show ?thesis by (metis always_run)
qed

section \<open>Entries\<close>

lemma look_remove [simp]: "map_of (remove_entry n es) m = (if m = n then None else map_of es m)"
  by (induction es) (auto simp: remove_entry_def)

lemma look_put [simp]: "map_of (put_entry n i es) m = (if m = n then Some i else map_of es m)"
  by (simp add: put_entry_def)

lemma remove_put [simp]: "map_of es n = None \<Longrightarrow> remove_entry n (put_entry n i es) = es"
proof -
  assume "map_of es n = None"
  then have "n \<notin> fst ` set es" by (simp add: map_of_eq_None_iff)
  then have "\<forall>e \<in> set es. fst e \<noteq> n" by auto
  then show ?thesis by (simp add: put_entry_def remove_entry_def)
qed

lemma set_entries_simps [simp]:
  "dr_entries (set_entries s es) = es" "dr_views (set_entries s es) = dr_entries s # dr_views s"
  "dr_inode (set_entries s es) = dr_inode s" "dr_next (set_entries s es) = dr_next s"
  "dr_present (set_entries s es) = dr_present s" "dr_kind (set_entries s es) = dr_kind s"
  "dr_uid (set_entries s es) = dr_uid s" "dr_mode (set_entries s es) = dr_mode s"
  "dr_getuid (set_entries s es) = dr_getuid s" "dr_umask (set_entries s es) = dr_umask s"
  by (simp_all add: set_entries_def)

text \<open>
  One rule per call: it fails with some error and changes nothing, or it does what it says. Rules
  for calls that only look; the others follow the states of their programs.
\<close>

named_theorems calls "what a call may answer, whatever the choices"

lemma always_call_exact:
  assumes "I s" and "Q (raise OSError []) s"
    and "\<And>n x s'. Proceed n \<in> C \<Longrightarrow> perform n c s = (x, s') \<Longrightarrow>
      I s' \<and> Q (case x of R_error cls \<Rightarrow> raise cls [] | _ \<Rightarrow> f x) s'"
  shows "always C I (callP c f) Q s"
  unfolding always_callP
proof (intro conjI ballI)
  fix ch assume "ch \<in> C"
  then show "case exec ch c s of (x, s') \<Rightarrow> I s' \<and> Q (case x of R_error cls \<Rightarrow> raise cls [] | _ \<Rightarrow> f x) s'"
    using assms by (cases ch) (auto split: prod.split)
qed fact

lemma always_call_cases:
  assumes "I s" and "\<And>cls. Q (raise cls []) s"
    and "\<And>n x s'. Proceed n \<in> C \<Longrightarrow> perform n c s = (x, s') \<Longrightarrow>
      I s' \<and> Q (case x of R_error cls \<Rightarrow> raise cls [] | _ \<Rightarrow> f x) s'"
  shows "always C I (callP c f) Q s"
  using assms by (intro always_call_exact) auto

lemma call_Lstat_dir [calls]:
  "I s \<Longrightarrow> (\<And>cls. Q (raise cls []) s) \<Longrightarrow> (dr_present s \<Longrightarrow> Q (Inr (stat_of_dir s)) s) \<Longrightarrow>
   always C I (callP Lstat_dir the_stat) Q s"
  by (rule always_call_cases) (auto split: if_splits)

lemma call_Open_dir [calls]:
  "I s \<Longrightarrow> (\<And>cls. Q (raise cls []) s) \<Longrightarrow> (dr_kind s = DirectoryFile \<Longrightarrow> Q (Inr ()) s) \<Longrightarrow>
   always C I (call_unit Open_dir) Q s"
  unfolding call_unit_def by (rule always_call_cases) (auto split: if_splits)

lemma call_Fstat_dir [calls]:
  "I s \<Longrightarrow> (\<And>cls. Q (raise cls []) s) \<Longrightarrow> Q (Inr (stat_of_dir s)) s \<Longrightarrow>
   always C I (callP Fstat_dir the_stat) Q s"
  by (rule always_call_cases) auto

lemma call_Open_read [calls]:
  "I s \<Longrightarrow> (\<And>cls. Q (raise cls []) s) \<Longrightarrow>
   (\<And>i. look s a = Some i \<Longrightarrow> in_kind (dr_inode s i) \<noteq> SymbolicLink \<Longrightarrow> Q (Inr i) s) \<Longrightarrow>
   always C I (callP (Open_read a) the_fd) Q s"
  by (rule always_call_cases) (auto split: option.splits if_splits)

lemma call_Fstat [calls]:
  "I s \<Longrightarrow> (\<And>cls. Q (raise cls []) s) \<Longrightarrow> Q (Inr (stat_of s i)) s \<Longrightarrow>
   always C I (callP (Fstat i) the_stat) Q s"
  by (rule always_call_cases) auto

lemma call_Stat_name [calls]:
  "I s \<Longrightarrow> (\<And>cls. Q (raise cls []) s) \<Longrightarrow> (\<And>i. look s a = Some i \<Longrightarrow> Q (Inr (stat_of s i)) s) \<Longrightarrow>
   always C I (callP (Stat_name a) the_stat) Q s"
  by (rule always_call_cases) (auto split: option.splits)

lemma call_Listdir [calls]:
  "I s \<Longrightarrow> (\<And>cls. Q (raise cls []) s) \<Longrightarrow> Q (Inr (map fst (dr_entries s))) s \<Longrightarrow>
   always C I (callP Listdir the_names) Q s"
  by (rule always_call_cases) auto

lemma call_Token [calls]:
  "I s \<Longrightarrow> (\<And>cls. Q (raise cls []) s) \<Longrightarrow> (\<And>n. Q (Inr (token_hex12 n)) s) \<Longrightarrow>
   always C I (callP Token the_token) Q s"
  by (rule always_call_cases) auto

lemma call_Read [calls]:
  "I s \<Longrightarrow> (\<And>cls. Q (raise cls []) s) \<Longrightarrow>
   (\<And>n. Q (Inr (take (min mx (Suc n)) (drop off (in_data (dr_inode s i))))) s) \<Longrightarrow>
   always C I (callP (Read i off mx) the_data) Q s"
  by (rule always_call_cases) auto

text \<open>Calls that change the directory.\<close>

lemma call_Unlink [calls]:
  "I s \<Longrightarrow> (\<And>cls. Q (raise cls []) s) \<Longrightarrow>
   (\<And>i. look s a = Some i \<Longrightarrow> I (set_entries s (remove_entry a (dr_entries s))) \<and>
      Q (Inr ()) (set_entries s (remove_entry a (dr_entries s)))) \<Longrightarrow>
   always C I (call_unit (Unlink a)) Q s"
  unfolding call_unit_def by (rule always_call_cases) (auto split: option.splits if_splits)

lemma call_Fsync_dir [calls]:
  "I s \<Longrightarrow> (\<And>cls. Q (raise cls []) s) \<Longrightarrow> I (s\<lparr>dr_views := []\<rparr>) \<Longrightarrow> Q (Inr ()) (s\<lparr>dr_views := []\<rparr>) \<Longrightarrow>
   always C I (call_unit Fsync_dir) Q s"
  unfolding call_unit_def by (rule always_call_cases) auto

lemma call_Link [calls]:
  "I s \<Longrightarrow> (\<And>cls. cls \<noteq> FileExistsError \<Longrightarrow> Q (raise cls []) s) \<Longrightarrow>
   (look s b \<noteq> None \<Longrightarrow> Q (raise FileExistsError []) s) \<Longrightarrow>
   (\<And>i. look s a = Some i \<Longrightarrow> look s b = None \<Longrightarrow> I (set_entries s (put_entry b i (dr_entries s))) \<and>
      Q (Inr ()) (set_entries s (put_entry b i (dr_entries s)))) \<Longrightarrow>
   always C I (call_unit (Link a b)) Q s"
  unfolding call_unit_def always_callP
proof (intro conjI ballI)
  fix ch
  assume "I s" and err: "\<And>cls. cls \<noteq> FileExistsError \<Longrightarrow> Q (raise cls []) s"
    and "look s b \<noteq> None \<Longrightarrow> Q (raise FileExistsError []) s"
    and "\<And>i. look s a = Some i \<Longrightarrow> look s b = None \<Longrightarrow> I (set_entries s (put_entry b i (dr_entries s))) \<and>
      Q (Inr ()) (set_entries s (put_entry b i (dr_entries s)))"
  then show "case exec ch (Link a b) s of (x, s') \<Rightarrow> I s' \<and> Q (case x of R_error cls \<Rightarrow> raise cls [] | _ \<Rightarrow> Inr ()) s'"
    using err [of OSError] err [of FileNotFoundError]
    by (cases ch; cases "look s a") auto
qed

lemma call_Rename [calls]:
  "I s \<Longrightarrow> (\<And>cls. Q (raise cls []) s) \<Longrightarrow>
   (\<And>i. look s a = Some i \<Longrightarrow> look s b = Some i \<Longrightarrow> Q (Inr ()) s) \<Longrightarrow>
   (\<And>i. look s a = Some i \<Longrightarrow> look s b \<noteq> Some i \<Longrightarrow>
      I (set_entries s (put_entry b i (remove_entry a (dr_entries s)))) \<and>
      Q (Inr ()) (set_entries s (put_entry b i (remove_entry a (dr_entries s))))) \<Longrightarrow>
   always C I (call_unit (Rename a b)) Q s"
  unfolding call_unit_def by (rule always_call_cases) (auto split: option.splits if_splits)

text \<open>The sequencing operations as equations.\<close>

named_theorems progs "what always means for the sequencing operations"

lemma always_post_cong:
  assumes "\<And>r s. I s \<Longrightarrow> Q r s \<longleftrightarrow> Q' r s"
  shows "always C I p Q s \<longleftrightarrow> always C I p Q' s"
  using assms by (auto elim!: always_mono)

lemma always_bindP [progs]:
  "always C I (bindP p f) Q s \<longleftrightarrow> always C I p (\<lambda>r s'. case r of
     Inl e \<Rightarrow> Q (Inl e) s' | Inr x \<Rightarrow> always C I (f x) Q s') s"
  unfolding bindP_def always_handleP by (rule always_post_cong) (auto split: sum.split)

lemma always_thenP [progs]:
  "always C I (thenP p q) Q s \<longleftrightarrow> always C I p (\<lambda>r s'. case r of
     Inl e \<Rightarrow> Q (Inl e) s' | Inr _ \<Rightarrow> always C I q Q s') s"
  unfolding thenP_def always_bindP ..

lemma always_catchP [progs]:
  "always C I (catchP p caught h) Q s \<longleftrightarrow> always C I p (\<lambda>r s'. case r of
     Inl e \<Rightarrow> if caught (exc_class e) then always C I (h e) Q s' else Q (Inl e) s' | Inr x \<Rightarrow> Q (Inr x) s') s"
  unfolding catchP_def always_handleP by (rule always_post_cong) (auto split: sum.split)

lemma always_finallyP [progs]:
  "always C I (finallyP p q) Q s \<longleftrightarrow> always C I p (\<lambda>r s'. always C I q (\<lambda>r' s''. case r' of
     Inl e \<Rightarrow> Q (Inl e) s'' | Inr _ \<Rightarrow> Q r s'') s') s"
  unfolding finallyP_def always_handleP always_bindP
  by (intro always_post_cong) (auto split: sum.split intro!: always_post_cong [THEN iffD1])

lemma always_liftP [progs]: "always C I (liftP r) Q s \<longleftrightarrow> I s \<and> Q r s"
  by (simp add: liftP_def)

end
