(* ===== verification/Durable.thy ===== *)
theory Durable
  imports Files Codec
begin

text \<open>
  The durable-record primitives of \<open>system/grok-proxy/grok_ms/runtime.py\<close>: secure directories,
  staged writes, creation by hard link, replacement by rename, removal, bounded reading and the
  clean-up of staged files, as programs of \<open>Files\<close>. \<open>me\<close> is \<open>os.getuid()\<close>.

  The specifications hold for every run: any call may fail, and the process or the machine may stop
  at any point.
\<close>

section \<open>Directories\<close>

definition is_missing :: "exc_class \<Rightarrow> bool" where
  "is_missing c \<longleftrightarrow> c = FileNotFoundError"

text \<open>\<open>Path.is_symlink\<close>\<close>

definition is_symlink :: "bool prog" where
  "is_symlink = catchP (bindP (callP Lstat_dir the_stat) (\<lambda>st. returnP (st_kind st = SymbolicLink)))
     is_missing (\<lambda>_. returnP False)"

definition validate_secure_directory :: "nat \<Rightarrow> nat \<Rightarrow> unit prog" where
  "validate_secure_directory me mode =
     bindP (catchP (callP Lstat_dir the_stat) is_missing
       (\<lambda>_. raiseP RuntimeSecurityError ''runtime directory does not exist'')) (\<lambda>info.
     bindP is_symlink (\<lambda>link. liftP (seqE [
       raise_if (link \<or> st_kind info \<noteq> DirectoryFile) RuntimeSecurityError
         ''runtime path is not a real directory'',
       raise_if (st_uid info \<noteq> me) RuntimeSecurityError ''runtime directory has a foreign owner'',
       raise_if (st_mode info \<noteq> mode) RuntimeSecurityError ''runtime directory mode''])))"

definition create_secure_directory :: "nat \<Rightarrow> nat \<Rightarrow> unit prog" where
  "create_secure_directory me mode =
     thenP (catchP (thenP (call_unit (Mkdir mode)) (call_unit (Chmod_dir mode)))
              (\<lambda>c. c = FileExistsError) (\<lambda>_. returnP ()))
       (validate_secure_directory me mode)"

definition PRIVATE_DIR :: nat where "PRIVATE_DIR = 448"
definition PRIVATE_FILE :: nat where "PRIVATE_FILE = 384"

definition open_secure_directory :: "nat \<Rightarrow> unit prog" where
  "open_secure_directory me =
     thenP (validate_secure_directory me PRIVATE_DIR)
    (thenP (call_unit Open_dir)
    (bindP (callP Fstat_dir the_stat) (\<lambda>info. liftP (seqE [
       raise_if (st_kind info \<noteq> DirectoryFile \<or> st_uid info \<noteq> me) RuntimeSecurityError
         ''runtime directory changed during open'',
       raise_if (st_mode info \<noteq> PRIVATE_DIR) RuntimeSecurityError
         ''runtime directory mode changed during open'']))))"

section \<open>Staging\<close>

text \<open>
  The loop of \<open>_write_all\<close>: every call that moves something shortens the rest, so the length of the
  data is enough fuel.
\<close>

fun write_loop :: "nat \<Rightarrow> nat \<Rightarrow> string \<Rightarrow> unit prog" where
  "write_loop k i [] = returnP ()"
| "write_loop 0 i data = raiseP OutOfFuel []"
| "write_loop (Suc k) i data =
     bindP (callP (Write i data) the_count) (\<lambda>written.
       if written = 0 then raiseP OSError ''short write to durable runtime record''
       else write_loop k i (drop written data))"

definition write_all :: "nat \<Rightarrow> string \<Rightarrow> unit prog" where
  "write_all i data = write_loop (length data) i data"

definition unlink_quiet :: "string \<Rightarrow> unit prog" where
  "unlink_quiet name = catchP (call_unit (Unlink name)) is_missing (\<lambda>_. returnP ())"

definition temp_name :: "string \<Rightarrow> string \<Rightarrow> string" where
  "temp_name filename token = ''.'' @ filename @ ''.'' @ token @ ''.tmp''"

definition record_bytes :: "json \<Rightarrow> string" where
  "record_bytes payload = canonical_json_bytes payload @ [CHR 0x0A]"

definition stage_bytes :: "string \<Rightarrow> string \<Rightarrow> string prog" where
  "stage_bytes filename data =
     bindP (callP Token the_token) (\<lambda>token.
       let temporary = temp_name filename token in
       bindP (callP (Open_create temporary PRIVATE_FILE) the_fd) (\<lambda>i.
       thenP (catchP
           (thenP (call_unit (Fchmod i PRIVATE_FILE)) (thenP (write_all i data) (call_unit (Fsync i))))
           (\<lambda>_. True)
           (\<lambda>e. thenP (unlink_quiet temporary) (Done (Inl e))))
         (returnP temporary)))"

definition stage_json :: "string \<Rightarrow> json \<Rightarrow> string prog" where
  "stage_json filename payload =
     thenP (liftP (raise_if (length (record_bytes payload) > DEFAULT_MAX_PACKET_BYTES) ValueError
         ''durable runtime record exceeds the bounded record size''))
       (stage_bytes filename (record_bytes payload))"

section \<open>Publication\<close>

definition atomic_create_json :: "nat \<Rightarrow> string \<Rightarrow> json \<Rightarrow> bool prog" where
  "atomic_create_json me name payload =
     thenP (open_secure_directory me)
    (bindP (stage_json name payload) (\<lambda>temporary.
       finallyP
         (bindP (finallyP
             (catchP (thenP (call_unit (Link temporary name)) (returnP True))
               (\<lambda>c. c = FileExistsError) (\<lambda>_. returnP False))
             (unlink_quiet temporary)) (\<lambda>linked.
           if linked then thenP (call_unit Fsync_dir) (returnP True) else returnP False))
         (unlink_quiet temporary)))"

definition validate_regular_file :: "nat \<Rightarrow> nat \<Rightarrow> unit prog" where
  "validate_regular_file me i =
     bindP (callP (Fstat i) the_stat) (\<lambda>info. liftP (seqE [
       raise_if (st_kind info \<noteq> RegularFile) RuntimeSecurityError ''runtime record is not a regular file'',
       raise_if (st_uid info \<noteq> me) RuntimeSecurityError ''runtime record has a foreign owner'',
       raise_if (st_mode info \<noteq> PRIVATE_FILE) RuntimeSecurityError ''runtime record mode'']))"

text \<open>
  The loop of \<open>_read_secure_json\<close>: every chunk but the last is not empty and the total is bounded.
\<close>

fun read_loop :: "nat \<Rightarrow> nat \<Rightarrow> string \<Rightarrow> string prog" where
  "read_loop 0 i acc = raiseP OutOfFuel []"
| "read_loop (Suc k) i acc =
     bindP (callP (Read i (length acc) 16384) the_data) (\<lambda>chunk.
       if chunk = [] then returnP acc
       else if length (acc @ chunk) > DEFAULT_MAX_PACKET_BYTES
         then raiseP RuntimeSecurityError ''runtime record is too large''
       else read_loop k i (acc @ chunk))"

definition open_existing :: "string \<Rightarrow> nat option prog" where
  "open_existing name = catchP (bindP (callP (Open_read name) the_fd) (\<lambda>i. returnP (Some i)))
     is_missing (\<lambda>_. returnP None)"

definition decode_record :: "string \<Rightarrow> jobject result" where
  "decode_record data = catchE (strict_json_loads data DEFAULT_MAX_PACKET_BYTES)
     (\<lambda>c. c = ProtocolError) (\<lambda>_. raise RuntimeSecurityError ''invalid runtime record'')"

definition read_secure_json :: "nat \<Rightarrow> string \<Rightarrow> jobject option prog" where
  "read_secure_json me name =
     thenP (open_secure_directory me)
    (bindP (open_existing name) (\<lambda>fd. case fd of
       None \<Rightarrow> returnP None
     | Some i \<Rightarrow>
         thenP (validate_regular_file me i)
        (bindP (read_loop (DEFAULT_MAX_PACKET_BYTES + 2) i []) (\<lambda>data.
         bindP (liftP (decode_record data)) (\<lambda>v. returnP (Some v))))))"

definition atomic_replace_json :: "nat \<Rightarrow> string \<Rightarrow> json \<Rightarrow> unit prog" where
  "atomic_replace_json me name payload =
     thenP (open_secure_directory me)
    (bindP (callP (Open_read name) the_fd) (\<lambda>i.
     thenP (validate_regular_file me i)
    (bindP (stage_json name payload) (\<lambda>temporary.
     thenP (catchP (call_unit (Rename temporary name)) (\<lambda>_. True)
              (\<lambda>e. thenP (unlink_quiet temporary) (Done (Inl e))))
       (call_unit Fsync_dir)))))"

definition durable_unlink :: "nat \<Rightarrow> string \<Rightarrow> bool prog" where
  "durable_unlink me name =
     thenP (open_secure_directory me)
    (bindP (open_existing name) (\<lambda>fd. case fd of
       None \<Rightarrow> returnP False
     | Some i \<Rightarrow>
         thenP (validate_regular_file me i)
        (thenP (call_unit (Unlink name))
        (thenP (call_unit Fsync_dir) (returnP True)))))"

section \<open>Clean-up of staged files\<close>

definition RECORD_CHAR :: "char \<Rightarrow> bool" where
  "RECORD_CHAR c \<longleftrightarrow> is_alnum c \<or> c \<in> set ''._:+@-''"

text \<open>\<open>_STAGED_JSON_RE.fullmatch(name)\<close> and its group \<open>target\<close>: the last 29 characters are fixed in form.\<close>

definition staged_target :: "string \<Rightarrow> string option" where
  "staged_target name =
     (let n = length name; target = drop 1 (take (n - 29) name); nonce = take 24 (drop (n - 28) name)
      in if 31 \<le> n \<and> n \<le> 330 \<and> hd name = CHR ''.'' \<and> name ! (n - 29) = CHR ''.'' \<and>
            drop (n - 4) name = ''.tmp'' \<and> list_all is_hex nonce \<and> list_all RECORD_CHAR target
         then Some target else None)"

definition unsafe_stat :: "nat \<Rightarrow> stat \<Rightarrow> bool" where
  "unsafe_stat me info \<longleftrightarrow> st_kind info \<noteq> RegularFile \<or> st_uid info \<noteq> me \<or> st_mode info \<noteq> PRIVATE_FILE"

text \<open>\<open>os.open\<close> whose every \<open>OSError\<close> becomes a \<open>RuntimeSecurityError\<close>.\<close>

definition open_or_refuse :: "string \<Rightarrow> string \<Rightarrow> nat prog" where
  "open_or_refuse name msg =
     catchP (callP (Open_read name) the_fd) is_os_error (\<lambda>_. raiseP RuntimeSecurityError msg)"

definition discard_one :: "nat \<Rightarrow> string \<Rightarrow> string \<Rightarrow> unit prog" where
  "discard_one me name target =
     bindP (open_or_refuse name ''cannot open staged runtime record'') (\<lambda>staged.
     bindP (callP (Fstat staged) the_stat) (\<lambda>info.
     thenP (liftP (raise_if (unsafe_stat me info \<or> st_nlink info \<notin> {1, 2}) RuntimeSecurityError
       ''unsafe staged runtime record''))
    (thenP (if st_nlink info = 2 then
              bindP (open_or_refuse target ''staged runtime record has no exact final link'') (\<lambda>final.
              bindP (callP (Fstat final) the_stat) (\<lambda>final_info.
                liftP (raise_if (unsafe_stat me final_info \<or> st_nlink final_info \<noteq> 2 \<or>
                    st_ino final_info \<noteq> st_ino info) RuntimeSecurityError
                  ''staged runtime record final link changed identity'')))
            else returnP ())
    (bindP (callP (Stat_name name) the_stat) (\<lambda>current.
     thenP (liftP (raise_if ((st_ino current, st_nlink current) \<noteq> (st_ino info, st_nlink info))
       RuntimeSecurityError ''staged runtime record changed before removal''))
       (call_unit (Unlink name)))))))"

fun discard_names :: "nat \<Rightarrow> (string \<Rightarrow> bool) \<Rightarrow> string list \<Rightarrow> nat prog" where
  "discard_names me allowed [] = returnP 0"
| "discard_names me allowed (name # names) =
     (case staged_target name of
        None \<Rightarrow> discard_names me allowed names
      | Some target \<Rightarrow>
          if \<not> allowed target then discard_names me allowed names
          else thenP (discard_one me name target)
            (bindP (discard_names me allowed names) (\<lambda>n. returnP (Suc n))))"

definition discard_staged_json :: "nat \<Rightarrow> (string \<Rightarrow> bool) \<Rightarrow> nat prog" where
  "discard_staged_json me allowed =
     thenP (open_secure_directory me)
    (bindP (callP Listdir the_names) (\<lambda>names.
     bindP (discard_names me allowed names) (\<lambda>removed.
     thenP (if 0 < removed then call_unit Fsync_dir else returnP ()) (returnP removed))))"

section \<open>What the programs keep\<close>

definition staged :: "string \<Rightarrow> bool" where
  "staged n \<longleftrightarrow> (\<exists>filename token. n = temp_name filename token)"

text \<open>The versions of an entry that a power failure may leave.\<close>

definition views_at :: "dir \<Rightarrow> string \<Rightarrow> nat option set" where
  "views_at s n = (\<lambda>es. map_of es n) ` set (dr_entries s # dr_views s)"

definition same_files :: "dir \<Rightarrow> dir \<Rightarrow> bool" where
  "same_files s0 s \<longleftrightarrow>
     dr_next s0 \<le> dr_next s \<and> (\<forall>i < dr_next s0. dr_inode s i = dr_inode s0 i) \<and>
     dr_present s = dr_present s0 \<and> dr_kind s = dr_kind s0 \<and> dr_uid s = dr_uid s0 \<and>
     dr_mode s = dr_mode s0 \<and> dr_getuid s = dr_getuid s0 \<and> dr_umask s = dr_umask s0"

definition keeps_at :: "dir \<Rightarrow> dir \<Rightarrow> string \<Rightarrow> bool" where
  "keeps_at s0 s n \<longleftrightarrow> look s n = look s0 n \<and> views_at s n \<subseteq> views_at s0 n"

definition keeps :: "dir \<Rightarrow> dir \<Rightarrow> bool" where
  "keeps s0 s \<longleftrightarrow> same_files s0 s \<and> (\<forall>n. \<not> staged n \<longrightarrow> keeps_at s0 s n)"

text \<open>The directory is what \<open>_open_secure_directory\<close> accepts.\<close>

definition secure_dir :: "nat \<Rightarrow> dir \<Rightarrow> bool" where
  "secure_dir me s \<longleftrightarrow> dr_present s \<and> dr_kind s = DirectoryFile \<and> dr_uid s = me \<and> dr_mode s = PRIVATE_DIR"

lemma views_at_refl: "look s n \<in> views_at s n"
  by (simp add: views_at_def)

lemma same_files_refl [simp]: "same_files s s"
  by (simp add: same_files_def)

lemma same_files_trans: "same_files a b \<Longrightarrow> same_files b c \<Longrightarrow> same_files a c"
  by (auto simp: same_files_def)

lemma keeps_refl [simp]: "keeps s s"
  by (simp add: keeps_def keeps_at_def)

lemma keeps_trans: "keeps a b \<Longrightarrow> keeps b c \<Longrightarrow> keeps a c"
  unfolding keeps_def keeps_at_def using same_files_trans [of a b c] by (metis subset_trans)

section \<open>Programs that only look\<close>

lemma open_secure_directory_spec:
  "always C (\<lambda>s. s = s0) (open_secure_directory me)
     (\<lambda>r s. s = s0 \<and> (r = Inr () \<longrightarrow> secure_dir me s0)) s0"
  unfolding open_secure_directory_def validate_secure_directory_def is_symlink_def
  by (auto simp: progs secure_dir_def stat_of_dir_def seqE_Inr_iff split: sum.split intro!: calls)

lemma validate_regular_file_spec:
  "always C (\<lambda>s. s = s0) (validate_regular_file me i)
     (\<lambda>r s. s = s0 \<and> (r = Inr () \<longrightarrow> \<not> unsafe_stat me (stat_of s0 i))) s0"
  unfolding validate_regular_file_def
  by (auto simp: progs unsafe_stat_def seqE_Inr_iff intro!: calls)

lemma open_existing_spec:
  "always C (\<lambda>s. s = s0) (open_existing name)
     (\<lambda>r s. s = s0 \<and> (\<forall>fd. r = Inr fd \<longrightarrow> look s0 name = fd)) s0"
  unfolding open_existing_def progs
  by (rule always_call_exact) (auto simp: is_missing_def split: option.splits if_splits)

text \<open>The read loop: an error, or the whole content, within the bound.\<close>

lemma read_loop_spec:
  assumes "in_data (dr_inode s0 i) = acc @ rest" and "length acc \<le> DEFAULT_MAX_PACKET_BYTES"
  shows "always C (\<lambda>s. s = s0) (read_loop k i acc)
     (\<lambda>r s. s = s0 \<and> (\<forall>d. r = Inr d \<longrightarrow> d = acc @ rest \<and> length d \<le> DEFAULT_MAX_PACKET_BYTES)) s0"
  using assms
proof (induction k arbitrary: acc rest)
  case (Suc k)
  show ?case unfolding read_loop.simps progs
  proof (rule call_Read, goal_cases)
    case (3 n)
    define chunk where "chunk = take (min 16384 (Suc n)) (drop (length acc) (in_data (dr_inode s0 i)))"
    have rest: "rest = chunk @ drop (length chunk) rest" using Suc.prems(1) by (simp add: chunk_def min_def)
    have empty: "chunk = [] \<longleftrightarrow> rest = []" using Suc.prems(1) by (simp add: chunk_def)
    have "always C (\<lambda>s. s = s0) (read_loop k i (acc @ chunk))
        (\<lambda>r s. s = s0 \<and> (\<forall>d. r = Inr d \<longrightarrow> d = acc @ rest \<and> length d \<le> DEFAULT_MAX_PACKET_BYTES)) s0"
      if "length (acc @ chunk) \<le> DEFAULT_MAX_PACKET_BYTES"
      using Suc.IH [OF _ that, of "drop (length chunk) rest"] Suc.prems(1) rest by simp
    with empty Suc.prems(2) show ?case unfolding chunk_def [symmetric] by (simp add: not_less)
  qed simp_all
qed simp

text \<open>Reading: nothing changes, and a value is the decoded content of a private regular file.\<close>

lemma read_secure_json_spec:
  "always C (\<lambda>s. s = s0) (read_secure_json me name)
     (\<lambda>r s. s = s0 \<and>
       (r = Inr None \<longrightarrow> secure_dir me s0 \<and> look s0 name = None) \<and>
       (\<forall>v. r = Inr (Some v) \<longrightarrow> secure_dir me s0 \<and> (\<exists>i. look s0 name = Some i \<and>
          \<not> unsafe_stat me (stat_of s0 i) \<and> length (in_data (dr_inode s0 i)) \<le> DEFAULT_MAX_PACKET_BYTES \<and>
          decode_record (in_data (dr_inode s0 i)) = Inr v))) s0"
  unfolding read_secure_json_def
proof (rule always_thenI [OF open_secure_directory_spec], goal_cases)
  case (1 s)
  then have s: "s = s0" "secure_dir me s0" by simp_all
  show ?case unfolding s(1)
  proof (rule always_bindI [OF open_existing_spec], goal_cases)
    case (1 fd s)
    show ?case
    proof (cases fd)
      case (Some i)
      with 1 have i: "s = s0" "look s0 name = Some i" by auto
      show ?thesis unfolding Some i(1) option.case
      proof (rule always_thenI [OF validate_regular_file_spec], goal_cases)
        case (1 s)
        then have v: "s = s0" "\<not> unsafe_stat me (stat_of s0 i)" by simp_all
        show ?case unfolding v(1) using s(2) i(2) v(2)
          by (intro always_bindI [OF read_loop_spec [of s0 i "[]" "in_data (dr_inode s0 i)"]])
            (auto simp: progs split: sum.split)
      qed auto
    qed (use 1 s(2) in auto)
  qed auto
qed auto

section \<open>Staging\<close>

text \<open>The states while a staged file is written: \<open>s0\<close> with one more file \<open>f\<close> under the name \<open>tmp\<close>.\<close>

definition with_temp :: "dir \<Rightarrow> string \<Rightarrow> inode \<Rightarrow> dir" where
  "with_temp s0 tmp f =
     set_entries (s0\<lparr>dr_inode := (dr_inode s0)(dr_next s0 := f), dr_next := Suc (dr_next s0)\<rparr>)
       (put_entry tmp (dr_next s0) (dr_entries s0))"

definition record_inode :: "dir \<Rightarrow> string \<Rightarrow> inode" where
  "record_inode s0 data = \<lparr>in_kind = RegularFile, in_uid = dr_getuid s0, in_mode = PRIVATE_FILE,
     in_data = data, in_synced = True, in_links_elsewhere = 0\<rparr>"

lemma with_temp_simps [simp]:
  "dr_entries (with_temp s0 tmp f) = put_entry tmp (dr_next s0) (dr_entries s0)"
  "dr_views (with_temp s0 tmp f) = dr_entries s0 # dr_views s0"
  "dr_inode (with_temp s0 tmp f) = (dr_inode s0)(dr_next s0 := f)"
  "dr_next (with_temp s0 tmp f) = Suc (dr_next s0)"
  "dr_present (with_temp s0 tmp f) = dr_present s0" "dr_kind (with_temp s0 tmp f) = dr_kind s0"
  "dr_uid (with_temp s0 tmp f) = dr_uid s0" "dr_mode (with_temp s0 tmp f) = dr_mode s0"
  "dr_getuid (with_temp s0 tmp f) = dr_getuid s0" "dr_umask (with_temp s0 tmp f) = dr_umask s0"
  by (simp_all add: with_temp_def)

lemma with_temp_inode:
  "(with_temp s0 tmp f)\<lparr>dr_inode := (dr_inode s0)(dr_next s0 := g)\<rparr> = with_temp s0 tmp g"
  "(with_temp s0 tmp f)\<lparr>dr_inode := ((dr_inode s0)(dr_next s0 := f))(dr_next s0 := g)\<rparr> = with_temp s0 tmp g"
  by (simp_all add: with_temp_def set_entries_def)

lemma keeps_with_temp: "staged tmp \<Longrightarrow> keeps s0 (with_temp s0 tmp f)"
  by (auto simp: keeps_def keeps_at_def same_files_def views_at_def)

lemma keeps_unlink: "staged tmp \<Longrightarrow> keeps s0 s \<Longrightarrow> keeps s0 (set_entries s (remove_entry tmp (dr_entries s)))"
  by (auto simp: keeps_def keeps_at_def same_files_def views_at_def)

lemma staged_temp_name [simp]: "staged (temp_name f t)"
  by (auto simp: staged_def)

text \<open>\<open>unlink_quiet\<close> on a staged name keeps whatever staging keeps.\<close>

lemma unlink_quiet_keeps:
  assumes "staged tmp" and "keeps s0 s"
  shows "always C (keeps s0) (unlink_quiet tmp) (\<lambda>r s'. keeps s0 s') s"
  unfolding unlink_quiet_def using assms by (auto simp: progs keeps_unlink intro!: calls)

text \<open>An error leaves some file under the staged name; otherwise \<open>P\<close> holds.\<close>

definition temp_or :: "dir \<Rightarrow> string \<Rightarrow> (dir \<Rightarrow> bool) \<Rightarrow> unit result \<Rightarrow> dir \<Rightarrow> bool" where
  "temp_or s0 tmp P r s = (case r of Inl e \<Rightarrow> \<exists>g. s = with_temp s0 tmp g | Inr _ \<Rightarrow> P s)"

lemma temp_or_simps [simp]:
  "temp_or s0 tmp P (Inl e) s \<longleftrightarrow> (\<exists>g. s = with_temp s0 tmp g)"
  "temp_or s0 tmp P (Inr u) s \<longleftrightarrow> P s"
  by (simp_all add: temp_or_def)

lemma write_loop_spec:
  assumes "staged tmp" and "length data \<le> k"
  shows "always C (keeps s0) (write_loop k (dr_next s0) data)
    (temp_or s0 tmp (\<lambda>s. \<exists>b. s = with_temp s0 tmp (f\<lparr>in_data := in_data f @ data, in_synced := b\<rparr>)))
    (with_temp s0 tmp f)"
  using assms(2)
proof (induction k "dr_next s0" data arbitrary: f rule: write_loop.induct)
  case (1 k)
  show ?case using keeps_with_temp [OF assms(1)] by (auto intro: exI [of _ "in_synced f"])
next
  case (2 c cs)
  then show ?case by simp
next
  case (3 k c cs)
  let ?d = "c # cs"
  show ?case unfolding write_loop.simps progs
  proof (rule always_call_cases, goal_cases)
    case (3 n x s')
    define w where "w = min n (length ?d)"
    define g where "g = f\<lparr>in_data := in_data f @ take w ?d, in_synced := in_synced f \<and> w = 0\<rparr>"
    from 3(2) have x: "x = R_count w" and s': "s' = with_temp s0 tmp g"
      by (simp_all add: Let_def with_temp_inode w_def g_def)
    have keep: "keeps s0 (with_temp s0 tmp g)" for g by (rule keeps_with_temp [OF assms(1)])
    have "in_data g @ drop w ?d = in_data f @ ?d" by (simp add: g_def del: take_Cons' drop_Cons')
    then have eq: "g\<lparr>in_data := in_data g @ drop w ?d, in_synced := b\<rparr> = f\<lparr>in_data := in_data f @ ?d, in_synced := b\<rparr>" for b
      by (simp add: g_def)
    show ?case
    proof (cases "w = 0")
      case True
      then show ?thesis using keep unfolding x s' by auto
    next
      case False
      have "length (drop w ?d) \<le> k" using "3.prems" False by simp
      from "3.hyps" [OF False this, of g] show ?thesis
        using keep False unfolding x s' eq by simp
    qed
  qed (use keeps_with_temp [OF assms(1)] in auto)
qed

lemma stage_file_spec:
  assumes "staged tmp"
    and f: "in_kind f = RegularFile" "in_uid f = dr_getuid s0" "in_data f = []" "in_links_elsewhere f = 0"
  shows "always C (keeps s0)
    (thenP (call_unit (Fchmod (dr_next s0) PRIVATE_FILE))
      (thenP (write_all (dr_next s0) data) (call_unit (Fsync (dr_next s0)))))
    (temp_or s0 tmp (\<lambda>s. s = with_temp s0 tmp (record_inode s0 data))) (with_temp s0 tmp f)"
proof -
  define g where "g = f\<lparr>in_mode := PRIVATE_FILE\<rparr>"
  note keep = keeps_with_temp [OF assms(1), of s0]
  have fchmod: "always C (keeps s0) (call_unit (Fchmod (dr_next s0) PRIVATE_FILE))
      (temp_or s0 tmp (\<lambda>s. s = with_temp s0 tmp g)) (with_temp s0 tmp f)"
    unfolding call_unit_def
    by (rule always_call_cases) (use keep in \<open>auto simp: with_temp_inode g_def\<close>)
  have fsync: "always C (keeps s0) (call_unit (Fsync (dr_next s0)))
      (temp_or s0 tmp (\<lambda>s. s = with_temp s0 tmp (record_inode s0 data)))
      (with_temp s0 tmp (g\<lparr>in_data := in_data g @ data, in_synced := b\<rparr>))" for b
    unfolding call_unit_def
  proof (rule always_call_cases, goal_cases)
    case (3 n x s')
    have "g\<lparr>in_data := in_data g @ data, in_synced := True\<rparr> = record_inode s0 data"
      using f by (cases f) (simp add: g_def record_inode_def)
    with 3(2) keep show ?case by (auto simp: with_temp_inode)
  qed (use keep in auto)
  show ?thesis
  proof (rule always_thenI [OF fchmod], goal_cases)
    case (1 s)
    then have s: "s = with_temp s0 tmp g" by simp
    show ?case unfolding s write_all_def
      by (rule always_thenI [OF write_loop_spec [OF assms(1) order_refl, of C s0 data g]])
        (use fsync in auto)
  qed auto
qed

text \<open>The exclusive creation of a staged file.\<close>

lemma open_temp_spec:
  assumes "staged tmp"
  shows "always C (keeps s0) (callP (Open_create tmp PRIVATE_FILE) the_fd) (\<lambda>r s. case r of
      Inl e \<Rightarrow> s = s0
    | Inr i \<Rightarrow> i = dr_next s0 \<and> look s0 tmp = None \<and> (\<exists>f. s = with_temp s0 tmp f \<and>
        in_kind f = RegularFile \<and> in_uid f = dr_getuid s0 \<and> in_data f = [] \<and> in_links_elsewhere f = 0)) s0"
proof (rule always_call_cases, goal_cases)
  case (3 n x s')
  let ?f = "\<lparr>in_kind = RegularFile, in_uid = dr_getuid s0, in_mode = masked (dr_umask s0) PRIVATE_FILE,
    in_data = [], in_synced = False, in_links_elsewhere = 0\<rparr>"
  show ?case
  proof (cases "look s0 tmp")
    case None
    with 3(2) have "x = R_fd (dr_next s0)" "s' = with_temp s0 tmp ?f"
      by (simp_all add: Let_def with_temp_def)
    with None keeps_with_temp [OF assms, of s0] show ?thesis by (auto intro!: exI [of _ ?f])
  qed (use 3 in auto)
qed auto

lemma stage_bytes_spec:
  "always C (keeps s0) (stage_bytes filename data) (\<lambda>r s. case r of
      Inl e \<Rightarrow> keeps s0 s
    | Inr tmp \<Rightarrow> staged tmp \<and> look s0 tmp = None \<and> s = with_temp s0 tmp (record_inode s0 data)) s0"
  unfolding stage_bytes_def Let_def
proof (rule always_bindI [where R = "\<lambda>r s. s = s0 \<and> (\<forall>t. r = Inr t \<longrightarrow> True)"], goal_cases)
  case 1
  show ?case by (rule call_Token) auto
next
  case (2 t s)
  let ?tmp = "temp_name filename t"
  note keep = keeps_with_temp [OF staged_temp_name [of filename t], of s0]
  have s: "s = s0" using 2 by simp
  show ?case unfolding s
  proof (rule always_bindI [OF open_temp_spec [OF staged_temp_name]], goal_cases)
    case (1 i s)
    then obtain f where i: "i = dr_next s0" and new: "look s0 ?tmp = None" and f: "s = with_temp s0 ?tmp f"
      "in_kind f = RegularFile" "in_uid f = dr_getuid s0" "in_data f = []" "in_links_elsewhere f = 0" by auto
    have cleanup: "always C (keeps s0) (thenP (unlink_quiet ?tmp) (Done (Inl e)))
        (\<lambda>r s. r \<noteq> Inr () \<and> keeps s0 s) (with_temp s0 ?tmp g)" for e g
      by (rule always_thenI [OF unlink_quiet_keeps [OF staged_temp_name keep]]) auto
    have "always C (keeps s0)
        (catchP (thenP (call_unit (Fchmod i PRIVATE_FILE)) (thenP (write_all i data) (call_unit (Fsync i))))
          (\<lambda>_. True) (\<lambda>e. thenP (unlink_quiet ?tmp) (Done (Inl e))))
        (\<lambda>r s. case r of Inl e \<Rightarrow> keeps s0 s | Inr _ \<Rightarrow> s = with_temp s0 ?tmp (record_inode s0 data)) s"
      unfolding i f(1)
      by (rule always_catchI [OF stage_file_spec [OF staged_temp_name f(2-5)]])
        (auto intro!: always_mono [OF cleanup] split: sum.split)
    then show ?case by (rule always_thenI) (use new keep in auto)
  qed auto
qed auto

lemma stage_json_spec:
  "always C (keeps s0) (stage_json name payload) (\<lambda>r s. case r of
      Inl e \<Rightarrow> keeps s0 s
    | Inr tmp \<Rightarrow> length (record_bytes payload) \<le> DEFAULT_MAX_PACKET_BYTES \<and> staged tmp \<and>
        look s0 tmp = None \<and> s = with_temp s0 tmp (record_inode s0 (record_bytes payload))) s0"
  unfolding stage_json_def progs raise_if_def
  by (auto intro!: always_mono [OF stage_bytes_spec] split: sum.splits)

section \<open>Publication\<close>

text \<open>
  The states a publication of \<open>data\<close> as \<open>name\<close> goes through: no other record is touched, and the
  record is either untouched, or a whole new private file, written out, in place of the old entry.
\<close>

definition published :: "dir \<Rightarrow> string \<Rightarrow> string \<Rightarrow> dir \<Rightarrow> bool" where
  "published s0 name data s \<longleftrightarrow> (\<exists>i \<ge> dr_next s0. look s name = Some i \<and>
     dr_inode s i = record_inode s0 data \<and> views_at s name \<subseteq> insert (Some i) (views_at s0 name))"

definition updates :: "dir \<Rightarrow> string \<Rightarrow> string \<Rightarrow> dir \<Rightarrow> bool" where
  "updates s0 name data s \<longleftrightarrow> same_files s0 s \<and>
     (\<forall>n. \<not> staged n \<longrightarrow> n \<noteq> name \<longrightarrow> keeps_at s0 s n) \<and> (keeps_at s0 s name \<or> published s0 name data s)"

text \<open>The record is in place in every version of the directory a power failure may leave.\<close>

definition durable :: "dir \<Rightarrow> string \<Rightarrow> string \<Rightarrow> dir \<Rightarrow> bool" where
  "durable s0 name data s \<longleftrightarrow> (\<exists>i. look s name = Some i \<and> dr_inode s i = record_inode s0 data \<and>
     views_at s name = {Some i})"

definition removed :: "string \<Rightarrow> dir \<Rightarrow> dir" where
  "removed n s = (if look s n = None then s else set_entries s (remove_entry n (dr_entries s)))"

lemma views_at_set_entries [simp]: "views_at (set_entries s es) n = insert (map_of es n) (views_at s n)"
  by (simp add: views_at_def)

lemma views_at_synced [simp]: "views_at (s\<lparr>dr_views := []\<rparr>) n = {look s n}"
  by (simp add: views_at_def)

lemma look_in_views [simp]: "look s n \<in> views_at s n"
  by (simp add: views_at_def)

lemma removed_simps [simp]:
  "look (removed t s) n = (if n = t then None else look s n)"
  "dr_inode (removed t s) = dr_inode s" "same_files s0 (removed t s) = same_files s0 s"
  "n \<noteq> t \<Longrightarrow> views_at (removed t s) n = views_at s n"
  by (auto simp: removed_def same_files_def insert_absorb)

lemma removed_id [simp]: "look s t = None \<Longrightarrow> removed t s = s"
  by (simp add: removed_def)

lemma same_files_synced [simp]: "same_files s0 (s\<lparr>dr_views := []\<rparr>) = same_files s0 s"
  by (simp add: same_files_def)

lemma same_files_set_entries [simp]: "same_files s0 (set_entries s es) = same_files s0 s"
  by (simp add: same_files_def)

lemma keeps_at_removed [simp]: "n \<noteq> t \<Longrightarrow> keeps_at s0 (removed t s) n = keeps_at s0 s n"
  by (simp add: keeps_at_def)

lemma keeps_at_synced: "keeps_at s0 s n \<Longrightarrow> keeps_at s0 (s\<lparr>dr_views := []\<rparr>) n"
  using look_in_views [of s n] by (auto simp: keeps_at_def)

lemma keeps_removed: "staged t \<Longrightarrow> keeps s0 s \<Longrightarrow> keeps s0 (removed t s)"
  using keeps_unlink by (simp add: removed_def)

lemma updates_keeps: "keeps s0 s \<Longrightarrow> \<not> staged name \<Longrightarrow> updates s0 name data s"
  by (simp add: updates_def keeps_def)

lemma updates_removed: "staged t \<Longrightarrow> \<not> staged name \<Longrightarrow> updates s0 name data s \<Longrightarrow> updates s0 name data (removed t s)"
  unfolding updates_def published_def by (metis keeps_at_removed removed_simps)

lemma updates_synced: "updates s0 name data s \<Longrightarrow> updates s0 name data (s\<lparr>dr_views := []\<rparr>)"
  unfolding updates_def published_def using keeps_at_synced [of s0 s] look_in_views [of s name]
  by (simp del: look_in_views) blast

lemma unlink_quiet_spec:
  assumes "I s" and "I (removed n s)"
  shows "always C I (unlink_quiet n) (\<lambda>r s'. s' = (if r = Inr () then removed n s else s)) s"
  unfolding unlink_quiet_def progs call_unit_def
proof (rule always_call_exact, goal_cases)
  case (3 m x s')
  then show ?case using assms
    by (cases "look s n") (auto simp: removed_def is_missing_def split: if_splits)
qed (use assms in \<open>auto simp: is_missing_def removed_def\<close>)

text \<open>What \<open>_open_secure_directory\<close> and staging do, under a weaker promise on the way.\<close>

lemma open_dir_updates:
  assumes "\<not> staged name"
  shows "always C (updates s0 name data) (open_secure_directory me)
    (\<lambda>r s. s = s0 \<and> (r = Inr () \<longrightarrow> secure_dir me s0)) s0"
  using updates_keeps [OF keeps_refl assms] by (auto intro: always_mono [OF open_secure_directory_spec])

lemma stage_json_updates:
  assumes "\<not> staged name"
  shows "always C (updates s0 name data) (stage_json name payload) (\<lambda>r s. case r of
      Inl e \<Rightarrow> updates s0 name data s
    | Inr tmp \<Rightarrow> length (record_bytes payload) \<le> DEFAULT_MAX_PACKET_BYTES \<and> staged tmp \<and> tmp \<noteq> name \<and>
        look s0 tmp = None \<and> s = with_temp s0 tmp (record_inode s0 (record_bytes payload))) s0"
  using assms updates_keeps by (auto intro!: always_mono [OF stage_json_spec] split: sum.splits)

text \<open>The new link, and what is left when the staged name is removed.\<close>

definition linked :: "dir \<Rightarrow> string \<Rightarrow> string \<Rightarrow> string \<Rightarrow> dir" where
  "linked s0 tmp name data = (let s = with_temp s0 tmp (record_inode s0 data) in
     set_entries s (put_entry name (dr_next s0) (dr_entries s)))"

lemma same_files_with_temp [simp]: "same_files s0 (with_temp s0 tmp f)"
  by (simp add: same_files_def)

lemma linked_updates:
  assumes "staged tmp" and "\<not> staged name"
  shows "updates s0 name data (linked s0 tmp name data)"
proof -
  let ?s = "with_temp s0 tmp (record_inode s0 data)"
  have keep: "keeps s0 ?s" by (rule keeps_with_temp [OF assms(1)])
  have name: "views_at ?s name \<subseteq> views_at s0 name"
    using keep assms(2) by (simp add: keeps_def keeps_at_def)
  have "published s0 name data (linked s0 tmp name data)"
    unfolding published_def using name by (intro exI [of _ "dr_next s0"]) (auto simp: linked_def Let_def)
  moreover have "keeps_at s0 (linked s0 tmp name data) n" if "\<not> staged n" "n \<noteq> name" for n
  proof -
    have "look s0 n \<in> views_at ?s n"
      using assms(1) that(1) look_in_views [of ?s n] by (cases "n = tmp") (simp_all)
    then show ?thesis using keep that assms(1)
      by (cases "n = tmp") (auto simp: linked_def Let_def keeps_def keeps_at_def)
  qed
  ultimately show ?thesis by (simp add: updates_def linked_def Let_def)
qed

lemma linked_durable:
  "tmp \<noteq> name \<Longrightarrow> durable s0 name data ((removed tmp (linked s0 tmp name data))\<lparr>dr_views := []\<rparr>)"
  by (simp add: durable_def linked_def Let_def)

lemma linked_look:
  "n \<noteq> name \<Longrightarrow> n \<noteq> tmp \<Longrightarrow> look (linked s0 tmp name data) n = look s0 n"
  by (simp add: linked_def Let_def)

lemma link_spec:
  fixes data :: string
  assumes "staged tmp" and "\<not> staged name" and "tmp \<noteq> name" and "look s0 tmp = None"
  defines "s1 \<equiv> with_temp s0 tmp (record_inode s0 data)"
  shows "always C (updates s0 name data)
    (catchP (thenP (call_unit (Link tmp name)) (returnP True)) (\<lambda>c. c = FileExistsError) (\<lambda>_. returnP False))
    (\<lambda>r s. case r of Inl e \<Rightarrow> s = s1 | Inr True \<Rightarrow> look s0 name = None \<and> s = linked s0 tmp name data
       | Inr False \<Rightarrow> look s0 name \<noteq> None \<and> s = s1) s1"
proof -
  have s1: "updates s0 name data s1"
    unfolding s1_def by (rule updates_keeps [OF keeps_with_temp [OF assms(1)] assms(2)])
  have link: "always C (updates s0 name data) (call_unit (Link tmp name))
      (\<lambda>r s. case r of
         Inl e \<Rightarrow> s = s1 \<and> (exc_class e = FileExistsError \<longrightarrow> look s0 name \<noteq> None)
       | Inr _ \<Rightarrow> look s0 name = None \<and> s = linked s0 tmp name data) s1"
    using assms(3,4) linked_updates [OF assms(1,2)] s1
    by (intro call_Link) (auto simp: s1_def linked_def Let_def split: if_splits)
  show ?thesis unfolding progs
    by (rule always_mono [OF link]) (auto simp: s1 linked_updates [OF assms(1,2)] split: sum.splits)
qed

lemma create_json_spec:
  fixes payload :: json
  assumes "\<not> staged name"
  defines "data \<equiv> record_bytes payload"
  shows "always C (updates s0 name data) (atomic_create_json me name payload)
    (\<lambda>r s. \<forall>created. r = Inr created \<longrightarrow> secure_dir me s0 \<and> length data \<le> DEFAULT_MAX_PACKET_BYTES \<and>
       (\<forall>n. n \<noteq> name \<longrightarrow> look s n = look s0 n) \<and>
       (if created then look s0 name = None \<and> durable s0 name data s
        else look s0 name \<noteq> None \<and> look s name = look s0 name)) s0"
  unfolding atomic_create_json_def
proof (rule always_thenI [OF open_dir_updates [OF assms(1)]], goal_cases)
  case (1 s)
  then have s: "s = s0" and dir: "secure_dir me s0" by auto
  show ?case unfolding s
  proof (rule always_bindI [OF stage_json_updates [OF assms(1), of C s0 "record_bytes payload" payload, folded data_def]], goal_cases)
    case (1 tmp s1)
    then have bound: "length data \<le> DEFAULT_MAX_PACKET_BYTES" and tmp: "staged tmp" "tmp \<noteq> name" "look s0 tmp = None"
      and s1: "s1 = with_temp s0 tmp (record_inode s0 data)" by auto
    note upd = updates_removed [OF tmp(1) assms(1)]
    let ?done = "removed tmp (linked s0 tmp name data)"
    have link: "always C (updates s0 name data)
        (finallyP (catchP (thenP (call_unit (Link tmp name)) (returnP True)) (\<lambda>c. c = FileExistsError) (\<lambda>_. returnP False))
          (unlink_quiet tmp))
        (\<lambda>r s. case r of Inl e \<Rightarrow> True
         | Inr True \<Rightarrow> look s0 name = None \<and> s = ?done
         | Inr False \<Rightarrow> look s0 name \<noteq> None \<and> s = removed tmp s1) s1"
      unfolding s1
    proof (rule always_finallyI [OF link_spec [OF tmp(1) assms(1) tmp(2,3), of C data]], goal_cases)
      case (1 r s)
      show ?case
        by (rule always_mono [OF unlink_quiet_spec [OF 1(1) upd [OF 1(1)]]])
          (use 1(2) in \<open>auto split: sum.splits bool.splits\<close>)
    qed
    have sync: "always C (updates s0 name data)
        (if l then thenP (call_unit Fsync_dir) (returnP True) else returnP False)
        (\<lambda>r s. case r of Inl e \<Rightarrow> True
         | Inr True \<Rightarrow> look s0 name = None \<and> s = ?done\<lparr>dr_views := []\<rparr>
         | Inr False \<Rightarrow> look s0 name \<noteq> None \<and> s = removed tmp s1) s"
      if "updates s0 name data s" and
        "case (Inr l) of Inl e \<Rightarrow> True | Inr True \<Rightarrow> look s0 name = None \<and> s = ?done
         | Inr False \<Rightarrow> look s0 name \<noteq> None \<and> s = removed tmp s1" for l s
      using that updates_synced [OF that(1)] by (cases l) (auto simp: progs intro!: call_Fsync_dir)
    show ?case
    proof (rule always_finallyI [where R = "\<lambda>r s. case r of Inl e \<Rightarrow> True
         | Inr True \<Rightarrow> look s0 name = None \<and> s = ?done\<lparr>dr_views := []\<rparr>
         | Inr False \<Rightarrow> look s0 name \<noteq> None \<and> s = removed tmp s1"], goal_cases)
      case 1
      show ?case by (rule always_bindI [OF link sync]) auto
    next
      case (2 r s)
      show ?case
      proof (rule always_mono [OF unlink_quiet_spec [OF 2(1) upd [OF 2(1)]]], goal_cases)
        case (2 r' s')
        show ?case
        proof (cases r)
          case (Inr created)
          show ?thesis using 2(2) \<open>case r of Inl e \<Rightarrow> True | Inr True \<Rightarrow> _ | Inr False \<Rightarrow> _\<close> dir bound tmp
              linked_durable [OF tmp(2), of s0 data]
            by (cases r'; cases created) (auto simp: Inr s1 linked_look)
        qed (cases r', auto)
      qed simp
    qed
  qed auto
qed auto

text \<open>Replacement by rename. Directory entries name files that exist.\<close>

definition proper_dir :: "dir \<Rightarrow> bool" where
  "proper_dir s \<longleftrightarrow> (\<forall>e \<in> set (dr_entries s). snd e < dr_next s)"

lemma proper_look: "proper_dir s \<Longrightarrow> look s n = Some i \<Longrightarrow> i < dr_next s"
  unfolding proper_dir_def using map_of_SomeD by force

definition renamed :: "dir \<Rightarrow> string \<Rightarrow> string \<Rightarrow> string \<Rightarrow> dir" where
  "renamed s0 tmp name data = (let s = with_temp s0 tmp (record_inode s0 data) in
     set_entries s (put_entry name (dr_next s0) (remove_entry tmp (dr_entries s))))"

lemma renamed_look: "look s0 tmp = None \<Longrightarrow> n \<noteq> name \<Longrightarrow> look (renamed s0 tmp name data) n = look s0 n"
  by (simp add: renamed_def Let_def)

lemma renamed_durable: "durable s0 name data ((renamed s0 tmp name data)\<lparr>dr_views := []\<rparr>)"
  by (simp add: durable_def renamed_def Let_def)

lemma renamed_updates:
  assumes "staged tmp" and "\<not> staged name"
  shows "updates s0 name data (renamed s0 tmp name data)"
proof -
  let ?s = "with_temp s0 tmp (record_inode s0 data)"
  have keep: "keeps s0 ?s" by (rule keeps_with_temp [OF assms(1)])
  have name: "views_at ?s name \<subseteq> views_at s0 name"
    using keep assms(2) by (simp add: keeps_def keeps_at_def)
  have "published s0 name data (renamed s0 tmp name data)"
    unfolding published_def using name by (intro exI [of _ "dr_next s0"]) (auto simp: renamed_def Let_def)
  moreover have "keeps_at s0 (renamed s0 tmp name data) n" if "\<not> staged n" "n \<noteq> name" for n
  proof -
    have "n \<noteq> tmp" using assms(1) that(1) by auto
    moreover have "look s0 n \<in> views_at ?s n" using \<open>n \<noteq> tmp\<close> look_in_views [of ?s n] by simp
    ultimately show ?thesis using keep that
      by (auto simp: renamed_def Let_def keeps_def keeps_at_def)
  qed
  ultimately show ?thesis by (simp add: updates_def renamed_def Let_def)
qed

lemma rename_spec:
  assumes "staged tmp" and "\<not> staged name" and "tmp \<noteq> name" and "look s0 tmp = None" and "proper_dir s0"
  shows "always C (updates s0 name data) (call_unit (Rename tmp name))
    (\<lambda>r s. s = (if r = Inr () then renamed s0 tmp name data else with_temp s0 tmp (record_inode s0 data)))
    (with_temp s0 tmp (record_inode s0 data))"
  using assms(3) proper_look [OF assms(5), of name] renamed_updates [OF assms(1,2)]
    updates_keeps [OF keeps_with_temp [OF assms(1)] assms(2), of s0]
  by (intro call_Rename) (auto simp: renamed_def Let_def)

lemma replace_json_spec:
  fixes payload :: json
  assumes "\<not> staged name" and "proper_dir s0"
  defines "data \<equiv> record_bytes payload"
  shows "always C (updates s0 name data) (atomic_replace_json me name payload)
    (\<lambda>r s. r = Inr () \<longrightarrow> secure_dir me s0 \<and> length data \<le> DEFAULT_MAX_PACKET_BYTES \<and>
       (\<exists>i. look s0 name = Some i \<and> \<not> unsafe_stat me (stat_of s0 i)) \<and>
       (\<forall>n. n \<noteq> name \<longrightarrow> look s n = look s0 n) \<and> durable s0 name data s) s0"
proof -
  note start = updates_keeps [OF keeps_refl assms(1), of s0 data]
  have check: "always C (updates s0 name data) (validate_regular_file me i)
     (\<lambda>r s. s = s0 \<and> (r = Inr () \<longrightarrow> \<not> unsafe_stat me (stat_of s0 i))) s0" for i
    using start by (auto intro: always_mono [OF validate_regular_file_spec])
  have opened: "always C (updates s0 name data) (callP (Open_read name) the_fd)
     (\<lambda>r s. s = s0 \<and> (\<forall>i. r = Inr i \<longrightarrow> look s0 name = Some i)) s0"
    using start by (intro call_Open_read) auto
  have finish: "always C (updates s0 name data)
      (thenP (catchP (call_unit (Rename tmp name)) (\<lambda>_. True) (\<lambda>e. thenP (unlink_quiet tmp) (Done (Inl e))))
        (call_unit Fsync_dir))
      (\<lambda>r s. r = Inr () \<longrightarrow> (\<forall>n. n \<noteq> name \<longrightarrow> look s n = look s0 n) \<and> durable s0 name data s)
      (with_temp s0 tmp (record_inode s0 data))"
    if tmp: "staged tmp" "tmp \<noteq> name" "look s0 tmp = None" for tmp
  proof (rule always_thenI [OF always_catchI [OF rename_spec [OF tmp(1) assms(1) tmp(2,3) assms(2), of C data],
        where Q = "\<lambda>r s. r = Inr () \<longrightarrow> s = renamed s0 tmp name data"]], goal_cases)
    case (2 e s)
    show ?case
      by (rule always_thenI [OF unlink_quiet_spec [OF 2(1) updates_removed [OF tmp(1) assms(1) 2(1)]]]) auto
  next
    case (4 s)
    then show ?case using renamed_durable [of s0 name data tmp] renamed_look [OF tmp(3)]
        updates_synced [OF 4(1)] by (intro call_Fsync_dir) auto
  qed auto
  show ?thesis unfolding atomic_replace_json_def
  proof (rule always_thenI [OF open_dir_updates [OF assms(1)]], goal_cases)
    case (1 s)
    then have s: "s = s0" and dir: "secure_dir me s0" by auto
    show ?case unfolding s
    proof (rule always_bindI [OF opened], goal_cases)
      case (1 i s)
      then have s: "s = s0" and i: "look s0 name = Some i" by auto
      show ?case unfolding s
      proof (rule always_thenI [OF check], goal_cases)
        case (1 s)
        then have s: "s = s0" and ok: "\<not> unsafe_stat me (stat_of s0 i)" by auto
        show ?case unfolding s
        proof (rule always_bindI [OF stage_json_updates [OF assms(1), of C s0 data payload, folded data_def]], goal_cases)
          case (1 tmp s1)
          then show ?case using dir i ok by (auto intro!: always_mono [OF finish])
        qed auto
      qed auto
    qed auto
  qed auto
qed

section \<open>Removal\<close>

definition drops :: "dir \<Rightarrow> string \<Rightarrow> dir \<Rightarrow> bool" where
  "drops s0 name s \<longleftrightarrow> same_files s0 s \<and> (\<forall>n. n \<noteq> name \<longrightarrow> keeps_at s0 s n) \<and>
     (keeps_at s0 s name \<or> look s name = None \<and> views_at s name \<subseteq> insert None (views_at s0 name))"

lemma drops_refl [simp]: "drops s name s"
  by (simp add: drops_def keeps_at_def)

lemma drops_removed: "drops s0 name (removed name s0)"
  by (auto simp: drops_def removed_def keeps_at_def)

lemma drops_synced: "drops s0 name s \<Longrightarrow> drops s0 name (s\<lparr>dr_views := []\<rparr>)"
  unfolding drops_def using keeps_at_synced by auto

lemma durable_unlink_spec:
  "always C (drops s0 name) (durable_unlink me name) (\<lambda>r s. \<forall>was. r = Inr was \<longrightarrow> secure_dir me s0 \<and>
     (if was then (\<exists>i. look s0 name = Some i \<and> \<not> unsafe_stat me (stat_of s0 i)) \<and>
        look s name = None \<and> views_at s name = {None}
      else look s0 name = None \<and> s = s0)) s0"
proof -
  have seen: "always C (drops s0 name) p (\<lambda>r s. s = s0 \<and> Q r s) s0" if "always C (\<lambda>s. s = s0) p (\<lambda>r s. s = s0 \<and> Q r s) s0"
    for p :: "'a prog" and Q by (auto intro: always_mono [OF that])
  have finish: "always C (drops s0 name) (thenP (call_unit (Unlink name)) (thenP (call_unit Fsync_dir) (returnP True)))
      (\<lambda>r s. r = Inr True \<and> look s name = None \<and> views_at s name = {None} \<or> (\<exists>e. r = Inl e)) s0"
    using drops_removed [of s0 name] drops_synced [OF drops_removed, of s0 name]
    unfolding progs by (intro call_Unlink) (auto simp: removed_def intro!: call_Fsync_dir)
  show ?thesis unfolding durable_unlink_def
  proof (rule always_thenI [OF seen [OF open_secure_directory_spec]], goal_cases)
    case (1 s)
    then have s: "s = s0" and dir: "secure_dir me s0" by auto
    show ?case unfolding s
    proof (rule always_bindI [OF seen [OF open_existing_spec]], goal_cases)
      case (1 fd s)
      then have s: "s = s0" and fd: "look s0 name = fd" by auto
      show ?case
      proof (cases fd)
        case (Some i)
        show ?thesis unfolding s Some option.case
        proof (rule always_thenI [OF seen [OF validate_regular_file_spec]], goal_cases)
          case (1 s)
          then show ?case using dir fd Some by (auto intro!: always_mono [OF finish])
        qed auto
      qed (use s fd dir in auto)
    qed auto
  qed auto
qed

section \<open>Clean-up\<close>

lemma nth_hd_split:
  assumes "31 \<le> length (name :: string)" and "hd name = c" and "name ! (length name - 29) = c"
    and "drop (length name - 4) name = e"
  shows "name = c # drop 1 (take (length name - 29) name) @ c # take 24 (drop (length name - 28) name) @ e"
proof -
  let ?n = "length name"
  have "name = take (?n - 29) name @ drop (?n - 29) name" by simp
  also have "drop (?n - 29) name = name ! (?n - 29) # drop (?n - 28) name"
  proof -
    have "?n - 29 < ?n" "Suc (?n - 29) = ?n - 28" using assms(1) by linarith+
    then show ?thesis using Cons_nth_drop_Suc [of "?n - 29" name] by simp
  qed
  also have "drop (?n - 28) name = take 24 (drop (?n - 28) name) @ drop 24 (drop (?n - 28) name)"
    by (rule append_take_drop_id [symmetric])
  also have "drop 24 (drop (?n - 28) name) = e" using assms(1,4) by (simp add: add.commute)
  also have "take (?n - 29) name = c # drop 1 (take (?n - 29) name)"
    using assms(1,2) by (cases name) (auto simp: take_Cons' split: if_splits)
  finally show ?thesis using assms(3) by simp
qed

text \<open>A name the clean-up recognises is one that staging makes, for a record name and 24 digits.\<close>

lemma staged_target_Some:
  assumes "staged_target name = Some target"
  shows "staged name" and "\<exists>token. name = temp_name target token \<and> length token = 24"
proof -
  let ?n = "length name"
  have n: "31 \<le> ?n" "hd name = CHR ''.''" "name ! (?n - 29) = CHR ''.''" "drop (?n - 4) name = ''.tmp''"
    and t: "target = drop 1 (take (?n - 29) name)"
    using assms by (auto simp: staged_target_def Let_def split: if_splits)
  from nth_hd_split [OF n] show "\<exists>token. name = temp_name target token \<and> length token = 24"
    using n(1) unfolding temp_name_def t
    by (intro exI [of _ "take 24 (drop (?n - 28) name)"]) simp
  then show "staged name" by (auto simp: staged_def)
qed

lemma discard_one_spec:
  assumes "keeps s0 s" and "staged name"
  shows "always C (keeps s0) (discard_one me name target) (\<lambda>r s'. s' = (if r = Inr () then removed name s else s)) s"
proof -
  have look: "always C (keeps s0) (open_or_refuse n m) (\<lambda>r s'. s' = s) s" for n m
    unfolding open_or_refuse_def progs by (rule call_Open_read) (use assms(1) in auto)
  have fstat: "always C (keeps s0) (callP (Fstat i) the_stat) (\<lambda>r s'. s' = s) s" for i
    by (rule call_Fstat) (use assms(1) in auto)
  have stat: "always C (keeps s0) (callP (Stat_name name) the_stat) (\<lambda>r s'. s' = s) s"
    by (rule call_Stat_name) (use assms(1) in auto)
  have rm: "always C (keeps s0) (call_unit (Unlink name)) (\<lambda>r s'. s' = (if r = Inr () then removed name s else s)) s"
    using keeps_unlink [OF assms(2,1)] by (intro call_Unlink) (auto simp: assms(1) removed_def)
  have final: "always C (keeps s0)
      (if b then bindP (open_or_refuse t m) (\<lambda>final. bindP (callP (Fstat final) the_stat) (\<lambda>i. liftP (f i)))
       else returnP ()) (\<lambda>r s'. s' = s) s" for b t m f
    using assms(1) by (cases b) (auto simp: always_liftP intro!: always_bindI [OF look] always_bindI [OF fstat])
  show ?thesis unfolding discard_one_def
  proof (rule always_bindI [OF look], goal_cases)
    case (1 i s1)
    then show ?case
    proof (simp only:, intro always_bindI [OF fstat], goal_cases)
      case (1 info s2)
      have check: "always C (keeps s0) (liftP (raise_if b c m)) (\<lambda>r s'. s' = s) s" for b c m
        using assms(1) by (simp add: progs)
      have last: "always C (keeps s0)
          (bindP (callP (Stat_name name) the_stat) (\<lambda>current. thenP (liftP (raise_if (P current) c m)) (call_unit (Unlink name))))
          (\<lambda>r s'. s' = (if r = Inr () then removed name s else s)) s" for P c m
        by (rule always_bindI [OF stat]) (auto intro!: always_thenI [OF check] rm)
      show ?case unfolding 1
      proof (rule always_thenI [OF check], goal_cases)
        case (1 s3)
        show ?case unfolding 1(2) by (rule always_thenI [OF final]) (use last in auto)
      qed auto
    qed auto
  qed auto
qed

definition discardable :: "(string \<Rightarrow> bool) \<Rightarrow> string \<Rightarrow> bool" where
  "discardable allowed name = (case staged_target name of None \<Rightarrow> False | Some target \<Rightarrow> allowed target)"

lemma discardable_staged: "discardable allowed name \<Longrightarrow> staged name"
  using staged_target_Some(1) by (auto simp: discardable_def split: option.splits)

lemma look_removed_all [simp]: "look (fold removed ns s) n = (if n \<in> set ns then None else look s n)"
  by (induction ns arbitrary: s) auto

lemma discard_names_spec:
  assumes "keeps s0 s"
  shows "always C (keeps s0) (discard_names me allowed names) (\<lambda>r s'. \<forall>k. r = Inr k \<longrightarrow>
      s' = fold removed (filter (discardable allowed) names) s \<and> k = length (filter (discardable allowed) names)) s"
  using assms
proof (induction names arbitrary: s)
  case (Cons name names)
  show ?case
  proof (cases "discardable allowed name")
    case False
    then have "discard_names me allowed (name # names) = discard_names me allowed names"
      by (auto simp: discardable_def split: option.splits)
    with False Cons.IH [OF Cons.prems] show ?thesis by simp
  next
    case True
    then obtain target where t: "staged_target name = Some target" "allowed target"
      by (auto simp: discardable_def split: option.splits)
    let ?rest = "bindP (discard_names me allowed names) (\<lambda>n. returnP (Suc n))"
    have eq: "discard_names me allowed (name # names) = thenP (discard_one me name target) ?rest"
      using t by simp
    show ?thesis unfolding eq
    proof (rule always_thenI [OF discard_one_spec [OF Cons.prems discardable_staged [OF True]]], goal_cases)
      case (1 s1)
      then have s1: "s1 = removed name s" by simp
      show ?case by (rule always_bindI [OF Cons.IH [OF 1(1)]]) (use True s1 in auto)
    qed auto
  qed
qed simp

lemma discard_staged_spec:
  "always C (keeps s0) (discard_staged_json me allowed) (\<lambda>r s. \<forall>k. r = Inr k \<longrightarrow> secure_dir me s0 \<and>
     k = length (filter (discardable allowed) (map fst (dr_entries s0))) \<and> (0 < k \<longrightarrow> dr_views s = []) \<and>
     (\<forall>n. look s n = (if discardable allowed n then None else look s0 n))) s0"
proof -
  have open_dir: "always C (keeps s0) (open_secure_directory me) (\<lambda>r s. s = s0 \<and> (r = Inr () \<longrightarrow> secure_dir me s0)) s0"
    by (auto intro: always_mono [OF open_secure_directory_spec])
  have listdir: "always C (keeps s0) (callP Listdir the_names)
      (\<lambda>r s. s = s0 \<and> (\<forall>ns. r = Inr ns \<longrightarrow> ns = map fst (dr_entries s0))) s0"
    by (rule call_Listdir) auto
  have entries: "n \<notin> fst ` set (dr_entries s0) \<Longrightarrow> look s0 n = None" for n by (simp add: map_of_eq_None_iff)
  have synced: "keeps s0 s \<Longrightarrow> keeps s0 (s\<lparr>dr_views := []\<rparr>)" for s
    using keeps_at_synced by (auto simp: keeps_def)
  show ?thesis unfolding discard_staged_json_def
  proof (rule always_thenI [OF open_dir], goal_cases)
    case (1 s)
    then have s: "s = s0" and dir: "secure_dir me s0" by auto
    show ?case unfolding s
    proof (rule always_bindI [OF listdir], goal_cases)
      case (1 ns s)
      then have s: "s = s0" and ns: "ns = map fst (dr_entries s0)" by auto
      show ?case unfolding s
      proof (rule always_bindI [OF discard_names_spec [OF keeps_refl]], goal_cases)
        case (1 k s1)
        then have s1: "s1 = fold removed (filter (discardable allowed) ns) s0"
          "k = length (filter (discardable allowed) ns)" by auto
        have looks: "look s1 n = (if discardable allowed n then None else look s0 n)" for n
          using entries [of n] unfolding s1 ns by auto
        show ?case
          by (rule always_thenI [where R = "\<lambda>r s. r = Inr () \<longrightarrow> s = (if 0 < k then s1\<lparr>dr_views := []\<rparr> else s1)"])
            (use 1(1) synced [OF 1(1)] dir looks s1(2) ns in \<open>auto intro!: call_Fsync_dir\<close>)
      qed auto
    qed auto
  qed auto
qed

section \<open>Runs in which the kernel works\<close>

text \<open>\<open>works p v P s\<close>: every run of \<open>p\<close> without a fault ends with the value \<open>v\<close> and a state of \<open>P\<close>.\<close>

definition works :: "'a prog \<Rightarrow> 'a \<Rightarrow> (dir \<Rightarrow> bool) \<Rightarrow> dir \<Rightarrow> bool" where
  "works p v P s = always working (\<lambda>_. True) p (\<lambda>r s'. r = Inr v \<and> P s') s"

lemma works_bindI: "works p v P s \<Longrightarrow> (\<And>s'. P s' \<Longrightarrow> works (f v) w Q s') \<Longrightarrow> works (bindP p f) w Q s"
  unfolding works_def by (erule always_bindI) auto

lemma works_thenI: "works p () P s \<Longrightarrow> (\<And>s'. P s' \<Longrightarrow> works q w Q s') \<Longrightarrow> works (thenP p q) w Q s"
  unfolding works_def by (erule always_thenI) auto

lemma works_catchI: "works p v P s \<Longrightarrow> works (catchP p c h) v P s"
  unfolding works_def by (erule always_catchI) auto

lemma works_finallyI: "works p v P s \<Longrightarrow> (\<And>s'. P s' \<Longrightarrow> works q () Q s') \<Longrightarrow> works (finallyP p q) v Q s"
  unfolding works_def by (erule always_finallyI) (fastforce intro: always_mono [of working "\<lambda>_. True" q])

lemma works_return [simp]: "works (returnP x) v P s \<longleftrightarrow> x = v \<and> P s"
  by (simp add: works_def)

lemma works_liftI: "r = Inr v \<Longrightarrow> P s \<Longrightarrow> works (liftP r) v P s"
  by (simp add: works_def always_liftP)

lemma works_callI:
  "(\<And>n x s'. perform (Suc n) c s = (x, s') \<Longrightarrow> (case x of R_error cls \<Rightarrow> raise cls [] | _ \<Rightarrow> f x) = Inr v \<and> P s') \<Longrightarrow>
   works (callP c f) v P s"
  unfolding works_def by (simp add: always_callP split: prod.split)

lemma works_mono: "works p v P s \<Longrightarrow> (\<And>s'. P s' \<Longrightarrow> Q s') \<Longrightarrow> works p v Q s"
  unfolding works_def by (erule always_mono) auto

lemma works_and_always:
  "works p v P s \<Longrightarrow> always working I p Q s \<Longrightarrow> works p v (\<lambda>s'. P s' \<and> Q (Inr v) s') s"
  unfolding works_def by (induction p arbitrary: s) auto

text \<open>Such a run ends, once it has enough choices.\<close>

lemma works_total:
  assumes "works p v P s" and "range f \<subseteq> working"
  shows "\<exists>n. \<forall>m \<ge> n. \<exists>s'. run (map f [0..<m]) p s = (Done (Inr v), s') \<and> P s'"
  using always_total [OF assms [unfolded works_def]] by blast

lemma works_open_secure_directory:
  assumes "secure_dir me s"
  shows "works (open_secure_directory me) () (\<lambda>s'. s' = s) s"
  using assms unfolding works_def open_secure_directory_def validate_secure_directory_def is_symlink_def
  by (simp add: progs always_callP call_unit_def secure_dir_def stat_of_dir_def raise_if_def)

lemma works_write_loop:
  "length data \<le> k \<Longrightarrow> works (write_loop k (dr_next s0) data) ()
     (\<lambda>s. \<exists>b. s = with_temp s0 tmp (f\<lparr>in_data := in_data f @ data, in_synced := b\<rparr>)) (with_temp s0 tmp f)"
proof (induction k "dr_next s0" data arbitrary: f rule: write_loop.induct)
  case (1 k)
  show ?case by (auto intro: exI [of _ "in_synced f"])
next
  case (3 k c cs)
  let ?d = "c # cs"
  have "works (if n = 0 then raiseP OSError ''short write to durable runtime record''
      else write_loop k (dr_next s0) (drop n ?d)) ()
     (\<lambda>s. \<exists>b. s = with_temp s0 tmp (f\<lparr>in_data := in_data f @ ?d, in_synced := b\<rparr>))
     (with_temp s0 tmp (f\<lparr>in_data := in_data f @ take n ?d, in_synced := False\<rparr>))" if n: "0 < n" for n
  proof -
    let ?g = "f\<lparr>in_data := in_data f @ take n ?d, in_synced := False\<rparr>"
    have "length (drop n ?d) \<le> k" using "3.prems" n by simp
    from "3.hyps" [OF _ this, of ?g] n show ?thesis
      by (simp del: take_Cons' drop_Cons')
  qed
  then show ?case
    by (simp add: works_def progs always_callP Let_def with_temp_inode min_def del: take_Cons' drop_Cons')
qed simp

lemma works_stage_json:
  assumes "\<And>n. look s0 (temp_name name (token_hex12 n)) = None"
    and "length (record_bytes payload) \<le> DEFAULT_MAX_PACKET_BYTES"
  shows "always working (\<lambda>_. True) (stage_json name payload)
    (\<lambda>r s. \<exists>tmp. r = Inr tmp \<and> s = with_temp s0 tmp (record_inode s0 (record_bytes payload))) s0"
proof -
  let ?data = "record_bytes payload"
  let ?body = "\<lambda>i. thenP (call_unit (Fchmod i PRIVATE_FILE)) (thenP (write_all i ?data) (call_unit (Fsync i)))"
  have body: "works (?body (dr_next s0)) () (\<lambda>s. s = with_temp s0 tmp (record_inode s0 ?data)) (with_temp s0 tmp f)"
    if f: "in_kind f = RegularFile" "in_uid f = dr_getuid s0" "in_data f = []" "in_links_elsewhere f = 0" for tmp f
  proof (rule works_thenI [where P = "\<lambda>s. s = with_temp s0 tmp (f\<lparr>in_mode := PRIVATE_FILE\<rparr>)"], goal_cases)
    case 1
    show ?case unfolding call_unit_def by (rule works_callI) (simp add: with_temp_inode)
  next
    case (2 s)
    show ?case unfolding 2 write_all_def
    proof (rule works_thenI [OF works_write_loop [OF order_refl]], goal_cases)
      case (1 s)
      then obtain b where s: "s = with_temp s0 tmp (f\<lparr>in_mode := PRIVATE_FILE, in_data := ?data, in_synced := b\<rparr>)"
        using f(3) by auto
      have "f\<lparr>in_mode := PRIVATE_FILE, in_data := ?data, in_synced := True\<rparr> = record_inode s0 ?data"
        using f by (cases f) (simp add: record_inode_def)
      then show ?case unfolding s call_unit_def by (intro works_callI) (auto simp: with_temp_inode)
    qed
  qed
  have rest: "works (thenP (catchP (?body i) (\<lambda>_. True) (\<lambda>e. thenP (unlink_quiet tmp) (Done (Inl e)))) (returnP tmp)) tmp
      (\<lambda>s. s = with_temp s0 tmp (record_inode s0 ?data)) (with_temp s0 tmp f)"
    if "i = dr_next s0" "in_kind f = RegularFile" "in_uid f = dr_getuid s0" "in_data f = []" "in_links_elsewhere f = 0"
    for i tmp f
    unfolding that(1) by (rule works_thenI [OF works_catchI [OF body [OF that(2-5)]]]) simp
  have "always working (\<lambda>_. True) (stage_bytes name ?data)
    (\<lambda>r s. \<exists>tmp. r = Inr tmp \<and> s = with_temp s0 tmp (record_inode s0 ?data)) s0"
    unfolding stage_bytes_def Let_def
    by (simp add: progs always_callP assms(1))
      (auto simp: works_def [symmetric] with_temp_def [symmetric] Let_def
        intro!: always_mono [OF rest [unfolded works_def]])
  then show ?thesis using assms(2) by (simp add: stage_json_def progs)
qed

lemma works_unlink_quiet:
  assumes "\<forall>i \<in> set_option (look s n). in_kind (dr_inode s i) \<noteq> DirectoryFile"
  shows "works (unlink_quiet n) () (\<lambda>s'. s' = removed n s) s"
  using assms unfolding works_def unlink_quiet_def progs call_unit_def
  by (auto simp: always_callP removed_def is_missing_def split: option.splits)

lemma always_and:
  "always C I p P s \<Longrightarrow> always C J p Q s \<Longrightarrow> always C (\<lambda>s. I s \<and> J s) p (\<lambda>r s. P r s \<and> Q r s) s"
  by (induction p arbitrary: s) auto

text \<open>Creation without a fault: it says whether the record is new, and then the record is durable.\<close>

lemma works_create_json:
  assumes "secure_dir me s0" and "\<not> staged name"
    and free: "\<And>n. look s0 (temp_name name (token_hex12 n)) = None"
    and bound: "length (record_bytes payload) \<le> DEFAULT_MAX_PACKET_BYTES"
  shows "works (atomic_create_json me name payload) (look s0 name = None)
    (\<lambda>s. look s0 name = None \<longrightarrow> durable s0 name (record_bytes payload) s) s0"
proof -
  let ?data = "record_bytes payload" and ?new = "look s0 name = None"
  let ?fin = "\<lambda>tmp. if ?new then linked s0 tmp name ?data else with_temp s0 tmp (record_inode s0 ?data)"
  have stage: "always working (\<lambda>_. True) (stage_json name payload) (\<lambda>r s. \<exists>tmp. r = Inr tmp \<and> tmp \<noteq> name \<and>
      s = with_temp s0 tmp (record_inode s0 ?data)) s0"
  proof (rule always_mono [OF always_and [OF works_stage_json [OF free bound]
        stage_json_spec [of working s0 name payload]]], goal_cases)
    case (2 r s)
    then show ?case using assms(2) by (cases r) auto
  qed simp
  have link: "works (finallyP (catchP (thenP (call_unit (Link tmp name)) (returnP True))
          (\<lambda>c. c = FileExistsError) (\<lambda>_. returnP False)) (unlink_quiet tmp)) ?new
      (\<lambda>s. s = removed tmp (?fin tmp)) (with_temp s0 tmp (record_inode s0 ?data))" if "tmp \<noteq> name" for tmp
  proof (rule works_finallyI [where P = "\<lambda>s. s = ?fin tmp"], goal_cases)
    case 1
    show ?case using that unfolding works_def progs call_unit_def
      by (auto simp: always_callP linked_def Let_def)
  next
    case (2 s)
    show ?case unfolding 2
      by (rule works_unlink_quiet) (use that in \<open>simp add: linked_def Let_def record_inode_def\<close>)
  qed
  have sync: "works (if ?new then thenP (call_unit Fsync_dir) (returnP True) else returnP False) ?new
      (\<lambda>s. look s tmp = None \<and> (?new \<longrightarrow> durable s0 name ?data s)) (removed tmp (?fin tmp))" if "tmp \<noteq> name" for tmp
    using linked_durable [OF that, of s0 ?data] unfolding works_def by (auto simp: progs always_callP call_unit_def)
  have last: "works (unlink_quiet tmp) () (\<lambda>s. ?new \<longrightarrow> durable s0 name ?data s) s"
    if "look s tmp = None \<and> (?new \<longrightarrow> durable s0 name ?data s)" for s tmp
    using that by (auto intro: works_mono [OF works_unlink_quiet])
  show ?thesis unfolding atomic_create_json_def
  proof (rule works_thenI [OF works_open_secure_directory [OF assms(1)]], goal_cases)
    case (1 s)
    show ?case unfolding 1 works_def
    proof (rule always_bindI [OF stage], goal_cases)
      case (1 tmp s)
      then have tmp: "tmp \<noteq> name" and s: "s = with_temp s0 tmp (record_inode s0 ?data)" by auto
      show ?case unfolding works_def [symmetric] s
        by (rule works_finallyI [OF works_bindI [OF link [OF tmp]] last]) (use sync [OF tmp] in auto)
    qed auto
  qed
qed

text \<open>Reading without a fault returns the record, decoded.\<close>

lemma works_read_loop:
  assumes "in_data (dr_inode s i) = acc @ rest" and "length (acc @ rest) \<le> DEFAULT_MAX_PACKET_BYTES"
    and "length rest < k"
  shows "works (read_loop k i acc) (acc @ rest) (\<lambda>s'. s' = s) s"
  using assms
proof (induction k arbitrary: acc rest)
  case (Suc k)
  have "works (if chunk = [] then returnP acc
      else if length (acc @ chunk) > DEFAULT_MAX_PACKET_BYTES
        then raiseP RuntimeSecurityError ''runtime record is too large''
      else read_loop k i (acc @ chunk)) (acc @ rest) (\<lambda>s'. s' = s) s"
    if "chunk = take (min 16384 (Suc (Suc n))) rest" for chunk n
  proof (cases "chunk = []")
    case True
    then have "rest = []" using that by (auto simp: min_def split: if_splits)
    then show ?thesis using True by simp
  next
    case False
    have rest: "rest = chunk @ drop (length chunk) rest" unfolding that by (simp add: min_def)
    have "0 < length chunk" "0 < length rest" using False unfolding that by auto
    then have "length (drop (length chunk) rest) < k" using Suc.prems(3) unfolding length_drop by linarith
    moreover have "length (acc @ chunk) \<le> DEFAULT_MAX_PACKET_BYTES"
      using Suc.prems(2) unfolding that by simp
    ultimately show ?thesis
      using Suc.IH [of "acc @ chunk" "drop (length chunk) rest"] Suc.prems(1,2) rest False by simp
  qed
  then show ?case using Suc.prems(1)
    unfolding works_def read_loop.simps by (simp add: progs always_callP)
qed simp

lemma works_read_json:
  assumes "secure_dir me s" and "look s name = Some i" and "\<not> unsafe_stat me (stat_of s i)"
    and "length (in_data (dr_inode s i)) \<le> DEFAULT_MAX_PACKET_BYTES"
    and "decode_record (in_data (dr_inode s i)) = Inr v"
  shows "works (read_secure_json me name) (Some v) (\<lambda>s'. s' = s) s"
  unfolding read_secure_json_def
proof (rule works_thenI [OF works_open_secure_directory [OF assms(1)]], goal_cases)
  case (1 s1)
  have open': "works (open_existing name) (Some i) (\<lambda>s'. s' = s) s"
    using assms(2,3) unfolding works_def open_existing_def
    by (auto simp: progs always_callP unsafe_stat_def stat_of_def Let_def)
  have check: "works (validate_regular_file me i) () (\<lambda>s'. s' = s) s"
    using assms(3) unfolding works_def validate_regular_file_def
    by (auto simp: progs always_callP unsafe_stat_def)
  have loop: "works (read_loop (DEFAULT_MAX_PACKET_BYTES + 2) i []) (in_data (dr_inode s i)) (\<lambda>s'. s' = s) s"
    using works_read_loop [of s i "[]" "in_data (dr_inode s i)" "DEFAULT_MAX_PACKET_BYTES + 2"] assms(4) by simp
  show ?case unfolding 1
  proof (rule works_bindI [OF open'], goal_cases)
    case (1 s1)
    show ?case unfolding 1 option.case
    proof (rule works_thenI [OF check], goal_cases)
      case (1 s1)
      show ?case unfolding 1
        by (rule works_bindI [OF loop]) (use assms(5) in \<open>auto simp: works_def progs\<close>)
    qed
  qed
qed

section \<open>Records on disk\<close>

text \<open>
  \<open>survivor s s'\<close>: \<open>s'\<close> is what a crash of the process or of the machine may leave of \<open>s\<close>: one of the
  versions of the directory since its last \<open>fsync\<close>, with every file that was written out.
\<close>

definition survivor :: "dir \<Rightarrow> dir \<Rightarrow> bool" where
  "survivor s s' \<longleftrightarrow> dr_entries s' \<in> set (dr_entries s # dr_views s) \<and>
     (\<forall>i. in_synced (dr_inode s i) \<longrightarrow> dr_inode s' i = dr_inode s i)"

text \<open>The record \<open>name\<close> is a private regular file of \<open>me\<close> with the content \<open>data\<close>.\<close>

definition holds :: "nat \<Rightarrow> dir \<Rightarrow> string \<Rightarrow> string \<Rightarrow> bool" where
  "holds me s name data \<longleftrightarrow> (\<exists>i. look s name = Some i \<and> in_kind (dr_inode s i) = RegularFile \<and>
     in_uid (dr_inode s i) = me \<and> in_mode (dr_inode s i) = PRIVATE_FILE \<and> in_data (dr_inode s i) = data)"

text \<open>The same in whatever a crash leaves.\<close>

definition stable :: "nat \<Rightarrow> dir \<Rightarrow> string \<Rightarrow> string \<Rightarrow> bool" where
  "stable me s name data \<longleftrightarrow> (\<exists>i. i < dr_next s \<and> views_at s name = {Some i} \<and> in_synced (dr_inode s i) \<and>
     in_kind (dr_inode s i) = RegularFile \<and> in_uid (dr_inode s i) = me \<and> in_mode (dr_inode s i) = PRIVATE_FILE \<and>
     in_data (dr_inode s i) = data)"

definition crash_empty :: dir where
  "crash_empty = \<lparr>dr_present = True, dr_kind = DirectoryFile, dr_uid = 7, dr_mode = PRIVATE_DIR, dr_entries = [],
     dr_inode = (\<lambda>_. \<lparr>in_kind = RegularFile, in_uid = 7, in_mode = PRIVATE_FILE, in_data = [], in_synced = True,
       in_links_elsewhere = 0\<rparr>), dr_next = 0, dr_views = [], dr_getuid = 7, dr_umask = 18\<rparr>"

lemma survivor_refl [simp]: "survivor s s"
  by (simp add: survivor_def)

lemma survivor_look: "survivor s s' \<Longrightarrow> look s' n \<in> views_at s n"
  by (auto simp: survivor_def views_at_def)

lemma survivor_stable: "stable me s name data \<Longrightarrow> survivor s s' \<Longrightarrow> holds me s' name data"
  unfolding stable_def holds_def using survivor_look [of s s' name] by (auto simp: survivor_def)

lemma unsafe_holds: "\<not> unsafe_stat me (stat_of s i) \<Longrightarrow> look s name = Some i \<Longrightarrow> holds me s name (in_data (dr_inode s i))"
  by (simp add: holds_def unsafe_stat_def stat_of_def Let_def)

lemma record_inode_simps [simp]:
  "in_kind (record_inode s0 d) = RegularFile" "in_uid (record_inode s0 d) = dr_getuid s0"
  "in_mode (record_inode s0 d) = PRIVATE_FILE" "in_data (record_inode s0 d) = d" "in_synced (record_inode s0 d)"
  by (simp_all add: record_inode_def)

lemma durable_holds:
  assumes "durable s0 name data s" and "dr_getuid s0 = me" and "survivor s s'"
  shows "holds me s' name data"
proof -
  obtain i where i: "dr_inode s i = record_inode s0 data" "views_at s name = {Some i}"
    using assms(1) by (auto simp: durable_def)
  then have "look s' name = Some i" "dr_inode s' i = record_inode s0 data"
    using assms(3) survivor_look [OF assms(3), of name] by (auto simp: survivor_def)
  then show ?thesis using assms(2) by (simp add: holds_def)
qed

text \<open>After a crash in the middle of a publication the record is as before, or the new one.\<close>

lemma updates_survivor:
  assumes "updates s0 name data s" and "dr_getuid s0 = me" and "survivor s s'"
  shows "look s' name \<in> views_at s0 name \<or> holds me s' name data"
    and "\<not> staged n \<Longrightarrow> n \<noteq> name \<Longrightarrow> look s' n \<in> views_at s0 n"
proof -
  note seen = survivor_look [OF assms(3)]
  show "\<not> staged n \<Longrightarrow> n \<noteq> name \<Longrightarrow> look s' n \<in> views_at s0 n"
    using seen [of n] assms(1) by (auto simp: updates_def keeps_at_def)
  show "look s' name \<in> views_at s0 name \<or> holds me s' name data"
  proof (cases "keeps_at s0 s name")
    case False
    then obtain i where i: "dr_inode s i = record_inode s0 data" "views_at s name \<subseteq> insert (Some i) (views_at s0 name)"
      using assms(1) by (auto simp: updates_def published_def)
    then have "look s' name = Some i \<or> look s' name \<in> views_at s0 name" using seen [of name] by auto
    moreover have "dr_inode s' i = record_inode s0 data" using i(1) assms(3) by (simp add: survivor_def)
    ultimately show ?thesis using assms(2) by (auto simp: holds_def)
  qed (use seen [of name] in \<open>auto simp: keeps_at_def\<close>)
qed

text \<open>A file that was there and written out is still the same file after the crash.\<close>

lemma same_files_survivor:
  assumes "stable me s0 name old" and "same_files s0 s" and "survivor s s'" and "look s' name \<in> views_at s0 name"
  shows "holds me s' name old"
proof -
  obtain i where i: "i < dr_next s0" "views_at s0 name = {Some i}" "in_synced (dr_inode s0 i)"
    "in_kind (dr_inode s0 i) = RegularFile" "in_uid (dr_inode s0 i) = me" "in_mode (dr_inode s0 i) = PRIVATE_FILE"
    "in_data (dr_inode s0 i) = old"
    using assms(1) by (auto simp: stable_def)
  then have "dr_inode s' i = dr_inode s0 i" using assms(2,3) by (simp add: same_files_def survivor_def)
  with i assms(4) show ?thesis by (simp add: holds_def)
qed

lemma run_always:
  assumes "run cs p s = (p', s')" and "always UNIV I p Q s"
  shows "I s'" and "outcome p' = Some r \<Longrightarrow> Q r s'"
  using always_run [OF assms(2) _ assms(1)] by (cases p'; simp)+

section \<open>Properties\<close>

text \<open>A directory with one record, for the instances below.\<close>

definition one_record :: "string \<Rightarrow> string \<Rightarrow> dir" where
  "one_record name data = crash_empty\<lparr>dr_entries := [(name, 0)], dr_next := 1,
     dr_inode := (\<lambda>_. record_inode crash_empty data)\<rparr>"

lemma crash_empty_simps [simp]:
  "dr_getuid crash_empty = 7" "secure_dir 7 crash_empty" "look crash_empty n = None" "views_at crash_empty n = {None}"
  "proper_dir crash_empty"
  by (simp_all add: crash_empty_def secure_dir_def views_at_def proper_dir_def)

lemma one_record_simps [simp]:
  "dr_getuid (one_record name data) = 7" "secure_dir 7 (one_record name data)"
  "proper_dir (one_record name data)" "stable 7 (one_record name data) name data"
  "look (one_record name data) n = (if n = name then Some 0 else None)"
  by (simp_all add: one_record_def crash_empty_def secure_dir_def proper_dir_def stable_def views_at_def record_inode_def)

lemma not_staged_a: "\<not> staged ''fence.json''"
  by (simp add: staged_def temp_name_def)

lemma record_bytes_empty: "record_bytes (JObj []) = [CHR 0x7B, CHR 0x7D, CHR 0x0A]"
  by code_simp

lemma create_runs: "\<exists>cs s. run cs (atomic_create_json 7 ''fence.json'' (JObj [])) crash_empty = (Done (Inr True), s)"
proof -
  let ?p = "atomic_create_json 7 ''fence.json'' (JObj [])"
  have "length (record_bytes (JObj [])) \<le> DEFAULT_MAX_PACKET_BYTES"
    unfolding record_bytes_empty by (simp add: DEFAULT_MAX_PACKET_BYTES_def)
  from works_create_json [OF _ not_staged_a _ this, of 7 crash_empty]
  have "works ?p True (\<lambda>s. True) crash_empty" by (auto intro: works_mono)
  from works_total [OF this, of "\<lambda>_. Proceed 1"] have "\<exists>n. \<forall>m \<ge> n. \<exists>s.
      run (map (\<lambda>_. Proceed 1) [0..<m]) ?p crash_empty = (Done (Inr True), s)" by (auto simp: working_def)
  then show ?thesis by blast
qed

text \<open>
  C24: Creation publishes all of a record or nothing of it. Whatever faults a run of \<open>_atomic_create_json\<close>
  meets and wherever the process or the machine stops, what is left of the directory afterwards has
  either no such record or a private file with the whole encoded payload, and no other record is
  touched. If the call returned \<open>True\<close> the record was not there before and is there in whatever is
  left; if it returned \<open>False\<close> it was there before and is unchanged.
\<close>

theorem create_all_or_nothing:
  assumes "run cs (atomic_create_json me name payload) s0 = (p, s)" and "survivor s s'"
    and "\<not> staged name" and "dr_getuid s0 = me" and "views_at s0 name = {look s0 name}"
  shows "(look s' name = look s0 name \<or> holds me s' name (record_bytes payload)) \<and>
    (\<forall>n. \<not> staged n \<longrightarrow> n \<noteq> name \<longrightarrow> look s' n \<in> views_at s0 n) \<and>
    (outcome p = Some (Inr True) \<longrightarrow> look s0 name = None \<and> holds me s' name (record_bytes payload)) \<and>
    (outcome p = Some (Inr False) \<longrightarrow> look s0 name \<noteq> None \<and> look s name = look s0 name)"
proof -
  note spec = run_always [OF assms(1) create_json_spec [OF assms(3)]]
  have "outcome p = Some (Inr True) \<Longrightarrow> look s0 name = None \<and> holds me s' name (record_bytes payload)"
    using spec(2) [of "Inr True", rule_format, of True] durable_holds [OF _ assms(4,2)] by simp
  moreover have "outcome p = Some (Inr False) \<Longrightarrow> look s0 name \<noteq> None \<and> look s name = look s0 name"
    using spec(2) [of "Inr False", rule_format, of False] by simp
  ultimately show ?thesis using updates_survivor [OF spec(1) assms(4,2)] assms(5) by auto
qed

theorem create_all_or_nothing_witness:
  "\<exists>cs p s. run cs (atomic_create_json 7 ''fence.json'' (JObj [])) crash_empty = (p, s) \<and>
     outcome p = Some (Inr True) \<and> holds 7 s ''fence.json'' [CHR 0x7B, CHR 0x7D, CHR 0x0A]"
proof -
  obtain cs s where r: "run cs (atomic_create_json 7 ''fence.json'' (JObj [])) crash_empty = (Done (Inr True), s)"
    using create_runs by blast
  from create_all_or_nothing [OF r survivor_refl not_staged_a]
  have "holds 7 s ''fence.json'' [CHR 0x7B, CHR 0x7D, CHR 0x0A]" by (simp add: record_bytes_empty)
  moreover have "outcome (Done (Inr True) :: bool prog) = Some (Inr True)" by simp
  ultimately show ?thesis using r by blast
qed

text \<open>
  C25: Replacement is atomic. When the record was safely on disk with the content \<open>old\<close>, then whatever
  faults a run of \<open>_atomic_replace_json\<close> meets and wherever it is stopped, the record is afterwards a
  private file with either all of \<open>old\<close> or all of the new content, and it is the new one once the
  call has returned.
\<close>

theorem replace_old_or_new:
  assumes "run cs (atomic_replace_json me name payload) s0 = (p, s)" and "survivor s s'"
    and "\<not> staged name" and "proper_dir s0" and "dr_getuid s0 = me" and "stable me s0 name old"
  shows "(holds me s' name old \<or> holds me s' name (record_bytes payload)) \<and>
    (outcome p = Some (Inr ()) \<longrightarrow> holds me s' name (record_bytes payload))"
proof -
  note spec = run_always [OF assms(1) replace_json_spec [OF assms(3,4)]]
  have "same_files s0 s" using spec(1) by (simp add: updates_def)
  from updates_survivor(1) [OF spec(1) assms(5,2)] same_files_survivor [OF assms(6) this assms(2)]
  show ?thesis using spec(2) durable_holds [OF _ assms(5,2)] by blast
qed

theorem replace_old_or_new_witness:
  "let s = snd (run [Proceed 0, Proceed 0, Proceed 0, Proceed 0, Proceed 0, Proceed 0]
     (atomic_replace_json 7 ''fence.json'' (JObj [])) (one_record ''fence.json'' ''old''))
   in holds 7 s ''fence.json'' ''old'' \<or> holds 7 s ''fence.json'' [CHR 0x7B, CHR 0x7D, CHR 0x0A]"
  unfolding Let_def record_bytes_empty [symmetric]
  using replace_old_or_new [OF prod.collapse [symmetric] survivor_refl not_staged_a one_record_simps(3,1,4)]
  by blast

text \<open>
  C28: A record that \<open>_durable_unlink\<close> reports removed stays removed after a crash; one it reports
  missing was missing; until it returns the record is either untouched or gone, and every other
  name of the directory is untouched.
\<close>

theorem unlink_is_durable:
  assumes "run cs (durable_unlink me name) s0 = (p, s)" and "survivor s s'"
  shows "(look s' name = None \<or> look s' name \<in> views_at s0 name) \<and>
    (\<forall>n. n \<noteq> name \<longrightarrow> look s' n \<in> views_at s0 n) \<and>
    (outcome p = Some (Inr True) \<longrightarrow> look s0 name \<noteq> None \<and> look s' name = None) \<and>
    (outcome p = Some (Inr False) \<longrightarrow> look s0 name = None)"
proof -
  note spec = run_always [OF assms(1) durable_unlink_spec]
  have d: "drops s0 name s" by (rule spec(1))
  have seen: "look s' n \<in> views_at s n" for n by (rule survivor_look [OF assms(2)])
  have "look s' n \<in> views_at s0 n" if "n \<noteq> name" for n
    using d seen [of n] that by (auto simp: drops_def keeps_at_def)
  moreover have "look s' name = None \<or> look s' name \<in> views_at s0 name"
    using d seen [of name] by (auto simp: drops_def keeps_at_def)
  moreover have "outcome p = Some (Inr True) \<Longrightarrow> look s0 name \<noteq> None \<and> look s' name = None"
    using spec(2) [of "Inr True", rule_format, of True] seen [of name] by auto
  moreover have "outcome p = Some (Inr False) \<Longrightarrow> look s0 name = None"
    using spec(2) [of "Inr False", rule_format, of False] by simp
  ultimately show ?thesis by blast
qed

theorem unlink_is_durable_witness:
  "let s = snd (run [Proceed 0, Proceed 0, Fail] (durable_unlink 7 ''fence.json'') (one_record ''fence.json'' ''old''))
   in look s ''other'' \<in> views_at (one_record ''fence.json'' ''old'') ''other''"
  using unlink_is_durable [OF prod.collapse [symmetric] survivor_refl, of
      "[Proceed 0, Proceed 0, Fail]" 7 "''fence.json''" "one_record ''fence.json'' ''old''"]
  by (simp add: Let_def)

text \<open>
  C29: The clean-up removes exactly the staged files whose target it was given, says how many there
  were, and never touches a record, however it ends.
\<close>

theorem discard_only_staged:
  assumes "run cs (discard_staged_json me allowed) s0 = (p, s)"
  shows "(\<forall>n. (\<exists>filename token. n = temp_name filename token) \<or> look s n = look s0 n) \<and>
    (\<forall>k. outcome p = Some (Inr k) \<longrightarrow>
       k = length (filter (discardable allowed) (map fst (dr_entries s0))) \<and>
       (\<forall>n. look s n = (if discardable allowed n then None else look s0 n)))"
proof -
  note spec = run_always [OF assms discard_staged_spec]
  have "staged n \<or> look s n = look s0 n" for n
    using spec(1) by (auto simp: keeps_def keeps_at_def)
  then show ?thesis using spec(2) by (auto simp: staged_def)
qed

theorem discard_only_staged_witness:
  "let s = snd (run [Proceed 0, Proceed 0, Proceed 0, Proceed 0, Proceed 0] (discard_staged_json 7 (\<lambda>_. True))
     (one_record ''fence.json'' ''old''))
   in look s ''fence.json'' = Some 0"
proof -
  let ?r = "run [Proceed 0, Proceed 0, Proceed 0, Proceed 0, Proceed 0] (discard_staged_json 7 (\<lambda>_. True))
    (one_record ''fence.json'' ''old'')"
  have "\<not> (\<exists>filename token. ''fence.json'' = temp_name filename token)"
    using not_staged_a by (simp add: staged_def)
  with conjunct1 [OF discard_only_staged [OF prod.collapse [symmetric], of "[Proceed 0, Proceed 0, Proceed 0, Proceed 0, Proceed 0]"
      7 "\<lambda>_. True" "one_record ''fence.json'' ''old''"]]
  have "look (snd ?r) ''fence.json'' = look (one_record ''fence.json'' ''old'') ''fence.json''" by blast
  then show ?thesis by (simp add: Let_def)
qed

lemma decode_record_bytes:
  assumes "json_wf (JObj kvs)" and "json_bounded (JObj kvs)"
    and "length (record_bytes (JObj kvs)) \<le> DEFAULT_MAX_PACKET_BYTES"
  shows "\<exists>v. decode_record (record_bytes (JObj kvs)) = Inr v \<and> JObj v = json_canon (JObj kvs)"
proof -
  have "map_sum id JObj (strict_json_loads (record_bytes (JObj kvs)) DEFAULT_MAX_PACKET_BYTES) = Inr (json_canon (JObj kvs))"
    using strict_json_loads_canonical [OF assms(1,2), of "[CHR 0x0A]"] assms(3) by (simp add: record_bytes_def)
  then show ?thesis
    by (cases "strict_json_loads (record_bytes (JObj kvs)) DEFAULT_MAX_PACKET_BYTES") (auto simp: decode_record_def)
qed

lemma secure_same_files: "secure_dir me s0 \<Longrightarrow> same_files s0 s \<Longrightarrow> secure_dir me s"
  by (simp add: secure_dir_def same_files_def)

text \<open>
  C26: What was created is what is read. After a run of \<open>_atomic_create_json\<close> that returned \<open>True\<close>,
  whatever it went through, every read of the record in which the kernel works comes to an end, with
  the payload in its canonical form, and changes nothing.
\<close>

theorem created_record_is_read_back:
  assumes "run cs (atomic_create_json me name (JObj kvs)) s0 = (p, s)" and "outcome p = Some (Inr True)"
    and "\<not> staged name" and "dr_getuid s0 = me" and "json_wf (JObj kvs)" and "json_bounded (JObj kvs)"
    and "range choices \<subseteq> working"
  shows "\<exists>n v. JObj v = json_canon (JObj kvs) \<and>
    (\<forall>m \<ge> n. run (map choices [0..<m]) (read_secure_json me name) s = (Done (Inr (Some v)), s))"
proof -
  let ?data = "record_bytes (JObj kvs)"
  note spec = run_always [OF assms(1) create_json_spec [OF assms(3)]]
  have fin: "secure_dir me s0" "length ?data \<le> DEFAULT_MAX_PACKET_BYTES" "durable s0 name ?data s"
    using spec(2) [OF assms(2), rule_format, of True] by simp_all
  obtain v where v: "decode_record ?data = Inr v" "JObj v = json_canon (JObj kvs)"
    using decode_record_bytes [OF assms(5,6) fin(2)] by blast
  obtain i where i: "look s name = Some i" "dr_inode s i = record_inode s0 ?data"
    using fin(3) by (auto simp: durable_def)
  have "secure_dir me s" using fin(1) spec(1) by (auto simp: updates_def intro: secure_same_files)
  moreover have "\<not> unsafe_stat me (stat_of s i)" using i(2) assms(4) by (simp add: unsafe_stat_def stat_of_def Let_def)
  ultimately have "works (read_secure_json me name) (Some v) (\<lambda>s'. s' = s) s"
    using i fin(2) v(1) by (intro works_read_json [where i = i]) simp_all
  from works_total [OF this assms(7)] v(2) show ?thesis by blast
qed

theorem created_record_is_read_back_witness:
  "\<exists>cs s v n. outcome (fst (run cs (atomic_create_json 7 ''fence.json'' (JObj [])) crash_empty)) = Some (Inr True) \<and>
    run (map (\<lambda>_. Proceed 1) [0..<n]) (read_secure_json 7 ''fence.json'') s = (Done (Inr (Some v)), s) \<and> JObj v = JObj []"
proof -
  obtain cs s where r: "run cs (atomic_create_json 7 ''fence.json'' (JObj [])) crash_empty = (Done (Inr True), s)"
    using create_runs by blast
  have "json_wf (JObj [])" "json_bounded (JObj [])" "json_canon (JObj []) = JObj []" by code_simp+
  moreover have "range (\<lambda>_ :: nat. Proceed 1) \<subseteq> working" by (auto simp: working_def)
  ultimately have "\<exists>n v. JObj v = json_canon (JObj []) \<and>
    (\<forall>m \<ge> n. run (map (\<lambda>_. Proceed 1) [0..<m]) (read_secure_json 7 ''fence.json'') s = (Done (Inr (Some v)), s))"
    by (intro created_record_is_read_back [OF r _ not_staged_a]) simp_all
  then obtain n v where "JObj v = JObj []"
    "\<forall>m \<ge> n. run (map (\<lambda>_. Proceed 1) [0..<m]) (read_secure_json 7 ''fence.json'') s = (Done (Inr (Some v)), s)"
    using \<open>json_canon (JObj []) = JObj []\<close> by metis
  moreover have "outcome (fst (run cs (atomic_create_json 7 ''fence.json'' (JObj [])) crash_empty)) = Some (Inr True)"
    by (simp add: r)
  ultimately show ?thesis by blast
qed

text \<open>
  C27: Creation comes to an end. In a secure directory, with room for the staged file and a payload
  within the bound, a run of \<open>_atomic_create_json\<close> in which the kernel works, however few bytes each
  write moves, returns after finitely many calls: \<open>True\<close> exactly when the record was not there.
\<close>

theorem create_terminates:
  assumes "secure_dir me s0" and "\<not> staged name" and "\<forall>n. look s0 (temp_name name (token_hex12 n)) = None"
    and "length (record_bytes payload) \<le> DEFAULT_MAX_PACKET_BYTES" and "range choices \<subseteq> working"
  shows "\<exists>n. \<forall>m \<ge> n. \<exists>s. run (map choices [0..<m]) (atomic_create_json me name payload) s0 =
    (Done (Inr (look s0 name = None)), s)"
  using works_total [OF works_create_json [OF assms(1,2) spec [OF assms(3)] assms(4)] assms(5)] by blast

theorem create_terminates_witness:
  "\<exists>n s. run (map (\<lambda>_. Proceed 1) [0..<n]) (atomic_create_json 7 ''fence.json'' (JObj []))
     (one_record ''fence.json'' ''old'') = (Done (Inr False), s)"
proof -
  let ?s0 = "one_record ''fence.json'' ''old''"
  have "\<forall>n. look ?s0 (temp_name ''fence.json'' (token_hex12 n)) = None" by (simp add: temp_name_def)
  moreover have "length (record_bytes (JObj [])) \<le> DEFAULT_MAX_PACKET_BYTES"
    unfolding record_bytes_empty by (simp add: DEFAULT_MAX_PACKET_BYTES_def)
  moreover have "range (\<lambda>_ :: nat. Proceed 1) \<subseteq> working" by (auto simp: working_def)
  ultimately have "\<exists>n. \<forall>m \<ge> n. \<exists>s. run (map (\<lambda>_. Proceed 1) [0..<m]) (atomic_create_json 7 ''fence.json'' (JObj []))
     ?s0 = (Done (Inr (look ?s0 ''fence.json'' = None)), s)"
    by (rule create_terminates [OF one_record_simps(2) not_staged_a])
  moreover have "(look ?s0 ''fence.json'' = None) = False" by simp
  ultimately have "\<exists>n. \<forall>m \<ge> n. \<exists>s. run (map (\<lambda>_. Proceed 1) [0..<m])
      (atomic_create_json 7 ''fence.json'' (JObj [])) ?s0 = (Done (Inr False), s)" by (simp only:)
  then show ?thesis by blast
qed

end
