(* ===== verification/Runtime.thy ===== *)
theory Runtime
  imports Durable
begin

text \<open>
  The records of \<open>system/grok-proxy/grok_ms/runtime.py\<close>: process identities and what \<open>/proc\<close> says about
  them, the recovery fence and the effect intents. What the kernel answers (\<open>/proc\<close>, \<open>pidfd\<close>) is an
  argument of the functions that ask.
\<close>

section \<open>Validators\<close>

definition SCHEMA_VERSION :: int where "SCHEMA_VERSION = 1"
definition MAX_PID :: int where "MAX_PID = 2 ^ 31 - 1"
definition MAX_COUNT :: int where "MAX_COUNT = 2 ^ 63 - 1"

definition RUNTIME_TOKEN_RE :: "string \<Rightarrow> bool" where
  "RUNTIME_TOKEN_RE s \<longleftrightarrow> 1 \<le> length s \<and> length s \<le> 256 \<and> list_all RECORD_CHAR s"

definition BOOT_ID_RE :: "string \<Rightarrow> bool" where
  "BOOT_ID_RE s \<longleftrightarrow> length s = 36 \<and>
     list_all (\<lambda>i. if i \<in> {8, 13, 18, 23} then s ! i = CHR ''-'' else is_hex (s ! i)) [0..<36]"

definition FENCE_PHASES :: "string list" where
  "FENCE_PHASES = [''BOOTSTRAPPING'', ''RECOVERING'', ''READY'', ''DRAINING'']"

definition INTENT_PHASES :: "string list" where
  "INTENT_PHASES = [''PREPARED'', ''APPLIED'', ''CLEANED'', ''FAILED'']"

definition runtime_token :: "json \<Rightarrow> string \<Rightarrow> string result" where
  "runtime_token v path =
     (case v of JStr s \<Rightarrow> (if RUNTIME_TOKEN_RE s then Inr s else raise ValueError (path @ '': invalid token''))
      | _ \<Rightarrow> raise ValueError (path @ '': invalid token''))"

definition runtime_int :: "json \<Rightarrow> string \<Rightarrow> int \<Rightarrow> int \<Rightarrow> int result" where
  "runtime_int v path minimum maximum =
     (case v of JInt i \<Rightarrow> (if minimum \<le> i \<and> i \<le> maximum then Inr i else raise ValueError (path @ '': expected integer''))
      | _ \<Rightarrow> raise ValueError (path @ '': expected integer''))"

definition runtime_exact_keys :: "json \<Rightarrow> string list \<Rightarrow> string \<Rightarrow> jobject result" where
  "runtime_exact_keys v expected path =
     (case v of
        JObj kvs \<Rightarrow> (if fst ` set kvs \<noteq> set expected then raise ValueError (path @ '': keys differ'') else Inr kvs)
      | _ \<Rightarrow> raise ValueError (path @ '': expected an object with string keys''))"

definition runtime_pattern :: "json \<Rightarrow> (string \<Rightarrow> bool) \<Rightarrow> string \<Rightarrow> unit result" where
  "runtime_pattern v pattern msg =
     (case v of JStr s \<Rightarrow> raise_if (\<not> pattern s) ValueError msg | _ \<Rightarrow> raise ValueError msg)"

lemma runtime_token_Inr [valid]: "runtime_token v p = Inr s \<longleftrightarrow> v = JStr s \<and> RUNTIME_TOKEN_RE s"
  by (auto simp: runtime_token_def split: json.split)

lemma runtime_int_Inr [valid]: "runtime_int v p mn mx = Inr i \<longleftrightarrow> v = JInt i \<and> mn \<le> i \<and> i \<le> mx"
  by (auto simp: runtime_int_def split: json.split)

lemma runtime_exact_keys_Inr [valid]:
  "runtime_exact_keys v ks p = Inr kvs \<longleftrightarrow> v = JObj kvs \<and> fst ` set kvs = set ks"
  by (auto simp: runtime_exact_keys_def split: json.split)

lemma runtime_pattern_Inr [valid]: "runtime_pattern v pat m = Inr u \<longleftrightarrow> (\<exists>s. v = JStr s \<and> pat s)"
  by (auto simp: runtime_pattern_def split: json.split)

lemma raises_runtime [raising]:
  "ValueError \<in> C \<Longrightarrow> raises C (runtime_token v p)" "ValueError \<in> C \<Longrightarrow> raises C (runtime_int v p mn mx)"
  "ValueError \<in> C \<Longrightarrow> raises C (runtime_exact_keys v ks p)" "ValueError \<in> C \<Longrightarrow> raises C (runtime_pattern v pat m)"
  by (auto simp: runtime_token_def runtime_int_def runtime_exact_keys_def runtime_pattern_def
      intro!: raises_raise_if split: json.split)

section \<open>Process identities\<close>

record process_identity =
  pi_pid :: int
  pi_start_ticks :: int
  pi_boot_id :: string

definition process_identity_post_init :: "json \<Rightarrow> json \<Rightarrow> json \<Rightarrow> unit result" where
  "process_identity_post_init pid ticks boot = seqE [
     voidE (runtime_int pid ''process.pid'' 1 MAX_PID),
     voidE (runtime_int ticks ''process.start_ticks'' 1 MAX_COUNT),
     runtime_pattern boot BOOT_ID_RE ''process.boot_id: invalid Linux boot ID'']"

definition process_identity_ok :: "process_identity \<Rightarrow> bool" where
  "process_identity_ok p \<longleftrightarrow> 1 \<le> pi_pid p \<and> pi_pid p \<le> MAX_PID \<and>
     1 \<le> pi_start_ticks p \<and> pi_start_ticks p \<le> MAX_COUNT \<and> BOOT_ID_RE (pi_boot_id p)"

text \<open>\<open>str.lower\<close> on ASCII text, which is all the boot id file may hold.\<close>

definition lower_char :: "char \<Rightarrow> char" where
  "lower_char c = (if is_upper c then char_of (ord c + 32) else c)"

text \<open>\<open>handle.read(128)\<close> on the file's text; what \<open>open\<close> and the decoder raise is part of \<open>file\<close>.\<close>

definition read_boot_id :: "string result \<Rightarrow> string result" where
  "read_boot_id file = bindE file (\<lambda>content.
     let value = map lower_char (strip (take 128 content)) in
     if BOOT_ID_RE value then Inr value else raise ValueError ''kernel boot_id has an invalid shape'')"

text \<open>\<open>record.rfind(')')\<close>\<close>

definition rfind_close :: "string \<Rightarrow> nat option" where
  "rfind_close s = (case index_of (CHR '')'') (rev s) of None \<Rightarrow> None | Some i \<Rightarrow> Some (length s - 1 - i))"

definition is_alpha :: "char \<Rightarrow> bool" where
  "is_alpha c \<longleftrightarrow> is_lower c \<or> is_upper c"

text \<open>
  The text of \<open>/proc/<pid>/stat\<close> is ASCII, so \<open>isdecimal\<close> is about the ten digits; \<open>int\<close> refuses more
  than 4300 of them.
\<close>

definition read_pid_state_and_start_ticks :: "int \<Rightarrow> string result \<Rightarrow> (string \<times> int) result" where
  "read_pid_state_and_start_ticks pid file =
     bindE (runtime_int (JInt pid) ''pid'' 1 MAX_PID) (\<lambda>_.
     bindE file (\<lambda>content.
     let record = take 65536 content in
     case rfind_close record of
       None \<Rightarrow> raise ValueError ''malformed process stat record''
     | Some closing \<Rightarrow>
         if closing + 2 > length record then raise ValueError ''malformed process stat record''
         else let fields = split_ws (drop (closing + 2) record) in
           if length fields \<le> 19 then raise ValueError ''short process stat record''
           else let state = fields ! 0; value = fields ! 19 in
             if length state \<noteq> 1 \<or> \<not> list_all is_alpha state then raise ValueError ''invalid process state''
             else if value = [] \<or> \<not> list_all is_digit value then raise ValueError ''invalid process start time''
             else if length value > 4300 then raise ValueError ''Exceeds the limit for integer string conversion''
             else bindE (runtime_int (JInt (int (dec_nat value))) ''process.start_ticks'' 1 MAX_COUNT) (\<lambda>ticks.
               Inr (state, ticks))))"

definition read_pid_start_ticks :: "int \<Rightarrow> string result \<Rightarrow> int result" where
  "read_pid_start_ticks pid file = bindE (read_pid_state_and_start_ticks pid file) (\<lambda>r. Inr (snd r))"

definition current_process_identity :: "int \<Rightarrow> string result \<Rightarrow> string result \<Rightarrow> process_identity result" where
  "current_process_identity pid stat_file boot_file =
     bindE (read_pid_start_ticks pid stat_file) (\<lambda>ticks.
     bindE (read_boot_id boot_file) (\<lambda>boot.
     thenE (process_identity_post_init (JInt pid) (JInt ticks) (JStr boot))
       (Inr \<lparr>pi_pid = pid, pi_start_ticks = ticks, pi_boot_id = boot\<rparr>)))"

text \<open>\<open>PermissionError\<close> is an \<open>OSError\<close>.\<close>

definition os_or_value :: "exc_class \<Rightarrow> bool" where
  "os_or_value c \<longleftrightarrow> is_os_error c \<or> is_value_error c"

definition process_matches :: "process_identity \<Rightarrow> string result \<Rightarrow> string result \<Rightarrow> bool result" where
  "process_matches who boot_file stat_file =
     catchE (bindE (read_boot_id boot_file) (\<lambda>boot.
       if boot \<noteq> pi_boot_id who then Inr False
       else bindE (read_pid_start_ticks (pi_pid who) stat_file) (\<lambda>ticks. Inr (ticks = pi_start_ticks who))))
     os_or_value (\<lambda>_. Inr False)"

text \<open>What the kernel answers to the questions of \<open>process_can_still_execute\<close>, in their order.\<close>

record probe =
  pr_boot :: "string result"
  pr_stat :: "string result"
  pr_has_pidfd :: bool
  pr_open :: "unit result"
  pr_boot2 :: "string result"
  pr_stat2 :: "string result"
  pr_readable :: "bool result"

definition gone :: "exc_class \<Rightarrow> bool" where
  "gone c \<longleftrightarrow> c \<in> {FileNotFoundError, ProcessLookupError}"

text \<open>
  Both inspections of boot id, state and start time; \<open>None\<close> when neither \<open>return\<close> was taken.
\<close>

definition inspect_boot :: "process_identity \<Rightarrow> string result \<Rightarrow> bool option result" where
  "inspect_boot who file = catchE (bindE (read_boot_id file) (\<lambda>boot.
     Inr (if boot \<noteq> pi_boot_id who then Some False else None))) os_or_value (\<lambda>_. Inr (Some True))"

definition inspect_stat :: "process_identity \<Rightarrow> string result \<Rightarrow> bool option result" where
  "inspect_stat who file = catchE (catchE
     (bindE (read_pid_state_and_start_ticks (pi_pid who) file) (\<lambda>(state, ticks).
       Inr (if ticks \<noteq> pi_start_ticks who \<or> state \<in> {''Z'', ''X'', ''x''} then Some False else None)))
     gone (\<lambda>_. Inr (Some False))) os_or_value (\<lambda>_. Inr (Some True))"

text \<open>\<open>if <a return was taken>: return it\<close>, else go on.\<close>

definition or_else :: "bool option result \<Rightarrow> bool result \<Rightarrow> bool result" where
  "or_else m k = bindE m (\<lambda>r. case r of Some b \<Rightarrow> Inr b | None \<Rightarrow> k)"

definition process_can_still_execute :: "process_identity \<Rightarrow> probe \<Rightarrow> bool result" where
  "process_can_still_execute who p =
     or_else (inspect_boot who (pr_boot p))
    (or_else (inspect_stat who (pr_stat p))
    (if \<not> pr_has_pidfd p then Inr True
     else or_else (catchE (catchE (bindE (pr_open p) (\<lambda>_. Inr None)) gone (\<lambda>_. Inr (Some False)))
            is_os_error (\<lambda>_. Inr (Some True)))
         (or_else (inspect_boot who (pr_boot2 p))
         (or_else (inspect_stat who (pr_stat2 p))
           (catchE (bindE (pr_readable p) (\<lambda>readable. Inr (\<not> readable))) os_or_value (\<lambda>_. Inr True))))))"

text \<open>The answers of \<open>process_matches\<close> before and after \<open>pidfd_open\<close>.\<close>

definition pidfd_for_identity ::
  "process_identity \<Rightarrow> bool \<Rightarrow> string result \<times> string result \<Rightarrow> int result \<Rightarrow> string result \<times> string result \<Rightarrow> int result" where
  "pidfd_for_identity who has_pidfd before opened after =
     thenE (raise_if (\<not> has_pidfd) RuntimeErr ''os.pidfd_open is unavailable'')
    (bindE (process_matches who (fst before) (snd before)) (\<lambda>m.
     thenE (raise_if (\<not> m) ProcessLookupError [])
    (bindE opened (\<lambda>descriptor.
     bindE (process_matches who (fst after) (snd after)) (\<lambda>m.
     thenE (raise_if (\<not> m) ProcessLookupError []) (Inr descriptor))))))"

section \<open>The recovery fence\<close>

record fence_record =
  fr_schema_version :: int
  fr_release_id :: string
  fr_owner_epoch :: string
  fr_pid :: int
  fr_pid_start_ticks :: int
  fr_boot_id :: string
  fr_phase :: string

text \<open>The checks of \<open>FenceRecord.__post_init__\<close>; \<open>from_dict\<close> passes the boot id on unchecked.\<close>

definition fence_record_post_init :: "fence_record \<Rightarrow> json \<Rightarrow> unit result" where
  "fence_record_post_init r boot = seqE [
     raise_if (fr_schema_version r \<noteq> SCHEMA_VERSION) ValueError ''fence.schema_version: unsupported value'',
     voidE (runtime_token (JStr (fr_release_id r)) ''fence.release_id''),
     voidE (runtime_token (JStr (fr_owner_epoch r)) ''fence.owner_epoch''),
     process_identity_post_init (JInt (fr_pid r)) (JInt (fr_pid_start_ticks r)) boot,
     raise_if (fr_phase r \<notin> set FENCE_PHASES) ValueError ''fence.phase: unsupported value'']"

definition fence_record_to_dict :: "fence_record \<Rightarrow> json" where
  "fence_record_to_dict r = JObj [
     (''boot_id'', JStr (fr_boot_id r)), (''owner_epoch'', JStr (fr_owner_epoch r)),
     (''phase'', JStr (fr_phase r)), (''pid'', JInt (fr_pid r)),
     (''pid_start_ticks'', JInt (fr_pid_start_ticks r)), (''release_id'', JStr (fr_release_id r)),
     (''schema_version'', JInt (fr_schema_version r))]"

definition fence_record_from_dict :: "json \<Rightarrow> fence_record result" where
  "fence_record_from_dict v =
     bindE (runtime_exact_keys v [''schema_version'', ''release_id'', ''owner_epoch'', ''pid'',
       ''pid_start_ticks'', ''boot_id'', ''phase''] ''fence'') (\<lambda>kvs.
     bindE (field kvs ''schema_version'' (\<lambda>x. runtime_int x ''fence.schema_version'' 1 MAX_PID)) (\<lambda>schema.
     bindE (field kvs ''release_id'' (\<lambda>x. runtime_token x ''fence.release_id'')) (\<lambda>release.
     bindE (field kvs ''owner_epoch'' (\<lambda>x. runtime_token x ''fence.owner_epoch'')) (\<lambda>epoch.
     bindE (field kvs ''pid'' (\<lambda>x. runtime_int x ''fence.pid'' 1 MAX_PID)) (\<lambda>pid.
     bindE (field kvs ''pid_start_ticks'' (\<lambda>x. runtime_int x ''fence.pid_start_ticks'' 1 MAX_COUNT)) (\<lambda>ticks.
     bindE (field kvs ''boot_id'' Inr) (\<lambda>boot.
     bindE (field kvs ''phase'' (\<lambda>x. runtime_token x ''fence.phase'')) (\<lambda>phase.
     let r = \<lparr>fr_schema_version = schema, fr_release_id = release, fr_owner_epoch = epoch, fr_pid = pid,
       fr_pid_start_ticks = ticks, fr_boot_id = json_text boot, fr_phase = phase\<rparr>
     in thenE (fence_record_post_init r boot) (Inr r)))))))))"

definition fence_record_ok :: "fence_record \<Rightarrow> bool" where
  "fence_record_ok r \<longleftrightarrow> fr_schema_version r = SCHEMA_VERSION \<and> RUNTIME_TOKEN_RE (fr_release_id r) \<and>
     RUNTIME_TOKEN_RE (fr_owner_epoch r) \<and>
     process_identity_ok \<lparr>pi_pid = fr_pid r, pi_start_ticks = fr_pid_start_ticks r, pi_boot_id = fr_boot_id r\<rparr> \<and>
     fr_phase r \<in> set FENCE_PHASES"

section \<open>Effect intents\<close>

record effect_intent =
  ei_schema_version :: int
  ei_owner_epoch :: string
  ei_generation :: int
  ei_effect_id :: string
  ei_operation :: string
  ei_parameters_digest :: string
  ei_phase :: string

definition effect_intent_post_init :: "effect_intent \<Rightarrow> json \<Rightarrow> unit result" where
  "effect_intent_post_init r digest = seqE [
     raise_if (ei_schema_version r \<noteq> SCHEMA_VERSION) ValueError ''intent.schema_version: unsupported value'',
     voidE (runtime_token (JStr (ei_owner_epoch r)) ''intent.owner_epoch''),
     voidE (runtime_int (JInt (ei_generation r)) ''intent.generation'' 0 MAX_COUNT),
     voidE (runtime_token (JStr (ei_effect_id r)) ''intent.effect_id''),
     voidE (runtime_token (JStr (ei_operation r)) ''intent.operation''),
     runtime_pattern digest DIGEST_RE ''intent.parameters_digest: invalid SHA-256 digest'',
     raise_if (ei_phase r \<notin> set INTENT_PHASES) ValueError ''intent.phase: unsupported value'']"

definition effect_intent_to_dict :: "effect_intent \<Rightarrow> json" where
  "effect_intent_to_dict r = JObj [
     (''effect_id'', JStr (ei_effect_id r)), (''generation'', JInt (ei_generation r)),
     (''operation'', JStr (ei_operation r)), (''owner_epoch'', JStr (ei_owner_epoch r)),
     (''parameters_digest'', JStr (ei_parameters_digest r)), (''phase'', JStr (ei_phase r)),
     (''schema_version'', JInt (ei_schema_version r))]"

definition effect_intent_from_dict :: "json \<Rightarrow> effect_intent result" where
  "effect_intent_from_dict v =
     bindE (runtime_exact_keys v [''schema_version'', ''owner_epoch'', ''generation'', ''effect_id'',
       ''operation'', ''parameters_digest'', ''phase''] ''intent'') (\<lambda>kvs.
     bindE (field kvs ''schema_version'' (\<lambda>x. runtime_int x ''intent.schema_version'' 1 MAX_PID)) (\<lambda>schema.
     bindE (field kvs ''owner_epoch'' (\<lambda>x. runtime_token x ''intent.owner_epoch'')) (\<lambda>epoch.
     bindE (field kvs ''generation'' (\<lambda>x. runtime_int x ''intent.generation'' 0 MAX_COUNT)) (\<lambda>generation.
     bindE (field kvs ''effect_id'' (\<lambda>x. runtime_token x ''intent.effect_id'')) (\<lambda>effect.
     bindE (field kvs ''operation'' (\<lambda>x. runtime_token x ''intent.operation'')) (\<lambda>operation.
     bindE (field kvs ''parameters_digest'' Inr) (\<lambda>digest.
     bindE (field kvs ''phase'' (\<lambda>x. runtime_token x ''intent.phase'')) (\<lambda>phase.
     let r = \<lparr>ei_schema_version = schema, ei_owner_epoch = epoch, ei_generation = generation, ei_effect_id = effect,
       ei_operation = operation, ei_parameters_digest = json_text digest, ei_phase = phase\<rparr>
     in thenE (effect_intent_post_init r digest) (Inr r)))))))))"

definition effect_intent_ok :: "effect_intent \<Rightarrow> bool" where
  "effect_intent_ok r \<longleftrightarrow> ei_schema_version r = SCHEMA_VERSION \<and> RUNTIME_TOKEN_RE (ei_owner_epoch r) \<and>
     0 \<le> ei_generation r \<and> ei_generation r \<le> MAX_COUNT \<and> RUNTIME_TOKEN_RE (ei_effect_id r) \<and>
     RUNTIME_TOKEN_RE (ei_operation r) \<and> DIGEST_RE (ei_parameters_digest r) \<and> ei_phase r \<in> set INTENT_PHASES"

section \<open>What the readers accept\<close>

lemma process_identity_post_init_Inr [valid]:
  "process_identity_post_init (JInt pid) (JInt ticks) boot = Inr u \<longleftrightarrow> (\<exists>b. boot = JStr b \<and>
     process_identity_ok \<lparr>pi_pid = pid, pi_start_ticks = ticks, pi_boot_id = b\<rparr>)"
  by (auto simp: process_identity_post_init_def process_identity_ok_def valid errors)

lemma phase_tokens:
  "p \<in> set FENCE_PHASES \<Longrightarrow> RUNTIME_TOKEN_RE p" "p \<in> set INTENT_PHASES \<Longrightarrow> RUNTIME_TOKEN_RE p"
proof -
  have "list_all RUNTIME_TOKEN_RE (FENCE_PHASES @ INTENT_PHASES)" by code_simp
  then show "p \<in> set FENCE_PHASES \<Longrightarrow> RUNTIME_TOKEN_RE p" "p \<in> set INTENT_PHASES \<Longrightarrow> RUNTIME_TOKEN_RE p"
    by (auto simp: list_all_iff)
qed

lemma schema_version_range: "1 \<le> SCHEMA_VERSION" "SCHEMA_VERSION \<le> MAX_PID"
  by code_simp+

lemma fence_record_from_dict_Inr:
  "fence_record_from_dict v = Inr r \<longleftrightarrow> fence_record_ok r \<and> (\<exists>kvs. v = JObj kvs \<and>
     fst ` set kvs = {''boot_id'', ''owner_epoch'', ''phase'', ''pid'', ''pid_start_ticks'', ''release_id'', ''schema_version''} \<and>
     map_of kvs ''boot_id'' = Some (JStr (fr_boot_id r)) \<and> map_of kvs ''owner_epoch'' = Some (JStr (fr_owner_epoch r)) \<and>
     map_of kvs ''phase'' = Some (JStr (fr_phase r)) \<and> map_of kvs ''pid'' = Some (JInt (fr_pid r)) \<and>
     map_of kvs ''pid_start_ticks'' = Some (JInt (fr_pid_start_ticks r)) \<and>
     map_of kvs ''release_id'' = Some (JStr (fr_release_id r)) \<and>
     map_of kvs ''schema_version'' = Some (JInt (fr_schema_version r)))" (is "?l \<longleftrightarrow> ?r")
proof
  assume ?l
  then show ?r
    by (cases v; cases r) (clarsimp simp: fence_record_from_dict_def fence_record_post_init_def fence_record_ok_def
        Let_def valid errors insert_commute)+
next
  assume ?r
  then obtain kvs where "v = JObj kvs" "fence_record_ok r" and
    "fst ` set kvs = {''boot_id'', ''owner_epoch'', ''phase'', ''pid'', ''pid_start_ticks'', ''release_id'', ''schema_version''}"
    "map_of kvs ''boot_id'' = Some (JStr (fr_boot_id r))" "map_of kvs ''owner_epoch'' = Some (JStr (fr_owner_epoch r))"
    "map_of kvs ''phase'' = Some (JStr (fr_phase r))" "map_of kvs ''pid'' = Some (JInt (fr_pid r))"
    "map_of kvs ''pid_start_ticks'' = Some (JInt (fr_pid_start_ticks r))"
    "map_of kvs ''release_id'' = Some (JStr (fr_release_id r))"
    "map_of kvs ''schema_version'' = Some (JInt (fr_schema_version r))" by blast
  then show ?l using phase_tokens(1) schema_version_range
    by (cases r) (simp add: fence_record_from_dict_def fence_record_post_init_def fence_record_ok_def
        process_identity_ok_def Let_def valid errors insert_commute)
qed

lemma fence_record_load_iff:
  assumes "json_wf v"
  shows "fence_record_from_dict v = Inr r \<longleftrightarrow> fence_record_ok r \<and> json_canon v = json_canon (fence_record_to_dict r)"
  unfolding fence_record_to_dict_def fence_record_from_dict_Inr using assms
  by (cases v; simp add: codec_simps; (simp only: conj_ac conj_absorb conj_left_absorb)?)

lemma effect_intent_from_dict_Inr:
  "effect_intent_from_dict v = Inr r \<longleftrightarrow> effect_intent_ok r \<and> (\<exists>kvs. v = JObj kvs \<and>
     fst ` set kvs = {''effect_id'', ''generation'', ''operation'', ''owner_epoch'', ''parameters_digest'', ''phase'', ''schema_version''} \<and>
     map_of kvs ''effect_id'' = Some (JStr (ei_effect_id r)) \<and> map_of kvs ''generation'' = Some (JInt (ei_generation r)) \<and>
     map_of kvs ''operation'' = Some (JStr (ei_operation r)) \<and> map_of kvs ''owner_epoch'' = Some (JStr (ei_owner_epoch r)) \<and>
     map_of kvs ''parameters_digest'' = Some (JStr (ei_parameters_digest r)) \<and>
     map_of kvs ''phase'' = Some (JStr (ei_phase r)) \<and>
     map_of kvs ''schema_version'' = Some (JInt (ei_schema_version r)))" (is "?l \<longleftrightarrow> ?r")
proof
  assume ?l
  then show ?r
    by (cases v; cases r) (clarsimp simp: effect_intent_from_dict_def effect_intent_post_init_def effect_intent_ok_def
        Let_def valid errors insert_commute)+
next
  assume ?r
  then obtain kvs where "v = JObj kvs" "effect_intent_ok r" and
    "fst ` set kvs = {''effect_id'', ''generation'', ''operation'', ''owner_epoch'', ''parameters_digest'', ''phase'', ''schema_version''}"
    "map_of kvs ''effect_id'' = Some (JStr (ei_effect_id r))" "map_of kvs ''generation'' = Some (JInt (ei_generation r))"
    "map_of kvs ''operation'' = Some (JStr (ei_operation r))" "map_of kvs ''owner_epoch'' = Some (JStr (ei_owner_epoch r))"
    "map_of kvs ''parameters_digest'' = Some (JStr (ei_parameters_digest r))"
    "map_of kvs ''phase'' = Some (JStr (ei_phase r))"
    "map_of kvs ''schema_version'' = Some (JInt (ei_schema_version r))" by blast
  then show ?l using phase_tokens(2) schema_version_range
    by (cases r) (simp add: effect_intent_from_dict_def effect_intent_post_init_def effect_intent_ok_def
        Let_def valid errors insert_commute)
qed

lemma effect_intent_load_iff:
  assumes "json_wf v"
  shows "effect_intent_from_dict v = Inr r \<longleftrightarrow> effect_intent_ok r \<and> json_canon v = json_canon (effect_intent_to_dict r)"
  unfolding effect_intent_to_dict_def effect_intent_from_dict_Inr using assms
  by (cases v; simp add: codec_simps; (simp only: conj_ac conj_absorb conj_left_absorb)?)

interpretation fence: codec fence_record_ok fence_record_to_dict "\<lambda>v p. fence_record_from_dict v"
  by unfold_locales (simp_all add: fence_record_load_iff fence_record_to_dict_def json_wf.simps(6))

interpretation intent: codec effect_intent_ok effect_intent_to_dict "\<lambda>v p. effect_intent_from_dict v"
  by unfold_locales (simp_all add: effect_intent_load_iff effect_intent_to_dict_def json_wf.simps(6))

text \<open>The readers raise \<open>ValueError\<close> and nothing else: no key is missing after the check of the keys.\<close>

lemma raises_post_init [raising]:
  "raises {ValueError} (fence_record_post_init r b)" "raises {ValueError} (effect_intent_post_init i d)"
  by (auto simp: fence_record_post_init_def effect_intent_post_init_def process_identity_post_init_def
      intro!: raising raises_raise_if)

lemma raises_from_dict:
  "raises {ValueError} (fence_record_from_dict v)" "raises {ValueError} (effect_intent_from_dict v)"
  unfolding fence_record_from_dict_def effect_intent_from_dict_def Let_def
  by (intro raising; simp add: runtime_exact_keys_Inr)+

section \<open>What /proc shows\<close>

text \<open>
  A line of \<open>/proc/<pid>/stat\<close> for a process whose command name may hold spaces and parentheses:
  the state and the start time are still the ones read.
\<close>

definition stat_line :: "string \<Rightarrow> string \<Rightarrow> string list \<Rightarrow> string" where
  "stat_line pid comm fs = pid @ '' ('' @ comm @ '') '' @ join '' '' fs"

lemma split_ws_aux_word:
  "\<forall>c \<in> set w. \<not> is_space c \<Longrightarrow> split_ws_aux acc (w @ rest) = split_ws_aux (rev w @ acc) rest"
  by (induction w arbitrary: acc) auto

lemma is_space_blank [simp]: "is_space CHR '' ''"
  by code_simp

lemma split_ws_join:
  assumes "\<forall>w \<in> set ws. w \<noteq> [] \<and> (\<forall>c \<in> set w. \<not> is_space c)"
  shows "split_ws (join '' '' ws) = ws"
proof -
  have "split_ws_aux [] (join '' '' ws) = ws"
    using assms
  proof (induction "'' ''" ws rule: join.induct)
    case (2 s)
    then show ?case using split_ws_aux_word [of s "[]" "[]"] by simp
  next
    case (3 s t ss)
    then show ?case by (simp add: split_ws_aux_word)
  qed simp
  then show ?thesis by (simp add: split_ws_def)
qed

lemma index_of_append: "x \<notin> set xs \<Longrightarrow> index_of x (xs @ x # ys) = Some (length xs)"
  by (induction xs) auto

lemma rfind_close_last: "CHR '')'' \<notin> set rest \<Longrightarrow> rfind_close (s @ CHR '')'' # rest) = Some (length s)"
  using index_of_append [of "CHR '')''" "rev rest" "rev s"] by (simp add: rfind_close_def)

lemma set_join: "set (join sep ws) \<subseteq> (\<Union>w \<in> set ws. set w) \<union> set sep"
  by (induction sep ws rule: join.induct) auto

lemma nat_dec_length_le: "0 < k \<Longrightarrow> n < 10 ^ k \<Longrightarrow> length (nat_dec n) \<le> k"
proof (induction n arbitrary: k rule: nat_dec.induct)
  case (1 n)
  show ?case
  proof (cases "n < 10")
    case False
    then obtain j where k: "k = Suc j" "0 < j" using 1(2,3) by (cases k; cases "k - 1") auto
    have "n div 10 < 10 ^ j" using 1(3) k(1) by (simp add: less_mult_imp_div_less mult.commute)
    with "1.IH" [OF False k(2)] False k(1) show ?thesis by (simp add: nat_dec.simps [of n])
  qed (use 1(2) in \<open>simp add: nat_dec.simps [of n]\<close>)
qed

lemma read_stat_line:
  assumes "1 \<le> pid" "pid \<le> MAX_PID" and "length (stat_line p comm fs) \<le> 65536"
    and "\<forall>w \<in> set fs. w \<noteq> [] \<and> (\<forall>c \<in> set w. \<not> is_space c \<and> c \<noteq> CHR '')'')" and "20 \<le> length fs"
    and "fs ! 0 = [state]" "is_alpha state" and "fs ! 19 = nat_dec ticks" "1 \<le> int ticks" "int ticks \<le> MAX_COUNT"
  shows "read_pid_state_and_start_ticks pid (Inr (stat_line p comm fs)) = Inr ([state], int ticks)"
proof -
  let ?line = "stat_line p comm fs" and ?head = "p @ '' ('' @ comm" and ?rest = "join '' '' fs"
  have line: "?line = ?head @ CHR '')'' # CHR '' '' # ?rest" by (simp add: stat_line_def)
  have "CHR '')'' \<notin> set ?rest" using set_join [of "'' ''" fs] assms(4) by fastforce
  then have close: "rfind_close ?line = Some (length ?head)" unfolding line by (intro rfind_close_last) simp
  have fs_read: "split_ws (drop (length ?head + 2) ?line) = fs"
  proof -
    have "?line = (?head @ '') '') @ ?rest" "length (?head @ '') '') = length ?head + 2" by (simp_all add: line)
    then have "drop (length ?head + 2) ?line = ?rest" by (metis append_eq_conv_conj)
    then show ?thesis using split_ws_join [of fs] assms(4) by simp
  qed
  have "length (nat_dec ticks) \<le> 4300"
  proof -
    have "fs ! 19 \<in> set fs" using assms(5) by simp
    have "ticks < 10 ^ 19" using assms(10) by (simp add: MAX_COUNT_def)
    then have "length (nat_dec ticks) \<le> 19" by (intro nat_dec_length_le) simp_all
    then show ?thesis by simp
  qed
  moreover have "length ?head + 2 \<le> length ?line" by (simp add: line)
  moreover have "list_all is_digit (nat_dec ticks)" by (auto simp: list_all_iff dest: nat_dec_digits)
  ultimately show ?thesis
    using assms(1,2,3,5-10) close fs_read
    by (simp add: read_pid_state_and_start_ticks_def runtime_int_def Let_def del: length_append)
qed

section \<open>What is concluded about a process\<close>

text \<open>Readings that show that the process is not there, or can run no more code.\<close>

definition boot_differs :: "process_identity \<Rightarrow> string result \<Rightarrow> bool" where
  "boot_differs who file \<longleftrightarrow> (\<exists>b. read_boot_id file = Inr b \<and> b \<noteq> pi_boot_id who)"

definition stat_shows_end :: "process_identity \<Rightarrow> string result \<Rightarrow> bool" where
  "stat_shows_end who file \<longleftrightarrow>
     (case read_pid_state_and_start_ticks (pi_pid who) file of
        Inl e \<Rightarrow> gone (exc_class e)
      | Inr (state, ticks) \<Rightarrow> ticks \<noteq> pi_start_ticks who \<or> state \<in> {''Z'', ''X'', ''x''})"

definition same_process :: "process_identity \<Rightarrow> string result \<Rightarrow> string result \<Rightarrow> bool" where
  "same_process who boot_file stat_file \<longleftrightarrow> read_boot_id boot_file = Inr (pi_boot_id who) \<and>
     (\<exists>state. read_pid_state_and_start_ticks (pi_pid who) stat_file = Inr (state, pi_start_ticks who))"

lemma inspect_boot_False: "inspect_boot who file = Inr (Some False) \<longleftrightarrow> boot_differs who file"
  by (auto simp: inspect_boot_def boot_differs_def errors)

lemma inspect_stat_False: "inspect_stat who file = Inr (Some False) \<longleftrightarrow> stat_shows_end who file"
  unfolding inspect_stat_def stat_shows_end_def
  by (cases "read_pid_state_and_start_ticks (pi_pid who) file") (auto simp: catchE_def split: sum.splits if_splits)

lemma or_else_False:
  "or_else m k = Inr False \<longleftrightarrow> m = Inr (Some False) \<or> m = Inr None \<and> k = Inr False"
  by (auto simp: or_else_def errors split: option.splits)

lemma process_matches_True: "process_matches who boot_file stat_file = Inr True \<longleftrightarrow> same_process who boot_file stat_file"
  by (auto simp: process_matches_def same_process_def read_pid_start_ticks_def errors split: if_splits)

text \<open>A line of the stat file for a process named \<open>a) b\<close>.\<close>

definition sample_fields :: "string list" where
  "sample_fields = [''S'', ''0'', ''0'', ''0'', ''0'', ''0'', ''0'', ''0'', ''0'', ''0'', ''0'', ''0'', ''0'', ''0'', ''0'', ''0'', ''0'', ''0'', ''0'',
     ''7'', ''0'']"

definition sample_identity :: process_identity where
  "sample_identity = \<lparr>pi_pid = 42, pi_start_ticks = 7, pi_boot_id = ''01234567-89ab-cdef-0123-456789abcdef''\<rparr>"

text \<open>
  Reading \<open>/proc/<pid>/stat\<close> gives the state and the start time of the process whatever its
  command is called: spaces, parentheses and digits in the name do not shift the fields.
\<close>

lemma stat_names_do_not_matter:
  assumes "1 \<le> pid" "pid \<le> MAX_PID" and "length (stat_line p comm fs) \<le> 65536"
    and "\<forall>w \<in> set fs. w \<noteq> [] \<and> (\<forall>c \<in> set w. \<not> is_space c \<and> c \<noteq> CHR '')'')" and "20 \<le> length fs"
    and "fs ! 0 = [state]" "is_alpha state" and "fs ! 19 = nat_dec ticks" "1 \<le> int ticks" "int ticks \<le> MAX_COUNT"
  shows "read_pid_state_and_start_ticks pid (Inr (stat_line p comm fs)) = Inr ([state], int ticks)"
  by (rule read_stat_line [OF assms])

lemma stat_names_do_not_matter_witness:
  "read_pid_state_and_start_ticks 42 (Inr (stat_line ''42'' ''a) S 1 (b'' sample_fields)) = Inr (''S'', 7)"
proof -
  have a: "(1 :: int) \<le> 42" "42 \<le> MAX_PID" "length (stat_line ''42'' ''a) S 1 (b'' sample_fields) \<le> 65536"
    "20 \<le> length sample_fields" "sample_fields ! 0 = [CHR ''S'']" "is_alpha CHR ''S''"
    by (simp_all add: MAX_PID_def stat_line_def sample_fields_def is_alpha_def is_lower_def is_upper_def)
  have b: "\<forall>w \<in> set sample_fields. w \<noteq> [] \<and> (\<forall>c \<in> set w. \<not> is_space c \<and> c \<noteq> CHR '')'')"
    by (simp add: sample_fields_def is_space_def)
  have "nat_dec 7 = ''7''" by code_simp
  then have c: "sample_fields ! 19 = nat_dec 7" by (simp add: sample_fields_def nth_append)
  have d: "1 \<le> int 7" "int 7 \<le> MAX_COUNT" by (simp_all add: MAX_COUNT_def)
  show ?thesis using stat_names_do_not_matter [OF a(1-3) b a(4-6) c d] by simp
qed

text \<open>
  C30: The owner of a fence is declared unable to run only on evidence. \<open>process_can_still_execute\<close>
  answers \<open>False\<close> only when a reading shows another boot, a missing process, another start time, a
  zombie or dead state, or a readable pidfd; whenever something could not be read it answers
  \<open>True\<close>.
\<close>

theorem execution_denied_on_evidence:
  assumes "process_can_still_execute who p = Inr False"
  shows "boot_differs who (pr_boot p) \<or> stat_shows_end who (pr_stat p) \<or>
    pr_has_pidfd p \<and> (raises (Collect gone) (pr_open p) \<and> pr_open p \<noteq> Inr () \<or>
      boot_differs who (pr_boot2 p) \<or> stat_shows_end who (pr_stat2 p) \<or> pr_readable p = Inr True)"
proof -
  have opened: "raises (Collect gone) (pr_open p) \<and> pr_open p \<noteq> Inr ()"
    if "catchE (catchE (bindE (pr_open p) (\<lambda>_. Inr None)) gone (\<lambda>_. Inr (Some False))) is_os_error (\<lambda>_. Inr (Some True)) =
      Inr (Some False)"
    using that by (cases "pr_open p") (auto simp: catchE_def split: if_splits sum.splits)
  have readable: "pr_readable p = Inr True"
    if "catchE (bindE (pr_readable p) (\<lambda>r. Inr (\<not> r))) os_or_value (\<lambda>_. Inr True) = Inr False"
    using that by (cases "pr_readable p") (auto simp: catchE_def split: if_splits)
  show ?thesis
    using assms opened readable
    by (auto simp: process_can_still_execute_def or_else_False inspect_boot_False inspect_stat_False split: if_splits)
qed

theorem execution_denied_on_evidence_witness:
  "boot_differs sample_identity (Inr ''ffffffff-89ab-cdef-0123-456789abcdef'')"
proof -
  let ?f = "Inr ''ffffffff-89ab-cdef-0123-456789abcdef'' :: string result"
  define p where "p = \<lparr>pr_boot = ?f, pr_stat = raise OSError [], pr_has_pidfd = False, pr_open = Inr (),
    pr_boot2 = raise OSError [], pr_stat2 = raise OSError [], pr_readable = Inr False\<rparr>"
  have "read_boot_id ?f = ?f" by code_simp
  then have "boot_differs sample_identity ?f" by (auto simp: boot_differs_def sample_identity_def)
  then have "process_can_still_execute sample_identity p = Inr False"
    by (simp add: process_can_still_execute_def or_else_False inspect_boot_False p_def)
  moreover have "\<not> stat_shows_end sample_identity (raise OSError [])"
    by (simp add: stat_shows_end_def read_pid_state_and_start_ticks_def runtime_int_def gone_def sample_identity_def MAX_PID_def)
  ultimately show ?thesis using execution_denied_on_evidence [of sample_identity p] by (simp add: p_def)
qed

text \<open>
  A pidfd is handed out only for the process that was meant: boot id and start time matched
  before and after it was opened, so a process that took over the number in between is refused.
\<close>

lemma pidfd_is_for_identity:
  "pidfd_for_identity who has_pidfd before opened after = Inr d \<longleftrightarrow>
     has_pidfd \<and> same_process who (fst before) (snd before) \<and> opened = Inr d \<and> same_process who (fst after) (snd after)"
  by (auto simp: pidfd_for_identity_def process_matches_True [symmetric] errors)

end
