(* ===== verification/Stores.thy ===== *)
theory Stores
  imports Runtime
begin

text \<open>
  The stores of \<open>system/grok-proxy/grok_ms/runtime.py\<close>: the runtime root, the recovery fence and the
  effect intents, as programs over their directories, and what they promise: whatever faults occur
  and wherever a call is cut off, the directory shows a state of a plain map of records, reached by
  the steps the operations allow.
\<close>

section \<open>The runtime root\<close>

definition runtime_initialize :: "nat \<Rightarrow> string \<Rightarrow> unit prog" where
  "runtime_initialize me root =
     thenP (liftP (raise_if (\<not> starts_with root ''/'') RuntimeSecurityError ''runtime root must be an absolute path''))
       (create_secure_directory me PRIVATE_DIR)"

definition runtime_verify :: "nat \<Rightarrow> unit prog" where
  "runtime_verify me = validate_secure_directory me PRIVATE_DIR"

section \<open>Records in files\<close>

text \<open>\<open>_read_secure_json\<close> and \<open>from_dict\<close>, whose \<open>ValueError\<close> becomes a \<open>RuntimeSecurityError\<close>.\<close>

definition load_record :: "nat \<Rightarrow> (json \<Rightarrow> 'r result) \<Rightarrow> string \<Rightarrow> string \<Rightarrow> 'r option prog" where
  "load_record me from_dict msg name =
     bindP (read_secure_json me name) (\<lambda>value. case value of
       None \<Rightarrow> returnP None
     | Some kvs \<Rightarrow> liftP (bindE (catchE (from_dict (JObj kvs)) is_value_error (\<lambda>_. raise RuntimeSecurityError msg))
         (\<lambda>r. Inr (Some r))))"

section \<open>The recovery fence\<close>

definition FENCE_NAME :: string where "FENCE_NAME = ''recovery.fence''"

definition fence_load :: "nat \<Rightarrow> fence_record option prog" where
  "fence_load me = load_record me fence_record_from_dict ''invalid recovery fence'' FENCE_NAME"

definition fence_publish :: "nat \<Rightarrow> fence_record \<Rightarrow> bool prog" where
  "fence_publish me r =
     bindP (atomic_create_json me FENCE_NAME (fence_record_to_dict r)) (\<lambda>created.
       if created then returnP True
       else bindP (fence_load me) (\<lambda>existing.
         if existing = Some r then returnP False
         else raiseP FenceBusyError ''a different owner or recovery phase already holds the durable fence''))"

definition fence_clear :: "nat \<Rightarrow> string \<Rightarrow> bool prog" where
  "fence_clear me expected =
     thenP (liftP (voidE (runtime_token (JStr expected) ''expected_owner_epoch'')))
    (bindP (fence_load me) (\<lambda>existing. case existing of
       None \<Rightarrow> returnP False
     | Some r \<Rightarrow>
         if fr_owner_epoch r \<noteq> expected then raiseP FenceBusyError ''fence belongs to another epoch''
         else durable_unlink me FENCE_NAME))"

section \<open>Effect intents\<close>

definition intent_name :: "string \<Rightarrow> string" where
  "intent_name effect_id = effect_id @ ''.json''"

text \<open>\<open>path_for\<close>: the file name, once the id is a token.\<close>

definition path_for :: "string \<Rightarrow> string result" where
  "path_for effect_id = bindE (runtime_token (JStr effect_id) ''effect_id'') (\<lambda>t. Inr (intent_name t))"

definition intent_load :: "nat \<Rightarrow> string \<Rightarrow> effect_intent option prog" where
  "intent_load me effect_id =
     bindP (liftP (path_for effect_id)) (\<lambda>name.
     bindP (load_record me effect_intent_from_dict ''invalid effect intent'' name) (\<lambda>value. case value of
       None \<Rightarrow> returnP None
     | Some record \<Rightarrow>
         if ei_effect_id record \<noteq> effect_id
         then raiseP RuntimeSecurityError ''effect intent filename and record ID disagree''
         else returnP (Some record)))"

definition intent_put :: "nat \<Rightarrow> effect_intent \<Rightarrow> bool prog" where
  "intent_put me i =
     bindP (liftP (path_for (ei_effect_id i))) (\<lambda>name.
     bindP (atomic_create_json me name (effect_intent_to_dict i)) (\<lambda>created.
       if created then returnP True
       else bindP (intent_load me (ei_effect_id i)) (\<lambda>existing.
         if existing = Some i then returnP False
         else raiseP IntentConflictError ''effect replay disagrees with its durable intent'')))"

text \<open>
  What \<open>advance\<close> does with the record it loaded; \<open>replace\<close> runs the constructor again.
\<close>

definition advance_loaded :: "nat \<Rightarrow> string \<Rightarrow> string \<Rightarrow> string \<Rightarrow> effect_intent option \<Rightarrow> bool prog" where
  "advance_loaded me effect_id expected_phase new_phase existing = (case existing of
       None \<Rightarrow> raiseP IntentConflictError ''effect has no durable intent''
     | Some r \<Rightarrow>
         if ei_phase r = new_phase then returnP False
         else if ei_phase r \<noteq> expected_phase then raiseP IntentConflictError ''effect is in another phase''
         else let r' = r\<lparr>ei_phase := new_phase\<rparr> in
           thenP (liftP (effect_intent_post_init r' (JStr (ei_parameters_digest r'))))
          (bindP (liftP (path_for effect_id)) (\<lambda>name.
           thenP (atomic_replace_json me name (effect_intent_to_dict r')) (returnP True))))"

definition intent_advance :: "nat \<Rightarrow> string \<Rightarrow> string \<Rightarrow> string \<Rightarrow> bool prog" where
  "intent_advance me effect_id expected_phase new_phase =
     thenP (liftP (raise_if (expected_phase \<notin> set INTENT_PHASES \<or> new_phase \<notin> set INTENT_PHASES) ValueError
       ''unsupported intent phase''))
    (bindP (intent_load me effect_id) (advance_loaded me effect_id expected_phase new_phase))"

definition intent_delete :: "nat \<Rightarrow> string \<Rightarrow> string \<Rightarrow> bool prog" where
  "intent_delete me effect_id require_phase =
     bindP (intent_load me effect_id) (\<lambda>existing. case existing of
       None \<Rightarrow> returnP False
     | Some r \<Rightarrow>
         if ei_phase r \<noteq> require_phase then raiseP IntentConflictError ''effect is in another phase before deletion''
         else bindP (liftP (path_for effect_id)) (\<lambda>name. durable_unlink me name))"

section \<open>What every call keeps\<close>

text \<open>Entries of the directory name files that exist, whatever calls are made.\<close>

lemma set_remove_entry [simp]: "set (remove_entry a es) = {e \<in> set es. fst e \<noteq> a}"
  by (auto simp: remove_entry_def)

lemma exec_proper: "proper_dir s \<Longrightarrow> proper_dir (snd (exec ch c s))"
proof (cases ch)
  case (Proceed n)
  assume p: "proper_dir s"
  have "i < dr_next s" if "look s a = Some i" for a i using proper_look [OF p that] .
  moreover have "b < dr_next s" if "(a, b) \<in> set (dr_entries s)" for a b using p that by (auto simp: proper_dir_def)
  ultimately show ?thesis using p unfolding Proceed
    by (cases c) (auto simp: proper_dir_def put_entry_def Let_def intro: less_SucI split: option.split)
qed simp

lemma run_proper: "run cs p s = (p', s') \<Longrightarrow> proper_dir s \<Longrightarrow> proper_dir s'"
proof (induction cs arbitrary: p s)
  case (Cons ch cs)
  then show ?case
  proof (cases p)
    case (Call c k)
    then show ?thesis using Cons.prems Cons.IH [of "k (fst (exec ch c s))" "snd (exec ch c s)"] exec_proper [of s ch c]
      by (simp add: case_prod_unfold)
  qed auto
qed simp

lemma keeps_synced: "keeps s0 s \<Longrightarrow> keeps s0 (s\<lparr>dr_views := []\<rparr>)"
  using keeps_at_synced by (auto simp: keeps_def)

text \<open>Where the record exists, creation changes nothing of it, whatever happens.\<close>

lemma create_existing_spec:
  assumes "look s0 name \<noteq> None" and "\<not> staged name"
  shows "always C (keeps s0) (atomic_create_json me name payload) (\<lambda>_ _. True) s0"
proof -
  have open_dir: "always C (keeps s0) (open_secure_directory me) (\<lambda>r s. s = s0) s0"
    by (rule always_mono [OF open_secure_directory_spec]) auto
  have link: "always C (keeps s0) (catchP (thenP (call_unit (Link tmp name)) (returnP True))
      (\<lambda>c. c = FileExistsError) (\<lambda>_. returnP False)) (\<lambda>_ _. True) s" if "keeps s0 s" for s tmp
  proof -
    have "look s name \<noteq> None" using that assms by (auto simp: keeps_def keeps_at_def)
    then show ?thesis unfolding progs using that by (intro call_Link) auto
  qed
  have cleanup: "always C (keeps s0) (unlink_quiet tmp) (\<lambda>_ _. True) s" if "keeps s0 s" "staged tmp" for s tmp
    by (rule always_mono [OF unlink_quiet_keeps [OF that(2,1)]]) auto
  have sync: "always C (keeps s0) (if l then thenP (call_unit Fsync_dir) (returnP True) else returnP False) (\<lambda>_ _. True) s"
    if "keeps s0 s" for l s
    using that keeps_synced [OF that] by (cases l) (auto simp: progs intro!: call_Fsync_dir)
  have ending: "always C (keeps s0) (finallyP p (unlink_quiet tmp)) (\<lambda>_ _. True) s"
    if "always C (keeps s0) p (\<lambda>_ _. True) s" "staged tmp" for p :: "bool prog" and tmp s
    by (rule always_finallyI [OF that(1)]) (auto intro!: always_mono [OF cleanup [OF _ that(2)]] split: sum.split)
  show ?thesis unfolding atomic_create_json_def
  proof (rule always_thenI [OF open_dir], goal_cases)
    case (1 s)
    show ?case unfolding 1(2)
    proof (rule always_bindI [OF stage_json_spec], goal_cases)
      case (1 tmp s)
      then have tmp: "staged tmp" and s: "keeps s0 s" by auto
      show ?case
        by (rule ending [OF always_bindI [OF ending [OF link [OF s] tmp]] tmp]) (assumption | rule sync TrueI)+
    qed auto
  qed auto
qed

lemma strict_json_loads_length: "strict_json_loads data m = Inr v \<Longrightarrow> length data \<le> m"
  by (auto simp: strict_json_loads_def errors not_less)

section \<open>The interface of a store\<close>

text \<open>
  A record type whose \<open>to_dict\<close> writes a bounded object that \<open>from_dict\<close> reads back; what follows for
  files that hold such records is proved once for every store.
\<close>

locale record_store = codec valid dump "\<lambda>v p. load v"
  for valid :: "'r \<Rightarrow> bool" and dump :: "'r \<Rightarrow> json" and load :: "json \<Rightarrow> 'r result" +
  assumes dump_object: "valid r \<Longrightarrow> \<exists>kvs. dump r = JObj kvs"
    and dump_bounded: "valid r \<Longrightarrow> json_bounded (dump r)"
begin

text \<open>The record \<open>name\<close> of \<open>s\<close> is \<open>a\<close>: absent, or the private file that \<open>to_dict\<close> writes.\<close>

definition shows_record :: "nat \<Rightarrow> dir \<Rightarrow> string \<Rightarrow> 'r option \<Rightarrow> bool" where
  "shows_record me s name a \<longleftrightarrow> (case a of
     None \<Rightarrow> look s name = None
   | Some r \<Rightarrow> valid r \<and> holds me s name (record_bytes (dump r)))"

lemma shows_simps [simp]:
  "shows_record me s name None \<longleftrightarrow> look s name = None"
  "shows_record me s name (Some r) \<longleftrightarrow> valid r \<and> holds me s name (record_bytes (dump r))"
  by (simp_all add: shows_record_def)

lemma decode_dump:
  assumes "valid r" and "decode_record (record_bytes (dump r)) = Inr v"
  shows "load (JObj v) = Inr r"
proof -
  obtain kvs where kvs: "dump r = JObj kvs" using dump_object [OF assms(1)] by blast
  have wf: "json_wf (JObj kvs)" and bounded: "json_bounded (JObj kvs)"
    using dump_wf [OF assms(1)] dump_bounded [OF assms(1)] by (simp_all only: kvs)
  have "length (record_bytes (JObj kvs)) \<le> DEFAULT_MAX_PACKET_BYTES"
    using assms(2) unfolding kvs decode_record_def by (auto simp: errors dest: strict_json_loads_length)
  from decode_record_bytes [OF wf bounded this] assms(2) have v: "JObj v = json_canon (dump r)" by (simp add: kvs)
  have "json_wf (JObj v)" using json_wf_canon [OF wf] by (simp add: v kvs)
  then show ?thesis using load_iff [of "JObj v" r] assms(1) by (simp add: v json_canon_idem)
qed

lemma load_record_spec:
  assumes "shows_record me s name a"
  shows "always C (\<lambda>s'. s' = s) (load_record me load msg name) (\<lambda>r s'. s' = s \<and> (\<forall>x. r = Inr x \<longrightarrow> x = a)) s"
  unfolding load_record_def
proof (rule always_bindI [OF read_secure_json_spec], goal_cases)
  case (1 found s')
  show ?case
  proof (cases found)
    case None
    with 1 assms show ?thesis by (cases a) (auto simp: holds_def)
  next
    case (Some v)
    with 1 obtain i where i: "look s name = Some i" "decode_record (in_data (dr_inode s i)) = Inr v" by auto
    then obtain r where r: "a = Some r" "valid r" "in_data (dr_inode s i) = record_bytes (dump r)"
      using assms by (cases a) (auto simp: holds_def)
    have "load (JObj v) = Inr r" using decode_dump [OF r(2)] i(2) r(3) by simp
    then show ?thesis using 1 by (simp add: Some r(1) progs)
  qed
qed simp

text \<open>
  \<open>moves\<close>: nothing but the record \<open>name\<close> changed, and it is \<open>a\<close> or \<open>b\<close>.
\<close>

definition moves :: "nat \<Rightarrow> dir \<Rightarrow> string \<Rightarrow> 'r option \<Rightarrow> 'r option \<Rightarrow> dir \<Rightarrow> bool" where
  "moves me s0 name a b s \<longleftrightarrow> same_files s0 s \<and>
     (\<forall>n. \<not> staged n \<longrightarrow> n \<noteq> name \<longrightarrow> look s n = look s0 n) \<and>
     (shows_record me s name a \<or> shows_record me s name b)"

lemma shows_kept:
  assumes "shows_record me s0 n a" and "same_files s0 s" and "look s n = look s0 n" and "proper_dir s0"
  shows "shows_record me s n a"
proof (cases a)
  case (Some r)
  with assms(1) obtain i where i: "look s0 n = Some i" by (auto simp: holds_def)
  then have "dr_inode s i = dr_inode s0 i" using proper_look [OF assms(4) i] assms(2) by (simp add: same_files_def)
  with assms(1,3) i show ?thesis by (auto simp: Some holds_def)
qed (use assms in auto)

lemma moves_refl: "shows_record me s name a \<Longrightarrow> moves me s name a b s"
  by (simp add: moves_def)

lemma moves_shows: "moves me s0 name a b s \<Longrightarrow> \<exists>a' \<in> {a, b}. shows_record me s name a'"
  unfolding moves_def by blast

lemma moves_updates:
  assumes "updates s0 name (record_bytes (dump r)) s" and "shows_record me s0 name a" and "valid r"
    and "proper_dir s0" and "dr_getuid s0 = me"
  shows "moves me s0 name a (Some r) s"
proof -
  have same: "same_files s0 s" using assms(1) by (simp add: updates_def)
  have "shows_record me s name a \<or> shows_record me s name (Some r)"
  proof (cases "keeps_at s0 s name")
    case True
    then show ?thesis using shows_kept [OF assms(2) same _ assms(4)] by (simp add: keeps_at_def)
  next
    case False
    then have "published s0 name (record_bytes (dump r)) s" using assms(1) by (simp add: updates_def)
    then show ?thesis using assms(3,5) by (auto simp: published_def holds_def)
  qed
  with same assms(1) show ?thesis by (auto simp: moves_def updates_def keeps_at_def)
qed

lemma create_record_spec:
  assumes "shows_record me s0 name a" and "valid r" and "\<not> staged name" and "proper_dir s0" and "dr_getuid s0 = me"
  shows "always C (moves me s0 name a (Some r)) (atomic_create_json me name (dump r)) (\<lambda>res s. \<forall>c. res = Inr c \<longrightarrow>
    (if c then a = None \<and> shows_record me s name (Some r) else shows_record me s name a)) s0"
proof (rule always_mono [OF create_json_spec [OF assms(3)]], goal_cases)
  case (1 s)
  then show ?case by (rule moves_updates [OF _ assms(1,2,4,5)])
next
  case (2 res s)
  have same: "same_files s0 s" using 2(1) by (simp add: updates_def)
  have "shows_record me s name (Some r)" if "durable s0 name (record_bytes (dump r)) s"
    using durable_holds [OF that assms(5) survivor_refl] assms(2) by simp
  moreover have "a = None" if "look s0 name = None" using assms(1) that by (cases a) (auto simp: holds_def)
  moreover have "shows_record me s name a" if "look s name = look s0 name"
    by (rule shows_kept [OF assms(1) same that assms(4)])
  ultimately show ?case using 2(2) by auto
qed

text \<open>Create, and compare with what is there when it was not created.\<close>

definition after_put :: "'r option \<Rightarrow> 'r \<Rightarrow> 'r option" where
  "after_put a r = (case a of None \<Rightarrow> Some r | Some r' \<Rightarrow> a)"

lemma put_new_spec:
  assumes "shows_record me s0 name a" and "valid r" and "\<not> staged name" and "proper_dir s0" and "dr_getuid s0 = me"
  shows "always C (moves me s0 name a (after_put a r)) (atomic_create_json me name (dump r)) (\<lambda>res s. \<forall>c. res = Inr c \<longrightarrow>
    (if c then a = None \<and> shows_record me s name (Some r) else shows_record me s name a)) s0"
proof (cases a)
  case None
  then show ?thesis using create_record_spec [OF assms] by (simp add: after_put_def)
next
  case (Some r')
  have "look s0 name \<noteq> None" using assms(1) by (auto simp: Some holds_def)
  note both = always_and [OF create_record_spec [OF assms] create_existing_spec [OF this assms(3)]]
  show ?thesis
  proof (rule always_mono [OF both], goal_cases)
    case (1 s)
    then have "shows_record me s name a"
      using assms(3) by (intro shows_kept [OF assms(1) _ _ assms(4)]) (auto simp: keeps_def keeps_at_def)
    with 1 show ?case by (auto simp: moves_def)
  qed auto
qed

lemma put_record_spec:
  assumes "shows_record me s0 name a" and "valid r" and "\<not> staged name" and "proper_dir s0" and "dr_getuid s0 = me"
    and load: "\<And>s. shows_record me s name a \<Longrightarrow>
      always C (\<lambda>s'. s' = s) reload (\<lambda>res s'. s' = s \<and> (\<forall>x. res = Inr x \<longrightarrow> x = a)) s"
  shows "always C (moves me s0 name a (after_put a r))
    (bindP (atomic_create_json me name (dump r)) (\<lambda>created. if created then returnP True
       else bindP reload (\<lambda>existing. if existing = Some r then returnP False else raiseP cls msg)))
    (\<lambda>res s. \<forall>c. res = Inr c \<longrightarrow> (if c then a = None else a = Some r) \<and> shows_record me s name (Some r)) s0"
proof (rule always_bindI [OF put_new_spec [OF assms(1-5)]], goal_cases)
  case (1 created s)
  show ?case
  proof (cases created)
    case False
    with spec [OF 1(2), of created] have a: "shows_record me s name a" by simp
    have "always C (moves me s0 name a (after_put a r)) reload (\<lambda>res s'. s' = s \<and> (\<forall>x. res = Inr x \<longrightarrow> x = a)) s"
      by (rule always_mono [OF load [OF a]]) (use 1(1) in auto)
    then have "always C (moves me s0 name a (after_put a r)) (bindP reload (\<lambda>existing.
        if existing = Some r then returnP False else raiseP cls msg))
      (\<lambda>res s. \<forall>c. res = Inr c \<longrightarrow> (if c then a = None else a = Some r) \<and> shows_record me s name (Some r)) s"
    proof (rule always_bindI, goal_cases)
      case (1 x s')
      then show ?case using a by (cases "a = Some r") auto
    qed simp
    then show ?thesis using False by simp
  qed (use 1(1) spec [OF 1(2), of created] in auto)
qed auto

lemma replace_record_spec:
  assumes "shows_record me s0 name a" and "valid r" and "\<not> staged name" and "proper_dir s0" and "dr_getuid s0 = me"
  shows "always C (moves me s0 name a (Some r)) (atomic_replace_json me name (dump r))
    (\<lambda>res s. res = Inr () \<longrightarrow> shows_record me s name (Some r)) s0"
proof (rule always_mono [OF replace_json_spec [OF assms(3,4)]], goal_cases)
  case (1 s)
  then show ?case by (rule moves_updates [OF _ assms(1,2,4,5)])
next
  case (2 res s)
  then show ?case using durable_holds [OF _ assms(5) survivor_refl] assms(2) by auto
qed

lemma unlink_record_spec:
  assumes "shows_record me s0 name a" and "proper_dir s0"
  shows "always C (moves me s0 name a None) (durable_unlink me name)
    (\<lambda>res s. \<forall>c. res = Inr c \<longrightarrow> c = (a \<noteq> None) \<and> look s name = None) s0"
proof (rule always_mono [OF durable_unlink_spec], goal_cases)
  case (1 s)
  then have same: "same_files s0 s" by (simp add: drops_def)
  have "shows_record me s name a \<or> look s name = None"
    using 1 shows_kept [OF assms(1) same _ assms(2)] by (auto simp: drops_def keeps_at_def)
  with 1 same show ?case by (auto simp: moves_def drops_def keeps_at_def)
next
  case (2 res s)
  have eq: "a \<noteq> None \<longleftrightarrow> look s0 name \<noteq> None" using assms(1) by (cases a) (auto simp: holds_def)
  show ?case
  proof (intro allI impI)
    fix c assume "res = Inr c"
    with 2(2) eq show "c = (a \<noteq> None) \<and> look s name = None" by (cases c) auto
  qed
qed

end

section \<open>The stores provide the interface\<close>

definition json_string_ok :: "string \<Rightarrow> bool" where
  "json_string_ok s \<longleftrightarrow> length s \<le> MAX_JSON_STRING \<and> (\<forall>c \<in> set s. ord c \<noteq> 0)"

lemma record_char_ord: "RECORD_CHAR c \<Longrightarrow> ord c \<noteq> 0" "is_hex c \<Longrightarrow> ord c \<noteq> 0"
  by (auto simp: RECORD_CHAR_def char_class_defs)

lemma json_string_ok_texts:
  "RUNTIME_TOKEN_RE s \<Longrightarrow> json_string_ok s" "BOOT_ID_RE s \<Longrightarrow> json_string_ok s" "DIGEST_RE s \<Longrightarrow> json_string_ok s"
  "p \<in> set FENCE_PHASES \<Longrightarrow> json_string_ok p" "p \<in> set INTENT_PHASES \<Longrightarrow> json_string_ok p"
proof -
  show token: "RUNTIME_TOKEN_RE s \<Longrightarrow> json_string_ok s" for s
    by (auto simp: RUNTIME_TOKEN_RE_def json_string_ok_def MAX_JSON_STRING_def list_all_iff dest: record_char_ord)
  show "p \<in> set FENCE_PHASES \<Longrightarrow> json_string_ok p" "p \<in> set INTENT_PHASES \<Longrightarrow> json_string_ok p"
    using token phase_tokens by blast+
  show "DIGEST_RE s \<Longrightarrow> json_string_ok s"
    by (auto simp: DIGEST_RE_def json_string_ok_def MAX_JSON_STRING_def list_all_iff dest: record_char_ord)
  show "BOOT_ID_RE s \<Longrightarrow> json_string_ok s"
  proof -
    assume b: "BOOT_ID_RE s"
    have "ord (s ! i) \<noteq> 0" if "i < 36" for i
      using b that record_char_ord(2) [of "s ! i"] by (fastforce simp: BOOT_ID_RE_def list_all_iff split: if_splits)
    with b show ?thesis by (auto simp: BOOT_ID_RE_def json_string_ok_def MAX_JSON_STRING_def in_set_conv_nth)
  qed
qed

lemma json_string_ok_leaf: "json_leaves_ok (JStr s) \<longleftrightarrow> json_string_ok s"
  by (simp add: json_string_ok_def)

lemma fence_record_bounded: "fence_record_ok r \<Longrightarrow> json_bounded (fence_record_to_dict r)"
  using json_string_ok_texts
  by (simp add: fence_record_ok_def process_identity_ok_def fence_record_to_dict_def json_bounded_def json_string_ok_leaf
      MAX_JSON_NODES_def MAX_JSON_DEPTH_def SCHEMA_VERSION_def MAX_PID_def MAX_COUNT_def del: json_leaves_ok.simps(4))

lemma effect_intent_bounded: "effect_intent_ok r \<Longrightarrow> json_bounded (effect_intent_to_dict r)"
  using json_string_ok_texts
  by (simp add: effect_intent_ok_def effect_intent_to_dict_def json_bounded_def json_string_ok_leaf
      MAX_JSON_NODES_def MAX_JSON_DEPTH_def SCHEMA_VERSION_def MAX_COUNT_def del: json_leaves_ok.simps(4))

interpretation fences: record_store fence_record_ok fence_record_to_dict fence_record_from_dict
  by unfold_locales (simp_all add: fence_record_bounded, simp add: fence_record_to_dict_def)

interpretation intents: record_store effect_intent_ok effect_intent_to_dict effect_intent_from_dict
  by unfold_locales (simp_all add: effect_intent_bounded, simp add: effect_intent_to_dict_def)

abbreviation fence_is :: "nat \<Rightarrow> dir \<Rightarrow> fence_record option \<Rightarrow> bool" where
  "fence_is me s a \<equiv> fences.shows_record me s FENCE_NAME a"

lemma not_staged_suffix: "\<not> staged (n @ ''.json'')" "\<not> staged FENCE_NAME"
proof -
  have "rev (n @ ''.json'') \<noteq> rev (temp_name f t)" for f t by (simp add: temp_name_def)
  then have "n @ ''.json'' \<noteq> temp_name f t" for f t by metis
  then show "\<not> staged (n @ ''.json'')" by (auto simp: staged_def)
  show "\<not> staged FENCE_NAME" by (simp add: staged_def temp_name_def FENCE_NAME_def)
qed

section \<open>The fence against its specification\<close>

text \<open>The fence as one optional record.\<close>

definition publish_spec :: "fence_record \<Rightarrow> fence_record option \<Rightarrow> bool result \<times> fence_record option" where
  "publish_spec r a = (case a of
     None \<Rightarrow> (Inr True, Some r)
   | Some r' \<Rightarrow> if r' = r then (Inr False, a)
       else (raise FenceBusyError ''a different owner or recovery phase already holds the durable fence'', a))"

definition clear_spec :: "string \<Rightarrow> fence_record option \<Rightarrow> bool result \<times> fence_record option" where
  "clear_spec epoch a = (case a of
     None \<Rightarrow> (Inr False, a)
   | Some r \<Rightarrow> if fr_owner_epoch r \<noteq> epoch then (raise FenceBusyError ''fence belongs to another epoch'', a)
       else (Inr True, None))"

lemma fence_load_spec:
  "fence_is me s a \<Longrightarrow> always C (\<lambda>s'. s' = s) (fence_load me) (\<lambda>res s'. s' = s \<and> (\<forall>x. res = Inr x \<longrightarrow> x = a)) s"
  unfolding fence_load_def by (rule fences.load_record_spec)

lemma fence_publish_refines:
  assumes "fence_is me s0 a" and "fence_record_ok r" and "proper_dir s0" and "dr_getuid s0 = me"
  shows "always C (\<lambda>s. \<exists>a' \<in> {a, snd (publish_spec r a)}. fence_is me s a') (fence_publish me r)
    (\<lambda>res s. \<forall>c. res = Inr c \<longrightarrow> publish_spec r a = (Inr c, Some r) \<and> fence_is me s (Some r)) s0"
proof -
  have after: "snd (publish_spec r a) = fences.after_put a r"
    by (auto simp: publish_spec_def fences.after_put_def split: option.split)
  show ?thesis unfolding fence_publish_def after
  proof (rule always_mono [OF fences.put_record_spec [OF assms(1,2) not_staged_suffix(2) assms(3,4) fence_load_spec]], goal_cases)
    case (1 s)
    then show ?case .
  next
    case (2 s)
    then show ?case by (rule fences.moves_shows)
  next
    case (3 res s)
    show ?case
    proof (intro allI impI)
      fix c assume "res = Inr c"
      with 3(2) have c: "if c then a = None else a = Some r" and s: "fence_is me s (Some r)" by auto
      from c have "publish_spec r a = (Inr c, Some r)" by (cases c) (simp_all add: publish_spec_def)
      with s show "publish_spec r a = (Inr c, Some r) \<and> fence_is me s (Some r)" by blast
    qed
  qed
qed

lemma fence_clear_refines:
  assumes "fence_is me s0 a" and "proper_dir s0"
  shows "always C (\<lambda>s. \<exists>a' \<in> {a, snd (clear_spec epoch a)}. fence_is me s a') (fence_clear me epoch)
    (\<lambda>res s. \<forall>c. res = Inr c \<longrightarrow> clear_spec epoch a = (Inr c, None) \<and> fence_is me s None) s0"
proof -
  let ?I = "\<lambda>s. \<exists>a' \<in> {a, snd (clear_spec epoch a)}. fence_is me s a'"
  let ?Q = "\<lambda>res s. \<forall>c. res = Inr c \<longrightarrow> clear_spec epoch a = (Inr c, None) \<and> fence_is me s None"
  have start: "?I s0" using assms(1) by blast
  have load: "always C ?I (fence_load me) (\<lambda>res s. s = s0 \<and> (\<forall>x. res = Inr x \<longrightarrow> x = a)) s0"
    by (rule always_mono [OF fence_load_spec [OF assms(1)]]) (use start in blast)+
  have rm: "always C ?I (durable_unlink me FENCE_NAME) ?Q s0" if r: "a = Some r" "fr_owner_epoch r = epoch" for r
  proof (rule always_mono [OF fences.unlink_record_spec [OF assms]], goal_cases)
    case (1 s)
    have "snd (clear_spec epoch a) = None" using r by (simp add: clear_spec_def)
    with fences.moves_shows [OF 1] show ?case by (simp only:)
  next
    case (2 res s)
    show ?case
    proof (intro allI impI)
      fix c assume "res = Inr c"
      with 2(2) have "c = (a \<noteq> None)" "look s FENCE_NAME = None" by simp_all
      with r show "clear_spec epoch a = (Inr c, None) \<and> fence_is me s None" by (simp add: clear_spec_def)
    qed
  qed
  have body: "always C ?I (case a of None \<Rightarrow> returnP False | Some r \<Rightarrow>
      if fr_owner_epoch r \<noteq> epoch then raiseP FenceBusyError ''fence belongs to another epoch''
      else durable_unlink me FENCE_NAME) ?Q s0"
  proof (cases a)
    case None
    have "look s0 FENCE_NAME = None" using assms(1) None by simp
    with None start show ?thesis by (simp add: clear_spec_def)
  next
    case (Some r)
    then show ?thesis using rm [OF Some] start by (cases "fr_owner_epoch r = epoch") simp_all
  qed
  show ?thesis unfolding fence_clear_def
  proof (rule always_thenI [where R = "\<lambda>_ s. s = s0"], goal_cases)
    case 1
    show ?case using start by (simp only: always_liftP)
  next
    case (2 s)
    show ?case unfolding 2(2)
    proof (rule always_bindI [OF load], goal_cases)
      case (1 x s)
      then have x: "s = s0" "x = a" by blast+
      show ?case unfolding x by (rule body)
    qed simp
  qed simp
qed

section \<open>The intents against their specification\<close>

datatype intent_call = Put effect_intent | Advance string string string | Delete string string

fun call_id :: "intent_call \<Rightarrow> string" where
  "call_id (Put i) = ei_effect_id i"
| "call_id (Advance eid expected new) = eid"
| "call_id (Delete eid phase) = eid"

text \<open>An intent passed to \<open>put\<close> went through its constructor.\<close>

fun intent_prog :: "nat \<Rightarrow> intent_call \<Rightarrow> bool prog" where
  "intent_prog me (Put i) =
     thenP (liftP (effect_intent_post_init i (JStr (ei_parameters_digest i)))) (intent_put me i)"
| "intent_prog me (Advance eid expected new) = intent_advance me eid expected new"
| "intent_prog me (Delete eid phase) = intent_delete me eid phase"

text \<open>What a call answers and makes of the one record it is about.\<close>

fun intent_spec :: "intent_call \<Rightarrow> effect_intent option \<Rightarrow> bool result \<times> effect_intent option" where
  "intent_spec (Put i) a = (case a of
     None \<Rightarrow> (Inr True, Some i)
   | Some j \<Rightarrow> if j = i then (Inr False, a) else (raise IntentConflictError ''effect replay disagrees with its durable intent'', a))"
| "intent_spec (Advance eid expected new) a =
     (if expected \<notin> set INTENT_PHASES \<or> new \<notin> set INTENT_PHASES then (raise ValueError ''unsupported intent phase'', a)
      else case a of
        None \<Rightarrow> (raise IntentConflictError ''effect has no durable intent'', a)
      | Some r \<Rightarrow>
          if ei_phase r = new then (Inr False, a)
          else if ei_phase r \<noteq> expected then (raise IntentConflictError ''effect is in another phase'', a)
          else (Inr True, Some (r\<lparr>ei_phase := new\<rparr>)))"
| "intent_spec (Delete eid phase) a = (case a of
     None \<Rightarrow> (Inr False, None)
   | Some r \<Rightarrow> if ei_phase r \<noteq> phase then (raise IntentConflictError ''effect is in another phase before deletion'', a)
       else (Inr True, None))"

text \<open>The directory shows the map \<open>m\<close>: every record under its own id.\<close>

definition intents_are :: "nat \<Rightarrow> dir \<Rightarrow> (string \<rightharpoonup> effect_intent) \<Rightarrow> bool" where
  "intents_are me s m \<longleftrightarrow> dr_getuid s = me \<and> proper_dir s \<and>
     (\<forall>eid. if RUNTIME_TOKEN_RE eid
        then intents.shows_record me s (intent_name eid) (m eid) \<and> (\<forall>i \<in> set_option (m eid). ei_effect_id i = eid)
        else m eid = None)"

lemma intents_are_record:
  "intents_are me s m \<Longrightarrow> RUNTIME_TOKEN_RE eid \<Longrightarrow> intents.shows_record me s (intent_name eid) (m eid)"
  by (simp add: intents_are_def)

lemma intents_are_own:
  "intents_are me s m \<Longrightarrow> RUNTIME_TOKEN_RE eid \<Longrightarrow> \<forall>i \<in> set_option (m eid). ei_effect_id i = eid"
  unfolding intents_are_def by presburger

lemma intents_are_dir: "intents_are me s m \<Longrightarrow> dr_getuid s = me" "intents_are me s m \<Longrightarrow> proper_dir s"
  unfolding intents_are_def by blast+

lemma path_for_Inr [simp]: "path_for eid = Inr n \<longleftrightarrow> RUNTIME_TOKEN_RE eid \<and> n = intent_name eid"
  by (auto simp: path_for_def valid errors)

lemma path_for_token [simp]: "RUNTIME_TOKEN_RE eid \<Longrightarrow> path_for eid = Inr (intent_name eid)"
  by simp

lemma intent_name_inj [simp]: "intent_name a = intent_name b \<longleftrightarrow> a = b"
  by (simp add: intent_name_def)

lemma not_staged_intent [simp]: "\<not> staged (intent_name eid)"
  by (simp add: intent_name_def not_staged_suffix)

text \<open>A change of one record is a change of the map at one point.\<close>

lemma moves_intents:
  assumes "intents_are me s0 m" and "RUNTIME_TOKEN_RE eid" and "proper_dir s"
    and "intents.moves me s0 (intent_name eid) (m eid) b s" and "\<forall>i \<in> set_option b. ei_effect_id i = eid"
  shows "\<exists>b' \<in> {m eid, b}. intents.shows_record me s (intent_name eid) b' \<and> intents_are me s (m(eid := b'))"
proof -
  have same: "same_files s0 s" using assms(4) by (simp add: intents.moves_def)
  obtain b' where b': "b' \<in> {m eid, b}" "intents.shows_record me s (intent_name eid) b'"
    using intents.moves_shows [OF assms(4)] by blast
  have "\<forall>i \<in> set_option b'. ei_effect_id i = eid" using b'(1) assms(1,2,5) by (auto simp: intents_are_def)
  moreover have "intents.shows_record me s (intent_name eid') (m eid')" if "eid' \<noteq> eid" "RUNTIME_TOKEN_RE eid'" for eid'
  proof (rule intents.shows_kept [OF intents_are_record [OF assms(1) that(2)] same])
    show "look s (intent_name eid') = look s0 (intent_name eid')" using assms(4) that(1) by (simp add: intents.moves_def)
  qed (use assms(1) in \<open>simp add: intents_are_def\<close>)
  moreover have "dr_getuid s = me" using same assms(1) by (simp add: same_files_def intents_are_def)
  ultimately have "intents_are me s (m(eid := b'))" using assms(1-3) b'(2) by (simp add: intents_are_def)
  with b' show ?thesis by blast
qed

lemma intent_load_shows:
  assumes "RUNTIME_TOKEN_RE eid" and "\<forall>i \<in> set_option a. ei_effect_id i = eid"
    and "intents.shows_record me s (intent_name eid) a"
  shows "always C (\<lambda>s'. s' = s) (intent_load me eid) (\<lambda>res s'. s' = s \<and> (\<forall>x. res = Inr x \<longrightarrow> x = a)) s"
proof -
  have path: "path_for eid = Inr (intent_name eid)" using assms(1) by simp
  show ?thesis
    unfolding intent_load_def path bindP_def liftP_def handleP.simps sum.case
    unfolding bindP_def [symmetric]
    by (rule always_bindI [OF intents.load_record_spec [OF assms(3)]]) (use assms(2) in \<open>auto split: option.split\<close>)
qed

lemma intent_load_spec:
  assumes "intents_are me s m"
  shows "always C (\<lambda>s'. s' = s) (intent_load me eid)
    (\<lambda>res s'. s' = s \<and> (\<forall>x. res = Inr x \<longrightarrow> RUNTIME_TOKEN_RE eid \<and> x = m eid)) s"
proof (cases "RUNTIME_TOKEN_RE eid")
  case True
  from intent_load_shows [OF True intents_are_own [OF assms True] intents_are_record [OF assms True]] True
  show ?thesis by simp
next
  case False
  then obtain e where "path_for eid = Inl e" by (cases "path_for eid") auto
  then show ?thesis by (simp add: intent_load_def bindP_def liftP_def)
qed

lemma effect_intent_post_init_Inr:
  "effect_intent_post_init i (JStr (ei_parameters_digest i)) = Inr u \<longleftrightarrow> effect_intent_ok i"
  using phase_tokens(2) by (auto simp: effect_intent_post_init_def effect_intent_ok_def valid errors)

definition intent_moves :: "nat \<Rightarrow> dir \<Rightarrow> (string \<rightharpoonup> effect_intent) \<Rightarrow> intent_call \<Rightarrow> dir \<Rightarrow> bool" where
  "intent_moves me s0 m c s \<longleftrightarrow> s = s0 \<or> RUNTIME_TOKEN_RE (call_id c) \<and>
     (\<forall>i \<in> set_option (snd (intent_spec c (m (call_id c)))). ei_effect_id i = call_id c) \<and>
     intents.moves me s0 (intent_name (call_id c)) (m (call_id c)) (snd (intent_spec c (m (call_id c)))) s"

definition intent_answers :: "nat \<Rightarrow> (string \<rightharpoonup> effect_intent) \<Rightarrow> intent_call \<Rightarrow> bool result \<Rightarrow> dir \<Rightarrow> bool" where
  "intent_answers me m c res s \<longleftrightarrow> (\<forall>b. res = Inr b \<longrightarrow>
     fst (intent_spec c (m (call_id c))) = Inr b \<and>
     (\<forall>a. intents.shows_record me s (intent_name (call_id c)) a \<longrightarrow> a = snd (intent_spec c (m (call_id c)))))"

text \<open>A file shows one record only.\<close>

lemma shows_unique:
  assumes "intents.shows_record me s n a" and "intents.shows_record me s n b"
  shows "a = b"
proof (cases a)
  case None
  with assms show ?thesis by (cases b) (auto simp: holds_def)
next
  case (Some r)
  with assms obtain r' where r': "b = Some r'" by (cases b) (auto simp: holds_def)
  then have "record_bytes (effect_intent_to_dict r) = record_bytes (effect_intent_to_dict r')"
    using assms Some by (auto simp: holds_def)
  then show ?thesis using intent.canonical_bytes_inj assms Some r' by (auto simp: record_bytes_def)
qed

lemma intent_answersI:
  "intents.shows_record me s (intent_name (call_id c)) (snd (intent_spec c (m (call_id c)))) \<Longrightarrow>
   (\<And>b. res = Inr b \<Longrightarrow> fst (intent_spec c (m (call_id c))) = Inr b) \<Longrightarrow> intent_answers me m c res s"
  unfolding intent_answers_def by (intro allI impI conjI) (simp, erule shows_unique, assumption)

lemma intent_answers_error [simp]: "intent_answers me m c (Inl e) s"
  by (simp add: intent_answers_def)

lemma put_refines:
  assumes "intents_are me s0 m"
  shows "always C (intent_moves me s0 m (Put i)) (intent_prog me (Put i)) (intent_answers me m (Put i)) s0"
proof (cases "effect_intent_ok i")
  case True
  let ?e = "ei_effect_id i"
  have tok: "RUNTIME_TOKEN_RE ?e" using True by (simp add: effect_intent_ok_def)
  then have path: "path_for ?e = Inr (intent_name ?e)" by simp
  have init: "effect_intent_post_init i (JStr (ei_parameters_digest i)) = Inr ()"
    using True effect_intent_post_init_Inr by blast
  have after: "snd (intent_spec (Put i) (m ?e)) = intents.after_put (m ?e) i"
    by (auto simp: intents.after_put_def split: option.split)
  have own: "\<forall>j \<in> set_option (intents.after_put (m ?e) i). ei_effect_id j = ?e"
    using intents_are_own [OF assms tok] by (simp add: intents.after_put_def split: option.split)
  have reload: "always C (\<lambda>s'. s' = s) (intent_load me ?e) (\<lambda>res s'. s' = s \<and> (\<forall>x. res = Inr x \<longrightarrow> x = m ?e)) s"
    if "intents.shows_record me s (intent_name ?e) (m ?e)" for s
    by (rule intent_load_shows [OF tok intents_are_own [OF assms tok] that])
  note base = intents.put_record_spec [OF intents_are_record [OF assms tok] True not_staged_intent
      intents_are_dir(2,1) [OF assms] reload,
      of IntentConflictError "''effect replay disagrees with its durable intent''"]
  have "always C (intent_moves me s0 m (Put i))
      (bindP (atomic_create_json me (intent_name ?e) (effect_intent_to_dict i)) (\<lambda>created.
        if created then returnP True else bindP (intent_load me ?e) (\<lambda>existing.
          if existing = Some i then returnP False
          else raiseP IntentConflictError ''effect replay disagrees with its durable intent'')))
      (intent_answers me m (Put i)) s0"
  proof (rule always_mono [OF base], goal_cases)
    case (2 s)
    then show ?case using tok own by (simp add: intent_moves_def after del: intent_spec.simps)
  next
    case (3 res s)
    show ?case
    proof (cases res)
      case (Inr b)
      with 3(2) have b: "if b then m ?e = None else m ?e = Some i" "intents.shows_record me s (intent_name ?e) (Some i)" by auto
      show ?thesis by (rule intent_answersI) (use b Inr in \<open>cases b; simp\<close>)+
    qed simp
  qed
  then show ?thesis by (simp add: init intent_put_def path bindP_def thenP_def liftP_def)
next
  case False
  then obtain e where "effect_intent_post_init i (JStr (ei_parameters_digest i)) = Inl e"
    using effect_intent_post_init_Inr by (cases "effect_intent_post_init i (JStr (ei_parameters_digest i))") auto
  then show ?thesis by (simp add: thenP_def bindP_def liftP_def intent_moves_def)
qed

text \<open>Loading first, then acting on what was loaded.\<close>

lemma load_then_refines:
  assumes "intents_are me s0 m"
    and "\<And>x. RUNTIME_TOKEN_RE (call_id c) \<Longrightarrow> x = m (call_id c) \<Longrightarrow>
      always C (intent_moves me s0 m c) (act x) (intent_answers me m c) s0"
  shows "always C (intent_moves me s0 m c) (bindP (intent_load me (call_id c)) act) (intent_answers me m c) s0"
proof -
  have start: "intent_moves me s0 m c s0" by (simp add: intent_moves_def)
  have "always C (intent_moves me s0 m c) (intent_load me (call_id c))
      (\<lambda>res s'. s' = s0 \<and> (\<forall>x. res = Inr x \<longrightarrow> RUNTIME_TOKEN_RE (call_id c) \<and> x = m (call_id c))) s0"
    by (rule always_mono [OF intent_load_spec [OF assms(1)]]) (use start in blast)+
  then show ?thesis
  proof (rule always_bindI, goal_cases)
    case (1 x s)
    then have x: "s = s0" "RUNTIME_TOKEN_RE (call_id c)" "x = m (call_id c)" by blast+
    show ?case unfolding x(1) by (rule assms(2) [OF x(2,3)])
  qed simp
qed

lemma liftP_simps [simp]:
  "thenP (liftP (Inr ())) q = q" "thenP (liftP (Inl e)) q = Done (Inl e)"
  "bindP (liftP (Inr x)) f = f x" "bindP (liftP (Inl e)) f = Done (Inl e)"
  by (simp_all add: thenP_def bindP_def liftP_def)

lemma advance_loaded_refines:
  assumes "intents_are me s0 m" and tok: "RUNTIME_TOKEN_RE eid"
    and phases: "expected \<in> set INTENT_PHASES" "new \<in> set INTENT_PHASES"
  defines "c \<equiv> Advance eid expected new"
  shows "always C (intent_moves me s0 m c) (advance_loaded me eid expected new (m eid)) (intent_answers me m c) s0"
proof -
  have start: "intent_moves me s0 m c s0" by (simp add: intent_moves_def)
  have shown: "intents.shows_record me s0 (intent_name eid) (m eid)" by (rule intents_are_record [OF assms(1) tok])
  show ?thesis
  proof (cases "\<exists>r. m eid = Some r \<and> ei_phase r = expected \<and> ei_phase r \<noteq> new")
    case False
    have "intent_answers me m c (Inr False) s0" if "m eid = Some r" "ei_phase r = new" for r
      using shown that phases by (intro intent_answersI) (auto simp: c_def)
    with False start show ?thesis by (auto simp: advance_loaded_def split: option.split)
  next
    case True
    then obtain r where r: "m eid = Some r" "ei_phase r = expected" "ei_phase r \<noteq> new" by blast
    let ?r = "r\<lparr>ei_phase := new\<rparr>"
    have ok: "effect_intent_ok ?r" using shown r(1) phases(2) by (simp add: effect_intent_ok_def)
    then have init: "effect_intent_post_init ?r (JStr (ei_parameters_digest ?r)) = Inr ()"
      using effect_intent_post_init_Inr by blast
    have path: "path_for eid = Inr (intent_name eid)" using tok by simp
    have spec: "intent_spec c (m eid) = (Inr True, Some ?r)" using r phases by (simp add: c_def)
    have own: "ei_effect_id ?r = eid" using intents_are_own [OF assms(1) tok] r(1) by simp
    have id: "call_id c = eid" by (simp add: c_def)
    have "always C (intent_moves me s0 m c) (atomic_replace_json me (intent_name eid) (effect_intent_to_dict ?r))
        (\<lambda>res s. res = Inr () \<longrightarrow> intents.shows_record me s (intent_name eid) (Some ?r)) s0"
      by (rule always_mono [OF intents.replace_record_spec [OF shown ok not_staged_intent intents_are_dir(2,1) [OF assms(1)]]])
        (use tok own spec in \<open>simp_all add: intent_moves_def id\<close>)
    then have "always C (intent_moves me s0 m c)
        (thenP (atomic_replace_json me (intent_name eid) (effect_intent_to_dict ?r)) (returnP True)) (intent_answers me m c) s0"
    proof (rule always_thenI, goal_cases)
      case (1 s)
      have "intent_answers me m c (Inr True) s" by (rule intent_answersI) (use 1(2) spec id in simp_all)
      with 1(1) show ?case by simp
    qed simp
    then show ?thesis using r init path by (simp add: advance_loaded_def Let_def)
  qed
qed

lemma advance_refines:
  assumes "intents_are me s0 m"
  shows "always C (intent_moves me s0 m (Advance eid expected new)) (intent_prog me (Advance eid expected new))
    (intent_answers me m (Advance eid expected new)) s0"
proof (cases "expected \<in> set INTENT_PHASES \<and> new \<in> set INTENT_PHASES")
  case True
  with load_then_refines [OF assms, of "Advance eid expected new"] advance_loaded_refines [OF assms]
  show ?thesis by (simp add: intent_advance_def)
qed (simp add: intent_advance_def raise_if_def intent_moves_def)

lemma delete_refines:
  assumes "intents_are me s0 m"
  shows "always C (intent_moves me s0 m (Delete eid phase)) (intent_prog me (Delete eid phase))
    (intent_answers me m (Delete eid phase)) s0"
proof -
  let ?c = "Delete eid phase"
  have act: "always C (intent_moves me s0 m ?c) (case m eid of None \<Rightarrow> returnP False | Some r \<Rightarrow>
      if ei_phase r \<noteq> phase then raiseP IntentConflictError ''effect is in another phase before deletion''
      else bindP (liftP (path_for eid)) (durable_unlink me)) (intent_answers me m ?c) s0"
    if tok: "RUNTIME_TOKEN_RE eid"
  proof -
    have start: "intent_moves me s0 m ?c s0" by (simp add: intent_moves_def)
    have shown: "intents.shows_record me s0 (intent_name eid) (m eid)" by (rule intents_are_record [OF assms tok])
    have path: "path_for eid = Inr (intent_name eid)" using tok by simp
    show ?thesis
    proof (cases "\<exists>r. m eid = Some r \<and> ei_phase r = phase")
      case False
      have "intent_answers me m ?c (Inr False) s0" if "m eid = None"
        using shown that by (intro intent_answersI) auto
      with False start show ?thesis by (auto split: option.split)
    next
      case True
      then obtain r where r: "m eid = Some r" "ei_phase r = phase" by blast
      then have spec: "intent_spec ?c (m eid) = (Inr True, None)" by simp
      have "always C (intent_moves me s0 m ?c) (durable_unlink me (intent_name eid)) (intent_answers me m ?c) s0"
      proof (rule always_mono [OF intents.unlink_record_spec [OF shown intents_are_dir(2) [OF assms]]], goal_cases)
        case (1 s)
        then show ?case using tok spec by (simp add: intent_moves_def)
      next
        case (2 res s)
        show ?case
        proof (cases res)
          case (Inr b)
          with 2(2) r(1) have "b" "look s (intent_name eid) = None" by simp_all
          then show ?thesis using spec Inr by (intro intent_answersI) simp_all
        qed simp
      qed
      then show ?thesis using r path by simp
    qed
  qed
  show ?thesis using load_then_refines [OF assms, of ?c] act by (simp add: intent_delete_def cong: option.case_cong)
qed

text \<open>An effect id that is no token is refused.\<close>

lemma bad_id_raises:
  assumes "\<not> RUNTIME_TOKEN_RE (call_id c)"
  shows "always C (\<lambda>_. True) (intent_prog me c) (\<lambda>res s. \<forall>b. res \<noteq> Inr b) s"
proof -
  obtain e where e: "path_for (call_id c) = Inl e" using assms by (cases "path_for (call_id c)") auto
  show ?thesis
  proof (cases c)
    case (Put i)
    then have "\<not> effect_intent_ok i" using assms by (simp add: effect_intent_ok_def)
    then obtain e where "effect_intent_post_init i (JStr (ei_parameters_digest i)) = Inl e"
      using effect_intent_post_init_Inr by (cases "effect_intent_post_init i (JStr (ei_parameters_digest i))") auto
    with Put show ?thesis by simp
  next
    case (Advance eid expected new)
    with e show ?thesis
      by (simp add: intent_advance_def intent_load_def raise_if_def) (simp add: bindP_def)
  next
    case (Delete eid phase)
    with e show ?thesis by (simp add: intent_delete_def intent_load_def) (simp add: bindP_def)
  qed
qed

lemma call_refines:
  "intents_are me s0 m \<Longrightarrow> always C (intent_moves me s0 m c) (intent_prog me c) (intent_answers me m c) s0"
  by (cases c) (simp_all only: put_refines advance_refines delete_refines)

lemma intent_call_result:
  assumes "intents_are me s0 m" and "run cs (intent_prog me c) s0 = (p, s)"
  defines "after \<equiv> m(call_id c := snd (intent_spec c (m (call_id c))))"
  shows "\<exists>m' \<in> {m, after}. intents_are me s m' \<and>
    (\<forall>b. outcome p = Some (Inr b) \<longrightarrow> fst (intent_spec c (m (call_id c))) = Inr b \<and> m' = after)"
proof -
  let ?e = "call_id c" and ?b = "snd (intent_spec c (m (call_id c)))"
  note spec = run_always [OF assms(2) call_refines [OF assms(1)]]
  have proper: "proper_dir s" by (rule run_proper [OF assms(2) intents_are_dir(2) [OF assms(1)]])
  have answers: "fst (intent_spec c (m ?e)) = Inr b \<and> a = ?b"
    if "outcome p = Some (Inr b)" "intents.shows_record me s (intent_name ?e) a" for b a
    using spec(2) [OF that(1)] that(2) by (simp add: intent_answers_def)
  show ?thesis
  proof (cases "RUNTIME_TOKEN_RE ?e")
    case True
    have "\<exists>b' \<in> {m ?e, ?b}. intents.shows_record me s (intent_name ?e) b' \<and> intents_are me s (m(?e := b'))"
    proof (cases "s = s0")
      case True
      then show ?thesis using assms(1) intents_are_record [OF assms(1) \<open>RUNTIME_TOKEN_RE ?e\<close>] by auto
    next
      case False
      with spec(1) moves_intents [OF assms(1) True proper] show ?thesis by (simp add: intent_moves_def)
    qed
    then obtain b' where b': "b' = m ?e \<or> b' = ?b" "intents.shows_record me s (intent_name ?e) b'"
      "intents_are me s (m(?e := b'))" by blast
    have "m(?e := b') \<in> {m, after}" using b'(1) by (auto simp: after_def)
    moreover have "\<forall>b. outcome p = Some (Inr b) \<longrightarrow> fst (intent_spec c (m ?e)) = Inr b \<and> m(?e := b') = after"
      using answers [OF _ b'(2)] by (simp add: after_def)
    ultimately show ?thesis using b'(3) by blast
  next
    case False
    then have s: "s = s0" and none: "m ?e = None" using spec(1) assms(1)
      by (auto simp: intent_moves_def intents_are_def)
    have "outcome p \<noteq> Some (Inr b)" for b
    proof
      assume b: "outcome p = Some (Inr b)"
      have "always UNIV (\<lambda>s. True) (intent_prog me c) (\<lambda>res s. \<forall>b. res \<noteq> Inr b) s0"
        using False by (rule bad_id_raises)
      from run_always(2) [OF assms(2) this b] show False by blast
    qed
    with s assms(1) show ?thesis by blast
  qed
qed

section \<open>Histories\<close>

text \<open>
  Calls one after the other, each with whatever faults it meets and cut off wherever it is: the
  directory a call leaves is the one the next call finds.
\<close>

inductive intent_history :: "nat \<Rightarrow> dir \<Rightarrow> intent_call list \<Rightarrow> dir \<Rightarrow> bool" for me s0 where
  start: "intent_history me s0 [] s0"
| call: "intent_history me s0 calls s \<Longrightarrow> run cs (intent_prog me c) s = (p, s') \<Longrightarrow>
    intent_history me s0 (calls @ [c]) s'"

inductive_cases intent_history_NilE: "intent_history me s0 [] s"

text \<open>Where the intents shown in the end come from.\<close>

definition origin :: "(string \<rightharpoonup> effect_intent) \<Rightarrow> intent_call list \<Rightarrow> effect_intent \<Rightarrow> bool" where
  "origin m calls i \<longleftrightarrow> (\<exists>i0. (m (ei_effect_id i0) = Some i0 \<or> Put i0 \<in> set calls) \<and> i = i0\<lparr>ei_phase := ei_phase i\<rparr>)"

lemma origin_more: "origin m calls i \<Longrightarrow> origin m (calls @ [c]) i"
  by (auto simp: origin_def)

lemma origin_phase: "origin m calls i \<Longrightarrow> origin m calls (i\<lparr>ei_phase := p\<rparr>)"
  by (auto simp: origin_def) (metis effect_intent.surjective effect_intent.update_convs(7))+

lemma spec_origin:
  assumes "\<forall>j \<in> set_option a. origin m calls j" and "i \<in> set_option (snd (intent_spec c a))"
  shows "origin m (calls @ [c]) i"
proof (cases c)
  case (Put j)
  have "origin m (calls @ [Put j]) j" by (auto simp: origin_def intro!: exI [of _ j])
  with assms Put show ?thesis by (auto split: option.splits if_splits intro: origin_more)
next
  case (Advance eid expected new)
  with assms show ?thesis by (auto split: option.splits if_splits intro: origin_more origin_phase)
next
  case (Delete eid phase)
  with assms show ?thesis by (auto split: option.splits if_splits intro: origin_more)
qed

lemma history_origin:
  assumes "intents_are me s0 m" and "intent_history me s0 calls s"
  shows "\<exists>m'. intents_are me s m' \<and> (\<forall>eid i. m' eid = Some i \<longrightarrow> ei_effect_id i = eid \<and> origin m calls i)"
  using assms(2)
proof (induction rule: intent_history.induct)
  case start
  have "ei_effect_id i = eid \<and> origin m [] i" if "m eid = Some i" for eid i
  proof -
    have tok: "RUNTIME_TOKEN_RE eid" using assms(1) that by (auto simp: intents_are_def split: if_splits)
    with intents_are_own [OF assms(1) tok] that have "ei_effect_id i = eid" by simp
    with that show ?thesis by (auto simp: origin_def intro!: exI [of _ i])
  qed
  with assms(1) show ?case by blast
next
  case (call calls s cs c p s')
  then obtain m1 where m1: "intents_are me s m1" "\<forall>eid i. m1 eid = Some i \<longrightarrow> ei_effect_id i = eid \<and> origin m calls i" by blast
  from intent_call_result [OF m1(1) call(2)] obtain m2 where
    m2: "m2 = m1 \<or> m2 = m1(call_id c := snd (intent_spec c (m1 (call_id c))))" "intents_are me s' m2" by blast
  have "ei_effect_id i = eid \<and> origin m (calls @ [c]) i" if i: "m2 eid = Some i" for eid i
  proof
    have "RUNTIME_TOKEN_RE eid" using m2(2) i by (auto simp: intents_are_def split: if_splits)
    from intents_are_own [OF m2(2) this] i show "ei_effect_id i = eid" by simp
    have "origin m (calls @ [c]) i" if "m1 eid = Some i" using m1(2) that origin_more by blast
    moreover have "origin m (calls @ [c]) i" if "eid = call_id c" "i \<in> set_option (snd (intent_spec c (m1 (call_id c))))"
      using m1(2) that by (intro spec_origin [OF _ that(2)]) auto
    ultimately show "origin m (calls @ [c]) i" using m2(1) i by (auto split: if_splits)
  qed
  with m2(2) show ?case by blast
qed

section \<open>Properties\<close>

definition sample_fence :: fence_record where
  "sample_fence = \<lparr>fr_schema_version = 1, fr_release_id = ''r1'', fr_owner_epoch = ''e1'', fr_pid = 42,
     fr_pid_start_ticks = 7, fr_boot_id = ''01234567-89ab-cdef-0123-456789abcdef'', fr_phase = ''READY''\<rparr>"

definition sample_intent :: effect_intent where
  "sample_intent = \<lparr>ei_schema_version = 1, ei_owner_epoch = ''e1'', ei_generation = 3, ei_effect_id = ''x'',
     ei_operation = ''op'', ei_parameters_digest = replicate 64 (CHR ''0''), ei_phase = ''PREPARED''\<rparr>"

lemma no_intents: "intents_are 7 crash_empty Map.empty"
  by (simp add: intents_are_def)

text \<open>
  C31: The fence is one atomic register. Whatever faults \<open>publish\<close> or \<open>clear\<close> meets and wherever it is
  cut off, the fence is afterwards the old one or what the specification makes of it; when the call
  returns, its answer and the fence are those of the specification, so an owner never replaces the
  fence of another epoch and clears only its own.
\<close>

theorem fence_calls_refine:
  assumes "fence_is me s0 a" and "proper_dir s0" and "dr_getuid s0 = me" and "fence_record_ok r"
  shows "(run cs (fence_publish me r) s0 = (p, s) \<longrightarrow>
      (\<exists>a' \<in> {a, snd (publish_spec r a)}. fence_is me s a') \<and>
      (\<forall>b. outcome p = Some (Inr b) \<longrightarrow> publish_spec r a = (Inr b, Some r) \<and> fence_is me s (Some r))) \<and>
    (run cs (fence_clear me epoch) s0 = (p, s) \<longrightarrow>
      (\<exists>a' \<in> {a, snd (clear_spec epoch a)}. fence_is me s a') \<and>
      (\<forall>b. outcome p = Some (Inr b) \<longrightarrow> clear_spec epoch a = (Inr b, None) \<and> fence_is me s None))"
proof (intro conjI impI allI)
  note publish = run_always [OF _ fence_publish_refines [OF assms(1,4,2,3)]]
  note clear = run_always [OF _ fence_clear_refines [OF assms(1,2), where epoch = epoch]]
  show "\<exists>a' \<in> {a, snd (publish_spec r a)}. fence_is me s a'" if "run cs (fence_publish me r) s0 = (p, s)"
    using publish(1) [OF that] .
  show "publish_spec r a = (Inr b, Some r)" "fence_is me s (Some r)"
    if "run cs (fence_publish me r) s0 = (p, s)" "outcome p = Some (Inr b)" for b
    using publish(2) [OF that] by blast+
  show "\<exists>a' \<in> {a, snd (clear_spec epoch a)}. fence_is me s a'" if "run cs (fence_clear me epoch) s0 = (p, s)"
    using clear(1) [OF that] .
  show "clear_spec epoch a = (Inr b, None)" "fence_is me s None"
    if "run cs (fence_clear me epoch) s0 = (p, s)" "outcome p = Some (Inr b)" for b
    using clear(2) [OF that] by blast+
qed

theorem fence_calls_refine_witness:
  "let s = snd (run [Proceed 1, Fail] (fence_publish 7 sample_fence) crash_empty)
   in \<exists>a' \<in> {None, Some sample_fence}. fence_is 7 s a'"
proof -
  let ?r = "run [Proceed 1, Fail] (fence_publish 7 sample_fence) crash_empty"
  have ok: "fence_record_ok sample_fence" by code_simp
  have none: "fence_is 7 crash_empty None" by simp
  have "snd (publish_spec sample_fence None) = Some sample_fence" by (simp add: publish_spec_def)
  with fence_calls_refine [OF none crash_empty_simps(5,1) ok, of "[Proceed 1, Fail]" "fst ?r" "snd ?r"]
  show ?thesis unfolding Let_def by (metis prod.collapse)
qed

text \<open>
  C32: The intent store is a map from effect ids to intents. Whatever faults a call of \<open>put\<close>,
  \<open>advance\<close> or \<open>delete\<close> meets and wherever it is cut off, the directory shows the old map or the map
  that the specification of the call makes of it, changed at that one id; when the call returns, it
  is the second, with the answer of the specification.
\<close>

theorem intent_calls_refine:
  assumes "intents_are me s0 m" and "run cs (intent_prog me c) s0 = (p, s)"
  shows "\<exists>m' \<in> {m, m(call_id c := snd (intent_spec c (m (call_id c))))}. intents_are me s m' \<and>
    (\<forall>b. outcome p = Some (Inr b) \<longrightarrow> fst (intent_spec c (m (call_id c))) = Inr b \<and>
       m' = m(call_id c := snd (intent_spec c (m (call_id c)))))"
  by (rule intent_call_result [OF assms])

theorem intent_calls_refine_witness:
  "let s = snd (run [Proceed 1, Fail] (intent_prog 7 (Put sample_intent)) crash_empty)
   in \<exists>m'. intents_are 7 s m' \<and> (m' = Map.empty \<or> m' = [''x'' \<mapsto> sample_intent])"
proof -
  have "call_id (Put sample_intent) = ''x''" by (simp add: sample_intent_def)
  then have "snd (intent_spec (Put sample_intent) (Map.empty (call_id (Put sample_intent)))) = Some sample_intent" by simp
  with intent_calls_refine [OF no_intents prod.collapse [symmetric], where cs = "[Proceed 1, Fail]" and c = "Put sample_intent"]
  show ?thesis unfolding Let_def \<open>call_id (Put sample_intent) = ''x''\<close> by auto
qed

text \<open>
  C33: No intent is made up or altered. After any history of calls, each with its faults and cut off
  anywhere, every intent in the directory stands under its own id and is one that was there at the
  beginning or was given to \<open>put\<close>, the same in everything but its phase.
\<close>

theorem intent_history_faithful:
  assumes "intents_are me s0 m" and "intent_history me s0 calls s"
  shows "\<exists>m'. intents_are me s m' \<and> (\<forall>eid i. m' eid = Some i \<longrightarrow> ei_effect_id i = eid \<and>
    (\<exists>i0. (m (ei_effect_id i0) = Some i0 \<or> Put i0 \<in> set calls) \<and> i = i0\<lparr>ei_phase := ei_phase i\<rparr>))"
  using history_origin [OF assms] unfolding origin_def .

theorem intent_history_faithful_witness:
  "\<exists>s m'. intent_history 7 crash_empty [Put sample_intent, Delete ''x'' ''CLEANED''] s \<and> intents_are 7 s m' \<and>
     (\<forall>i. m' ''x'' = Some i \<longrightarrow> ei_operation i = ''op'')"
proof -
  let ?s1 = "snd (run [Proceed 1, Proceed 2] (intent_prog 7 (Put sample_intent)) crash_empty)"
  let ?s2 = "snd (run [Proceed 1] (intent_prog 7 (Delete ''x'' ''CLEANED'')) ?s1)"
  have h: "intent_history 7 crash_empty (([] @ [Put sample_intent]) @ [Delete ''x'' ''CLEANED'']) ?s2"
    by (rule intent_history.call [OF intent_history.call [OF intent_history.start prod.collapse [symmetric]] prod.collapse [symmetric]])
  obtain m' where m': "intents_are 7 ?s2 m'" "\<forall>eid i. m' eid = Some i \<longrightarrow> ei_effect_id i = eid \<and>
     (\<exists>i0. (Map.empty (ei_effect_id i0) = Some i0 \<or> Put i0 \<in> set (([] @ [Put sample_intent]) @ [Delete ''x'' ''CLEANED''])) \<and>
       i = i0\<lparr>ei_phase := ei_phase i\<rparr>)"
    using intent_history_faithful [OF no_intents h] by blast
  have "ei_operation i = ''op''" if "m' ''x'' = Some i" for i
  proof -
    from m'(2) that have "i = sample_intent\<lparr>ei_phase := ei_phase i\<rparr>" by simp
    then have "ei_operation i = ei_operation (sample_intent\<lparr>ei_phase := ei_phase i\<rparr>)" by (rule arg_cong)
    then show ?thesis by (simp add: sample_intent_def)
  qed
  moreover have "intent_history 7 crash_empty [Put sample_intent, Delete ''x'' ''CLEANED''] ?s2"
    using h unfolding append.simps .
  ultimately show ?thesis using m'(1) by blast
qed

end
