(* ===== verification/Addresses.thy ===== *)
theory Addresses
  imports Prelude
begin

text \<open>
  The texts that \<open>ipaddress.ip_address\<close> of the standard library accepts, and the loopback
  addresses among them, for the components that read addresses.
\<close>

text \<open>\<open>ipaddress.ip_address\<close>, on strings: a dotted quad without leading zeros.\<close>

definition octet :: "string \<Rightarrow> bool" where
  "octet s \<longleftrightarrow> s \<noteq> [] \<and> list_all is_digit s \<and> length s \<le> 3 \<and> (hd s \<noteq> CHR ''0'' \<or> length s = 1) \<and> dec_nat s \<le> 255"

definition is_ipv4 :: "string \<Rightarrow> bool" where
  "is_ipv4 s \<longleftrightarrow> (let parts = split_on (CHR ''.'') s in length parts = 4 \<and> list_all octet parts)"

definition is_hextet :: "string \<Rightarrow> bool" where
  "is_hextet s \<longleftrightarrow> s \<noteq> [] \<and> length s \<le> 4 \<and> list_all (\<lambda>c. is_hex c \<or> (65 \<le> ord c \<and> ord c \<le> 70)) s"

text \<open>
  \<open>IPv6Address._ip_int_from_string\<close>: at least three parts, a dotted quad as the last one counts
  for two, at most one empty part inside (the \<open>::\<close>), and no single colon at either end.
\<close>

definition ipv6_parts :: "string \<Rightarrow> string list option" where
  "ipv6_parts s =
     (let parts = split_on (CHR '':'') s in
      if length parts < 3 then None
      else if CHR ''.'' \<in> set (last parts) then
        (if is_ipv4 (last parts) then Some (butlast parts @ [''0'', ''0'']) else None)
      else Some parts)"

definition is_ipv6_int :: "string \<Rightarrow> bool" where
  "is_ipv6_int s =
     (case ipv6_parts s of
        None \<Rightarrow> False
      | Some parts \<Rightarrow>
          let n = length parts;
              skips = filter (\<lambda>i. parts ! i = []) [1..<n - 1] in
          if n > 9 \<or> length skips > 1 then False
          else (case skips of
              [] \<Rightarrow> n = 8 \<and> list_all is_hextet parts
            | skip # _ \<Rightarrow>
                let hi = (if parts ! 0 = [] then skip - 1 else skip);
                    lo = (if parts ! (n - 1) = [] then n - skip - 2 else n - skip - 1) in
                (parts ! 0 = [] \<longrightarrow> hi = 0) \<and> (parts ! (n - 1) = [] \<longrightarrow> lo = 0) \<and> hi + lo < 8 \<and>
                list_all is_hextet (take hi parts) \<and> list_all is_hextet (drop (n - lo) parts)))"

text \<open>An IPv6 address may carry a zone after one percent sign; an address has no slash.\<close>

definition is_ipv6 :: "string \<Rightarrow> bool" where
  "is_ipv6 s \<longleftrightarrow> CHR ''/'' \<notin> set s \<and>
     (case split_on (CHR ''%'') s of
        [addr] \<Rightarrow> is_ipv6_int addr
      | [addr, zone] \<Rightarrow> zone \<noteq> [] \<and> is_ipv6_int addr
      | _ \<Rightarrow> False)"

definition is_ip_address :: "string \<Rightarrow> bool" where
  "is_ip_address s \<longleftrightarrow> is_ipv4 s \<or> is_ipv6 s"

text \<open>
  \<open>ip_address(host)\<close> of a loopback address, with \<open>str\<close> of it and whether it is an IPv6 address.
  Of the IPv6 addresses only the plain text of the loopback address is given a meaning.
\<close>

definition numeric_loopback :: "string \<Rightarrow> string \<Rightarrow> (string \<times> bool) result" where
  "numeric_loopback host name =
     (if is_ipv4 host then
        (if hd (split_on (CHR ''.'') host) = ''127'' then Inr (host, False)
         else raise ValueError (name @ '' must be a loopback address''))
      else if host = ''::1'' then Inr (host, True)
      else if is_ipv6 host then raise Unmodelled ''an IPv6 address in another form''
      else raise ValueError (name @ '' must be a numeric loopback address''))"

end
