(* ===== verification/IosRegistry.thy ===== *)
theory IosRegistry
  imports Stores Addresses "HOL-Library.Multiset"
begin

text \<open>
  The registry of phones, \<open>system/grok-proxy/grok_ms/ios_registry.py\<close>: devices and the registry as
  records with their readers, the operations on a registry, the derivation of a key from a device
  name, the file operations as programs over the registry's directory, and the commands. The pair of
  legacy files may be in another directory; the registry's own programs take what was read of it as
  an argument.
\<close>

section \<open>Devices and registries\<close>

definition REGISTRY_SCHEMA_VERSION :: int where "REGISTRY_SCHEMA_VERSION = 1"
definition MAX_DEVICES :: nat where "MAX_DEVICES = 16"
definition MAX_REGISTRY_BYTES :: nat where "MAX_REGISTRY_BYTES = 65536"

definition NODE_RE :: "string \<Rightarrow> bool" where
  "NODE_RE s \<longleftrightarrow> 1 \<le> length s \<and> length s \<le> 256 \<and> list_all (\<lambda>c. is_alnum c \<or> c \<in> set ''._:+/@-'') s"

abbreviation registry_fail :: "string \<Rightarrow> 'a result" where
  "registry_fail msg \<equiv> raise IosRegistryError msg"

definition is_registry_error :: "exc_class \<Rightarrow> bool" where
  "is_registry_error c \<longleftrightarrow> c \<in> {IosRegistryError, IosRegistryMissing}"

record ios_device =
  dv_key :: string
  dv_stable_node_id :: string

definition ios_device_post_init :: "json \<Rightarrow> json \<Rightarrow> unit result" where
  "ios_device_post_init key node = seqE [
     (case key of JStr k \<Rightarrow> raise_if (\<not> IOS_KEY_RE k) IosRegistryError ''device key has unsupported characters''
        | _ \<Rightarrow> registry_fail ''device key has unsupported characters''),
     (case node of JStr n \<Rightarrow> raise_if (\<not> NODE_RE n \<or> starts_with n ''-'') IosRegistryError ''stable node ID has unsupported characters''
        | _ \<Rightarrow> registry_fail ''stable node ID has unsupported characters'')]"

definition ios_device_new :: "string \<Rightarrow> string \<Rightarrow> ios_device result" where
  "ios_device_new key node =
     thenE (ios_device_post_init (JStr key) (JStr node)) (Inr \<lparr>dv_key = key, dv_stable_node_id = node\<rparr>)"

definition ios_device_to_dict :: "ios_device \<Rightarrow> json" where
  "ios_device_to_dict d = JObj [(''key'', JStr (dv_key d)), (''stable_node_id'', JStr (dv_stable_node_id d))]"

definition ios_device_from_dict :: "json \<Rightarrow> string \<Rightarrow> ios_device result" where
  "ios_device_from_dict v path =
     (case v of
        JObj kvs \<Rightarrow>
          if fst ` set kvs \<noteq> {''key'', ''stable_node_id''} then registry_fail (path @ '' has missing or unexpected fields'')
          else catchE
            (bindE (field kvs ''key'' Inr) (\<lambda>key. bindE (field kvs ''stable_node_id'' Inr) (\<lambda>node.
              thenE (ios_device_post_init key node)
                (Inr \<lparr>dv_key = json_text key, dv_stable_node_id = json_text node\<rparr>))))
            is_registry_error (\<lambda>e. registry_fail (path @ '': '' @ exc_msg e))
      | _ \<Rightarrow> registry_fail (path @ '' has missing or unexpected fields''))"

definition ios_device_ok :: "ios_device \<Rightarrow> bool" where
  "ios_device_ok d \<longleftrightarrow> IOS_KEY_RE (dv_key d) \<and> NODE_RE (dv_stable_node_id d) \<and> \<not> starts_with (dv_stable_node_id d) ''-''"

text \<open>A registry is its tuple of devices; the loop of the constructor keeps the keys and ids seen.\<close>

type_synonym ios_registry = "ios_device list"

fun check_devices :: "string list \<Rightarrow> string list \<Rightarrow> ios_device list \<Rightarrow> unit result" where
  "check_devices keys node_ids [] = Inr ()"
| "check_devices keys node_ids (d # ds) =
     thenE (raise_if (dv_key d \<in> set keys) IosRegistryError ''duplicate device key'')
    (thenE (raise_if (dv_stable_node_id d \<in> set node_ids) IosRegistryError ''duplicate stable node ID'')
       (check_devices (dv_key d # keys) (dv_stable_node_id d # node_ids) ds))"

definition ios_registry_new :: "ios_device list \<Rightarrow> ios_registry result" where
  "ios_registry_new ds =
     thenE (raise_if (length ds > MAX_DEVICES) IosRegistryError ''registry supports too few devices'')
    (thenE (check_devices [] [] ds) (Inr ds))"

definition ios_registry_to_dict :: "ios_registry \<Rightarrow> json" where
  "ios_registry_to_dict r = JObj [
     (''schema_version'', JInt REGISTRY_SCHEMA_VERSION), (''devices'', JArr (map ios_device_to_dict r))]"

text \<open>\<open>value["schema_version"] != 1\<close> compares as Python does: \<open>true\<close> passes as well.\<close>

definition ios_registry_from_dict :: "json \<Rightarrow> ios_registry result" where
  "ios_registry_from_dict v =
     (case v of
        JObj kvs \<Rightarrow>
          if fst ` set kvs \<noteq> {''schema_version'', ''devices''} then registry_fail ''registry has missing or unexpected fields''
          else bindE (field kvs ''schema_version'' Inr) (\<lambda>schema.
            thenE (raise_if (py_key schema \<noteq> JInt REGISTRY_SCHEMA_VERSION) IosRegistryError ''registry schema version is unsupported'')
           (bindE (field kvs ''devices'' Inr) (\<lambda>devices. case devices of
              JArr items \<Rightarrow>
                bindE (mapE_index 0 (\<lambda>i item. ios_device_from_dict item (''devices['' @ nat_dec i @ '']'')) items) ios_registry_new
            | _ \<Rightarrow> registry_fail ''registry devices must be an array'')))
      | _ \<Rightarrow> registry_fail ''registry has missing or unexpected fields'')"

definition ios_registry_ok :: "ios_registry \<Rightarrow> bool" where
  "ios_registry_ok r \<longleftrightarrow> length r \<le> MAX_DEVICES \<and> (\<forall>d \<in> set r. ios_device_ok d) \<and>
     distinct (map dv_key r) \<and> distinct (map dv_stable_node_id r)"

section \<open>Operations\<close>

definition by_key :: "ios_registry \<Rightarrow> string \<Rightarrow> ios_device option" where
  "by_key r key = find (\<lambda>d. dv_key d = key) r"

definition by_node_id :: "ios_registry \<Rightarrow> string \<Rightarrow> ios_device option" where
  "by_node_id r node = find (\<lambda>d. dv_stable_node_id d = node) r"

definition registry_remove :: "ios_registry \<Rightarrow> string \<Rightarrow> ios_registry result" where
  "registry_remove r key =
     thenE (raise_if (by_key r key = None) IosRegistryError ''unknown iOS device key'')
       (ios_registry_new (filter (\<lambda>d. dv_key d \<noteq> key) r))"

text \<open>The dict of the devices by key has the last device of each key; \<open>mapping[key]\<close> may raise.\<close>

definition registry_reorder :: "ios_registry \<Rightarrow> string list \<Rightarrow> ios_registry result" where
  "registry_reorder r ordered =
     (let current = map dv_key r; mapping = map_of (rev (map (\<lambda>d. (dv_key d, d)) r)) in
      thenE (raise_if (length ordered \<noteq> card (set ordered)) IosRegistryError ''reorder contains a duplicate key'')
     (thenE (raise_if (set ordered \<noteq> set current \<or> length ordered \<noteq> length current) IosRegistryError
        ''reorder must be an exact permutation of registered keys'')
     (bindE (mapE (\<lambda>key. case mapping key of None \<Rightarrow> raise KeyError key | Some d \<Rightarrow> Inr d) ordered) ios_registry_new)))"

definition register_device :: "ios_registry \<Rightarrow> ios_device \<Rightarrow> ios_registry result" where
  "register_device r d =
     (case by_key r (dv_key d) of
        Some e \<Rightarrow> if e = d then Inr r else registry_fail ''device key already maps to another stable node ID''
      | None \<Rightarrow>
          if by_node_id r (dv_stable_node_id d) \<noteq> None then registry_fail ''stable node ID already belongs to another device key''
          else ios_registry_new (r @ [d]))"

section \<open>Keys from device names\<close>

text \<open>
  \<open>unicodedata.normalize("NFKD", s).encode("ascii", "ignore").decode("ascii")\<close> of one character below
  256: its compatibility decomposition, without what is not ASCII.
\<close>

definition nfkd_ascii :: "char \<Rightarrow> string" where
  "nfkd_ascii c = (let n = ord c in
     if n < 128 then [c]
     else if n \<in> {160, 168, 175, 180, 184} then '' '' else if n = 170 \<or> n \<in> {224..229} then ''a''
     else if n = 178 then ''2'' else if n = 179 then ''3'' else if n = 185 then ''1''
     else if n = 186 \<or> n \<in> {242..246} then ''o'' else if n = 188 then ''14'' else if n = 189 then ''12''
     else if n = 190 then ''34'' else if n \<in> {192..197} then ''A'' else if n = 199 then ''C''
     else if n \<in> {200..203} then ''E'' else if n \<in> {204..207} then ''I'' else if n = 209 then ''N''
     else if n \<in> {210..214} then ''O'' else if n \<in> {217..220} then ''U'' else if n = 221 then ''Y''
     else if n = 231 then ''c'' else if n \<in> {232..235} then ''e'' else if n \<in> {236..239} then ''i''
     else if n = 241 then ''n'' else if n \<in> {249..252} then ''u'' else if n \<in> {253, 255} then ''y''
     else [])"

definition is_key_char :: "char \<Rightarrow> bool" where
  "is_key_char c \<longleftrightarrow> is_lower c \<or> is_digit c \<or> c \<in> set ''._-''"

lemma length_dropWhile_Suc [termination_simp]: "length (dropWhile p xs) < Suc (length xs)"
  by (simp add: le_imp_less_Suc length_dropWhile_le)

text \<open>\<open>re.sub("[...]+", "-", s)\<close>: every maximal run of the characters \<open>bad\<close> becomes one dash.\<close>

fun sub_runs :: "(char \<Rightarrow> bool) \<Rightarrow> string \<Rightarrow> string" where
  "sub_runs bad [] = []"
| "sub_runs bad (c # cs) =
     (if bad c then CHR ''-'' # sub_runs bad (dropWhile bad cs) else c # sub_runs bad cs)"

text \<open>\<open>re.sub("[-_.]{2,}", "-", s)\<close>: runs of one character stay.\<close>

definition is_mark :: "char \<Rightarrow> bool" where
  "is_mark c \<longleftrightarrow> c \<in> set ''-_.''"

fun sub_pairs :: "string \<Rightarrow> string" where
  "sub_pairs [] = []"
| "sub_pairs (c # cs) =
     (if is_mark c \<and> takeWhile is_mark cs \<noteq> [] then CHR ''-'' # sub_pairs (dropWhile is_mark cs) else c # sub_pairs cs)"

definition rstrip_of :: "(char \<Rightarrow> bool) \<Rightarrow> string \<Rightarrow> string" where
  "rstrip_of p s = rev (dropWhile p (rev s))"

definition derive_device_key :: "string \<Rightarrow> string result" where
  "derive_device_key name =
     (let normalized = rstrip_of (\<lambda>c. c = CHR ''.'') (strip name) in
      if is_ip_address normalized then registry_fail ''cannot derive a device key from an IP address; pass --label KEY''
      else
        let candidate = hd (split_on (CHR ''.'') normalized);
            ascii_name = map lower_char (concat (map nfkd_ascii candidate));
            key = sub_runs (\<lambda>c. \<not> is_key_char c) ascii_name;
            key = rstrip_of is_mark (take 64 (rstrip_of is_mark (dropWhile is_mark (sub_pairs key))))
        in if \<not> IOS_KEY_RE key then registry_fail ''cannot derive a valid device key; pass --label KEY'' else Inr key)"

section \<open>The registry file\<close>

definition canonical_registry_bytes :: "ios_registry \<Rightarrow> string" where
  "canonical_registry_bytes r = canonical_json_bytes (ios_registry_to_dict r) @ [CHR 0x0A]"

text \<open>\<open>json.loads\<close> on bytes, for data in UTF-8 without a byte order mark.\<close>

definition json_loads_bytes :: "string \<Rightarrow> json result" where
  "json_loads_bytes data =
     (if (\<exists>c \<in> set (take 2 data). ord c \<in> {0, 254, 255}) \<or> starts_with data (map char_of [239, 187, 191 :: nat])
      then raise Unmodelled ''an encoding other than UTF-8''
      else bindE (utf8_decode data) plain_json_loads)"

definition is_json_error :: "exc_class \<Rightarrow> bool" where
  "is_json_error c \<longleftrightarrow> c \<in> {UnicodeDecodeError, JSONDecodeError}"

definition decode_registry :: "string \<Rightarrow> ios_registry result" where
  "decode_registry data =
     bindE (catchE (json_loads_bytes data) is_json_error (\<lambda>_. registry_fail ''invalid registry JSON''))
       ios_registry_from_dict"

definition open_registry_directory :: "nat \<Rightarrow> unit prog" where
  "open_registry_directory uid =
     thenP (catchP (call_unit Open_dir) is_os_error (\<lambda>_. raiseP IosRegistryError ''cannot open registry directory''))
    (bindP (callP Fstat_dir the_stat) (\<lambda>info.
       liftP (raise_if (st_kind info \<noteq> DirectoryFile \<or> st_uid info \<noteq> uid \<or> st_mode info \<noteq> PRIVATE_DIR)
         IosRegistryError ''unsafe owner/type/mode for registry directory'')))"

text \<open>\<open>path.parent.exists()\<close>; a link in its place is taken to point to something.\<close>

definition dir_exists :: "bool prog" where
  "dir_exists = catchP (bindP (callP Lstat_dir the_stat) (\<lambda>_. returnP True)) is_missing (\<lambda>_. returnP False)"

fun registry_read_loop :: "nat \<Rightarrow> nat \<Rightarrow> string \<Rightarrow> string prog" where
  "registry_read_loop 0 i acc = raiseP OutOfFuel []"
| "registry_read_loop (Suc k) i acc =
     bindP (callP (Read i (length acc) (min 65536 (MAX_REGISTRY_BYTES + 1 - length acc))) the_data) (\<lambda>chunk.
       if chunk = [] then returnP acc
       else if length (acc @ chunk) > MAX_REGISTRY_BYTES then raiseP IosRegistryError ''oversized registry''
       else registry_read_loop k i (acc @ chunk))"

definition unsafe_registry_stat :: "nat \<Rightarrow> stat \<Rightarrow> bool" where
  "unsafe_registry_stat uid info \<longleftrightarrow> st_kind info \<noteq> RegularFile \<or> st_uid info \<noteq> uid \<or>
     st_mode info \<noteq> PRIVATE_FILE \<or> st_nlink info \<noteq> 1"

text \<open>Opening the registry: the outer exception of a missing file or directory, or the descriptor.\<close>

definition open_registry :: "string \<Rightarrow> bool \<Rightarrow> nat option prog" where
  "open_registry name allow_missing =
     catchP (catchP (bindP (callP (Open_read name) the_fd) (\<lambda>i. returnP (Some i)))
         is_missing (\<lambda>_. if allow_missing then returnP None else raiseP IosRegistryMissing ''registry is missing''))
       is_os_error (\<lambda>_. raiseP IosRegistryError ''cannot open registry'')"

definition registry_open_directory :: "nat \<Rightarrow> bool \<Rightarrow> bool prog" where
  "registry_open_directory uid allow_missing =
     catchP (thenP (open_registry_directory uid) (returnP True)) is_registry_error (\<lambda>e.
       bindP (if allow_missing then bindP dir_exists (\<lambda>there. returnP (\<not> there)) else returnP False) (\<lambda>empty.
         if empty then returnP False
         else bindP dir_exists (\<lambda>there.
           if \<not> there then raiseP IosRegistryMissing ''registry is missing'' else Done (Inl e))))"

definition load_registry :: "nat \<Rightarrow> string \<Rightarrow> bool \<Rightarrow> ios_registry prog" where
  "load_registry uid name allow_missing =
     bindP (registry_open_directory uid allow_missing) (\<lambda>there.
       if \<not> there then returnP []
       else bindP (open_registry name allow_missing) (\<lambda>fd. case fd of
         None \<Rightarrow> returnP []
       | Some i \<Rightarrow>
           bindP (callP (Fstat i) the_stat) (\<lambda>info.
           thenP (liftP (raise_if (unsafe_registry_stat uid info \<or> st_size info > MAX_REGISTRY_BYTES) IosRegistryError
             ''unsafe owner/type/mode/size for registry''))
          (bindP (registry_read_loop (MAX_REGISTRY_BYTES + 2) i []) (\<lambda>data.
           liftP (decode_registry data))))))"

text \<open>
  The writing loop answers to faults as \<open>write_all\<close> does: every \<open>OSError\<close> becomes one
  \<open>IosRegistryError\<close>.
\<close>

definition write_registry :: "nat \<Rightarrow> string \<Rightarrow> ios_registry \<Rightarrow> unit prog" where
  "write_registry uid name r =
     (let payload = canonical_registry_bytes r in
      thenP (liftP (raise_if (length payload > MAX_REGISTRY_BYTES) IosRegistryError ''encoded registry is oversized''))
     (thenP (open_registry_directory uid)
     (bindP (callP Token the_token) (\<lambda>token.
      let temporary = temp_name name token in
      finallyP
        (catchP
          (bindP (callP (Open_create temporary PRIVATE_FILE) the_fd) (\<lambda>i.
           thenP (thenP (call_unit (Fchmod i PRIVATE_FILE)) (thenP (write_all i payload) (call_unit (Fsync i))))
          (thenP (call_unit (Rename temporary name)) (call_unit Fsync_dir))))
          is_os_error (\<lambda>_. raiseP IosRegistryError ''cannot publish registry''))
        (unlink_quiet temporary)))))"

section \<open>Legacy state\<close>

definition unsafe_legacy_stat :: "nat \<Rightarrow> stat \<Rightarrow> bool" where
  "unsafe_legacy_stat uid info \<longleftrightarrow> unsafe_registry_stat uid info \<or> \<not> (1 \<le> st_size info \<and> st_size info \<le> 512)"

definition load_private_text :: "nat \<Rightarrow> string \<Rightarrow> string option prog" where
  "load_private_text uid name =
     bindP (catchP (thenP (open_registry_directory uid) (returnP True)) is_registry_error (\<lambda>e.
       bindP dir_exists (\<lambda>there. if \<not> there then returnP False else Done (Inl e)))) (\<lambda>there.
     if \<not> there then returnP None
     else bindP (catchP (open_existing name) is_os_error (\<lambda>_. raiseP IosRegistryError ''cannot open legacy state'')) (\<lambda>fd.
       case fd of
         None \<Rightarrow> returnP None
       | Some i \<Rightarrow>
           bindP (callP (Fstat i) the_stat) (\<lambda>info.
           thenP (liftP (raise_if (unsafe_legacy_stat uid info) IosRegistryError ''unsafe legacy state''))
          (bindP (callP (Read i 0 513) the_data) (\<lambda>data.
           bindP (if length data > 512 then returnP True
                  else bindP (callP (Read i (length data) 1) the_data) (\<lambda>more. returnP (more \<noteq> []))) (\<lambda>oversized.
           thenP (liftP (raise_if oversized IosRegistryError ''oversized legacy state''))
             (liftP (if list_all (\<lambda>c. ord c < 128) data then Inr (Some (strip data))
                     else registry_fail ''legacy state is not ASCII''))))))))"

text \<open>The pair of legacy files, in one directory.\<close>

definition load_legacy_device :: "nat \<Rightarrow> string \<Rightarrow> string \<Rightarrow> ios_device option prog" where
  "load_legacy_device uid node_name ready_name =
     bindP (load_private_text uid node_name) (\<lambda>node.
     bindP (load_private_text uid ready_name) (\<lambda>ready.
       case (node, ready) of
         (Some n, Some r) \<Rightarrow> if n \<noteq> r then returnP None else liftP (bindE (ios_device_new ''iphone'' n) (\<lambda>d. Inr (Some d)))
       | _ \<Rightarrow> returnP None))"

definition is_registry_missing :: "exc_class \<Rightarrow> bool" where
  "is_registry_missing c \<longleftrightarrow> c = IosRegistryMissing"

definition load_effective_registry :: "nat \<Rightarrow> string \<Rightarrow> ios_device option result \<Rightarrow> ios_registry prog" where
  "load_effective_registry uid name legacy =
     catchP (load_registry uid name False) is_registry_missing (\<lambda>_.
       bindP (liftP legacy) (\<lambda>old. case old of
         None \<Rightarrow> liftP (ios_registry_new []) | Some d \<Rightarrow> liftP (ios_registry_new [d])))"

definition migrate_legacy_registry :: "nat \<Rightarrow> string \<Rightarrow> ios_device option result \<Rightarrow> ios_registry prog" where
  "migrate_legacy_registry uid name legacy =
     catchP (load_registry uid name False) is_registry_missing (\<lambda>_.
       bindP (liftP legacy) (\<lambda>old. case old of
         None \<Rightarrow> liftP (ios_registry_new [])
       | Some d \<Rightarrow> bindP (liftP (ios_registry_new [d])) (\<lambda>r. thenP (write_registry uid name r) (returnP r))))"

section \<open>Commands\<close>

text \<open>The change \<open>_cli_register\<close> makes to the registry in force, and the device it reports.\<close>

definition registration :: "ios_registry \<Rightarrow> string \<Rightarrow> string option \<Rightarrow> string \<Rightarrow> (ios_registry \<times> ios_device) result" where
  "registration r node_id label name_hint =
     (let requested = (case label of Some l \<Rightarrow> Inr l | None \<Rightarrow> derive_device_key name_hint) in
      case by_node_id r node_id of
        Some existing \<Rightarrow>
          bindE requested (\<lambda>key.
            if key = dv_key existing then Inr (r, existing)
            else if dv_key existing = ''iphone'' \<and> length r = 1 then
              (if by_key r key \<noteq> None then registry_fail ''device key is already registered''
               else bindE (ios_device_new key node_id) (\<lambda>d.
                 bindE (ios_registry_new (map (\<lambda>item. if item = existing then d else item) r)) (\<lambda>r'. Inr (r', d))))
            else if label = None then Inr (r, existing)
            else registry_fail ''stable node ID already belongs to another device key'')
      | None \<Rightarrow>
          bindE requested (\<lambda>key.
          bindE (ios_device_new key node_id) (\<lambda>d.
          bindE (register_device r d) (\<lambda>r'. Inr (r', d)))))"

definition cli_register :: "nat \<Rightarrow> string \<Rightarrow> ios_device option result \<Rightarrow> string \<Rightarrow> string option \<Rightarrow> string \<Rightarrow> string prog" where
  "cli_register uid name legacy node_id label name_hint =
     bindP (load_effective_registry uid name legacy) (\<lambda>r.
     bindP (liftP (registration r node_id label name_hint)) (\<lambda>(r', d).
     thenP (write_registry uid name r') (returnP (dv_key d))))"

definition cli_remove :: "nat \<Rightarrow> string \<Rightarrow> ios_device option result \<Rightarrow> string \<Rightarrow> unit prog" where
  "cli_remove uid name legacy key =
     bindP (load_effective_registry uid name legacy) (\<lambda>r.
     bindP (liftP (registry_remove r key)) (write_registry uid name))"

definition cli_reorder :: "nat \<Rightarrow> string \<Rightarrow> ios_device option result \<Rightarrow> string list \<Rightarrow> unit prog" where
  "cli_reorder uid name legacy keys =
     bindP (load_effective_registry uid name legacy) (\<lambda>r.
     bindP (liftP (registry_reorder r keys)) (write_registry uid name))"

definition cli_node :: "nat \<Rightarrow> string \<Rightarrow> ios_device option result \<Rightarrow> string \<Rightarrow> string prog" where
  "cli_node uid name legacy key =
     bindP (load_effective_registry uid name legacy) (\<lambda>r. case by_key r key of
       None \<Rightarrow> raiseP IosRegistryError ''unknown iOS device key'' | Some d \<Rightarrow> returnP (dv_stable_node_id d))"

text \<open>The lines \<open>devices\<close> and \<open>migrate\<close> print.\<close>

definition device_line :: "ios_device \<Rightarrow> string" where
  "device_line d = dv_key d @ [CHR 0x09] @ dv_stable_node_id d"

definition cli_devices :: "nat \<Rightarrow> string \<Rightarrow> ios_device option result \<Rightarrow> string list prog" where
  "cli_devices uid name legacy = bindP (load_effective_registry uid name legacy) (\<lambda>r. returnP (map device_line r))"

definition cli_migrate :: "nat \<Rightarrow> string \<Rightarrow> ios_device option result \<Rightarrow> string list prog" where
  "cli_migrate uid name legacy = bindP (migrate_legacy_registry uid name legacy) (\<lambda>r. returnP (map device_line r))"

text \<open>\<open>sha256\<close> is \<open>hashlib.sha256(...).hexdigest()\<close>.\<close>

definition cli_json :: "(string \<Rightarrow> string) \<Rightarrow> nat \<Rightarrow> string \<Rightarrow> ios_device option result \<Rightarrow> bool \<Rightarrow> string prog" where
  "cli_json sha256 uid name legacy redacted =
     bindP (load_effective_registry uid name legacy) (\<lambda>r.
       returnP (canonical_json_bytes
         (if redacted then JObj [(''schema_version'', JInt REGISTRY_SCHEMA_VERSION),
            (''devices'', JArr (map (\<lambda>d. JObj [(''key'', JStr (dv_key d)),
               (''stable_node_id_sha256'', JStr (sha256 (dv_stable_node_id d)))]) r))]
          else ios_registry_to_dict r)))"

section \<open>What the readers accept\<close>

lemma ios_device_post_init_Inr:
  "ios_device_post_init key node = Inr u \<longleftrightarrow> (\<exists>k n. key = JStr k \<and> node = JStr n \<and>
     ios_device_ok \<lparr>dv_key = k, dv_stable_node_id = n\<rparr>)"
  by (auto simp: ios_device_post_init_def ios_device_ok_def errors split: json.splits)

lemma ios_device_new_Inr [simp]:
  "ios_device_new k n = Inr d \<longleftrightarrow> d = \<lparr>dv_key = k, dv_stable_node_id = n\<rparr> \<and> ios_device_ok d"
  by (auto simp: ios_device_new_def ios_device_post_init_Inr errors)

lemma ios_device_from_dict_Inr:
  "ios_device_from_dict v p = Inr d \<longleftrightarrow> ios_device_ok d \<and> (\<exists>kvs. v = JObj kvs \<and>
     fst ` set kvs = {''key'', ''stable_node_id''} \<and> map_of kvs ''key'' = Some (JStr (dv_key d)) \<and>
     map_of kvs ''stable_node_id'' = Some (JStr (dv_stable_node_id d)))"
proof (cases v)
  case (JObj kvs)
  show ?thesis
  proof (cases "fst ` set kvs = {''key'', ''stable_node_id''}")
    case True
    show ?thesis unfolding JObj ios_device_from_dict_def json.case True
      by (cases d) (simp add: ios_device_post_init_Inr valid errors True, auto)
  qed (simp add: JObj ios_device_from_dict_def)
qed (simp_all add: ios_device_from_dict_def)

lemma ios_device_load_iff:
  assumes "json_wf v"
  shows "ios_device_from_dict v p = Inr d \<longleftrightarrow> ios_device_ok d \<and> json_canon v = json_canon (ios_device_to_dict d)"
  unfolding ios_device_to_dict_def ios_device_from_dict_Inr using assms
  by (cases v; simp add: codec_simps; (simp only: conj_ac conj_absorb conj_left_absorb)?)

interpretation device: codec ios_device_ok ios_device_to_dict ios_device_from_dict
  by unfold_locales (simp_all add: ios_device_load_iff ios_device_to_dict_def json_wf.simps(6))

lemma check_devices_Inr:
  "check_devices ks ns ds = Inr u \<longleftrightarrow> distinct (map dv_key ds) \<and> distinct (map dv_stable_node_id ds) \<and>
     set ks \<inter> dv_key ` set ds = {} \<and> set ns \<inter> dv_stable_node_id ` set ds = {}"
  by (induction ds arbitrary: ks ns) (auto simp: errors)

lemma ios_registry_new_Inr [simp]:
  "ios_registry_new ds = Inr r \<longleftrightarrow> r = ds \<and> length ds \<le> MAX_DEVICES \<and>
     distinct (map dv_key ds) \<and> distinct (map dv_stable_node_id ds)"
  by (auto simp: ios_registry_new_def check_devices_Inr errors)

lemma registry_dump_wf: "\<forall>d \<in> set r. ios_device_ok d \<Longrightarrow> json_wf (ios_registry_to_dict r)"
  by (auto simp: ios_registry_to_dict_def json_wf.simps(6) device.dump_wf list_all_iff)

lemma case_JArr_Inr: "(case b of JArr vs \<Rightarrow> f vs | _ \<Rightarrow> registry_fail msg) = Inr r \<longleftrightarrow> (\<exists>vs. b = JArr vs \<and> f vs = Inr r)"
  by (cases b) auto

text \<open>The reader accepts what \<open>to_dict\<close> writes, in any order of keys, and \<open>true\<close> for the version 1.\<close>

lemma ios_registry_from_dict_iff:
  assumes "json_wf v"
  shows "ios_registry_from_dict v = Inr r \<longleftrightarrow> ios_registry_ok r \<and>
    (\<exists>schema \<in> {JInt 1, JBool True}. json_canon v =
       json_canon (JObj [(''schema_version'', schema), (''devices'', JArr (map ios_device_to_dict r))]))"
proof (cases v)
  case (JObj kvs)
  have wf: "json_wf a" if "map_of kvs k = Some a" for k a using json_wf_field assms that unfolding JObj by blast
  have schema: "py_key a = JInt REGISTRY_SCHEMA_VERSION \<longleftrightarrow> a = JInt 1 \<or> a = JBool True" for a
    by (cases a) (auto simp: REGISTRY_SCHEMA_VERSION_def)
  have "ios_registry_from_dict v = Inr r \<longleftrightarrow> fst ` set kvs = {''schema_version'', ''devices''} \<and>
      (\<exists>a. map_of kvs ''schema_version'' = Some a \<and> (a = JInt 1 \<or> a = JBool True)) \<and>
      (\<exists>b. map_of kvs ''devices'' = Some b \<and> (\<exists>vs. b = JArr vs \<and>
        mapE_index 0 (\<lambda>i item. ios_device_from_dict item (''devices['' @ nat_dec i @ '']'')) vs = Inr r)) \<and>
      length r \<le> MAX_DEVICES \<and> distinct (map dv_key r) \<and> distinct (map dv_stable_node_id r)"
  proof (cases "fst ` set kvs = {''schema_version'', ''devices''}")
    case True
    show ?thesis unfolding JObj ios_registry_from_dict_def json.case True
      by (simp add: valid errors schema case_JArr_Inr) blast
  qed (simp add: JObj ios_registry_from_dict_def)
  also have "\<dots> \<longleftrightarrow> fst ` set kvs = {''schema_version'', ''devices''} \<and>
      (\<exists>a. map_of kvs ''schema_version'' = Some a \<and> (a = JInt 1 \<or> a = JBool True)) \<and>
      (\<exists>b. map_of kvs ''devices'' = Some b \<and> json_canon b = json_canon (JArr (map ios_device_to_dict r))) \<and>
      ios_registry_ok r"
  proof -
    have "(\<exists>b. map_of kvs ''devices'' = Some b \<and> (\<exists>vs. b = JArr vs \<and>
        mapE_index 0 (\<lambda>i item. ios_device_from_dict item (''devices['' @ nat_dec i @ '']'')) vs = Inr r)) \<longleftrightarrow>
      (\<forall>d \<in> set r. ios_device_ok d) \<and>
      (\<exists>b. map_of kvs ''devices'' = Some b \<and> json_canon b = json_canon (JArr (map ios_device_to_dict r)))"
      using device.canon_list_iff [OF wf, of "''devices''" _ 0 "\<lambda>i. ''devices['' @ nat_dec i @ '']''" r]
      by (cases "map_of kvs ''devices''") simp_all
    then show ?thesis unfolding ios_registry_ok_def by argo
  qed
  also have "\<dots> \<longleftrightarrow> ios_registry_ok r \<and>
    (\<exists>schema \<in> {JInt 1, JBool True}. json_canon v =
       json_canon (JObj [(''schema_version'', schema), (''devices'', JArr (map ios_device_to_dict r))]))"
  proof -
    have one: "json_canon (JObj kvs) = json_canon (JObj [(''schema_version'', sch), (''devices'', ds)]) \<longleftrightarrow>
        fst ` set kvs = {''schema_version'', ''devices''} \<and>
        (\<exists>a. map_of kvs ''schema_version'' = Some a \<and> json_canon a = json_canon sch) \<and>
        (\<exists>b. map_of kvs ''devices'' = Some b \<and> json_canon b = json_canon ds)" for sch ds
      using canon_record_iff [of kvs "[(''schema_version'', sch), (''devices'', ds)]"] assms
      unfolding JObj by simp
    have two: "(\<exists>schema \<in> {JInt 1, JBool True}. P schema) \<longleftrightarrow> P (JInt 1) \<or> P (JBool True)" for P
      by blast
    have three: "(\<exists>a. x = Some a \<and> (a = JInt 1 \<or> a = JBool True)) \<longleftrightarrow>
        (\<exists>a. x = Some a \<and> a = JInt 1) \<or> (\<exists>a. x = Some a \<and> a = JBool True)" for x
      by (cases x) simp_all
    show ?thesis unfolding JObj two one three json_canon.simps(1-3) json_canon_scalar by argo
  qed
  finally show ?thesis .
qed (simp_all add: ios_registry_from_dict_def)

lemma registry_reads_back: "ios_registry_ok r \<Longrightarrow> json_canon v = json_canon (ios_registry_to_dict r) \<Longrightarrow> json_wf v \<Longrightarrow>
  ios_registry_from_dict v = Inr r"
  by (simp add: ios_registry_from_dict_iff ios_registry_to_dict_def REGISTRY_SCHEMA_VERSION_def)


section \<open>The operations\<close>

lemma find_None_iff_image: "find (\<lambda>d. f d = x) r = None \<longleftrightarrow> x \<notin> f ` set r"
  by (auto simp: find_None_iff)

lemma by_key_None: "by_key r k = None \<longleftrightarrow> k \<notin> dv_key ` set r"
  by (simp add: by_key_def find_None_iff_image)

lemma by_node_id_None: "by_node_id r n = None \<longleftrightarrow> n \<notin> dv_stable_node_id ` set r"
  by (simp add: by_node_id_def find_None_iff_image)

lemma by_key_SomeD: "by_key r k = Some d \<Longrightarrow> d \<in> set r \<and> dv_key d = k"
  unfolding by_key_def find_Some_iff by force

lemma by_node_id_SomeD: "by_node_id r n = Some d \<Longrightarrow> d \<in> set r \<and> dv_stable_node_id d = n"
  unfolding by_node_id_def find_Some_iff by force

lemma ok_unique:
  assumes "ios_registry_ok r" and "d \<in> set r" and "e \<in> set r"
  shows "dv_key d = dv_key e \<Longrightarrow> d = e" and "dv_stable_node_id d = dv_stable_node_id e \<Longrightarrow> d = e"
  using assms by (auto simp: ios_registry_ok_def distinct_map dest: inj_onD)

lemma by_key_in:
  assumes "ios_registry_ok r" and "d \<in> set r"
  shows "by_key r (dv_key d) = Some d"
proof (cases "by_key r (dv_key d)")
  case None
  then show ?thesis using assms(2) unfolding by_key_None by blast
next
  case (Some e)
  then show ?thesis using by_key_SomeD [OF Some] ok_unique(1) [OF assms] by metis
qed

lemma ok_filter: "ios_registry_ok r \<Longrightarrow> ios_registry_ok (filter p r)"
  using length_filter_le [of p r, THEN order_trans] by (auto simp: ios_registry_ok_def distinct_map_filter)

lemma remove_iff:
  assumes "ios_registry_ok r"
  shows "registry_remove r k = Inr r' \<longleftrightarrow> k \<in> dv_key ` set r \<and> r' = filter (\<lambda>d. dv_key d \<noteq> k) r"
  using ok_filter [OF assms, of "\<lambda>d. dv_key d \<noteq> k"]
  by (simp add: registry_remove_def by_key_None errors) (auto simp: ios_registry_ok_def)

lemma mapping_iff:
  assumes "ios_registry_ok r"
  shows "map_of (rev (map (\<lambda>d. (dv_key d, d)) r)) = by_key r"
proof -
  have d: "distinct (map fst (map (\<lambda>d. (dv_key d, d)) r))"
    using assms by (simp add: ios_registry_ok_def comp_def)
  have "map_of (rev (map (\<lambda>d. (dv_key d, d)) r)) = map_of (map (\<lambda>d. (dv_key d, d)) r)"
    using d by (intro map_of_inject_set [THEN iffD2]) (simp_all flip: rev_map)
  moreover have "map_of (map (\<lambda>d. (dv_key d, d)) xs) k = by_key xs k" for xs k
    by (induction xs) (simp_all add: by_key_def)
  ultimately show ?thesis by auto
qed

lemma lookup_Inr: "(case m of None \<Rightarrow> raise c k | Some d \<Rightarrow> Inr d) = Inr e \<longleftrightarrow> m = Some e"
  by (cases m) auto

lemma by_key_list:
  assumes "ios_registry_ok r"
  shows "list_all2 (\<lambda>k d. by_key r k = Some d) ks ds \<longleftrightarrow> set ds \<subseteq> set r \<and> map dv_key ds = ks"
proof (induction ks arbitrary: ds)
  case (Cons k ks)
  show ?case
  proof (cases ds)
    case (Cons d ds')
    have "by_key r k = Some d \<longleftrightarrow> d \<in> set r \<and> dv_key d = k"
      using by_key_SomeD [of r k d] by_key_in [OF assms, of d] by blast
    then show ?thesis using Cons.IH [of ds'] by (auto simp: Cons)
  qed simp
qed auto

lemma ok_mset:
  assumes "ios_registry_ok r" and "mset r' = mset r"
  shows "ios_registry_ok r'"
proof -
  have "distinct (map f r') = distinct (map f r)" for f :: "ios_device \<Rightarrow> string"
    using assms(2) by (intro mset_eq_imp_distinct_iff) simp
  then show ?thesis using assms mset_eq_setD [OF assms(2)] mset_eq_length [OF assms(2)] by (simp add: ios_registry_ok_def)
qed

text \<open>A reordering that succeeds is the permutation asked for.\<close>

lemma reorder_Inr:
  assumes "ios_registry_ok r"
  shows "registry_reorder r ks = Inr r' \<longleftrightarrow> length ks = card (set ks) \<and> set ks = dv_key ` set r \<and>
    length ks = length r \<and> set r' \<subseteq> set r \<and> map dv_key r' = ks \<and> ios_registry_new r' = Inr r'"
  unfolding registry_reorder_def Let_def mapping_iff [OF assms]
  by (auto simp: errors lookup_Inr by_key_list [OF assms])

lemma reorder_iff:
  assumes "ios_registry_ok r"
  shows "registry_reorder r ks = Inr r' \<longleftrightarrow> map dv_key r' = ks \<and> mset r' = mset r"
proof
  have d: "distinct r" using assms by (auto simp: ios_registry_ok_def distinct_map)
  assume "registry_reorder r ks = Inr r'"
  then have k: "length ks = length r" "set r' \<subseteq> set r" "map dv_key r' = ks" "distinct (map dv_key r')"
    unfolding reorder_Inr [OF assms] by auto
  then have d': "distinct r'" by (auto simp: distinct_map)
  have "length r' = length r" using k(1,3) by auto
  then have "card (set r') = card (set r)" using d d' by (simp add: distinct_card)
  then have "set r' = set r" using k(2) by (simp add: card_subset_eq)
  then show "map dv_key r' = ks \<and> mset r' = mset r" using k(3) d d' by (simp add: set_eq_iff_mset_eq_distinct)
next
  assume m: "map dv_key r' = ks \<and> mset r' = mset r"
  then have ok: "ios_registry_ok r'" using ok_mset [OF assms] by blast
  then have "distinct ks" using m by (auto simp: ios_registry_ok_def)
  then show "registry_reorder r ks = Inr r'"
    using m ok mset_eq_setD [of r' r] mset_eq_length [of r' r] unfolding reorder_Inr [OF assms]
    by (auto simp: ios_registry_ok_def distinct_card)
qed

lemma register_iff:
  assumes "ios_registry_ok r" and "ios_device_ok d"
  shows "register_device r d = Inr r' \<longleftrightarrow> (d \<in> set r \<and> r' = r) \<or>
    (dv_key d \<notin> dv_key ` set r \<and> dv_stable_node_id d \<notin> dv_stable_node_id ` set r \<and>
     length r < MAX_DEVICES \<and> r' = r @ [d])"
proof (cases "by_key r (dv_key d)")
  case None
  then have "dv_key d \<notin> dv_key ` set r" by (simp add: by_key_None)
  then show ?thesis using assms None
    by (auto simp: register_device_def by_node_id_None errors ios_registry_ok_def)
next
  case (Some e)
  then have e: "e \<in> set r" "dv_key e = dv_key d" using by_key_SomeD by blast+
  have "d \<in> set r \<longleftrightarrow> e = d" using e ok_unique(1) [OF assms(1) e(1)] by metis
  moreover have "dv_key d \<in> dv_key ` set r" using e by (metis imageI)
  ultimately show ?thesis using Some by (simp add: register_device_def) metis
qed


text \<open>What a registration may do: nothing, append the device, or rename the sole \<open>iphone\<close>.\<close>

definition registers :: "ios_registry \<Rightarrow> ios_device \<Rightarrow> ios_registry \<Rightarrow> bool" where
  "registers r d r' \<longleftrightarrow> (d \<in> set r \<and> r' = r) \<or>
     (dv_key d \<notin> dv_key ` set r \<and> dv_stable_node_id d \<notin> dv_stable_node_id ` set r \<and> r' = r @ [d]) \<or>
     (\<exists>old. r = [old] \<and> dv_key old = ''iphone'' \<and> dv_stable_node_id old = dv_stable_node_id d \<and> r' = [d])"

lemma rename_Inr:
  assumes "ios_registry_ok r" and "existing \<in> set r" and "dv_key existing = ''iphone''" and "length r = 1"
    and "bindE (ios_device_new key node) (\<lambda>d. bindE (ios_registry_new (map (\<lambda>item. if item = existing then d else item) r))
      (\<lambda>r'. Inr (r', d))) = Inr (r', d)" and "dv_stable_node_id existing = node"
  shows "ios_registry_ok r' \<and> registers r d r' \<and> d \<in> set r' \<and> dv_stable_node_id d = node \<and> dv_key d = key"
proof -
  obtain e where "r = [e]" using assms(4) by (auto simp: length_Suc_conv)
  then have r: "r = [existing]" using assms(2) by simp
  show ?thesis using assms(1,3,5,6) unfolding r
    by (auto simp: errors registers_def ios_registry_ok_def MAX_DEVICES_def)
qed

lemma registration_Inr:
  assumes "ios_registry_ok r" and "registration r node label hint = Inr (r', d)"
  shows "ios_registry_ok r' \<and> registers r d r' \<and> d \<in> set r' \<and> dv_stable_node_id d = node \<and>
    (\<forall>l. label = Some l \<longrightarrow> dv_key d = l)"
proof (cases "by_node_id r node")
  case None
  then obtain key where key: "(case label of Some l \<Rightarrow> Inr l | None \<Rightarrow> derive_device_key hint) = Inr key"
    and d: "ios_device_ok d" "d = \<lparr>dv_key = key, dv_stable_node_id = node\<rparr>" and reg: "register_device r d = Inr r'"
    using assms(2) by (auto simp: registration_def Let_def errors)
  have "node \<notin> dv_stable_node_id ` set r" using None by (simp add: by_node_id_None)
  moreover have "node \<in> dv_stable_node_id ` set r" if "d \<in> set r" using that d(2) by force
  ultimately have r': "dv_key d \<notin> dv_key ` set r" "length r < MAX_DEVICES" "r' = r @ [d]"
    using reg unfolding register_iff [OF assms(1) d(1)] by auto
  have "\<forall>l. label = Some l \<longrightarrow> key = l" using key by auto
  with d(2) have "\<forall>l. label = Some l \<longrightarrow> dv_key d = l" by simp
  then show ?thesis using r' d assms(1) \<open>node \<notin> _\<close> by (auto simp: registers_def ios_registry_ok_def)
next
  case (Some existing)
  then have e: "existing \<in> set r" "dv_stable_node_id existing = node" using by_node_id_SomeD by blast+
  obtain key where key: "(case label of Some l \<Rightarrow> Inr l | None \<Rightarrow> derive_device_key hint) = Inr key"
    using assms(2) Some by (auto simp: registration_def Let_def errors)
  have label: "\<forall>l. label = Some l \<longrightarrow> key = l" using key by auto
  have same: "ios_registry_ok r \<and> registers r existing r" using assms(1) e by (simp add: registers_def)
  note run = assms(2) [unfolded registration_def Let_def Some key option.case bindE_simps(2)]
  show ?thesis
  proof (cases "key = dv_key existing")
    case True
    then show ?thesis using run same e label by auto
  next
    case False
    show ?thesis
    proof (cases "dv_key existing = ''iphone'' \<and> length r = 1")
      case True
      then have "bindE (ios_device_new key node) (\<lambda>d. bindE (ios_registry_new (map (\<lambda>item. if item = existing then d else item) r))
          (\<lambda>r'. Inr (r', d))) = Inr (r', d)"
        using run False by (simp split: if_splits)
      from rename_Inr [OF assms(1) e(1) _ _ this e(2)] True label show ?thesis by auto
    next
      case no: False
      then show ?thesis using run False same e by (auto split: if_splits)
    qed
  qed
qed

section \<open>The file\<close>

lemma decode_registry_bytes:
  assumes "ios_registry_ok r"
  shows "decode_registry (canonical_registry_bytes r) = Inr r"
proof -
  let ?v = "json_canon (ios_registry_to_dict r)"
  have wf: "json_wf ?v" "json_wf (ios_registry_to_dict r)"
    using registry_dump_wf assms json_wf_canon by (auto simp: ios_registry_ok_def)
  have bytes: "canonical_registry_bytes r = json_dumps ?v @ [CHR 0x0A]"
    by (simp add: canonical_registry_bytes_def canonical_json_bytes_def)
  have ascii: "is_ascii (canonical_registry_bytes r)"
    unfolding bytes by (auto simp: is_ascii_json_dumps simp del: json_canon.simps json_dumps.simps)
  obtain kvs0 where v: "?v = JObj kvs0" "length kvs0 = 2"
    unfolding ios_registry_to_dict_def json_canon.simps(6) by (simp del: sort_key_simps)
  then obtain k x kvs where "?v = JObj ((k, x) # kvs)" by (cases kvs0) auto
  then obtain cs where cs: "canonical_registry_bytes r = CHR ''{'' # DQ # cs"
    unfolding bytes by (cases kvs) (simp_all add: json_member_def json_quote_def)
  have "char_of (239 :: nat) \<noteq> CHR ''{''" by (simp add: char_of_def)
  then have "json_loads_bytes (canonical_registry_bytes r) = Inr ?v"
    using utf8_decode_ascii [OF ascii] json_loads_dumps_line [OF keeps_distinct_dict wf(1), of "[CHR 0x0A]"]
    by (simp add: json_loads_bytes_def plain_json_loads_def bytes [symmetric]) (simp add: cs starts_with_def)
  then show ?thesis using registry_reads_back [OF assms _ wf(1)] by (simp add: decode_registry_def)
qed


text \<open>
  The registry of a directory that is there: none, or the private file \<open>write_registry\<close> makes. In
  the second form a power failure leaves it as it is.
\<close>

definition registry_at :: "nat \<Rightarrow> dir \<Rightarrow> string \<Rightarrow> ios_registry option \<Rightarrow> bool" where
  "registry_at me s name a \<longleftrightarrow> (case a of
     None \<Rightarrow> look s name = None
   | Some r \<Rightarrow> ios_registry_ok r \<and> holds me s name (canonical_registry_bytes r))"

definition registry_settled :: "nat \<Rightarrow> dir \<Rightarrow> string \<Rightarrow> ios_registry option \<Rightarrow> bool" where
  "registry_settled me s name a \<longleftrightarrow> dr_present s \<and> dr_getuid s = me \<and> proper_dir s \<and> (case a of
     None \<Rightarrow> views_at s name = {None}
   | Some r \<Rightarrow> ios_registry_ok r \<and> stable me s name (canonical_registry_bytes r))"

lemma settled_at: "registry_settled me s name a \<Longrightarrow> registry_at me s name a"
  using look_in_views [of s name] survivor_stable [OF _ survivor_refl]
  by (auto simp: registry_settled_def registry_at_def simp del: look_in_views split: option.splits)

text \<open>What loading meets; only a missing registry is reported as missing.\<close>

lemma open_registry_directory_spec:
  "always C (\<lambda>s'. s' = s) (open_registry_directory me)
     (\<lambda>res s'. s' = s \<and> (\<forall>e. res = Inl e \<longrightarrow> exc_class e \<noteq> IosRegistryMissing)) s"
  unfolding open_registry_directory_def call_unit_def progs
  by (intro conjI always_call_exact)
    (auto simp: progs raise_if_def split: if_splits intro!: always_call_exact)

lemma dir_exists_spec:
  assumes "dr_present s"
  shows "always C (\<lambda>s'. s' = s) dir_exists
     (\<lambda>res s'. s' = s \<and> res \<noteq> Inr False \<and> (\<forall>e. res = Inl e \<longrightarrow> exc_class e \<noteq> IosRegistryMissing)) s"
  unfolding dir_exists_def progs
  by (rule always_call_exact) (use assms in \<open>auto simp: is_missing_def split: if_splits\<close>)

lemma registry_open_directory_spec:
  assumes "dr_present s"
  shows "always C (\<lambda>s'. s' = s) (registry_open_directory me allow)
     (\<lambda>res s'. s' = s \<and> res \<noteq> Inr False \<and> (\<forall>e. res = Inl e \<longrightarrow> exc_class e \<noteq> IosRegistryMissing)) s"
proof -
  note there = dir_exists_spec [OF assms, of C]
  have empty: "always C (\<lambda>s'. s' = s) (if allow then bindP dir_exists (\<lambda>there. returnP (\<not> there)) else returnP False)
      (\<lambda>res s'. s' = s \<and> res \<noteq> Inr True \<and> (\<forall>e. res = Inl e \<longrightarrow> exc_class e \<noteq> IosRegistryMissing)) s"
    by (cases allow) (auto intro!: always_bindI [OF there])
  define known where "known = (if allow then bindP dir_exists (\<lambda>there. returnP (\<not> there)) else returnP False)"
  note empty = empty [folded known_def]
  have handler: "always C (\<lambda>s'. s' = s)
      (bindP known (\<lambda>empty.
         if empty then returnP False
         else bindP dir_exists (\<lambda>there. if \<not> there then raiseP IosRegistryMissing m else Done (Inl e))))
      (\<lambda>res s'. s' = s \<and> res \<noteq> Inr False \<and> (\<forall>e. res = Inl e \<longrightarrow> exc_class e \<noteq> IosRegistryMissing)) s"
    if "exc_class e \<noteq> IosRegistryMissing" for m e
    by (rule always_bindI [OF empty]) (use that in \<open>auto intro!: always_bindI [OF there]\<close>)
  show ?thesis unfolding registry_open_directory_def known_def [symmetric]
    by (rule always_catchI [where R = "\<lambda>res s'. s' = s \<and> res \<noteq> Inr False \<and> (\<forall>e. res = Inl e \<longrightarrow> exc_class e \<noteq> IosRegistryMissing)"])
      (auto intro!: handler always_thenI [OF open_registry_directory_spec])
qed

lemma open_registry_spec:
  "always C (\<lambda>s'. s' = s) (open_registry name allow)
     (\<lambda>res s'. s' = s \<and> (\<forall>i. res = Inr (Some i) \<longrightarrow> look s name = Some i) \<and>
        (res = Inr None \<longrightarrow> allow \<and> look s name = None) \<and>
        (\<forall>e. res = Inl e \<longrightarrow> exc_class e = IosRegistryMissing \<longrightarrow> look s name = None)) s"
  unfolding open_registry_def progs
  by (rule always_call_exact) (auto simp: is_missing_def split: option.splits if_splits)

lemma registry_read_loop_spec:
  assumes "in_data (dr_inode s i) = acc @ rest" and "length acc \<le> MAX_REGISTRY_BYTES"
  shows "always C (\<lambda>s'. s' = s) (registry_read_loop k i acc)
     (\<lambda>res s'. s' = s \<and> (\<forall>d. res = Inr d \<longrightarrow> d = acc @ rest) \<and>
        (\<forall>e. res = Inl e \<longrightarrow> exc_class e \<noteq> IosRegistryMissing)) s"
  using assms
proof (induction k arbitrary: acc rest)
  case (Suc k)
  show ?case unfolding registry_read_loop.simps progs
  proof (rule always_call_exact, goal_cases)
    case (3 n x s')
    define chunk where "chunk = take (min (min 65536 (MAX_REGISTRY_BYTES + 1 - length acc)) (Suc n)) (drop (length acc) (in_data (dr_inode s i)))"
    have x: "x = R_data chunk" "s' = s" using 3(2) by (auto simp: chunk_def)
    have rest: "rest = chunk @ drop (length chunk) rest" using Suc.prems(1) by (simp add: chunk_def min_def)
    have "chunk = [] \<Longrightarrow> rest = []" using Suc.prems by (auto simp: chunk_def)
    then show ?case
      using Suc.IH [of "acc @ chunk" "drop (length chunk) rest"] Suc.prems(1) rest by (simp add: x)
  qed simp_all
qed simp


lemma load_registry_spec:
  assumes "registry_at me s name a" and "dr_present s"
  shows "always C (\<lambda>s'. s' = s) (load_registry me name allow)
     (\<lambda>res s'. s' = s \<and> (\<forall>r. res = Inr r \<longrightarrow> a = Some r \<or> (a = None \<and> allow \<and> r = [])) \<and>
        (\<forall>e. res = Inl e \<longrightarrow> exc_class e = IosRegistryMissing \<longrightarrow> a = None)) s"
  unfolding load_registry_def
proof (rule always_bindI [OF registry_open_directory_spec [OF assms(2)]], goal_cases)
  case (1 there s')
  then have s': "there = True" "s' = s" by auto
  have none: "look s name = None \<Longrightarrow> a = None" using assms(1) by (auto simp: registry_at_def holds_def split: option.splits)
  show ?case unfolding s' not_True_eq_False if_False
  proof (rule always_bindI [OF open_registry_spec], goal_cases)
    case (1 fd s')
    show ?case
    proof (cases fd)
      case (Some i)
      with 1 have i: "s' = s" "look s name = Some i" by auto
      then obtain r where r: "a = Some r" "ios_registry_ok r" "in_data (dr_inode s i) = canonical_registry_bytes r"
        using assms(1) by (auto simp: registry_at_def holds_def split: option.splits)
      have rest: "always C (\<lambda>s'. s' = s) (bindP (registry_read_loop k i []) (\<lambda>data. liftP (decode_registry data)))
          (\<lambda>res s'. s' = s \<and> (\<forall>r. res = Inr r \<longrightarrow> a = Some r \<or> (a = None \<and> allow \<and> r = [])) \<and>
             (\<forall>e. res = Inl e \<longrightarrow> exc_class e = IosRegistryMissing \<longrightarrow> a = None)) s" for k
        by (rule always_bindI [OF registry_read_loop_spec [of s i "[]" "in_data (dr_inode s i)"]])
          (auto simp: progs r decode_registry_bytes [OF r(2)])
      show ?thesis unfolding Some i(1) option.case
      proof (rule always_bindI [where R = "\<lambda>res s'. s' = s \<and> (\<forall>e. res = Inl e \<longrightarrow> exc_class e \<noteq> IosRegistryMissing)"], goal_cases)
        case 1
        show ?case by (rule always_call_exact) auto
      next
        case (2 info s')
        then have info: "s' = s" by simp
        show ?case unfolding info
        proof (rule always_thenI [where R = "\<lambda>res s'. s' = s \<and> (\<forall>e. res = Inl e \<longrightarrow> exc_class e \<noteq> IosRegistryMissing)"], goal_cases)
          case (2 s')
          then have s': "s' = s" by simp
          show ?case unfolding s' by (rule rest)
        qed (auto simp: progs raise_if_def)
      qed auto
    qed (use 1 none in auto)
  qed (use none in auto)
qed auto

text \<open>Writing: the registry is untouched or the whole new file, which is durable after the return.\<close>

lemma write_registry_spec:
  fixes r :: ios_registry
  assumes "\<not> staged name" and "proper_dir s0"
  defines "data \<equiv> canonical_registry_bytes r"
  shows "always C (updates s0 name data) (write_registry me name r)
    (\<lambda>res s. res = Inr () \<longrightarrow> (\<forall>n. n \<noteq> name \<longrightarrow> look s n = look s0 n) \<and> durable s0 name data s) s0"
proof -
  note start = updates_keeps [OF keeps_refl assms(1), of s0 data]
  have opened: "always C (updates s0 name data) (open_registry_directory me) (\<lambda>res s. s = s0) s0"
    using start by (auto intro!: always_mono [OF open_registry_directory_spec])
  have token: "always C (updates s0 name data) (callP Token the_token) (\<lambda>res s. s = s0) s0"
    using start by (intro call_Token) auto
  have publish: "always C (updates s0 name data)
      (bindP (callP (Open_create tmp PRIVATE_FILE) the_fd) (\<lambda>i.
         thenP (thenP (call_unit (Fchmod i PRIVATE_FILE)) (thenP (write_all i data) (call_unit (Fsync i))))
        (thenP (call_unit (Rename tmp name)) (call_unit Fsync_dir))))
      (\<lambda>res s. res = Inr () \<longrightarrow> look s tmp = None \<and> (\<forall>n. n \<noteq> name \<longrightarrow> look s n = look s0 n) \<and> durable s0 name data s) s0"
    if tmp: "staged tmp" "tmp \<noteq> name" for tmp
  proof (rule always_bindI [where R = "\<lambda>r s. case r of Inl e \<Rightarrow> s = s0 | Inr i \<Rightarrow> i = dr_next s0 \<and> look s0 tmp = None \<and>
        (\<exists>f. s = with_temp s0 tmp f \<and> in_kind f = RegularFile \<and> in_uid f = dr_getuid s0 \<and> in_data f = [] \<and>
           in_links_elsewhere f = 0)"], goal_cases)
    case 1
    show ?case using updates_keeps assms(1) by (intro always_mono [OF open_temp_spec [OF tmp(1)]]) auto
  next
    case (2 i s)
    then obtain f where f: "i = dr_next s0" "look s0 tmp = None" "s = with_temp s0 tmp f" "in_kind f = RegularFile"
      "in_uid f = dr_getuid s0" "in_data f = []" "in_links_elsewhere f = 0" by auto
    have stage: "always C (updates s0 name data)
        (thenP (call_unit (Fchmod i PRIVATE_FILE)) (thenP (write_all i data) (call_unit (Fsync i))))
        (temp_or s0 tmp (\<lambda>s. s = with_temp s0 tmp (record_inode s0 data))) s"
      unfolding f(1,3) using updates_keeps assms(1)
      by (intro always_mono [OF stage_file_spec [OF tmp(1) f(4-7)]]) auto
    show ?case
    proof (rule always_thenI [OF stage], goal_cases)
      case (1 s)
      then have s: "s = with_temp s0 tmp (record_inode s0 data)" by simp
      show ?case unfolding s
      proof (rule always_thenI [OF rename_spec [OF tmp(1) assms(1) tmp(2) f(2) assms(2)]], goal_cases)
        case (1 s)
        then show ?case using renamed_durable [of s0 name data tmp] renamed_look [OF f(2)] f(2) tmp(2)
            updates_synced [OF 1(1)] by (intro call_Fsync_dir) auto
      qed auto
    qed auto
  qed auto
  have clean: "always C (updates s0 name data) (unlink_quiet tmp)
      (\<lambda>res s'. s' = (if res = Inr () then removed tmp s else s)) s"
    if "staged tmp" "updates s0 name data s" for tmp s
    by (rule unlink_quiet_spec [OF that(2) updates_removed [OF that(1) assms(1) that(2)]])
  show ?thesis unfolding write_registry_def Let_def data_def [symmetric]
  proof (rule always_thenI [where R = "\<lambda>res s. s = s0"], goal_cases)
    case 1
    show ?case using start by (simp add: progs)
  next
    case (2 s)
    then show ?case
    proof (simp, intro always_thenI [OF opened], goal_cases)
      case (1 s')
      then show ?case
      proof (simp, intro always_bindI [OF token], goal_cases)
        case (1 t s'')
        have tmp: "staged (temp_name name t)" "temp_name name t \<noteq> name" using assms(1) staged_temp_name by metis+
        show ?case using 1
          by (auto intro!: always_finallyI [OF always_catchI [OF publish [OF tmp], where
                Q = "\<lambda>res s. res = Inr () \<longrightarrow> look s (temp_name name t) = None \<and> (\<forall>n. n \<noteq> name \<longrightarrow> look s n = look s0 n) \<and> durable s0 name data s"]]
              always_mono [OF clean [OF tmp(1)]] split: sum.split if_splits)
      qed auto
    qed auto
  qed auto
qed


section \<open>The commands against their specification\<close>

datatype registry_call = List_devices | Migrate | Node string | Register string "string option" string
  | Remove string | Reorder "string list"

text \<open>The program of a call, with the lines it prints, and what it does to the registry as a value.\<close>

fun registry_prog :: "nat \<Rightarrow> string \<Rightarrow> ios_device option result \<Rightarrow> registry_call \<Rightarrow> string list prog" where
  "registry_prog me name legacy List_devices = cli_devices me name legacy"
| "registry_prog me name legacy Migrate = cli_migrate me name legacy"
| "registry_prog me name legacy (Node key) = bindP (cli_node me name legacy key) (\<lambda>n. returnP [n])"
| "registry_prog me name legacy (Register node label hint) =
     bindP (cli_register me name legacy node label hint) (\<lambda>k. returnP [k])"
| "registry_prog me name legacy (Remove key) = bindP (cli_remove me name legacy key) (\<lambda>_. returnP [])"
| "registry_prog me name legacy (Reorder keys) = bindP (cli_reorder me name legacy keys) (\<lambda>_. returnP [])"

definition effective :: "ios_device option result \<Rightarrow> ios_registry option \<Rightarrow> ios_registry result" where
  "effective legacy a = (case a of
     Some r \<Rightarrow> Inr r
   | None \<Rightarrow> bindE legacy (\<lambda>old. case old of None \<Rightarrow> ios_registry_new [] | Some d \<Rightarrow> ios_registry_new [d]))"

fun registry_spec :: "ios_device option result \<Rightarrow> registry_call \<Rightarrow> ios_registry option \<Rightarrow>
    (string list \<times> ios_registry option) result" where
  "registry_spec legacy List_devices a = bindE (effective legacy a) (\<lambda>r. Inr (map device_line r, a))"
| "registry_spec legacy Migrate a = bindE (effective legacy a) (\<lambda>r.
     Inr (map device_line r, if a = None \<and> legacy = Inr None then None else Some r))"
| "registry_spec legacy (Node key) a = bindE (effective legacy a) (\<lambda>r. case by_key r key of
     None \<Rightarrow> registry_fail ''unknown iOS device key'' | Some d \<Rightarrow> Inr ([dv_stable_node_id d], a))"
| "registry_spec legacy (Register node label hint) a = bindE (effective legacy a) (\<lambda>r.
     bindE (registration r node label hint) (\<lambda>(r', d). Inr ([dv_key d], Some r')))"
| "registry_spec legacy (Remove key) a = bindE (effective legacy a) (\<lambda>r.
     bindE (registry_remove r key) (\<lambda>r'. Inr ([], Some r')))"
| "registry_spec legacy (Reorder keys) a = bindE (effective legacy a) (\<lambda>r.
     bindE (registry_reorder r keys) (\<lambda>r'. Inr ([], Some r')))"

text \<open>On the way nothing happened or one write of the specified registry; at the end it is done.\<close>

definition on_the_way :: "dir \<Rightarrow> string \<Rightarrow> (string list \<times> ios_registry option) result \<Rightarrow> dir \<Rightarrow> bool" where
  "on_the_way s0 name res s \<longleftrightarrow> s = s0 \<or>
     (\<exists>out r. res = Inr (out, Some r) \<and> updates s0 name (canonical_registry_bytes r) s)"

definition arrived :: "dir \<Rightarrow> string \<Rightarrow> ios_registry option \<Rightarrow> (string list \<times> ios_registry option) result \<Rightarrow>
    string list result \<Rightarrow> dir \<Rightarrow> bool" where
  "arrived s0 name a res got s \<longleftrightarrow> (\<forall>out. got = Inr out \<longrightarrow> (\<exists>a'. res = Inr (out, a') \<and>
     (a' = a \<and> s = s0 \<or> (\<exists>r. a' = Some r \<and> durable s0 name (canonical_registry_bytes r) s))))"

lemma arrived_Inl [simp]: "arrived s0 name a res (Inl e) s"
  by (simp add: arrived_def)

lemma on_the_way_refl [simp]: "on_the_way s0 name res s0"
  by (simp add: on_the_way_def)

lemma always_wrap: "always C I p (\<lambda>res. Q (map_sum id f res)) s \<Longrightarrow> always C I (bindP p (\<lambda>x. returnP (f x))) Q s"
  by (rule always_bindI [where R = "\<lambda>res. Q (map_sum id f res)"]) auto

lemma write_step:
  assumes "res = Inr (out, Some r)" and "\<not> staged name" and "proper_dir s0"
  shows "always C (on_the_way s0 name res) (write_registry me name r)
     (\<lambda>got. arrived s0 name a res (map_sum id (\<lambda>_. out) got)) s0"
proof (rule always_mono [OF write_registry_spec [OF assms(2,3)]], goal_cases)
  case (2 got s)
  then show ?case using assms(1) by (cases got) (auto simp: arrived_def)
qed (use assms(1) in \<open>auto simp: on_the_way_def\<close>)

lemma write_return_step:
  assumes "res = Inr (f x, Some r)" and "\<not> staged name" and "proper_dir s0"
  shows "always C (on_the_way s0 name res) (thenP (write_registry me name r) (returnP x))
     (\<lambda>got. arrived s0 name a res (map_sum id f got)) s0"
  by (rule always_thenI [OF write_step [OF assms, where a = a]]) (simp_all add: arrived_def)

lemma load_missing_spec:
  assumes "registry_settled me s0 name a"
  shows "always C (on_the_way s0 name res) (load_registry me name False)
     (\<lambda>got s. s = s0 \<and> (\<forall>r. got = Inr r \<longrightarrow> a = Some r) \<and>
        (\<forall>e. got = Inl e \<longrightarrow> exc_class e = IosRegistryMissing \<longrightarrow> a = None)) s0"
proof -
  have "dr_present s0" using assms by (simp add: registry_settled_def)
  from load_registry_spec [OF settled_at [OF assms] this, of C False] show ?thesis by (rule always_mono) auto
qed

lemma load_effective_spec:
  assumes "registry_settled me s0 name a"
  shows "always C (on_the_way s0 name res) (load_effective_registry me name legacy)
     (\<lambda>got s. s = s0 \<and> (\<forall>r. got = Inr r \<longrightarrow> effective legacy a = Inr r)) s0"
  unfolding load_effective_registry_def
  by (rule always_catchI [OF load_missing_spec [OF assms]])
    (auto simp: effective_def is_registry_missing_def progs split: sum.split option.split)

lemma effective_ok:
  assumes "registry_settled me s0 name a" and "\<And>d. legacy = Inr (Some d) \<Longrightarrow> ios_device_ok d" and "effective legacy a = Inr r"
  shows "ios_registry_ok r"
proof (cases a)
  case None
  then obtain old where "legacy = Inr old" "(case old of None \<Rightarrow> ios_registry_new [] | Some d \<Rightarrow> ios_registry_new [d]) = Inr r"
    using assms(3) by (auto simp: effective_def bindE_Inr_iff)
  then show ?thesis using assms(2) by (cases old) (simp_all add: ios_registry_ok_def)
qed (use assms(1,3) in \<open>simp add: effective_def registry_settled_def\<close>)


text \<open>Reading, computing a new registry and writing it.\<close>

lemma then_return_unit: "thenP p (returnP ()) = p"
  unfolding thenP_def bindP_def by (induction p) (auto split: sum.split)

lemma change_step:
  assumes "registry_settled me s0 name a" and "\<not> staged name"
    and "res = bindE (effective legacy a) (\<lambda>r. bindE (change r) (\<lambda>x. Inr (f (val x), Some (new x))))"
  shows "always C (on_the_way s0 name res)
     (bindP (load_effective_registry me name legacy) (\<lambda>r. bindP (liftP (change r)) (\<lambda>x.
        thenP (write_registry me name (new x)) (returnP (val x)))))
     (\<lambda>got. arrived s0 name a res (map_sum id f got)) s0"
proof (rule always_bindI [OF load_effective_spec [OF assms(1)]], goal_cases)
  case (1 r s)
  then have s: "s = s0" and r: "effective legacy a = Inr r" by auto
  have proper: "proper_dir s0" using assms(1) by (simp add: registry_settled_def)
  show ?case unfolding s
  proof (cases "change r")
    case (Inr x)
    have "res = Inr (f (val x), Some (new x))" using assms(3) r Inr by simp
    from write_return_step [where f = f and x = "val x" and r = "new x", OF this assms(2) proper] show "always C (on_the_way s0 name res)
        (bindP (liftP (change r)) (\<lambda>x. thenP (write_registry me name (new x)) (returnP (val x))))
        (\<lambda>got. arrived s0 name a res (map_sum id f got)) s0"
      by (simp add: Inr)
  qed simp
qed simp

text \<open>Reading and answering.\<close>

lemma answer_step:
  assumes "registry_settled me s0 name a"
    and "res = bindE (effective legacy a) (\<lambda>r. bindE (answer r) (\<lambda>x. Inr (f x, a)))"
  shows "always C (on_the_way s0 name res)
     (bindP (load_effective_registry me name legacy) (\<lambda>r. liftP (answer r)))
     (\<lambda>got. arrived s0 name a res (map_sum id f got)) s0"
proof (rule always_bindI [OF load_effective_spec [OF assms(1)]], goal_cases)
  case (1 r s)
  then have s: "s = s0" and r: "effective legacy a = Inr r" by auto
  show ?case unfolding s
    by (cases "answer r") (use assms(2) r in \<open>simp_all add: progs arrived_def\<close>)
qed simp

lemma migrate_step:
  assumes "registry_settled me s0 name a" and "\<not> staged name"
  shows "always C (on_the_way s0 name (registry_spec legacy Migrate a)) (migrate_legacy_registry me name legacy)
     (\<lambda>got. arrived s0 name a (registry_spec legacy Migrate a) (map_sum id (map device_line) got)) s0"
  unfolding migrate_legacy_registry_def
proof (rule always_catchI [OF load_missing_spec [OF assms(1)]], goal_cases)
  case (1 r s)
  then show ?case by (simp add: arrived_def effective_def)
next
  case (2 e s)
  then have s: "s = s0" and a: "a = None" by (auto simp: is_registry_missing_def)
  have proper: "proper_dir s0" using assms(1) by (simp add: registry_settled_def)
  let ?res = "registry_spec legacy Migrate a"
  show ?case unfolding s
  proof (cases legacy)
    case (Inr old)
    show "always C (on_the_way s0 name ?res)
        (bindP (liftP legacy) (\<lambda>old. case old of None \<Rightarrow> liftP (ios_registry_new [])
          | Some d \<Rightarrow> bindP (liftP (ios_registry_new [d])) (\<lambda>r. thenP (write_registry me name r) (returnP r))))
        (\<lambda>got. arrived s0 name a ?res (map_sum id (map device_line) got)) s0"
    proof (cases old)
      case None
      have new: "ios_registry_new [] = Inr []" by simp
      show ?thesis by (simp add: Inr None a effective_def progs arrived_def new)
    next
      case (Some d)
      have new: "ios_registry_new [d] = Inr [d]" by (simp add: MAX_DEVICES_def)
      have "?res = Inr (map device_line [d], Some [d])" by (simp add: Inr Some a effective_def new)
      from write_return_step [where f = "map device_line" and x = "[d]" and r = "[d]", OF this assms(2) proper]
      show ?thesis by (simp add: Inr Some new del: ios_registry_new_Inr)
    qed
  qed simp
qed simp_all

lemma registry_call_refines:
  assumes "registry_settled me s0 name a" and "\<not> staged name"
  shows "always C (on_the_way s0 name (registry_spec legacy c a)) (registry_prog me name legacy c)
     (arrived s0 name a (registry_spec legacy c a)) s0"
proof (cases c)
  case List_devices
  have "registry_spec legacy c a = bindE (effective legacy a) (\<lambda>r. bindE (Inr (map device_line r)) (\<lambda>x. Inr (id x, a)))"
    by (simp add: List_devices)
  from answer_step [where f = id and answer = "\<lambda>r. Inr (map device_line r)", OF assms(1) this] show ?thesis
    by (simp add: List_devices cli_devices_def map_sum.id liftP_def)
next
  case Migrate
  show ?thesis unfolding Migrate registry_prog.simps cli_migrate_def
    by (rule always_wrap, rule migrate_step [OF assms])
next
  case (Node key)
  let ?answer = "\<lambda>r. case by_key r key of None \<Rightarrow> registry_fail ''unknown iOS device key''
    | Some d \<Rightarrow> Inr (dv_stable_node_id d)"
  have "registry_spec legacy c a = bindE (effective legacy a) (\<lambda>r. bindE (?answer r) (\<lambda>x. Inr ([x], a)))"
    unfolding Node registry_spec.simps by (intro arg_cong [where f = "bindE (effective legacy a)"] ext) (simp split: option.split)
  moreover have "cli_node me name legacy key = bindP (load_effective_registry me name legacy) (\<lambda>r. liftP (?answer r))"
    unfolding cli_node_def by (intro arg_cong [where f = "bindP _"] ext) (simp add: liftP_def split: option.split)
  ultimately show ?thesis using answer_step [where f = "\<lambda>n. [n]" and answer = ?answer, OF assms(1)]
    by (simp add: Node always_wrap)
next
  case (Register node label hint)
  have "registry_spec legacy c a = bindE (effective legacy a) (\<lambda>r. bindE (registration r node label hint)
      (\<lambda>x. Inr ([dv_key (snd x)], Some (fst x))))"
    by (simp add: Register case_prod_unfold)
  from change_step [where f = "\<lambda>k. [k]" and val = "\<lambda>x. dv_key (snd x)" and new = fst, OF assms this] show ?thesis
    by (simp add: Register cli_register_def case_prod_unfold always_wrap)
next
  case (Remove key)
  have "registry_spec legacy c a = bindE (effective legacy a) (\<lambda>r. bindE (registry_remove r key)
      (\<lambda>x. Inr ([], Some x)))"
    by (simp add: Remove)
  from change_step [where f = "\<lambda>_. []" and val = "\<lambda>_. ()" and new = "\<lambda>x. x", OF assms this] show ?thesis
    unfolding Remove registry_prog.simps cli_remove_def by (intro always_wrap) (simp add: then_return_unit)
next
  case (Reorder keys)
  have "registry_spec legacy c a = bindE (effective legacy a) (\<lambda>r. bindE (registry_reorder r keys)
      (\<lambda>x. Inr ([], Some x)))"
    by (simp add: Reorder)
  from change_step [where f = "\<lambda>_. []" and val = "\<lambda>_. ()" and new = "\<lambda>x. x", OF assms this] show ?thesis
    unfolding Reorder registry_prog.simps cli_reorder_def by (intro always_wrap) (simp add: then_return_unit)
qed


text \<open>What a power failure leaves of such a state.\<close>

lemma settled_survivor:
  assumes "registry_settled me s0 name a" and "same_files s0 s" and "survivor s s'" and "look s' name \<in> views_at s0 name"
  shows "registry_at me s' name a"
proof (cases a)
  case (Some r)
  then have "stable me s0 name (canonical_registry_bytes r)" "ios_registry_ok r"
    using assms(1) by (simp_all add: registry_settled_def)
  from same_files_survivor [OF this(1) assms(2-4)] this(2) show ?thesis by (simp add: Some registry_at_def)
qed (use assms(1,4) in \<open>simp add: registry_settled_def registry_at_def\<close>)

lemma spec_ok:
  assumes "registry_settled me s0 name a" and "\<And>d. legacy = Inr (Some d) \<Longrightarrow> ios_device_ok d"
    and "registry_spec legacy c a = Inr (out, Some r)"
  shows "ios_registry_ok r"
proof -
  obtain e where e: "effective legacy a = Inr e" using assms(3) by (cases c) (auto simp: bindE_Inr_iff)
  then have ok: "ios_registry_ok e" using effective_ok [OF assms(1)] assms(2) by blast
  have same: "a = Some r \<Longrightarrow> ios_registry_ok r" using e ok by (simp add: effective_def)
  show ?thesis
  proof (cases c)
    case (Register node label hint)
    with assms(3) e obtain d where "registration e node label hint = Inr (r, d)" by (auto simp: bindE_Inr_iff)
    then show ?thesis using registration_Inr [OF ok] by blast
  next
    case (Remove key)
    with assms(3) e have "registry_remove e key = Inr r" by (auto simp: bindE_Inr_iff)
    then show ?thesis using remove_iff [OF ok] ok_filter [OF ok] by simp
  next
    case (Reorder keys)
    with assms(3) e have "registry_reorder e keys = Inr r" by (auto simp: bindE_Inr_iff)
    then show ?thesis using reorder_iff [OF ok] ok_mset [OF ok] by simp
  qed (use assms(3) e ok same in \<open>auto split: option.splits if_splits\<close>)
qed

section \<open>Properties\<close>

text \<open>
  C34: The operations of a registry do what they say and keep it valid: \<open>remove\<close> drops the device of a
  registered key, \<open>reorder\<close> succeeds exactly with the permutation whose keys are those given, and
  \<open>register_device\<close> answers with the registry itself for a device it holds and appends one whose
  key and node are both new while there is room; every other call raises.
\<close>

theorem registry_operations:
  assumes "ios_registry_ok r" and "ios_device_ok d"
  shows "(registry_remove r k = Inr r' \<longleftrightarrow> k \<in> dv_key ` set r \<and> r' = filter (\<lambda>d. dv_key d \<noteq> k) r) \<and>
    (registry_reorder r ks = Inr r' \<longleftrightarrow> map dv_key r' = ks \<and> mset r' = mset r) \<and>
    (register_device r d = Inr r' \<longleftrightarrow> (d \<in> set r \<and> r' = r) \<or>
       (dv_key d \<notin> dv_key ` set r \<and> dv_stable_node_id d \<notin> dv_stable_node_id ` set r \<and>
        length r < MAX_DEVICES \<and> r' = r @ [d]))"
  by (intro conjI remove_iff [OF assms(1)] reorder_iff [OF assms(1)] register_iff [OF assms])

theorem registry_operations_witness:
  "registry_reorder [\<lparr>dv_key = ''a'', dv_stable_node_id = ''x''\<rparr>, \<lparr>dv_key = ''b'', dv_stable_node_id = ''y''\<rparr>] [''b'', ''a''] =
     Inr [\<lparr>dv_key = ''b'', dv_stable_node_id = ''y''\<rparr>, \<lparr>dv_key = ''a'', dv_stable_node_id = ''x''\<rparr>]"
proof -
  let ?a = "\<lparr>dv_key = ''a'', dv_stable_node_id = ''x''\<rparr>"
  let ?b = "\<lparr>dv_key = ''b'', dv_stable_node_id = ''y''\<rparr>"
  have "ios_device_ok ?a" "ios_device_ok ?b" by code_simp+
  then have "ios_registry_ok [?a, ?b]" by (simp add: ios_registry_ok_def MAX_DEVICES_def)
  from registry_operations [OF this \<open>ios_device_ok ?a\<close>, of _ "[?b, ?a]" "[''b'', ''a'']"]
  show ?thesis by simp
qed

text \<open>
  C35: A registration yields a valid registry that holds the reported device for the node, under the
  label when one is given; it changes the registry only by appending that device or by renaming a
  sole device \<open>iphone\<close> of the same node.
\<close>

theorem registration_valid:
  assumes "ios_registry_ok r" and "registration r node label hint = Inr (r', d)"
  shows "ios_registry_ok r' \<and> registers r d r' \<and> d \<in> set r' \<and> dv_stable_node_id d = node \<and>
    (\<forall>l. label = Some l \<longrightarrow> dv_key d = l)"
  by (rule registration_Inr [OF assms])

theorem registration_valid_witness:
  "let d = \<lparr>dv_key = ''my-phone'', dv_stable_node_id = ''n1''\<rparr>
   in ios_registry_ok [d] \<and> registers [\<lparr>dv_key = ''iphone'', dv_stable_node_id = ''n1''\<rparr>] d [d]"
proof -
  let ?d = "\<lparr>dv_key = ''my-phone'', dv_stable_node_id = ''n1''\<rparr>"
  let ?old = "\<lparr>dv_key = ''iphone'', dv_stable_node_id = ''n1''\<rparr>"
  have "ios_device_ok ?old" by code_simp
  then have "ios_registry_ok [?old]" by (simp add: ios_registry_ok_def MAX_DEVICES_def)
  moreover have "registration [?old] ''n1'' None ''My Phone.tail.net.'' = Inr ([?d], ?d)" by code_simp
  ultimately show ?thesis using registration_valid [of "[?old]"] by (simp add: Let_def)
qed

text \<open>
  C36: The commands treat the registry as one value. With the registry settled on disk, or settled as
  missing, whatever faults a command meets and wherever the process or the machine stops, what is
  left is the old registry or the one the specification of the command asks for, and every other
  record of the directory is one that was there; when the command returns, it prints what is
  specified and the specified registry has reached the disk.
\<close>

theorem registry_calls_refine:
  assumes "run cs (registry_prog me name legacy c) s0 = (p, s)" and "survivor s s'"
    and "registry_settled me s0 name a" and "\<not> staged name" and "\<forall>d. legacy = Inr (Some d) \<longrightarrow> ios_device_ok d"
  shows "(\<exists>a' \<in> insert a (snd ` {x. registry_spec legacy c a = Inr x}). registry_at me s' name a') \<and>
    (\<forall>n. \<not> staged n \<longrightarrow> n \<noteq> name \<longrightarrow> look s' n \<in> views_at s0 n) \<and>
    (\<forall>out. outcome p = Some (Inr out) \<longrightarrow>
       (\<exists>a'. registry_spec legacy c a = Inr (out, a') \<and> registry_at me s' name a'))"
proof -
  note spec = run_always [OF assms(1) registry_call_refines [OF assms(3,4)]]
  have me: "dr_getuid s0 = me" using assms(3) by (simp add: registry_settled_def)
  have ok: "registry_spec legacy c a = Inr (out, Some r) \<Longrightarrow> ios_registry_ok r" for out r
    using spec_ok [OF assms(3)] assms(5) by blast
  have old: "registry_at me s' name a" if "same_files s0 s" "look s' name \<in> views_at s0 name"
    by (rule settled_survivor [OF assms(3) that(1) assms(2) that(2)])
  have still: "look s' n \<in> views_at s0 n" if "s = s0" for n
    using survivor_look [OF assms(2)] that by simp
  have "(\<exists>a' \<in> insert a (snd ` {x. registry_spec legacy c a = Inr x}). registry_at me s' name a') \<and>
      (\<forall>n. \<not> staged n \<longrightarrow> n \<noteq> name \<longrightarrow> look s' n \<in> views_at s0 n)"
  proof (cases "s = s0")
    case False
    then obtain out r where r: "registry_spec legacy c a = Inr (out, Some r)"
      "updates s0 name (canonical_registry_bytes r) s"
      using spec(1) by (auto simp: on_the_way_def)
    then have "registry_at me s' name a \<or> registry_at me s' name (Some r)"
      using updates_survivor(1) [OF r(2) me assms(2)] old ok by (auto simp: registry_at_def updates_def)
    moreover have "Some r \<in> snd ` {x. registry_spec legacy c a = Inr x}" using r(1) by force
    ultimately show ?thesis using updates_survivor(2) [OF r(2) me assms(2)] by blast
  qed (use old still in simp)
  moreover have "\<exists>a'. registry_spec legacy c a = Inr (out, a') \<and> registry_at me s' name a'"
    if out: "outcome p = Some (Inr out)" for out
  proof -
    obtain a' where a': "registry_spec legacy c a = Inr (out, a')"
      "a' = a \<and> s = s0 \<or> (\<exists>r. a' = Some r \<and> durable s0 name (canonical_registry_bytes r) s)"
      using spec(2) [OF out] by (auto simp: arrived_def)
    then have "registry_at me s' name a'"
      using old still durable_holds [OF _ me assms(2)] ok by (auto simp: registry_at_def)
    with a'(1) show ?thesis by blast
  qed
  ultimately show ?thesis by blast
qed

theorem registry_calls_refine_witness:
  "let d = \<lparr>dv_key = ''iphone'', dv_stable_node_id = ''n1''\<rparr>;
       s = snd (run [Proceed 1, Proceed 1, Fail] (registry_prog 7 ''ios.json'' (Inr (Some d)) Migrate) crash_empty)
   in registry_at 7 s ''ios.json'' None \<or> registry_at 7 s ''ios.json'' (Some [d])"
proof -
  let ?d = "\<lparr>dv_key = ''iphone'', dv_stable_node_id = ''n1''\<rparr>"
  let ?r = "run [Proceed 1, Proceed 1, Fail] (registry_prog 7 ''ios.json'' (Inr (Some ?d)) Migrate) crash_empty"
  have "ios_device_ok ?d" by code_simp
  then have d: "\<forall>e. Inr (Some ?d) = (Inr (Some e) :: ios_device option result) \<longrightarrow> ios_device_ok e" by simp
  have s: "registry_settled 7 crash_empty ''ios.json'' None"
    using crash_empty_simps by (simp add: registry_settled_def crash_empty_def)
  have n: "\<not> staged ''ios.json''" by (simp add: staged_def temp_name_def)
  have new: "ios_registry_new [?d] = Inr [?d]" by (simp add: MAX_DEVICES_def \<open>ios_device_ok ?d\<close>)
  have "registry_spec (Inr (Some ?d)) Migrate None = Inr (map device_line [?d], Some [?d])"
    by (simp add: effective_def new del: ios_registry_new_Inr)
  with registry_calls_refine [OF prod.collapse [of ?r, symmetric] survivor_refl s n d] show ?thesis
    by (simp add: Let_def)
qed

end
