(* ===== verification/Socks.thy ===== *)
theory Socks
  imports Prelude
begin

text \<open>
  The SOCKS5 observer of the frontend, \<open>_Socks5Transcript\<close> in
  \<open>system/grok-proxy/grok_ms/frontend.py\<close>: what it makes of the bytes a relay has written, and how
  much of a server answer it lets through while responses are held. Bytes are characters.
\<close>

section \<open>The observer\<close>

datatype socks_state = Client_greeting | Server_method | Client_request | Server_reply | Complete | Invalid

record transcript =
  tr_state :: socks_state
  tr_pending :: string
  tr_client_to_backend :: nat
  tr_backend_to_client :: nat
  tr_app_client_to_backend :: nat
  tr_app_backend_to_client :: nat

definition transcript_new :: transcript where
  "transcript_new = \<lparr>tr_state = Client_greeting, tr_pending = [], tr_client_to_backend = 0,
     tr_backend_to_client = 0, tr_app_client_to_backend = 0, tr_app_backend_to_client = 0\<rparr>"

definition byte_at :: "string \<Rightarrow> nat \<Rightarrow> nat" where
  "byte_at data i = ord (data ! i)"

text \<open>\<open>None\<close> while the length is not known yet, \<open>-1\<close> for an address type that does not exist.\<close>

definition address_frame_length :: "string \<Rightarrow> int option" where
  "address_frame_length data =
     (if length data < 4 then None
      else if byte_at data 3 = 1 then Some 10
      else if byte_at data 3 = 4 then Some 22
      else if byte_at data 3 = 3 then
        (if length data < 5 then None else Some (7 + int (byte_at data 4)))
      else Some (- 1))"

definition invalidate :: "transcript \<Rightarrow> transcript" where
  "invalidate t = t\<lparr>tr_state := Invalid, tr_pending := []\<rparr>"

definition enter :: "socks_state \<Rightarrow> transcript \<Rightarrow> transcript" where
  "enter st t = t\<lparr>tr_state := st, tr_pending := []\<rparr>"

text \<open>One branch of \<open>observe\<close> per state; the bytes are already in \<open>pending\<close>.\<close>

definition observe_greeting :: "transcript \<Rightarrow> transcript" where
  "observe_greeting t =
     (let p = tr_pending t in
      if length p < 2 then t
      else if byte_at p 0 \<noteq> 5 \<or> byte_at p 1 < 1 then invalidate t
      else if length p < 2 + byte_at p 1 then t
      else if length p \<noteq> 2 + byte_at p 1 then invalidate t
      else enter Server_method t)"

definition observe_method :: "transcript \<Rightarrow> transcript" where
  "observe_method t =
     (let p = tr_pending t in
      if length p < 2 then t
      else if length p \<noteq> 2 \<or> byte_at p 0 \<noteq> 5 \<or> byte_at p 1 = 255 then invalidate t
      else enter Client_request t)"

definition bad_frame :: "string \<Rightarrow> int \<Rightarrow> string \<Rightarrow> bool" where
  "bad_frame p len header \<longleftrightarrow> len < 0 \<or> int (length p) < len \<or> take 3 p \<noteq> header"

definition give_up :: "string \<Rightarrow> int \<Rightarrow> transcript \<Rightarrow> transcript" where
  "give_up p len t = (if len < 0 \<or> int (length p) \<ge> max len 0 then invalidate t else t)"

definition CONNECT_HEADER :: string where "CONNECT_HEADER = map char_of [5, 1, 0 :: nat]"
definition REPLY_HEADER :: string where "REPLY_HEADER = map char_of [5, 0, 0 :: nat]"

definition observe_request :: "transcript \<Rightarrow> transcript" where
  "observe_request t =
     (let p = tr_pending t in
      case address_frame_length p of
        None \<Rightarrow> t
      | Some len \<Rightarrow>
          if bad_frame p len CONNECT_HEADER then give_up p len t
          else if int (length p) \<noteq> len then invalidate t
          else enter Server_reply t)"

definition observe_reply :: "transcript \<Rightarrow> transcript" where
  "observe_reply t =
     (let p = tr_pending t in
      case address_frame_length p of
        None \<Rightarrow> t
      | Some len \<Rightarrow>
          if bad_frame p len REPLY_HEADER then give_up p len t
          else (enter Complete t)\<lparr>tr_app_backend_to_client :=
                 tr_app_backend_to_client t + length (drop (nat len) p)\<rparr>)"

definition observe :: "bool \<Rightarrow> string \<Rightarrow> transcript \<Rightarrow> transcript" where
  "observe from_client data t =
     (if data = [] then t
      else
        let t = (if from_client then t\<lparr>tr_client_to_backend := tr_client_to_backend t + length data\<rparr>
                 else t\<lparr>tr_backend_to_client := tr_backend_to_client t + length data\<rparr>) in
        if tr_state t = Complete then
          (if from_client then t\<lparr>tr_app_client_to_backend := tr_app_client_to_backend t + length data\<rparr>
           else t\<lparr>tr_app_backend_to_client := tr_app_backend_to_client t + length data\<rparr>)
        else if tr_state t = Invalid then t
        else if from_client \<noteq> (tr_state t \<in> {Client_greeting, Client_request}) then invalidate t
        else
          let t = t\<lparr>tr_pending := tr_pending t @ data\<rparr> in
          case tr_state t of
            Client_greeting \<Rightarrow> observe_greeting t
          | Server_method \<Rightarrow> observe_method t
          | Client_request \<Rightarrow> observe_request t
          | _ \<Rightarrow> observe_reply t)"

definition server_control_write_limit :: "string \<Rightarrow> transcript \<Rightarrow> nat" where
  "server_control_write_limit data t =
     (if data = [] \<or> tr_state t \<in> {Complete, Invalid} then 0
      else if tr_state t = Server_method then min (length data) (2 - length (tr_pending t))
      else if tr_state t \<noteq> Server_reply then 0
      else
        let combined = tr_pending t @ data in
        if length combined < 4 then length data
        else (case address_frame_length combined of
            None \<Rightarrow> min (length data) (5 - length (tr_pending t))
          | Some len \<Rightarrow> if len < 0 then 0 else min (length data) (nat (len - int (length (tr_pending t))))))"

section \<open>The transcript keeps its shape\<close>

text \<open>Between two calls the pending bytes are a proper part of what the state waits for.\<close>

definition waiting :: "transcript \<Rightarrow> bool" where
  "waiting t \<longleftrightarrow> (case tr_state t of
     Client_greeting \<Rightarrow> length (tr_pending t) < 2 \<or> length (tr_pending t) < 2 + byte_at (tr_pending t) 1
   | Server_method \<Rightarrow> length (tr_pending t) < 2
   | Client_request \<Rightarrow> (\<forall>len. address_frame_length (tr_pending t) = Some len \<longrightarrow> int (length (tr_pending t)) < len)
   | Server_reply \<Rightarrow> (\<forall>len. address_frame_length (tr_pending t) = Some len \<longrightarrow> int (length (tr_pending t)) < len)
   | _ \<Rightarrow> tr_pending t = [])"

lemma waiting_new [simp]: "waiting transcript_new"
  by (simp add: waiting_def transcript_new_def)

lemma frame_length_Nil [simp]: "address_frame_length [] = None"
  by (simp add: address_frame_length_def)

lemmas observing = observe_greeting_def observe_method_def observe_request_def observe_reply_def
  invalidate_def enter_def bad_frame_def give_up_def Let_def

lemma waiting_observe: "waiting t \<Longrightarrow> waiting (observe from_client data t)"
  by (cases "tr_state t") (auto simp: waiting_def observe_def observing split: option.splits)

text \<open>The length of a frame is settled by a prefix that shows it.\<close>

lemma frame_length_extend: "address_frame_length p = Some len \<Longrightarrow> address_frame_length (p @ q) = Some len"
  by (simp add: address_frame_length_def byte_at_def nth_append split: if_splits)

lemma frame_length_bounds: "address_frame_length p = Some len \<Longrightarrow> len = - 1 \<or> 7 \<le> len"
  by (auto simp: address_frame_length_def split: if_splits)


section \<open>Held responses\<close>

text \<open>A write to the client within the limit passes on no byte of the tunnel.\<close>

lemma app_unless_complete:
  "tr_state t \<notin> {Complete, Server_reply} \<Longrightarrow>
     tr_app_backend_to_client (observe from_client data t) = tr_app_backend_to_client t"
  by (cases "tr_state t") (auto simp: observe_def observing split: option.splits)

lemma app_from_client:
  "tr_app_backend_to_client (observe True data t) = tr_app_backend_to_client t"
  by (cases "tr_state t") (auto simp: observe_def observing split: option.splits)

lemma reply_app:
  assumes "\<And>len. address_frame_length (tr_pending t) = Some len \<Longrightarrow> int (length (tr_pending t)) \<le> max len 0"
  shows "tr_app_backend_to_client (observe_reply t) = tr_app_backend_to_client t"
  using assms by (auto simp: observing split: option.splits)

lemma held_write:
  assumes "waiting t" and "n \<le> server_control_write_limit data t"
  shows "tr_app_backend_to_client (observe False (take n data) t) = tr_app_backend_to_client t"
proof (cases "tr_state t = Server_reply \<and> take n data \<noteq> []")
  case True
  let ?p = "tr_pending t @ take n data"
  have "int (length ?p) \<le> max len 0" if len: "address_frame_length ?p = Some len" for len
  proof -
    have "address_frame_length (tr_pending t @ data) = Some len"
      using frame_length_extend [OF len, of "drop n data"] by simp
    moreover from this have "\<not> length (tr_pending t @ data) < 4"
      by (simp add: address_frame_length_def split: if_splits)
    ultimately show ?thesis using assms(2) True
      by (auto simp: server_control_write_limit_def Let_def split: if_splits)
  qed
  then show ?thesis using True by (subst observe_def) (simp add: Let_def, subst reply_app, simp_all)
next
  case False
  consider "tr_state t \<notin> {Complete, Server_reply}" | "take n data = []"
    using False assms(2) by (cases "tr_state t = Complete") (auto simp: server_control_write_limit_def)
  then show ?thesis
  proof cases
    case 1
    then show ?thesis by (rule app_unless_complete)
  qed (simp add: observe_def)
qed


text \<open>
  A held relay is not stuck: while the server has something to say in the handshake, some of it may
  be written, until the state is one in which only the tunnel speaks, or the frame has an address
  type that does not exist.
\<close>

lemma held_write_progress:
  assumes "waiting t" and "tr_state t \<in> {Server_method, Server_reply}" and "data \<noteq> []"
    and "address_frame_length (tr_pending t @ data) \<noteq> Some (- 1)"
  shows "0 < server_control_write_limit data t"
proof (cases "address_frame_length (tr_pending t @ data)")
  case None
  then have "length (tr_pending t @ data) < 5"
    by (simp add: address_frame_length_def split: if_splits)
  then show ?thesis using assms None by (auto simp: server_control_write_limit_def waiting_def Let_def)
next
  case (Some len)
  then have len: "7 \<le> len" using frame_length_bounds assms(4) by auto
  have "int (length (tr_pending t)) < len" if "tr_state t = Server_reply"
  proof (cases "address_frame_length (tr_pending t)")
    case None
    then have "length (tr_pending t) < 5" by (simp add: address_frame_length_def split: if_splits)
    then show ?thesis using len by simp
  next
    case (Some len')
    with frame_length_extend [OF this, of data] show ?thesis
      using assms(1) that \<open>address_frame_length (tr_pending t @ data) = Some len\<close> by (simp add: waiting_def)
  qed
  then show ?thesis using assms Some len by (auto simp: server_control_write_limit_def waiting_def Let_def)
qed

text \<open>
  What may reach the two ends of a stream while the handshake lasts, said of the bytes alone: \<open>C\<close> is
  what was written to the backend and \<open>B\<close> what was written to the client. The client has at most the
  two bytes of the method choice and then one reply frame, or a beginning of it; the former only
  after a whole greeting, the latter only after a whole CONNECT request behind it.
\<close>

definition greeting :: "string \<Rightarrow> bool" where
  "greeting g \<longleftrightarrow> 2 \<le> length g \<and> byte_at g 0 = 5 \<and> 1 \<le> byte_at g 1 \<and> length g = 2 + byte_at g 1"

definition connect_request :: "string \<Rightarrow> bool" where
  "connect_request q \<longleftrightarrow> address_frame_length q = Some (int (length q)) \<and> take 3 q = CONNECT_HEADER"

definition reply_part :: "string \<Rightarrow> bool" where
  "reply_part f \<longleftrightarrow> (\<forall>len. address_frame_length f = Some len \<longrightarrow> int (length f) \<le> len)"

definition handshake_only :: "string \<Rightarrow> string \<Rightarrow> bool" where
  "handshake_only C B \<longleftrightarrow> (\<exists>m f. B = m @ f \<and> length m \<le> 2 \<and> reply_part f \<and>
     (m \<noteq> [] \<longrightarrow> (\<exists>g rest. C = g @ rest \<and> greeting g)) \<and>
     (f \<noteq> [] \<longrightarrow> length m = 2 \<and> (\<exists>g q rest. C = g @ q @ rest \<and> greeting g \<and> connect_request q)))"

lemma reply_part_Nil [simp]: "reply_part []"
  by (simp add: reply_part_def)

text \<open>A handshake brings the client less than 265 bytes.\<close>

lemma reply_part_length: "reply_part f \<Longrightarrow> length f \<le> 262"
proof (cases "address_frame_length f")
  case None
  then show ?thesis by (auto simp: address_frame_length_def split: if_splits)
next
  case (Some len)
  moreover have "ord (f ! 4) \<le> 255" using ord_less_256 [of "f ! 4"] by linarith
  with Some have "len \<le> 262"
    by (auto simp: address_frame_length_def byte_at_def split: if_splits)
  moreover assume "reply_part f"
  ultimately show ?thesis by (simp add: reply_part_def)
qed

lemma handshake_only_length: "handshake_only C B \<Longrightarrow> length B \<le> 264"
  using reply_part_length by (fastforce simp: handshake_only_def)

lemma handshake_only_more: "handshake_only C B \<Longrightarrow> handshake_only (C @ d) B"
  unfolding handshake_only_def by (elim exE conjE, intro exI conjI) (assumption | (simp; metis append.assoc))+

lemma handshake_only_method:
  "length B \<le> 2 \<Longrightarrow> C = g @ rest \<Longrightarrow> greeting g \<Longrightarrow> handshake_only C B"
  unfolding handshake_only_def by (intro exI [of _ B] exI [of _ "[]"]) auto

lemma handshake_only_reply:
  "length m = 2 \<Longrightarrow> C = g @ q @ rest \<Longrightarrow> greeting g \<Longrightarrow> connect_request q \<Longrightarrow> reply_part f \<Longrightarrow> handshake_only C (m @ f)"
  unfolding handshake_only_def by (intro exI [of _ m] exI [of _ f]) auto

text \<open>What the state of the observer says about the bytes so far.\<close>

definition said :: "string \<Rightarrow> string \<Rightarrow> transcript \<Rightarrow> bool" where
  "said C B t \<longleftrightarrow> (case tr_state t of
     Client_greeting \<Rightarrow> B = [] \<and> C = tr_pending t
   | Server_method \<Rightarrow> greeting C \<and> B = tr_pending t
   | Client_request \<Rightarrow> (\<exists>g. C = g @ tr_pending t \<and> greeting g) \<and> length B = 2
   | Server_reply \<Rightarrow> (\<exists>g q m. C = g @ q \<and> greeting g \<and> connect_request q \<and> B = m @ tr_pending t \<and> length m = 2)
   | _ \<Rightarrow> handshake_only C B)"

lemma said_new [simp]: "said C B transcript_new \<longleftrightarrow> C = [] \<and> B = []"
  by (auto simp: said_def transcript_new_def)

lemma waiting_reply_part: "waiting t \<Longrightarrow> tr_state t = Server_reply \<Longrightarrow> reply_part (tr_pending t)"
  by (auto simp: waiting_def reply_part_def)

lemma said_handshake:
  assumes "said C B t" and "waiting t"
  shows "handshake_only C B"
proof (cases "tr_state t")
  case Client_greeting
  then show ?thesis using assms(1) by (auto simp: said_def handshake_only_def)
next
  case Server_method
  then show ?thesis using assms handshake_only_method [of "tr_pending t" C C "[]"]
    by (simp add: said_def waiting_def)
next
  case Client_request
  then show ?thesis using assms(1) by (auto simp: said_def intro: handshake_only_method)
next
  case Server_reply
  then obtain g q m where "C = g @ q" "greeting g" "connect_request q" "B = m @ tr_pending t" "length m = 2"
    using assms(1) by (auto simp: said_def)
  then show ?thesis
    using handshake_only_reply [of m C g q "[]"] waiting_reply_part [OF assms(2) Server_reply] by simp
qed (use assms(1) in \<open>simp_all add: said_def\<close>)

text \<open>Bytes written to the backend, and bytes written to the client within the limit, keep it so.\<close>

lemma observe_next:
  "data \<noteq> [] \<Longrightarrow> tr_state t = Client_greeting \<Longrightarrow>
     observe True data t = observe_greeting (t\<lparr>tr_client_to_backend := tr_client_to_backend t + length data,
       tr_pending := tr_pending t @ data\<rparr>)"
  "data \<noteq> [] \<Longrightarrow> tr_state t = Client_request \<Longrightarrow>
     observe True data t = observe_request (t\<lparr>tr_client_to_backend := tr_client_to_backend t + length data,
       tr_pending := tr_pending t @ data\<rparr>)"
  "data \<noteq> [] \<Longrightarrow> tr_state t = Server_method \<Longrightarrow>
     observe False data t = observe_method (t\<lparr>tr_backend_to_client := tr_backend_to_client t + length data,
       tr_pending := tr_pending t @ data\<rparr>)"
  "data \<noteq> [] \<Longrightarrow> tr_state t = Server_reply \<Longrightarrow>
     observe False data t = observe_reply (t\<lparr>tr_backend_to_client := tr_backend_to_client t + length data,
       tr_pending := tr_pending t @ data\<rparr>)"
  by (simp_all add: observe_def Let_def)

lemma observe_else:
  "tr_state t \<in> {Server_method, Server_reply} \<Longrightarrow> data \<noteq> [] \<Longrightarrow> tr_state (observe True data t) = Invalid"
  "tr_state t \<in> {Complete, Invalid} \<Longrightarrow> tr_state (observe c data t) = tr_state t"
  by (auto simp: observe_def Let_def invalidate_def)

lemma said_greeting:
  assumes "tr_state t = Client_greeting"
  shows "said (tr_pending t) [] (observe_greeting t)"
  using assms by (auto simp: observing said_def handshake_only_def greeting_def split: if_splits)

lemma said_request:
  assumes "tr_state t = Client_request" "greeting g" "length B = 2"
  shows "said (g @ tr_pending t) B (observe_request t)"
proof -
  have "handshake_only (g @ tr_pending t) B" using assms by (auto intro: handshake_only_method)
  moreover have "address_frame_length p = Some len \<Longrightarrow> \<not> bad_frame p len CONNECT_HEADER \<Longrightarrow>
      int (length p) = len \<Longrightarrow> connect_request p" for p len
    by (simp add: connect_request_def bad_frame_def)
  ultimately show ?thesis using assms
    by (cases "address_frame_length (tr_pending t)")
      (auto simp: observe_request_def said_def give_up_def invalidate_def enter_def Let_def)
qed

lemma said_method:
  assumes "tr_state t = Server_method" "greeting C" "length (tr_pending t) \<le> 2"
  shows "said C (tr_pending t) (observe_method t)"
  using assms handshake_only_method [of "tr_pending t" C C "[]"]
  by (auto simp: observe_method_def said_def invalidate_def enter_def Let_def)

lemma said_reply:
  assumes "tr_state t = Server_reply" "greeting g" "connect_request q" "length m = 2"
    and "reply_part (tr_pending t)"
  shows "said (g @ q) (m @ tr_pending t) (observe_reply t)"
proof -
  have "handshake_only (g @ q) (m @ tr_pending t)"
    using handshake_only_reply [of m "g @ q" g q "[]"] assms by simp
  then show ?thesis using assms
    by (cases "address_frame_length (tr_pending t)")
      (auto simp: observe_reply_def said_def give_up_def invalidate_def enter_def Let_def)
qed

lemma said_client:
  assumes "said C B t" and "waiting t"
  shows "said (C @ d) B (observe True d t)"
proof (cases "d = []")
  case False
  show ?thesis
  proof (cases "tr_state t")
    case Client_greeting
    then show ?thesis using assms(1) False said_greeting
        [of "t\<lparr>tr_client_to_backend := tr_client_to_backend t + length d, tr_pending := tr_pending t @ d\<rparr>"]
      by (simp add: said_def [of C] observe_next)
  next
    case Client_request
    then obtain g where "C = g @ tr_pending t" "greeting g" "length B = 2"
      using assms(1) by (auto simp: said_def)
    then show ?thesis using Client_request False said_request
        [of "t\<lparr>tr_client_to_backend := tr_client_to_backend t + length d, tr_pending := tr_pending t @ d\<rparr>" g B]
      by (simp add: observe_next)
  qed (use handshake_only_more [OF said_handshake [OF assms], of d] False in
      \<open>simp_all add: said_def [of _ _ "observe _ _ _"] observe_else\<close>)
qed (use assms in \<open>simp add: observe_def\<close>)

lemma written_reply_part:
  assumes "n \<le> server_control_write_limit data t" and "tr_state t = Server_reply" and "take n data \<noteq> []"
  shows "reply_part (tr_pending t @ take n data)"
  unfolding reply_part_def
proof (intro allI impI)
  fix len assume len: "address_frame_length (tr_pending t @ take n data) = Some len"
  have "address_frame_length (tr_pending t @ data) = Some len"
    using frame_length_extend [OF len, of "drop n data"] by simp
  moreover from this have "\<not> length (tr_pending t @ data) < 4"
    by (simp add: address_frame_length_def split: if_splits)
  ultimately show "int (length (tr_pending t @ take n data)) \<le> len" using assms
    by (auto simp: server_control_write_limit_def Let_def split: if_splits)
qed

lemma said_server:
  assumes "said C B t" and "waiting t" and "n \<le> server_control_write_limit data t"
  shows "said C (B @ take n data) (observe False (take n data) t)"
proof (cases "take n data = []")
  case False
  then have "n \<noteq> 0" by auto
  then consider "tr_state t = Server_method" | "tr_state t = Server_reply"
    using assms(3) by (auto simp: server_control_write_limit_def split: if_splits)
  then show ?thesis
  proof cases
    case 1
    have "length (tr_pending t @ take n data) \<le> 2"
      using 1 assms(2,3) by (auto simp: server_control_write_limit_def waiting_def split: if_splits)
    then show ?thesis using 1 assms(1) False said_method
        [of "t\<lparr>tr_backend_to_client := tr_backend_to_client t + length (take n data), tr_pending := tr_pending t @ take n data\<rparr>" C]
      by (simp add: said_def [of C B] observe_next)
  next
    case 2
    then obtain g q m where C: "C = g @ q" "greeting g" "connect_request q" "B = m @ tr_pending t" "length m = 2"
      using assms(1) by (auto simp: said_def)
    then show ?thesis using 2 False written_reply_part [OF assms(3) 2 False] said_reply
        [of "t\<lparr>tr_backend_to_client := tr_backend_to_client t + length (take n data), tr_pending := tr_pending t @ take n data\<rparr>" g q m]
      by (simp add: observe_next)
  qed
qed (use assms in \<open>auto simp: observe_def\<close>)

text \<open>Nothing is counted that was not written.\<close>

lemma observe_counts:
  "tr_client_to_backend (observe c data t) = tr_client_to_backend t + (if c then length data else 0)"
  "tr_backend_to_client (observe c data t) = tr_backend_to_client t + (if c then 0 else length data)"
  by (cases "tr_state t"; auto simp: observe_def observing split: option.splits)+

end
