(* ===== verification/Frontend.thy ===== *)
theory Frontend
  imports Socks Addresses
begin

text \<open>
  The committed frontend, \<open>system/grok-proxy/grok_ms/frontend.py\<close>: the relay between clients and the
  private backend of the one published generation. Every section of code under a lock is one
  definition, a function of the shared state; a relation interleaves the threads: one holder of the
  transition lock, the accept loop, and one worker per stream. What the kernel answers (clients,
  bytes, failures) and when a wait runs into its deadline are choices of the environment; a step a
  worker makes between two locked sections is invisible to the other threads and belongs to the
  section after it.
\<close>

section \<open>Generations\<close>

record committed_generation =
  cg_generation :: int
  cg_backend_id :: string
  cg_backend_host :: string
  cg_backend_port :: int
  cg_contract_digest :: string

definition bounded_int :: "int \<Rightarrow> string \<Rightarrow> int \<Rightarrow> int \<Rightarrow> int result" where
  "bounded_int v name lo hi =
     (if lo \<le> v \<and> v \<le> hi then Inr v else raise ValueError (name @ '' must be an integer in range''))"

definition committed_generation_new :: "int \<Rightarrow> string \<Rightarrow> string \<Rightarrow> int \<Rightarrow> string \<Rightarrow> committed_generation result" where
  "committed_generation_new generation backend_id backend_host backend_port contract_digest =
     bindE (bounded_int generation ''generation'' 1 (2 ^ 63 - 1)) (\<lambda>_.
     thenE (raise_if (backend_id = [] \<or> length backend_id > 256 \<or> CHR 0x00 \<in> set backend_id)
       ValueError ''backend_id must be a non-empty bounded string'')
    (bindE (numeric_loopback backend_host ''backend_host'') (\<lambda>(host, ipv6).
     bindE (bounded_int backend_port ''backend_port'' 1 65535) (\<lambda>_.
     thenE (raise_if (length contract_digest \<noteq> 64 \<or> \<not> list_all is_hex contract_digest)
       ValueError ''contract_digest must be a lowercase SHA-256 digest'')
       (Inr \<lparr>cg_generation = generation, cg_backend_id = backend_id, cg_backend_host = host,
          cg_backend_port = backend_port, cg_contract_digest = contract_digest\<rparr>)))))"

type_synonym endpoint = "string \<times> int"

definition generation_endpoint :: "committed_generation \<Rightarrow> endpoint" where
  "generation_endpoint g = (cg_backend_host g, cg_backend_port g)"

section \<open>Streams\<close>

text \<open>The locals of \<open>_relay\<close>: the bytes still to be written, which ends may be read, which are shut.\<close>

record relay =
  rl_to_client :: string
  rl_to_upstream :: string
  rl_client_open :: bool
  rl_upstream_open :: bool
  rl_client_shut :: bool
  rl_upstream_shut :: bool
  rl_buffered :: int

definition relay_new :: relay where
  "relay_new = \<lparr>rl_to_client = [], rl_to_upstream = [], rl_client_open = True, rl_upstream_open = True,
     rl_client_shut = False, rl_upstream_shut = False, rl_buffered = 0\<rparr>"

datatype side = Client | Upstream

text \<open>Where the worker of a stream is in \<open>_stream_worker\<close>.\<close>

datatype worker = W_attach | W_connect | W_relay relay | W_granted relay side nat
  | W_relay_end int | W_close | W_finish | W_done

record stream =
  sm_id :: nat
  sm_generation :: committed_generation
  sm_peer :: "endpoint option"
  sm_frontend :: "endpoint option"
  sm_upstream :: bool
  sm_revoked :: bool
  sm_done :: bool
  sm_transcript :: transcript
  sm_worker :: worker

definition stream_new :: "committed_generation \<Rightarrow> nat \<Rightarrow> endpoint option \<Rightarrow> endpoint option \<Rightarrow> stream" where
  "stream_new g i peer front = \<lparr>sm_id = i, sm_generation = g, sm_peer = peer, sm_frontend = front,
     sm_upstream = False, sm_revoked = False, sm_done = False, sm_transcript = transcript_new, sm_worker = W_attach\<rparr>"

definition attach_upstream :: "stream \<Rightarrow> stream result" where
  "attach_upstream s =
     thenE (raise_if (sm_revoked s) GenerationRevoked ''generation was revoked during backend connect'')
       (Inr (s\<lparr>sm_upstream := True\<rparr>))"

definition observe_write :: "bool \<Rightarrow> string \<Rightarrow> stream \<Rightarrow> stream" where
  "observe_write from_client data s = s\<lparr>sm_transcript := observe from_client data (sm_transcript s)\<rparr>"

definition stream_revoke :: "stream \<Rightarrow> bool \<times> stream" where
  "stream_revoke s = (if sm_revoked s then (False, s) else (True, s\<lparr>sm_revoked := True\<rparr>))"

record qualification_stream =
  qs_stream_id :: nat
  qs_generation :: int
  qs_socks_state :: socks_state
  qs_client_to_backend :: nat
  qs_backend_to_client :: nat
  qs_app_client_to_backend :: nat
  qs_app_backend_to_client :: nat

definition qualification_snapshot :: "stream \<Rightarrow> qualification_stream" where
  "qualification_snapshot s = (let t = sm_transcript s in
     \<lparr>qs_stream_id = sm_id s, qs_generation = cg_generation (sm_generation s), qs_socks_state = tr_state t,
      qs_client_to_backend = tr_client_to_backend t, qs_backend_to_client = tr_backend_to_client t,
      qs_app_client_to_backend = tr_app_client_to_backend t,
      qs_app_backend_to_client = tr_app_backend_to_client t\<rparr>)"

section \<open>The shared state\<close>

record counters =
  co_buffered :: int
  co_peak_buffered :: int
  co_peak_active :: nat
  co_accepted :: nat
  co_connected :: nat
  co_client_to_backend :: nat
  co_backend_to_client :: nat
  co_completed :: nat
  co_revoked :: nat
  co_rejected_uncommitted :: nat
  co_rejected_overload :: nat
  co_connect_failures :: nat

record frontend =
  fe_listen_host :: string
  fe_ipv6 :: bool
  fe_listen_port :: int
  fe_backlog :: int
  fe_max_streams :: int
  fe_per_stream :: int
  fe_total :: int
  fe_io_chunk :: int
  fe_listener :: bool
  fe_bound :: "endpoint option"
  fe_started :: bool
  fe_closing :: bool
  fe_closed :: bool
  fe_accepting :: bool
  fe_active :: "committed_generation option"
  fe_last :: int
  fe_streams :: "nat list"
  fe_next_stream_id :: nat
  fe_idle_sequence :: nat
  fe_idle_epoch :: nat
  fe_admission_epoch :: nat
  fe_observed_epoch :: nat
  fe_barrier :: bool
  fe_quiesce_epoch :: nat
  fe_hold :: bool
  fe_counters :: counters
  fe_object :: "nat \<Rightarrow> stream"

text \<open>\<open>_streams\<close> are the ids of the registered stream objects; an id never given has an object at rest.\<close>

definition no_generation :: committed_generation where
  "no_generation = \<lparr>cg_generation = 0, cg_backend_id = [], cg_backend_host = [], cg_backend_port = 0, cg_contract_digest = []\<rparr>"

definition at_rest :: stream where
  "at_rest = (stream_new no_generation 0 None None)\<lparr>sm_done := True, sm_worker := W_done\<rparr>"

definition frontend_new :: "string \<Rightarrow> int \<Rightarrow> int \<Rightarrow> int \<Rightarrow> int \<Rightarrow> int option \<Rightarrow> int \<Rightarrow> frontend result" where
  "frontend_new listen_host listen_port backlog max_streams per_stream_buffer_bytes total_buffer_bytes io_chunk_bytes =
     bindE (numeric_loopback listen_host ''listen_host'') (\<lambda>(host, ipv6).
     bindE (bounded_int listen_port ''listen_port'' 0 65535) (\<lambda>port.
     bindE (bounded_int backlog ''backlog'' 1 4096) (\<lambda>backlog.
     bindE (bounded_int max_streams ''max_streams'' 1 65536) (\<lambda>streams.
     bindE (bounded_int per_stream_buffer_bytes ''per_stream_buffer_bytes'' 1 (2 ^ 31 - 1)) (\<lambda>per_stream.
     let minimum_total = streams * per_stream;
         wanted = (case total_buffer_bytes of None \<Rightarrow> minimum_total | Some t \<Rightarrow> t) in
     bindE (bounded_int wanted ''total_buffer_bytes'' minimum_total (2 ^ 63 - 1)) (\<lambda>total.
     bindE (bounded_int io_chunk_bytes ''io_chunk_bytes'' 1 (2 ^ 20)) (\<lambda>chunk.
       Inr \<lparr>fe_listen_host = host, fe_ipv6 = ipv6, fe_listen_port = port, fe_backlog = backlog,
         fe_max_streams = streams, fe_per_stream = per_stream, fe_total = total, fe_io_chunk = chunk,
         fe_listener = False, fe_bound = None, fe_started = False, fe_closing = False, fe_closed = False,
         fe_accepting = False, fe_active = None, fe_last = 0, fe_streams = [], fe_next_stream_id = 1,
         fe_idle_sequence = 0, fe_idle_epoch = 0, fe_admission_epoch = 0, fe_observed_epoch = 0,
         fe_barrier = False, fe_quiesce_epoch = 0, fe_hold = False,
         fe_counters = \<lparr>co_buffered = 0, co_peak_buffered = 0, co_peak_active = 0, co_accepted = 0, co_connected = 0,
           co_client_to_backend = 0, co_backend_to_client = 0, co_completed = 0, co_revoked = 0,
           co_rejected_uncommitted = 0, co_rejected_overload = 0, co_connect_failures = 0\<rparr>,
         fe_object = (\<lambda>_. at_rest)\<rparr>)))))))"

abbreviation on_object :: "nat \<Rightarrow> (stream \<Rightarrow> stream) \<Rightarrow> frontend \<Rightarrow> frontend" where
  "on_object i f fe \<equiv> fe\<lparr>fe_object := (fe_object fe)(i := f (fe_object fe i))\<rparr>"

abbreviation count :: "(counters \<Rightarrow> counters) \<Rightarrow> frontend \<Rightarrow> frontend" where
  "count f fe \<equiv> fe\<lparr>fe_counters := f (fe_counters fe)\<rparr>"

text \<open>\<open>_adjust_buffer\<close>\<close>

definition adjust_buffer :: "int \<Rightarrow> frontend \<Rightarrow> frontend result" where
  "adjust_buffer delta fe =
     (let new = co_buffered (fe_counters fe) + delta in
      if \<not> (0 \<le> new \<and> new \<le> fe_total fe)
      then raise AssertionError ''frontend application buffer accounting escaped bounds''
      else Inr (count (\<lambda>c. c\<lparr>co_buffered := new, co_peak_buffered := max (co_peak_buffered c) new\<rparr>) fe))"


section \<open>Reading the state\<close>

definition frontend_address :: "frontend \<Rightarrow> endpoint result" where
  "frontend_address fe =
     (case fe_bound fe of None \<Rightarrow> raise FrontendClosedError ''frontend has not been started'' | Some a \<Rightarrow> Inr a)"

text \<open>The snapshots of the streams \<open>ids\<close>, sorted by stream id.\<close>

definition snapshots :: "nat list \<Rightarrow> frontend \<Rightarrow> qualification_stream list" where
  "snapshots ids fe = sort_key qs_stream_id (map (\<lambda>i. qualification_snapshot (fe_object fe i)) ids)"

definition qualification_streams :: "frontend \<Rightarrow> qualification_stream list" where
  "qualification_streams fe = snapshots (fe_streams fe) fe"

text \<open>The dict of \<open>qualification_state\<close>: the hold, the accept cursor, the quiesce epoch, the streams.\<close>

definition qualification_state :: "frontend \<Rightarrow> bool \<times> nat \<times> nat \<times> qualification_stream list" where
  "qualification_state fe =
     (fe_hold fe, fe_next_stream_id fe - 1, fe_quiesce_epoch fe, snapshots (fe_streams fe) fe)"

definition qualification_peers :: "frontend \<Rightarrow> (nat \<times> endpoint \<times> endpoint) list result" where
  "qualification_peers fe =
     mapE (\<lambda>i. case (sm_peer (fe_object fe i), sm_frontend (fe_object fe i)) of
         (Some peer, Some front) \<Rightarrow> Inr (sm_id (fe_object fe i), peer, front)
       | _ \<Rightarrow> raise FrontendDrainTimeout ''qualification stream lacks its accepted TCP identity'')
       (fe_streams fe)"

record gauges =
  ga_listener_alive :: bool
  ga_accepting :: bool
  ga_closing :: bool
  ga_committed_generation :: "int option"
  ga_active_streams :: nat
  ga_stream_limit :: int
  ga_backlog_limit :: int
  ga_per_stream_buffer_limit :: int
  ga_total_buffer_limit :: int
  ga_counters :: counters

definition frontend_gauges :: "frontend \<Rightarrow> gauges" where
  "frontend_gauges fe = \<lparr>ga_listener_alive = (fe_listener fe \<and> \<not> fe_closed fe), ga_accepting = fe_accepting fe,
     ga_closing = fe_closing fe, ga_committed_generation = map_option cg_generation (fe_active fe),
     ga_active_streams = length (fe_streams fe), ga_stream_limit = fe_max_streams fe,
     ga_backlog_limit = fe_backlog fe, ga_per_stream_buffer_limit = fe_per_stream fe,
     ga_total_buffer_limit = fe_total fe, ga_counters = fe_counters fe\<rparr>"

section \<open>Transitions\<close>

text \<open>
  The methods that hold the transition lock, cut at every release of the state lock. They share
  their middle: revoke some streams, wait for them, go on.
\<close>

datatype answer = A_unit | A_bool bool | A_generation committed_generation | A_receipt nat nat int
  | A_streams "qualification_stream list"

datatype after = After_commit committed_generation | After_drain | After_revoke
  | After_quiesce committed_generation nat nat | After_qualification_revoke | After_close

datatype transition = T_idle
  | T_revoking "nat list" nat "nat list" after
  | T_waiting "nat list" after
  | T_after bool "nat list" after
  | T_observe nat
  | T_arm committed_generation
  | T_reopen_drain nat nat
  | T_reopen_observe nat
  | T_quiesce_drain committed_generation nat nat
  | T_join bool

datatype flow = Goes transition | Ends "answer result"

datatype operation = Commit committed_generation | Drain | Revoke | Arm | Reopen int | Quiesce int
  | Qualification_revoke "nat list" | Close

definition require_running :: "frontend \<Rightarrow> unit result" where
  "require_running fe =
     raise_if (\<not> fe_started fe \<or> fe_closing fe \<or> fe_closed fe) FrontendClosedError ''frontend is not running''"

definition next_epoch :: "frontend \<Rightarrow> frontend" where
  "next_epoch fe = fe\<lparr>fe_admission_epoch := Suc (fe_admission_epoch fe)\<rparr>"

definition close_gate :: "frontend \<Rightarrow> frontend" where
  "close_gate fe = next_epoch (fe\<lparr>fe_accepting := False, fe_active := None\<rparr>)"

text \<open>A section that may raise: the state it leaves and how the operation goes on.\<close>

abbreviation section_of :: "(frontend \<times> flow) result \<Rightarrow> frontend \<Rightarrow> frontend \<times> flow" where
  "section_of m fe \<equiv> (case m of Inl e \<Rightarrow> (fe, Ends (Inl e)) | Inr x \<Rightarrow> x)"

definition start_frontend :: "endpoint \<Rightarrow> frontend \<Rightarrow> frontend result" where
  "start_frontend bound fe =
     thenE (raise_if (fe_started fe \<or> fe_closing fe \<or> fe_closed fe) FrontendClosedError
       ''frontend cannot be started in its current state'')
     (Inr (fe\<lparr>fe_listener := True, fe_bound := Some bound, fe_started := True\<rparr>))"

definition commit_begin :: "committed_generation \<Rightarrow> frontend \<Rightarrow> frontend \<times> flow" where
  "commit_begin g fe = section_of
     (thenE (require_running fe)
     (thenE (raise_if (cg_generation g \<le> fe_last fe) ValueError ''generation numbers must increase monotonically'')
       (Inr (close_gate fe, Goes (T_revoking (fe_streams fe) 0 (fe_streams fe) (After_commit g)))))) fe"

definition commit_publish :: "committed_generation \<Rightarrow> frontend \<Rightarrow> frontend \<times> flow" where
  "commit_publish g fe = section_of
     (thenE (require_running fe)
       (let fe' = next_epoch (fe\<lparr>fe_active := Some g, fe_last := cg_generation g, fe_accepting := True, fe_barrier := False\<rparr>)
        in Inr (fe', Goes (T_observe (fe_admission_epoch fe'))))) fe"

definition commit_timeout :: "frontend \<Rightarrow> frontend \<times> flow" where
  "commit_timeout fe =
     (close_gate fe, Ends (raise FrontendDrainTimeout ''accept loop did not observe publication before deadline''))"

text \<open>\<open>drain\<close> revokes nothing; \<open>revoke\<close> does.\<close>

definition drain_begin :: "bool \<Rightarrow> frontend \<Rightarrow> frontend \<times> flow" where
  "drain_begin revoking fe =
     (if \<not> fe_started fe \<or> fe_closed fe then (fe, Ends (Inr (A_bool True)))
      else (close_gate fe,
        Goes (if revoking then T_revoking (fe_streams fe) 0 (fe_streams fe) After_revoke
              else T_waiting (fe_streams fe) After_drain)))"

definition arm_begin :: "frontend \<Rightarrow> frontend \<times> flow" where
  "arm_begin fe = section_of
     (thenE (require_running fe)
       (case fe_active fe of
          None \<Rightarrow> raise FrontendDrainTimeout ''qualification arm requires one committed empty frontend''
        | Some g \<Rightarrow>
            thenE (raise_if (\<not> fe_accepting fe \<or> fe_streams fe \<noteq> []) FrontendDrainTimeout
              ''qualification arm requires one committed empty frontend'')
              (Inr (fe, Goes (T_arm g))))) fe"

definition arm_hold :: "committed_generation \<Rightarrow> frontend \<Rightarrow> frontend \<times> flow" where
  "arm_hold g fe =
     (if fe_hold fe then (fe, Ends (raise FrontendDrainTimeout ''qualification response hold is already armed''))
      else (fe\<lparr>fe_hold := True\<rparr>, Ends (Inr (A_generation g))))"

definition qualification_disarm :: "frontend \<Rightarrow> frontend" where
  "qualification_disarm fe = fe\<lparr>fe_hold := False\<rparr>"

definition reopen_begin :: "int \<Rightarrow> frontend \<Rightarrow> frontend \<times> flow" where
  "reopen_begin generation fe = section_of
     (thenE (raise_if (generation < 1) ValueError ''qualification generation is invalid'')
     (thenE (require_running fe)
     (thenE (raise_if (map_option cg_generation (fe_active fe) \<noteq> Some generation) FrontendDrainTimeout
        ''qualification reopen generation is not committed'')
       (if fe_accepting fe then
          thenE (raise_if (fe_barrier fe) FrontendDrainTimeout ''qualification admission state is inconsistent'')
            (Inr (fe, Goes (T_reopen_observe (fe_admission_epoch fe))))
        else
          thenE (raise_if (\<not> fe_barrier fe \<or> fe_streams fe \<noteq> []) FrontendDrainTimeout
            ''qualification reopen requires one quiesced empty gate'')
            (let fe' = next_epoch fe
             in Inr (fe', Goes (T_reopen_drain (fe_idle_sequence fe) (fe_admission_epoch fe')))))))) fe"

text \<open>The accept loop has seen the epoch and found the backlog empty since.\<close>

definition backlog_idle :: "nat \<Rightarrow> nat \<Rightarrow> frontend \<Rightarrow> bool" where
  "backlog_idle before epoch fe \<longleftrightarrow>
     fe_observed_epoch fe = epoch \<and> before < fe_idle_sequence fe \<and> fe_idle_epoch fe = epoch"

definition reopen_open :: "frontend \<Rightarrow> frontend \<times> flow" where
  "reopen_open fe =
     (let fe' = next_epoch (fe\<lparr>fe_barrier := False, fe_accepting := True\<rparr>)
      in (fe', Goes (T_reopen_observe (fe_admission_epoch fe'))))"

definition quiesce_begin :: "int \<Rightarrow> frontend \<Rightarrow> frontend \<times> flow" where
  "quiesce_begin generation fe = section_of
     (thenE (require_running fe)
       (case fe_active fe of
          None \<Rightarrow> raise FrontendDrainTimeout ''qualification quiesce generation is not committed''
        | Some g \<Rightarrow>
            thenE (raise_if (cg_generation g \<noteq> generation) FrontendDrainTimeout
              ''qualification quiesce generation is not committed'')
            (let fe' = (close_gate fe)\<lparr>fe_barrier := True\<rparr>
             in Inr (fe', Goes (T_revoking (fe_streams fe) 0 (fe_streams fe)
                  (After_quiesce g (fe_admission_epoch fe') (fe_idle_sequence fe))))))) fe"

definition quiesce_end :: "committed_generation \<Rightarrow> frontend \<Rightarrow> frontend \<times> flow" where
  "quiesce_end g fe =
     (if fe_streams fe \<noteq> [] then
        (fe, Ends (raise FrontendDrainTimeout ''qualification streams reappeared while admission was closed''))
      else
        (let fe' = fe\<lparr>fe_quiesce_epoch := Suc (fe_quiesce_epoch fe), fe_active := Some g\<rparr>
         in (fe', Ends (Inr (A_receipt (fe_next_stream_id fe - 1) (fe_quiesce_epoch fe') (cg_generation g))))))"

definition qualification_revoke_begin :: "nat list \<Rightarrow> frontend \<Rightarrow> frontend \<times> flow" where
  "qualification_revoke_begin expected fe = section_of
     (thenE (raise_if (expected = [] \<or> 0 \<in> set expected) ValueError ''expected qualification stream IDs are invalid'')
     (thenE (require_running fe)
     (thenE (raise_if (set (fe_streams fe) \<noteq> set expected) FrontendDrainTimeout
        ''qualification active stream identity changed before revoke'')
       (Inr (close_gate fe, Goes (T_revoking (fe_streams fe) 0 (fe_streams fe) After_qualification_revoke)))))) fe"

definition close_begin :: "frontend \<Rightarrow> frontend \<times> flow" where
  "close_begin fe =
     (if fe_closed fe then (fe, Ends (Inr A_unit))
      else ((close_gate fe)\<lparr>fe_closing := True, fe_barrier := False, fe_listener := False\<rparr>,
        Goes (T_revoking (fe_streams fe) 0 (fe_streams fe) After_close)))"

definition close_end :: "bool \<Rightarrow> bool \<Rightarrow> frontend \<Rightarrow> frontend \<times> flow" where
  "close_end streams_stopped accept_stopped fe =
     (fe\<lparr>fe_closed := (fe_closed fe \<or> (streams_stopped \<and> accept_stopped \<and> fe_streams fe = []))\<rparr>,
      Ends (if \<not> streams_stopped \<or> \<not> accept_stopped
        then raise FrontendDrainTimeout ''frontend resources did not stop before close deadline'' else Inr A_unit))"

definition begin_method :: "operation \<Rightarrow> frontend \<Rightarrow> frontend \<times> flow" where
  "begin_method m fe = (case m of
     Commit g \<Rightarrow> commit_begin g fe
   | Drain \<Rightarrow> drain_begin False fe
   | Revoke \<Rightarrow> drain_begin True fe
   | Arm \<Rightarrow> arm_begin fe
   | Reopen generation \<Rightarrow> reopen_begin generation fe
   | Quiesce generation \<Rightarrow> quiesce_begin generation fe
   | Qualification_revoke expected \<Rightarrow> qualification_revoke_begin expected fe
   | Close \<Rightarrow> close_begin fe)"

text \<open>\<open>_revoke_streams\<close>: one stream after the other, the counter at the end.\<close>

definition revoke_one :: "nat \<Rightarrow> nat \<Rightarrow> frontend \<Rightarrow> nat \<times> frontend" where
  "revoke_one n i fe = (case stream_revoke (fe_object fe i) of
     (new, s) \<Rightarrow> (if new then Suc n else n, on_object i (\<lambda>_. s) fe))"

definition count_revoked :: "nat \<Rightarrow> frontend \<Rightarrow> frontend" where
  "count_revoked n fe = (if n = 0 then fe else count (\<lambda>c. c\<lparr>co_revoked := co_revoked c + n\<rparr>) fe)"

text \<open>What follows the wait for the streams \<open>ids\<close>; \<open>ok\<close> tells whether all of them have stopped.\<close>

definition after_wait :: "bool \<Rightarrow> nat list \<Rightarrow> after \<Rightarrow> frontend \<Rightarrow> frontend \<times> flow" where
  "after_wait ok ids a fe = (case a of
     After_commit g \<Rightarrow>
       if ok then commit_publish g fe
       else (fe, Ends (raise FrontendDrainTimeout ''old-generation streams did not stop before cutover deadline''))
   | After_drain \<Rightarrow> (fe, Ends (Inr (A_bool ok)))
   | After_revoke \<Rightarrow> (fe, Ends (Inr (A_bool ok)))
   | After_quiesce g epoch before \<Rightarrow>
       if ok then (fe, Goes (T_quiesce_drain g epoch before))
       else (fe, Ends (raise FrontendDrainTimeout ''qualification streams did not stop before quiesce deadline''))
   | After_qualification_revoke \<Rightarrow>
       if ok then (fe, Ends (Inr (A_streams (snapshots ids fe))))
       else (fe, Ends (raise FrontendDrainTimeout ''qualification streams did not stop before revoke deadline''))
   | After_close \<Rightarrow> (fe, Goes (T_join ok)))"


text \<open>The check of \<open>qualification_quiesce\<close> before it takes the transition lock.\<close>

definition quiesce_check :: "frontend \<Rightarrow> unit result" where
  "quiesce_check fe =
     raise_if (\<not> fe_hold fe) FrontendDrainTimeout ''qualification quiesce requires an armed response hold''"

section \<open>The accept loop\<close>

text \<open>
  Where the accept thread is: at the top of the loop; in \<open>accept\<close> with the epoch and the permission
  it read; with a client, after a timeout or an error, before it takes the lock again; about to
  reject a client, for overload or because nothing is committed.
\<close>

datatype accept_pc = A_off | A_top | A_listen nat bool | A_client nat bool | A_idle nat | A_failed
  | A_reject bool | A_stopped

definition accept_top :: "frontend \<Rightarrow> frontend \<times> accept_pc" where
  "accept_top fe =
     (fe\<lparr>fe_observed_epoch := fe_admission_epoch fe\<rparr>,
      if \<not> fe_listener fe \<or> fe_closing fe then A_stopped
      else A_listen (fe_admission_epoch fe) (fe_accepting fe))"

definition accept_idle :: "nat \<Rightarrow> frontend \<Rightarrow> frontend" where
  "accept_idle epoch fe =
     (if fe_accepting fe then fe
      else fe\<lparr>fe_idle_sequence := Suc (fe_idle_sequence fe), fe_idle_epoch := epoch\<rparr>)"

definition accept_failed :: "frontend \<Rightarrow> accept_pc" where
  "accept_failed fe = (if fe_closing fe \<or> \<not> fe_listener fe then A_stopped else A_top)"

text \<open>
  Admission of an accepted client: \<open>created\<close> is the stream object's endpoints when it could be made,
  \<open>started\<close> whether its worker thread could be started.
\<close>

definition accept_admit :: "nat \<Rightarrow> bool \<Rightarrow> (endpoint \<times> endpoint) option \<Rightarrow> bool \<Rightarrow> frontend \<Rightarrow> frontend \<times> accept_pc" where
  "accept_admit epoch permitted created started fe =
     (case fe_active fe of
        None \<Rightarrow> (fe, A_reject False)
      | Some g \<Rightarrow>
          if fe_closing fe \<or> \<not> fe_accepting fe \<or> \<not> permitted \<or> epoch \<noteq> fe_admission_epoch fe then (fe, A_reject False)
          else if int (length (fe_streams fe)) \<ge> fe_max_streams fe then (fe, A_reject True)
          else (case created of
              None \<Rightarrow> (fe, A_reject True)
            | Some (peer, front) \<Rightarrow>
                let i = fe_next_stream_id fe; fe = fe\<lparr>fe_next_stream_id := Suc i\<rparr> in
                if \<not> started then (fe, A_reject True)
                else (count (\<lambda>c. c\<lparr>co_accepted := Suc (co_accepted c),
                    co_peak_active := max (co_peak_active c) (Suc (length (fe_streams fe)))\<rparr>)
                  (on_object i (\<lambda>_. stream_new g i (Some peer) (Some front)) (fe\<lparr>fe_streams := fe_streams fe @ [i]\<rparr>)), A_top)))"

definition accept_reject :: "bool \<Rightarrow> frontend \<Rightarrow> frontend" where
  "accept_reject overload fe =
     count (\<lambda>c. if overload then c\<lparr>co_rejected_overload := Suc (co_rejected_overload c)\<rparr>
       else c\<lparr>co_rejected_uncommitted := Suc (co_rejected_uncommitted c)\<rparr>) fe"

section \<open>The workers\<close>

abbreviation go_on :: "nat \<Rightarrow> worker \<Rightarrow> frontend \<Rightarrow> frontend" where
  "go_on i w fe \<equiv> on_object i (\<lambda>s. s\<lparr>sm_worker := w\<rparr>) fe"

text \<open>What connecting comes to: a connection, the revocation noticed on the way, or an \<open>OSError\<close>.\<close>

datatype connecting = Connected | Connect_revoked | Connect_failed

definition connect_failed :: "nat \<Rightarrow> frontend \<Rightarrow> frontend" where
  "connect_failed i fe = go_on i W_close
     (if sm_revoked (fe_object fe i) then fe
      else count (\<lambda>c. c\<lparr>co_connect_failures := Suc (co_connect_failures c)\<rparr>) fe)"

definition worker_attach :: "nat \<Rightarrow> frontend \<Rightarrow> frontend" where
  "worker_attach i fe = (case attach_upstream (fe_object fe i) of
     Inl e \<Rightarrow> go_on i W_close fe
   | Inr s \<Rightarrow> on_object i (\<lambda>_. s\<lparr>sm_worker := W_connect\<rparr>) fe)"

definition worker_connect :: "connecting \<Rightarrow> nat \<Rightarrow> frontend \<Rightarrow> frontend" where
  "worker_connect outcome i fe = (case outcome of
     Connected \<Rightarrow> go_on i (W_relay relay_new) (count (\<lambda>c. c\<lparr>co_connected := Suc (co_connected c)\<rparr>) fe)
   | Connect_revoked \<Rightarrow> go_on i W_close fe
   | Connect_failed \<Rightarrow> connect_failed i fe)"

text \<open>Leaving \<open>_relay\<close>, whether it returned or raised, with what is still in its buffers.\<close>

abbreviation leave_relay :: "nat \<Rightarrow> relay \<Rightarrow> frontend \<Rightarrow> frontend" where
  "leave_relay i r fe \<equiv> go_on i (W_relay_end (rl_buffered r)) fe"

text \<open>\<open>pending[sock]\<close>, \<open>read_open[sock]\<close> and \<open>write_closed[sock]\<close>, and the peer of a socket.\<close>

fun pending :: "side \<Rightarrow> relay \<Rightarrow> string" where
  "pending Client r = rl_to_client r"
| "pending Upstream r = rl_to_upstream r"

fun set_pending :: "side \<Rightarrow> string \<Rightarrow> relay \<Rightarrow> relay" where
  "set_pending Client d r = r\<lparr>rl_to_client := d\<rparr>"
| "set_pending Upstream d r = r\<lparr>rl_to_upstream := d\<rparr>"

fun read_open :: "side \<Rightarrow> relay \<Rightarrow> bool" where
  "read_open Client r = rl_client_open r"
| "read_open Upstream r = rl_upstream_open r"

fun end_reading :: "side \<Rightarrow> relay \<Rightarrow> relay" where
  "end_reading Client r = r\<lparr>rl_client_open := False\<rparr>"
| "end_reading Upstream r = r\<lparr>rl_upstream_open := False\<rparr>"

fun write_closed :: "side \<Rightarrow> relay \<Rightarrow> bool" where
  "write_closed Client r = rl_client_shut r"
| "write_closed Upstream r = rl_upstream_shut r"

fun shut_writing :: "side \<Rightarrow> relay \<Rightarrow> relay" where
  "shut_writing Client r = r\<lparr>rl_client_shut := True\<rparr>"
| "shut_writing Upstream r = r\<lparr>rl_upstream_shut := True\<rparr>"

fun peer_of :: "side \<Rightarrow> side" where
  "peer_of Client = Upstream"
| "peer_of Upstream = Client"

definition close_write :: "side \<Rightarrow> nat \<Rightarrow> relay \<Rightarrow> frontend \<Rightarrow> frontend" where
  "close_write sock i r fe =
     (if write_closed sock r then go_on i (W_relay r) fe
      else if sm_revoked (fe_object fe i) then leave_relay i r fe
      else go_on i (W_relay (shut_writing sock r)) fe)"

text \<open>Reading from \<open>sock\<close>; \<open>available\<close> is what the kernel has, nothing at the end of the stream.\<close>

definition relay_read :: "side \<Rightarrow> string \<Rightarrow> nat \<Rightarrow> relay \<Rightarrow> frontend \<Rightarrow> frontend" where
  "relay_read sock available i r fe =
     (let room = fe_per_stream fe - rl_buffered r; peer = peer_of sock in
      if room = 0 then fe
      else if sm_revoked (fe_object fe i) then leave_relay i r fe
      else
        let data = take (nat (min (fe_io_chunk fe) room)) available in
        if available = [] then
          let r = end_reading sock r in
          if pending peer r = [] then close_write peer i r fe else go_on i (W_relay r) fe
        else
          let r = (set_pending peer (pending peer r @ data) r)\<lparr>rl_buffered := rl_buffered r + int (length data)\<rparr> in
          case adjust_buffer (int (length data)) fe of
            Inl e \<Rightarrow> leave_relay i r fe
          | Inr fe \<Rightarrow> go_on i (W_relay r) fe)"

definition permitted_write :: "side \<Rightarrow> nat \<Rightarrow> relay \<Rightarrow> frontend \<Rightarrow> nat" where
  "permitted_write sock i r fe =
     (if pending sock r = [] then 0
      else if sock \<noteq> Client then length (pending sock r)
      else if \<not> fe_hold fe then length (pending sock r)
      else server_control_write_limit (pending sock r) (sm_transcript (fe_object fe i)))"

text \<open>
  Writing to \<open>sock\<close> what was permitted; the kernel takes \<open>taken\<close> bytes at most. In \<open>_relay\<close> the
  socket call and the sections that count, observe and account what it moved follow each other
  without a release of this worker's own data; here, as in \<open>relay_read\<close>, they are one step.
\<close>

abbreviation sent_data :: "nat \<Rightarrow> nat \<Rightarrow> side \<Rightarrow> relay \<Rightarrow> string" where
  "sent_data limit taken sock r \<equiv> take (min taken limit) (pending sock r)"

definition relay_write :: "side \<Rightarrow> nat \<Rightarrow> nat \<Rightarrow> nat \<Rightarrow> relay \<Rightarrow> frontend \<Rightarrow> frontend" where
  "relay_write sock limit taken i r fe =
     (if sm_revoked (fe_object fe i) then leave_relay i r fe
      else
        let data = sent_data limit taken sock r; sent = length data;
            finish = (\<lambda>r fe. if pending sock r = [] \<and> \<not> read_open (peer_of sock) r
              then close_write sock i r fe else go_on i (W_relay r) fe) in
        if sent = 0 then finish r fe
        else
          let fe = count (\<lambda>c. if sock = Upstream
                then c\<lparr>co_client_to_backend := co_client_to_backend c + sent\<rparr>
                else c\<lparr>co_backend_to_client := co_backend_to_client c + sent\<rparr>) fe;
              fe = on_object i (observe_write (sock = Upstream) data) fe;
              r = (set_pending sock (drop sent (pending sock r)) r)\<lparr>rl_buffered := rl_buffered r - int sent\<rparr> in
          case adjust_buffer (- int sent) fe of
            Inl e \<Rightarrow> leave_relay i r fe
          | Inr fe \<Rightarrow> finish r fe)"

definition relay_end :: "int \<Rightarrow> nat \<Rightarrow> frontend \<Rightarrow> frontend" where
  "relay_end buffered i fe =
     (if buffered = 0 then go_on i W_close fe
      else (case adjust_buffer (- buffered) fe of Inl e \<Rightarrow> go_on i W_close fe | Inr fe \<Rightarrow> go_on i W_close fe))"

definition worker_discard :: "nat \<Rightarrow> frontend \<Rightarrow> frontend" where
  "worker_discard i fe = go_on i W_finish (fe\<lparr>fe_streams := removeAll i (fe_streams fe)\<rparr>)"

definition worker_finish :: "nat \<Rightarrow> frontend \<Rightarrow> frontend" where
  "worker_finish i fe = on_object i (\<lambda>s. s\<lparr>sm_done := True, sm_worker := W_done\<rparr>)
     (count (\<lambda>c. c\<lparr>co_completed := Suc (co_completed c)\<rparr>) fe)"

section \<open>The threads together\<close>

record system =
  sy_fe :: frontend
  sy_transition :: transition
  sy_accept :: accept_pc

text \<open>
  What a step shows: a method was called and is under way, or returned or raised at once; the method
  under way returned or raised; the hold was disarmed; the worker of a stream wrote bytes to a socket.
\<close>

datatype event = Silent | Calls operation | Returns operation "answer result" | Answers "answer result" | Disarms
  | Writes nat side string

abbreviation act :: "frontend \<times> flow \<Rightarrow> system \<Rightarrow> system" where
  "act x s \<equiv> s\<lparr>sy_fe := fst x, sy_transition := (case snd x of Goes t \<Rightarrow> t | Ends _ \<Rightarrow> T_idle)\<rparr>"

abbreviation announces :: "flow \<Rightarrow> event" where
  "announces f \<equiv> (case f of Goes _ \<Rightarrow> Silent | Ends a \<Rightarrow> Answers a)"

abbreviation called :: "operation \<Rightarrow> flow \<Rightarrow> event" where
  "called m f \<equiv> (case f of Goes _ \<Rightarrow> Calls m | Ends a \<Rightarrow> Returns m a)"

definition stopped :: "nat list \<Rightarrow> frontend \<Rightarrow> bool" where
  "stopped ids fe \<longleftrightarrow> (\<forall>i \<in> set ids. sm_done (fe_object fe i))"

text \<open>The holder of the transition lock; a wait ends when its condition holds, or by its deadline.\<close>

inductive transition_step :: "system \<Rightarrow> event \<Rightarrow> system \<Rightarrow> bool" where
  start: "start_frontend bound (sy_fe s) = Inr fe \<Longrightarrow> transition_step s Silent (s\<lparr>sy_fe := fe, sy_accept := A_top\<rparr>)"
| call: "sy_transition s = T_idle \<Longrightarrow> begin_method m (sy_fe s) = x \<Longrightarrow> transition_step s (called m (snd x)) (act x s)"
| refuse: "quiesce_check (sy_fe s) = Inl e \<Longrightarrow> transition_step s (Answers (Inl e)) s"
| disarm: "transition_step s Disarms (s\<lparr>sy_fe := qualification_disarm (sy_fe s)\<rparr>)"
| revoke: "sy_transition s = T_revoking (i # todo) n ids a \<Longrightarrow> revoke_one n i (sy_fe s) = (n', fe) \<Longrightarrow>
    transition_step s Silent (s\<lparr>sy_fe := fe, sy_transition := T_revoking todo n' ids a\<rparr>)"
| revoked: "sy_transition s = T_revoking [] n ids a \<Longrightarrow>
    transition_step s Silent (s\<lparr>sy_fe := count_revoked n (sy_fe s), sy_transition := T_waiting ids a\<rparr>)"
| waited: "sy_transition s = T_waiting ids a \<Longrightarrow> stopped ids (sy_fe s) = ok \<Longrightarrow>
    transition_step s Silent (s\<lparr>sy_transition := T_after ok ids a\<rparr>)"
| follow: "sy_transition s = T_after ok ids a \<Longrightarrow> after_wait ok ids a (sy_fe s) = x \<Longrightarrow>
    transition_step s (announces (snd x)) (act x s)"
| observed: "sy_transition s \<in> {T_observe epoch, T_reopen_observe epoch} \<Longrightarrow> fe_observed_epoch (sy_fe s) = epoch \<Longrightarrow>
    transition_step s (Answers (Inr A_unit)) (s\<lparr>sy_transition := T_idle\<rparr>)"
| unobserved: "sy_transition s = T_observe epoch \<Longrightarrow> fe_observed_epoch (sy_fe s) \<noteq> epoch \<Longrightarrow>
    commit_timeout (sy_fe s) = x \<Longrightarrow> transition_step s (announces (snd x)) (act x s)"
| not_reopened: "sy_transition s = T_reopen_observe epoch \<Longrightarrow> fe_observed_epoch (sy_fe s) \<noteq> epoch \<Longrightarrow>
    transition_step s (Answers (raise FrontendDrainTimeout ''qualification accept loop did not observe reopen''))
      (s\<lparr>sy_transition := T_idle\<rparr>)"
| hold: "sy_transition s = T_arm g \<Longrightarrow> arm_hold g (sy_fe s) = x \<Longrightarrow> transition_step s (announces (snd x)) (act x s)"
| reopen: "sy_transition s = T_reopen_drain before epoch \<Longrightarrow> backlog_idle before epoch (sy_fe s) \<Longrightarrow>
    reopen_open (sy_fe s) = x \<Longrightarrow> transition_step s (announces (snd x)) (act x s)"
| not_drained: "sy_transition s = T_reopen_drain before epoch \<Longrightarrow> \<not> backlog_idle before epoch (sy_fe s) \<Longrightarrow>
    transition_step s (Answers (raise FrontendDrainTimeout ''qualification accept backlog did not drain before reopen''))
      (s\<lparr>sy_transition := T_idle\<rparr>)"
| quiesced: "sy_transition s = T_quiesce_drain g epoch before \<Longrightarrow> backlog_idle before epoch (sy_fe s) \<Longrightarrow>
    quiesce_end g (sy_fe s) = x \<Longrightarrow> transition_step s (announces (snd x)) (act x s)"
| not_quiesced: "sy_transition s = T_quiesce_drain g epoch before \<Longrightarrow> \<not> backlog_idle before epoch (sy_fe s) \<Longrightarrow>
    transition_step s (Answers (raise FrontendDrainTimeout ''qualification accept backlog did not quiesce''))
      (s\<lparr>sy_transition := T_idle\<rparr>)"
| join: "sy_transition s = T_join ok \<Longrightarrow> close_end ok (sy_accept s \<in> {A_off, A_stopped}) (sy_fe s) = x \<Longrightarrow>
    transition_step s (announces (snd x)) (act x s)"

text \<open>The accept thread.\<close>

inductive accept_step :: "system \<Rightarrow> system \<Rightarrow> bool" where
  top: "sy_accept s = A_top \<Longrightarrow> accept_top (sy_fe s) = (fe, pc) \<Longrightarrow> accept_step s (s\<lparr>sy_fe := fe, sy_accept := pc\<rparr>)"
| timeout: "sy_accept s = A_listen epoch permitted \<Longrightarrow> accept_step s (s\<lparr>sy_accept := A_idle epoch\<rparr>)"
| idle: "sy_accept s = A_idle epoch \<Longrightarrow> accept_step s (s\<lparr>sy_fe := accept_idle epoch (sy_fe s), sy_accept := A_top\<rparr>)"
| interrupted: "sy_accept s = A_listen epoch permitted \<Longrightarrow> accept_step s (s\<lparr>sy_accept := A_top\<rparr>)"
| error: "sy_accept s = A_listen epoch permitted \<Longrightarrow> accept_step s (s\<lparr>sy_accept := A_failed\<rparr>)"
| failed: "sy_accept s = A_failed \<Longrightarrow> accept_step s (s\<lparr>sy_accept := accept_failed (sy_fe s)\<rparr>)"
| client: "sy_accept s = A_listen epoch permitted \<Longrightarrow> accept_step s (s\<lparr>sy_accept := A_client epoch permitted\<rparr>)"
| admit: "sy_accept s = A_client epoch permitted \<Longrightarrow> accept_admit epoch permitted created started (sy_fe s) = (fe, pc) \<Longrightarrow>
    accept_step s (s\<lparr>sy_fe := fe, sy_accept := pc\<rparr>)"
| reject: "sy_accept s = A_reject overload \<Longrightarrow>
    accept_step s (s\<lparr>sy_fe := accept_reject overload (sy_fe s), sy_accept := A_top\<rparr>)"

text \<open>The worker of stream \<open>i\<close>; what it writes to a socket can be seen.\<close>

inductive worker_step :: "nat \<Rightarrow> frontend \<Rightarrow> event \<Rightarrow> frontend \<Rightarrow> bool" where
  no_socket: "sm_worker (fe_object fe i) = W_attach \<Longrightarrow> worker_step i fe Silent (connect_failed i fe)"
| attach: "sm_worker (fe_object fe i) = W_attach \<Longrightarrow> worker_step i fe Silent (worker_attach i fe)"
| connect: "sm_worker (fe_object fe i) = W_connect \<Longrightarrow> (outcome = Connect_revoked \<longrightarrow> sm_revoked (fe_object fe i)) \<Longrightarrow>
    worker_step i fe Silent (worker_connect outcome i fe)"
| give_up: "sm_worker (fe_object fe i) \<in> {W_relay r, W_granted r sock limit} \<Longrightarrow> worker_step i fe Silent (leave_relay i r fe)"
| receives: "sm_worker (fe_object fe i) = W_relay r \<Longrightarrow> read_open sock r \<Longrightarrow> worker_step i fe Silent (relay_read sock available i r fe)"
| grant: "sm_worker (fe_object fe i) = W_relay r \<Longrightarrow> \<not> write_closed sock r \<Longrightarrow> 0 < permitted_write sock i r fe \<Longrightarrow>
    worker_step i fe Silent (go_on i (W_granted r sock (permitted_write sock i r fe)) fe)"
| sends: "sm_worker (fe_object fe i) = W_granted r sock limit \<Longrightarrow>
    worker_step i fe (if sm_revoked (fe_object fe i) then Silent else Writes i sock (sent_data limit taken sock r))
      (relay_write sock limit taken i r fe)"
| leave: "sm_worker (fe_object fe i) = W_relay_end buffered \<Longrightarrow> worker_step i fe Silent (relay_end buffered i fe)"
| discard: "sm_worker (fe_object fe i) = W_close \<Longrightarrow> worker_step i fe Silent (worker_discard i fe)"
| finish: "sm_worker (fe_object fe i) = W_finish \<Longrightarrow> worker_step i fe Silent (worker_finish i fe)"

inductive system_step :: "system \<Rightarrow> event \<Rightarrow> system \<Rightarrow> bool" where
  by_method: "transition_step s e s' \<Longrightarrow> system_step s e s'"
| by_accept: "accept_step s s' \<Longrightarrow> system_step s Silent s'"
| by_worker: "worker_step i (sy_fe s) e fe \<Longrightarrow> system_step s e (s\<lparr>sy_fe := fe\<rparr>)"

text \<open>The states of a frontend that \<open>__init__\<close> made.\<close>

inductive reached :: "frontend \<Rightarrow> system \<Rightarrow> bool" for fe0 where
  init: "reached fe0 \<lparr>sy_fe = fe0, sy_transition = T_idle, sy_accept = A_off\<rparr>"
| step: "reached fe0 s \<Longrightarrow> system_step s e s' \<Longrightarrow> reached fe0 s'"

text \<open>The same with what the steps showed, the last first, and the executions in which nobody disarms the hold.\<close>

inductive traced :: "frontend \<Rightarrow> event list \<Rightarrow> system \<Rightarrow> bool" for fe0 where
  init: "traced fe0 [] \<lparr>sy_fe = fe0, sy_transition = T_idle, sy_accept = A_off\<rparr>"
| step: "traced fe0 es s \<Longrightarrow> system_step s e s' \<Longrightarrow> traced fe0 (e # es) s'"

inductive held_run :: "system \<Rightarrow> event list \<Rightarrow> system \<Rightarrow> bool" for s where
  stay: "held_run s [] s"
| more: "held_run s es t \<Longrightarrow> system_step t e u \<Longrightarrow> e \<noteq> Disarms \<Longrightarrow> held_run s (e # es) u"

text \<open>The candidate of the last commit that got past its checks, and the bytes a worker wrote to a socket.\<close>

primrec last_commit :: "event list \<Rightarrow> committed_generation option" where
  "last_commit [] = None"
| "last_commit (e # es) = (case e of Calls (Commit g) \<Rightarrow> Some g | _ \<Rightarrow> last_commit es)"

primrec written :: "nat \<Rightarrow> side \<Rightarrow> event list \<Rightarrow> string" where
  "written i sock [] = []"
| "written i sock (e # es) = written i sock es @
     (case e of Writes j to d \<Rightarrow> if j = i \<and> to = sock then d else [] | _ \<Rightarrow> [])"


section \<open>What a worker changes\<close>

lemma adjust_buffer_Inr:
  "adjust_buffer d fe = Inr fe' \<longleftrightarrow> 0 \<le> co_buffered (fe_counters fe) + d \<and> co_buffered (fe_counters fe) + d \<le> fe_total fe \<and>
     fe' = count (\<lambda>c. c\<lparr>co_buffered := co_buffered (fe_counters fe) + d,
       co_peak_buffered := max (co_peak_buffered c) (co_buffered (fe_counters fe) + d)\<rparr>) fe"
  by (auto simp: adjust_buffer_def Let_def)

text \<open>The steps of a worker change the counters and its own stream, and of that not its identity.\<close>

definition touches :: "nat \<Rightarrow> frontend \<Rightarrow> frontend \<Rightarrow> bool" where
  "touches i fe fe' \<longleftrightarrow>
     fe' = fe\<lparr>fe_counters := fe_counters fe', fe_object := (fe_object fe)(i := fe_object fe' i)\<rparr> \<and>
     sm_id (fe_object fe' i) = sm_id (fe_object fe i) \<and>
     sm_generation (fe_object fe' i) = sm_generation (fe_object fe i) \<and>
     sm_revoked (fe_object fe' i) = sm_revoked (fe_object fe i) \<and>
     sm_done (fe_object fe' i) = sm_done (fe_object fe i) \<and>
     sm_worker (fe_object fe' i) \<notin> {W_finish, W_done}"

lemma touches_refl: "sm_worker (fe_object fe i) \<notin> {W_finish, W_done} \<Longrightarrow> touches i fe fe"
  by (simp add: touches_def)

lemma touches_go_on [simp]: "w \<notin> {W_finish, W_done} \<Longrightarrow> touches i fe (go_on i w fe)"
  by (simp add: touches_def)

lemma touches_close_write [simp]: "touches i fe (close_write sock i r fe)"
  by (simp add: close_write_def)

lemma touches_by:
  assumes "touches i fe1 fe'" and "fe1 = fe\<lparr>fe_counters := c, fe_object := (fe_object fe)(i := s)\<rparr>"
    and "sm_id s = sm_id (fe_object fe i)" "sm_generation s = sm_generation (fe_object fe i)"
    "sm_revoked s = sm_revoked (fe_object fe i)" "sm_done s = sm_done (fe_object fe i)"
  shows "touches i fe fe'"
  using assms(1,3-6) unfolding assms(2) touches_def by simp

lemma touches_counters: "touches i (fe\<lparr>fe_counters := c\<rparr>) fe' \<Longrightarrow> touches i fe fe'"
  by (rule touches_by [where c = c and s = "fe_object fe i"]) simp_all

lemma touches_adjust: "adjust_buffer d fe = Inr fe1 \<Longrightarrow> touches i fe1 fe' \<Longrightarrow> touches i fe fe'"
  unfolding adjust_buffer_Inr by (elim conjE, simp only:, rule touches_counters)

lemma touches_relay_read:
  assumes "sm_worker (fe_object fe i) = W_relay r"
  shows "touches i fe (relay_read sock available i r fe)"
  using touches_refl [of fe i] assms touches_adjust [of _ fe]
  by (auto simp: relay_read_def Let_def split: sum.split)

lemma touches_relay_write: "touches i fe (relay_write sock limit taken i r fe)"
proof -
  define data where "data = take (min taken limit) (pending sock r)"
  define finish where "finish = (\<lambda>r fe. if pending sock r = [] \<and> \<not> read_open (peer_of sock) r
    then close_write sock i r fe else go_on i (W_relay r) fe)"
  have finish: "touches i fe (finish r fe)" for fe r by (simp add: finish_def)
  have counted: "touches i (on_object i (observe_write b d) (count f fe)) fe' \<Longrightarrow> touches i fe fe'" for b d f fe'
    by (erule touches_by [where c = "f (fe_counters fe)" and s = "observe_write b d (fe_object fe i)"])
      (simp_all add: observe_write_def)
  have adjust: "touches i fe1 (case adjust_buffer z fe1 of Inl e \<Rightarrow> leave_relay i r' fe1 | Inr fe \<Rightarrow> finish r' fe)" for z fe1 r'
    using finish touches_adjust [of z fe1] by (auto split: sum.split)
  show ?thesis unfolding relay_write_def Let_def data_def [symmetric] finish_def [symmetric]
    by (simp only: finish touches_go_on counted [OF adjust] insert_iff empty_iff worker.distinct simp_thms split: if_split)
qed

lemma touches_relay_end: "touches i fe (relay_end b i fe)"
  using touches_adjust [of _ fe] by (auto simp: relay_end_def split: sum.split)

lemma touches_attach: "touches i fe (worker_attach i fe)"
  by (auto simp: worker_attach_def attach_upstream_def raise_if_def touches_def)

lemma touches_failed: "touches i fe (connect_failed i fe)"
  by (simp add: connect_failed_def touches_def)

lemma touches_connect: "touches i fe (worker_connect outcome i fe)"
  by (cases outcome) (simp_all add: worker_connect_def touches_failed, simp add: touches_def)

lemma worker_step_touches:
  assumes "worker_step i fe e fe'"
  obtains (work) "touches i fe fe'" "sm_worker (fe_object fe i) \<notin> {W_finish, W_done}"
    | (discard) "sm_worker (fe_object fe i) = W_close" "fe' = worker_discard i fe"
    | (finish) "sm_worker (fe_object fe i) = W_finish" "fe' = worker_finish i fe"
  using assms
proof (cases rule: worker_step.cases)
  case discard
  then show ?thesis using that(2) by blast
next
  case finish
  then show ?thesis using that(3) by blast
qed (rule that(1); auto simp: touches_failed touches_attach touches_connect touches_relay_read
    touches_relay_write touches_relay_end)+


section \<open>Streams and the gate\<close>

text \<open>The registered streams are those whose worker has not let go of them; \<open>done\<close> comes after that.\<close>

definition streams_inv :: "frontend \<Rightarrow> bool" where
  "streams_inv fe \<longleftrightarrow> distinct (fe_streams fe) \<and>
     (\<forall>i. i \<in> set (fe_streams fe) \<longleftrightarrow> sm_worker (fe_object fe i) \<notin> {W_finish, W_done}) \<and>
     (\<forall>i. sm_done (fe_object fe i) \<longleftrightarrow> sm_worker (fe_object fe i) = W_done) \<and>
     (\<forall>i \<ge> fe_next_stream_id fe. sm_worker (fe_object fe i) = W_done)"

definition running :: "frontend \<Rightarrow> bool" where
  "running fe \<longleftrightarrow> fe_started fe \<and> \<not> fe_closing fe \<and> \<not> fe_closed fe"

text \<open>
  An open gate has an active generation; the active generation is the last one and every registered
  stream belongs to it; streams are registered only in the epoch the accept loop has seen.
\<close>

definition gate_inv :: "frontend \<Rightarrow> bool" where
  "gate_inv fe \<longleftrightarrow>
     (fe_accepting fe \<longrightarrow> fe_active fe \<noteq> None) \<and>
     (\<forall>g. fe_active fe = Some g \<longrightarrow> running fe \<and> cg_generation g = fe_last fe \<and>
        (\<forall>i \<in> set (fe_streams fe). sm_generation (fe_object fe i) = g)) \<and>
     (\<forall>i \<in> set (fe_streams fe). cg_generation (sm_generation (fe_object fe i)) \<le> fe_last fe) \<and>
     (fe_accepting fe \<and> fe_streams fe \<noteq> [] \<longrightarrow> fe_observed_epoch fe = fe_admission_epoch fe)"

text \<open>A wait for streams: the gate is shut and every registered stream is among them.\<close>

definition draining :: "nat list \<Rightarrow> after \<Rightarrow> frontend \<Rightarrow> bool" where
  "draining ids a fe \<longleftrightarrow> \<not> fe_accepting fe \<and> fe_active fe = None \<and> set (fe_streams fe) \<subseteq> set ids \<and>
     (case a of
        After_commit g \<Rightarrow> running fe \<and> fe_last fe < cg_generation g
      | After_quiesce g _ _ \<Rightarrow> running fe \<and> cg_generation g = fe_last fe
      | _ \<Rightarrow> True)"

definition transition_inv :: "transition \<Rightarrow> frontend \<Rightarrow> bool" where
  "transition_inv t fe \<longleftrightarrow> (case t of
     T_revoking todo n ids a \<Rightarrow> draining ids a fe \<and> set todo \<subseteq> set ids
   | T_waiting ids a \<Rightarrow> draining ids a fe
   | T_after ok ids a \<Rightarrow> draining ids a fe \<and> (ok \<longrightarrow> stopped ids fe)
   | T_observe epoch \<Rightarrow> fe_accepting fe \<and> fe_admission_epoch fe = epoch
   | T_reopen_drain before epoch \<Rightarrow> \<not> fe_accepting fe \<and> fe_active fe \<noteq> None \<and> fe_streams fe = []
   | T_quiesce_drain g epoch before \<Rightarrow> \<not> fe_accepting fe \<and> fe_active fe = None \<and> fe_streams fe = [] \<and>
       running fe \<and> cg_generation g = fe_last fe
   | T_join ok \<Rightarrow> \<not> fe_accepting fe \<and> fe_active fe = None
   | _ \<Rightarrow> True)"

definition accept_inv :: "accept_pc \<Rightarrow> frontend \<Rightarrow> bool" where
  "accept_inv pc fe \<longleftrightarrow> (case pc of
     A_listen epoch permitted \<Rightarrow> fe_observed_epoch fe = epoch
   | A_client epoch permitted \<Rightarrow> fe_observed_epoch fe = epoch
   | _ \<Rightarrow> True)"

definition system_inv :: "system \<Rightarrow> bool" where
  "system_inv s \<longleftrightarrow> streams_inv (sy_fe s) \<and> gate_inv (sy_fe s) \<and> transition_inv (sy_transition s) (sy_fe s) \<and>
     accept_inv (sy_accept s) (sy_fe s)"

text \<open>A worker leaves the gate alone; streams only go, and what has stopped stays so.\<close>

definition quieter :: "frontend \<Rightarrow> frontend \<Rightarrow> bool" where
  "quieter fe fe' \<longleftrightarrow>
     fe' = fe\<lparr>fe_counters := fe_counters fe', fe_object := fe_object fe', fe_streams := fe_streams fe'\<rparr> \<and>
     set (fe_streams fe') \<subseteq> set (fe_streams fe) \<and>
     (\<forall>i. sm_generation (fe_object fe' i) = sm_generation (fe_object fe i) \<and>
        (sm_done (fe_object fe i) \<longrightarrow> sm_done (fe_object fe' i)))"

lemma quieter_fields:
  assumes "quieter fe fe'"
  shows "fe_accepting fe' = fe_accepting fe" "fe_active fe' = fe_active fe" "fe_last fe' = fe_last fe"
    "fe_observed_epoch fe' = fe_observed_epoch fe" "fe_admission_epoch fe' = fe_admission_epoch fe"
    "running fe' = running fe" "fe_hold fe' = fe_hold fe" "fe_next_stream_id fe' = fe_next_stream_id fe"
    "fe_max_streams fe' = fe_max_streams fe" "fe_per_stream fe' = fe_per_stream fe" "fe_total fe' = fe_total fe"
    "fe_io_chunk fe' = fe_io_chunk fe"
proof -
  obtain c ob l where eq: "fe' = fe\<lparr>fe_counters := c, fe_object := ob, fe_streams := l\<rparr>"
    using assms unfolding quieter_def by blast
  show "fe_accepting fe' = fe_accepting fe" "fe_active fe' = fe_active fe" "fe_last fe' = fe_last fe"
    "fe_observed_epoch fe' = fe_observed_epoch fe" "fe_admission_epoch fe' = fe_admission_epoch fe"
    "running fe' = running fe" "fe_hold fe' = fe_hold fe" "fe_next_stream_id fe' = fe_next_stream_id fe"
    "fe_max_streams fe' = fe_max_streams fe" "fe_per_stream fe' = fe_per_stream fe" "fe_total fe' = fe_total fe"
    "fe_io_chunk fe' = fe_io_chunk fe"
    by (simp_all add: eq running_def)
qed

lemma quieter_keeps:
  assumes "quieter fe fe'"
  shows "gate_inv fe \<Longrightarrow> gate_inv fe'" and "transition_inv t fe \<Longrightarrow> transition_inv t fe'"
    and "accept_inv pc fe \<Longrightarrow> accept_inv pc fe'"
proof -
  note same = quieter_fields [OF assms]
  have sub: "set (fe_streams fe') \<subseteq> set (fe_streams fe)"
    and gen: "sm_generation (fe_object fe' i) = sm_generation (fe_object fe i)"
    and stop: "sm_done (fe_object fe i) \<Longrightarrow> sm_done (fe_object fe' i)" for i
    using assms by (auto simp: quieter_def)
  have none: "fe_streams fe = [] \<Longrightarrow> fe_streams fe' = []" using sub by auto
  show "gate_inv fe \<Longrightarrow> gate_inv fe'" using sub none unfolding gate_inv_def same gen by blast
  have d: "draining ids a fe \<Longrightarrow> draining ids a fe'" for ids a
    using sub unfolding draining_def same by (auto split: after.splits)
  show "transition_inv t fe \<Longrightarrow> transition_inv t fe'"
    using d stop none unfolding transition_inv_def same by (cases t) (auto simp: stopped_def)
  show "accept_inv pc fe \<Longrightarrow> accept_inv pc fe'" unfolding accept_inv_def same .
qed

lemma touches_quieter:
  assumes "touches i fe fe'"
  shows "quieter fe fe'" and "fe_streams fe' = fe_streams fe" and "j \<noteq> i \<Longrightarrow> fe_object fe' j = fe_object fe j"
proof -
  obtain c st where eq: "fe' = fe\<lparr>fe_counters := c, fe_object := (fe_object fe)(i := st)\<rparr>"
    using assms unfolding touches_def by blast
  have st: "sm_generation st = sm_generation (fe_object fe i)" "sm_done st = sm_done (fe_object fe i)"
    using assms by (simp_all add: touches_def eq)
  show "fe_streams fe' = fe_streams fe" and "j \<noteq> i \<Longrightarrow> fe_object fe' j = fe_object fe j"
    by (simp_all add: eq)
  show "quieter fe fe'" using st by (simp add: quieter_def eq)
qed

lemma worker_step_keeps:
  assumes "worker_step i fe e fe'" and "streams_inv fe"
  shows "quieter fe fe'" and "streams_inv fe'"
proof -
  show "quieter fe fe'"
  using assms(1)
  proof (cases rule: worker_step_touches)
    case work
    then show ?thesis using touches_quieter(1) by blast
  qed (auto simp: quieter_def worker_discard_def worker_finish_def)
  show "streams_inv fe'"
  using assms(1)
  proof (cases rule: worker_step_touches)
    case work
    have "fe_next_stream_id fe' = fe_next_stream_id fe" using quieter_fields [OF touches_quieter(1) [OF work(1)]] by blast
    moreover have "sm_worker (fe_object fe' i) \<notin> {W_finish, W_done}" "sm_done (fe_object fe' i) = sm_done (fe_object fe i)"
      using work(1) by (auto simp: touches_def)
    ultimately show ?thesis using assms(2) work(2) touches_quieter(2,3) [OF work(1)]
      unfolding streams_inv_def by (metis insertI1 insertI2)
  next
    case discard
    then show ?thesis using assms(2) by (auto simp: streams_inv_def worker_discard_def distinct_removeAll)
  next
    case finish
    then show ?thesis using assms(2) by (auto simp: streams_inv_def worker_finish_def)
  qed
qed


text \<open>Fields the invariants do not look at.\<close>

lemma running_other [simp]:
  "running (fe\<lparr>fe_counters := c\<rparr>) = running fe"
  "running (fe\<lparr>fe_idle_sequence := n\<rparr>) = running fe"
  "running (fe\<lparr>fe_idle_epoch := n\<rparr>) = running fe"
  "running (fe\<lparr>fe_hold := b\<rparr>) = running fe"
  "running (fe\<lparr>fe_barrier := b\<rparr>) = running fe"
  "running (fe\<lparr>fe_quiesce_epoch := n\<rparr>) = running fe"
  by (simp_all add: running_def)

lemma stopped_other [simp]:
  "stopped ids (fe\<lparr>fe_counters := c\<rparr>) = stopped ids fe"
  "stopped ids (fe\<lparr>fe_idle_sequence := n\<rparr>) = stopped ids fe"
  "stopped ids (fe\<lparr>fe_idle_epoch := n\<rparr>) = stopped ids fe"
  "stopped ids (fe\<lparr>fe_hold := b\<rparr>) = stopped ids fe"
  "stopped ids (fe\<lparr>fe_barrier := b\<rparr>) = stopped ids fe"
  "stopped ids (fe\<lparr>fe_quiesce_epoch := n\<rparr>) = stopped ids fe"
  by (simp_all add: stopped_def)

lemma draining_other [simp]:
  "draining ids a (fe\<lparr>fe_counters := c\<rparr>) = draining ids a fe"
  "draining ids a (fe\<lparr>fe_idle_sequence := n\<rparr>) = draining ids a fe"
  "draining ids a (fe\<lparr>fe_idle_epoch := n\<rparr>) = draining ids a fe"
  "draining ids a (fe\<lparr>fe_hold := b\<rparr>) = draining ids a fe"
  "draining ids a (fe\<lparr>fe_barrier := b\<rparr>) = draining ids a fe"
  "draining ids a (fe\<lparr>fe_quiesce_epoch := n\<rparr>) = draining ids a fe"
  by (cases a; simp add: draining_def)+

lemma streams_inv_other [simp]:
  "streams_inv (fe\<lparr>fe_counters := c\<rparr>) = streams_inv fe"
  "streams_inv (fe\<lparr>fe_idle_sequence := n\<rparr>) = streams_inv fe"
  "streams_inv (fe\<lparr>fe_idle_epoch := n\<rparr>) = streams_inv fe"
  "streams_inv (fe\<lparr>fe_hold := b\<rparr>) = streams_inv fe"
  "streams_inv (fe\<lparr>fe_barrier := b\<rparr>) = streams_inv fe"
  "streams_inv (fe\<lparr>fe_quiesce_epoch := n\<rparr>) = streams_inv fe"
  by (simp_all add: streams_inv_def)

lemma gate_inv_other [simp]:
  "gate_inv (fe\<lparr>fe_counters := c\<rparr>) = gate_inv fe"
  "gate_inv (fe\<lparr>fe_idle_sequence := n\<rparr>) = gate_inv fe"
  "gate_inv (fe\<lparr>fe_idle_epoch := n\<rparr>) = gate_inv fe"
  "gate_inv (fe\<lparr>fe_hold := b\<rparr>) = gate_inv fe"
  "gate_inv (fe\<lparr>fe_barrier := b\<rparr>) = gate_inv fe"
  "gate_inv (fe\<lparr>fe_quiesce_epoch := n\<rparr>) = gate_inv fe"
  by (simp_all add: gate_inv_def)

lemma transition_inv_other [simp]:
  "transition_inv t (fe\<lparr>fe_counters := c\<rparr>) = transition_inv t fe"
  "transition_inv t (fe\<lparr>fe_idle_sequence := n\<rparr>) = transition_inv t fe"
  "transition_inv t (fe\<lparr>fe_idle_epoch := n\<rparr>) = transition_inv t fe"
  "transition_inv t (fe\<lparr>fe_hold := b\<rparr>) = transition_inv t fe"
  "transition_inv t (fe\<lparr>fe_barrier := b\<rparr>) = transition_inv t fe"
  "transition_inv t (fe\<lparr>fe_quiesce_epoch := n\<rparr>) = transition_inv t fe"
  by (cases t; simp add: transition_inv_def)+

lemma accept_inv_other [simp]:
  "accept_inv pc (fe\<lparr>fe_counters := c\<rparr>) = accept_inv pc fe"
  "accept_inv pc (fe\<lparr>fe_idle_sequence := n\<rparr>) = accept_inv pc fe"
  "accept_inv pc (fe\<lparr>fe_idle_epoch := n\<rparr>) = accept_inv pc fe"
  "accept_inv pc (fe\<lparr>fe_hold := b\<rparr>) = accept_inv pc fe"
  "accept_inv pc (fe\<lparr>fe_barrier := b\<rparr>) = accept_inv pc fe"
  "accept_inv pc (fe\<lparr>fe_quiesce_epoch := n\<rparr>) = accept_inv pc fe"
  by (cases pc; simp add: accept_inv_def)+

text \<open>The accept loop.\<close>

lemma accept_admit_keeps:
  assumes "accept_admit epoch permitted created started fe = (fe', pc)" and "streams_inv fe" and "gate_inv fe"
    and "fe_observed_epoch fe = epoch" and "transition_inv t fe"
  shows "streams_inv fe' \<and> gate_inv fe' \<and> transition_inv t fe' \<and> accept_inv pc fe'"
proof (cases "fe_accepting fe \<and> epoch = fe_admission_epoch fe \<and> started \<and> pc = A_top")
  case False
  then have "fe' = fe \<or> fe' = fe\<lparr>fe_next_stream_id := Suc (fe_next_stream_id fe)\<rparr>" and "accept_inv pc fe'"
    using assms(1) by (auto simp: accept_admit_def Let_def accept_inv_def split: option.splits if_splits)
  moreover have "draining ids a (fe\<lparr>fe_next_stream_id := n\<rparr>) = draining ids a fe"
    "stopped ids (fe\<lparr>fe_next_stream_id := n\<rparr>) = stopped ids fe" "running (fe\<lparr>fe_next_stream_id := n\<rparr>) = running fe" for ids a n
    by (cases a; simp add: draining_def stopped_def running_def)+
  then have "transition_inv t (fe\<lparr>fe_next_stream_id := n\<rparr>) = transition_inv t fe"
    "gate_inv (fe\<lparr>fe_next_stream_id := n\<rparr>) = gate_inv fe" for n
    by (cases t; simp add: transition_inv_def gate_inv_def)+
  moreover have "streams_inv (fe\<lparr>fe_next_stream_id := Suc (fe_next_stream_id fe)\<rparr>)"
    using assms(2) by (simp add: streams_inv_def)
  ultimately show ?thesis using assms(2,3,5) by auto
next
  case True
  then obtain g peer front where g: "fe_active fe = Some g" and fe': "fe' = count (\<lambda>c. c\<lparr>co_accepted := Suc (co_accepted c),
        co_peak_active := max (co_peak_active c) (Suc (length (fe_streams fe)))\<rparr>)
      (on_object (fe_next_stream_id fe) (\<lambda>_. stream_new g (fe_next_stream_id fe) (Some peer) (Some front))
        (fe\<lparr>fe_next_stream_id := Suc (fe_next_stream_id fe), fe_streams := fe_streams fe @ [fe_next_stream_id fe]\<rparr>))"
    using assms(1) by (auto simp: accept_admit_def Let_def split: option.splits if_splits)
  let ?i = "fe_next_stream_id fe"
  have old: "sm_worker (fe_object fe j) = W_done \<longleftrightarrow> False" "j \<noteq> ?i" if "j \<in> set (fe_streams fe)" for j
    using that assms(2) unfolding streams_inv_def by (metis insertI1 insertI2 order_refl)+
  have new: "?i \<notin> set (fe_streams fe)" using old(2) by blast
  have "streams_inv fe'" using assms(2) new unfolding streams_inv_def fe'
    by (auto simp: stream_new_def)
  moreover have "gate_inv fe'" using assms(3,4) g True new unfolding gate_inv_def fe'
    by (auto simp: stream_new_def running_def)
  moreover have "transition_inv t fe'" using assms(5) g True
    by (cases t) (auto simp: transition_inv_def draining_def fe')
  ultimately show ?thesis using True by (simp add: accept_inv_def)
qed

text \<open>The state after the accept loop has looked at the epoch.\<close>

lemma observed_keeps:
  assumes "gate_inv fe" and "transition_inv t fe" and "streams_inv fe"
  shows "gate_inv (fe\<lparr>fe_observed_epoch := fe_admission_epoch fe\<rparr>)"
    and "transition_inv t (fe\<lparr>fe_observed_epoch := fe_admission_epoch fe\<rparr>)"
    and "streams_inv (fe\<lparr>fe_observed_epoch := fe_admission_epoch fe\<rparr>)"
proof -
  have "draining ids a (fe\<lparr>fe_observed_epoch := e\<rparr>) = draining ids a fe"
    "stopped ids (fe\<lparr>fe_observed_epoch := e\<rparr>) = stopped ids fe" "running (fe\<lparr>fe_observed_epoch := e\<rparr>) = running fe" for ids a e
    by (cases a; simp add: draining_def stopped_def running_def)+
  then show "gate_inv (fe\<lparr>fe_observed_epoch := fe_admission_epoch fe\<rparr>)"
    and "transition_inv t (fe\<lparr>fe_observed_epoch := fe_admission_epoch fe\<rparr>)"
    and "streams_inv (fe\<lparr>fe_observed_epoch := fe_admission_epoch fe\<rparr>)"
    using assms by (cases t; simp add: gate_inv_def transition_inv_def streams_inv_def)+
qed

lemma accept_step_keeps:
  assumes "accept_step s s'" and "system_inv s"
  shows "system_inv s'"
  using assms(1)
proof cases
  case (top fe pc)
  have "fe = (sy_fe s)\<lparr>fe_observed_epoch := fe_admission_epoch (sy_fe s)\<rparr>"
    and "accept_inv pc fe" using top(3) by (auto simp: accept_top_def accept_inv_def)
  then show ?thesis using assms(2) observed_keeps [of "sy_fe s" "sy_transition s"] unfolding system_inv_def top(1) by simp
next
  case (admit epoch permitted created started fe pc)
  then show ?thesis using assms(2) accept_admit_keeps [OF admit(3)] by (auto simp: system_inv_def accept_inv_def)
next
  case failed
  then show ?thesis using assms(2) by (simp add: system_inv_def accept_inv_def accept_failed_def)
qed (use assms(2) in \<open>simp_all add: system_inv_def accept_idle_def accept_reject_def accept_inv_def\<close>)


text \<open>The holder of the transition lock.\<close>

definition flow_inv :: "flow \<Rightarrow> frontend \<Rightarrow> bool" where
  "flow_inv f fe \<longleftrightarrow> (case f of Goes t \<Rightarrow> transition_inv t fe | Ends _ \<Rightarrow> True)"

lemma close_gate_keeps [simp]:
  "streams_inv (close_gate fe) = streams_inv fe"
  "gate_inv fe \<Longrightarrow> gate_inv (close_gate fe)"
  "accept_inv pc (close_gate fe) = accept_inv pc fe"
  "running (close_gate fe) = running fe" "fe_streams (close_gate fe) = fe_streams fe"
  "fe_last (close_gate fe) = fe_last fe" "fe_accepting (close_gate fe) = False" "fe_active (close_gate fe) = None"
  "stopped ids (close_gate fe) = stopped ids fe"
  by (cases pc; simp add: close_gate_def next_epoch_def streams_inv_def gate_inv_def accept_inv_def running_def stopped_def)+

lemma draining_close_gate:
  "draining (fe_streams fe) a (close_gate fe) \<longleftrightarrow> (case a of
     After_commit g \<Rightarrow> running fe \<and> fe_last fe < cg_generation g
   | After_quiesce g _ _ \<Rightarrow> running fe \<and> cg_generation g = fe_last fe
   | _ \<Rightarrow> True)"
  by (cases a) (simp_all add: draining_def)

lemma require_running_Inr: "require_running fe = Inr u \<longleftrightarrow> running fe"
  by (auto simp: require_running_def running_def errors)

lemma section_cases:
  assumes "section_of m fe = x"
  obtains e where "m = Inl e" "x = (fe, Ends (Inl e))" | "m = Inr x"
  using assms by (cases m) auto

definition keeps_inv :: "frontend \<Rightarrow> frontend \<times> flow \<Rightarrow> bool" where
  "keeps_inv fe x \<longleftrightarrow> streams_inv (fst x) \<and> gate_inv (fst x) \<and> flow_inv (snd x) (fst x) \<and>
     (\<forall>pc. accept_inv pc fe \<longrightarrow> accept_inv pc (fst x))"

lemma keeps_inv_section:
  assumes "streams_inv fe" "gate_inv fe" and "\<And>x. m = Inr x \<Longrightarrow> keeps_inv fe x"
  shows "keeps_inv fe (section_of m fe)"
  using assms by (cases m) (simp_all add: keeps_inv_def flow_inv_def)

lemma keeps_inv_same: "streams_inv fe \<Longrightarrow> gate_inv fe \<Longrightarrow> flow_inv f fe \<Longrightarrow> keeps_inv fe (fe, f)"
  by (simp add: keeps_inv_def)

lemma next_epoch_shut:
  assumes "streams_inv fe" and "gate_inv fe" and "\<not> fe_accepting fe"
  shows "streams_inv (next_epoch fe)" and "gate_inv (next_epoch fe)" and "accept_inv pc (next_epoch fe) = accept_inv pc fe"
  using assms by (cases pc; simp add: next_epoch_def streams_inv_def gate_inv_def accept_inv_def running_def)+

lemma begin_method_keeps:
  assumes "streams_inv fe" and "gate_inv fe"
  shows "keeps_inv fe (begin_method m fe)"
proof (cases m)
  case (Commit g)
  show ?thesis unfolding Commit begin_method_def operation.case commit_begin_def
    by (rule keeps_inv_section [OF assms])
      (use assms in \<open>auto simp: errors require_running_Inr keeps_inv_def flow_inv_def transition_inv_def draining_close_gate\<close>)
next
  case Drain
  show ?thesis using assms
    by (auto simp: Drain begin_method_def drain_begin_def keeps_inv_def flow_inv_def transition_inv_def draining_close_gate)
next
  case Revoke
  show ?thesis using assms
    by (auto simp: Revoke begin_method_def drain_begin_def keeps_inv_def flow_inv_def transition_inv_def draining_close_gate)
next
  case Arm
  show ?thesis unfolding Arm begin_method_def operation.case arm_begin_def
    by (rule keeps_inv_section [OF assms])
      (use assms in \<open>auto simp: errors keeps_inv_def flow_inv_def transition_inv_def split: option.splits\<close>)
next
  case (Reopen generation)
  show ?thesis unfolding Reopen begin_method_def operation.case reopen_begin_def
  proof (rule keeps_inv_section [OF assms], goal_cases)
    case (1 x)
    show ?case
    proof (cases "fe_accepting fe")
      case True
      then show ?thesis using 1 assms by (auto simp: errors keeps_inv_def flow_inv_def transition_inv_def)
    next
      case False
      with 1 have x: "x = (next_epoch fe, Goes (T_reopen_drain (fe_idle_sequence fe) (fe_admission_epoch (next_epoch fe))))"
        and "fe_active fe \<noteq> None" "fe_streams fe = []" by (auto simp: errors Let_def)
      then show ?thesis using next_epoch_shut [OF assms False] False
        by (simp add: keeps_inv_def flow_inv_def transition_inv_def next_epoch_def)
    qed
  qed
next
  case (Quiesce generation)
  show ?thesis unfolding Quiesce begin_method_def operation.case quiesce_begin_def
  proof (rule keeps_inv_section [OF assms], goal_cases)
    case (1 x)
    then obtain g where g: "fe_active fe = Some g" "running fe" and x: "x = ((close_gate fe)\<lparr>fe_barrier := True\<rparr>,
        Goes (T_revoking (fe_streams fe) 0 (fe_streams fe)
          (After_quiesce g (fe_admission_epoch (close_gate fe)) (fe_idle_sequence fe))))"
      by (auto simp: errors require_running_Inr Let_def split: option.splits)
    have "cg_generation g = fe_last fe" using assms(2) g(1) by (simp add: gate_inv_def)
    then show ?case using assms g(2)
      by (simp add: x keeps_inv_def flow_inv_def transition_inv_def draining_close_gate)
  qed
next
  case (Qualification_revoke expected)
  show ?thesis unfolding Qualification_revoke begin_method_def operation.case qualification_revoke_begin_def
    by (rule keeps_inv_section [OF assms])
      (use assms in \<open>auto simp: errors keeps_inv_def flow_inv_def transition_inv_def draining_close_gate\<close>)
next
  case Close
  have "streams_inv ((close_gate fe)\<lparr>fe_closing := True, fe_barrier := False, fe_listener := False\<rparr>)"
    "gate_inv ((close_gate fe)\<lparr>fe_closing := True, fe_barrier := False, fe_listener := False\<rparr>)"
    "draining (fe_streams fe) After_close ((close_gate fe)\<lparr>fe_closing := True, fe_barrier := False, fe_listener := False\<rparr>)"
    "accept_inv pc ((close_gate fe)\<lparr>fe_closing := True, fe_barrier := False, fe_listener := False\<rparr>) = accept_inv pc fe" for pc
    using assms by (cases pc; simp add: close_gate_def next_epoch_def streams_inv_def gate_inv_def draining_def accept_inv_def)+
  then show ?thesis using assms
    by (simp add: Close begin_method_def close_begin_def keeps_inv_def flow_inv_def transition_inv_def)
qed


lemma gone_when_stopped:
  assumes "streams_inv fe" and "stopped ids fe" and "set (fe_streams fe) \<subseteq> set ids"
  shows "fe_streams fe = []"
proof -
  have "i \<notin> set (fe_streams fe)" for i using assms unfolding streams_inv_def stopped_def by (metis insertI1 insertI2 subsetD)
  then show ?thesis by (cases "fe_streams fe") auto
qed

lemma commit_publish_keeps:
  assumes "streams_inv fe" and "gate_inv fe" and "draining ids (After_commit g) fe" and "stopped ids fe"
  shows "keeps_inv fe (commit_publish g fe)"
proof -
  have none: "fe_streams fe = []" using gone_when_stopped [OF assms(1,4)] assms(3) by (simp add: draining_def)
  have run: "running fe" using assms(3) by (simp add: draining_def)
  show ?thesis unfolding commit_publish_def
  proof (rule keeps_inv_section [OF assms(1,2)], goal_cases)
    case (1 x)
    then have x: "x = (next_epoch (fe\<lparr>fe_active := Some g, fe_last := cg_generation g, fe_accepting := True, fe_barrier := False\<rparr>),
        Goes (T_observe (Suc (fe_admission_epoch fe))))"
      by (auto simp: errors Let_def next_epoch_def)
    have "accept_inv pc (next_epoch (fe\<lparr>fe_active := Some g, fe_last := cg_generation g, fe_accepting := True, fe_barrier := False\<rparr>)) =
        accept_inv pc fe" for pc
      by (cases pc) (simp_all add: accept_inv_def next_epoch_def)
    then show ?case using assms(1) run none
      by (simp add: x keeps_inv_def flow_inv_def transition_inv_def next_epoch_def streams_inv_def gate_inv_def running_def)
  qed
qed

lemma after_wait_keeps:
  assumes "streams_inv fe" and "gate_inv fe" and "draining ids a fe" and "ok \<longrightarrow> stopped ids fe"
  shows "keeps_inv fe (after_wait ok ids a fe)"
proof (cases a)
  case (After_commit g)
  then show ?thesis using assms commit_publish_keeps [OF assms(1,2)]
    by (auto simp: after_wait_def flow_inv_def intro!: keeps_inv_same)
next
  case (After_quiesce g epoch before)
  have "fe_streams fe = []" if ok using gone_when_stopped [OF assms(1)] assms(3,4) that by (simp add: draining_def)
  then show ?thesis using assms
    by (auto simp: After_quiesce after_wait_def flow_inv_def transition_inv_def draining_def intro!: keeps_inv_same)
qed (use assms in \<open>auto simp: after_wait_def flow_inv_def transition_inv_def draining_def intro!: keeps_inv_same\<close>)

lemma revoke_one_shape:
  assumes "revoke_one n i fe = (n', fe')"
  shows "fe' = on_object i (\<lambda>s. s\<lparr>sm_revoked := True\<rparr>) fe"
proof -
  have "fe_object fe = (fe_object fe)(i := (fe_object fe i)\<lparr>sm_revoked := True\<rparr>)" if "sm_revoked (fe_object fe i)"
    using that by (cases "fe_object fe i") (auto simp: fun_eq_iff)
  then show ?thesis using assms by (auto simp: revoke_one_def stream_revoke_def split: if_splits)
qed

lemma revoke_one_keeps:
  assumes "revoke_one n i fe = (n', fe')" and "streams_inv fe"
  shows "quieter fe fe'" and "streams_inv fe'"
  unfolding revoke_one_shape [OF assms(1)] using assms(2) by (simp_all add: quieter_def streams_inv_def)

lemma system_inv_act:
  assumes "keeps_inv (sy_fe s) x" and "accept_inv (sy_accept s) (sy_fe s)"
  shows "system_inv (act x s)"
  using assms by (cases "snd x") (auto simp: system_inv_def keeps_inv_def flow_inv_def transition_inv_def)

lemma transition_step_keeps:
  assumes "transition_step s e s'" and "system_inv s"
  shows "system_inv s'"
proof -
  have inv: "streams_inv (sy_fe s)" "gate_inv (sy_fe s)" "accept_inv (sy_accept s) (sy_fe s)"
    and t: "transition_inv (sy_transition s) (sy_fe s)" using assms(2) by (simp_all add: system_inv_def)
  note acts = system_inv_act [OF _ inv(3)]
  have rest: "system_inv (s\<lparr>sy_transition := T_idle\<rparr>)" using inv by (simp add: system_inv_def transition_inv_def)
  show ?thesis using assms(1)
  proof cases
    case (start bound fe)
    then have "\<not> fe_started (sy_fe s)" and fe: "fe = (sy_fe s)\<lparr>fe_listener := True, fe_bound := Some bound, fe_started := True\<rparr>"
      by (auto simp: start_frontend_def errors)
    then have off: "fe_active (sy_fe s) = None" "\<not> fe_accepting (sy_fe s)" "\<not> running (sy_fe s)"
      using inv(2) by (auto simp: gate_inv_def running_def)
    have "transition_inv (sy_transition s) fe"
      using t off by (auto simp: transition_inv_def draining_def fe stopped_def split: transition.splits after.splits)
    then show ?thesis using inv off by (simp add: start system_inv_def accept_inv_def gate_inv_def streams_inv_def fe)
  next
    case (call m x)
    then show ?thesis using acts [of x] begin_method_keeps [OF inv(1,2), of m] by simp
  next
    case (revoke i todo n ids a n' fe)
    have "transition_inv (T_revoking todo n' ids a) (sy_fe s)" using t revoke(3) by (auto simp: transition_inv_def)
    then show ?thesis using revoke_one_keeps [OF revoke(4) inv(1)] quieter_keeps inv by (auto simp: revoke system_inv_def)
  next
    case (revoked n ids a)
    then show ?thesis using t inv by (simp add: system_inv_def transition_inv_def count_revoked_def)
  next
    case (waited ids a ok)
    then show ?thesis using t inv by (auto simp: system_inv_def transition_inv_def)
  next
    case (follow ok ids a x)
    then show ?thesis using t acts [of x] after_wait_keeps [OF inv(1,2), of ids a ok] by (simp add: transition_inv_def)
  next
    case (unobserved epoch x)
    have "keeps_inv (sy_fe s) (commit_timeout (sy_fe s))" using inv by (simp add: commit_timeout_def keeps_inv_def flow_inv_def)
    then show ?thesis using acts [of x] unobserved by simp
  next
    case (hold g x)
    have "keeps_inv (sy_fe s) (arm_hold g (sy_fe s))" using inv by (simp add: arm_hold_def keeps_inv_def flow_inv_def)
    then show ?thesis using acts [of x] hold by simp
  next
    case (reopen before epoch x)
    let ?fe = "next_epoch ((sy_fe s)\<lparr>fe_barrier := False, fe_accepting := True\<rparr>)"
    have "streams_inv ?fe" "gate_inv ?fe" "accept_inv pc ?fe = accept_inv pc (sy_fe s)" for pc
      using inv t reopen(3) by (cases pc; auto simp: next_epoch_def streams_inv_def gate_inv_def accept_inv_def transition_inv_def running_def)+
    then have "keeps_inv (sy_fe s) (reopen_open (sy_fe s))"
      using inv by (simp add: reopen_open_def keeps_inv_def flow_inv_def Let_def transition_inv_def)
    then show ?thesis using acts [of x] reopen by simp
  next
    case (quiesced g epoch before x)
    let ?fe = "(sy_fe s)\<lparr>fe_quiesce_epoch := Suc (fe_quiesce_epoch (sy_fe s)), fe_active := Some g\<rparr>"
    have "streams_inv ?fe" "gate_inv ?fe" "accept_inv pc ?fe = accept_inv pc (sy_fe s)" for pc
      using inv t quiesced(3) by (cases pc; auto simp: streams_inv_def gate_inv_def accept_inv_def transition_inv_def running_def)+
    then have "keeps_inv (sy_fe s) (quiesce_end g (sy_fe s))"
      using inv by (simp add: quiesce_end_def keeps_inv_def flow_inv_def Let_def)
    then show ?thesis using acts [of x] quiesced by simp
  next
    case (join ok x)
    have "streams_inv ((sy_fe s)\<lparr>fe_closed := b\<rparr>)" "accept_inv pc ((sy_fe s)\<lparr>fe_closed := b\<rparr>) = accept_inv pc (sy_fe s)" for b pc
      using inv by (cases pc; simp add: streams_inv_def accept_inv_def)+
    moreover have "gate_inv ((sy_fe s)\<lparr>fe_closed := b\<rparr>)" for b
      using inv(2) t join(3) by (simp add: gate_inv_def transition_inv_def)
    ultimately have "keeps_inv (sy_fe s) (close_end ok (sy_accept s \<in> {A_off, A_stopped}) (sy_fe s))"
      by (simp add: keeps_inv_def close_end_def flow_inv_def)
    then show ?thesis using acts [of x] join by simp
  qed (use rest assms(2) inv t in \<open>simp_all add: system_inv_def qualification_disarm_def\<close>)
qed


lemma system_step_keeps:
  assumes "system_step s e s'" and "system_inv s"
  shows "system_inv s'"
  using assms(1)
proof cases
  case by_method
  then show ?thesis using transition_step_keeps assms(2) by blast
next
  case by_accept
  then show ?thesis using accept_step_keeps assms(2) by blast
next
  case (by_worker i fe)
  then show ?thesis using assms(2) worker_step_keeps [OF by_worker(2)] quieter_keeps
    by (simp add: system_inv_def)
qed

text \<open>What \<open>__init__\<close> makes.\<close>

lemma frontend_new_Inr:
  assumes "frontend_new host port backlog streams per_stream buffer_total chunk = Inr fe"
  shows "streams_inv fe" "gate_inv fe" "fe_streams fe = []" "fe_hold fe = False"
    "co_buffered (fe_counters fe) = 0" "0 < fe_per_stream fe" "0 < fe_io_chunk fe" "0 < fe_max_streams fe"
    "fe_max_streams fe * fe_per_stream fe \<le> fe_total fe" "sm_worker (fe_object fe i) = W_done" "fe_next_stream_id fe = 1"
    "sm_transcript (fe_object fe i) = transcript_new" "fe_accepting fe = False" "fe_active fe = None"
    "sm_generation (fe_object fe i) = no_generation" "fe_last fe = 0"
proof -
  have chunk: "0 < chunk" and streams: "0 < streams" "0 < per_stream"
    using assms by (auto simp: frontend_new_def errors bounded_int_def Let_def split: if_splits prod.splits)
  obtain h v t where fe: "fe = \<lparr>fe_listen_host = h, fe_ipv6 = v, fe_listen_port = port, fe_backlog = backlog,
         fe_max_streams = streams, fe_per_stream = per_stream, fe_total = t, fe_io_chunk = chunk,
         fe_listener = False, fe_bound = None, fe_started = False, fe_closing = False, fe_closed = False,
         fe_accepting = False, fe_active = None, fe_last = 0, fe_streams = [], fe_next_stream_id = 1,
         fe_idle_sequence = 0, fe_idle_epoch = 0, fe_admission_epoch = 0, fe_observed_epoch = 0,
         fe_barrier = False, fe_quiesce_epoch = 0, fe_hold = False,
         fe_counters = \<lparr>co_buffered = 0, co_peak_buffered = 0, co_peak_active = 0, co_accepted = 0, co_connected = 0,
           co_client_to_backend = 0, co_backend_to_client = 0, co_completed = 0, co_revoked = 0,
           co_rejected_uncommitted = 0, co_rejected_overload = 0, co_connect_failures = 0\<rparr>,
         fe_object = (\<lambda>_. at_rest)\<rparr>" and t: "streams * per_stream \<le> t"
    using assms by (auto simp: frontend_new_def errors bounded_int_def Let_def split: if_splits prod.splits)
  show "streams_inv fe" "gate_inv fe" "fe_streams fe = []" "fe_hold fe = False"
    "co_buffered (fe_counters fe) = 0" "0 < fe_per_stream fe" "0 < fe_io_chunk fe" "0 < fe_max_streams fe"
    "fe_max_streams fe * fe_per_stream fe \<le> fe_total fe" "sm_worker (fe_object fe i) = W_done" "fe_next_stream_id fe = 1"
    "sm_transcript (fe_object fe i) = transcript_new" "fe_accepting fe = False" "fe_active fe = None"
    "sm_generation (fe_object fe i) = no_generation" "fe_last fe = 0"
    using chunk streams t
    by (simp_all add: fe streams_inv_def gate_inv_def at_rest_def stream_new_def)
qed

lemma reached_inv:
  assumes "reached fe0 s" and "frontend_new host port backlog streams per_stream buffer_total chunk = Inr fe0"
  shows "system_inv s"
  using assms(1)
proof induction
  case init
  then show ?case using frontend_new_Inr [OF assms(2)] by (simp add: system_inv_def transition_inv_def accept_inv_def)
next
  case (step s e s')
  then show ?case using system_step_keeps by blast
qed

section \<open>Buffers\<close>

text \<open>What a worker has in the relay buffers, and that it is what the relay holds, within its limit.\<close>

fun carried :: "worker \<Rightarrow> int" where
  "carried (W_relay r) = rl_buffered r"
| "carried (W_granted r _ _) = rl_buffered r"
| "carried (W_relay_end b) = b"
| "carried _ = 0"

definition relay_ok :: "int \<Rightarrow> relay \<Rightarrow> bool" where
  "relay_ok per_stream r \<longleftrightarrow> rl_buffered r = int (length (rl_to_client r) + length (rl_to_upstream r)) \<and> rl_buffered r \<le> per_stream"

fun worker_ok :: "int \<Rightarrow> worker \<Rightarrow> bool" where
  "worker_ok per_stream (W_relay r) = relay_ok per_stream r"
| "worker_ok per_stream (W_granted r _ _) = relay_ok per_stream r"
| "worker_ok per_stream (W_relay_end b) = (0 \<le> b \<and> b \<le> per_stream)"
| "worker_ok per_stream _ = True"

definition buffer_inv :: "frontend \<Rightarrow> bool" where
  "buffer_inv fe \<longleftrightarrow> 0 < fe_per_stream fe \<and> 0 < fe_io_chunk fe \<and> fe_max_streams fe * fe_per_stream fe \<le> fe_total fe \<and>
     int (length (fe_streams fe)) \<le> fe_max_streams fe \<and> (\<forall>i. worker_ok (fe_per_stream fe) (sm_worker (fe_object fe i))) \<and>
     co_buffered (fe_counters fe) = (\<Sum>i \<in> set (fe_streams fe). carried (sm_worker (fe_object fe i)))"

lemma carried_bounds: "worker_ok p w \<Longrightarrow> 0 < p \<Longrightarrow> 0 \<le> carried w \<and> carried w \<le> p"
  by (cases w) (auto simp: relay_ok_def)

lemma others_bounds:
  assumes "buffer_inv fe" and "streams_inv fe" and "i \<in> set (fe_streams fe)"
  defines "rest \<equiv> (\<Sum>j \<in> set (fe_streams fe) - {i}. carried (sm_worker (fe_object fe j)))"
  shows "co_buffered (fe_counters fe) = rest + carried (sm_worker (fe_object fe i))"
    and "0 \<le> rest" and "rest + fe_per_stream fe \<le> fe_total fe"
proof -
  have ok: "0 \<le> carried (sm_worker (fe_object fe j)) \<and> carried (sm_worker (fe_object fe j)) \<le> fe_per_stream fe" for j
    using assms(1) carried_bounds by (auto simp: buffer_inv_def)
  show "co_buffered (fe_counters fe) = rest + carried (sm_worker (fe_object fe i))"
    using assms(1,3) unfolding buffer_inv_def rest_def by (simp add: sum.remove [of _ i])
  show "0 \<le> rest" unfolding rest_def using ok by (simp add: sum_nonneg)
  obtain k where k: "length (fe_streams fe) = Suc k" using assms(3) by (cases "fe_streams fe") auto
  then have n: "card (set (fe_streams fe) - {i}) = k"
    using assms(2,3) by (simp add: streams_inv_def distinct_card)
  have "rest \<le> of_nat (card (set (fe_streams fe) - {i})) * fe_per_stream fe"
    unfolding rest_def using ok by (intro sum_bounded_above) simp
  also have "\<dots> = int (length (fe_streams fe)) * fe_per_stream fe - fe_per_stream fe"
    using n k by (simp add: algebra_simps)
  also have "int (length (fe_streams fe)) * fe_per_stream fe \<le> fe_total fe"
  proof -
    have "int (length (fe_streams fe)) * fe_per_stream fe \<le> fe_max_streams fe * fe_per_stream fe"
      using assms(1) by (intro mult_right_mono) (simp_all add: buffer_inv_def)
    then show ?thesis using assms(1) unfolding buffer_inv_def by linarith
  qed
  finally show "rest + fe_per_stream fe \<le> fe_total fe" by simp
qed


text \<open>A worker may change its buffers within the limit: the accounting goes through.\<close>

lemma adjust_buffer_ok:
  assumes "buffer_inv fe" and "streams_inv fe" and "i \<in> set (fe_streams fe)"
    and "0 \<le> carried (sm_worker (fe_object fe i)) + d" and "carried (sm_worker (fe_object fe i)) + d \<le> fe_per_stream fe"
    and "co_buffered (fe_counters fe1) = co_buffered (fe_counters fe)" and "fe_total fe1 = fe_total fe"
  shows "adjust_buffer d fe1 = Inr (count (\<lambda>c. c\<lparr>co_buffered := co_buffered (fe_counters fe) + d,
    co_peak_buffered := max (co_peak_buffered c) (co_buffered (fe_counters fe) + d)\<rparr>) fe1)"
  using others_bounds [OF assms(1-3)] assms(4-7) by (simp add: adjust_buffer_Inr)

definition buffers_step :: "nat \<Rightarrow> frontend \<Rightarrow> frontend \<Rightarrow> bool" where
  "buffers_step i fe fe' \<longleftrightarrow> worker_ok (fe_per_stream fe) (sm_worker (fe_object fe' i)) \<and>
     co_buffered (fe_counters fe') = co_buffered (fe_counters fe) +
       carried (sm_worker (fe_object fe' i)) - carried (sm_worker (fe_object fe i))"

lemma buffer_inv_touched:
  assumes "buffer_inv fe" and "streams_inv fe" and "i \<in> set (fe_streams fe)" and "touches i fe fe'" and "buffers_step i fe fe'"
  shows "buffer_inv fe'"
proof -
  note same = quieter_fields [OF touches_quieter(1) [OF assms(4)]] touches_quieter(2,3) [OF assms(4)]
  have "worker_ok (fe_per_stream fe) (sm_worker (fe_object fe' j))" for j
    using assms(1,5) same(14) [of j] by (cases "j = i") (auto simp: buffer_inv_def buffers_step_def)
  moreover have "(\<Sum>j \<in> set (fe_streams fe) - {i}. carried (sm_worker (fe_object fe' j))) =
      (\<Sum>j \<in> set (fe_streams fe) - {i}. carried (sm_worker (fe_object fe j)))"
    by (rule sum.cong) (use same(14) in auto)
  then have "co_buffered (fe_counters fe') = (\<Sum>j \<in> set (fe_streams fe). carried (sm_worker (fe_object fe' j)))"
    using others_bounds(1) [OF assms(1-3)] assms(3,5) by (simp add: buffers_step_def sum.remove [of _ i])
  ultimately show ?thesis using assms(1) unfolding buffer_inv_def same by simp
qed

lemma close_write_buffers:
  assumes "relay_ok (fe_per_stream fe) r" and "fe_per_stream fe1 = fe_per_stream fe"
    and "co_buffered (fe_counters fe1) = co_buffered (fe_counters fe) + rl_buffered r - carried (sm_worker (fe_object fe i))"
  shows "buffers_step i fe (close_write sock i r fe1)"
proof -
  have "relay_ok p (shut_writing sock r) = relay_ok p r" "rl_buffered (shut_writing sock r) = rl_buffered r" for p
    by (cases sock; simp add: relay_ok_def)+
  then show ?thesis using assms by (auto simp: close_write_def buffers_step_def relay_ok_def)
qed

lemma relay_read_buffers:
  assumes "buffer_inv fe" and "streams_inv fe" and "i \<in> set (fe_streams fe)" and "sm_worker (fe_object fe i) = W_relay r"
  shows "buffers_step i fe (relay_read sock available i r fe)"
proof -
  have r: "relay_ok (fe_per_stream fe) r" using assms(1,4) by (metis buffer_inv_def worker_ok.simps(1))
  have ended: "relay_ok p (end_reading sock r) = relay_ok p r" "rl_buffered (end_reading sock r) = rl_buffered r" for p
    by (cases sock; simp add: relay_ok_def)+
  define room where "room = fe_per_stream fe - rl_buffered r"
  define data where "data = take (nat (min (fe_io_chunk fe) room)) available"
  have room: "0 \<le> room" using r by (simp add: room_def relay_ok_def)
  then have len: "int (length data) \<le> room" by (simp add: data_def)
  define r' where "r' = (set_pending (peer_of sock) (pending (peer_of sock) r @ data) r)\<lparr>rl_buffered := rl_buffered r + int (length data)\<rparr>"
  have r': "relay_ok (fe_per_stream fe) r'" "rl_buffered r' = rl_buffered r + int (length data)"
    using r len by (cases sock; simp add: r'_def relay_ok_def room_def)+
  have adjust: "adjust_buffer (int (length data)) fe = Inr (count (\<lambda>c. c\<lparr>co_buffered := co_buffered (fe_counters fe) + int (length data),
      co_peak_buffered := max (co_peak_buffered c) (co_buffered (fe_counters fe) + int (length data))\<rparr>) fe)"
    by (rule adjust_buffer_ok [OF assms(1-3)]) (use r len assms(4) in \<open>simp_all add: relay_ok_def room_def\<close>)
  have "buffers_step i fe fe" "buffers_step i fe (leave_relay i r fe)" "buffers_step i fe (go_on i (W_relay (end_reading sock r)) fe)"
    using assms(4) r ended by (simp_all add: buffers_step_def) (simp add: relay_ok_def)
  moreover have "buffers_step i fe (close_write (peer_of sock) i (end_reading sock r) fe)"
    by (rule close_write_buffers) (use assms(4) r ended in simp_all)
  moreover have "buffers_step i fe (go_on i (W_relay r') (count (\<lambda>c. c\<lparr>co_buffered := co_buffered (fe_counters fe) + int (length data),
      co_peak_buffered := max (co_peak_buffered c) (co_buffered (fe_counters fe) + int (length data))\<rparr>) fe))"
    using assms(4) r' by (simp add: buffers_step_def)
  ultimately show ?thesis
    unfolding relay_read_def Let_def room_def [symmetric] data_def [symmetric] r'_def [symmetric] adjust sum.case by simp
qed


lemma relay_write_buffers:
  assumes "buffer_inv fe" and "streams_inv fe" and "i \<in> set (fe_streams fe)" and "sm_worker (fe_object fe i) = W_granted r sock limit"
  shows "buffers_step i fe (relay_write sock limit taken i r fe)"
proof -
  have r: "relay_ok (fe_per_stream fe) r" using assms(1,4) by (metis buffer_inv_def worker_ok.simps(2))
  define data where "data = take (min taken limit) (pending sock r)"
  define finish where "finish = (\<lambda>r fe. if pending sock r = [] \<and> \<not> read_open (peer_of sock) r
    then close_write sock i r fe else go_on i (W_relay r) fe)"
  have finish: "buffers_step i fe (finish r1 fe1)" if "relay_ok (fe_per_stream fe) r1" "fe_per_stream fe1 = fe_per_stream fe"
      "co_buffered (fe_counters fe1) = co_buffered (fe_counters fe) + rl_buffered r1 - carried (sm_worker (fe_object fe i))" for r1 fe1
    using that close_write_buffers [OF that] by (simp add: finish_def buffers_step_def)
  have len: "length data \<le> length (pending sock r)" by (simp add: data_def)
  define r' where "r' = (set_pending sock (drop (length data) (pending sock r)) r)\<lparr>rl_buffered := rl_buffered r - int (length data)\<rparr>"
  have r': "relay_ok (fe_per_stream fe) r'" "rl_buffered r' = rl_buffered r - int (length data)"
    using r len by (cases sock; simp add: r'_def relay_ok_def)+
  have low: "int (length data) \<le> rl_buffered r" using r len by (cases sock) (simp_all add: relay_ok_def)
  define fe1 where "fe1 = on_object i (observe_write (sock = Upstream) data) (count (\<lambda>c. if sock = Upstream
      then c\<lparr>co_client_to_backend := co_client_to_backend c + length data\<rparr>
      else c\<lparr>co_backend_to_client := co_backend_to_client c + length data\<rparr>) fe)"
  have fe1: "co_buffered (fe_counters fe1) = co_buffered (fe_counters fe)" "fe_total fe1 = fe_total fe" "fe_per_stream fe1 = fe_per_stream fe"
    by (simp_all add: fe1_def)
  have adjust: "adjust_buffer (- int (length data)) fe1 = Inr (count (\<lambda>c. c\<lparr>co_buffered := co_buffered (fe_counters fe) + - int (length data),
      co_peak_buffered := max (co_peak_buffered c) (co_buffered (fe_counters fe) + - int (length data))\<rparr>) fe1)"
    by (rule adjust_buffer_ok [OF assms(1-3)]) (use r low assms(4) fe1 in \<open>simp_all add: relay_ok_def\<close>)
  have "buffers_step i fe (leave_relay i r fe)"
    using assms(4) r by (simp add: buffers_step_def) (simp add: relay_ok_def)
  moreover have "buffers_step i fe (finish r fe)" by (rule finish) (use r assms(4) in simp_all)
  moreover have "buffers_step i fe (finish r' (count (\<lambda>c. c\<lparr>co_buffered := co_buffered (fe_counters fe) + - int (length data),
      co_peak_buffered := max (co_peak_buffered c) (co_buffered (fe_counters fe) + - int (length data))\<rparr>) fe1))"
    by (rule finish) (use r' fe1 assms(4) in simp_all)
  ultimately show ?thesis
    unfolding relay_write_def Let_def data_def [symmetric] finish_def [symmetric] r'_def [symmetric] fe1_def [symmetric] adjust sum.case
    by (simp only: simp_thms split: if_split)
qed

lemma relay_end_buffers:
  assumes "buffer_inv fe" and "streams_inv fe" and "i \<in> set (fe_streams fe)" and "sm_worker (fe_object fe i) = W_relay_end b"
  shows "buffers_step i fe (relay_end b i fe)"
proof -
  have "worker_ok (fe_per_stream fe) (W_relay_end b)" using assms(1,4) by (metis buffer_inv_def)
  then have b: "0 \<le> b" "b \<le> fe_per_stream fe" by simp_all
  have adjust: "adjust_buffer (- b) fe = Inr (count (\<lambda>c. c\<lparr>co_buffered := co_buffered (fe_counters fe) + - b,
      co_peak_buffered := max (co_peak_buffered c) (co_buffered (fe_counters fe) + - b)\<rparr>) fe)"
    by (rule adjust_buffer_ok [OF assms(1-3)]) (use b assms(1,4) in \<open>simp_all add: buffer_inv_def\<close>)
  show ?thesis using assms(4) unfolding relay_end_def adjust by (simp add: buffers_step_def)
qed

lemma worker_step_buffers:
  assumes "worker_step i fe e fe'" and "streams_inv fe" and "buffer_inv fe"
  shows "buffer_inv fe'"
  using assms(1)
proof (cases rule: worker_step_touches)
  case work
  have i: "i \<in> set (fe_streams fe)" using work(2) assms(2) by (simp add: streams_inv_def)
  have "worker_ok (fe_per_stream fe) (sm_worker (fe_object fe i))" using assms(3) by (simp add: buffer_inv_def)
  note ok = this
  have "buffers_step i fe fe'" using assms(1)
  proof cases
    case receives
    then show ?thesis using relay_read_buffers [OF assms(3,2) i] by blast
  next
    case sends
    then show ?thesis using relay_write_buffers [OF assms(3,2) i] by blast
  next
    case leave
    then show ?thesis using relay_end_buffers [OF assms(3,2) i] by blast
  next
    case (connect outcome)
    have "relay_ok (fe_per_stream fe) relay_new" "rl_buffered relay_new = 0"
      using assms(3) by (simp_all add: relay_ok_def relay_new_def buffer_inv_def)
    then show ?thesis using connect
      by (cases outcome) (simp_all add: worker_connect_def connect_failed_def buffers_step_def)
  next
    case attach
    then show ?thesis by (auto simp: worker_attach_def attach_upstream_def raise_if_def buffers_step_def)
  next
    case no_socket
    then show ?thesis by (simp add: connect_failed_def buffers_step_def)
  next
    case (give_up r sock limit)
    then show ?thesis using ok by (auto simp: buffers_step_def relay_ok_def)
  next
    case (grant r sock)
    then show ?thesis using ok by (simp add: buffers_step_def)
  next
    case discard
    then show ?thesis using work(1) by (simp add: touches_def worker_discard_def)
  qed (use work(2) in auto)
  then show ?thesis using buffer_inv_touched [OF assms(3,2) i work(1)] by blast
next
  case discard
  then have i: "i \<in> set (fe_streams fe)" using assms(2) by (simp add: streams_inv_def)
  have "int (length (removeAll i (fe_streams fe))) \<le> fe_max_streams fe"
    using length_removeAll_less_eq [of i "fe_streams fe"] assms(3) unfolding buffer_inv_def by linarith
  then show ?thesis using assms(3) discard i
    by (simp add: buffer_inv_def worker_discard_def sum.remove [OF _ i])
next
  case finish
  then have "i \<notin> set (fe_streams fe)" using assms(2) by (simp add: streams_inv_def)
  then have "(\<Sum>j \<in> set (fe_streams fe). carried (sm_worker ((if j = i then s else fe_object fe j)))) =
      (\<Sum>j \<in> set (fe_streams fe). carried (sm_worker (fe_object fe j)))" for s
    by (intro sum.cong) auto
  then show ?thesis using assms(3) finish by (simp add: buffer_inv_def worker_finish_def fun_upd_def)
qed


text \<open>The other threads leave buffers and configuration alone.\<close>

definition same_buffers :: "frontend \<Rightarrow> frontend \<Rightarrow> bool" where
  "same_buffers fe fe' \<longleftrightarrow> fe_max_streams fe' = fe_max_streams fe \<and> fe_per_stream fe' = fe_per_stream fe \<and>
     fe_total fe' = fe_total fe \<and> fe_io_chunk fe' = fe_io_chunk fe \<and> fe_streams fe' = fe_streams fe \<and>
     co_buffered (fe_counters fe') = co_buffered (fe_counters fe) \<and>
     (\<forall>i. sm_worker (fe_object fe' i) = sm_worker (fe_object fe i) \<and>
        sm_transcript (fe_object fe' i) = sm_transcript (fe_object fe i)) \<and>
     fe_next_stream_id fe \<le> fe_next_stream_id fe'"

lemma same_buffers_inv: "same_buffers fe fe' \<Longrightarrow> buffer_inv fe \<Longrightarrow> buffer_inv fe'"
  by (simp add: same_buffers_def buffer_inv_def)

lemma begin_method_buffers: "same_buffers fe (fst (begin_method m fe))"
  unfolding begin_method_def commit_begin_def drain_begin_def arm_begin_def reopen_begin_def quiesce_begin_def
    qualification_revoke_begin_def close_begin_def close_gate_def next_epoch_def thenE_def raise_if_def require_running_def bindE_def Let_def
  by (cases m) (simp_all add: same_buffers_def split: option.split)

lemma after_wait_buffers: "same_buffers fe (fst (after_wait ok ids a fe))"
  by (cases a) (auto simp: after_wait_def commit_publish_def next_epoch_def thenE_def raise_if_def require_running_def bindE_def
      Let_def same_buffers_def)

lemma transition_step_buffers:
  assumes "transition_step s e s'"
  shows "same_buffers (sy_fe s) (sy_fe s')"
  using assms
proof cases
  case (start bound fe)
  then show ?thesis by (auto simp: start_frontend_def errors same_buffers_def)
next
  case (call m x)
  then show ?thesis using begin_method_buffers [of "sy_fe s" m] by simp
next
  case (follow ok ids a x)
  then show ?thesis using after_wait_buffers [of "sy_fe s" ok ids a] by simp
next
  case (revoke i todo n ids a n' fe)
  then show ?thesis using revoke_one_shape [OF revoke(4)] by (simp add: same_buffers_def)
next
  case revoked
  then show ?thesis by (simp add: count_revoked_def same_buffers_def)
qed (auto simp: same_buffers_def qualification_disarm_def commit_timeout_def close_gate_def next_epoch_def arm_hold_def
    reopen_open_def quiesce_end_def close_end_def Let_def split: if_splits)

lemma accept_admit_streams:
  assumes "accept_admit epoch permitted created started fe = (fe', pc)"
  obtains (none) "same_buffers fe fe'"
    | (new) g peer front c where "fe_active fe = Some g" "fe' = fe\<lparr>fe_next_stream_id := Suc (fe_next_stream_id fe),
        fe_streams := fe_streams fe @ [fe_next_stream_id fe], fe_counters := c,
        fe_object := (fe_object fe)(fe_next_stream_id fe := stream_new g (fe_next_stream_id fe) (Some peer) (Some front))\<rparr>"
      "co_buffered c = co_buffered (fe_counters fe)" "int (length (fe_streams fe)) < fe_max_streams fe"
proof (cases "fe_streams fe' = fe_streams fe")
  case True
  then have "same_buffers fe fe'"
    using assms by (auto simp: accept_admit_def Let_def same_buffers_def split: option.splits if_splits)
  then show ?thesis by (rule none)
next
  case False
  then obtain g where g: "fe_active fe = Some g"
    using assms by (cases "fe_active fe") (auto simp: accept_admit_def)
  have go: "\<not> (fe_closing fe \<or> \<not> fe_accepting fe \<or> \<not> permitted \<or> epoch \<noteq> fe_admission_epoch fe)"
  proof
    assume "fe_closing fe \<or> \<not> fe_accepting fe \<or> \<not> permitted \<or> epoch \<noteq> fe_admission_epoch fe"
    then have "accept_admit epoch permitted created started fe = (fe, A_reject False)"
      using g by (simp add: accept_admit_def)
    with assms False show False by simp
  qed
  note admit = assms [unfolded accept_admit_def g option.case if_not_P [OF go]]
  have room: "int (length (fe_streams fe)) < fe_max_streams fe"
    using admit False by (cases "int (length (fe_streams fe)) < fe_max_streams fe") auto
  obtain peer front where created: "created = Some (peer, front)"
    using admit False room by (cases created) auto
  have started using admit False room created by (cases started) (auto simp: Let_def)
  then have "fe' = count (\<lambda>c. c\<lparr>co_accepted := Suc (co_accepted c),
        co_peak_active := max (co_peak_active c) (Suc (length (fe_streams fe)))\<rparr>)
      (on_object (fe_next_stream_id fe) (\<lambda>_. stream_new g (fe_next_stream_id fe) (Some peer) (Some front))
        (fe\<lparr>fe_next_stream_id := Suc (fe_next_stream_id fe), fe_streams := fe_streams fe @ [fe_next_stream_id fe]\<rparr>))"
    using admit room created by (simp add: Let_def)
  then show ?thesis using g room
    by (intro new [of g peer front "(fe_counters fe)\<lparr>co_accepted := Suc (co_accepted (fe_counters fe)),
        co_peak_active := max (co_peak_active (fe_counters fe)) (Suc (length (fe_streams fe)))\<rparr>"]) simp_all
qed

lemma accept_step_streams:
  assumes "accept_step s s'"
  shows "same_buffers (sy_fe s) (sy_fe s') \<or> (\<exists>epoch permitted created started pc.
    accept_admit epoch permitted created started (sy_fe s) = (sy_fe s', pc))"
  using assms
proof cases
  case (admit epoch permitted created started fe pc)
  then show ?thesis by auto
qed (auto simp: same_buffers_def accept_top_def accept_idle_def accept_reject_def)

lemma accept_step_buffers:
  assumes "accept_step s s'" and "streams_inv (sy_fe s)" and "buffer_inv (sy_fe s)"
  shows "buffer_inv (sy_fe s')"
proof -
  let ?fe = "sy_fe s" and ?i = "fe_next_stream_id (sy_fe s)"
  have new: "?i \<notin> set (fe_streams ?fe)" using assms(2) by (auto simp: streams_inv_def)
  have "buffer_inv (?fe\<lparr>fe_next_stream_id := Suc ?i, fe_streams := fe_streams ?fe @ [?i], fe_counters := c,
      fe_object := (fe_object ?fe)(?i := stream_new g ?i (Some peer) (Some front))\<rparr>)"
    if "co_buffered c = co_buffered (fe_counters ?fe)" "int (length (fe_streams ?fe)) < fe_max_streams ?fe" for c g peer front
  proof -
    have "(\<Sum>j \<in> set (fe_streams ?fe). carried (sm_worker (if j = ?i then stream_new g ?i (Some peer) (Some front) else fe_object ?fe j))) =
        (\<Sum>j \<in> set (fe_streams ?fe). carried (sm_worker (fe_object ?fe j)))"
      by (rule sum.cong) (use new in auto)
    then show ?thesis using assms(3) that new
      by (simp add: buffer_inv_def fun_upd_def) (simp add: stream_new_def)
  qed
  note grown = this
  show ?thesis using accept_step_streams [OF assms(1)]
  proof (elim disjE exE)
    fix epoch permitted created started pc
    assume "accept_admit epoch permitted created started ?fe = (sy_fe s', pc)"
    then show ?thesis
    proof (cases rule: accept_admit_streams)
      case none
      then show ?thesis using same_buffers_inv [OF _ assms(3)] by blast
    next
      case (new g peer front c)
      show ?thesis unfolding new(2) by (rule grown [OF new(3,4)])
    qed
  qed (use same_buffers_inv [OF _ assms(3)] in blast)
qed

lemma reached_buffers:
  assumes "reached fe0 s" and "frontend_new host port backlog streams per_stream buffer_total chunk = Inr fe0"
  shows "buffer_inv (sy_fe s)"
  using assms(1)
proof induction
  case init
  then show ?case using frontend_new_Inr [OF assms(2)] by (simp add: buffer_inv_def)
next
  case (step s e s')
  have inv: "streams_inv (sy_fe s)" using reached_inv [OF step(1) assms(2)] by (simp add: system_inv_def)
  show ?case using step(2)
  proof cases
    case by_method
    then show ?thesis using transition_step_buffers same_buffers_inv step(3) by blast
  next
    case by_accept
    then show ?thesis using accept_step_buffers inv step(3) by blast
  next
    case (by_worker i fe)
    then show ?thesis using worker_step_buffers [OF by_worker(2) inv step(3)] by simp
  qed
qed


section \<open>Held responses\<close>

text \<open>Only a granted write changes a transcript, and only a grant makes a granted write.\<close>

lemma transcript_go_on [simp]:
  "sm_transcript (fe_object (go_on i w fe) j) = sm_transcript (fe_object fe j)"
  "sm_transcript (fe_object (close_write sock i r fe) j) = sm_transcript (fe_object fe j)"
  by (simp_all add: close_write_def)

lemma granted_close_write [simp]: "sm_worker (fe_object (close_write sock i r fe) i) \<noteq> W_granted r' sock' limit"
  by (simp add: close_write_def)

lemma adjust_buffer_objects: "adjust_buffer d fe = Inr fe' \<Longrightarrow> fe_object fe' = fe_object fe \<and> fe_hold fe' = fe_hold fe"
  by (auto simp: adjust_buffer_Inr)

lemma relay_read_transcript:
  assumes "sm_worker (fe_object fe i) = W_relay r"
  shows "sm_transcript (fe_object (relay_read sock available i r fe) j) = sm_transcript (fe_object fe j) \<and>
    sm_worker (fe_object (relay_read sock available i r fe) i) \<noteq> W_granted r' sock' limit"
  using assms adjust_buffer_objects by (auto simp: relay_read_def Let_def split: sum.split)

lemma relay_write_transcript:
  "sm_transcript (fe_object (relay_write sock limit taken i r fe) i) =
     (if sm_revoked (fe_object fe i) then sm_transcript (fe_object fe i)
      else observe (sock = Upstream) (sent_data limit taken sock r) (sm_transcript (fe_object fe i))) \<and>
   sm_worker (fe_object (relay_write sock limit taken i r fe) i) \<noteq> W_granted r' sock' limit'"
proof -
  define data where "data = sent_data limit taken sock r"
  define finish where "finish = (\<lambda>r fe. if pending sock r = [] \<and> \<not> read_open (peer_of sock) r
    then close_write sock i r fe else go_on i (W_relay r) fe)"
  have finish: "sm_transcript (fe_object (finish r fe) i) = sm_transcript (fe_object fe i) \<and>
      sm_worker (fe_object (finish r fe) i) \<noteq> W_granted r' sock' limit'" for r fe
    by (simp add: finish_def)
  have adjust: "sm_transcript (fe_object (case adjust_buffer z fe1 of Inl e \<Rightarrow> leave_relay i r1 fe1 | Inr fe \<Rightarrow> finish r1 fe) i) =
      sm_transcript (fe_object fe1 i) \<and>
      sm_worker (fe_object (case adjust_buffer z fe1 of Inl e \<Rightarrow> leave_relay i r1 fe1 | Inr fe \<Rightarrow> finish r1 fe) i) \<noteq> W_granted r' sock' limit'"
    for z fe1 r1
    using finish adjust_buffer_objects by (auto split: sum.split)
  define fe1 where "fe1 = on_object i (observe_write (sock = Upstream) data) (count (\<lambda>c. if sock = Upstream
      then c\<lparr>co_client_to_backend := co_client_to_backend c + length data\<rparr>
      else c\<lparr>co_backend_to_client := co_backend_to_client c + length data\<rparr>) fe)"
  have "sm_transcript (fe_object fe1 i) = observe (sock = Upstream) data (sm_transcript (fe_object fe i))"
    by (simp add: fe1_def observe_write_def)
  moreover have "observe b data t = t" if "length data = 0" for b t using that by (simp add: observe_def)
  ultimately show ?thesis
    unfolding relay_write_def Let_def data_def [symmetric] finish_def [symmetric] fe1_def [symmetric]
    using finish [of r fe] adjust [where z = "- int (length data)" and ?fe1.0 = fe1] by auto
qed

text \<open>
  Since the hold: what was written for a stream admitted after it is what its observer says, and a
  grant to write to its client is within the limit.
\<close>

definition hold_inv :: "nat \<Rightarrow> event list \<Rightarrow> frontend \<Rightarrow> bool" where
  "hold_inv n es fe \<longleftrightarrow> fe_hold fe \<and> n \<le> fe_next_stream_id fe \<and> (\<forall>i \<ge> n. waiting (sm_transcript (fe_object fe i)) \<and>
     tr_app_backend_to_client (sm_transcript (fe_object fe i)) = 0 \<and>
     said (written i Upstream es) (written i Client es) (sm_transcript (fe_object fe i)) \<and>
     (\<forall>r limit. sm_worker (fe_object fe i) = W_granted r Client limit \<longrightarrow>
        limit \<le> server_control_write_limit (rl_to_client r) (sm_transcript (fe_object fe i))))"

abbreviation unwritten :: "event \<Rightarrow> bool" where
  "unwritten e \<equiv> (\<forall>i sock d. e \<noteq> Writes i sock d)"

lemma written_silent [simp]: "unwritten e \<Longrightarrow> written i sock (e # es) = written i sock es"
  by (cases e) auto

lemma hold_inv_silent: "unwritten e \<Longrightarrow> hold_inv n (e # es) fe = hold_inv n es fe"
  unfolding hold_inv_def by (simp only: written_silent simp_thms)

definition fresh_inv :: "frontend \<Rightarrow> bool" where
  "fresh_inv fe \<longleftrightarrow> (\<forall>i \<ge> fe_next_stream_id fe. sm_transcript (fe_object fe i) = transcript_new)"

lemma worker_step_transcript:
  assumes "worker_step i fe e fe'"
  obtains (quiet) "unwritten e" "sm_transcript (fe_object fe' i) = sm_transcript (fe_object fe i)"
      "\<And>r sock limit. sm_worker (fe_object fe' i) = W_granted r sock limit \<Longrightarrow> limit = permitted_write sock i r fe"
    | (wrote) r sock limit k where "sm_worker (fe_object fe i) = W_granted r sock limit" "k \<le> limit"
      "e = Writes i sock (take k (pending sock r))"
      "sm_transcript (fe_object fe' i) = observe (sock = Upstream) (take k (pending sock r)) (sm_transcript (fe_object fe i))"
      "\<And>r sock limit. sm_worker (fe_object fe' i) \<noteq> W_granted r sock limit"
  using assms
proof cases
  case (receives r sock available)
  then show ?thesis using relay_read_transcript [OF receives(3)] by (intro quiet) auto
next
  case (sends r sock limit taken)
  show ?thesis
  proof (cases "sm_revoked (fe_object fe i)")
    case True
    then show ?thesis using sends relay_write_transcript [of sock limit taken i r fe] by (intro quiet) auto
  next
    case False
    then show ?thesis using sends relay_write_transcript [of sock limit taken i r fe]
      by (intro wrote [of r sock limit "min taken limit"]) auto
  qed
next
  case (leave buffered)
  then have "fe_object fe' = (fe_object fe)(i := (fe_object fe i)\<lparr>sm_worker := W_close\<rparr>)"
    using adjust_buffer_objects by (cases "buffered = 0"; cases "adjust_buffer (- buffered) fe") (auto simp: relay_end_def)
  then show ?thesis using leave(1) by (intro quiet) auto
next
  case attach
  then show ?thesis by (intro quiet) (auto simp: worker_attach_def attach_upstream_def raise_if_def split: if_splits)
next
  case (connect outcome)
  then show ?thesis by (intro quiet; cases outcome) (auto simp: worker_connect_def connect_failed_def)
next
  case (give_up r sock limit)
  then show ?thesis by (intro quiet) simp_all
next
  case (grant r sock)
  then show ?thesis by (intro quiet) simp_all
next
  case no_socket
  then show ?thesis by (intro quiet) (simp_all add: connect_failed_def)
next
  case discard
  then show ?thesis by (intro quiet) (simp_all add: worker_discard_def)
next
  case finish
  then show ?thesis by (intro quiet) (simp_all add: worker_finish_def)
qed

lemma worker_step_other:
  assumes "worker_step i fe e fe'" and "j \<noteq> i"
  shows "fe_object fe' j = fe_object fe j"
  using assms(1)
proof (cases rule: worker_step_touches)
  case work
  then show ?thesis using touches_quieter(3) assms(2) by blast
qed (use assms(2) in \<open>auto simp: worker_discard_def worker_finish_def\<close>)

lemma worker_step_hold:
  assumes "worker_step i fe e fe'" and "streams_inv fe" and "hold_inv n es fe"
  shows "hold_inv n (e # es) fe'"
proof -
  note same = quieter_fields [OF worker_step_keeps(1) [OF assms(1,2)]]
  have old: "waiting (sm_transcript (fe_object fe j))" "tr_app_backend_to_client (sm_transcript (fe_object fe j)) = 0" "fe_hold fe"
      "said (written j Upstream es) (written j Client es) (sm_transcript (fe_object fe j))"
      "\<And>r limit. sm_worker (fe_object fe j) = W_granted r Client limit \<Longrightarrow>
         limit \<le> server_control_write_limit (rl_to_client r) (sm_transcript (fe_object fe j))" if "n \<le> j" for j
    using assms(3) that by (auto simp: hold_inv_def)
  have own: "waiting (sm_transcript (fe_object fe' i)) \<and> tr_app_backend_to_client (sm_transcript (fe_object fe' i)) = 0 \<and>
      said (written i Upstream (e # es)) (written i Client (e # es)) (sm_transcript (fe_object fe' i)) \<and>
      (\<forall>r limit. sm_worker (fe_object fe' i) = W_granted r Client limit \<longrightarrow>
        limit \<le> server_control_write_limit (rl_to_client r) (sm_transcript (fe_object fe' i)))" if "n \<le> i"
    using assms(1)
  proof (cases rule: worker_step_transcript)
    case quiet
    have "permitted_write Client i r fe \<le> server_control_write_limit (rl_to_client r) (sm_transcript (fe_object fe i))" for r
      using old(3) [OF that] by (simp add: permitted_write_def)
    then show ?thesis using quiet old [OF that] written_silent [OF quiet(1)] by metis
  next
    case (wrote r sock limit k)
    show ?thesis
    proof (cases sock)
      case Client
      then have "k \<le> server_control_write_limit (pending sock r) (sm_transcript (fe_object fe i))"
        using old(5) [OF that] wrote(1,2) by (auto intro: le_trans)
      then show ?thesis using wrote(3-5) held_write old(1,2) [OF that] waiting_observe said_server [OF old(4) [OF that] old(1) [OF that]]
        by (simp add: Client)
    next
      case Upstream
      then show ?thesis using wrote(3-5) app_from_client old(1,2) [OF that] waiting_observe said_client [OF old(4) [OF that] old(1) [OF that]]
        by simp
    qed
  qed
  have "written j sock (e # es) = written j sock es" if "j \<noteq> i" for j sock
    using assms(1)
  proof (cases rule: worker_step_transcript)
    case quiet
    then show ?thesis by (intro written_silent)
  qed (use that in simp)
  then show ?thesis using assms(3) own worker_step_other [OF assms(1)] unfolding hold_inv_def same by metis
qed

lemma worker_step_fresh:
  assumes "worker_step i fe e fe'" and "streams_inv fe" and "fresh_inv fe"
  shows "fresh_inv fe'"
proof -
  note same = quieter_fields [OF worker_step_keeps(1) [OF assms(1,2)]]
  have "sm_worker (fe_object fe i) \<noteq> W_done" using assms(1) by cases auto
  then have "\<not> fe_next_stream_id fe \<le> i" using assms(2) by (auto simp: streams_inv_def)
  then show ?thesis using assms(3) worker_step_other [OF assms(1)] unfolding fresh_inv_def same by metis
qed


lemma accept_step_hold:
  assumes "accept_step s s'" and "fresh_inv (sy_fe s)"
  shows "hold_inv n es (sy_fe s) \<Longrightarrow> hold_inv n es (sy_fe s')" and "fresh_inv (sy_fe s')"
proof -
  let ?fe = "sy_fe s"
  have hold: "fe_hold (sy_fe s') = fe_hold ?fe"
    using assms(1) by cases (auto simp: accept_top_def accept_idle_def accept_reject_def accept_admit_def Let_def
        split: option.splits if_splits)
  have kept: "(hold_inv n es ?fe \<longrightarrow> hold_inv n es (sy_fe s')) \<and> fresh_inv (sy_fe s')" if "same_buffers ?fe (sy_fe s')"
    using that assms(2) hold unfolding hold_inv_def fresh_inv_def same_buffers_def by auto
  show "hold_inv n es (sy_fe s')" if "hold_inv n es ?fe" using accept_step_streams [OF assms(1)]
  proof (elim disjE exE)
    fix epoch permitted created started pc
    assume "accept_admit epoch permitted created started ?fe = (sy_fe s', pc)"
    then show ?thesis
    proof (cases rule: accept_admit_streams)
      case (new g peer front c)
      have "said (written (fe_next_stream_id ?fe) Upstream es) (written (fe_next_stream_id ?fe) Client es) transcript_new"
        using that assms(2) unfolding hold_inv_def fresh_inv_def by (metis order_refl)
      then show ?thesis using that unfolding new(2) hold_inv_def
        by (auto simp: stream_new_def) (simp_all add: transcript_new_def)
    qed (use kept that in blast)
  qed (use kept that in blast)
  show "fresh_inv (sy_fe s')" using accept_step_streams [OF assms(1)]
  proof (elim disjE exE)
    fix epoch permitted created started pc
    assume "accept_admit epoch permitted created started ?fe = (sy_fe s', pc)"
    then show ?thesis
    proof (cases rule: accept_admit_streams)
      case (new g peer front c)
      show ?thesis using assms(2) unfolding new(2) fresh_inv_def by simp
    qed (use kept in blast)
  qed (use kept in blast)
qed

lemma transition_step_hold:
  assumes "transition_step s e s'"
  shows "hold_inv n es (sy_fe s) \<Longrightarrow> e \<noteq> Disarms \<Longrightarrow> hold_inv n es (sy_fe s')" and "fresh_inv (sy_fe s) \<Longrightarrow> fresh_inv (sy_fe s')"
proof -
  note same = transition_step_buffers [OF assms]
  show "fresh_inv (sy_fe s) \<Longrightarrow> fresh_inv (sy_fe s')" using same unfolding fresh_inv_def same_buffers_def by auto
  have start: "fe_hold (fst (begin_method m fe)) = fe_hold fe" for m fe
    unfolding begin_method_def commit_begin_def drain_begin_def arm_begin_def reopen_begin_def quiesce_begin_def
      qualification_revoke_begin_def close_begin_def close_gate_def next_epoch_def thenE_def raise_if_def require_running_def bindE_def Let_def
    by (cases m) (simp_all split: option.split)
  have after: "fe_hold (fst (after_wait ok ids a fe)) = fe_hold fe" for ok ids a fe
    by (cases a) (auto simp: after_wait_def commit_publish_def next_epoch_def thenE_def raise_if_def require_running_def bindE_def Let_def)
  have "fe_hold (sy_fe s')" if "fe_hold (sy_fe s)" "e \<noteq> Disarms"
    using assms
  proof cases
    case (call m x)
    then show ?thesis using start [of m "sy_fe s"] that(1) by simp
  next
    case (follow ok ids a x)
    then show ?thesis using after [of ok ids a "sy_fe s"] that(1) by simp
  next
    case (revoke i todo n ids a n' fe)
    then show ?thesis using revoke_one_shape [OF revoke(4)] that(1) by simp
  qed (use that in \<open>auto simp: start_frontend_def errors count_revoked_def commit_timeout_def close_gate_def next_epoch_def
        arm_hold_def reopen_open_def quiesce_end_def close_end_def Let_def split: if_splits\<close>)
  then show "hold_inv n es (sy_fe s) \<Longrightarrow> e \<noteq> Disarms \<Longrightarrow> hold_inv n es (sy_fe s')"
    using same unfolding hold_inv_def same_buffers_def by auto
qed

lemma system_step_unwritten:
  "transition_step s e s' \<Longrightarrow> unwritten e"
  by (erule transition_step.cases) (auto split: flow.splits)

lemma system_step_hold:
  assumes "system_step s e s'" and "system_inv s" and "fresh_inv (sy_fe s)"
  shows "hold_inv n es (sy_fe s) \<Longrightarrow> e \<noteq> Disarms \<Longrightarrow> hold_inv n (e # es) (sy_fe s')" and "fresh_inv (sy_fe s')"
proof -
  have inv: "streams_inv (sy_fe s)" using assms(2) by (simp add: system_inv_def)
  show "hold_inv n (e # es) (sy_fe s')" if held: "hold_inv n es (sy_fe s)" "e \<noteq> Disarms"
    using assms(1)
  proof cases
    case by_method
    then show ?thesis using transition_step_hold(1) [OF by_method held]
      by (subst hold_inv_silent) (use system_step_unwritten in blast)+
  next
    case by_accept
    then show ?thesis using accept_step_hold(1) [OF _ assms(3) held(1)] by (subst hold_inv_silent) auto
  next
    case (by_worker i fe)
    then show ?thesis using worker_step_hold [OF by_worker(2) inv held(1)] by simp
  qed
  show "fresh_inv (sy_fe s')"
    using assms(1) transition_step_hold(2) [OF _ assms(3)] accept_step_hold(2) [OF _ assms(3)] worker_step_fresh [OF _ inv assms(3)]
    by cases auto
qed

lemma reached_fresh:
  assumes "reached fe0 s" and "frontend_new host port backlog streams per_stream buffer_total chunk = Inr fe0"
  shows "fresh_inv (sy_fe s)"
  using assms(1)
proof induction
  case init
  then show ?case using frontend_new_Inr(12) [OF assms(2)] by (simp add: fresh_inv_def)
next
  case (step s e s')
  then show ?case using system_step_hold(2) reached_inv [OF step(1) assms(2)] by blast
qed

lemma held_run_inv:
  assumes "held_run s es s'" and "system_inv s" and "fresh_inv (sy_fe s)" and "hold_inv n [] (sy_fe s)"
  shows "system_inv s' \<and> fresh_inv (sy_fe s') \<and> hold_inv n es (sy_fe s')"
  using assms
proof induction
  case (more es t e u)
  then show ?case using system_step_keeps system_step_hold by blast
qed simp


section \<open>What was committed\<close>

text \<open>
  No stream ever belonged to a generation beyond the last one published; until the accept loop has
  seen a publication, no stream ever belonged to it.
\<close>

abbreviation number :: "frontend \<Rightarrow> nat \<Rightarrow> int" where
  "number fe i \<equiv> cg_generation (sm_generation (fe_object fe i))"

definition numbers_inv :: "transition \<Rightarrow> frontend \<Rightarrow> bool" where
  "numbers_inv t fe \<longleftrightarrow> (\<forall>i. number fe i \<le> fe_last fe) \<and>
     (\<forall>epoch. t = T_observe epoch \<longrightarrow> fe_observed_epoch fe \<noteq> epoch \<longrightarrow> (\<forall>i. number fe i < fe_last fe))"

definition same_numbers :: "frontend \<Rightarrow> frontend \<Rightarrow> bool" where
  "same_numbers fe fe' \<longleftrightarrow> fe_last fe' = fe_last fe \<and> fe_observed_epoch fe' = fe_observed_epoch fe \<and>
     (\<forall>i. sm_generation (fe_object fe' i) = sm_generation (fe_object fe i))"

lemma same_numbers_inv:
  "same_numbers fe fe' \<Longrightarrow> numbers_inv t fe \<Longrightarrow> (\<And>epoch. t' = T_observe epoch \<Longrightarrow> t = t') \<Longrightarrow> numbers_inv t' fe'"
  unfolding numbers_inv_def same_numbers_def by metis

lemma quieter_numbers: "quieter fe fe' \<Longrightarrow> same_numbers fe fe'"
  using quieter_fields(3,4) [of fe fe'] by (simp add: same_numbers_def quieter_def)

lemma begin_method_numbers:
  "same_numbers fe (fst (begin_method m fe)) \<and> snd (begin_method m fe) \<noteq> Goes (T_observe epoch)"
  unfolding begin_method_def commit_begin_def drain_begin_def arm_begin_def reopen_begin_def quiesce_begin_def
    qualification_revoke_begin_def close_begin_def close_gate_def next_epoch_def thenE_def raise_if_def require_running_def bindE_def Let_def
  by (cases m) (simp_all add: same_numbers_def split: option.split)

lemma after_wait_numbers:
  assumes "numbers_inv (T_after ok ids a) fe" and "draining ids a fe" and "after_wait ok ids a fe = x"
  shows "case snd x of Goes t \<Rightarrow> numbers_inv t (fst x) | Ends _ \<Rightarrow> numbers_inv T_idle (fst x)"
proof (cases "\<exists>g. a = After_commit g \<and> ok")
  case True
  then obtain g where a: "a = After_commit g" ok by blast
  with assms(2) have run: "running fe" and last: "fe_last fe < cg_generation g" by (simp_all add: draining_def)
  have "x = (next_epoch (fe\<lparr>fe_active := Some g, fe_last := cg_generation g, fe_accepting := True, fe_barrier := False\<rparr>),
      Goes (T_observe (Suc (fe_admission_epoch fe))))"
    using assms(3) run by (simp add: a after_wait_def commit_publish_def require_running_def running_def raise_if_def Let_def next_epoch_def)
  moreover have "number fe i < cg_generation g" for i
    using assms(1) last by (auto simp: numbers_inv_def intro: le_less_trans)
  ultimately show ?thesis by (auto simp: numbers_inv_def next_epoch_def less_imp_le)
next
  case False
  have "same_numbers fe (fst x) \<and> (\<forall>epoch. snd x \<noteq> Goes (T_observe epoch))"
    using False unfolding assms(3) [symmetric] by (cases a; cases ok) (simp_all add: after_wait_def same_numbers_def)
  then show ?thesis using same_numbers_inv [OF _ assms(1)] by (cases "snd x") (simp_all, blast+)
qed

lemma transition_step_numbers:
  assumes "transition_step s e s'" and "system_inv s" and "numbers_inv (sy_transition s) (sy_fe s)"
  shows "numbers_inv (sy_transition s') (sy_fe s')"
  using assms(1)
proof cases
  case (start bound fe)
  then have "same_numbers (sy_fe s) fe" by (auto simp: start_frontend_def errors same_numbers_def)
  then show ?thesis using start same_numbers_inv [OF _ assms(3)] by simp
next
  case (call m x)
  then show ?thesis using begin_method_numbers [of "sy_fe s" m] same_numbers_inv [OF _ assms(3)]
    by (cases "snd x") auto
next
  case (follow ok ids a x)
  have "draining ids a (sy_fe s)" using assms(2) follow(3) by (simp add: system_inv_def transition_inv_def)
  from after_wait_numbers [OF assms(3) [unfolded follow(3)] this follow(4)] show ?thesis
    using follow by (cases "snd x") auto
next
  case (revoke i todo n ids a n' fe)
  have "same_numbers (sy_fe s) fe" by (simp add: revoke_one_shape [OF revoke(4)] same_numbers_def)
  then show ?thesis using same_numbers_inv [OF _ assms(3), of fe "sy_transition s'"] revoke by simp
next
  case (observed epoch)
  then show ?thesis using assms(3) by (simp add: numbers_inv_def)
qed (use assms(3) in \<open>auto simp: numbers_inv_def count_revoked_def qualification_disarm_def commit_timeout_def close_gate_def
      next_epoch_def arm_hold_def reopen_open_def quiesce_end_def close_end_def Let_def split: if_splits\<close>)

lemma accept_step_numbers:
  assumes "accept_step s s'" and "system_inv s" and "numbers_inv (sy_transition s) (sy_fe s)"
  shows "numbers_inv (sy_transition s') (sy_fe s')"
  using assms(1)
proof cases
  case (top fe pc)
  have "transition_inv (sy_transition s) (sy_fe s)" using assms(2) by (simp add: system_inv_def)
  then show ?thesis using top assms(3) by (auto simp: accept_top_def numbers_inv_def transition_inv_def)
next
  case (admit epoch permitted created started fe pc)
  have inv: "gate_inv (sy_fe s)" "transition_inv (sy_transition s) (sy_fe s)" "fe_observed_epoch (sy_fe s) = epoch"
    using assms(2) admit(2) by (simp_all add: system_inv_def accept_inv_def)
  show ?thesis
  proof (cases "same_numbers (sy_fe s) fe")
    case True
    then show ?thesis using admit same_numbers_inv [OF _ assms(3)] by simp
  next
    case False
    then obtain g where g: "fe_active (sy_fe s) = Some g" and now: "fe_admission_epoch (sy_fe s) = epoch"
      and fe: "fe_last fe = fe_last (sy_fe s)" "fe_observed_epoch fe = epoch"
        "\<And>i. number fe i = number (sy_fe s) i \<or> number fe i = cg_generation g"
      using admit(3) inv(3)
      by (auto simp: accept_admit_def Let_def same_numbers_def stream_new_def split: option.splits if_splits)
    have "number fe i \<le> fe_last fe" for i
      using fe(1) fe(3) [of i] assms(3) inv(1) g by (auto simp: numbers_inv_def gate_inv_def)
    moreover have "sy_transition s = T_observe epoch' \<Longrightarrow> epoch' = epoch" for epoch'
      using inv(2) now by (simp add: transition_inv_def)
    ultimately show ?thesis using admit(1) fe(2) by (auto simp: numbers_inv_def)
  qed
qed (use assms(3) in \<open>auto simp: numbers_inv_def accept_idle_def accept_reject_def\<close>)

lemma reached_numbers:
  assumes "reached fe0 s" and "frontend_new host port backlog streams per_stream buffer_total chunk = Inr fe0"
  shows "numbers_inv (sy_transition s) (sy_fe s)"
  using assms(1)
proof induction
  case init
  have "number fe0 i = 0 \<and> fe_last fe0 = 0" for i
    using frontend_new_Inr(15,16) [OF assms(2)] by (simp add: no_generation_def)
  then show ?case by (simp add: numbers_inv_def)
next
  case (step s e s')
  have inv: "system_inv s" by (rule reached_inv [OF step(1) assms(2)])
  show ?case using step(2)
  proof cases
    case by_method
    then show ?thesis using transition_step_numbers inv step(3) by blast
  next
    case by_accept
    then show ?thesis using accept_step_numbers inv step(3) by blast
  next
    case (by_worker i fe)
    have "same_numbers (sy_fe s) fe"
      using worker_step_keeps(1) [OF by_worker(2)] inv by (simp add: system_inv_def quieter_numbers)
    then show ?thesis using by_worker(1) same_numbers_inv [OF _ step(3)] by simp
  qed
qed

text \<open>The candidate a transition has in hand; it and the active generation are those of the last commit.\<close>

fun awaited :: "after \<Rightarrow> committed_generation option" where
  "awaited (After_commit g) = Some g"
| "awaited (After_quiesce g _ _) = Some g"
| "awaited _ = None"

fun candidate :: "transition \<Rightarrow> committed_generation option" where
  "candidate (T_revoking _ _ _ a) = awaited a"
| "candidate (T_waiting _ a) = awaited a"
| "candidate (T_after _ _ a) = awaited a"
| "candidate (T_quiesce_drain g _ _) = Some g"
| "candidate _ = None"

definition committed_inv :: "event list \<Rightarrow> system \<Rightarrow> bool" where
  "committed_inv es s \<longleftrightarrow> (\<forall>g. g \<in> set_option (fe_active (sy_fe s)) \<union> set_option (candidate (sy_transition s)) \<longrightarrow>
     last_commit es = Some g)"

text \<open>A flow that brings no generation but those at hand, and one that brings that of a new commit.\<close>

abbreviation flow_candidate :: "flow \<Rightarrow> committed_generation option" where
  "flow_candidate f \<equiv> (case f of Goes t \<Rightarrow> candidate t | Ends _ \<Rightarrow> None)"

lemma begin_method_candidate:
  assumes "begin_method m fe = x"
  shows "(\<exists>g. m = Commit g \<and> fe_active (fst x) = None \<and> called m (snd x) = Calls m \<and> flow_candidate (snd x) = Some g) \<or>
    (\<forall>g. called m (snd x) \<noteq> Calls (Commit g)) \<and>
    set_option (fe_active (fst x)) \<union> set_option (flow_candidate (snd x)) \<subseteq> set_option (fe_active fe)"
  using assms unfolding begin_method_def commit_begin_def drain_begin_def arm_begin_def reopen_begin_def quiesce_begin_def
    qualification_revoke_begin_def close_begin_def close_gate_def next_epoch_def thenE_def raise_if_def require_running_def bindE_def Let_def
  by (cases m) (auto split: option.splits if_splits)

lemma after_wait_candidate:
  "set_option (fe_active (fst (after_wait ok ids a fe))) \<union> set_option (flow_candidate (snd (after_wait ok ids a fe))) \<subseteq>
     set_option (fe_active fe) \<union> set_option (awaited a)"
  by (cases a) (auto simp: after_wait_def commit_publish_def next_epoch_def thenE_def raise_if_def require_running_def bindE_def Let_def)

lemma committed_inv_kept:
  assumes "committed_inv es s" and "last_commit (e # es) = last_commit es"
    and "set_option (fe_active (sy_fe s')) \<union> set_option (candidate (sy_transition s')) \<subseteq>
      set_option (fe_active (sy_fe s)) \<union> set_option (candidate (sy_transition s))"
  shows "committed_inv (e # es) s'"
  using assms unfolding committed_inv_def by auto

lemma transition_step_committed:
  assumes "transition_step s e s'" and "committed_inv es s"
  shows "committed_inv (e # es) s'"
  using assms(1)
proof cases
  case (start bound fe)
  then show ?thesis by (intro committed_inv_kept [OF assms(2)]) (auto simp: start_frontend_def errors)
next
  case (call m x)
  from begin_method_candidate [OF call(4)] show ?thesis
  proof (elim disjE exE conjE)
    fix g assume "m = Commit g" "fe_active (fst x) = None" "called m (snd x) = Calls m" "flow_candidate (snd x) = Some g"
    then show ?thesis by (cases "snd x") (simp_all add: call committed_inv_def)
  next
    assume "\<forall>g. called m (snd x) \<noteq> Calls (Commit g)"
      and new: "set_option (fe_active (fst x)) \<union> set_option (flow_candidate (snd x)) \<subseteq> set_option (fe_active (sy_fe s))"
    then have "last_commit (e # es) = last_commit es"
      by (cases m) (auto simp: call(1) split: flow.splits)
    moreover have "candidate (sy_transition s') = flow_candidate (snd x)" "fe_active (sy_fe s') = fe_active (fst x)"
      by (cases "snd x"; simp add: call(2))+
    ultimately show ?thesis using new by (intro committed_inv_kept [OF assms(2)]) auto
  qed
next
  case (follow ok ids a x)
  have "last_commit (e # es) = last_commit es" by (simp add: follow(1) split: flow.split)
  moreover have "candidate (sy_transition s') = flow_candidate (snd x)" "fe_active (sy_fe s') = fe_active (fst x)"
    by (cases "snd x"; simp add: follow(2))+
  ultimately show ?thesis using after_wait_candidate [of ok ids a "sy_fe s"] follow(3,4)
    by (intro committed_inv_kept [OF assms(2)]) auto
next
  case (revoke i todo n ids a n' fe)
  then show ?thesis using revoke_one_shape [OF revoke(4)] by (intro committed_inv_kept [OF assms(2)]) auto
qed (rule committed_inv_kept [OF assms(2)]; auto simp: count_revoked_def qualification_disarm_def commit_timeout_def close_gate_def
      next_epoch_def arm_hold_def reopen_open_def quiesce_end_def close_end_def Let_def split: if_splits)+

lemma traced_reached: "traced fe0 es s \<Longrightarrow> reached fe0 s"
  by (induction rule: traced.induct) (auto intro: reached.intros)

lemma held_run_traced: "held_run s es s' \<Longrightarrow> traced fe0 es0 s \<Longrightarrow> traced fe0 (es @ es0) s'"
  by (induction rule: held_run.induct) (auto intro: traced.step)

lemma worker_step_event: "worker_step i fe e fe' \<Longrightarrow> last_commit (e # es) = last_commit es"
  by (erule worker_step.cases) (simp_all split: if_split)

lemma accept_step_active:
  assumes "accept_step s s'"
  shows "fe_active (sy_fe s') = fe_active (sy_fe s) \<and> sy_transition s' = sy_transition s"
  using assms by cases (auto simp: accept_top_def accept_idle_def accept_reject_def accept_admit_def Let_def
      split: option.splits if_splits)

lemma traced_committed:
  assumes "traced fe0 es s" and "frontend_new host port backlog streams per_stream buffer_total chunk = Inr fe0"
  shows "committed_inv es s"
  using assms(1)
proof induction
  case init
  then show ?case using frontend_new_Inr(14) [OF assms(2)] by (simp add: committed_inv_def)
next
  case (step es s e s')
  have inv: "streams_inv (sy_fe s)" using reached_inv [OF traced_reached [OF step(1)] assms(2)] by (simp add: system_inv_def)
  show ?case using step(2)
  proof cases
    case by_method
    then show ?thesis using transition_step_committed step(3) by blast
  next
    case by_accept
    then show ?thesis using accept_step_active [OF by_accept(2)] by (intro committed_inv_kept [OF step(3)]) auto
  next
    case (by_worker i fe)
    then show ?thesis using quieter_fields(2) [OF worker_step_keeps(1) [OF by_worker(2) inv]]
      by (intro committed_inv_kept [OF step(3) worker_step_event]) auto
  qed
qed


section \<open>Properties\<close>

text \<open>A small frontend, and the run in which it starts and is about to see its first publication.\<close>

definition sample_generation :: committed_generation where
  "sample_generation = \<lparr>cg_generation = 1, cg_backend_id = ''a'', cg_backend_host = ''127.0.0.1'', cg_backend_port = 9000,
     cg_contract_digest = replicate 64 (CHR ''0'')\<rparr>"

definition sample_frontend :: frontend where
  "sample_frontend = \<lparr>fe_listen_host = ''127.0.0.1'', fe_ipv6 = False, fe_listen_port = 1080, fe_backlog = 8,
     fe_max_streams = 2, fe_per_stream = 4, fe_total = 8, fe_io_chunk = 4, fe_listener = False, fe_bound = None,
     fe_started = False, fe_closing = False, fe_closed = False, fe_accepting = False, fe_active = None, fe_last = 0,
     fe_streams = [], fe_next_stream_id = 1, fe_idle_sequence = 0, fe_idle_epoch = 0, fe_admission_epoch = 0,
     fe_observed_epoch = 0, fe_barrier = False, fe_quiesce_epoch = 0, fe_hold = False,
     fe_counters = \<lparr>co_buffered = 0, co_peak_buffered = 0, co_peak_active = 0, co_accepted = 0, co_connected = 0,
       co_client_to_backend = 0, co_backend_to_client = 0, co_completed = 0, co_revoked = 0,
       co_rejected_uncommitted = 0, co_rejected_overload = 0, co_connect_failures = 0\<rparr>,
     fe_object = (\<lambda>_. at_rest)\<rparr>"

lemma sample_new: "frontend_new ''127.0.0.1'' 1080 8 2 4 None 4 = Inr sample_frontend"
proof -
  have "numeric_loopback ''127.0.0.1'' ''listen_host'' = Inr (''127.0.0.1'', False)" by code_simp
  then show ?thesis by (simp add: frontend_new_def bounded_int_def sample_frontend_def Let_def)
qed

definition sample_started :: frontend where
  "sample_started = sample_frontend\<lparr>fe_listener := True, fe_bound := Some (''127.0.0.1'', 1080), fe_started := True\<rparr>"

definition sample_published :: frontend where
  "sample_published = sample_started\<lparr>fe_active := Some sample_generation, fe_last := 1, fe_accepting := True,
     fe_admission_epoch := 2\<rparr>"

definition sample_events :: "event list" where
  "sample_events = [Silent, Silent, Silent, Calls (Commit sample_generation), Silent]"

lemma sample_run:
  "traced sample_frontend sample_events \<lparr>sy_fe = sample_published, sy_transition = T_observe 2, sy_accept = A_top\<rparr>"
proof -
  let ?g = sample_generation
  let ?sys = "\<lambda>fe t. \<lparr>sy_fe = fe, sy_transition = t, sy_accept = A_top\<rparr>"
  note go = traced.step [OF _ by_method]
  have "start_frontend (''127.0.0.1'', 1080) sample_frontend = Inr sample_started"
    by (simp add: start_frontend_def sample_frontend_def sample_started_def raise_if_def)
  from go [OF traced.init transition_step.start, unfolded system.simps, OF this]
  have 1: "traced sample_frontend [Silent] (?sys sample_started T_idle)" by simp
  have "begin_method (Commit ?g) sample_started = (close_gate sample_started, Goes (T_revoking [] 0 [] (After_commit ?g)))"
    by (simp add: begin_method_def commit_begin_def require_running_def raise_if_def sample_started_def sample_frontend_def
        sample_generation_def)
  from go [OF 1 transition_step.call, of "Commit ?g", unfolded system.simps, OF refl this]
  have 2: "traced sample_frontend [Calls (Commit ?g), Silent]
    (?sys (close_gate sample_started) (T_revoking [] 0 [] (After_commit ?g)))" by simp
  from go [OF 2 transition_step.revoked, unfolded system.simps, OF refl]
  have 3: "traced sample_frontend [Silent, Calls (Commit ?g), Silent]
    (?sys (close_gate sample_started) (T_waiting [] (After_commit ?g)))"
    by (simp add: count_revoked_def)
  from go [OF 3 transition_step.waited, unfolded system.simps, OF refl, of True]
  have 4: "traced sample_frontend [Silent, Silent, Calls (Commit ?g), Silent]
    (?sys (close_gate sample_started) (T_after True [] (After_commit ?g)))"
    by (simp add: stopped_def)
  have "after_wait True [] (After_commit ?g) (close_gate sample_started) = (sample_published, Goes (T_observe 2))"
    by (simp add: after_wait_def commit_publish_def require_running_def raise_if_def sample_published_def sample_started_def
        sample_frontend_def sample_generation_def close_gate_def next_epoch_def Let_def)
  from go [OF 4 transition_step.follow, unfolded system.simps, OF refl this]
  show ?thesis by (simp add: sample_events_def)
qed

definition sample_open :: frontend where
  "sample_open = sample_published\<lparr>fe_observed_epoch := 2\<rparr>"

definition sample_held :: frontend where
  "sample_held = sample_open\<lparr>fe_hold := True\<rparr>"

definition sample_admitted :: "frontend \<Rightarrow> frontend" where
  "sample_admitted fe = fe\<lparr>fe_next_stream_id := 2, fe_streams := [1],
     fe_counters := (fe_counters fe)\<lparr>co_accepted := 1, co_peak_active := 1\<rparr>,
     fe_object := (fe_object fe)(1 := stream_new sample_generation 1 (Some (''127.0.0.1'', 5)) (Some (''127.0.0.1'', 1080)))\<rparr>"

text \<open>The publication is seen, the commit returns, the hold is armed, and a client is admitted.\<close>

lemma sample_seen:
  "traced sample_frontend (Silent # sample_events)
     \<lparr>sy_fe = sample_open, sy_transition = T_observe 2, sy_accept = A_listen 2 True\<rparr>"
proof -
  have "accept_top sample_published = (sample_open, A_listen 2 True)"
    by (simp add: accept_top_def sample_open_def sample_published_def sample_started_def sample_frontend_def)
  from traced.step [OF sample_run by_accept [OF accept_step.top], unfolded system.simps, OF refl this]
  show ?thesis by simp
qed

lemma sample_commit_returns:
  "transition_step \<lparr>sy_fe = sample_open, sy_transition = T_observe 2, sy_accept = A_listen 2 True\<rparr> (Answers (Inr A_unit))
     \<lparr>sy_fe = sample_open, sy_transition = T_idle, sy_accept = A_listen 2 True\<rparr>"
proof -
  have "fe_observed_epoch sample_open = 2" by (simp add: sample_open_def)
  with transition_step.observed [of "\<lparr>sy_fe = sample_open, sy_transition = T_observe 2, sy_accept = A_listen 2 True\<rparr>" 2]
  show ?thesis by simp
qed

lemma sample_arm:
  "reached sample_frontend \<lparr>sy_fe = sample_held, sy_transition = T_idle, sy_accept = A_listen 2 True\<rparr>"
proof -
  let ?sys = "\<lambda>fe t. \<lparr>sy_fe = fe, sy_transition = t, sy_accept = A_listen 2 True\<rparr>"
  have "begin_method Arm sample_open = (sample_open, Goes (T_arm sample_generation))"
    by (simp add: begin_method_def arm_begin_def require_running_def raise_if_def sample_open_def sample_published_def
        sample_started_def sample_frontend_def)
  from reached.step [OF reached.step [OF traced_reached [OF sample_seen] by_method [OF sample_commit_returns]]
      by_method [OF transition_step.call], unfolded system.simps, OF refl this]
  have 1: "reached sample_frontend (?sys sample_open (T_arm sample_generation))" by simp
  have "arm_hold sample_generation sample_open = (sample_held, Ends (Inr (A_generation sample_generation)))"
    by (simp add: arm_hold_def sample_held_def sample_open_def sample_published_def sample_started_def sample_frontend_def)
  from reached.step [OF 1 by_method [OF transition_step.hold], unfolded system.simps, OF refl this]
  show ?thesis by simp
qed

lemma sample_admit:
  assumes "fe \<in> {sample_open, sample_held}"
  shows "held_run \<lparr>sy_fe = fe, sy_transition = t, sy_accept = A_listen 2 True\<rparr> [Silent, Silent]
    \<lparr>sy_fe = sample_admitted fe, sy_transition = t, sy_accept = A_top\<rparr>"
proof -
  have "accept_admit 2 True (Some ((''127.0.0.1'', 5), (''127.0.0.1'', 1080))) True fe = (sample_admitted fe, A_top)"
    using assms by (auto simp: accept_admit_def sample_admitted_def sample_held_def sample_open_def sample_published_def
        sample_started_def sample_frontend_def Let_def)
  note admit = this
  have 1: "held_run \<lparr>sy_fe = fe, sy_transition = t, sy_accept = A_listen 2 True\<rparr> [Silent]
    \<lparr>sy_fe = fe, sy_transition = t, sy_accept = A_client 2 True\<rparr>"
  proof -
    from accept_step.client [of "\<lparr>sy_fe = fe, sy_transition = t, sy_accept = A_listen 2 True\<rparr>" 2 True]
    have "accept_step \<lparr>sy_fe = fe, sy_transition = t, sy_accept = A_listen 2 True\<rparr>
        \<lparr>sy_fe = fe, sy_transition = t, sy_accept = A_client 2 True\<rparr>" by simp
    from held_run.more [OF held_run.stay by_accept [OF this]] show ?thesis by simp
  qed
  from held_run.more [OF 1 by_accept [OF accept_step.admit], unfolded system.simps, OF refl admit]
  show ?thesis by simp
qed

lemma sample_stream: "traced sample_frontend (Silent # Silent # Silent # sample_events)
    \<lparr>sy_fe = sample_admitted sample_open, sy_transition = T_observe 2, sy_accept = A_top\<rparr>"
  using held_run_traced [OF sample_admit sample_seen] by simp

text \<open>
  The admitted stream while responses are held: its worker connects, passes on a greeting, and reads
  the answer of the backend together with two bytes of the tunnel.
\<close>

definition sample_greeting :: string where
  "sample_greeting = map char_of [5, 1, 0 :: nat]"

definition sample_answer :: string where
  "sample_answer = map char_of [5, 0 :: nat]"

definition sample_asking :: frontend where
  "sample_asking = relay_read Client sample_greeting 1 relay_new
     (worker_connect Connected 1 (worker_attach 1 (sample_admitted sample_held)))"

definition sample_asked :: frontend where
  "sample_asked = relay_write Upstream 3 3 1 (relay_new\<lparr>rl_to_upstream := sample_greeting, rl_buffered := 3\<rparr>)
     (go_on 1 (W_granted (relay_new\<lparr>rl_to_upstream := sample_greeting, rl_buffered := 3\<rparr>) Upstream 3) sample_asking)"

definition sample_answering :: frontend where
  "sample_answering = relay_read Upstream (sample_answer @ ''xy'') 1 relay_new sample_asked"

definition sample_answered :: frontend where
  "sample_answered = relay_write Client 2 4 1 (relay_new\<lparr>rl_to_client := sample_answer @ ''xy'', rl_buffered := 4\<rparr>)
     (go_on 1 (W_granted (relay_new\<lparr>rl_to_client := sample_answer @ ''xy'', rl_buffered := 4\<rparr>) Client 2) sample_answering)"

lemma sample_workers:
  "sm_worker (fe_object (sample_admitted sample_held) 1) = W_attach"
  "sm_worker (fe_object (worker_attach 1 (sample_admitted sample_held)) 1) = W_connect"
  "sm_worker (fe_object (worker_connect Connected 1 (worker_attach 1 (sample_admitted sample_held))) 1) = W_relay relay_new"
  "sm_worker (fe_object sample_asking 1) = W_relay (relay_new\<lparr>rl_to_upstream := sample_greeting, rl_buffered := 3\<rparr>)"
  "sm_worker (fe_object sample_asked 1) = W_relay relay_new"
  "sm_worker (fe_object sample_answering 1) = W_relay (relay_new\<lparr>rl_to_client := sample_answer @ ''xy'', rl_buffered := 4\<rparr>)"
  "permitted_write Upstream 1 (relay_new\<lparr>rl_to_upstream := sample_greeting, rl_buffered := 3\<rparr>) sample_asking = 3"
  "permitted_write Client 1 (relay_new\<lparr>rl_to_client := sample_answer @ ''xy'', rl_buffered := 4\<rparr>) sample_answering = 2"
  "\<not> sm_revoked (fe_object sample_asking 1)" "\<not> sm_revoked (fe_object sample_answering 1)"
  by code_simp+

lemma held_worker:
  "held_run s es \<lparr>sy_fe = fe, sy_transition = t, sy_accept = pc\<rparr> \<Longrightarrow> worker_step i fe e fe' \<Longrightarrow> e \<noteq> Disarms \<Longrightarrow>
     held_run s (e # es) \<lparr>sy_fe = fe', sy_transition = t, sy_accept = pc\<rparr>"
  by (drule held_run.more [OF _ by_worker]) simp_all

definition sample_talk :: "event list" where
  "sample_talk = [Writes 1 Client sample_answer, Silent, Silent, Writes 1 Upstream sample_greeting,
     Silent, Silent, Silent, Silent, Silent, Silent]"

lemma sample_handshake:
  "held_run \<lparr>sy_fe = sample_held, sy_transition = T_idle, sy_accept = A_listen 2 True\<rparr> sample_talk
     \<lparr>sy_fe = sample_answered, sy_transition = T_idle, sy_accept = A_top\<rparr>"
proof -
  let ?s = "\<lparr>sy_fe = sample_held, sy_transition = T_idle, sy_accept = A_listen 2 True\<rparr>"
  let ?sys = "\<lambda>fe. \<lparr>sy_fe = fe, sy_transition = T_idle, sy_accept = A_top\<rparr>"
  let ?r = "relay_new\<lparr>rl_to_upstream := sample_greeting, rl_buffered := 3\<rparr>"
  let ?q = "relay_new\<lparr>rl_to_client := sample_answer @ ''xy'', rl_buffered := 4\<rparr>"
  have 0: "held_run ?s [Silent, Silent] (?sys (sample_admitted sample_held))" by (rule sample_admit) simp
  note 1 = held_worker [OF 0 worker_step.attach [OF sample_workers(1)]]
  note 2 = held_worker [OF 1 worker_step.connect [OF sample_workers(2), where outcome = Connected]]
  note 3 = held_worker [OF 2 worker_step.receives [OF sample_workers(3), where sock = Client and available = sample_greeting],
      folded sample_asking_def]
  note 4 = held_worker [OF 3 worker_step.grant [OF sample_workers(4), where sock = Upstream], unfolded sample_workers(7)]
  note 5 = held_worker [OF 4 worker_step.sends [where i = 1 and r = ?r and sock = Upstream and limit = 3 and taken = 3], folded sample_asked_def]
  note 6 = held_worker [OF 5 worker_step.receives [OF sample_workers(5), where sock = Upstream and available = "sample_answer @ ''xy''"],
      folded sample_answering_def]
  note 7 = held_worker [OF 6 worker_step.grant [OF sample_workers(6), where sock = Client], unfolded sample_workers(8)]
  note 8 = held_worker [OF 7 worker_step.sends [where i = 1 and r = ?q and sock = Client and limit = 2 and taken = 4], folded sample_answered_def]
  from 8 show ?thesis using sample_workers(9,10)
    by (simp add: sample_talk_def relay_new_def sample_greeting_def sample_answer_def)
qed

text \<open>
  C37: Client traffic reaches the one committed generation only. In every reachable state of a
  frontend, with any interleaving of its threads: an open gate has an active generation; the active
  generation is the candidate of the last commit that got past its checks, the whole record, and
  every stream whose worker could still connect, read or write belongs to it; and every such stream
  is registered, so that revoking the registered streams revokes them all.
\<close>

theorem traffic_reaches_committed_only:
  assumes "frontend_new host port backlog streams per_stream buffer_total chunk = Inr fe0" and "traced fe0 es s"
  shows "let fe = sy_fe s in
    (fe_accepting fe \<longrightarrow> fe_active fe \<noteq> None) \<and>
    (\<forall>g. fe_active fe = Some g \<longrightarrow> last_commit es = Some g \<and> cg_generation g = fe_last fe \<and>
       (\<forall>i. sm_worker (fe_object fe i) \<notin> {W_finish, W_done} \<longrightarrow> sm_generation (fe_object fe i) = g)) \<and>
    (\<forall>i. sm_worker (fe_object fe i) \<notin> {W_finish, W_done} \<longrightarrow>
       i \<in> set (fe_streams fe) \<and> cg_generation (sm_generation (fe_object fe i)) \<le> fe_last fe)"
proof -
  have "streams_inv (sy_fe s)" "gate_inv (sy_fe s)"
    using reached_inv [OF traced_reached [OF assms(2)] assms(1)] by (simp_all add: system_inv_def)
  moreover have "fe_active (sy_fe s) = Some g \<Longrightarrow> last_commit es = Some g" for g
    using traced_committed [OF assms(2,1)] by (simp add: committed_inv_def)
  ultimately show ?thesis unfolding Let_def streams_inv_def gate_inv_def by blast
qed

theorem traffic_reaches_committed_only_witness:
  "last_commit (Silent # Silent # Silent # sample_events) = Some sample_generation \<and>
   1 \<in> set (fe_streams (sample_admitted sample_open)) \<and> sm_generation (fe_object (sample_admitted sample_open) 1) = sample_generation"
proof -
  have "fe_active (sample_admitted sample_open) = Some sample_generation"
    by (simp add: sample_admitted_def sample_open_def sample_published_def)
  moreover have "sm_worker (fe_object (sample_admitted sample_open) 1) \<notin> {W_finish, W_done}"
    by (simp add: sample_admitted_def stream_new_def)
  ultimately show ?thesis using traffic_reaches_committed_only [OF sample_new sample_stream] by (simp add: Let_def)
qed

text \<open>
  C38: A commit is all or nothing. When \<open>commit_generation\<close> returns, the gate is open for the very
  candidate it was called with, the accept loop has seen the publication, and every stream whose
  worker could still move bytes is one of the candidate. When it raises after the old generation was
  shut out, it raises \<open>FrontendDrainTimeout\<close>, the gate is shut, nothing is published, and no stream,
  running or finished, ever belonged to the candidate.
\<close>

theorem commit_all_or_nothing:
  assumes "frontend_new host port backlog streams per_stream buffer_total chunk = Inr fe0" and "traced fe0 es s"
    and "transition_step s (Answers r) s'" and "sy_transition s' = T_idle"
    and "(\<exists>epoch. sy_transition s = T_observe epoch) \<or> (\<exists>ok ids g. sy_transition s = T_after ok ids (After_commit g))"
  shows "\<exists>g. last_commit es = Some g \<and> (let fe = sy_fe s' in
    (case r of
       Inr a \<Rightarrow> a = A_unit \<and> fe_accepting fe \<and> fe_observed_epoch fe = fe_admission_epoch fe \<and> fe_active fe = Some g \<and>
         (\<forall>i. sm_worker (fe_object fe i) \<notin> {W_finish, W_done} \<longrightarrow> sm_generation (fe_object fe i) = g)
     | Inl e \<Rightarrow> exc_class e = FrontendDrainTimeout \<and> \<not> fe_accepting fe \<and> fe_active fe = None \<and>
         (\<forall>i. cg_generation (sm_generation (fe_object fe i)) < cg_generation g)))"
proof -
  have inv: "streams_inv (sy_fe s)" "gate_inv (sy_fe s)" "transition_inv (sy_transition s) (sy_fe s)"
    using reached_inv [OF traced_reached [OF assms(2)] assms(1)] by (simp_all add: system_inv_def)
  have numbers: "numbers_inv (sy_transition s) (sy_fe s)" by (rule reached_numbers [OF traced_reached [OF assms(2)] assms(1)])
  have committed: "committed_inv es s" by (rule traced_committed [OF assms(2,1)])
  show ?thesis using assms(3)
  proof cases
    case (refuse e)
    then show ?thesis using assms(4,5) by auto
  next
    case (follow ok ids a x)
    then obtain g where a: "a = After_commit g" using assms(5) by auto
    have d: "draining ids (After_commit g) (sy_fe s)" using inv(3) follow(3) by (simp add: a transition_inv_def)
    then have "running (sy_fe s)" "\<not> fe_accepting (sy_fe s)" "fe_active (sy_fe s) = None" by (simp_all add: draining_def)
    moreover have "number (sy_fe s) i < cg_generation g" for i
      using d numbers by (auto simp: draining_def numbers_inv_def intro: le_less_trans)
    moreover have "last_commit es = Some g" using committed follow(3) by (simp add: a committed_inv_def)
    ultimately show ?thesis using follow
      by (auto simp: a after_wait_def commit_publish_def require_running_def raise_if_def running_def Let_def split: if_splits)
  next
    case (observed epoch)
    then have t: "sy_transition s = T_observe epoch" using assms(5) by auto
    then have open_now: "fe_accepting (sy_fe s)" "fe_admission_epoch (sy_fe s) = epoch" using inv(3) by (simp_all add: transition_inv_def)
    then obtain g where g: "fe_active (sy_fe s) = Some g" using inv(2) by (auto simp: gate_inv_def)
    then have "last_commit es = Some g" using committed by (simp add: committed_inv_def)
    then show ?thesis using observed open_now g inv(1,2) by (auto simp: gate_inv_def streams_inv_def)
  next
    case (unobserved epoch x)
    have "fe_accepting (sy_fe s)" using inv(3) unobserved(3) by (simp add: transition_inv_def)
    then obtain g where g: "fe_active (sy_fe s) = Some g" "cg_generation g = fe_last (sy_fe s)" using inv(2) by (auto simp: gate_inv_def)
    then have "last_commit es = Some g" using committed by (simp add: committed_inv_def)
    moreover have "number (sy_fe s) i < cg_generation g" for i using numbers unobserved(3,4) g(2) by (simp add: numbers_inv_def)
    ultimately show ?thesis using unobserved by (auto simp: commit_timeout_def close_gate_def next_epoch_def)
  qed (use assms(5) in auto)
qed

theorem commit_all_or_nothing_witness:
  "fe_accepting sample_open \<and> fe_observed_epoch sample_open = fe_admission_epoch sample_open \<and>
     fe_active sample_open = last_commit (Silent # sample_events)"
  using commit_all_or_nothing [OF sample_new sample_seen sample_commit_returns] by (auto simp: Let_def)

text \<open>
  C39: The buffers stay within their bounds. In every reachable state the number of streams is within
  its limit, what the relays hold is what the frontend accounts for, each stream within its own
  limit and all of them within the total, and the assertion in \<open>_adjust_buffer\<close> holds for every
  change a worker can make within its limit. A step of a relay is the socket call with the sections
  that account for it, so between the two a worker may hold bytes that are not yet accounted for, or
  have written bytes that still are.
\<close>

theorem buffers_within_bounds:
  assumes "frontend_new host port backlog streams per_stream buffer_total chunk = Inr fe0" and "reached fe0 s"
  shows "let fe = sy_fe s in
    int (length (fe_streams fe)) \<le> fe_max_streams fe \<and>
    co_buffered (fe_counters fe) = (\<Sum>i \<in> set (fe_streams fe). carried (sm_worker (fe_object fe i))) \<and>
    0 \<le> co_buffered (fe_counters fe) \<and> co_buffered (fe_counters fe) \<le> fe_total fe \<and>
    (\<forall>i. worker_ok (fe_per_stream fe) (sm_worker (fe_object fe i))) \<and>
    (\<forall>i \<in> set (fe_streams fe). \<forall>d. 0 \<le> carried (sm_worker (fe_object fe i)) + d \<longrightarrow>
       carried (sm_worker (fe_object fe i)) + d \<le> fe_per_stream fe \<longrightarrow> (\<exists>fe'. adjust_buffer d fe = Inr fe'))"
proof -
  let ?fe = "sy_fe s"
  have b: "buffer_inv ?fe" by (rule reached_buffers [OF assms(2,1)])
  have i: "streams_inv ?fe" using reached_inv [OF assms(2,1)] by (simp add: system_inv_def)
  have "0 \<le> co_buffered (fe_counters ?fe) \<and> co_buffered (fe_counters ?fe) \<le> fe_total ?fe"
  proof (cases "fe_streams ?fe")
    case Nil
    have "0 \<le> fe_max_streams ?fe * fe_per_stream ?fe" using b Nil by (simp add: buffer_inv_def)
    then have "0 \<le> fe_total ?fe" using b unfolding buffer_inv_def by linarith
    then show ?thesis using b Nil by (simp add: buffer_inv_def)
  next
    case (Cons j js)
    then have j: "j \<in> set (fe_streams ?fe)" by simp
    have "0 \<le> carried (sm_worker (fe_object ?fe j)) \<and> carried (sm_worker (fe_object ?fe j)) \<le> fe_per_stream ?fe"
      using b carried_bounds by (auto simp: buffer_inv_def)
    then show ?thesis using others_bounds [OF b i j] by simp
  qed
  then show ?thesis using b adjust_buffer_ok [OF b i, of _ _ ?fe] unfolding Let_def buffer_inv_def by blast
qed

theorem buffers_within_bounds_witness:
  "0 \<le> co_buffered (fe_counters (sample_admitted sample_open)) \<and>
   (\<exists>fe. adjust_buffer 4 (sample_admitted sample_open) = Inr fe)"
proof -
  have "1 \<in> set (fe_streams (sample_admitted sample_open))" "fe_per_stream (sample_admitted sample_open) = 4"
    "carried (sm_worker (fe_object (sample_admitted sample_open) 1)) = 0"
    by (simp_all add: sample_admitted_def stream_new_def sample_open_def sample_published_def sample_started_def sample_frontend_def)
  then show ?thesis using buffers_within_bounds [OF sample_new traced_reached [OF sample_stream]] by (auto simp: Let_def)
qed

text \<open>
  C40: A held response does not leak. Once the response hold is set, and as long as nobody disarms it,
  the bytes written to the client of a stream admitted from then on are a SOCKS handshake and nothing
  else, whatever the backend sends and however its bytes are cut: at most the two bytes of the method
  choice, and those only after a whole greeting of the client was passed on, then at most one reply
  frame, and that only after a whole CONNECT request. No byte of the tunnel is counted as delivered.
\<close>

theorem held_responses_do_not_leak:
  assumes "frontend_new host port backlog streams per_stream buffer_total chunk = Inr fe0" and "reached fe0 s"
    and "fe_hold (sy_fe s)" and "held_run s es s'" and "fe_next_stream_id (sy_fe s) \<le> i"
  shows "fe_hold (sy_fe s') \<and> handshake_only (written i Upstream es) (written i Client es) \<and>
    length (written i Client es) \<le> 264 \<and>
    tr_app_backend_to_client (sm_transcript (fe_object (sy_fe s') i)) = 0"
proof -
  have inv: "system_inv s" "fresh_inv (sy_fe s)" using reached_inv [OF assms(2,1)] reached_fresh [OF assms(2,1)] by blast+
  have "hold_inv (fe_next_stream_id (sy_fe s)) [] (sy_fe s)"
    using inv assms(3) unfolding hold_inv_def fresh_inv_def system_inv_def streams_inv_def
    by (auto simp: waiting_new) (simp add: transcript_new_def)
  from held_run_inv [OF assms(4) inv this] show ?thesis
    using assms(5) said_handshake handshake_only_length unfolding hold_inv_def by blast
qed

theorem held_responses_do_not_leak_witness:
  "written 1 Upstream sample_talk = sample_greeting \<and> written 1 Client sample_talk = sample_answer \<and>
   handshake_only sample_greeting sample_answer"
proof -
  have "fe_hold sample_held" "fe_next_stream_id sample_held \<le> 1"
    by (simp_all add: sample_held_def sample_open_def sample_published_def sample_started_def sample_frontend_def)
  moreover have "written 1 Upstream sample_talk = sample_greeting" "written 1 Client sample_talk = sample_answer"
    by (simp_all add: sample_talk_def)
  ultimately show ?thesis
    using held_responses_do_not_leak [OF sample_new sample_arm _ sample_handshake, where i = 1] by simp
qed

end
