(* ===== verification/Threads.thy ===== *)
theory Threads
  imports Prelude
begin

text \<open>
  Programs of several threads over a shared state, for the supervisor
  (\<open>system/grok-proxy/grok_ms/supervisor.py\<close>). A thread is a tree of sections, each of which runs
  without interruption: a block under the state lock, or one call that reaches outside. A section
  may have to wait for its guard, and the environment answers the calls it makes. The sections of
  different threads interleave freely.

  The reasoning is by rely and guarantee: every section of a thread keeps the thread's guarantee,
  under the assumption that between its sections the others keep theirs.
\<close>

section \<open>Threads\<close>

text \<open>
  What a call outside answers: it works, with a number that settles what is free; it raises and
  changed nothing; or it raises after its effect took place.
\<close>

datatype reply = Works nat | Fails exc_class | Fails_after exc_class

type_synonym replies = "nat \<Rightarrow> reply"

datatype (dead 's, 'a) thread =
    Finished "'a result"
  | Section "'s \<Rightarrow> bool" "replies \<Rightarrow> 's \<Rightarrow> 's" "replies \<Rightarrow> 's \<Rightarrow> ('s, 'a) thread"

primrec handleT :: "('s, 'a) thread \<Rightarrow> ('a result \<Rightarrow> ('s, 'b) thread) \<Rightarrow> ('s, 'b) thread" where
  "handleT (Finished r) h = h r"
| "handleT (Section g f k) h = Section g f (\<lambda>e s. handleT (k e s) h)"

abbreviation returnT :: "'a \<Rightarrow> ('s, 'a) thread" where
  "returnT x \<equiv> Finished (Inr x)"

abbreviation raiseT :: "exc_class \<Rightarrow> string \<Rightarrow> ('s, 'a) thread" where
  "raiseT c m \<equiv> Finished (raise c m)"

definition bindT :: "('s, 'a) thread \<Rightarrow> ('a \<Rightarrow> ('s, 'b) thread) \<Rightarrow> ('s, 'b) thread" where
  "bindT p f = handleT p (\<lambda>r. case r of Inl x \<Rightarrow> Finished (Inl x) | Inr a \<Rightarrow> f a)"

definition thenT :: "('s, unit) thread \<Rightarrow> ('s, 'b) thread \<Rightarrow> ('s, 'b) thread" where
  "thenT p q = bindT p (\<lambda>_. q)"

text \<open>\<open>try: p except <caught>: h\<close> and \<open>try: p finally: q\<close>.\<close>

definition catchT :: "('s, 'a) thread \<Rightarrow> (exc_class \<Rightarrow> bool) \<Rightarrow> (exc \<Rightarrow> ('s, 'a) thread) \<Rightarrow> ('s, 'a) thread" where
  "catchT p caught h = handleT p (\<lambda>r. case r of
     Inl x \<Rightarrow> (if caught (exc_class x) then h x else Finished (Inl x)) | Inr a \<Rightarrow> returnT a)"

definition finallyT :: "('s, 'a) thread \<Rightarrow> ('s, unit) thread \<Rightarrow> ('s, 'a) thread" where
  "finallyT p q = handleT p (\<lambda>r. bindT q (\<lambda>_. Finished r))"

definition await :: "('s \<Rightarrow> bool) \<Rightarrow> (replies \<Rightarrow> 's \<Rightarrow> 'a result \<times> 's) \<Rightarrow> ('s, 'a) thread" where
  "await g f = Section g (\<lambda>e s. snd (f e s)) (\<lambda>e s. Finished (fst (f e s)))"

definition atomically :: "(replies \<Rightarrow> 's \<Rightarrow> 'a result \<times> 's) \<Rightarrow> ('s, 'a) thread" where
  "atomically f = await (\<lambda>_. True) f"

text \<open>A section that only changes the state, and one that only reads it.\<close>

definition update :: "('s \<Rightarrow> 's) \<Rightarrow> ('s, unit) thread" where
  "update f = atomically (\<lambda>_ s. (Inr (), f s))"

definition reading :: "('s \<Rightarrow> 'a) \<Rightarrow> ('s, 'a) thread" where
  "reading f = atomically (\<lambda>_ s. (Inr (f s), s))"

text \<open>What the outside answers, with no change of the state.\<close>

definition ask :: "('s, bool) thread" where
  "ask = atomically (\<lambda>e s. (case e 0 of Works n \<Rightarrow> Inr (n = 0) | Fails c \<Rightarrow> raise c [] | Fails_after c \<Rightarrow> raise c [], s))"

primrec eachT :: "('b \<Rightarrow> ('s, unit) thread) \<Rightarrow> 'b list \<Rightarrow> ('s, unit) thread" where
  "eachT f [] = returnT ()"
| "eachT f (x # xs) = thenT (f x) (eachT f xs)"

text \<open>The state of all threads: what a thread has still to do, by its number.\<close>

type_synonym 's threads = "nat \<Rightarrow> ('s, unit) thread option"

text \<open>The states and threads reachable from \<open>s0\<close> and \<open>pool0\<close>; \<open>spawns\<close> says which threads may be started.\<close>

inductive runs :: "(nat \<Rightarrow> ('s, unit) thread \<Rightarrow> 's \<Rightarrow> 's \<Rightarrow> bool) \<Rightarrow> 's \<Rightarrow> 's threads \<Rightarrow> 's \<Rightarrow> 's threads \<Rightarrow> bool"
  for spawns and s0 and pool0 where
  none: "runs spawns s0 pool0 s0 pool0"
| spawn: "runs spawns s0 pool0 s pool \<Longrightarrow> pool t = None \<Longrightarrow> spawns t p s s' \<Longrightarrow>
    runs spawns s0 pool0 s' (pool(t \<mapsto> p))"
| section_of: "runs spawns s0 pool0 s pool \<Longrightarrow> pool t = Some (Section g f k) \<Longrightarrow> g s \<Longrightarrow>
    runs spawns s0 pool0 (f e s) (pool(t \<mapsto> k e s))"

section \<open>Guarantees\<close>

type_synonym 's guarantee = "nat \<Rightarrow> 's \<Rightarrow> 's \<Rightarrow> bool"

definition others :: "'s guarantee \<Rightarrow> nat \<Rightarrow> 's \<Rightarrow> 's \<Rightarrow> bool" where
  "others G t = (\<lambda>s s'. \<exists>u. u \<noteq> t \<and> G u s s')\<^sup>*\<^sup>*"

text \<open>
  \<open>guards G t p Q s\<close>: run by thread \<open>t\<close> from \<open>s\<close> while the others keep their guarantees, every section
  of \<open>p\<close> keeps the guarantee of \<open>t\<close>, and \<open>Q\<close> holds when it ends.
\<close>

primrec guards :: "'s guarantee \<Rightarrow> nat \<Rightarrow> ('s, 'a) thread \<Rightarrow> ('a result \<Rightarrow> 's \<Rightarrow> bool) \<Rightarrow> 's \<Rightarrow> bool" where
  "guards G t (Finished r) Q = (\<lambda>s. Q r s)"
| "guards G t (Section g f k) Q = (\<lambda>s. \<forall>s' e. others G t s s' \<longrightarrow> g s' \<longrightarrow>
     G t s' (f e s') \<and> guards G t (k e s') Q (f e s'))"

lemma others_refl [simp]: "others G t s s"
  by (simp add: others_def)

lemma others_trans: "others G t s s' \<Longrightarrow> others G t s' s'' \<Longrightarrow> others G t s s''"
  by (auto simp: others_def)

lemma others_step: "G u s s' \<Longrightarrow> u \<noteq> t \<Longrightarrow> others G t s s'"
  by (auto simp: others_def)

lemma guards_others: "guards G t p (\<lambda>_ _. True) s \<Longrightarrow> others G t s s' \<Longrightarrow> guards G t p (\<lambda>_ _. True) s'"
  by (cases p) (auto intro: others_trans)

lemma guards_weaken: "guards G t p Q s \<Longrightarrow> (\<And>r s. Q r s \<Longrightarrow> Q' r s) \<Longrightarrow> guards G t p Q' s"
proof (induction p arbitrary: s)
  case (Section g f k)
  have "guards G t (k e s') Q' (f e s')" if "others G t s s'" "g s'" for e s'
    by (rule Section.IH [of "k e" "k e s'"]) (use that Section.prems in auto)
  with Section.prems(1) show ?case by simp
qed simp

lemma guards_handle:
  "guards G t p Q s \<Longrightarrow> (\<And>r s. Q r s \<Longrightarrow> guards G t (h r) Q' s) \<Longrightarrow> guards G t (handleT p h) Q' s"
proof (induction p arbitrary: s)
  case (Section g f k)
  have "guards G t (handleT (k e s') h) Q' (f e s')" if "others G t s s'" "g s'" for e s'
    by (rule Section.IH [of "k e" "k e s'"]) (use that Section.prems in auto)
  with Section.prems(1) show ?case by simp
qed simp

text \<open>
  Threads that keep their guarantees together keep every invariant the guarantees preserve, and every
  step is one of the guarantees. The laws are those of a system of threads: its guarantee preserves its
  invariant, and what may be started keeps the guarantee.
\<close>

definition all_guard :: "'s guarantee \<Rightarrow> 's threads \<Rightarrow> 's \<Rightarrow> bool" where
  "all_guard G pool s \<longleftrightarrow> (\<forall>t p. pool t = Some p \<longrightarrow> guards G t p (\<lambda>_ _. True) s)"

lemma all_guard_upd:
  "all_guard G pool s \<Longrightarrow> G t s s' \<Longrightarrow> guards G t p (\<lambda>_ _. True) s' \<Longrightarrow> all_guard G (pool(t \<mapsto> p)) s'"
  unfolding all_guard_def by (auto intro: guards_others others_step [where G = G])

locale guaranteed =
  fixes G :: "'s guarantee" and I :: "'s \<Rightarrow> bool" and spawns :: "nat \<Rightarrow> ('s, unit) thread \<Rightarrow> 's \<Rightarrow> 's \<Rightarrow> bool"
  assumes keeps: "G t s s' \<Longrightarrow> I s \<Longrightarrow> I s'"
    and spawned: "I s \<Longrightarrow> spawns t p s s' \<Longrightarrow> G t s s' \<and> guards G t p (\<lambda>_ _. True) s'"
begin

abbreviation progress :: "'s \<Rightarrow> 's \<Rightarrow> bool" where
  "progress \<equiv> (\<lambda>s s'. \<exists>t. G t s s')\<^sup>*\<^sup>*"

lemma runs_guarded:
  assumes "runs spawns s0 pool0 s pool" and "I s0" and "all_guard G pool0 s0"
  shows "I s \<and> all_guard G pool s \<and> progress s0 s"
  using assms(1)
proof induction
  case none
  show ?case using assms(2,3) by simp
next
  case (spawn s pool t p s')
  then have "I s" "all_guard G pool s" by blast+
  moreover have "G t s s'" "guards G t p (\<lambda>_ _. True) s'" using spawned [OF \<open>I s\<close> spawn.hyps(3)] by simp_all
  ultimately show ?case using spawn.IH keeps by (blast intro: all_guard_upd rtranclp.rtrancl_into_rtrancl)
next
  case (section_of s pool t g f k e)
  then have "I s" "all_guard G pool s" by blast+
  moreover from this section_of.hyps(2) have "guards G t (Section g f k) (\<lambda>_ _. True) s"
    unfolding all_guard_def by blast
  with section_of.hyps(3) have "G t s (f e s)" "guards G t (k e s) (\<lambda>_ _. True) (f e s)" by auto
  ultimately show ?case using section_of.IH keeps by (blast intro: all_guard_upd rtranclp.rtrancl_into_rtrancl)
qed

lemma reachable_guarded:
  assumes "runs spawns s0 (\<lambda>_. None) s pool" and "I s0"
  shows "I s" and "all_guard G pool s"
proof -
  have "all_guard G (\<lambda>_. None) s0" by (simp add: all_guard_def)
  then have "I s \<and> all_guard G pool s \<and> progress s0 s" by (rule runs_guarded [OF assms])
  then show "I s" "all_guard G pool s" by simp_all
qed

lemma later_progress:
  assumes "runs spawns s0 (\<lambda>_. None) s pool" and "I s0" and "runs spawns s pool s' pool'"
  shows "progress s s'"
  using runs_guarded [OF assms(3) reachable_guarded [OF assms(1,2)]] by simp

end

section \<open>Triples\<close>

definition steady :: "'s guarantee \<Rightarrow> nat \<Rightarrow> ('s \<Rightarrow> bool) \<Rightarrow> bool" where
  "steady G t P \<longleftrightarrow> (\<forall>u s s'. u \<noteq> t \<longrightarrow> G u s s' \<longrightarrow> P s \<longrightarrow> P s')"

lemma steady_others: "others G t s s' \<Longrightarrow> steady G t P \<Longrightarrow> P s \<Longrightarrow> P s'"
  unfolding others_def by (induction rule: rtranclp_induct) (auto simp: steady_def)

text \<open>From states of \<open>P\<close>: the guarantee all along, \<open>N\<close> of the value at the end, \<open>E\<close> of an exception.\<close>

definition triple :: "'s guarantee \<Rightarrow> nat \<Rightarrow> ('s \<Rightarrow> bool) \<Rightarrow> ('s, 'a) thread \<Rightarrow> ('a \<Rightarrow> 's \<Rightarrow> bool) \<Rightarrow>
    (exc \<Rightarrow> 's \<Rightarrow> bool) \<Rightarrow> bool" where
  "triple G t P p N E \<longleftrightarrow> (\<forall>s. P s \<longrightarrow> guards G t p (\<lambda>r s. case r of Inr a \<Rightarrow> N a s | Inl x \<Rightarrow> E x s) s)"

lemma triple_Finished:
  "(\<And>s. P s \<Longrightarrow> case r of Inr a \<Rightarrow> N a s | Inl x \<Rightarrow> E x s) \<Longrightarrow> triple G t P (Finished r) N E"
  by (simp add: triple_def)

lemma triple_return: "(\<And>s. P s \<Longrightarrow> N a s) \<Longrightarrow> triple G t P (returnT a) N E"
  by (simp add: triple_Finished)

lemma triple_raise: "(\<And>s. P s \<Longrightarrow> E x s) \<Longrightarrow> triple G t P (Finished (Inl x)) N E"
  by (simp add: triple_Finished)

lemma triple_await:
  assumes "steady G t P" and "\<And>s e. P s \<Longrightarrow> g s \<Longrightarrow> G t s (snd (f e s)) \<and>
    (case fst (f e s) of Inr a \<Rightarrow> N a (snd (f e s)) | Inl x \<Rightarrow> E x (snd (f e s)))"
  shows "triple G t P (await g f) N E"
  using assms by (auto simp: triple_def await_def dest: steady_others)

lemma triple_atomically:
  assumes "steady G t P" and "\<And>s e. P s \<Longrightarrow> G t s (snd (f e s)) \<and>
    (case fst (f e s) of Inr a \<Rightarrow> N a (snd (f e s)) | Inl x \<Rightarrow> E x (snd (f e s)))"
  shows "triple G t P (atomically f) N E"
  unfolding atomically_def by (rule triple_await) (use assms in auto)

lemma triple_handle:
  assumes "triple G t P p N E" and "\<And>a. triple G t (N a) (h (Inr a)) N' E'"
    and "\<And>x. triple G t (E x) (h (Inl x)) N' E'"
  shows "triple G t P (handleT p h) N' E'"
  unfolding triple_def
proof (intro allI impI)
  fix s
  assume "P s"
  show "guards G t (handleT p h) (\<lambda>r s. case r of Inr a \<Rightarrow> N' a s | Inl x \<Rightarrow> E' x s) s"
  proof (rule guards_handle)
    show "guards G t p (\<lambda>r s. case r of Inr a \<Rightarrow> N a s | Inl x \<Rightarrow> E x s) s"
      using assms(1) \<open>P s\<close> by (simp add: triple_def)
    show "guards G t (h r) (\<lambda>r s. case r of Inr a \<Rightarrow> N' a s | Inl x \<Rightarrow> E' x s) s"
      if "case r of Inr a \<Rightarrow> N a s | Inl x \<Rightarrow> E x s" for r s
      using that assms(2,3) by (cases r) (simp_all add: triple_def)
  qed
qed

lemma triple_bind:
  assumes "triple G t P p N E" and "\<And>a. triple G t (N a) (f a) N' E"
  shows "triple G t P (bindT p f) N' E"
  unfolding bindT_def by (rule triple_handle [OF assms(1)]) (simp_all add: assms(2) triple_raise)

lemma triple_then:
  assumes "triple G t P p (\<lambda>_. N) E" and "triple G t N q N' E"
  shows "triple G t P (thenT p q) N' E"
  unfolding thenT_def by (rule triple_bind [OF assms])

lemma triple_catch:
  assumes "triple G t P p N F" and "\<And>x. caught (exc_class x) \<Longrightarrow> triple G t (F x) (h x) N E"
    and "\<And>x s. \<not> caught (exc_class x) \<Longrightarrow> F x s \<Longrightarrow> E x s"
  shows "triple G t P (catchT p caught h) N E"
  unfolding catchT_def
  by (rule triple_handle [OF assms(1)]) (auto simp: triple_return intro: triple_raise assms(2,3))

lemma triple_finally:
  assumes "triple G t P p N F" and "\<And>a. triple G t (N a) q (\<lambda>_. N' a) E"
    and "\<And>x. triple G t (F x) q (\<lambda>_. E x) E"
  shows "triple G t P (finallyT p q) N' E"
  unfolding finallyT_def
  by (rule triple_handle [OF assms(1)]) (auto intro!: triple_bind [OF assms(2)] triple_bind [OF assms(3)] triple_Finished)

lemma triple_weaken:
  assumes "triple G t P p N E" and "\<And>s. P' s \<Longrightarrow> P s" and "\<And>a s. N a s \<Longrightarrow> N' a s" and "\<And>x s. E x s \<Longrightarrow> E' x s"
  shows "triple G t P' p N' E'"
  unfolding triple_def
proof (intro allI impI)
  fix s
  assume "P' s"
  then have "guards G t p (\<lambda>r s. case r of Inr a \<Rightarrow> N a s | Inl x \<Rightarrow> E x s) s"
    using assms(1,2) by (simp add: triple_def)
  then show "guards G t p (\<lambda>r s. case r of Inr a \<Rightarrow> N' a s | Inl x \<Rightarrow> E' x s) s"
    by (rule guards_weaken) (auto split: sum.splits intro: assms(3,4))
qed

text \<open>What every guarantee keeps is kept by every thread.\<close>

lemma guards_frame:
  assumes keep: "\<And>u s s'. G u s s' \<Longrightarrow> F s \<Longrightarrow> F s'"
  shows "guards G t p Q s \<Longrightarrow> F s \<Longrightarrow> guards G t p (\<lambda>r s. Q r s \<and> F s) s"
proof (induction p arbitrary: s)
  case (Section g f k)
  have F: "F s'" if "others G t s s'" for s'
    using that Section.prems(2) unfolding others_def by (induction rule: rtranclp_induct) (auto intro: keep)
  have "guards G t (k e s') (\<lambda>r s. Q r s \<and> F s) (f e s')" if "others G t s s'" "g s'" for e s'
  proof (rule Section.IH [of "k e" "k e s'"])
    have "G t s' (f e s')" "guards G t (k e s') Q (f e s')" using that Section.prems(1) by simp_all
    then show "guards G t (k e s') Q (f e s')" "F (f e s')" using keep [OF _ F [OF that(1)]] by blast+
  qed simp_all
  with Section.prems(1) show ?case by simp
qed simp

lemma triple_frame:
  assumes "triple G t P p N E" and "\<And>u s s'. G u s s' \<Longrightarrow> F s \<Longrightarrow> F s'"
  shows "triple G t (\<lambda>s. P s \<and> F s) p (\<lambda>a s. N a s \<and> F s) (\<lambda>x s. E x s \<and> F s)"
  unfolding triple_def
proof (intro allI impI)
  fix s
  assume s: "P s \<and> F s"
  then have g: "guards G t p (\<lambda>r s. case r of Inr a \<Rightarrow> N a s | Inl x \<Rightarrow> E x s) s" using assms(1) by (simp add: triple_def)
  have "guards G t p (\<lambda>r s. (case r of Inr a \<Rightarrow> N a s | Inl x \<Rightarrow> E x s) \<and> F s) s"
    by (rule guards_frame [where G = G and F = F]) (fact assms(2), fact g, use s in simp)
  then show "guards G t p (\<lambda>r s. case r of Inr a \<Rightarrow> N a s \<and> F s | Inl x \<Rightarrow> E x s \<and> F s) s"
    by (rule guards_weaken) (auto split: sum.splits)
qed

lemma triple_each:
  assumes "\<And>x. x \<in> set xs \<Longrightarrow> triple G t P (f x) (\<lambda>_. P) E"
  shows "triple G t P (eachT f xs) (\<lambda>_. P) E"
  using assms by (induction xs) (auto intro: triple_then triple_return)

lemma triple_update:
  assumes "steady G t P" and "\<And>s. P s \<Longrightarrow> G t s (f s) \<and> N () (f s)"
  shows "triple G t P (update f) N E"
  unfolding update_def by (rule triple_atomically) (use assms in auto)

lemma triple_reading:
  assumes "steady G t P" and "\<And>s. P s \<Longrightarrow> G t s s \<and> N (f s) s"
  shows "triple G t P (reading f) N E"
  unfolding reading_def by (rule triple_atomically) (use assms in auto)

lemma triple_ask:
  assumes "steady G t P" and "\<And>s b. P s \<Longrightarrow> G t s s \<and> N b s" and "\<And>s x. P s \<Longrightarrow> E x s"
  shows "triple G t P ask N E"
  unfolding ask_def by (rule triple_atomically) (use assms in \<open>auto split: reply.split\<close>)

lemma triple_case_bool:
  "(b \<Longrightarrow> triple G t P p N E) \<Longrightarrow> (\<not> b \<Longrightarrow> triple G t P q N E) \<Longrightarrow> triple G t P (if b then p else q) N E"
  by simp

end
