(* ===== verification/Supervisor.thy ===== *)
theory Supervisor
  imports Threads Frontend Differences Runtime
begin

text \<open>
  The supervisor of one owner epoch, \<open>system/grok-proxy/grok_ms/supervisor.py\<close>: leases and their
  connections, the replay cache, the transition of provider generations with its durable records,
  repair, draining and shutdown. Every block under \<open>_state_lock\<close> and every call that reaches outside
  is one section of a thread of \<open>Threads\<close>; \<open>_transition_lock\<close> is part of the state. Directories of
  records are maps, whose operations may fail before or after their effect, as the theorems on
  \<open>Stores\<close> allow. The provider adapters, the process scopes and the frontend are seen through their
  interface: what may exist of a provider's and a child's resources is kept as \<open>wo_provider\<close> and
  \<open>wo_scope\<close>. Diagnostics, which no decision reads, are left out, and so are the operations of the
  guarded qualification, its probes and the provider canary; what these can only refuse or report
  (\<open>_validate_provider_canary_contract\<close> in a registration, probes and detached scopes at the end) is
  an error the environment may choose.
\<close>

section \<open>The state\<close>

datatype epoch_phase = Bootstrapping | Ready | Draining

datatype effect_phase = Prepared | Applied | Failed | Cleaned

datatype child_phase = C_prepared | C_scope_created | C_attached

text \<open>What is left of something outside: nothing yet, possibly something, provably nothing.\<close>

datatype presence = Absent | Present | Gone

record lease =
  le_id :: string
  le_nonce :: string
  le_request_id :: string
  le_connection :: nat
  le_wrapper :: process_identity
  le_digest :: string
  le_leader :: string
  le_live :: bool
  le_child :: "process_identity option"

record connection =
  co_peer_pid :: int
  co_leases :: "string list"

record replay =
  rp_connection :: nat
  rp_fingerprint :: string
  rp_response :: "(string \<times> json) list"

text \<open>
  \<open>sv_active\<close> is the generation and rung of \<open>active_result\<close>, with its adapter. \<open>sv_gate\<close> is the generation
  the frontend admits clients to. \<open>sv_starting\<close> says that the generation worker was started and has
  not run yet. The directories \<open>du_\<close> are keyed by the generation, which the effect
  id contains, and by the lease id.
\<close>

record supervisor =
  sv_phase :: epoch_phase
  sv_generation :: nat
  sv_contract :: "route_contract option"
  sv_digest :: "string option"
  sv_executable :: bool
  sv_active :: "(nat \<times> string) option"
  sv_transition :: "nat option"
  sv_leases :: "lease list"
  sv_issued :: nat
  sv_connections :: "(nat \<times> connection) list"
  sv_slots :: nat
  sv_replays :: "(string list \<times> replay) list"
  sv_errors :: "string list"
  sv_proved :: bool
  sv_preserve :: bool
  sv_stop :: bool
  sv_cancel :: bool
  sv_generation_error :: "exc option"
  sv_worker :: bool
  sv_repairs :: "string list"
  sv_frontend :: bool
  sv_gate :: "committed_generation option"
  sv_lock :: "nat option"
  sv_threads :: "nat set"
  sv_checks :: "nat set"
  sv_fence :: "epoch_phase option"
  sv_starting :: bool
  sv_serving :: bool
  du_fence :: "epoch_phase option"
  du_intents :: "nat \<Rightarrow> effect_phase option"
  du_providers :: "nat \<Rightarrow> effect_phase option"
  du_children :: "string \<Rightarrow> child_phase option"
  wo_provider :: "nat \<Rightarrow> presence"
  wo_scope :: "string \<Rightarrow> presence"

text \<open>What a supervisor is started with.\<close>

record settings =
  se_release_id :: string
  se_owner_epoch :: string
  se_expected_digest :: string
  se_control_cap :: int
  se_needs_executable :: bool
  se_watchdog_failures :: nat
  se_sha :: "string \<Rightarrow> string"
  se_status :: "supervisor \<Rightarrow> json"
  se_egress :: "nat \<times> string \<Rightarrow> string"

text \<open>The state \<open>bootstrap\<close> leaves: the fence is published and nothing is recorded.\<close>

definition sv_new :: supervisor where
  "sv_new = \<lparr>sv_phase = Bootstrapping, sv_generation = 0, sv_contract = None, sv_digest = None, sv_executable = False,
     sv_active = None, sv_transition = None, sv_leases = [], sv_issued = 0, sv_connections = [], sv_slots = 0,
     sv_replays = [], sv_errors = [], sv_proved = False, sv_preserve = False, sv_stop = False, sv_cancel = False,
     sv_generation_error = None, sv_worker = False, sv_repairs = [], sv_frontend = False, sv_gate = None,
     sv_lock = None, sv_threads = {}, sv_checks = {}, sv_fence = Some Bootstrapping, sv_starting = False,
     sv_serving = True,
     du_fence = Some Bootstrapping, du_intents = (\<lambda>_. None), du_providers = (\<lambda>_. None), du_children = (\<lambda>_. None),
     wo_provider = (\<lambda>_. Absent), wo_scope = (\<lambda>_. Absent)\<rparr>"

section \<open>Durable operations\<close>

text \<open>A write or removal: it succeeds, or it raises before or after its effect.\<close>

fun durably :: "reply \<Rightarrow> (supervisor \<Rightarrow> supervisor) \<Rightarrow> supervisor \<Rightarrow> unit result \<times> supervisor" where
  "durably (Works n) f s = (Inr (), f s)"
| "durably (Fails c) f s = (raise c [], s)"
| "durably (Fails_after c) f s = (raise c [], f s)"

fun loading :: "reply \<Rightarrow> 'a \<Rightarrow> 'a result" where
  "loading (Works n) x = Inr x"
| "loading (Fails c) x = raise c []"
| "loading (Fails_after c) x = raise c []"

definition set_intent :: "nat \<Rightarrow> effect_phase option \<Rightarrow> supervisor \<Rightarrow> supervisor" where
  "set_intent g p s = s\<lparr>du_intents := (du_intents s)(g := p)\<rparr>"

definition set_provider :: "nat \<Rightarrow> effect_phase option \<Rightarrow> supervisor \<Rightarrow> supervisor" where
  "set_provider g p s = s\<lparr>du_providers := (du_providers s)(g := p)\<rparr>"

definition set_child :: "string \<Rightarrow> child_phase option \<Rightarrow> supervisor \<Rightarrow> supervisor" where
  "set_child l p s = s\<lparr>du_children := (du_children s)(l := p)\<rparr>"

definition set_world :: "nat \<Rightarrow> presence \<Rightarrow> supervisor \<Rightarrow> supervisor" where
  "set_world g p s = s\<lparr>wo_provider := (wo_provider s)(g := p)\<rparr>"

definition set_scope :: "string \<Rightarrow> presence \<Rightarrow> supervisor \<Rightarrow> supervisor" where
  "set_scope l p s = s\<lparr>wo_scope := (wo_scope s)(l := p)\<rparr>"

text \<open>
  A record that is there already is read back, and the very same record is no error. The state has its
  phase; whether the rest of it agrees is for the environment to say.
\<close>

fun replayed :: "reply \<Rightarrow> bool \<Rightarrow> exc_class \<Rightarrow> string \<Rightarrow> unit result" where
  "replayed (Works n) same c msg = (if same \<and> n = 0 then Inr () else raise c msg)"
| "replayed (Fails x) same c msg = raise x []"
| "replayed (Fails_after x) same c msg = raise x []"

text \<open>\<open>IntentStore\<close>\<close>

definition put_intent :: "nat \<Rightarrow> (supervisor, unit) thread" where
  "put_intent g = atomically (\<lambda>e s. case du_intents s g of
     None \<Rightarrow> durably (e 0) (set_intent g (Some Prepared)) s
   | Some p \<Rightarrow> (replayed (e 0) (p = Prepared) IntentConflictError ''effect replay disagrees with its durable intent'', s))"

definition load_intent :: "nat \<Rightarrow> (supervisor, effect_phase option) thread" where
  "load_intent g = atomically (\<lambda>e s. (loading (e 0) (du_intents s g), s))"

definition advance_intent :: "nat \<Rightarrow> effect_phase \<Rightarrow> effect_phase \<Rightarrow> (supervisor, unit) thread" where
  "advance_intent g old new = atomically (\<lambda>e s. case du_intents s g of
     None \<Rightarrow> (raise IntentConflictError ''effect has no durable intent'', s)
   | Some p \<Rightarrow>
       if p = new then (loading (e 0) (), s)
       else if p \<noteq> old then (raise IntentConflictError ''effect is in another phase'', s)
       else durably (e 0) (set_intent g (Some new)) s)"

definition delete_intent :: "nat \<Rightarrow> (supervisor, unit) thread" where
  "delete_intent g = atomically (\<lambda>e s. case du_intents s g of
     None \<Rightarrow> (loading (e 0) (), s)
   | Some p \<Rightarrow>
       if p \<noteq> Cleaned then (raise IntentConflictError ''effect is in another phase before deletion'', s)
       else durably (e 0) (set_intent g None) s)"

text \<open>\<open>RecoveryStore\<close>, for providers and for children; \<open>replace_\<close> does not look at what it replaces.\<close>

definition put_provider :: "nat \<Rightarrow> (supervisor, unit) thread" where
  "put_provider g = atomically (\<lambda>e s. case du_providers s g of
     None \<Rightarrow> durably (e 0) (set_provider g (Some Prepared)) s
   | Some p \<Rightarrow> (replayed (e 0) (p = Prepared) RuntimeSecurityError ''provider recovery record conflicts with its replay'', s))"

definition load_provider :: "nat \<Rightarrow> (supervisor, effect_phase option) thread" where
  "load_provider g = atomically (\<lambda>e s. (loading (e 0) (du_providers s g), s))"

definition replace_provider :: "nat \<Rightarrow> effect_phase \<Rightarrow> (supervisor, unit) thread" where
  "replace_provider g p = atomically (\<lambda>e s. durably (e 0) (set_provider g (Some p)) s)"

definition delete_provider :: "nat \<Rightarrow> (supervisor, unit) thread" where
  "delete_provider g = atomically (\<lambda>e s. durably (e 0) (set_provider g None) s)"

definition put_child :: "string \<Rightarrow> (supervisor, unit) thread" where
  "put_child l = atomically (\<lambda>e s. case du_children s l of
     None \<Rightarrow> durably (e 0) (set_child l (Some C_prepared)) s
   | Some p \<Rightarrow> (replayed (e 0) (p = C_prepared) RuntimeSecurityError ''child recovery record conflicts with its replay'', s))"

definition replace_child :: "string \<Rightarrow> child_phase \<Rightarrow> (supervisor, unit) thread" where
  "replace_child l p = atomically (\<lambda>e s. durably (e 0) (set_child l (Some p)) s)"

definition delete_child :: "string \<Rightarrow> (supervisor, unit) thread" where
  "delete_child l = atomically (\<lambda>e s. durably (e 0) (set_child l None) s)"

text \<open>\<open>_set_fence_phase\<close>, inside a section: \<open>load\<close> and \<open>write\<close> answer its two calls.\<close>

definition set_fence_phase :: "reply \<Rightarrow> reply \<Rightarrow> epoch_phase \<Rightarrow> supervisor \<Rightarrow> unit result \<times> supervisor" where
  "set_fence_phase load store p s = (case sv_fence s of
     None \<Rightarrow> (raise RuntimeSecurityError ''recovery fence is not published'', s)
   | Some q \<Rightarrow>
       if q = p then (Inr (), s)
       else (case loading load (du_fence s) of
           Inl x \<Rightarrow> (Inl x, s)
         | Inr None \<Rightarrow> (raise RuntimeSecurityError ''recovery fence ownership changed'', s)
         | Inr (Some _) \<Rightarrow> (case durably store (\<lambda>s. s\<lparr>du_fence := Some p\<rparr>) s of
               (Inl x, s') \<Rightarrow> (Inl x, s')
             | (Inr u, s') \<Rightarrow> (Inr (), s'\<lparr>sv_fence := Some p\<rparr>))))"

text \<open>\<open>_stale_state_is_effect_free\<close>, on the records this model has: what a successor decides by.\<close>

definition stale_state_is_effect_free :: "supervisor \<Rightarrow> bool" where
  "stale_state_is_effect_free s \<longleftrightarrow>
     (\<forall>g. du_intents s g \<in> {None, Some Cleaned}) \<and> (\<forall>l. du_children s l = None) \<and>
     (\<forall>g. du_providers s g \<in> {None, Some Cleaned})"


section \<open>Calls outside\<close>

text \<open>What an environment decides that raises nothing: whether a peer is gone, a process is alive, \<dots>\<close>

definition chooses :: "(supervisor, bool) thread" where
  "chooses = atomically (\<lambda>e s. (Inr (case e 0 of Works n \<Rightarrow> n = 0 | _ \<Rightarrow> False), s))"

text \<open>A call that may raise and leaves the state of this model alone.\<close>

definition calling :: "(supervisor, unit) thread" where
  "calling = atomically (\<lambda>e s. (loading (e 0) (), s))"

definition provided :: "bool \<Rightarrow> (supervisor, unit) thread \<Rightarrow> (supervisor, unit) thread" where
  "provided b p = (if b then p else returnT ())"

definition quietly :: "(supervisor, unit) thread \<Rightarrow> (supervisor, unit) thread" where
  "quietly p = catchT p (\<lambda>_. True) (\<lambda>_. returnT ())"

definition is_provider_error :: "exc_class \<Rightarrow> bool" where
  "is_provider_error c \<longleftrightarrow> c \<in> {ProviderError, ProviderCancelled, ProviderResidueError}"

definition is_security_error :: "exc_class \<Rightarrow> bool" where
  "is_security_error c \<longleftrightarrow> c \<in> {RuntimeSecurityError, ScopeError}"

definition add_errors :: "string list \<Rightarrow> supervisor \<Rightarrow> supervisor" where
  "add_errors es s = s\<lparr>sv_errors := sv_errors s @ es\<rparr>"

text \<open>
  The provider adapter of a generation: \<open>start\<close> may leave resources behind whether it returns or
  raises; a clean report of \<open>prove_empty\<close> or \<open>recover\<close> is the only thing that says they are gone.
\<close>

definition start_provider :: "nat \<Rightarrow> (supervisor, unit) thread" where
  "start_provider g = atomically (\<lambda>e s. durably (e 0) (set_world g Present) s)"

definition prove_clean :: "nat \<Rightarrow> (supervisor, unit) thread" where
  "prove_clean g = atomically (\<lambda>e s. case e 0 of
     Works n \<Rightarrow> (if n = 0 then (Inr (), set_world g Gone s) else (raise ProviderResidueError ''residue'', s))
   | Fails c \<Rightarrow> (raise c [], s)
   | Fails_after c \<Rightarrow> (raise c [], s))"

text \<open>
  The frontend: \<open>commit_generation\<close> opens the gate for the candidate, or raises with the gate as it
  was or shut; \<open>revoke\<close> and \<open>close\<close> shut it before anything can go wrong.
\<close>

fun commit_frontend :: "reply \<Rightarrow> committed_generation \<Rightarrow> supervisor \<Rightarrow> unit result \<times> supervisor" where
  "commit_frontend (Works n) cg s = (Inr (), s\<lparr>sv_gate := Some cg\<rparr>)"
| "commit_frontend (Fails c) cg s = (raise c [], s)"
| "commit_frontend (Fails_after c) cg s = (raise c [], s\<lparr>sv_gate := None\<rparr>)"

definition shut_frontend :: "(supervisor, unit) thread" where
  "shut_frontend = atomically (\<lambda>e s. (loading (e 0) (), s\<lparr>sv_gate := None\<rparr>))"

text \<open>\<open>min(max_frontend_streams, total_buffer_bytes // per_stream_buffer_bytes)\<close>\<close>

definition effective_streams :: "resource_limits \<Rightarrow> int" where
  "effective_streams l = min (rl_max_frontend_streams l) (rl_total_buffer_bytes l div rl_per_stream_buffer_bytes l)"

definition contract_frontend :: "route_contract \<Rightarrow> frontend result" where
  "contract_frontend c =
     (let l = rc_limits c in
      frontend_new (ep_host (rc_public_endpoint c)) (ep_port (rc_public_endpoint c))
        (min 4096 (max 1 (rl_max_control_connections l * 4))) (effective_streams l)
        (rl_per_stream_buffer_bytes l) (Some (rl_total_buffer_bytes l)) 65536)"

definition ensure_frontend :: "route_contract \<Rightarrow> (supervisor, unit) thread" where
  "ensure_frontend c = atomically (\<lambda>e s.
     if sv_frontend s then (Inr (), s)
     else if effective_streams (rc_limits c) < 1 then (raise AdmissionError ''frontend buffer contract admits no stream'', s)
     else (case contract_frontend c of
         Inl x \<Rightarrow> (Inl x, s)
       | Inr _ \<Rightarrow> durably (e 0) (\<lambda>s. s\<lparr>sv_frontend := True\<rparr>) s))"

section \<open>Provider generations\<close>

definition acquire :: "nat \<Rightarrow> (supervisor, unit) thread" where
  "acquire t = await (\<lambda>s. sv_lock s = None) (\<lambda>_ s. (Inr (), s\<lparr>sv_lock := Some t\<rparr>))"

definition release_lock :: "(supervisor, unit) thread" where
  "release_lock = update (\<lambda>s. s\<lparr>sv_lock := None\<rparr>)"

text \<open>\<open>with self._transition_lock\<close>\<close>

definition locked :: "nat \<Rightarrow> (supervisor, 'a) thread \<Rightarrow> (supervisor, 'a) thread" where
  "locked t p = thenT (acquire t) (finallyT p release_lock)"

text \<open>\<open>_stop_result\<close>\<close>

definition clean_intent :: "nat \<Rightarrow> effect_phase option \<Rightarrow> (supervisor, unit) thread" where
  "clean_intent g i = (case i of
     Some Prepared \<Rightarrow> thenT (advance_intent g Prepared Failed) (advance_intent g Failed Cleaned)
   | Some Applied \<Rightarrow> advance_intent g Applied Cleaned
   | Some Failed \<Rightarrow> advance_intent g Failed Cleaned
   | _ \<Rightarrow> returnT ())"

definition clean_record :: "nat \<Rightarrow> effect_phase option \<Rightarrow> (supervisor, unit) thread" where
  "clean_record g p = (case p of
     Some Prepared \<Rightarrow> raiseT RuntimeSecurityError ''provider recovery record is unexpectedly PREPARED''
   | Some Applied \<Rightarrow> replace_provider g Cleaned
   | Some Failed \<Rightarrow> replace_provider g Cleaned
   | _ \<Rightarrow> returnT ())"

definition stop_result :: "nat \<Rightarrow> (supervisor, unit) thread" where
  "stop_result g =
     thenT calling
    (thenT (prove_clean g)
    (bindT (load_intent g) (\<lambda>i.
     thenT (clean_intent g i)
    (bindT (load_provider g) (\<lambda>p.
     thenT (clean_record g p)
    (thenT (provided (i \<noteq> None) (delete_intent g))
           (provided (p \<noteq> None) (delete_provider g))))))))"

text \<open>The three handlers of \<open>_transition_candidates\<close> for an attempt that raised \<open>x\<close>.\<close>

definition keep_residue :: "nat \<Rightarrow> exc \<Rightarrow> (supervisor, unit) thread" where
  "keep_residue g x =
     thenT (update (add_errors [exc_msg x]))
    (thenT (quietly (advance_intent g Prepared Failed))
    (thenT (quietly (bindT (load_provider g) (\<lambda>p. provided (p = Some Prepared) (replace_provider g Failed))))
           (Finished (Inl x))))"

definition clean_up_result :: "nat \<Rightarrow> (supervisor, unit) thread" where
  "clean_up_result g =
     catchT (stop_result g) (\<lambda>c. is_provider_error c \<or> is_security_error c)
       (\<lambda>y. thenT (update (add_errors [exc_msg y])) (raiseT ProviderResidueError (exc_msg y)))"

definition recover_start :: "nat \<Rightarrow> (supervisor, unit) thread" where
  "recover_start g =
     catchT
       (thenT (prove_clean g)
       (thenT (advance_intent g Prepared Failed)
       (thenT (advance_intent g Failed Cleaned)
       (bindT (load_provider g) (\<lambda>p.
        thenT (provided (p \<noteq> None) (replace_provider g Cleaned))
       (thenT (delete_intent g)
              (provided (p \<noteq> None) (delete_provider g))))))))
       (\<lambda>_. True)
       (\<lambda>y. thenT (update (add_errors [exc_msg y])) (raiseT ProviderResidueError ''failed start could not prove empty''))"

text \<open>The attempt failed and was cleaned up; cancellation and draining end the transition.\<close>

definition rejected :: "nat \<Rightarrow> (supervisor, unit) thread \<Rightarrow> exc \<Rightarrow> (supervisor, bool) thread" where
  "rejected g clean x =
     thenT (if exc_class x = ProviderResidueError then keep_residue g x else clean)
       (if exc_class x \<in> {EpochDraining, ProviderCancelled} then Finished (Inl x) else returnT False)"

text \<open>
  Publication, under the state lock: the durable phase, then the gate, then the memory. Nothing can
  raise once the gate is open, so the handler never has to shut it again.
\<close>

definition publish :: "nat \<Rightarrow> string \<Rightarrow> nat \<Rightarrow> committed_generation \<Rightarrow> string \<Rightarrow> (supervisor, unit) thread" where
  "publish g rung tid cg digest = atomically (\<lambda>e s.
     if sv_phase s = Draining \<or> sv_leases s = [] \<or> sv_digest s \<noteq> Some digest \<or> sv_transition s \<noteq> Some tid
     then (raise EpochDraining ''candidate became stale before publication'', s)
     else (case (case set_fence_phase (e 0) (e 1) Ready s of
             (Inl x, s') \<Rightarrow> (Inl x, s')
           | (Inr _, s') \<Rightarrow> commit_frontend (e 2) cg s') of
         (Inr _, s') \<Rightarrow> (Inr (), s'\<lparr>sv_active := Some (g, rung), sv_phase := Ready, sv_transition := None\<rparr>)
       | (Inl x, s') \<Rightarrow>
           (case set_fence_phase (e 3) (e 4) Bootstrapping (s'\<lparr>sv_active := None, sv_phase := Bootstrapping\<rparr>) of
               (Inl y, s'') \<Rightarrow> (Inl x, add_errors [exc_msg y] s'')
             | (Inr _, s'') \<Rightarrow> (Inl x, s''))))"

definition private_port :: "route_contract \<Rightarrow> nat \<Rightarrow> int" where
  "private_port c g = rc_private_ports c ! ((g - 1) mod length (rc_private_ports c))"

definition candidate :: "(string \<Rightarrow> string) \<Rightarrow> route_contract \<Rightarrow> nat \<Rightarrow> nat \<Rightarrow> committed_generation result" where
  "candidate sha c g tid =
     committed_generation_new (int g) (token_hex12 tid) ''127.0.0.1'' (private_port c g) (route_contract_digest sha c)"

definition attempt :: "settings \<Rightarrow> route_contract \<Rightarrow> nat \<Rightarrow> string \<Rightarrow> nat \<Rightarrow> (supervisor, bool) thread" where
  "attempt cfg c g rung tid =
     handleT (start_provider g) (\<lambda>r. case r of
       Inl x \<Rightarrow> rejected g (recover_start g) x
     | Inr _ \<Rightarrow>
         handleT
           (thenT (replace_provider g Applied)
           (thenT (advance_intent g Prepared Applied)
           (bindT (Finished (candidate (se_sha cfg) c g tid)) (\<lambda>cg.
              publish g rung tid cg (route_contract_digest (se_sha cfg) c)))))
           (\<lambda>r. case r of Inr _ \<Rightarrow> returnT True | Inl x \<Rightarrow> rejected g (clean_up_result g) x))"

definition allocate :: "(supervisor, nat \<times> nat) thread" where
  "allocate = atomically (\<lambda>e s.
     if sv_phase s = Draining \<or> sv_leases s = [] then (raise EpochDraining ''provider transition lost its live interest'', s)
     else let g = Suc (sv_generation s); tid = (case e 0 of Works n \<Rightarrow> n | _ \<Rightarrow> 0) in
       (Inr (g, tid), s\<lparr>sv_generation := g, sv_transition := Some tid\<rparr>))"

text \<open>\<open>_transition_candidates\<close>; an iOS rung is passed over when its family's deadline has expired.\<close>

primrec transition_candidates :: "settings \<Rightarrow> route_contract \<Rightarrow> string list \<Rightarrow> (supervisor, unit) thread" where
  "transition_candidates cfg c [] =
     thenT (update (\<lambda>s. s\<lparr>sv_transition := None\<rparr>)) (raiseT ProviderError ''no provider rung qualified'')"
| "transition_candidates cfg c (rung # rungs) =
     bindT (if starts_with rung ''ios:'' then chooses else returnT True) (\<lambda>in_time.
       if \<not> in_time then transition_candidates cfg c rungs
       else bindT allocate (\<lambda>(g, tid).
         thenT (put_provider g)
        (thenT (put_intent g)
        (bindT (attempt cfg c g rung tid) (\<lambda>committed.
           if committed then returnT () else transition_candidates cfg c rungs)))))"

section \<open>Leases and draining\<close>

definition find_lease :: "string \<Rightarrow> supervisor \<Rightarrow> lease option" where
  "find_lease l s = find (\<lambda>x. le_id x = l) (sv_leases s)"

text \<open>\<open>phase = DRAINING\<close> in memory, with what goes with it.\<close>

definition to_draining :: "supervisor \<Rightarrow> supervisor" where
  "to_draining s = s\<lparr>sv_phase := Draining, sv_generation := Suc (sv_generation s), sv_cancel := True\<rparr>"

definition reconcile_scope :: "string \<Rightarrow> (supervisor, bool) thread" where
  "reconcile_scope l = atomically (\<lambda>e s. case e 0 of
     Works n \<Rightarrow> (Inr True, set_scope l Gone s)
   | Fails c \<Rightarrow> (Inr False, s)
   | Fails_after c \<Rightarrow> (Inr False, set_scope l Gone s))"

text \<open>\<open>lease.child is not None and not _child_has_exited(lease)\<close>\<close>

definition child_residue :: "string \<Rightarrow> (supervisor, bool) thread" where
  "child_residue l = atomically (\<lambda>e s. (Inr (case find_lease l s of
       None \<Rightarrow> False
     | Some le \<Rightarrow> le_child le \<noteq> None \<and> (case e 0 of Works n \<Rightarrow> n = 0 | _ \<Rightarrow> False)), s))"

definition discard_lease :: "string \<Rightarrow> supervisor \<Rightarrow> supervisor" where
  "discard_lease l s = s\<lparr>sv_leases := filter (\<lambda>x. le_id x \<noteq> l) (sv_leases s),
     sv_connections := map (\<lambda>(c, k). (c, k\<lparr>co_leases := removeAll l (co_leases k)\<rparr>)) (sv_connections s)\<rparr>"

text \<open>
  The removal under the state lock. Its handlers catch \<open>RuntimeSecurityError\<close> and \<open>OSError\<close>; removing the
  leader's socket and the child's record raises nothing else, so every failure of the two is caught.
\<close>

definition remove_lease :: "string \<Rightarrow> bool \<Rightarrow> bool \<Rightarrow> bool \<Rightarrow> (supervisor, bool) thread" where
  "remove_lease l linearize scope_clean residue = atomically (\<lambda>e s.
     case find_lease l s of
       None \<Rightarrow> (Inr (sv_leases s = []), s)
     | Some le \<Rightarrow>
         let leader_clean = (case e 0 of Works n \<Rightarrow> True | _ \<Rightarrow> False);
             s1 = add_errors ((if leader_clean then [] else [''leader path'']) @
               (if residue then [''attached child remains alive''] else []) @
               (if scope_clean then [] else [''lease cgroup residue''])) (discard_lease l s);
             s2 = (if le_child le \<noteq> None \<and> \<not> residue \<and> scope_clean \<and> leader_clean
               then (case durably (e 1) (set_child l None) s1 of
                   (Inl x, s') \<Rightarrow> add_errors [exc_msg x] s' | (Inr _, s') \<Rightarrow> s')
               else s1);
             s3 = (if sv_leases s2 = [] \<and> linearize \<and> sv_phase s2 \<noteq> Draining
               then (case set_fence_phase (e 2) (e 3) Draining (to_draining s2) of
                   (Inl x, s') \<Rightarrow> add_errors [''cannot durably linearize last-lease drain''] (s'\<lparr>sv_preserve := True\<rparr>)
                 | (Inr _, s') \<Rightarrow> s')
               else s2)
         in (Inr (sv_leases s3 = []), s3))"

definition drop_lease :: "string \<Rightarrow> bool \<Rightarrow> (supervisor, bool) thread" where
  "drop_lease l linearize =
     bindT (reading (find_lease l)) (\<lambda>found. case found of
       None \<Rightarrow> returnT False
     | Some le \<Rightarrow>
         bindT (if le_child le = None then returnT True else reconcile_scope l) (\<lambda>scope_clean.
         bindT (child_residue l) (\<lambda>residue.
           remove_lease l linearize scope_clean residue)))"

definition linearize_draining :: "(supervisor, unit) thread" where
  "linearize_draining = atomically (\<lambda>e s.
     if sv_phase s = Draining \<or> sv_leases s \<noteq> [] then (Inr (), s)
     else set_fence_phase (e 0) (e 1) Draining (to_draining s))"


text \<open>\<open>_drain_epoch\<close>, run by thread \<open>t\<close>; the errors of its parts are collected in order.\<close>

definition noting :: "(exc_class \<Rightarrow> bool) \<Rightarrow> (supervisor, unit) thread \<Rightarrow> (supervisor, string list) thread" where
  "noting caught p = catchT (thenT p (returnT [])) caught (\<lambda>x. returnT [exc_msg x])"

definition others_checking :: "nat \<Rightarrow> (supervisor, string list) thread" where
  "others_checking t = reading (\<lambda>s. if sv_checks s \<subseteq> {t} then [] else [''watchdog health-check cleanup''])"

definition close_frontend :: "(supervisor, string list) thread" where
  "close_frontend = bindT (reading sv_frontend) (\<lambda>there.
     if there then noting (\<lambda>c. c = FrontendDrainTimeout \<or> is_os_error c) (thenT shut_frontend shut_frontend)
     else returnT [])"

definition take_active :: "(supervisor, (nat \<times> string) option) thread" where
  "take_active = atomically (\<lambda>_ s. (Inr (sv_active s), s\<lparr>sv_active := None\<rparr>))"

definition stop_active :: "(nat \<times> string) option \<Rightarrow> (supervisor, string list) thread" where
  "stop_active active = (case active of
     None \<Rightarrow> returnT []
   | Some (g, rung) \<Rightarrow> noting is_provider_error (stop_result g))"

definition probes_left :: "(supervisor, string list) thread" where
  "probes_left = bindT chooses (\<lambda>none. returnT (if none then [] else [''probe cleanup'']))"

definition checks_reopened :: "nat \<Rightarrow> string list \<Rightarrow> (supervisor, string list) thread" where
  "checks_reopened t watchdog = (if watchdog = [] then others_checking t else returnT [])"

definition finish_drain :: "string list \<Rightarrow> (supervisor, unit) thread" where
  "finish_drain found = atomically (\<lambda>_ s.
     let errors = found @ (if sv_leases s = [] then [] else [''leases remain after drain''])
     in (if errors = [] then Inr () else raise ProviderResidueError ''drain residue'', s\<lparr>sv_proved := (errors = [])\<rparr>))"

definition drain_epoch :: "nat \<Rightarrow> (supervisor, unit) thread" where
  "drain_epoch t =
     thenT (update (\<lambda>s. s\<lparr>sv_stop := True\<rparr>))
    (bindT (others_checking t) (\<lambda>watchdog.
       locked t
         (bindT (reading sv_errors) (\<lambda>before.
          bindT close_frontend (\<lambda>front.
          bindT take_active (\<lambda>active.
          bindT (stop_active active) (\<lambda>stopping.
          bindT probes_left (\<lambda>probes.
          bindT (checks_reopened t watchdog) (\<lambda>reopened.
            finish_drain (before @ watchdog @ front @ stopping @ probes @ reopened))))))))))"

definition drain_if_idle :: "nat \<Rightarrow> (supervisor, unit) thread" where
  "drain_if_idle t = bindT (reading (\<lambda>s. sv_leases s = [])) (\<lambda>idle.
     provided idle (thenT linearize_draining (drain_epoch t)))"

text \<open>\<open>_force_shutdown\<close>\<close>

definition force_draining :: "(supervisor, string list) thread" where
  "force_draining = atomically (\<lambda>e s.
     if sv_phase s = Draining then (Inr [], s)
     else (case set_fence_phase (e 0) (e 1) Draining (to_draining s) of
         (Inl x, s') \<Rightarrow> (Inr [''cannot durably mark forced shutdown''], s'\<lparr>sv_preserve := True\<rparr>)
       | (Inr _, s') \<Rightarrow> (Inr [], s')))"

primrec drop_all :: "string list \<Rightarrow> (supervisor, string list) thread" where
  "drop_all [] = returnT []"
| "drop_all (l # ls) =
     bindT (noting (\<lambda>_. True) (bindT (drop_lease l False) (\<lambda>_. returnT ()))) (\<lambda>es.
     bindT (drop_all ls) (\<lambda>rest. returnT (es @ rest)))"

definition force_shutdown :: "nat \<Rightarrow> (supervisor, unit) thread" where
  "force_shutdown t =
     bindT force_draining (\<lambda>fence.
     bindT (reading (\<lambda>s. map le_id (sv_leases s))) (\<lambda>leases.
     thenT (update (\<lambda>s. s\<lparr>sv_stop := True\<rparr>))
    (bindT (drop_all leases) (\<lambda>dropping.
     bindT (noting (\<lambda>_. True) (drain_epoch t)) (\<lambda>draining.
       let errors = fence @ dropping @ draining in
       provided (errors \<noteq> []) (update (\<lambda>s. (add_errors errors s)\<lparr>sv_preserve := True, sv_proved := False\<rparr>)))))))"

section \<open>The generation worker\<close>

definition begin_transition :: "(supervisor, route_contract option) thread" where
  "begin_transition = atomically (\<lambda>_ s.
     if sv_phase s = Draining \<or> sv_leases s = [] then (raise EpochDraining ''provider transition lost its live interest'', s)
     else (Inr (if sv_active s \<noteq> None then None else sv_contract s), s))"

definition initial_transition :: "settings \<Rightarrow> (supervisor, unit) thread" where
  "initial_transition cfg = bindT begin_transition (\<lambda>c. case c of
     None \<Rightarrow> returnT ()
   | Some c \<Rightarrow> thenT (ensure_frontend c) (transition_candidates cfg c (rc_ladder c)))"

text \<open>The worker of the epoch; without the qualification it only waits for the end afterwards.\<close>

definition worker_main :: "settings \<Rightarrow> nat \<Rightarrow> (supervisor, unit) thread" where
  "worker_main cfg t = handleT (locked t (initial_transition cfg)) (\<lambda>r.
     thenT (update (\<lambda>s. s\<lparr>sv_generation_error := (case r of Inl x \<Rightarrow> Some x | Inr _ \<Rightarrow> None)\<rparr>))
    (thenT (case r of Inl x \<Rightarrow> returnT () | Inr _ \<Rightarrow> await sv_stop (\<lambda>_ s. (Inr (), s)))
       (update (\<lambda>s. s\<lparr>sv_worker := False, sv_threads := sv_threads s - {t}\<rparr>))))"

text \<open>\<open>_ensure_generation\<close>: each round is a wait of at most 0.05 seconds, \<open>n\<close> of them in this run.\<close>

definition generation_state :: "string \<Rightarrow> (supervisor, bool) thread" where
  "generation_state l = atomically (\<lambda>e s. case find_lease l s of
     None \<Rightarrow> (raise EpochDraining ''lease no longer has live interest'', s)
   | Some le \<Rightarrow>
       if sv_phase s = Draining then (raise EpochDraining ''lease no longer has live interest'', s)
       else if sv_active s \<noteq> None then (Inr True, s)
       else (case sv_generation_error s of
           Some x \<Rightarrow> (Inl x, s)
         | None \<Rightarrow>
             if sv_worker s then (Inr False, s)
             else (case durably (e 0) (\<lambda>s. s\<lparr>sv_worker := True, sv_starting := True\<rparr>) s of
                 (Inr _, s') \<Rightarrow> (Inr False, s') | (Inl x, s') \<Rightarrow> (Inl x, s))))"

primrec ensure_generation :: "string \<Rightarrow> nat \<Rightarrow> (supervisor, unit) thread" where
  "ensure_generation l 0 = await (\<lambda>_. False) (\<lambda>_ s. (Inr (), s))"
| "ensure_generation l (Suc n) = bindT (generation_state l) (\<lambda>ready.
     if ready then returnT ()
     else bindT chooses (\<lambda>peer_closed.
       if peer_closed then bindT (drop_lease l True) (\<lambda>_.
         raiseT EpochDraining ''registration peer closed during provider transition'')
       else ensure_generation l n))"

section \<open>Repair and the watchdog\<close>

text \<open>\<open>remaining = ladder[index + 1:]\<close>; a rung that is not on the ladder counts as its last.\<close>

fun after_rung :: "string \<Rightarrow> string list \<Rightarrow> string list" where
  "after_rung rung [] = []"
| "after_rung rung (r # rs) = (if r = rung then rs else after_rung rung rs)"

definition begin_repair :: "nat \<Rightarrow> string \<Rightarrow> (supervisor, (bool \<times> string list \<times> route_contract) option) thread" where
  "begin_repair g rung = atomically (\<lambda>e s.
     if sv_active s \<noteq> Some (g, rung) \<or> sv_phase s = Draining \<or> sv_leases s = [] then (Inr None, s)
     else (case sv_contract s of
         None \<Rightarrow> (raise AssertionError [], s)
       | Some c \<Rightarrow>
           (Inr (Some (rung \<notin> set (sv_repairs s), after_rung rung (rc_ladder c), c)),
            s\<lparr>sv_repairs := List.insert rung (sv_repairs s),
              sv_transition := Some (case e 0 of Works n \<Rightarrow> n | _ \<Rightarrow> 0)\<rparr>)))"

text \<open>The answer tells whether the epoch has to be shut down.\<close>

definition repair_locked :: "settings \<Rightarrow> nat \<Rightarrow> string \<Rightarrow> (supervisor, bool) thread" where
  "repair_locked cfg g rung = bindT (begin_repair g rung) (\<lambda>plan. case plan of
     None \<Rightarrow> returnT False
   | Some (same, remaining, c) \<Rightarrow>
       thenT shut_frontend
      (thenT (stop_result g)
      (thenT (update (\<lambda>s. s\<lparr>sv_active := None\<rparr>))
      (bindT (if same then catchT (thenT (transition_candidates cfg c [rung]) (returnT True))
                (\<lambda>c. is_provider_error c \<or> c = EpochDraining) (\<lambda>_. returnT False)
              else returnT False) (\<lambda>repaired.
         if repaired then returnT False
         else if remaining \<noteq> [] then thenT (transition_candidates cfg c remaining) (returnT False)
         else thenT (update (\<lambda>s. s\<lparr>sv_transition := None\<rparr>)) (returnT True))))))"

definition try_acquire :: "nat \<Rightarrow> (supervisor, bool) thread" where
  "try_acquire t = atomically (\<lambda>_ s. if sv_lock s = None then (Inr True, s\<lparr>sv_lock := Some t\<rparr>) else (Inr False, s))"

definition repair_active :: "settings \<Rightarrow> nat \<Rightarrow> nat \<Rightarrow> string \<Rightarrow> (supervisor, unit) thread" where
  "repair_active cfg t g rung = bindT (try_acquire t) (\<lambda>got.
     if \<not> got then returnT ()
     else bindT (finallyT (catchT (repair_locked cfg g rung) (\<lambda>_. True)
         (\<lambda>_. thenT (update (\<lambda>s. s\<lparr>sv_transition := None\<rparr>)) (returnT True))) release_lock) (\<lambda>fatal.
       provided fatal (thenT (force_shutdown t) (update (\<lambda>s. s\<lparr>sv_stop := True\<rparr>)))))"

definition begin_check :: "nat \<Rightarrow> (supervisor, bool) thread" where
  "begin_check t = atomically (\<lambda>_ s.
     if sv_stop s \<or> sv_phase s = Draining then (Inr False, s)
     else if t \<in> sv_checks s then (raise RuntimeSecurityError ''watchdog health-check ownership is recursive'', s)
     else (Inr True, s\<lparr>sv_checks := insert t (sv_checks s)\<rparr>))"

definition finish_check :: "nat \<Rightarrow> (supervisor, unit) thread" where
  "finish_check t = atomically (\<lambda>_ s.
     if t \<notin> sv_checks s then (raise RuntimeSecurityError ''watchdog health-check ownership is missing'', s)
     else (Inr (), s\<lparr>sv_checks := sv_checks s - {t}\<rparr>))"

text \<open>The locals of \<open>_watchdog_loop\<close>: the failing generation and how often it failed in a row.\<close>

definition check_health :: "settings \<Rightarrow> nat \<Rightarrow> nat option \<Rightarrow> nat \<Rightarrow> nat \<Rightarrow> string \<Rightarrow> (supervisor, nat option \<times> nat) thread" where
  "check_health cfg t failing failures g rung = bindT ask (\<lambda>healthy.
     if healthy then returnT (None, 0)
     else let failures = Suc (if failing = Some g then failures else 0) in
       if failures \<ge> se_watchdog_failures cfg then thenT (repair_active cfg t g rung) (returnT (None, 0))
       else returnT (Some g, failures))"

definition drop_dead :: "lease \<Rightarrow> (supervisor, unit) thread" where
  "drop_dead le = bindT chooses (\<lambda>alive. if alive then returnT () else bindT (drop_lease (le_id le) True) (\<lambda>_. returnT ()))"

definition drain_quietly :: "nat \<Rightarrow> (supervisor, unit) thread" where
  "drain_quietly t = thenT (catchT (drain_epoch t) is_provider_error (\<lambda>_. returnT ())) (update (\<lambda>s. s\<lparr>sv_stop := True\<rparr>))"

primrec watchdog_loop :: "settings \<Rightarrow> nat \<Rightarrow> nat \<Rightarrow> nat option \<Rightarrow> nat \<Rightarrow> (supervisor, unit) thread" where
  "watchdog_loop cfg t 0 failing failures = await sv_stop (\<lambda>_ s. (Inr (), s))"
| "watchdog_loop cfg t (Suc n) failing failures = bindT (reading sv_stop) (\<lambda>stop.
     if stop then returnT ()
     else bindT (reading (\<lambda>s. (sv_phase s, sv_active s, sv_leases s))) (\<lambda>(phase, active, leases).
       if phase = Draining then returnT ()
       else thenT (eachT drop_dead leases)
        (bindT (reading (\<lambda>s. sv_leases s = [])) (\<lambda>idle.
           if idle then thenT linearize_draining (drain_quietly t)
           else (case active of
               None \<Rightarrow> watchdog_loop cfg t n failing failures
             | Some (g, rung) \<Rightarrow> bindT (begin_check t) (\<lambda>ok.
                 if \<not> ok then watchdog_loop cfg t n None 0
                 else bindT (finallyT (check_health cfg t failing failures g rung) (finish_check t)) (\<lambda>(failing, failures).
                   watchdog_loop cfg t n failing failures)))))))"

definition watchdog_main :: "settings \<Rightarrow> nat \<Rightarrow> nat \<Rightarrow> (supervisor, unit) thread" where
  "watchdog_main cfg t n = finallyT (watchdog_loop cfg t n None 0) (update (\<lambda>s. s\<lparr>sv_threads := sv_threads s - {t}\<rparr>))"



section \<open>Requests\<close>

abbreviation refuse :: "string \<Rightarrow> 'a result" where
  "refuse msg \<equiv> raise AdmissionError msg"

type_synonym payload = "(string \<times> json) list"

text \<open>\<open>payload.get(key)\<close>\<close>

definition get_field :: "payload \<Rightarrow> string \<Rightarrow> json" where
  "get_field kvs k = (case map_of kvs k of None \<Rightarrow> JNull | Some v \<Rightarrow> v)"

definition request_pattern :: "(string \<Rightarrow> bool) \<Rightarrow> json \<Rightarrow> string \<Rightarrow> string result" where
  "request_pattern pat v name = (case v of
     JStr s \<Rightarrow> (if pat s then Inr s else refuse (name @ '': invalid token''))
   | _ \<Rightarrow> refuse (name @ '': invalid token''))"

definition REQUEST_TOKEN_RE :: "string \<Rightarrow> bool" where
  "REQUEST_TOKEN_RE s \<longleftrightarrow> 1 \<le> length s \<and> length s \<le> 256 \<and> list_all (\<lambda>c. is_alnum c \<or> c \<in> set ''._:+@/-'') s"

definition NONCE_RE :: "string \<Rightarrow> bool" where
  "NONCE_RE s \<longleftrightarrow> length s = 32 \<and> list_all is_hex s"

abbreviation request_token :: "json \<Rightarrow> string \<Rightarrow> string result" where
  "request_token \<equiv> request_pattern REQUEST_TOKEN_RE"

definition request_exact :: "payload \<Rightarrow> string list \<Rightarrow> string \<Rightarrow> unit result" where
  "request_exact kvs ks name = raise_if (fst ` set kvs \<noteq> set ks) AdmissionError (name @ '': keys differ'')"

fun json_int :: "json \<Rightarrow> int" where
  "json_int (JInt i) = i"
| "json_int _ = 0"

definition request_identity :: "json \<Rightarrow> string \<Rightarrow> process_identity result" where
  "request_identity v name = (case v of
     JObj kvs \<Rightarrow>
       thenE (request_exact kvs [''pid'', ''pid_start_ticks'', ''boot_id''] name)
      (let pid = get_field kvs ''pid''; ticks = get_field kvs ''pid_start_ticks''; boot = get_field kvs ''boot_id'' in
       catchE (thenE (process_identity_post_init pid ticks boot)
           (Inr \<lparr>pi_pid = json_int pid, pi_start_ticks = json_int ticks, pi_boot_id = json_text boot\<rparr>))
         (\<lambda>c. c = TypeError \<or> is_value_error c) (\<lambda>x. refuse (exc_msg x)))
   | _ \<Rightarrow> refuse (name @ '': expected an object''))"

definition request_contract :: "json \<Rightarrow> route_contract result" where
  "request_contract v = catchE (route_contract_from_dict v ''contract'') (\<lambda>c. c = TypeError \<or> is_value_error c)
     (\<lambda>x. refuse (''contract: '' @ exc_msg x))"

abbreviation request_keys :: "string list \<Rightarrow> string list" where
  "request_keys ks \<equiv> [''type'', ''schema_version'', ''protocol_version'', ''request_id''] @ ks"

abbreviation from_pure :: "'a result \<Rightarrow> (supervisor, 'a) thread" where
  "from_pure r \<equiv> Finished r"

text \<open>A test whose outcome the environment decides, refused with \<open>msg\<close> when it fails.\<close>

definition refuse_unless :: "string \<Rightarrow> (supervisor, unit) thread" where
  "refuse_unless msg = bindT chooses (\<lambda>ok. from_pure (raise_if (\<not> ok) AdmissionError msg))"

subsection \<open>The replay cache\<close>

definition MAX_REPLAYS :: nat where "MAX_REPLAYS = 4096"

definition move_to_end :: "'k \<Rightarrow> 'v \<Rightarrow> ('k \<times> 'v) list \<Rightarrow> ('k \<times> 'v) list" where
  "move_to_end k v kvs = filter (\<lambda>e. fst e \<noteq> k) kvs @ [(k, v)]"

definition lookup_replay :: "string list \<Rightarrow> nat \<Rightarrow> string \<Rightarrow> supervisor \<Rightarrow> payload option result \<times> supervisor" where
  "lookup_replay key c fingerprint s = (case map_of (sv_replays s) key of
     None \<Rightarrow> (Inr None, s)
   | Some r \<Rightarrow>
       if rp_connection r \<noteq> c then (refuse ''mutating request replay crossed its control connection'', s)
       else if rp_fingerprint r \<noteq> fingerprint then (refuse ''request_id replay payload differs from the original'', s)
       else (Inr (Some (rp_response r)), s\<lparr>sv_replays := move_to_end key r (sv_replays s)\<rparr>))"

definition save_replay :: "string list \<Rightarrow> nat \<Rightarrow> string \<Rightarrow> payload \<Rightarrow> supervisor \<Rightarrow> supervisor" where
  "save_replay key c fingerprint response s =
     (let r = \<lparr>rp_connection = c, rp_fingerprint = fingerprint, rp_response = response\<rparr> in
      if map_of (sv_replays s) key \<notin> {None, Some r} then s
      else let kept = move_to_end key r (sv_replays s)
        in s\<lparr>sv_replays := drop (length kept - MAX_REPLAYS) kept\<rparr>)"

text \<open>The key of a request; \<open>None\<close> for a kind that is not remembered.\<close>

definition replay_key :: "payload \<Rightarrow> (string \<times> string list option) result" where
  "replay_key kvs =
     bindE (request_token (get_field kvs ''type'') ''type'') (\<lambda>kind.
     thenE (raise_if (\<not> py_eq (get_field kvs ''schema_version'') (JInt SCHEMA_VERSION)) AdmissionError ''schema_version mismatch'')
    (thenE (raise_if (\<not> py_eq (get_field kvs ''protocol_version'') (JInt PROTOCOL_VERSION)) AdmissionError ''protocol_version mismatch'')
    (if kind \<in> {''register'', ''attach-child'', ''release''} then
       bindE (request_token (get_field kvs ''request_id'') ''request_id'') (\<lambda>request.
         if kind = ''register'' then Inr (kind, Some [kind, request])
         else bindE (request_token (get_field kvs ''owner_epoch'') ''owner_epoch'') (\<lambda>epoch.
              bindE (request_token (get_field kvs ''lease_id'') ''lease_id'') (\<lambda>l.
                Inr (kind, Some [kind, epoch, l, request]))))
     else Inr (kind, None))))"

subsection \<open>Registration\<close>

record registration =
  rg_request_id :: string
  rg_nonce :: string
  rg_wrapper :: process_identity
  rg_contract :: route_contract

text \<open>The checks before the state is looked at; the wrapper's liveness is asked in between.\<close>

definition parse_register :: "settings \<Rightarrow> payload \<Rightarrow> nat \<Rightarrow> int \<Rightarrow> (string \<times> string \<times> process_identity) result" where
  "parse_register cfg kvs descriptors peer =
     thenE (request_exact kvs (request_keys [''lease_nonce'', ''wrapper'', ''contract'']) ''register'')
    (thenE (raise_if (if se_needs_executable cfg then descriptors \<noteq> 1 else descriptors \<noteq> 0) AdmissionError
       ''register descriptors'')
    (bindE (request_token (get_field kvs ''request_id'') ''request_id'') (\<lambda>request.
     bindE (request_pattern NONCE_RE (get_field kvs ''lease_nonce'') ''lease_nonce'') (\<lambda>nonce.
     bindE (request_identity (get_field kvs ''wrapper'') ''wrapper'') (\<lambda>wrapper.
     thenE (raise_if (pi_pid wrapper \<noteq> peer) AdmissionError ''wrapper identity does not match the authenticated peer'')
       (Inr (request, nonce, wrapper)))))))"

definition check_contract :: "settings \<Rightarrow> route_contract \<Rightarrow> supervisor \<Rightarrow> unit result" where
  "check_contract cfg incoming s = (case sv_contract s of
     Some established \<Rightarrow> raise_if (semantic_differences established incoming \<noteq> []) AdmissionError ''contract mismatch''
   | None \<Rightarrow> seqE [
       raise_if (route_contract_digest (se_sha cfg) incoming \<noteq> se_expected_digest cfg) AdmissionError ''contract mismatch: digest'',
       raise_if (rc_release_id incoming \<noteq> se_release_id cfg) AdmissionError ''contract mismatch: release_id'',
       raise_if (rl_max_control_connections (rc_limits incoming) \<noteq> se_control_cap cfg) AdmissionError
         ''contract mismatch: bootstrap control cap''])"

text \<open>\<open>secrets.token_hex(16)\<close>, drawn again until it names no lease.\<close>

fun unused_id :: "nat \<Rightarrow> nat \<Rightarrow> string list \<Rightarrow> string" where
  "unused_id 0 n ids = hex_digits 32 n"
| "unused_id (Suc k) n ids = (if hex_digits 32 n \<in> set ids then unused_id k (Suc n) ids else hex_digits 32 n)"

definition connection_of :: "nat \<Rightarrow> supervisor \<Rightarrow> connection option" where
  "connection_of c s = map_of (sv_connections s) c"

definition context_leases :: "nat \<Rightarrow> supervisor \<Rightarrow> string list" where
  "context_leases c s = (case connection_of c s of None \<Rightarrow> [] | Some k \<Rightarrow> co_leases k)"

definition own_lease :: "nat \<Rightarrow> string \<Rightarrow> supervisor \<Rightarrow> supervisor" where
  "own_lease c l s = s\<lparr>sv_connections :=
     map (\<lambda>(d, k). (d, if d = c then k\<lparr>co_leases := List.insert l (co_leases k)\<rparr> else k)) (sv_connections s)\<rparr>"

text \<open>
  The locked part of \<open>_register\<close>. The first contract is established before the capacity and the leader
  path are looked at.
\<close>

definition admit_lease :: "settings \<Rightarrow> nat \<Rightarrow> registration \<Rightarrow> (supervisor, string) thread" where
  "admit_lease cfg c rg = atomically (\<lambda>e s.
     if sv_phase s = Draining then (raise EpochDraining ''supervisor epoch is draining'', s)
     else if context_leases c s \<noteq> [] then (refuse ''one control connection may own only one lease'', s)
     else
       let incoming = rg_contract rg; digest = route_contract_digest (se_sha cfg) incoming in
       if (case sv_contract s of None \<Rightarrow> False | Some d \<Rightarrow> semantic_differences d incoming \<noteq> [])
       then (refuse ''contract mismatch'', s)
       else
         let (contract, s1) = (case sv_contract s of
               Some d \<Rightarrow> (d, s)
             | None \<Rightarrow> (incoming, s\<lparr>sv_contract := Some incoming, sv_digest := Some digest,
                 sv_executable := se_needs_executable cfg\<rparr>)) in
         if int (length (sv_leases s1)) \<ge> rl_max_leases (rc_limits contract) then (refuse ''lease capacity exceeded'', s1)
         else (case e 1 of
             Fails x \<Rightarrow> (raise x ''leader path'', s1)
           | Fails_after x \<Rightarrow> (raise x ''leader path'', s1)
           | Works n \<Rightarrow>
               let ids = map le_id (sv_leases s1);
                   l = unused_id (length ids) (case e 0 of Works n \<Rightarrow> n | _ \<Rightarrow> 0) ids;
                   lease = \<lparr>le_id = l, le_nonce = rg_nonce rg, le_request_id = rg_request_id rg, le_connection = c,
                     le_wrapper = rg_wrapper rg, le_digest = digest, le_leader = hex_digits 12 n, le_live = False,
                     le_child = None\<rparr>
               in (Inr l, own_lease c l (s1\<lparr>sv_leases := sv_leases s1 @ [lease], sv_issued := Suc (sv_issued s1)\<rparr>))))"

text \<open>The registration lost its generation: drop the lease, drain when it was the last one.\<close>

definition abandon_register :: "nat \<Rightarrow> string \<Rightarrow> exc \<Rightarrow> (supervisor, payload) thread" where
  "abandon_register t l primary =
     bindT (drop_lease l True) (\<lambda>last.
     bindT (reading (\<lambda>s. last \<or> sv_leases s = [])) (\<lambda>last.
     thenT (catchT (drain_if_idle t) is_provider_error (\<lambda>x. raiseT ProviderResidueError (exc_msg primary @ ''; drain residue'')))
    (thenT (provided last (update (\<lambda>s. s\<lparr>sv_stop := True\<rparr>)))
       (Finished (Inl primary)))))"

definition registered :: "settings \<Rightarrow> string \<Rightarrow> string \<Rightarrow> (supervisor, payload) thread" where
  "registered cfg request l = atomically (\<lambda>_ s.
     (case find_lease l s of
        None \<Rightarrow> raise EpochDraining ''lease lost interest before provider commit''
      | Some le \<Rightarrow>
          if sv_phase s = Draining \<or> sv_active s = None
          then raise EpochDraining ''lease lost interest before provider commit''
          else (case sv_contract s of
              None \<Rightarrow> raise AssertionError []
            | Some c \<Rightarrow> Inr [(''ok'', JBool True), (''type'', JStr ''registered''), (''request_id'', JStr request),
                (''owner_epoch'', JStr (se_owner_epoch cfg)), (''lease_id'', JStr l), (''leader_path'', JStr (le_leader le)),
                (''public_endpoint'', endpoint_to_dict (rc_public_endpoint c)), (''contract_digest'', JStr (le_digest le)),
                (''state'', JStr ''provisional'')]), s))"

definition register :: "settings \<Rightarrow> nat \<Rightarrow> int \<Rightarrow> nat \<Rightarrow> payload \<Rightarrow> nat \<Rightarrow> (supervisor, payload) thread" where
  "register cfg t peer n kvs descriptors =
     bindT (from_pure (parse_register cfg kvs descriptors peer)) (\<lambda>(request, nonce, wrapper).
     thenT (refuse_unless ''wrapper identity does not match the authenticated peer'')
    (bindT (from_pure (request_contract (get_field kvs ''contract''))) (\<lambda>incoming.
     thenT (refuse_unless ''provider canary is not bound to the first contract'')
    (thenT (atomically (\<lambda>_ s. (check_contract cfg incoming s, s)))
    (thenT (provided (se_needs_executable cfg) (refuse_unless ''Grok executable descriptor''))
    (bindT (admit_lease cfg t \<lparr>rg_request_id = request, rg_nonce = nonce, rg_wrapper = wrapper, rg_contract = incoming\<rparr>) (\<lambda>l.
       handleT (ensure_generation l n) (\<lambda>r. case r of
         Inl primary \<Rightarrow> abandon_register t l primary
       | Inr _ \<Rightarrow> registered cfg request l))))))))"

subsection \<open>Children\<close>

definition owned_lease :: "nat \<Rightarrow> string \<Rightarrow> supervisor \<Rightarrow> lease option" where
  "owned_lease c l s = (case find_lease l s of None \<Rightarrow> None | Some le \<Rightarrow> if le_connection le = c then Some le else None)"

definition parse_attach :: "settings \<Rightarrow> payload \<Rightarrow> nat \<Rightarrow> (string \<times> string \<times> process_identity) result" where
  "parse_attach cfg kvs descriptors =
     thenE (request_exact kvs (request_keys [''owner_epoch'', ''lease_id'', ''child'']) ''attach-child'')
    (thenE (raise_if (descriptors \<noteq> 1) AdmissionError ''attach-child requires exactly one pidfd'')
    (bindE (request_token (get_field kvs ''owner_epoch'') ''owner_epoch'') (\<lambda>epoch.
     bindE (request_token (get_field kvs ''lease_id'') ''lease_id'') (\<lambda>l.
     bindE (request_token (get_field kvs ''request_id'') ''request_id'') (\<lambda>request.
     bindE (request_identity (get_field kvs ''child'') ''child'') (\<lambda>child.
     thenE (raise_if (epoch \<noteq> se_owner_epoch cfg) AdmissionError ''stale owner epoch'')
       (Inr (request, l, child))))))))"

definition provisional_lease :: "nat \<Rightarrow> string \<Rightarrow> (supervisor, unit) thread" where
  "provisional_lease c l = atomically (\<lambda>_ s. (case owned_lease c l s of
       None \<Rightarrow> refuse ''lease does not belong to this control connection''
     | Some le \<Rightarrow> raise_if (le_live le) AdmissionError ''lease is not provisional'', s))"

definition create_scope :: "string \<Rightarrow> (supervisor, unit) thread" where
  "create_scope l = atomically (\<lambda>e s. durably (e 0) (set_scope l Present) s)"

definition set_lease :: "string \<Rightarrow> (lease \<Rightarrow> lease) \<Rightarrow> supervisor \<Rightarrow> supervisor" where
  "set_lease l f s = s\<lparr>sv_leases := map (\<lambda>x. if le_id x = l then f x else x) (sv_leases s)\<rparr>"

definition acknowledge_child :: "nat \<Rightarrow> string \<Rightarrow> process_identity \<Rightarrow> (supervisor, unit) thread" where
  "acknowledge_child c l child = atomically (\<lambda>_ s. case owned_lease c l s of
     None \<Rightarrow> (refuse ''lease disappeared during child attachment'', s)
   | Some le \<Rightarrow>
       if sv_phase s = Draining \<or> sv_active s = None then (raise EpochDraining ''provider is not committed'', s)
       else (Inr (), set_lease l (\<lambda>x. x\<lparr>le_child := Some child, le_live := True\<rparr>) s))"

definition attach_scope :: "nat \<Rightarrow> string \<Rightarrow> process_identity \<Rightarrow> (supervisor, unit) thread" where
  "attach_scope c l child =
     thenT (create_scope l)
    (thenT (replace_child l C_scope_created)
    (thenT calling
    (thenT (replace_child l C_attached)
           (acknowledge_child c l child))))"

text \<open>What \<open>_attach_child\<close> does about an exception \<open>x\<close> once the record was written.\<close>

definition undo_attach :: "string \<Rightarrow> exc \<Rightarrow> (supervisor, unit) thread" where
  "undo_attach l x =
     bindT (reconcile_scope l) (\<lambda>clean.
     bindT (if clean then noting (\<lambda>_. True) (delete_child l) else returnT [''scope'']) (\<lambda>errors.
       if errors = [] then Finished (Inl x)
       else thenT (update (\<lambda>s. (add_errors [''child scope attachment cleanup is uncertain''] s)\<lparr>sv_preserve := True\<rparr>))
         (raiseT ScopeError ''child scope attachment cleanup is uncertain'')))"

definition attach_child :: "settings \<Rightarrow> nat \<Rightarrow> payload \<Rightarrow> nat \<Rightarrow> (supervisor, payload) thread" where
  "attach_child cfg t kvs descriptors =
     bindT (from_pure (parse_attach cfg kvs descriptors)) (\<lambda>(request, l, child).
     thenT (provisional_lease t l)
    (thenT (refuse_unless ''child identity is not live'')
    (thenT calling
    (thenT (refuse_unless ''child parent does not match the registered wrapper'')
    (thenT (refuse_unless ''transferred pidfd does not match the child identity'')
    (thenT calling
    (thenT (put_child l)
    (thenT (catchT (attach_scope t l child) (\<lambda>_. True) (undo_attach l))
      (returnT [(''ok'', JBool True), (''type'', JStr ''attached''), (''request_id'', JStr request),
         (''owner_epoch'', JStr (se_owner_epoch cfg)), (''lease_id'', JStr l), (''state'', JStr ''live'')])))))))))"

definition parse_release :: "settings \<Rightarrow> payload \<Rightarrow> nat \<Rightarrow> (string \<times> string \<times> json) result" where
  "parse_release cfg kvs descriptors =
     thenE (request_exact kvs (request_keys [''owner_epoch'', ''lease_id'', ''child_status'']) ''release'')
    (thenE (raise_if (descriptors \<noteq> 0) AdmissionError ''release does not accept file descriptors'')
    (thenE (raise_if (get_field kvs ''owner_epoch'' \<noteq> JStr (se_owner_epoch cfg)) AdmissionError ''stale owner epoch'')
    (bindE (request_token (get_field kvs ''lease_id'') ''lease_id'') (\<lambda>l.
     bindE (request_token (get_field kvs ''request_id'') ''request_id'') (\<lambda>request.
     case get_field kvs ''child_status'' of
       JInt i \<Rightarrow> (if 0 \<le> i \<and> i \<le> 255 then Inr (request, l, JInt i) else refuse ''child_status must be an integer in [0, 255]'')
     | _ \<Rightarrow> refuse ''child_status must be an integer in [0, 255]'')))))"

definition releasable :: "nat \<Rightarrow> string \<Rightarrow> (supervisor, unit) thread" where
  "releasable c l = atomically (\<lambda>e s. (case owned_lease c l s of
       None \<Rightarrow> refuse ''lease does not belong to this control connection''
     | Some le \<Rightarrow> raise_if (le_child le \<noteq> None \<and> (case e 0 of Works n \<Rightarrow> n = 0 | _ \<Rightarrow> False)) AdmissionError
         ''cannot release a still-live child'', s))"

definition release_lease :: "settings \<Rightarrow> nat \<Rightarrow> payload \<Rightarrow> nat \<Rightarrow> (supervisor, payload) thread" where
  "release_lease cfg t kvs descriptors =
     bindT (from_pure (parse_release cfg kvs descriptors)) (\<lambda>(request, l, status).
     thenT (releasable t l)
    (bindT (drop_lease l True) (\<lambda>last.
     thenT (provided last (drain_epoch t))
    (bindT (reading (\<lambda>s. last \<and> sv_proved s)) (\<lambda>shutdown.
       returnT [(''ok'', JBool True), (''type'', JStr ''released''), (''request_id'', JStr request),
         (''owner_epoch'', JStr (se_owner_epoch cfg)), (''lease_id'', JStr l), (''child_status'', status),
         (''shutdown'', JBool shutdown)])))))"

subsection \<open>Reading requests\<close>

definition parse_reading :: "payload \<Rightarrow> nat \<Rightarrow> string \<Rightarrow> string result" where
  "parse_reading kvs descriptors kind =
     thenE (request_exact kvs (request_keys []) kind)
    (thenE (raise_if (descriptors \<noteq> 0) AdmissionError (kind @ '' does not accept file descriptors''))
       (request_token (get_field kvs ''request_id'') ''request_id''))"

definition status_request :: "settings \<Rightarrow> payload \<Rightarrow> nat \<Rightarrow> (supervisor, payload) thread" where
  "status_request cfg kvs descriptors = bindT (from_pure (parse_reading kvs descriptors ''status'')) (\<lambda>request.
     reading (\<lambda>s. [(''ok'', JBool True), (''type'', JStr ''status''), (''request_id'', JStr request), (''status'', se_status cfg s)]))"

definition ip_request :: "settings \<Rightarrow> payload \<Rightarrow> nat \<Rightarrow> (supervisor, payload) thread" where
  "ip_request cfg kvs descriptors = bindT (from_pure (parse_reading kvs descriptors ''ip'')) (\<lambda>request.
     reading (\<lambda>s. [(''ok'', JBool True), (''type'', JStr ''ip''), (''request_id'', JStr request),
       (''egress_ip'', JStr (case sv_active s of None \<Rightarrow> [] | Some a \<Rightarrow> se_egress cfg a))]))"

subsection \<open>Messages and connections\<close>

definition dispatch :: "settings \<Rightarrow> nat \<Rightarrow> int \<Rightarrow> nat \<Rightarrow> string \<Rightarrow> payload \<Rightarrow> nat \<Rightarrow> (supervisor, payload) thread" where
  "dispatch cfg t peer n kind kvs descriptors =
     (if kind = ''register'' then register cfg t peer n kvs descriptors
      else if kind = ''attach-child'' then attach_child cfg t kvs descriptors
      else if kind = ''release'' then release_lease cfg t kvs descriptors
      else if kind = ''status'' then status_request cfg kvs descriptors
      else if kind = ''ip'' then ip_request cfg kvs descriptors
      else if kind \<in> {''qualification-pause'', ''qualification-set-frozen'', ''qualification-quiesce'',
          ''qualification-disarm'', ''qualification-provider-fault''} then raiseT Unmodelled ''guarded qualification''
      else raiseT AdmissionError ''unsupported request type'')"

text \<open>The classes \<open>_handle_message\<close> answers; any other ends the connection.\<close>

definition is_answered :: "exc_class \<Rightarrow> bool" where
  "is_answered c \<longleftrightarrow> c \<in> {AdmissionError, EpochDraining, FrontendDrainTimeout} \<or> is_provider_error c \<or>
     is_security_error c \<or> is_os_error c \<or> is_value_error c"

text \<open>\<open>_diagnostic_text(exc, 512)\<close>\<close>

definition diagnostic_text :: "string \<Rightarrow> nat \<Rightarrow> string" where
  "diagnostic_text v limit = take limit (butlast (tl (canonical_json_bytes (JStr v))))"

definition error_response :: "payload \<Rightarrow> exc \<Rightarrow> payload" where
  "error_response kvs x = [(''ok'', JBool False), (''error'', JStr (diagnostic_text (exc_msg x) 512))] @
     (case get_field kvs ''request_id'' of JStr r \<Rightarrow> [(''request_id'', JStr r)] | _ \<Rightarrow> [])"

definition put_field :: "string \<Rightarrow> json \<Rightarrow> payload \<Rightarrow> payload" where
  "put_field k v kvs = (if k \<in> fst ` set kvs then map (\<lambda>(j, w). (j, if j = k then v else w)) kvs else kvs @ [(k, v)])"

definition finish_message :: "nat \<Rightarrow> string \<Rightarrow> string list option \<Rightarrow> payload \<Rightarrow> (supervisor, payload) thread" where
  "finish_message t fingerprint key response =
     bindT (reading (\<lambda>s. if sv_phase s = Draining then put_field ''shutdown'' (JBool True) response else response)) (\<lambda>response.
     thenT (case key of None \<Rightarrow> returnT () | Some k \<Rightarrow> update (save_replay k t fingerprint response))
       (returnT response))"

definition respond :: "nat \<Rightarrow> string \<Rightarrow> payload \<Rightarrow> string list option \<Rightarrow> payload result \<Rightarrow> (supervisor, payload) thread" where
  "respond t fingerprint kvs key r = (case r of
     Inr response \<Rightarrow> finish_message t fingerprint key response
   | Inl x \<Rightarrow> if is_answered (exc_class x) then finish_message t fingerprint key (error_response kvs x) else Finished (Inl x))"

definition handle_message :: "settings \<Rightarrow> nat \<Rightarrow> int \<Rightarrow> nat \<Rightarrow> payload \<Rightarrow> nat \<Rightarrow> (supervisor, payload) thread" where
  "handle_message cfg t peer n kvs descriptors =
     (let fingerprint = se_sha cfg (canonical_json_bytes (JObj kvs)) in
      case replay_key kvs of
        Inl x \<Rightarrow> respond t fingerprint kvs None (Inl x)
      | Inr (kind, key) \<Rightarrow>
          handleT (case key of None \<Rightarrow> returnT None | Some k \<Rightarrow> atomically (\<lambda>_. lookup_replay k t fingerprint)) (\<lambda>r. case r of
            Inr (Some response) \<Rightarrow> returnT response
          | Inl x \<Rightarrow> respond t fingerprint kvs key (Inl x)
          | Inr None \<Rightarrow> handleT (dispatch cfg t peer n kind kvs descriptors) (respond t fingerprint kvs key)))"

text \<open>\<open>_connection_lost\<close> and the loop of one connection, over the messages that arrive on it.\<close>

primrec drop_owned :: "string list \<Rightarrow> bool \<Rightarrow> (supervisor, bool) thread" where
  "drop_owned [] emptied = returnT emptied"
| "drop_owned (l # ls) emptied = bindT (drop_lease l True) (drop_owned ls)"

definition connection_lost :: "nat \<Rightarrow> (supervisor, unit) thread" where
  "connection_lost t = bindT (reading (context_leases t)) (\<lambda>owned.
     bindT (drop_owned owned False) (\<lambda>last.
       provided (owned \<noteq> [] \<and> last) (drain_quietly t)))"

type_synonym message = "payload \<times> nat \<times> nat"

text \<open>A message: its payload, its descriptors, and how often its registration looks for a generation.\<close>

primrec serve_messages :: "settings \<Rightarrow> nat \<Rightarrow> int \<Rightarrow> message list \<Rightarrow> (supervisor, unit) thread" where
  "serve_messages cfg t peer [] = returnT ()"
| "serve_messages cfg t peer (m # ms) = bindT (reading sv_stop) (\<lambda>stop.
     if stop then returnT ()
     else (case m of (kvs, descriptors, n) \<Rightarrow>
       bindT (handle_message cfg t peer n kvs descriptors) (\<lambda>response.
       bindT chooses (\<lambda>sent.
         if \<not> sent then returnT ()
         else if get_field response ''shutdown'' = JBool True then update (\<lambda>s. s\<lparr>sv_stop := True\<rparr>)
         else serve_messages cfg t peer ms))))"

definition control_cap :: "settings \<Rightarrow> supervisor \<Rightarrow> int" where
  "control_cap cfg s = (case sv_contract s of None \<Rightarrow> se_control_cap cfg | Some c \<Rightarrow> rl_max_control_connections (rc_limits c))"

definition open_connection :: "settings \<Rightarrow> nat \<Rightarrow> int \<Rightarrow> (supervisor, bool) thread" where
  "open_connection cfg t peer = atomically (\<lambda>_ s.
     if int (length (sv_connections s)) \<ge> control_cap cfg s then (Inr False, s)
     else (Inr True, s\<lparr>sv_connections := (t, \<lparr>co_peer_pid = peer, co_leases = []\<rparr>) # sv_connections s\<rparr>))"

text \<open>
  The end of a connection. When draining raised something that is no \<open>ProviderError\<close>, the thread dies
  with its connection and its slot still taken.
\<close>

definition end_connection :: "nat \<Rightarrow> (supervisor, unit) thread" where
  "end_connection t = handleT (connection_lost t) (\<lambda>r.
     thenT (update (\<lambda>s. case r of
         Inr _ \<Rightarrow> s\<lparr>sv_connections := filter (\<lambda>e. fst e \<noteq> t) (sv_connections s),
           sv_threads := sv_threads s - {t}, sv_slots := sv_slots s - 1\<rparr>
       | Inl _ \<Rightarrow> s\<lparr>sv_threads := sv_threads s - {t}\<rparr>))
       (Finished r))"

definition connection_main :: "settings \<Rightarrow> nat \<Rightarrow> int \<Rightarrow> message list \<Rightarrow> (supervisor, unit) thread" where
  "connection_main cfg t peer ms =
     finallyT (bindT (open_connection cfg t peer) (\<lambda>admitted. provided admitted (serve_messages cfg t peer ms)))
       (end_connection t)"

section \<open>The end of the epoch\<close>

text \<open>
  \<open>finalize\<close>, with the errors of its parts. Probes, the qualification guard and detached scopes that
  remain are one error the environment may report; the ready record and the socket are unlinked, and
  \<open>_release_epoch_scope\<close> must succeed before the fence is cleared. It runs once, as thread 0 calls it.
\<close>

definition finalize_memory :: "(supervisor, string list) thread" where
  "finalize_memory = atomically (\<lambda>e s.
     (Inr ((if sv_preserve s then [''an earlier cleanup failure requires durable recovery''] else []) @
        (if sv_threads s \<noteq> {} \<or> sv_starting s then [''supervisor worker threads remain during finalization''] else [])),
      s\<lparr>sv_stop := True\<rparr>))"

definition finalize_records :: "(supervisor, string list) thread" where
  "finalize_records = atomically (\<lambda>e s.
     (Inr (case e 0 of
        Works n \<Rightarrow> (if (\<forall>l. du_children s l = None) \<and> (\<forall>g. du_providers s g = None) then []
          else [''durable recovery records remain during finalization''])
      | _ \<Rightarrow> [''cannot prove durable recovery state empty'']), s))"

definition finalize_intents :: "(supervisor, string list) thread" where
  "finalize_intents = atomically (\<lambda>e s.
     (Inr (case e 0 of
        Works n \<Rightarrow> (if \<forall>g. du_intents s g = None then [] else [''durable effect intents remain during finalization''])
      | _ \<Rightarrow> [''cannot prove durable intent state empty'']), s))"

definition clear_fence :: "(supervisor, string list) thread" where
  "clear_fence = atomically (\<lambda>e s.
     if du_fence s = None then (Inr [], s\<lparr>sv_fence := None\<rparr>)
     else (case durably (e 0) (\<lambda>s. s\<lparr>du_fence := None\<rparr>) s of
         (Inr _, s') \<Rightarrow> (Inr [], s'\<lparr>sv_fence := None\<rparr>)
       | (Inl x, s') \<Rightarrow> (Inr [exc_msg x], s')))"

definition finalize :: "(supervisor, unit) thread" where
  "finalize =
     bindT finalize_memory (\<lambda>memory.
     bindT finalize_records (\<lambda>records.
     bindT finalize_intents (\<lambda>intents.
     bindT (noting (\<lambda>_. True) calling) (\<lambda>scopes.
     bindT (noting (\<lambda>_. True) (thenT calling calling)) (\<lambda>unlinking.
     let errors = memory @ records @ intents @ scopes @ unlinking in
     bindT (reading sv_proved) (\<lambda>proved.
     bindT (if proved \<and> errors = [] then noting (\<lambda>_. True) calling else returnT []) (\<lambda>releasing.
     bindT (if proved \<and> errors @ releasing = [] then clear_fence else returnT []) (\<lambda>clearing.
       provided (errors @ releasing @ clearing \<noteq> []) (update (\<lambda>s. s\<lparr>sv_proved := False\<rparr>))))))))))"

text \<open>\<open>serve_forever\<close> after its loop: no connection is accepted any more.\<close>

definition serve_end :: "(supervisor, unit) thread" where
  "serve_end =
     thenT (update (\<lambda>s. s\<lparr>sv_serving := False, sv_stop := True\<rparr>))
    (bindT (reading (\<lambda>s. \<not> sv_proved s \<and> sv_leases s \<noteq> [])) (\<lambda>left.
     thenT (provided left (force_shutdown 0)) finalize))"

section \<open>The threads of an epoch\<close>

text \<open>
  Thread 0 ends the epoch; while it serves, connections within the capacity and the watchdog are
  started. The generation worker runs once a registration has started it.
\<close>

inductive starts :: "settings \<Rightarrow> nat \<Rightarrow> (supervisor, unit) thread \<Rightarrow> supervisor \<Rightarrow> supervisor \<Rightarrow> bool" for cfg where
  serving: "starts cfg 0 serve_end s s"
| connection: "t \<noteq> 0 \<Longrightarrow> sv_serving s \<Longrightarrow> int (sv_slots s) < control_cap cfg s \<Longrightarrow>
    starts cfg t (connection_main cfg t peer ms) s (s\<lparr>sv_slots := Suc (sv_slots s), sv_threads := insert t (sv_threads s)\<rparr>)"
| watchdog: "t \<noteq> 0 \<Longrightarrow> sv_serving s \<Longrightarrow>
    starts cfg t (watchdog_main cfg t n) s (s\<lparr>sv_threads := insert t (sv_threads s)\<rparr>)"
| worker: "t \<noteq> 0 \<Longrightarrow> sv_starting s \<Longrightarrow>
    starts cfg t (worker_main cfg t) s (s\<lparr>sv_starting := False, sv_threads := insert t (sv_threads s)\<rparr>)"

text \<open>The states of an epoch, with what its threads have still to do.\<close>

abbreviation epoch :: "settings \<Rightarrow> supervisor \<Rightarrow> supervisor threads \<Rightarrow> bool" where
  "epoch cfg s pool \<equiv> runs (starts cfg) sv_new (\<lambda>_. None) s pool"

end
