(* ===== verification/Epoch.thy ===== *)
theory Epoch
  imports Supervisor
begin

text \<open>
  What the threads of an epoch guarantee to each other, by rely and guarantee: the records of an effect
  outlive it, the gate is open for a recorded generation only, and draining is final. The holder of
  the transition lock is the only one to touch generations, their records and the gate.
\<close>

section \<open>The invariant\<close>

definition recorded :: "supervisor \<Rightarrow> bool" where
  "recorded s \<longleftrightarrow> (\<forall>g. wo_provider s g = Present \<longrightarrow>
     du_providers s g \<in> {Some Prepared, Some Applied, Some Failed} \<and> du_fence s \<noteq> None)"

definition fresh_generations :: "supervisor \<Rightarrow> bool" where
  "fresh_generations s \<longleftrightarrow> (\<forall>g. sv_generation s < g \<longrightarrow>
     wo_provider s g \<noteq> Present \<and> du_providers s g = None \<and> du_intents s g = None)"

definition gate_recorded :: "supervisor \<Rightarrow> bool" where
  "gate_recorded s \<longleftrightarrow> (\<forall>cg. sv_gate s = Some cg \<longrightarrow>
     (\<exists>g rung. sv_active s = Some (g, rung) \<and> int g = cg_generation cg \<and> sv_digest s = Some (cg_contract_digest cg) \<and>
        wo_provider s g = Present \<and> du_providers s g = Some Applied \<and> du_intents s g = Some Applied))"

definition ended :: "supervisor \<Rightarrow> bool" where
  "ended s \<longleftrightarrow> (sv_proved s \<longrightarrow> sv_phase s = Draining \<and> sv_gate s = None) \<and>
     (sv_leases s = [] \<and> 0 < sv_issued s \<longrightarrow> sv_phase s = Draining) \<and> (sv_leases s \<noteq> [] \<longrightarrow> 0 < sv_issued s) \<and>
     (du_fence s = None \<longrightarrow> sv_threads s = {} \<and> \<not> sv_starting s \<and> \<not> sv_serving s)"

definition consistent :: "supervisor \<Rightarrow> bool" where
  "consistent s \<longleftrightarrow> (sv_contract s = None \<longrightarrow> sv_digest s = None) \<and> (sv_active s \<noteq> None \<longrightarrow> sv_frontend s) \<and>
     0 \<notin> sv_threads s"

definition epoch_inv :: "supervisor \<Rightarrow> bool" where
  "epoch_inv s \<longleftrightarrow> recorded s \<and> fresh_generations s \<and> gate_recorded s \<and> ended s \<and> consistent s"

lemmas inv_defs = epoch_inv_def recorded_def fresh_generations_def gate_recorded_def ended_def consistent_def

section \<open>The guarantee\<close>

text \<open>What only the holder of the transition lock changes.\<close>

definition guarded :: "supervisor \<Rightarrow> (nat \<Rightarrow> effect_phase option) \<times> (nat \<Rightarrow> effect_phase option) \<times> (nat \<Rightarrow> presence) \<times>
    committed_generation option \<times> (nat \<times> string) option" where
  "guarded s = (du_intents s, du_providers s, wo_provider s, sv_gate s, sv_active s)"

definition running_thread :: "nat \<Rightarrow> supervisor \<Rightarrow> bool" where
  "running_thread t s \<longleftrightarrow> t = 0 \<or> t \<in> sv_threads s"

text \<open>A thread acts while it runs, or in the step that starts it.\<close>

definition may_act :: "nat \<Rightarrow> supervisor \<Rightarrow> bool" where
  "may_act t s \<longleftrightarrow> running_thread t s \<or> sv_serving s \<or> sv_starting s"

definition lock_kept :: "nat \<Rightarrow> supervisor \<Rightarrow> supervisor \<Rightarrow> bool" where
  "lock_kept t s s' \<longleftrightarrow>
     (sv_lock s' = sv_lock s \<or> sv_lock s = None \<and> sv_lock s' = Some t \<or> sv_lock s = Some t \<and> sv_lock s' = None) \<and>
     (sv_lock s \<noteq> Some t \<longrightarrow> guarded s' = guarded s)"

definition only_forward :: "supervisor \<Rightarrow> supervisor \<Rightarrow> bool" where
  "only_forward s s' \<longleftrightarrow>
     (sv_phase s = Draining \<longrightarrow> sv_phase s' = Draining \<and> le_id ` set (sv_leases s') \<subseteq> le_id ` set (sv_leases s) \<and>
        sv_gate s' \<in> {None, sv_gate s}) \<and>
     sv_generation s \<le> sv_generation s' \<and> sv_issued s \<le> sv_issued s' \<and> (sv_frontend s \<longrightarrow> sv_frontend s')"

definition threads_kept :: "nat \<Rightarrow> supervisor \<Rightarrow> supervisor \<Rightarrow> bool" where
  "threads_kept t s s' \<longleftrightarrow> sv_threads s' - {t} = sv_threads s - {t} \<and>
     (t \<noteq> 0 \<longrightarrow> sv_serving s' = sv_serving s) \<and> (sv_serving s' \<longrightarrow> sv_serving s) \<and>
     (t = 0 \<longrightarrow> sv_starting s' = sv_starting s)"

definition guar :: "supervisor guarantee" where
  "guar t s s' \<longleftrightarrow> may_act t s \<and> (epoch_inv s \<longrightarrow> epoch_inv s') \<and> lock_kept t s s' \<and> only_forward s s' \<and> threads_kept t s s'"

lemmas guar_defs = guar_def may_act_def lock_kept_def only_forward_def threads_kept_def guarded_def

text \<open>A section that leaves alone what the guarantee speaks of.\<close>

definition untouched :: "supervisor \<Rightarrow> supervisor \<Rightarrow> bool" where
  "untouched s s' \<longleftrightarrow> guarded s' = guarded s \<and> sv_phase s' = sv_phase s \<and> sv_generation s' = sv_generation s \<and>
     map le_id (sv_leases s') = map le_id (sv_leases s) \<and> sv_issued s' = sv_issued s \<and> sv_frontend s' = sv_frontend s \<and>
     sv_lock s' = sv_lock s \<and> sv_threads s' = sv_threads s \<and> sv_serving s' = sv_serving s \<and> sv_starting s' = sv_starting s \<and>
     (sv_proved s' \<longrightarrow> sv_proved s) \<and> (du_fence s' = None \<longleftrightarrow> du_fence s = None) \<and> sv_digest s' = sv_digest s \<and>
     sv_contract s' = sv_contract s"

lemma untouched_refl [simp]: "untouched s s"
  by (simp add: untouched_def)

lemma inv_untouched:
  assumes "untouched s s'" and "epoch_inv s"
  shows "epoch_inv s'"
proof -
  have f: "du_intents s' = du_intents s" "du_providers s' = du_providers s" "wo_provider s' = wo_provider s"
    "sv_gate s' = sv_gate s" "sv_active s' = sv_active s" "sv_phase s' = sv_phase s" "sv_generation s' = sv_generation s"
    "sv_issued s' = sv_issued s" "sv_frontend s' = sv_frontend s" "sv_threads s' = sv_threads s"
    "sv_serving s' = sv_serving s" "sv_starting s' = sv_starting s" "du_fence s' = None \<longleftrightarrow> du_fence s = None"
    "sv_digest s' = sv_digest s" "sv_contract s' = sv_contract s"
    using assms(1) by (simp_all only: untouched_def guarded_def prod.inject)
  have p: "sv_proved s' \<longrightarrow> sv_proved s" and e: "sv_leases s' = [] \<longleftrightarrow> sv_leases s = []"
  proof -
    have "map le_id (sv_leases s') = map le_id (sv_leases s)" using assms(1) by (simp only: untouched_def)
    then show "sv_leases s' = [] \<longleftrightarrow> sv_leases s = []" by (metis map_is_Nil_conv)
  qed (use assms(1) in \<open>unfold untouched_def, blast\<close>)
  have "recorded s'" using assms(2) by (simp add: epoch_inv_def recorded_def f)
  moreover have "fresh_generations s'" using assms(2) by (simp add: epoch_inv_def fresh_generations_def f)
  moreover have "gate_recorded s'" using assms(2) by (simp add: epoch_inv_def gate_recorded_def f)
  moreover have "ended s'" using assms(2) p by (simp add: epoch_inv_def ended_def f e)
  moreover have "consistent s'" using assms(2) by (simp add: epoch_inv_def consistent_def f)
  ultimately show ?thesis by (simp add: epoch_inv_def)
qed

lemma untouched_forward:
  assumes "untouched s s'"
  shows "only_forward s s'"
proof -
  have "map le_id (sv_leases s') = map le_id (sv_leases s)" using assms by (simp only: untouched_def)
  from arg_cong [OF this, of set] have "le_id ` set (sv_leases s') = le_id ` set (sv_leases s)" by simp
  moreover have "guarded s' = guarded s" "sv_phase s' = sv_phase s" "sv_generation s' = sv_generation s"
    "sv_issued s' = sv_issued s" "sv_frontend s' = sv_frontend s" using assms by (simp_all add: untouched_def)
  ultimately show ?thesis by (simp add: only_forward_def guarded_def)
qed

lemma guar_untouched:
  assumes "untouched s s'" and "running_thread t s"
  shows "guar t s s'"
proof -
  have "lock_kept t s s'" "threads_kept t s s'"
    using assms(1) by (simp_all add: untouched_def lock_kept_def threads_kept_def)
  then show ?thesis using inv_untouched [OF assms(1)] untouched_forward [OF assms(1)] assms(2)
    by (simp add: guar_def may_act_def)
qed

section \<open>What a thread relies on\<close>

text \<open>\<open>here t\<close>: the thread runs and the invariant holds; \<open>holding t\<close>: it has the transition lock.\<close>

definition here :: "nat \<Rightarrow> supervisor \<Rightarrow> bool" where
  "here t s \<longleftrightarrow> epoch_inv s \<and> running_thread t s"

definition holding :: "nat \<Rightarrow> supervisor \<Rightarrow> bool" where
  "holding t s \<longleftrightarrow> here t s \<and> sv_lock s = Some t"

text \<open>\<open>shut t\<close>: moreover the gate is shut, so that generations may change.\<close>

definition shut :: "nat \<Rightarrow> supervisor \<Rightarrow> bool" where
  "shut t s \<longleftrightarrow> holding t s \<and> sv_gate s = None"

lemmas here_defs = here_def holding_def shut_def running_thread_def

lemma steady_here [intro, simp]: "steady guar t (here t)"
  by (auto simp: steady_def guar_def here_defs threads_kept_def)

lemma other_holding: "u \<noteq> t \<Longrightarrow> guar u s s' \<Longrightarrow> holding t s \<Longrightarrow> holding t s' \<and> guarded s' = guarded s"
  by (auto simp: guar_def here_defs threads_kept_def lock_kept_def)

text \<open>A fact about what the lock guards, and facts that only become truer, are kept by the others.\<close>

lemma steady_holding [intro]:
  assumes "\<And>s s'. guarded s' = guarded s \<Longrightarrow> only_forward s s' \<Longrightarrow> P s \<Longrightarrow> P s'"
  shows "steady guar t (\<lambda>s. holding t s \<and> P s)"
  using assms other_holding unfolding steady_def by (meson guar_def)

lemma shut_iff: "shut t = (\<lambda>s. holding t s \<and> sv_gate s = None)"
  by (auto simp: shut_def)

lemma steady_shut:
  assumes "\<And>s s'. guarded s' = guarded s \<Longrightarrow> only_forward s s' \<Longrightarrow> P s \<Longrightarrow> P s'"
  shows "steady guar t (\<lambda>s. shut t s \<and> P s)"
proof -
  have "sv_gate s' = None \<and> P s'" if "guarded s' = guarded s" "only_forward s s'" "sv_gate s = None \<and> P s" for s s'
    using that assms [OF that(1,2)] by (simp add: guarded_def)
  from steady_holding [of "\<lambda>s. sv_gate s = None \<and> P s", OF this]
  have "steady guar t (\<lambda>s. holding t s \<and> (sv_gate s = None \<and> P s))" .
  then show ?thesis by (simp add: shut_def conj_assoc)
qed

lemma steady_shut0 [intro, simp]: "steady guar t (shut t)"
  using steady_shut [of "\<lambda>_. True" t] by simp

lemma steady_holding0 [intro, simp]: "steady guar t (holding t)"
  using steady_holding [of "\<lambda>_. True" t] by simp


section \<open>Sections\<close>

lemma here_running: "here t s \<Longrightarrow> running_thread t s" and holding_here: "holding t s \<Longrightarrow> here t s"
  and shut_holding: "shut t s \<Longrightarrow> holding t s"
  by (simp_all add: here_def holding_def shut_def)

lemma holding_running: "holding t s \<Longrightarrow> running_thread t s" and shut_running: "shut t s \<Longrightarrow> running_thread t s"
  by (simp_all add: here_def holding_def shut_def)

text \<open>An untouched state keeps what was known of it.\<close>

lemma untouched_keeps:
  assumes "untouched s s'"
  shows "here t s \<Longrightarrow> here t s'" and "holding t s \<Longrightarrow> holding t s'" and "shut t s \<Longrightarrow> shut t s'"
proof -
  have f: "sv_threads s' = sv_threads s" "sv_lock s' = sv_lock s" "sv_gate s' = sv_gate s"
    using assms by (simp_all add: untouched_def guarded_def)
  show h: "here t s'" if "here t s" using that inv_untouched [OF assms] f by (simp add: here_def running_thread_def)
  show "holding t s'" if "holding t s" using that h f by (simp add: holding_def)
  then show "shut t s'" if "shut t s" using that f by (simp add: shut_def)
qed

text \<open>A change of generations and their records by the holder of the lock, the gate being shut.\<close>

definition same_outside :: "supervisor \<Rightarrow> supervisor \<Rightarrow> bool" where
  "same_outside s s' \<longleftrightarrow> sv_phase s' = sv_phase s \<and> sv_generation s' = sv_generation s \<and> sv_leases s' = sv_leases s \<and>
     sv_issued s' = sv_issued s \<and> sv_frontend s' = sv_frontend s \<and> sv_lock s' = sv_lock s \<and> sv_threads s' = sv_threads s \<and>
     sv_serving s' = sv_serving s \<and> sv_starting s' = sv_starting s \<and> sv_proved s' = sv_proved s \<and>
     du_fence s' = du_fence s \<and> sv_digest s' = sv_digest s \<and> sv_contract s' = sv_contract s"

lemma guar_shut:
  assumes "shut t s" and "same_outside s s'" and "sv_gate s' = None" and "sv_active s' \<in> {None, sv_active s}"
    and "recorded s'" and "fresh_generations s'"
  shows "guar t s s' \<and> shut t s'"
proof -
  have o: "sv_phase s' = sv_phase s" "sv_generation s' = sv_generation s" "sv_leases s' = sv_leases s"
     "sv_issued s' = sv_issued s" "sv_frontend s' = sv_frontend s" "sv_lock s' = sv_lock s" "sv_threads s' = sv_threads s"
     "sv_serving s' = sv_serving s" "sv_starting s' = sv_starting s" "sv_proved s' = sv_proved s"
     "du_fence s' = du_fence s" "sv_digest s' = sv_digest s" "sv_contract s' = sv_contract s"
    using assms(2) by (simp_all add: same_outside_def)
  have i: "epoch_inv s" "running_thread t s" "sv_lock s = Some t" "sv_gate s = None"
    using assms(1) by (simp_all add: here_defs)
  have "gate_recorded s'" by (simp add: gate_recorded_def assms(3))
  moreover have "ended s'" using i(1) by (simp add: epoch_inv_def ended_def o assms(3))
  moreover have "consistent s'" using i(1) assms(4) by (auto simp: epoch_inv_def consistent_def o)
  ultimately have inv: "epoch_inv s'" using assms(5,6) by (simp add: epoch_inv_def)
  moreover have "lock_kept t s s'" "only_forward s s'" "threads_kept t s s'"
    using i by (simp_all add: lock_kept_def only_forward_def threads_kept_def o assms(3))
  ultimately show ?thesis using i assms(3) by (simp add: guar_def may_act_def here_defs o)
qed

lemma shut_inv: "shut t s \<Longrightarrow> recorded s" "shut t s \<Longrightarrow> fresh_generations s" "shut t s \<Longrightarrow> epoch_inv s"
  by (simp_all add: here_defs epoch_inv_def)

lemma shut_set_intent:
  assumes "shut t s" and "p = None \<or> g \<le> sv_generation s"
  shows "guar t s (set_intent g p s)" and "shut t (set_intent g p s)"
proof -
  have "guar t s (set_intent g p s) \<and> shut t (set_intent g p s)"
    by (rule guar_shut [OF assms(1)])
      (use shut_inv [OF assms(1)] assms in \<open>auto simp: same_outside_def set_intent_def recorded_def fresh_generations_def shut_def\<close>)
  then show "guar t s (set_intent g p s)" "shut t (set_intent g p s)" by simp_all
qed

lemma shut_set_provider:
  assumes "shut t s" and "p = None \<or> g \<le> sv_generation s"
    and "wo_provider s g = Present \<longrightarrow> p \<in> {Some Prepared, Some Applied, Some Failed}"
  shows "guar t s (set_provider g p s)" and "shut t (set_provider g p s)"
proof -
  have "guar t s (set_provider g p s) \<and> shut t (set_provider g p s)"
    by (rule guar_shut [OF assms(1)])
      (use shut_inv [OF assms(1)] assms in \<open>auto simp: same_outside_def set_provider_def recorded_def fresh_generations_def shut_def\<close>)
  then show "guar t s (set_provider g p s)" "shut t (set_provider g p s)" by simp_all
qed

lemma shut_set_world:
  assumes "shut t s" and "p = Present \<longrightarrow> g \<le> sv_generation s \<and> du_fence s \<noteq> None \<and>
    du_providers s g \<in> {Some Prepared, Some Applied, Some Failed}"
  shows "guar t s (set_world g p s)" and "shut t (set_world g p s)"
proof -
  have "guar t s (set_world g p s) \<and> shut t (set_world g p s)"
    by (rule guar_shut [OF assms(1)])
      (use shut_inv [OF assms(1)] assms in \<open>auto simp: same_outside_def set_world_def recorded_def fresh_generations_def shut_def\<close>)
  then show "guar t s (set_world g p s)" "shut t (set_world g p s)" by simp_all
qed

lemma shut_known: "shut t s \<Longrightarrow> du_intents s g \<noteq> None \<or> du_providers s g \<noteq> None \<Longrightarrow> g \<le> sv_generation s"
  using shut_inv(2) [of t s] unfolding fresh_generations_def by (metis not_le)

text \<open>The thread of the lock holder is not ended, so the fence is there.\<close>

lemma shut_fence: "shut t s \<Longrightarrow> t \<noteq> 0 \<Longrightarrow> du_fence s \<noteq> None"
  by (auto simp: here_defs epoch_inv_def ended_def)

section \<open>Stopping a generation\<close>

text \<open>Facts under the lock: \<open>P\<close> may speak of what the lock guards and of what only grows.\<close>

definition lasting :: "(supervisor \<Rightarrow> bool) \<Rightarrow> bool" where
  "lasting P \<longleftrightarrow> (\<forall>s s'. guarded s' = guarded s \<longrightarrow> only_forward s s' \<longrightarrow> P s \<longrightarrow> P s')"

lemma steady_lasting [intro]: "lasting P \<Longrightarrow> steady guar t (\<lambda>s. shut t s \<and> P s)"
  unfolding lasting_def by (rule steady_shut) blast

named_theorems lasting

lemma lasting_facts [lasting]:
  "lasting (\<lambda>_. b)" "lasting (\<lambda>s. g \<le> sv_generation s)" "lasting sv_frontend" "lasting (\<lambda>s. P (wo_provider s))"
  "lasting (\<lambda>s. Q (du_providers s))" "lasting (\<lambda>s. R (du_intents s))" "lasting (\<lambda>s. U (sv_active s))"
  by (auto simp: lasting_def guarded_def only_forward_def)

lemma lasting_conj [lasting]: "lasting P \<Longrightarrow> lasting Q \<Longrightarrow> lasting (\<lambda>s. P s \<and> Q s)"
  by (auto simp: lasting_def)

lemma lasting_imp [lasting]: "lasting Q \<Longrightarrow> lasting (\<lambda>s. b \<longrightarrow> Q s)"
  by (auto simp: lasting_def)

definition quiet :: "nat \<Rightarrow> supervisor \<Rightarrow> bool" where
  "quiet g s \<longleftrightarrow> wo_provider s g \<noteq> Present"

lemma lasting_quiet [lasting]: "lasting (quiet g)"
  by (auto simp: lasting_def guarded_def quiet_def)

text \<open>A section under the lock whose every outcome is a step of the guarantee.\<close>

lemma shut_section:
  assumes "lasting P" and "\<And>s e r s'. shut t s \<Longrightarrow> P s \<Longrightarrow> f e s = (r, s') \<Longrightarrow> guar t s s' \<and>
    (case r of Inr a \<Rightarrow> N a s' | Inl x \<Rightarrow> E x s')"
  shows "triple guar t (\<lambda>s. shut t s \<and> P s) (atomically f) N E"
proof (rule triple_atomically)
  show "guar t s (snd (f e s)) \<and> (case fst (f e s) of Inr a \<Rightarrow> N a (snd (f e s)) | Inl x \<Rightarrow> E x (snd (f e s)))"
    if "shut t s \<and> P s" for s e
    using assms(2) [of s e "fst (f e s)" "snd (f e s)"] that by simp
qed (use assms in auto)

lemma guar_refl: "running_thread t s \<Longrightarrow> guar t s s"
  by (rule guar_untouched) simp_all


lemma durably_cases:
  "durably r f s = (x, s') \<Longrightarrow> (x = Inr () \<and> s' = f s) \<or> (\<exists>c. x = raise c [] \<and> (s' = f s \<or> s' = s))"
  by (cases r) auto

lemma loading_cases: "loading r x = Inr x \<or> (\<exists>c. loading r x = raise c [])"
  by (cases r) auto

text \<open>A durable operation under the lock: the guarantee and \<open>shut\<close> survive whether it took effect or not.\<close>

lemma shut_durably:
  assumes "lasting P" and "\<And>s. shut t s \<Longrightarrow> P s \<Longrightarrow> guar t s (f s) \<and> shut t (f s) \<and> Q (f s)"
  shows "triple guar t (\<lambda>s. shut t s \<and> P s) (atomically (\<lambda>e. durably (e 0) f)) (\<lambda>_ s. shut t s \<and> Q s) (\<lambda>_. shut t)"
  by (rule shut_section [OF assms(1)])
    (use assms(2) guar_refl [OF shut_running] in \<open>fastforce dest: durably_cases\<close>)

lemma shut_loading:
  assumes "lasting P" and "\<And>s. shut t s \<Longrightarrow> P s \<Longrightarrow> N (x s) s"
  shows "triple guar t (\<lambda>s. shut t s \<and> P s) (atomically (\<lambda>e s. (loading (e 0) (x s), s))) N (\<lambda>_. shut t)"
proof (rule shut_section [OF assms(1)])
  show "guar t s s' \<and> (case r of Inr a \<Rightarrow> N a s' | Inl x \<Rightarrow> shut t s')"
    if "shut t s" "P s" "(loading (e 0) (x s), s) = (r, s')" for s e r s'
    using loading_cases [of "e 0" "x s"] that assms(2) [OF that(1,2)] guar_refl [OF shut_running [OF that(1)]] by auto
qed

lemma calling_triple: "lasting P \<Longrightarrow> triple guar t (\<lambda>s. shut t s \<and> P s) calling (\<lambda>_ s. shut t s \<and> P s) (\<lambda>_. shut t)"
  unfolding calling_def by (rule shut_loading) simp_all

lemma prove_clean_triple:
  assumes "lasting P" and "\<And>s. P s \<Longrightarrow> P (set_world g Gone s)"
  shows "triple guar t (\<lambda>s. shut t s \<and> P s) (prove_clean g) (\<lambda>_ s. shut t s \<and> P s \<and> quiet g s) (\<lambda>_. shut t)"
  unfolding prove_clean_def
proof (rule shut_section [OF assms(1)], goal_cases)
  case (1 s e r s')
  then show ?case
    using shut_set_world [of t s Gone g] guar_refl [OF shut_running [of t s]] assms(2) [of s]
    by (auto simp: quiet_def set_world_def split: reply.splits if_splits)
qed

lemma load_intent_triple:
  assumes "lasting P"
  shows "triple guar t (\<lambda>s. shut t s \<and> P s) (load_intent g) (\<lambda>i s. shut t s \<and> P s) (\<lambda>_. shut t)"
  unfolding load_intent_def by (rule shut_loading [OF assms]) simp

lemma load_provider_triple:
  assumes "lasting P"
  shows "triple guar t (\<lambda>s. shut t s \<and> P s) (load_provider g)
    (\<lambda>p s. shut t s \<and> P s \<and> (p \<noteq> None \<longrightarrow> g \<le> sv_generation s)) (\<lambda>_. shut t)"
  unfolding load_provider_def by (rule shut_loading [OF assms]) (auto dest: shut_known)

lemma advance_intent_triple:
  assumes "lasting P" and "\<And>s p. P s \<Longrightarrow> P (set_intent g p s)"
  shows "triple guar t (\<lambda>s. shut t s \<and> P s) (advance_intent g old new)
    (\<lambda>_ s. shut t s \<and> P s \<and> du_intents s g = Some new) (\<lambda>_. shut t)"
  unfolding advance_intent_def
proof (rule shut_section [OF assms(1)], goal_cases)
  case (1 s e r s')
  show ?case
  proof (cases "du_intents s g")
    case None
    then show ?thesis using 1 guar_refl [OF shut_running [of t s]] by auto
  next
    case (Some p)
    then have "g \<le> sv_generation s" using shut_known [OF 1(1), of g] by simp
    then have ok: "guar t s (set_intent g q s)" "shut t (set_intent g q s)" for q using shut_set_intent [OF 1(1), of q g] by simp_all
    have new: "du_intents (set_intent g (Some new) s) g = Some new" by (simp add: set_intent_def)
    show ?thesis
      using 1 Some ok [of "Some new"] new assms(2) [OF 1(2), of "Some new"] guar_refl [OF shut_running [OF 1(1)]]
        loading_cases [of "e 0" "()"]
      by (auto split: if_splits dest!: durably_cases)
  qed
qed

lemma delete_intent_triple:
  assumes "lasting P" and "\<And>s p. P s \<Longrightarrow> P (set_intent g p s)"
  shows "triple guar t (\<lambda>s. shut t s \<and> P s) (delete_intent g) (\<lambda>_ s. shut t s \<and> P s) (\<lambda>_. shut t)"
  unfolding delete_intent_def
proof (rule shut_section [OF assms(1)], goal_cases)
  case (1 s e r s')
  have ok: "guar t s (set_intent g None s)" "shut t (set_intent g None s)" using shut_set_intent [OF 1(1), of None g] by simp_all
  show ?case
    using 1 ok assms(2) [OF 1(2), of None] guar_refl [OF shut_running [OF 1(1)]] loading_cases [of "e 0" "()"]
    by (auto split: if_splits option.splits dest!: durably_cases)
qed

lemma replace_provider_triple:
  assumes "lasting P" and "\<And>s. P s \<Longrightarrow> P (set_provider g (Some p) s)"
    and "\<And>s. P s \<Longrightarrow> g \<le> sv_generation s \<and> (p = Cleaned \<longrightarrow> quiet g s)"
  shows "triple guar t (\<lambda>s. shut t s \<and> P s) (replace_provider g p)
    (\<lambda>_ s. shut t s \<and> P s \<and> du_providers s g = Some p) (\<lambda>_. shut t)"
  unfolding replace_provider_def
proof (rule shut_durably [OF assms(1)])
  fix s
  assume s: "shut t s" "P s"
  have "wo_provider s g = Present \<longrightarrow> Some p \<in> {Some Prepared, Some Applied, Some Failed}"
    using assms(3) [OF s(2)] by (cases p) (auto simp: quiet_def)
  then show "guar t s (set_provider g (Some p) s) \<and> shut t (set_provider g (Some p) s) \<and>
      P (set_provider g (Some p) s) \<and> du_providers (set_provider g (Some p) s) g = Some p"
    using shut_set_provider [OF s(1), of "Some p" g] assms(2,3) [OF s(2)] by (simp add: set_provider_def)
qed

lemma delete_provider_triple:
  assumes "lasting P" and "\<And>s. P s \<Longrightarrow> P (set_provider g None s)" and "\<And>s. P s \<Longrightarrow> quiet g s"
  shows "triple guar t (\<lambda>s. shut t s \<and> P s) (delete_provider g) (\<lambda>_ s. shut t s \<and> P s) (\<lambda>_. shut t)"
  unfolding delete_provider_def
proof (rule shut_durably [OF assms(1)])
  fix s
  assume s: "shut t s" "P s"
  show "guar t s (set_provider g None s) \<and> shut t (set_provider g None s) \<and> P (set_provider g None s)"
    using shut_set_provider [OF s(1), of None g] assms(2,3) [OF s(2)] by (simp add: quiet_def)
qed

lemma provided_triple:
  assumes "b \<Longrightarrow> triple G t P p (\<lambda>_. Q) E" and "\<And>s. \<not> b \<Longrightarrow> P s \<Longrightarrow> Q s"
  shows "triple G t P (provided b p) (\<lambda>_. Q) E"
  using assms by (simp add: provided_def triple_return)

text \<open>What is known while generation \<open>g\<close> is taken apart.\<close>

definition apart :: "nat \<Rightarrow> bool \<Rightarrow> supervisor \<Rightarrow> bool" where
  "apart g found s \<longleftrightarrow> quiet g s \<and> (found \<longrightarrow> g \<le> sv_generation s)"

lemma lasting_apart [lasting]: "lasting (apart g found)"
  by (auto simp: lasting_def apart_def quiet_def guarded_def only_forward_def)

lemma apart_set [simp]:
  "apart g found (set_intent h p s) \<longleftrightarrow> apart g found s"
  "apart g found (set_provider h p s) \<longleftrightarrow> apart g found s"
  by (simp_all add: apart_def quiet_def set_intent_def set_provider_def)

lemma apartD: "apart g found s \<Longrightarrow> quiet g s" "apart g True s \<Longrightarrow> g \<le> sv_generation s"
  by (simp_all add: apart_def)

abbreviation apart_triple :: "nat \<Rightarrow> nat \<Rightarrow> bool \<Rightarrow> (supervisor, unit) thread \<Rightarrow> bool" where
  "apart_triple t g found p \<equiv> triple guar t (\<lambda>s. shut t s \<and> apart g found s) p
     (\<lambda>_ s. shut t s \<and> apart g found s) (\<lambda>_. shut t)"

lemma apart_advance: "apart_triple t g found (advance_intent h old new)"
  by (rule triple_weaken [OF advance_intent_triple [OF lasting_apart]]) auto

lemma apart_delete_intent: "apart_triple t g found (delete_intent h)"
  by (rule delete_intent_triple) (simp_all add: lasting)

lemma apart_replace: "apart_triple t g True (replace_provider g p)"
  by (rule triple_weaken [OF replace_provider_triple [OF lasting_apart [of g True]]]) (auto dest: apartD)

lemma apart_delete_provider: "apart_triple t g found (delete_provider g)"
  by (rule delete_provider_triple) (auto intro: lasting dest: apartD)

lemma clean_intent_triple: "apart_triple t g found (clean_intent g i)"
  unfolding clean_intent_def
  by (cases i rule: option.exhaust; cases "the i")
    (auto intro: triple_then apart_advance triple_return)

lemma clean_record_triple: "apart_triple t g (p \<noteq> None) (clean_record g p)"
  unfolding clean_record_def
  by (cases p rule: option.exhaust; cases "the p")
    (auto intro: apart_replace triple_return triple_raise)

lemma apart_found: "triple guar t (\<lambda>s. shut t s \<and> apart g False s) (load_provider g)
    (\<lambda>p s. shut t s \<and> apart g (p \<noteq> None) s) (\<lambda>_. shut t)"
  by (rule triple_weaken [OF load_provider_triple [OF lasting_apart [of g False]]]) (auto simp: apart_def)

lemma apart_forget: "apart_triple t g found p \<Longrightarrow> triple guar t (\<lambda>s. shut t s \<and> apart g found s) p
     (\<lambda>_. shut t) (\<lambda>_. shut t)"
  by (erule triple_weaken) auto

lemma prove_clean_apart:
  "triple guar t (shut t) (prove_clean g) (\<lambda>_ s. shut t s \<and> apart g False s) (\<lambda>_. shut t)"
  using prove_clean_triple [OF lasting_facts(1) [of True], of t g] by (simp add: apart_def)

lemma calling_shut: "triple guar t (shut t) calling (\<lambda>_. shut t) (\<lambda>_. shut t)"
  using calling_triple [OF lasting_facts(1), of t True] by simp

lemma stop_result_triple: "triple guar t (shut t) (stop_result g) (\<lambda>_. shut t) (\<lambda>_. shut t)"
  unfolding stop_result_def
  by (rule triple_then [OF calling_shut] triple_then [OF prove_clean_apart] triple_bind [OF load_intent_triple [OF lasting_apart]]
      triple_then [OF clean_intent_triple] triple_bind [OF apart_found] triple_then [OF clean_record_triple]
      triple_then [OF provided_triple [OF apart_delete_intent]] apart_forget [OF provided_triple [OF apart_delete_provider]]
    | assumption)+

section \<open>An attempt at a generation\<close>

lemma untouched_lasting:
  assumes "lasting P" and "untouched s s'" and "P s"
  shows "P s'"
proof -
  have "guarded s' = guarded s" using assms(2) by (simp only: untouched_def)
  with untouched_forward [OF assms(2)] assms(1,3) show ?thesis unfolding lasting_def by blast
qed

lemma untouched_errors [simp]: "untouched s (add_errors es s)"
  by (simp add: untouched_def add_errors_def guarded_def)

lemma update_shut:
  assumes "lasting P" and "\<And>s. untouched s (f s)"
  shows "triple guar t (\<lambda>s. shut t s \<and> P s) (update f) (\<lambda>_ s. shut t s \<and> P s) E"
  by (rule triple_update)
    (use assms(1) guar_untouched [OF assms(2) shut_running] untouched_keeps(3) [OF assms(2)]
      untouched_lasting [OF assms(1,2)] in auto)

lemma update_shut0: "(\<And>s. untouched s (f s)) \<Longrightarrow> triple guar t (shut t) (update f) (\<lambda>_. shut t) E"
  using update_shut [OF lasting_facts(1) [of True]] by simp

lemma quietly_triple:
  assumes "triple G t P p (\<lambda>_. Q) (\<lambda>_. Q)"
  shows "triple G t P (quietly p) (\<lambda>_. Q) E"
  unfolding quietly_def by (rule triple_catch [OF assms]) (simp_all add: triple_return)

text \<open>\<open>known g t\<close>: under the lock, with the gate shut, generation \<open>g\<close> has been given out.\<close>

definition known :: "nat \<Rightarrow> supervisor \<Rightarrow> bool" where
  "known g s \<longleftrightarrow> g \<le> sv_generation s"

lemma lasting_known [lasting]: "lasting (known g)"
  by (auto simp: lasting_def known_def only_forward_def)

lemma known_set [simp]:
  "known g (set_intent h p s) \<longleftrightarrow> known g s" "known g (set_provider h q s) \<longleftrightarrow> known g s" "known g (set_world h w s) \<longleftrightarrow> known g s"
  by (simp_all add: known_def set_intent_def set_provider_def set_world_def)

lemma advance_known:
  "triple guar t (\<lambda>s. shut t s \<and> known g s) (advance_intent h old new) (\<lambda>_ s. shut t s) (\<lambda>_. shut t)"
  by (rule triple_weaken [OF advance_intent_triple [OF lasting_known]]) auto

lemma guar_forward: "guar u s s' \<Longrightarrow> only_forward s s'"
  by (simp add: guar_def)

lemma known_kept: "guar u s s' \<Longrightarrow> known g s \<Longrightarrow> known g s'"
  by (auto dest!: guar_forward simp: only_forward_def known_def)

lemma frontend_kept: "guar u s s' \<Longrightarrow> sv_frontend s \<Longrightarrow> sv_frontend s'"
  by (auto dest!: guar_forward simp: only_forward_def)

lemma with_known: "triple guar t P p N E \<Longrightarrow>
    triple guar t (\<lambda>s. P s \<and> known g s) p (\<lambda>a s. N a s \<and> known g s) (\<lambda>x s. E x s \<and> known g s)"
  by (erule triple_frame) (rule known_kept)

lemma with_frontend: "triple guar t P p N E \<Longrightarrow>
    triple guar t (\<lambda>s. P s \<and> sv_frontend s) p (\<lambda>a s. N a s \<and> sv_frontend s) (\<lambda>x s. E x s \<and> sv_frontend s)"
  by (erule triple_frame) (rule frontend_kept)

lemma advance_shut: "triple guar t (shut t) (advance_intent g old new) (\<lambda>_. shut t) (\<lambda>_. shut t)"
  by (rule triple_weaken [OF advance_intent_triple [OF lasting_facts(1) [of True]]]) auto

lemma fail_record: "triple guar t (\<lambda>s. shut t s \<and> known g s) (bindT (load_provider g) (\<lambda>p. provided (p = Some Prepared) (replace_provider g Failed)))
    (\<lambda>_. shut t) (\<lambda>_. shut t)"
proof (rule triple_bind)
  show "triple guar t (\<lambda>s. shut t s \<and> known g s) (load_provider g) (\<lambda>_ s. shut t s \<and> known g s) (\<lambda>_. shut t)"
    by (rule triple_weaken [OF load_provider_triple [OF lasting_known]]) auto
  show "triple guar t (\<lambda>s. shut t s \<and> known g s) (provided (p = Some Prepared) (replace_provider g Failed)) (\<lambda>_. shut t) (\<lambda>_. shut t)" for p
  proof (rule provided_triple)
    show "triple guar t (\<lambda>s. shut t s \<and> known g s) (replace_provider g Failed) (\<lambda>_. shut t) (\<lambda>_. shut t)"
      by (rule triple_weaken [OF replace_provider_triple [OF lasting_known [of g]]])
        (simp_all only: known_set, auto simp: known_def)
  qed simp
qed

lemma keep_residue_triple:
  "triple guar t (\<lambda>s. shut t s \<and> known g s) (keep_residue g x) (\<lambda>_. shut t) (\<lambda>_. shut t)"
  unfolding keep_residue_def
proof (rule triple_then)
  show "triple guar t (\<lambda>s. shut t s \<and> known g s) (update (add_errors [exc_msg x])) (\<lambda>_ s. shut t s \<and> known g s) (\<lambda>_. shut t)"
    by (rule update_shut [OF lasting_known]) simp
  show "triple guar t (\<lambda>s. shut t s \<and> known g s)
     (thenT (quietly (advance_intent g Prepared Failed))
       (thenT (quietly (bindT (load_provider g) (\<lambda>p. provided (p = Some Prepared) (replace_provider g Failed)))) (Finished (Inl x))))
     (\<lambda>_. shut t) (\<lambda>_. shut t)"
    by (rule triple_then [OF quietly_triple [OF with_known [OF advance_shut]]] triple_then [OF quietly_triple [OF fail_record]])+
      (simp add: triple_raise)
qed

lemma clean_up_result_triple: "triple guar t (shut t) (clean_up_result g) (\<lambda>_. shut t) (\<lambda>_. shut t)"
  unfolding clean_up_result_def
  by (rule triple_catch [OF stop_result_triple]) (auto intro: triple_then [OF update_shut0] triple_raise)

lemma recover_start_triple: "triple guar t (shut t) (recover_start g) (\<lambda>_. shut t) (\<lambda>_. shut t)"
  unfolding recover_start_def
proof (rule triple_catch)
  show "triple guar t (shut t) (thenT (prove_clean g) (thenT (advance_intent g Prepared Failed) (thenT (advance_intent g Failed Cleaned)
     (bindT (load_provider g) (\<lambda>p. thenT (provided (p \<noteq> None) (replace_provider g Cleaned))
       (thenT (delete_intent g) (provided (p \<noteq> None) (delete_provider g)))))))) (\<lambda>_. shut t) (\<lambda>_. shut t)"
  proof -
    have r: "triple guar t (\<lambda>s. shut t s \<and> apart g (p \<noteq> None) s) (provided (p \<noteq> None) (replace_provider g Cleaned))
      (\<lambda>_ s. shut t s \<and> apart g (p \<noteq> None) s) (\<lambda>_. shut t)" for p :: "effect_phase option"
      using apart_replace by (auto simp: provided_def triple_return)
    show ?thesis
      by (rule triple_then [OF prove_clean_apart] triple_then [OF apart_advance] triple_bind [OF apart_found]
          triple_then [OF r] triple_then [OF apart_delete_intent] apart_forget [OF provided_triple [OF apart_delete_provider]]
        | assumption)+
  qed
qed (auto intro: triple_then [OF update_shut0] triple_raise)

lemma rejected_triple:
  assumes "triple guar t (shut t) clean (\<lambda>_. shut t) (\<lambda>_. shut t)"
  shows "triple guar t (\<lambda>s. shut t s \<and> known g s) (rejected g clean x) (\<lambda>ok s. \<not> ok \<and> shut t s) (\<lambda>_. shut t)"
  unfolding rejected_def
proof (rule triple_then)
  show "triple guar t (\<lambda>s. shut t s \<and> known g s) (if exc_class x = ProviderResidueError then keep_residue g x else clean)
     (\<lambda>_. shut t) (\<lambda>_. shut t)"
    using keep_residue_triple triple_weaken [OF assms, of "\<lambda>s. shut t s \<and> known g s"] by simp
qed (auto intro: triple_raise triple_return)


text \<open>The phase in the fence: whatever its calls answer, the fence is there as before.\<close>

lemma set_fence_phase_cases:
  assumes "set_fence_phase a b p s = (r, s')"
  obtains f h where "s' = s\<lparr>du_fence := f, sv_fence := h\<rparr>" "f = None \<longleftrightarrow> du_fence s = None"
proof -
  have "\<exists>f h. s' = s\<lparr>du_fence := f, sv_fence := h\<rparr> \<and> (f = None \<longleftrightarrow> du_fence s = None)"
  proof (cases "s' = s")
    case True
    then show ?thesis by (intro exI [of _ "du_fence s"] exI [of _ "sv_fence s"]) simp
  next
    case False
    then have "(s' = s\<lparr>du_fence := Some p, sv_fence := sv_fence s\<rparr> \<or> s' = s\<lparr>du_fence := Some p, sv_fence := Some p\<rparr>) \<and> du_fence s \<noteq> None"
      using assms by (cases a; cases b) (auto simp: set_fence_phase_def split: option.splits if_splits)
    then show ?thesis by (elim conjE disjE) (rule exI, rule exI, rule conjI, assumption, simp)+
  qed
  then show ?thesis by (elim exE conjE) (rule that)
qed

text \<open>Generation \<open>g\<close> is applied, in the world and in its records.\<close>

definition applied :: "nat \<Rightarrow> supervisor \<Rightarrow> bool" where
  "applied g s \<longleftrightarrow> g \<le> sv_generation s \<and> wo_provider s g = Present \<and> du_providers s g = Some Applied \<and>
     du_intents s g = Some Applied"

lemma lasting_applied [lasting]: "lasting (applied g)"
  by (auto simp: lasting_def applied_def guarded_def only_forward_def)

lemma open_gate:
  assumes "shut t s" and "applied g s" and "sv_frontend s" and "sv_phase s \<noteq> Draining" and "sv_leases s \<noteq> []"
    and "sv_digest s = Some (cg_contract_digest cg)" and "int g = cg_generation cg" and "f = None \<longleftrightarrow> du_fence s = None"
  shows "guar t s (s\<lparr>du_fence := f, sv_fence := h, sv_gate := Some cg, sv_active := Some (g, rung), sv_phase := Ready, sv_transition := None\<rparr>)"
    (is "guar t s ?s") and "holding t (s\<lparr>du_fence := f, sv_fence := h, sv_gate := Some cg, sv_active := Some (g, rung), sv_phase := Ready, sv_transition := None\<rparr>)"
proof -
  have i: "epoch_inv s" "running_thread t s" "sv_lock s = Some t" using assms(1) by (simp_all add: here_defs)
  have "\<not> sv_proved s" using i(1) assms(4) by (simp add: epoch_inv_def ended_def)
  have "recorded ?s" using i(1) assms(8) by (simp add: epoch_inv_def recorded_def)
  moreover have "fresh_generations ?s" using i(1) by (simp add: epoch_inv_def fresh_generations_def)
  moreover have "gate_recorded ?s" using assms(2,6,7) by (simp add: gate_recorded_def applied_def)
  moreover have "ended ?s" using i(1) assms(5,8) \<open>\<not> sv_proved s\<close> by (simp add: epoch_inv_def ended_def)
  moreover have "consistent ?s" using i(1) assms(3) by (simp add: epoch_inv_def consistent_def)
  ultimately have "epoch_inv ?s" by (simp add: epoch_inv_def)
  then show "guar t s ?s" "holding t ?s" using i assms(4)
    by (simp_all add: guar_def may_act_def lock_kept_def only_forward_def threads_kept_def here_defs)
qed

lemma keep_shut:
  assumes "shut t s" and "sv_phase s \<noteq> Draining" and "sv_leases s \<noteq> []" and "f = None \<longleftrightarrow> du_fence s = None"
  shows "guar t s (s\<lparr>du_fence := f, sv_fence := h, sv_gate := None, sv_active := None, sv_phase := Bootstrapping, sv_errors := es\<rparr>)"
    (is "guar t s ?s") and "shut t (s\<lparr>du_fence := f, sv_fence := h, sv_gate := None, sv_active := None, sv_phase := Bootstrapping, sv_errors := es\<rparr>)"
proof -
  have i: "epoch_inv s" "running_thread t s" "sv_lock s = Some t" "sv_gate s = None" using assms(1) by (simp_all add: here_defs)
  have "\<not> sv_proved s" using i(1) assms(2) by (simp add: epoch_inv_def ended_def)
  have "recorded ?s" using i(1) assms(4) by (simp add: epoch_inv_def recorded_def)
  moreover have "fresh_generations ?s" using i(1) by (simp add: epoch_inv_def fresh_generations_def)
  moreover have "gate_recorded ?s" by (simp add: gate_recorded_def)
  moreover have "ended ?s" using i(1) assms(3,4) \<open>\<not> sv_proved s\<close> by (simp add: epoch_inv_def ended_def)
  moreover have "consistent ?s" using i(1) by (simp add: epoch_inv_def consistent_def)
  ultimately have "epoch_inv ?s" by (simp add: epoch_inv_def)
  then show "guar t s ?s" "shut t ?s" using i assms(2)
    by (simp_all add: guar_def may_act_def lock_kept_def only_forward_def threads_kept_def here_defs)
qed

lemma commit_frontend_cases:
  assumes "commit_frontend r cg s = (x, s')"
  obtains "x = Inr ()" "s' = s\<lparr>sv_gate := Some cg\<rparr>" | c where "x = raise c []" "s' = s \<or> s' = s\<lparr>sv_gate := None\<rparr>"
  using assms by (cases r) auto


text \<open>Publication opens the gate for an applied generation, or leaves it shut.\<close>

lemma publish_triple:
  assumes "int g = cg_generation cg" and "cg_contract_digest cg = digest"
  shows "triple guar t (\<lambda>s. shut t s \<and> applied g s \<and> sv_frontend s) (publish g rung tid cg digest)
    (\<lambda>_. holding t) (\<lambda>_. shut t)"
  unfolding publish_def
proof (rule shut_section, goal_cases)
  case 1
  show ?case by (intro lasting)
next
  case (2 s e r s')
  show ?case
  proof (cases "sv_phase s = Draining \<or> sv_leases s = [] \<or> sv_digest s \<noteq> Some digest \<or> sv_transition s \<noteq> Some tid")
    case True
    then show ?thesis using 2 guar_refl [OF shut_running [OF 2(1)]] by auto
  next
    case False
    obtain x1 s1 where f1: "set_fence_phase (e 0) (e 1) Ready s = (x1, s1)" by fastforce
    then obtain f h where s1: "s1 = s\<lparr>du_fence := f, sv_fence := h\<rparr>" "f = None \<longleftrightarrow> du_fence s = None"
      by (rule set_fence_phase_cases)
    have gate: "sv_gate s1 = None" using 2(1) s1(1) by (simp add: shut_def)
    obtain x2 s2 where f2: "(case (x1, s1) of (Inl x, s') \<Rightarrow> (Inl x, s') | (Inr _, s') \<Rightarrow> commit_frontend (e 2) cg s') = (x2, s2)"
      by fastforce
    show ?thesis
    proof (cases x2)
      case (Inr u)
      then have "s2 = s1\<lparr>sv_gate := Some cg\<rparr>" using f2 by (auto split: sum.splits elim: commit_frontend_cases)
      then have "r = Inr ()" "s' = s\<lparr>du_fence := f, sv_fence := h, sv_gate := Some cg, sv_active := Some (g, rung), sv_phase := Ready, sv_transition := None\<rparr>"
        using 2(3) False f1 f2 Inr s1(1) by auto
      then show ?thesis using open_gate [OF 2(1) _ _ _ _ _ assms(1) s1(2), where h = h and rung = rung] 2(2) False assms(2) by auto
    next
      case (Inl x)
      then have s2: "s2 = s1 \<or> s2 = s1\<lparr>sv_gate := None\<rparr>"
        using f2 by (auto split: sum.splits elim!: commit_frontend_cases)
      obtain x3 s3 where f3: "set_fence_phase (e 3) (e 4) Bootstrapping (s2\<lparr>sv_active := None, sv_phase := Bootstrapping\<rparr>) = (x3, s3)"
        by fastforce
      then obtain f' h' where s3: "s3 = s2\<lparr>sv_active := None, sv_phase := Bootstrapping, du_fence := f', sv_fence := h'\<rparr>"
        "f' = None \<longleftrightarrow> du_fence s2 = None"
        by (rule set_fence_phase_cases) simp
      obtain es where s': "r = Inl x" "s' = s3\<lparr>sv_errors := es\<rparr>"
      proof -
        have "r = Inl x \<and> (s' = add_errors [case x3 of Inl y \<Rightarrow> exc_msg y | Inr _ \<Rightarrow> []] s3 \<or> s' = s3\<lparr>sv_errors := sv_errors s3\<rparr>)"
          using 2(3) False f1 f2 Inl f3 by (auto split: sum.splits)
        then show thesis using that that [of "sv_errors s3"] by (auto simp: add_errors_def)
      qed
      have "f' = None \<longleftrightarrow> du_fence s = None" using s2 s3(2) s1 by auto
      from keep_shut [OF 2(1) _ _ this, where h = h' and es = es] False
      have "guar t s (s\<lparr>du_fence := f', sv_fence := h', sv_gate := None, sv_active := None, sv_phase := Bootstrapping, sv_errors := es\<rparr>)"
        "shut t (s\<lparr>du_fence := f', sv_fence := h', sv_gate := None, sv_active := None, sv_phase := Bootstrapping, sv_errors := es\<rparr>)" by simp_all
      moreover have "s' = s\<lparr>du_fence := f', sv_fence := h', sv_gate := None, sv_active := None, sv_phase := Bootstrapping, sv_errors := es\<rparr>"
        using s2 gate by (auto simp: s'(2) s3(1) s1(1) intro!: supervisor.equality)
      ultimately show ?thesis using s'(1) by simp
    qed
  qed
qed


text \<open>A fact that is not of the state.\<close>

lemma triple_pure: "(b \<Longrightarrow> triple G t P p N E) \<Longrightarrow> triple G t (\<lambda>s. b \<and> P s) p N E"
  by (auto simp: triple_def)

definition prepared :: "nat \<Rightarrow> supervisor \<Rightarrow> bool" where
  "prepared g s \<longleftrightarrow> known g s \<and> du_providers s g = Some Prepared \<and> du_intents s g = Some Prepared"

definition started :: "nat \<Rightarrow> supervisor \<Rightarrow> bool" where
  "started g s \<longleftrightarrow> known g s \<and> wo_provider s g = Present \<and> du_intents s g = Some Prepared"

lemma lasting_prepared [lasting]: "lasting (prepared g)" and lasting_started [lasting]: "lasting (started g)"
  by (auto simp: lasting_def prepared_def started_def known_def guarded_def only_forward_def)

lemma start_provider_triple:
  assumes "t \<noteq> 0"
  shows "triple guar t (\<lambda>s. shut t s \<and> prepared g s) (start_provider g) (\<lambda>_ s. shut t s \<and> started g s) (\<lambda>_. shut t)"
  unfolding start_provider_def
proof (rule shut_durably [OF lasting_prepared])
  fix s
  assume s: "shut t s" "prepared g s"
  have "started g (set_world g Present s)" using s(2) by (simp add: prepared_def started_def known_def set_world_def)
  then show "guar t s (set_world g Present s) \<and> shut t (set_world g Present s) \<and> started g (set_world g Present s)"
    using shut_set_world [OF s(1), of Present g] shut_fence [OF s(1) assms] s(2) by (simp add: prepared_def known_def)
qed

lemma candidate_cases:
  "candidate sha c g tid = Inr cg \<Longrightarrow> int g = cg_generation cg \<and> cg_contract_digest cg = route_contract_digest sha c"
  unfolding candidate_def committed_generation_new_def by (auto simp: errors)

lemma commit_triple:
  "triple guar t (\<lambda>s. shut t s \<and> (started g s \<and> sv_frontend s))
     (thenT (replace_provider g Applied) (thenT (advance_intent g Prepared Applied)
       (bindT (Finished (candidate sha c g tid)) (\<lambda>cg. publish g rung tid cg (route_contract_digest sha c)))))
     (\<lambda>_. holding t) (\<lambda>_. shut t)"
proof (rule triple_then)
  show "triple guar t (\<lambda>s. shut t s \<and> (started g s \<and> sv_frontend s)) (replace_provider g Applied)
    (\<lambda>_ s. shut t s \<and> (known g s \<and> wo_provider s g = Present \<and> sv_frontend s \<and> du_providers s g = Some Applied)) (\<lambda>_. shut t)"
  proof (rule triple_weaken [OF replace_provider_triple [where g = g and p = Applied]])
    show "lasting (\<lambda>s. started g s \<and> sv_frontend s)" by (intro lasting)
    show "started g (set_provider g (Some Applied) s) \<and> sv_frontend (set_provider g (Some Applied) s)"
      if "started g s \<and> sv_frontend s" for s
      using that by (simp add: started_def known_def set_provider_def)
  qed (auto simp: started_def known_def)
next
  show "triple guar t (\<lambda>s. shut t s \<and> (known g s \<and> wo_provider s g = Present \<and> sv_frontend s \<and> du_providers s g = Some Applied))
    (thenT (advance_intent g Prepared Applied)
       (bindT (Finished (candidate sha c g tid)) (\<lambda>cg. publish g rung tid cg (route_contract_digest sha c))))
     (\<lambda>_. holding t) (\<lambda>_. shut t)"
  proof (rule triple_then)
    show "triple guar t (\<lambda>s. shut t s \<and> (known g s \<and> wo_provider s g = Present \<and> sv_frontend s \<and> du_providers s g = Some Applied))
      (advance_intent g Prepared Applied) (\<lambda>_ s. shut t s \<and> applied g s \<and> sv_frontend s) (\<lambda>_. shut t)"
    proof (rule triple_weaken [OF advance_intent_triple])
      show "lasting (\<lambda>s. known g s \<and> wo_provider s g = Present \<and> sv_frontend s \<and> du_providers s g = Some Applied)"
        by (auto simp: lasting_def known_def guarded_def only_forward_def)
    qed (auto simp: known_def set_intent_def applied_def)
    show "triple guar t (\<lambda>s. shut t s \<and> applied g s \<and> sv_frontend s)
      (bindT (Finished (candidate sha c g tid)) (\<lambda>cg. publish g rung tid cg (route_contract_digest sha c)))
      (\<lambda>_. holding t) (\<lambda>_. shut t)"
    proof (rule triple_bind)
      show "triple guar t (\<lambda>s. shut t s \<and> applied g s \<and> sv_frontend s) (Finished (candidate sha c g tid))
        (\<lambda>cg s. (int g = cg_generation cg \<and> cg_contract_digest cg = route_contract_digest sha c) \<and>
           (shut t s \<and> applied g s \<and> sv_frontend s)) (\<lambda>_. shut t)"
        by (rule triple_Finished) (auto split: sum.split dest: candidate_cases)
    qed (rule triple_pure, rule publish_triple, simp_all)
  qed
qed

lemma attempt_triple:
  assumes "t \<noteq> 0"
  shows "triple guar t (\<lambda>s. shut t s \<and> prepared g s \<and> sv_frontend s) (attempt cfg c g rung tid)
    (\<lambda>done s. if done then holding t s else shut t s) (\<lambda>_. shut t)"
  unfolding attempt_def
proof (rule triple_handle)
  show "triple guar t (\<lambda>s. shut t s \<and> prepared g s \<and> sv_frontend s) (start_provider g)
      (\<lambda>_ s. ((shut t s \<and> started g s) \<and> known g s) \<and> sv_frontend s) (\<lambda>_ s. (shut t s \<and> known g s) \<and> sv_frontend s)"
    by (rule triple_weaken [OF with_frontend [OF with_known [OF start_provider_triple [OF assms, of g], of g]]])
      (auto simp: prepared_def)
next
  fix x
  show "triple guar t (\<lambda>s. (shut t s \<and> known g s) \<and> sv_frontend s)
    (case Inl x of Inl x \<Rightarrow> rejected g (recover_start g) x | Inr u \<Rightarrow> k u)
    (\<lambda>done s. if done then holding t s else shut t s) (\<lambda>_. shut t)" for k
    by simp (rule triple_weaken [OF rejected_triple [OF recover_start_triple]], auto)
next
  fix u
  have r: "triple guar t (\<lambda>s. shut t s \<and> known g s)
     (rejected g (clean_up_result g) x)
     (\<lambda>done s. if done then holding t s else shut t s) (\<lambda>_. shut t)" for x
    by (rule triple_weaken [OF rejected_triple [OF clean_up_result_triple]]) auto
  show "triple guar t (\<lambda>s. ((shut t s \<and> started g s) \<and> known g s) \<and> sv_frontend s)
    (case Inr u of Inl x \<Rightarrow> rejected g (recover_start g) x | Inr u \<Rightarrow>
         handleT
           (thenT (replace_provider g Applied)
           (thenT (advance_intent g Prepared Applied)
           (bindT (Finished (candidate (se_sha cfg) c g tid)) (\<lambda>cg.
              publish g rung tid cg (route_contract_digest (se_sha cfg) c)))))
           (\<lambda>r. case r of Inr _ \<Rightarrow> returnT True | Inl x \<Rightarrow> rejected g (clean_up_result g) x))
    (\<lambda>done s. if done then holding t s else shut t s) (\<lambda>_. shut t)"
    unfolding sum.case
  proof (rule triple_handle)
    show "triple guar t (\<lambda>s. ((shut t s \<and> started g s) \<and> known g s) \<and> sv_frontend s)
      (thenT (replace_provider g Applied) (thenT (advance_intent g Prepared Applied)
         (bindT (Finished (candidate (se_sha cfg) c g tid)) (\<lambda>cg. publish g rung tid cg (route_contract_digest (se_sha cfg) c)))))
      (\<lambda>_. holding t) (\<lambda>_ s. shut t s \<and> known g s)"
      by (rule triple_weaken [OF with_known [where g = g, OF commit_triple]]) auto
  qed (simp_all only: sum.case if_True r triple_return)
qed

lemma known_upd [simp]: "known g (s\<lparr>sv_transition := x\<rparr>) \<longleftrightarrow> known g s"
  by (simp add: known_def)

lemma allocate_triple:
  "triple guar t (shut t) allocate (\<lambda>(g, tid) s. shut t s \<and> known g s) (\<lambda>_. shut t)"
  unfolding allocate_def
proof (rule triple_atomically)
  fix s e
  assume s: "shut t s"
  let ?f = "if sv_phase s = Draining \<or> sv_leases s = [] then (raise EpochDraining ''provider transition lost its live interest'', s)
     else let g = Suc (sv_generation s); tid = (case e 0 of Works n \<Rightarrow> n | _ \<Rightarrow> 0) in
       (Inr (g, tid), s\<lparr>sv_generation := g, sv_transition := Some tid\<rparr>)"
  show "guar t s (snd ?f) \<and> (case fst ?f of Inr a \<Rightarrow> (case a of (g, tid) \<Rightarrow> \<lambda>s. shut t s \<and> known g s) (snd ?f) | Inl x \<Rightarrow> shut t (snd ?f))"
  proof (cases "sv_phase s = Draining \<or> sv_leases s = []")
    case True
    then show ?thesis using s guar_refl [OF shut_running [OF s]] by auto
  next
    case False
    let ?s = "\<lambda>i. s\<lparr>sv_generation := Suc (sv_generation s), sv_transition := i\<rparr>"
    have i: "epoch_inv s" "running_thread t s" "sv_lock s = Some t" "sv_gate s = None" using s by (simp_all add: here_defs)
    have "epoch_inv (?s i)" for i
      using i(1,4) by (simp add: inv_defs)
    then have "guar t s (?s i) \<and> shut t (?s i) \<and> known (Suc (sv_generation s)) (?s i)" for i using i False
      by (simp add: guar_def may_act_def lock_kept_def only_forward_def threads_kept_def guarded_def here_defs known_def)
    then show ?thesis using False by (simp add: Let_def)
  qed
qed simp

lemma replayed_same: "replayed r same c msg = Inr u \<Longrightarrow> same"
  by (cases r) (auto split: if_splits)

lemma put_provider_triple:
  "triple guar t (\<lambda>s. shut t s \<and> known g s) (put_provider g)
     (\<lambda>_ s. shut t s \<and> known g s \<and> du_providers s g = Some Prepared) (\<lambda>_. shut t)"
  unfolding put_provider_def
proof (rule shut_section [OF lasting_known], goal_cases)
  case (1 s e r s')
  have ok: "guar t s (set_provider g (Some Prepared) s)" "shut t (set_provider g (Some Prepared) s)"
    using shut_set_provider [OF 1(1), of "Some Prepared" g] 1(2) by (simp_all add: known_def)
  have new: "du_providers (set_provider g (Some Prepared) s) g = Some Prepared" by (simp add: set_provider_def)
  show ?case using 1 ok new guar_refl [OF shut_running [OF 1(1)]]
    by (auto split: option.splits sum.split dest!: durably_cases replayed_same)
qed

lemma put_intent_triple:
  "triple guar t (\<lambda>s. shut t s \<and> known g s \<and> du_providers s g = Some Prepared) (put_intent g)
     (\<lambda>_ s. shut t s \<and> prepared g s) (\<lambda>_. shut t)"
  unfolding put_intent_def
proof (rule shut_section, goal_cases)
  case 1
  show ?case by (auto simp: lasting_def known_def guarded_def only_forward_def)
next
  case (2 s e r s')
  have ok: "guar t s (set_intent g (Some Prepared) s)" "shut t (set_intent g (Some Prepared) s)"
    using shut_set_intent [OF 2(1), of "Some Prepared" g] 2(2) by (simp_all add: known_def)
  have new: "prepared g (set_intent g (Some Prepared) s)" using 2(2) by (simp add: prepared_def set_intent_def known_def)
  show ?case using 2 ok new guar_refl [OF shut_running [OF 2(1)]]
    by (auto simp: prepared_def known_def split: option.splits sum.split dest!: durably_cases replayed_same)
qed

lemma chooses_triple: "steady guar t P \<Longrightarrow> (\<And>s. P s \<Longrightarrow> running_thread t s) \<Longrightarrow> triple guar t P chooses (\<lambda>_. P) E"
  unfolding chooses_def by (rule triple_atomically) (auto intro: guar_refl)

lemma shut_frontend_steady: "steady guar t (\<lambda>s. shut t s \<and> sv_frontend s)"
  by (rule steady_lasting) (rule lasting_facts)

lemma untouched_transition [simp]: "untouched s (s\<lparr>sv_transition := x\<rparr>)"
  by (simp add: untouched_def guarded_def)

text \<open>The whole transition: it ends with the gate open for its result, or raises with the gate shut.\<close>

lemma transition_candidates_triple:
  assumes "t \<noteq> 0"
  shows "triple guar t (\<lambda>s. shut t s \<and> sv_frontend s) (transition_candidates cfg c rungs)
    (\<lambda>_. holding t) (\<lambda>_ s. shut t s \<and> sv_frontend s)"
proof (induction rungs)
  case Nil
  show ?case
    unfolding transition_candidates.simps
    by (rule triple_then [OF update_shut]) (auto intro: lasting triple_raise)
next
  case (Cons rung rungs)
  let ?F = "\<lambda>s. shut t s \<and> sv_frontend s"
  let ?go = "bindT allocate (\<lambda>(g, tid). thenT (put_provider g) (thenT (put_intent g) (bindT (attempt cfg c g rung tid)
      (\<lambda>committed. if committed then returnT () else transition_candidates cfg c rungs))))"
  have tried: "triple guar t (\<lambda>s. (shut t s \<and> prepared g s) \<and> sv_frontend s)
     (bindT (attempt cfg c g rung tid) (\<lambda>committed. if committed then returnT () else transition_candidates cfg c rungs))
     (\<lambda>_. holding t) (\<lambda>_. ?F)" for g tid
  proof (rule triple_bind)
    show "triple guar t (\<lambda>s. (shut t s \<and> prepared g s) \<and> sv_frontend s) (attempt cfg c g rung tid)
      (\<lambda>done s. (if done then holding t s else shut t s) \<and> sv_frontend s) (\<lambda>_. ?F)"
      by (rule triple_weaken [OF with_frontend [OF attempt_triple [OF assms]]]) auto
    show "triple guar t (\<lambda>s. (if done then holding t s else shut t s) \<and> sv_frontend s)
       (if done then returnT () else transition_candidates cfg c rungs) (\<lambda>_. holding t) (\<lambda>_. ?F)" for "done"
      using Cons.IH by (cases "done") (auto intro!: triple_return)
  qed
  have go: "triple guar t ?F ?go (\<lambda>_. holding t) (\<lambda>_. ?F)"
  proof (rule triple_bind [OF with_frontend [OF allocate_triple]], clarify)
    fix g tid
    show "triple guar t (\<lambda>s. (shut t s \<and> known g s) \<and> sv_frontend s)
      (thenT (put_provider g) (thenT (put_intent g) (bindT (attempt cfg c g rung tid)
        (\<lambda>committed. if committed then returnT () else transition_candidates cfg c rungs))))
      (\<lambda>_. holding t) (\<lambda>_. ?F)"
      by (rule triple_then [OF with_frontend [OF put_provider_triple]] triple_then [OF with_frontend [OF put_intent_triple]] tried)+
  qed
  show ?case
    unfolding transition_candidates.simps
  proof (rule triple_bind)
    show "triple guar t ?F (if starts_with rung ''ios:'' then chooses else returnT True) (\<lambda>_. ?F) (\<lambda>_. ?F)"
      by (auto intro!: triple_return chooses_triple shut_frontend_steady shut_running)
  qed (use go Cons.IH in simp)
qed


section \<open>Beside the lock\<close>

text \<open>A section that leaves the generations alone, whoever runs it.\<close>

definition beside :: "supervisor \<Rightarrow> supervisor \<Rightarrow> bool" where
  "beside s s' \<longleftrightarrow> guarded s' = guarded s \<and> sv_lock s' = sv_lock s \<and> sv_threads s' = sv_threads s \<and>
     sv_serving s' = sv_serving s \<and> sv_starting s' = sv_starting s \<and> (du_fence s' = None \<longleftrightarrow> du_fence s = None) \<and>
     only_forward s s' \<and> (sv_gate s = None \<or> sv_digest s' = sv_digest s)"

lemma guar_beside:
  assumes "here t s" and "beside s s'" and "ended s'" and "consistent s'"
  shows "guar t s s'" and "here t s'" and "holding t s \<Longrightarrow> holding t s'" and "shut t s \<Longrightarrow> shut t s'"
proof -
  have g: "guarded s' = guarded s" and f: "sv_lock s' = sv_lock s" "sv_threads s' = sv_threads s" "sv_serving s' = sv_serving s"
    "sv_starting s' = sv_starting s" "du_fence s' = None \<longleftrightarrow> du_fence s = None" "only_forward s s'" "sv_gate s = None \<or> sv_digest s' = sv_digest s"
    using assms(2) by (simp_all only: beside_def)
  have e: "du_intents s' = du_intents s" "du_providers s' = du_providers s" "wo_provider s' = wo_provider s"
    "sv_gate s' = sv_gate s" "sv_active s' = sv_active s" using g by (simp_all add: guarded_def)
  have i: "epoch_inv s" "running_thread t s" using assms(1) by (simp_all add: here_def)
  have n: "sv_generation s \<le> sv_generation s'" using f(6) by (simp add: only_forward_def)
  have "recorded s'" using i(1) by (simp add: epoch_inv_def recorded_def e f(5))
  moreover have "fresh_generations s'" using i(1) n by (auto simp: epoch_inv_def fresh_generations_def e)
  moreover have "gate_recorded s'" using i(1) f(7) by (auto simp: epoch_inv_def gate_recorded_def e)
  ultimately have inv: "epoch_inv s'" using assms(3,4) by (simp add: epoch_inv_def)
  then show "guar t s s'" using i f g by (simp add: guar_def may_act_def lock_kept_def threads_kept_def)
  show h: "here t s'" using inv i(2) f(2) by (simp add: here_def running_thread_def)
  show "holding t s'" if "holding t s" using that h f(1) by (simp add: holding_def)
  then show "shut t s'" if "shut t s" using that e(4) by (simp add: shut_def)
qed

text \<open>Draining, or at least one lease was given out: what every drain is entitled by.\<close>

definition due :: "supervisor \<Rightarrow> bool" where
  "due s \<longleftrightarrow> sv_phase s = Draining \<or> 0 < sv_issued s"

lemma due_kept: "guar u s s' \<Longrightarrow> due s \<Longrightarrow> due s'" and draining_kept: "guar u s s' \<Longrightarrow> sv_phase s = Draining \<Longrightarrow> sv_phase s' = Draining"
  by (auto dest!: guar_forward simp: only_forward_def due_def)

lemma with_due: "triple guar t P p N E \<Longrightarrow>
    triple guar t (\<lambda>s. P s \<and> due s) p (\<lambda>a s. N a s \<and> due s) (\<lambda>x s. E x s \<and> due s)"
  by (erule triple_frame) (rule due_kept)

lemma with_draining: "triple guar t P p N E \<Longrightarrow>
    triple guar t (\<lambda>s. P s \<and> sv_phase s = Draining) p (\<lambda>a s. N a s \<and> sv_phase s = Draining) (\<lambda>x s. E x s \<and> sv_phase s = Draining)"
  by (erule triple_frame) (rule draining_kept)

lemma steady_due:
  "steady guar t (\<lambda>s. here t s \<and> due s)" "steady guar t (\<lambda>s. holding t s \<and> due s)" "steady guar t (\<lambda>s. shut t s \<and> due s)"
  "steady guar t (\<lambda>s. here t s \<and> sv_phase s = Draining)"
  using steady_here [of t] steady_holding0 [of t] steady_shut0 [of t] due_kept draining_kept
  unfolding steady_def by blast+

section \<open>The lock\<close>

lemma inv_lock: "epoch_inv (s\<lparr>sv_lock := l\<rparr>) \<longleftrightarrow> epoch_inv s"
  by (simp add: inv_defs)

lemma lock_step:
  assumes "here t s" and "sv_lock s = None \<and> l = Some t \<or> sv_lock s = Some t \<and> l = None"
  shows "guar t s (s\<lparr>sv_lock := l\<rparr>)" and "here t (s\<lparr>sv_lock := l\<rparr>)"
  using assms
  by (auto simp: guar_def may_act_def here_def inv_lock running_thread_def lock_kept_def only_forward_def threads_kept_def guarded_def)

lemma acquire_triple: "triple guar t (here t) (acquire t) (\<lambda>_. holding t) E"
  unfolding acquire_def by (rule triple_await) (auto simp: lock_step holding_def)

lemma release_triple: "triple guar t (holding t) release_lock (\<lambda>_. here t) E"
  unfolding release_lock_def by (rule triple_update) (auto simp: lock_step holding_def)

lemma locked_triple:
  assumes "triple guar t (holding t) p (\<lambda>_. holding t) (\<lambda>_. holding t)"
  shows "triple guar t (here t) (locked t p) (\<lambda>_. here t) (\<lambda>_. here t)"
  unfolding locked_def by (rule triple_then [OF acquire_triple]) (rule triple_finally [OF assms release_triple release_triple])

lemma shut_frontend_step:
  assumes "holding t s"
  shows "guar t s (s\<lparr>sv_gate := None\<rparr>)" and "shut t (s\<lparr>sv_gate := None\<rparr>)"
proof -
  have i: "epoch_inv s" "running_thread t s" "sv_lock s = Some t" using assms by (simp_all add: here_defs)
  have "epoch_inv (s\<lparr>sv_gate := None\<rparr>)" using i(1) by (simp add: inv_defs)
  with i show "guar t s (s\<lparr>sv_gate := None\<rparr>)" "shut t (s\<lparr>sv_gate := None\<rparr>)"
    by (simp_all add: guar_def may_act_def lock_kept_def only_forward_def threads_kept_def here_defs)
qed

lemma shut_frontend_triple: "triple guar t (holding t) shut_frontend (\<lambda>_. shut t) (\<lambda>_. shut t)"
  unfolding shut_frontend_def
proof (rule triple_atomically)
  show "guar t s (snd (loading (e 0) (), s\<lparr>sv_gate := None\<rparr>)) \<and>
    (case fst (loading (e 0) (), s\<lparr>sv_gate := None\<rparr>) of Inr a \<Rightarrow> shut t (snd (loading (e 0) (), s\<lparr>sv_gate := None\<rparr>))
     | Inl x \<Rightarrow> shut t (snd (loading (e 0) (), s\<lparr>sv_gate := None\<rparr>)))" if "holding t s" for s and e :: replies
    using shut_frontend_step [OF that] by (simp split: sum.split)
qed simp

text \<open>No active generation: the gate is shut.\<close>

lemma holding_idle: "holding t s \<Longrightarrow> sv_active s = None \<Longrightarrow> shut t s"
  by (auto simp: here_defs epoch_inv_def gate_recorded_def)

lemma holding_idle_pair: "holding t s \<Longrightarrow> \<forall>g rung. sv_active s \<noteq> Some (g, rung) \<Longrightarrow> shut t s"
  by (cases "sv_active s") (auto intro: holding_idle)

lemma holding_no_frontend: "holding t s \<Longrightarrow> \<not> sv_frontend s \<Longrightarrow> shut t s"
  by (rule holding_idle_pair) (auto simp: here_defs epoch_inv_def consistent_def)

lemma ensure_frontend_triple:
  "triple guar t (shut t) (ensure_frontend c) (\<lambda>_ s. shut t s \<and> sv_frontend s) (\<lambda>_. shut t)"
  unfolding ensure_frontend_def
proof (rule shut_section [of "\<lambda>_. True", simplified], goal_cases)
  case 1
  show ?case by (rule lasting_facts(1) [of True, simplified])
next
  case (2 s e r s')
  have "beside s (s\<lparr>sv_frontend := True\<rparr>)" by (simp add: beside_def guarded_def only_forward_def)
  moreover have "ended (s\<lparr>sv_frontend := True\<rparr>)" "consistent (s\<lparr>sv_frontend := True\<rparr>)"
    using shut_inv(3) [OF 2(1)] by (simp_all add: inv_defs)
  ultimately have ok: "guar t s (s\<lparr>sv_frontend := True\<rparr>)" "shut t (s\<lparr>sv_frontend := True\<rparr>)"
    using guar_beside [of t s "s\<lparr>sv_frontend := True\<rparr>"] 2(1) holding_here [OF shut_holding [OF 2(1)]] by blast+
  show ?case
    using 2 ok guar_refl [OF shut_running [OF 2(1)]]
    by (auto split: if_splits sum.splits dest!: durably_cases)
qed

lemma begin_transition_triple:
  "triple guar t (holding t) begin_transition (\<lambda>c s. if c = None then holding t s else shut t s) (\<lambda>_. holding t)"
  unfolding begin_transition_def
  by (rule triple_atomically) (auto intro: guar_refl holding_idle_pair simp: holding_running)

lemma initial_transition_triple:
  assumes "t \<noteq> 0"
  shows "triple guar t (holding t) (initial_transition cfg) (\<lambda>_. holding t) (\<lambda>_. holding t)"
  unfolding initial_transition_def
proof (rule triple_bind [OF begin_transition_triple])
  fix c
  show "triple guar t (\<lambda>s. if c = None then holding t s else shut t s)
    (case c of None \<Rightarrow> returnT () | Some c \<Rightarrow> thenT (ensure_frontend c) (transition_candidates cfg c (rc_ladder c)))
    (\<lambda>_. holding t) (\<lambda>_. holding t)"
  proof (cases c)
    case (Some d)
    have "triple guar t (shut t) (thenT (ensure_frontend d) (transition_candidates cfg d (rc_ladder d))) (\<lambda>_. holding t) (\<lambda>_. shut t)"
      by (rule triple_then [OF ensure_frontend_triple]) (rule triple_weaken [OF transition_candidates_triple [OF assms]], auto)
    then show ?thesis using Some by (auto elim: triple_weaken dest: shut_holding)
  qed (simp add: triple_return)
qed


lemma reading_triple: "steady guar t P \<Longrightarrow> (\<And>s. P s \<Longrightarrow> running_thread t s) \<Longrightarrow> triple guar t P (reading f) (\<lambda>_. P) E"
  by (rule triple_reading) (auto intro: guar_refl)

lemma update_triple:
  assumes "\<And>s. untouched s (f s)"
  shows "triple guar t (here t) (update f) (\<lambda>_. here t) E" and "triple guar t (holding t) (update f) (\<lambda>_. holding t) E"
    and "triple guar t (shut t) (update f) (\<lambda>_. shut t) E"
  by (rule triple_update; use guar_untouched [OF assms] untouched_keeps [OF assms] here_running holding_running shut_running in simp)+

lemma reading_here: "triple guar t (here t) (reading f) (\<lambda>_. here t) E"
  by (rule reading_triple) (simp_all add: here_running)

lemma reading_holding: "triple guar t (holding t) (reading f) (\<lambda>_. holding t) E"
  by (rule reading_triple) (simp_all add: holding_running)

lemma reading_shut: "triple guar t (shut t) (reading f) (\<lambda>_. shut t) E"
  by (rule reading_triple) (simp_all add: shut_running)

lemma chooses_here: "triple guar t (here t) (chooses) (\<lambda>_. here t) E"
  by (rule chooses_triple) (simp_all add: here_running)

lemma chooses_shut: "triple guar t (shut t) (chooses) (\<lambda>_. shut t) E"
  by (rule chooses_triple) (simp_all add: shut_running)

text \<open>A thread that ends.\<close>

lemma leave_step:
  assumes "here t s"
  shows "guar t s (s\<lparr>sv_threads := sv_threads s - {t}, sv_worker := w, sv_connections := cs, sv_slots := n\<rparr>)" (is "guar t s ?s")
proof -
  have i: "epoch_inv s" "running_thread t s" using assms by (simp_all add: here_def)
  have "epoch_inv ?s" using i(1) by (simp add: inv_defs)
  with i show ?thesis by (simp add: guar_def may_act_def lock_kept_def only_forward_def threads_kept_def guarded_def)
qed

lemma leave_triple:
  assumes "\<And>s. \<exists>w cs n. f s = s\<lparr>sv_threads := sv_threads s - {t}, sv_worker := w, sv_connections := cs, sv_slots := n\<rparr>"
  shows "triple guar t (here t) (update f) (\<lambda>_ _. True) E"
proof (rule triple_update)
  fix s
  assume "here t s"
  with assms [of s] leave_step [of t s] show "guar t s (f s) \<and> True" by auto
qed simp

section \<open>Draining\<close>

lemma take_active_triple: "triple guar t (shut t) take_active (\<lambda>_. shut t) E"
  unfolding take_active_def
proof (rule triple_atomically)
  fix s and e :: replies
  assume s: "shut t s"
  have "guar t s (s\<lparr>sv_active := None\<rparr>) \<and> shut t (s\<lparr>sv_active := None\<rparr>)"
    by (rule guar_shut [OF s]) (use s shut_inv [OF s] in \<open>simp_all add: same_outside_def shut_def recorded_def fresh_generations_def\<close>)
  then show "guar t s (snd (Inr (sv_active s) :: (nat \<times> string) option result, s\<lparr>sv_active := None\<rparr>)) \<and>
      (case fst (Inr (sv_active s), s\<lparr>sv_active := None\<rparr>) of
        Inr a \<Rightarrow> shut t (snd (Inr (sv_active s) :: (nat \<times> string) option result, s\<lparr>sv_active := None\<rparr>))
      | Inl x \<Rightarrow> E x (snd (Inr (sv_active s) :: (nat \<times> string) option result, s\<lparr>sv_active := None\<rparr>)))" by simp
qed simp

lemma noting_triple:
  assumes "triple guar t P p (\<lambda>_. Q) (\<lambda>_. Q)"
  shows "triple guar t P (noting caught p) (\<lambda>_. Q) (\<lambda>_. Q)"
  unfolding noting_def
  by (rule triple_catch [OF triple_then [OF assms triple_return]]) (auto intro: triple_return)

lemma stop_active_triple: "triple guar t (shut t) (stop_active a) (\<lambda>_. shut t) (\<lambda>_. shut t)"
  unfolding stop_active_def by (auto split: option.split prod.split intro!: triple_return noting_triple stop_result_triple)

lemma probes_left_triple: "triple guar t (shut t) probes_left (\<lambda>_. shut t) E"
  unfolding probes_left_def by (rule triple_bind [OF chooses_shut]) (rule triple_return, simp)

lemma shut_frontend_again: "triple guar t (shut t) shut_frontend (\<lambda>_. shut t) (\<lambda>_. shut t)"
  by (rule triple_weaken [OF shut_frontend_triple shut_holding])

lemma close_frontend_triple: "triple guar t (holding t) close_frontend (\<lambda>_. shut t) (\<lambda>_. holding t)"
  unfolding close_frontend_def
proof (rule triple_bind)
  have steady: "steady guar t (holding t)" by simp
  show "triple guar t (holding t) (reading sv_frontend) (\<lambda>there s. holding t s \<and> (\<not> there \<longrightarrow> shut t s)) (\<lambda>_. holding t)"
    by (rule triple_reading) (auto intro: guar_refl holding_running holding_no_frontend)
  show "triple guar t (\<lambda>s. holding t s \<and> (\<not> there \<longrightarrow> shut t s))
    (if there then noting (\<lambda>c. c = FrontendDrainTimeout \<or> is_os_error c) (thenT shut_frontend shut_frontend) else returnT [])
    (\<lambda>_. shut t) (\<lambda>_. holding t)" for there
  proof (cases there)
    case True
    have "triple guar t (holding t) (noting (\<lambda>c. c = FrontendDrainTimeout \<or> is_os_error c) (thenT shut_frontend shut_frontend))
      (\<lambda>_. shut t) (\<lambda>_. shut t)"
      by (rule noting_triple, rule triple_then [OF shut_frontend_triple shut_frontend_again])
    then show ?thesis using True by (auto elim!: triple_weaken dest: shut_holding)
  qed (auto intro: triple_return)
qed

lemma finish_drain_triple:
  "triple guar t (\<lambda>s. shut t s \<and> due s) (finish_drain found) (\<lambda>_. holding t) (\<lambda>_. holding t)"
  unfolding finish_drain_def
proof (rule triple_atomically [OF steady_due(3)], goal_cases)
  case (1 s e)
  let ?ok = "found @ (if sv_leases s = [] then [] else [''leases remain after drain'']) = []"
  let ?s = "s\<lparr>sv_proved := ?ok\<rparr>"
  have h: "here t s" "holding t s" and i: "epoch_inv s" "sv_gate s = None" and d: "due s"
    using 1 by (auto simp: here_defs)
  have "beside s ?s" by (simp add: beside_def guarded_def only_forward_def)
  moreover have "ended ?s" "consistent ?s" using i d by (auto simp: inv_defs due_def)
  ultimately have "guar t s ?s" "holding t ?s" using guar_beside [OF h(1)] h(2) by blast+
  then show ?case by (simp add: Let_def)
qed

lemma locked_due:
  assumes "triple guar t (\<lambda>s. holding t s \<and> due s) p (\<lambda>_. holding t) (\<lambda>_. holding t)"
  shows "triple guar t (\<lambda>s. here t s \<and> due s) (locked t p) (\<lambda>_. here t) (\<lambda>_. here t)"
  unfolding locked_def
proof (rule triple_then)
  show "triple guar t (\<lambda>s. here t s \<and> due s) (acquire t) (\<lambda>_ s. holding t s \<and> due s) (\<lambda>_. here t)"
    by (rule triple_weaken [OF with_due [OF acquire_triple [of t "\<lambda>_. here t"]]]) auto
qed (rule triple_finally [OF assms release_triple release_triple])

lemma untouched_stop [simp]: "untouched s (s\<lparr>sv_stop := x\<rparr>)"
  by (simp add: untouched_def guarded_def)

lemma bind_due:
  assumes "triple guar t P p N E" and "\<And>a. triple guar t (\<lambda>s. N a s \<and> due s) (f a) N' E"
  shows "triple guar t (\<lambda>s. P s \<and> due s) (bindT p f) N' E"
  by (rule triple_bind [OF triple_weaken [OF with_due [OF assms(1)]] assms(2)]) auto

lemma then_due:
  assumes "triple guar t P p (\<lambda>_. N) E" and "triple guar t (\<lambda>s. N s \<and> due s) q N' E"
  shows "triple guar t (\<lambda>s. P s \<and> due s) (thenT p q) N' E"
  unfolding thenT_def by (rule bind_due [OF assms])

lemma shut_errors: "triple guar t P p N (\<lambda>_. shut t) \<Longrightarrow> triple guar t P p N (\<lambda>_. holding t)"
  by (erule triple_weaken) (auto dest: shut_holding)

lemma checks_reopened_triple: "triple guar t (shut t) (checks_reopened t watchdog) (\<lambda>_. shut t) E"
  unfolding checks_reopened_def others_checking_def by (auto intro: reading_shut triple_return)

lemma drain_epoch_triple: "triple guar t (\<lambda>s. here t s \<and> due s) (drain_epoch t) (\<lambda>_. here t) (\<lambda>_. here t)"
  unfolding drain_epoch_def others_checking_def
  by (rule then_due [OF update_triple(1)] bind_due [OF reading_here] locked_due bind_due [OF reading_holding]
      bind_due [OF close_frontend_triple] bind_due [OF take_active_triple] bind_due [OF shut_errors [OF stop_active_triple]]
      bind_due [OF probes_left_triple] bind_due [OF checks_reopened_triple] finish_drain_triple untouched_stop)+


text \<open>Facts that every thread keeps.\<close>

definition kept :: "(supervisor \<Rightarrow> bool) \<Rightarrow> bool" where
  "kept F \<longleftrightarrow> (\<forall>u s s'. guar u s s' \<longrightarrow> F s \<longrightarrow> F s')"

lemma kept_facts: "kept due" "kept (\<lambda>s. sv_phase s = Draining)" "kept (\<lambda>_. b)" "kept (\<lambda>s. b \<or> sv_phase s = Draining)"
    "kept (\<lambda>s. b \<longrightarrow> due s)"
  using due_kept draining_kept by (auto simp: kept_def)

lemma bind_kept:
  assumes "kept F" and "triple guar t P p N E" and "\<And>a. triple guar t (\<lambda>s. N a s \<and> F s) (f a) N' E"
  shows "triple guar t (\<lambda>s. P s \<and> F s) (bindT p f) N' E"
proof -
  have "triple guar t (\<lambda>s. P s \<and> F s) p (\<lambda>a s. N a s \<and> F s) (\<lambda>x s. E x s \<and> F s)"
    by (rule triple_frame [OF assms(2)]) (use assms(1) in \<open>simp add: kept_def\<close>)
  then show ?thesis by (rule triple_bind [OF triple_weaken assms(3)]) auto
qed

section \<open>Leases\<close>

text \<open>Two states that agree but for leases, connections and the phase.\<close>

definition kin :: "supervisor \<Rightarrow> supervisor \<Rightarrow> bool" where
  "kin s s' \<longleftrightarrow> guarded s' = guarded s \<and> sv_lock s' = sv_lock s \<and> sv_threads s' = sv_threads s \<and>
     sv_serving s' = sv_serving s \<and> sv_starting s' = sv_starting s \<and> (du_fence s' = None \<longleftrightarrow> du_fence s = None) \<and>
     sv_proved s' = sv_proved s \<and> sv_issued s' = sv_issued s \<and> sv_frontend s' = sv_frontend s \<and>
     sv_contract s' = sv_contract s \<and> sv_digest s' = sv_digest s"

lemma kin_refl [simp]: "kin s s" and kin_trans: "kin s s' \<Longrightarrow> kin s' s'' \<Longrightarrow> kin s s''"
  by (simp_all add: kin_def)

lemma guar_kin:
  assumes "here t s" and k: "kin s s'" and "sv_phase s' = sv_phase s \<or> sv_phase s' = Draining"
    and "sv_generation s \<le> sv_generation s'" and sub: "le_id ` set (sv_leases s') \<subseteq> le_id ` set (sv_leases s)"
    and "sv_leases s' = [] \<Longrightarrow> sv_leases s \<noteq> [] \<Longrightarrow> sv_phase s' = Draining"
  shows "guar t s s'" and "here t s'"
proof -
  have f: "guarded s' = guarded s" "sv_lock s' = sv_lock s" "sv_threads s' = sv_threads s"
    "sv_serving s' = sv_serving s" "sv_starting s' = sv_starting s" "du_fence s' = None \<longleftrightarrow> du_fence s = None"
    "sv_proved s' = sv_proved s" "sv_issued s' = sv_issued s" "sv_frontend s' = sv_frontend s"
    "sv_contract s' = sv_contract s" "sv_digest s' = sv_digest s"
    using k by (simp_all only: kin_def)
  have g: "sv_gate s' = sv_gate s" "sv_active s' = sv_active s" using f(1) by (simp_all add: guarded_def)
  have i: "epoch_inv s" using assms(1) by (simp add: here_def)
  have n: "sv_leases s' \<noteq> [] \<Longrightarrow> sv_leases s \<noteq> []" using sub by auto
  have "beside s s'" using assms(3-5) by (auto simp: beside_def f g only_forward_def)
  moreover have "ended s'"
  proof -
    have "ended s" using i by (simp add: epoch_inv_def)
    then have e: "sv_proved s \<longrightarrow> sv_phase s = Draining \<and> sv_gate s = None"
      "sv_leases s = [] \<and> 0 < sv_issued s \<longrightarrow> sv_phase s = Draining" "sv_leases s \<noteq> [] \<longrightarrow> 0 < sv_issued s"
      "du_fence s = None \<longrightarrow> sv_threads s = {} \<and> \<not> sv_starting s \<and> \<not> sv_serving s"
      by (simp_all add: ended_def)
    have "sv_proved s \<longrightarrow> sv_phase s' = Draining" using e(1) assms(3) by auto
    moreover have "sv_leases s' = [] \<and> 0 < sv_issued s \<longrightarrow> sv_phase s' = Draining" using e(2) assms(3,6) by auto
    moreover have "sv_leases s' \<noteq> [] \<longrightarrow> 0 < sv_issued s" using e(3) n by auto
    ultimately show ?thesis using e(1,4) by (simp add: ended_def f g)
  qed
  moreover have "consistent s'" using i by (simp add: epoch_inv_def consistent_def f g)
  ultimately show "guar t s s'" "here t s'" using guar_beside [OF assms(1)] by blast+
qed

text \<open>The fence of a draining epoch, and what removing a lease leaves alone.\<close>

lemma set_fence_phase_kin:
  assumes "set_fence_phase a b p s = (r, s')"
  shows "kin s s'" and "sv_phase s' = sv_phase s" and "sv_generation s' = sv_generation s" and "sv_leases s' = sv_leases s"
proof -
  obtain f h where "s' = s\<lparr>du_fence := f, sv_fence := h\<rparr>" "f = None \<longleftrightarrow> du_fence s = None"
    using assms by (rule set_fence_phase_cases)
  then show "kin s s'" "sv_phase s' = sv_phase s" "sv_generation s' = sv_generation s" "sv_leases s' = sv_leases s"
    by (auto simp: kin_def guarded_def)
qed

lemma kin_upd [simp]:
  "kin s (add_errors es s') \<longleftrightarrow> kin s s'" "kin s (discard_lease l s') \<longleftrightarrow> kin s s'" "kin s (set_child l p s') \<longleftrightarrow> kin s s'"
  "kin s (to_draining s') \<longleftrightarrow> kin s s'" "kin s (s'\<lparr>sv_preserve := b\<rparr>) \<longleftrightarrow> kin s s'"
  by (simp_all add: kin_def guarded_def add_errors_def discard_lease_def set_child_def to_draining_def)

lemma lease_upd [simp]:
  "sv_leases (add_errors es s) = sv_leases s" "sv_phase (add_errors es s) = sv_phase s" "sv_generation (add_errors es s) = sv_generation s"
  "sv_leases (set_child l p s) = sv_leases s" "sv_phase (set_child l p s) = sv_phase s" "sv_generation (set_child l p s) = sv_generation s"
  "sv_leases (discard_lease l s) = filter (\<lambda>x. le_id x \<noteq> l) (sv_leases s)" "sv_phase (discard_lease l s) = sv_phase s"
  "sv_generation (discard_lease l s) = sv_generation s"
  "sv_leases (to_draining s) = sv_leases s" "sv_phase (to_draining s) = Draining" "sv_generation (to_draining s) = Suc (sv_generation s)"
  by (simp_all add: add_errors_def set_child_def discard_lease_def to_draining_def)

text \<open>The end of a removal and of a linearization: in memory the epoch drains, whatever the fence does.\<close>

lemma drain_phase:
  assumes "set_fence_phase a b Draining (to_draining s) = (r, s')"
  shows "kin s s'" and "sv_phase s' = Draining" and "sv_generation s' = Suc (sv_generation s)" and "sv_leases s' = sv_leases s"
proof -
  have "kin s (to_draining s)" by simp
  from kin_trans [OF this set_fence_phase_kin(1) [OF assms]] show "kin s s'" .
qed (use set_fence_phase_kin [OF assms] in simp_all)

lemma remove_lease_triple:
  "triple guar t (\<lambda>s. here t s \<and> (linearize \<or> sv_phase s = Draining)) (remove_lease l linearize scope_clean residue)
     (\<lambda>_. here t) (\<lambda>_. here t)"
  unfolding remove_lease_def
proof (rule triple_atomically, goal_cases)
  case 1
  show ?case using steady_here [of t] kept_facts(4) [of linearize] unfolding steady_def kept_def by blast
next
  case (2 s e)
  then have h: "here t s" by simp
  show ?case
  proof (cases "find_lease l s")
    case None
    then show ?thesis using h guar_refl [OF here_running [OF h]] by simp
  next
    case (Some le)
    define s1 where "s1 = add_errors ((if (case e 0 of Works n \<Rightarrow> True | _ \<Rightarrow> False) then [] else [''leader path'']) @
               (if residue then [''attached child remains alive''] else []) @
               (if scope_clean then [] else [''lease cgroup residue''])) (discard_lease l s)"
    define s2 where "s2 = (if le_child le \<noteq> None \<and> \<not> residue \<and> scope_clean \<and> (case e 0 of Works n \<Rightarrow> True | _ \<Rightarrow> False)
               then (case durably (e 1) (set_child l None) s1 of
                   (Inl x, s') \<Rightarrow> add_errors [exc_msg x] s' | (Inr _, s') \<Rightarrow> s')
               else s1)"
    define s3 where "s3 = (if sv_leases s2 = [] \<and> linearize \<and> sv_phase s2 \<noteq> Draining
               then (case set_fence_phase (e 2) (e 3) Draining (to_draining s2) of
                   (Inl x, s') \<Rightarrow> add_errors [''cannot durably linearize last-lease drain''] (s'\<lparr>sv_preserve := True\<rparr>)
                 | (Inr _, s') \<Rightarrow> s')
               else s2)"
    have s2: "kin s s2" "sv_phase s2 = sv_phase s" "sv_generation s2 = sv_generation s"
        "sv_leases s2 = filter (\<lambda>x. le_id x \<noteq> l) (sv_leases s)"
      unfolding s2_def s1_def by (cases "e 1"; simp)+
    have s3: "kin s s3" "sv_phase s3 = sv_phase s \<or> sv_phase s3 = Draining" "sv_generation s \<le> sv_generation s3"
        "sv_leases s3 = filter (\<lambda>x. le_id x \<noteq> l) (sv_leases s)" "sv_leases s3 = [] \<Longrightarrow> sv_phase s3 = Draining"
    proof -
      have "kin s s3 \<and> (sv_phase s3 = sv_phase s \<or> sv_phase s3 = Draining) \<and> sv_generation s \<le> sv_generation s3 \<and>
          sv_leases s3 = filter (\<lambda>x. le_id x \<noteq> l) (sv_leases s) \<and> (sv_leases s3 = [] \<longrightarrow> sv_phase s3 = Draining)"
      proof (cases "sv_leases s2 = [] \<and> linearize \<and> sv_phase s2 \<noteq> Draining")
        case True
        obtain r s' where f: "set_fence_phase (e 2) (e 3) Draining (to_draining s2) = (r, s')" by fastforce
        have "s3 = add_errors [''cannot durably linearize last-lease drain''] (s'\<lparr>sv_preserve := True\<rparr>) \<or> s3 = s'"
          using True f unfolding s3_def by (cases r) simp_all
        then show ?thesis using drain_phase [OF f] s2 kin_trans [OF s2(1)] by auto
      next
        case False
        then have "s3 = s2" unfolding s3_def by (rule if_not_P)
        with s2 False 2 show ?thesis by auto
      qed
      then show "kin s s3" "sv_phase s3 = sv_phase s \<or> sv_phase s3 = Draining" "sv_generation s \<le> sv_generation s3"
        "sv_leases s3 = filter (\<lambda>x. le_id x \<noteq> l) (sv_leases s)" "sv_leases s3 = [] \<Longrightarrow> sv_phase s3 = Draining" by simp_all
    qed
    have "guar t s s3" "here t s3" using guar_kin [OF h s3(1-3)] s3(4,5) by auto
    then show ?thesis using Some unfolding Let_def s3_def s2_def s1_def by simp
  qed
qed


lemma untouched_scope [simp]: "untouched s (set_scope l p s)"
  by (simp add: untouched_def set_scope_def guarded_def)

lemma here_section:
  assumes "\<And>s e. untouched s (snd (f e s))"
  shows "triple guar t (here t) (atomically f) (\<lambda>_. here t) (\<lambda>_. here t)"
  by (rule triple_atomically) (use guar_untouched [OF assms] untouched_keeps [OF assms] here_running in \<open>auto split: sum.split\<close>)

lemma reconcile_scope_triple: "triple guar t (here t) (reconcile_scope l) (\<lambda>_. here t) (\<lambda>_. here t)"
  unfolding reconcile_scope_def by (rule here_section) (auto split: reply.split)

lemma child_residue_triple: "triple guar t (here t) (child_residue l) (\<lambda>_. here t) (\<lambda>_. here t)"
  unfolding child_residue_def by (rule here_section) simp

lemma find_lease_due: "here t s \<Longrightarrow> find_lease l s \<noteq> None \<Longrightarrow> due s"
  by (auto simp: here_def epoch_inv_def ended_def due_def find_lease_def)

text \<open>Dropping a lease, by anybody: what becomes idle drains.\<close>

lemma drop_lease_triple:
  "triple guar t (\<lambda>s. here t s \<and> (linearize \<or> sv_phase s = Draining)) (drop_lease l linearize)
     (\<lambda>last s. here t s \<and> (last \<longrightarrow> due s)) (\<lambda>_. here t)"
  unfolding drop_lease_def
proof (rule triple_bind)
  show "triple guar t (\<lambda>s. here t s \<and> (linearize \<or> sv_phase s = Draining)) (reading (find_lease l))
    (\<lambda>found s. (here t s \<and> (linearize \<or> sv_phase s = Draining)) \<and> (found \<noteq> None \<longrightarrow> due s)) (\<lambda>_. here t)"
  proof (rule triple_reading)
    show "steady guar t (\<lambda>s. here t s \<and> (linearize \<or> sv_phase s = Draining))"
      using steady_here [of t] kept_facts(4) [of linearize] unfolding steady_def kept_def by blast
  qed (use guar_refl here_running find_lease_due in blast)
next
  fix found
  let ?D = "\<lambda>s. linearize \<or> sv_phase s = Draining"
  show "triple guar t (\<lambda>s. (here t s \<and> ?D s) \<and> (found \<noteq> None \<longrightarrow> due s))
    (case found of None \<Rightarrow> returnT False | Some le \<Rightarrow>
       bindT (if le_child le = None then returnT True else reconcile_scope l) (\<lambda>scope_clean.
       bindT (child_residue l) (\<lambda>residue. remove_lease l linearize scope_clean residue)))
    (\<lambda>last s. here t s \<and> (last \<longrightarrow> due s)) (\<lambda>_. here t)"
  proof (cases found)
    case None
    then show ?thesis by (auto intro: triple_return)
  next
    case (Some le)
    have "triple guar t (\<lambda>s. here t s \<and> ?D s)
       (bindT (if le_child le = None then returnT True else reconcile_scope l) (\<lambda>scope_clean.
       bindT (child_residue l) (\<lambda>residue. remove_lease l linearize scope_clean residue))) (\<lambda>_. here t) (\<lambda>_. here t)"
    proof (rule bind_kept [OF kept_facts(4)])
      show "triple guar t (here t) (if le_child le = None then returnT True else reconcile_scope l) (\<lambda>_. here t) (\<lambda>_. here t)"
        by (auto intro: triple_return reconcile_scope_triple)
      show "triple guar t (\<lambda>s. here t s \<and> ?D s) (bindT (child_residue l) (\<lambda>residue. remove_lease l linearize scope_clean residue))
        (\<lambda>_. here t) (\<lambda>_. here t)" for scope_clean
        by (rule bind_kept [OF kept_facts(4) child_residue_triple remove_lease_triple])
    qed
    from with_due [OF this] Some show ?thesis by (auto elim!: triple_weaken)
  qed
qed

lemma drop_lease_here: "triple guar t (here t) (drop_lease l True) (\<lambda>last s. here t s \<and> (last \<longrightarrow> due s)) (\<lambda>_. here t)"
  using drop_lease_triple [of t True l] by simp

text \<open>The two ways to start draining.\<close>

lemma drain_step:
  assumes "here t s" and "set_fence_phase a b Draining (to_draining s) = (r, s')"
  shows "guar t s s'" and "here t s'" and "due s'"
  using guar_kin [OF assms(1), of s'] drain_phase [OF assms(2)] by (auto simp: due_def)

lemma linearize_draining_triple:
  "triple guar t (here t) linearize_draining (\<lambda>_ s. here t s \<and> due s) (\<lambda>_. here t)"
  unfolding linearize_draining_def
proof (rule triple_atomically, goal_cases)
  case (2 s e)
  show ?case
  proof (cases "sv_phase s = Draining \<or> sv_leases s \<noteq> []")
    case True
    then have "due s" using 2 by (auto simp: here_def epoch_inv_def ended_def due_def)
    then show ?thesis using True 2 guar_refl [OF here_running] by simp
  next
    case False
    obtain r s' where f: "set_fence_phase (e 0) (e 1) Draining (to_draining s) = (r, s')" by fastforce
    show ?thesis using False f drain_step [OF 2 f] by (simp split: sum.split)
  qed
qed simp

lemma untouched_preserve [simp]: "untouched s (s\<lparr>sv_preserve := x\<rparr>)"
  by (simp add: untouched_def guarded_def)

lemma force_draining_triple:
  "triple guar t (here t) force_draining (\<lambda>_ s. here t s \<and> sv_phase s = Draining) (\<lambda>_. here t)"
  unfolding force_draining_def
proof (rule triple_atomically, goal_cases)
  case (2 s e)
  show ?case
  proof (cases "sv_phase s = Draining")
    case True
    then show ?thesis using 2 guar_refl [OF here_running] by simp
  next
    case False
    obtain r s' where f: "set_fence_phase (e 0) (e 1) Draining (to_draining s) = (r, s')" by fastforce
    let ?s = "s'\<lparr>sv_preserve := True\<rparr>"
    have "guar t s ?s" "here t ?s" using guar_kin [OF 2, of ?s] drain_phase [OF f] by simp_all
    then show ?thesis using False f drain_step(1,2) [OF 2 f] drain_phase(2) [OF f] by (cases r) simp_all
  qed
qed simp

lemma drain_if_idle_triple: "triple guar t (here t) (drain_if_idle t) (\<lambda>_. here t) (\<lambda>_. here t)"
  unfolding drain_if_idle_def
  by (rule triple_bind [OF reading_here]) (auto simp: provided_def intro!: triple_return triple_then [OF linearize_draining_triple drain_epoch_triple])


abbreviation local_triple :: "nat \<Rightarrow> (supervisor, 'a) thread \<Rightarrow> bool" where
  "local_triple t p \<equiv> triple guar t (here t) p (\<lambda>_. here t) (\<lambda>_. here t)"

named_theorems local

lemma local_bind: "local_triple t p \<Longrightarrow> (\<And>a. local_triple t (f a)) \<Longrightarrow> local_triple t (bindT p f)"
  by (rule triple_bind)

lemma local_then: "local_triple t p \<Longrightarrow> local_triple t q \<Longrightarrow> local_triple t (thenT p q)"
  by (rule triple_then)

lemma local_finished [local]: "local_triple t (Finished r)"
  by (rule triple_Finished) (simp split: sum.split)

lemma local_provided [local]: "(b \<Longrightarrow> local_triple t p) \<Longrightarrow> local_triple t (provided b p)"
  by (simp add: provided_def local_finished)

lemma local_noting: "local_triple t p \<Longrightarrow> local_triple t (noting caught p)"
  by (rule noting_triple)

lemma local_handle: "local_triple t p \<Longrightarrow> (\<And>r. local_triple t (h r)) \<Longrightarrow> local_triple t (handleT p h)"
  by (rule triple_handle)

lemma local_catch: "local_triple t p \<Longrightarrow> (\<And>x. local_triple t (h x)) \<Longrightarrow> local_triple t (catchT p caught h)"
  by (rule triple_catch) simp_all

lemma local_finally: "local_triple t p \<Longrightarrow> local_triple t q \<Longrightarrow> local_triple t (finallyT p q)"
  by (rule triple_finally)

lemma local_section: "(\<And>s e. untouched s (snd (f e s))) \<Longrightarrow> local_triple t (atomically f)"
  by (rule here_section)

lemma local_drop [local]: "local_triple t (drop_lease l True)"
  by (rule triple_weaken [OF drop_lease_here]) simp_all

lemmas local_update [local] = update_triple(1)
lemmas local_basic [local] = reading_here chooses_here local_bind local_then local_noting local_handle local_catch local_finally
  drain_if_idle_triple reconcile_scope_triple local_section

lemma drop_all_triple:
  "triple guar t (\<lambda>s. here t s \<and> sv_phase s = Draining) (drop_all ls) (\<lambda>_. here t) (\<lambda>_. here t)"
proof (induction ls)
  case Nil
  show ?case by (auto intro: triple_return)
next
  case (Cons l ls)
  have d: "triple guar t (\<lambda>s. here t s \<and> sv_phase s = Draining) (drop_lease l False) (\<lambda>_. here t) (\<lambda>_. here t)"
    by (rule triple_weaken [OF drop_lease_triple]) simp_all
  have n: "triple guar t (\<lambda>s. here t s \<and> sv_phase s = Draining) (noting (\<lambda>_. True) (bindT (drop_lease l False) (\<lambda>_. returnT ())))
      (\<lambda>_. here t) (\<lambda>_. here t)"
    by (rule noting_triple, rule triple_bind [OF d]) (simp add: local)
  have "triple guar t (\<lambda>s. here t s \<and> sv_phase s = Draining) (noting (\<lambda>_. True) (bindT (drop_lease l False) (\<lambda>_. returnT ())))
      (\<lambda>_ s. here t s \<and> sv_phase s = Draining) (\<lambda>_. here t)"
    using with_draining [OF n] by (auto elim!: triple_weaken)
  then show ?case unfolding drop_all.simps
    by (rule triple_bind) (rule triple_bind [OF Cons.IH], simp add: local)
qed

lemma untouched_forced [simp]: "untouched s ((add_errors es s)\<lparr>sv_preserve := True, sv_proved := False\<rparr>)"
  by (simp add: untouched_def add_errors_def guarded_def)

lemma draining_due: "triple guar t (\<lambda>s. here t s \<and> due s) p N E \<Longrightarrow> triple guar t (\<lambda>s. here t s \<and> sv_phase s = Draining) p N E"
  by (erule triple_weaken) (simp_all add: due_def)

lemma force_shutdown_triple [local]: "local_triple t (force_shutdown t)"
  unfolding force_shutdown_def Let_def
proof (rule triple_bind [OF force_draining_triple])
  fix fence
  show "triple guar t (\<lambda>s. here t s \<and> sv_phase s = Draining)
    (bindT (reading (\<lambda>s. map le_id (sv_leases s))) (\<lambda>leases. thenT (update (\<lambda>s. s\<lparr>sv_stop := True\<rparr>))
      (bindT (drop_all leases) (\<lambda>dropping. bindT (noting (\<lambda>_. True) (drain_epoch t)) (\<lambda>draining.
        provided (fence @ dropping @ draining \<noteq> []) (update (\<lambda>s. (add_errors (fence @ dropping @ draining) s)\<lparr>sv_preserve := True, sv_proved := False\<rparr>)))))))
    (\<lambda>_. here t) (\<lambda>_. here t)"
    unfolding thenT_def
  proof (rule bind_kept [OF kept_facts(2) reading_here], rule bind_kept [OF kept_facts(2) update_triple(1)])
    fix leases
    have d: "triple guar t (\<lambda>s. here t s \<and> sv_phase s = Draining) (drop_all leases) (\<lambda>_ s. here t s \<and> sv_phase s = Draining) (\<lambda>_. here t)"
      using with_draining [OF drop_all_triple [of t leases]] by (auto elim!: triple_weaken)
    have "triple guar t (\<lambda>s. here t s \<and> sv_phase s = Draining) (noting (\<lambda>_. True) (drain_epoch t)) (\<lambda>_. here t) (\<lambda>_. here t)"
      by (rule draining_due, rule noting_triple, rule drain_epoch_triple)
    then show "triple guar t (\<lambda>s. here t s \<and> sv_phase s = Draining)
      (bindT (drop_all leases) (\<lambda>dropping. bindT (noting (\<lambda>_. True) (drain_epoch t)) (\<lambda>draining.
        provided (fence @ dropping @ draining \<noteq> []) (update (\<lambda>s. (add_errors (fence @ dropping @ draining) s)\<lparr>sv_preserve := True, sv_proved := False\<rparr>)))))
      (\<lambda>_. here t) (\<lambda>_. here t)"
      by (rule triple_bind [OF d triple_bind]) (simp add: local)
  qed simp
qed

text \<open>The generation worker.\<close>

lemma untouched_generation [simp]: "untouched s (s\<lparr>sv_generation_error := x\<rparr>)"
  by (simp add: untouched_def guarded_def)

lemma worker_main_triple:
  assumes "t \<noteq> 0"
  shows "triple guar t (here t) (worker_main cfg t) (\<lambda>_ _. True) (\<lambda>_ _. True)"
  unfolding worker_main_def
proof (rule triple_handle [OF locked_triple [OF initial_transition_triple [OF assms]]])
  have w: "triple guar t (here t) (await sv_stop (\<lambda>_ s. (Inr (), s))) (\<lambda>_. here t) E" for E
    by (rule triple_await) (auto intro: guar_refl here_running)
  have l: "triple guar t (here t) (update (\<lambda>s. s\<lparr>sv_worker := False, sv_threads := sv_threads s - {t}\<rparr>)) (\<lambda>_ _. True) E" for E
  proof (rule leave_triple)
    show "\<exists>w cs n. s\<lparr>sv_worker := False, sv_threads := sv_threads s - {t}\<rparr> =
        s\<lparr>sv_threads := sv_threads s - {t}, sv_worker := w, sv_connections := cs, sv_slots := n\<rparr>" for s
      by (rule exI [of _ False], rule exI [of _ "sv_connections s"], rule exI [of _ "sv_slots s"]) simp
  qed
  show "triple guar t (here t) (thenT (update (\<lambda>s. s\<lparr>sv_generation_error := case r of Inl x \<Rightarrow> Some x | Inr _ \<Rightarrow> None\<rparr>))
     (thenT (case r of Inl x \<Rightarrow> returnT () | Inr _ \<Rightarrow> await sv_stop (\<lambda>_ s. (Inr (), s)))
       (update (\<lambda>s. s\<lparr>sv_worker := False, sv_threads := sv_threads s - {t}\<rparr>)))) (\<lambda>_ _. True) (\<lambda>_ _. True)" for r :: "unit result"
    by (rule triple_then [OF update_triple(1) triple_then [OF _ l]]) (auto split: sum.split intro: w triple_return)
  then show "triple guar t (here t) (thenT (update (\<lambda>s. s\<lparr>sv_generation_error := case r of Inl x \<Rightarrow> Some x | Inr _ \<Rightarrow> None\<rparr>))
     (thenT (case r of Inl x \<Rightarrow> returnT () | Inr _ \<Rightarrow> await sv_stop (\<lambda>_ s. (Inr (), s)))
       (update (\<lambda>s. s\<lparr>sv_worker := False, sv_threads := sv_threads s - {t}\<rparr>)))) (\<lambda>_ _. True) (\<lambda>_ _. True)" for r :: "unit result" .
qed

lemma start_worker_step:
  assumes "here t s" and "t \<noteq> 0"
  shows "guar t s (s\<lparr>sv_worker := True, sv_starting := True\<rparr>)" and "here t (s\<lparr>sv_worker := True, sv_starting := True\<rparr>)"
proof -
  have i: "epoch_inv s" "t \<in> sv_threads s" using assms by (simp_all add: here_defs)
  have "epoch_inv (s\<lparr>sv_worker := True, sv_starting := True\<rparr>)" using i by (auto simp: inv_defs)
  with i assms(2) show "guar t s (s\<lparr>sv_worker := True, sv_starting := True\<rparr>)" "here t (s\<lparr>sv_worker := True, sv_starting := True\<rparr>)"
    by (simp_all add: guar_def may_act_def lock_kept_def only_forward_def threads_kept_def guarded_def here_defs)
qed

lemma generation_state_triple [local]: "t \<noteq> 0 \<Longrightarrow> local_triple t (generation_state l)"
  unfolding generation_state_def
proof (rule triple_atomically, goal_cases)
  case (2 s e)
  have r: "guar t s s" by (rule guar_refl [OF here_running [OF 2(2)]])
  show ?case using r start_worker_step [OF 2(2,1)] 2(2)
    by (cases "e 0") (auto split: option.split)
qed simp

lemma ensure_generation_triple [local]: "t \<noteq> 0 \<Longrightarrow> local_triple t (ensure_generation l n)"
proof (induction n)
  case 0
  show ?case unfolding ensure_generation.simps by (rule triple_await) simp_all
next
  case (Suc n)
  then show ?case unfolding ensure_generation.simps
    by (intro local_bind generation_state_triple) (auto intro!: local_bind local_finished chooses_here local_drop)
qed


section \<open>Repair and the watchdog\<close>

lemma untouched_more [simp]:
  "untouched s (s\<lparr>sv_repairs := x, sv_transition := y\<rparr>)" "untouched s (s\<lparr>sv_checks := z\<rparr>)"
  by (simp_all add: untouched_def guarded_def)

lemma holding_frontend: "holding t s \<Longrightarrow> sv_active s \<noteq> None \<Longrightarrow> sv_frontend s"
  by (simp add: here_defs epoch_inv_def consistent_def)

lemma begin_repair_triple:
  "triple guar t (holding t) (begin_repair g rung)
     (\<lambda>plan s. holding t s \<and> (plan \<noteq> None \<longrightarrow> sv_frontend s)) (\<lambda>_. holding t)"
  unfolding begin_repair_def
proof (rule triple_atomically, goal_cases)
  case (2 s e)
  let ?s = "\<lambda>n. s\<lparr>sv_repairs := List.insert rung (sv_repairs s), sv_transition := Some n\<rparr>"
  have "guar t s (?s n)" "holding t (?s n)" for n
    using guar_untouched [OF untouched_more(1) holding_running [OF 2]] untouched_keeps(2) [OF untouched_more(1) 2] by simp_all
  moreover have "guar t s s" by (rule guar_refl [OF holding_running [OF 2]])
  ultimately show ?case using 2 holding_frontend [OF 2] by (auto split: option.split)
qed simp

lemma forget_active_triple: "triple guar t (shut t) (update (\<lambda>s. s\<lparr>sv_active := None\<rparr>)) (\<lambda>_. shut t) E"
proof (rule triple_update)
  fix s
  assume s: "shut t s"
  show "guar t s (s\<lparr>sv_active := None\<rparr>) \<and> shut t (s\<lparr>sv_active := None\<rparr>)"
    by (rule guar_shut [OF s]) (use s shut_inv [OF s] in \<open>simp_all add: same_outside_def shut_def recorded_def fresh_generations_def\<close>)
qed simp

lemma then_frontend:
  assumes "triple guar t P p (\<lambda>_. N) (\<lambda>_. shut t)" and "triple guar t (\<lambda>s. N s \<and> sv_frontend s) q N' (\<lambda>_. holding t)"
  shows "triple guar t (\<lambda>s. P s \<and> sv_frontend s) (thenT p q) N' (\<lambda>_. holding t)"
  by (rule triple_then [OF triple_weaken [OF with_frontend [OF assms(1)]] assms(2)]) (auto dest: shut_holding)

lemma repair_locked_triple:
  assumes "t \<noteq> 0"
  shows "triple guar t (holding t) (repair_locked cfg g rung) (\<lambda>_. holding t) (\<lambda>_. holding t)"
  unfolding repair_locked_def
proof (rule triple_bind [OF begin_repair_triple])
  fix plan
  let ?F = "\<lambda>s. shut t s \<and> sv_frontend s"
  let ?body = "\<lambda>same remaining c. thenT shut_frontend (thenT (stop_result g) (thenT (update (\<lambda>s. s\<lparr>sv_active := None\<rparr>))
      (bindT (if same then catchT (thenT (transition_candidates cfg c [rung]) (returnT True))
                (\<lambda>c. is_provider_error c \<or> c = EpochDraining) (\<lambda>_. returnT False)
              else returnT False) (\<lambda>repaired.
         if repaired then returnT False
         else if remaining \<noteq> [] then thenT (transition_candidates cfg c remaining) (returnT False)
         else thenT (update (\<lambda>s. s\<lparr>sv_transition := None\<rparr>)) (returnT True)))))"
  note go = transition_candidates_triple [OF assms, of cfg]
  have first: "triple guar t ?F (if same then catchT (thenT (transition_candidates cfg c [rung]) (returnT True))
      (\<lambda>c. is_provider_error c \<or> c = EpochDraining) (\<lambda>_. returnT False) else returnT False)
      (\<lambda>repaired s. if repaired then holding t s else ?F s) (\<lambda>_. holding t)" for same c
  proof (cases same)
    case True
    have "triple guar t ?F (catchT (thenT (transition_candidates cfg c [rung]) (returnT True))
      (\<lambda>c. is_provider_error c \<or> c = EpochDraining) (\<lambda>_. returnT False))
      (\<lambda>repaired s. if repaired then holding t s else ?F s) (\<lambda>_. holding t)"
    proof (rule triple_catch)
      show "triple guar t ?F (thenT (transition_candidates cfg c [rung]) (returnT True))
        (\<lambda>repaired s. if repaired then holding t s else ?F s) (\<lambda>_. ?F)"
        by (rule triple_then [OF go]) (rule triple_return, simp)
    qed (auto intro: triple_return dest: shut_holding)
    then show ?thesis using True by simp
  qed (auto intro: triple_return)
  have second: "triple guar t (\<lambda>s. if repaired then holding t s else ?F s)
     (if repaired then returnT False
      else if remaining \<noteq> [] then thenT (transition_candidates cfg c remaining) (returnT False)
      else thenT (update (\<lambda>s. s\<lparr>sv_transition := None\<rparr>)) (returnT True)) (\<lambda>_. holding t) (\<lambda>_. holding t)" for repaired remaining c
  proof (cases "repaired \<or> remaining = []")
    case True
    have "triple guar t ?F (thenT (update (\<lambda>s. s\<lparr>sv_transition := None\<rparr>)) (returnT True)) (\<lambda>_. holding t) (\<lambda>_. holding t)"
      by (rule triple_then [where N = "shut t"], rule triple_weaken [OF update_triple(3)]) (auto intro: triple_return dest: shut_holding)
    with True show ?thesis by (auto intro: triple_return)
  next
    case False
    have "triple guar t ?F (thenT (transition_candidates cfg c remaining) (returnT False)) (\<lambda>_. holding t) (\<lambda>_. holding t)"
      by (rule triple_then [where N = "holding t"], rule triple_weaken [OF go]) (auto intro: triple_return dest: shut_holding)
    with False show ?thesis by simp
  qed
  have body: "triple guar t (\<lambda>s. holding t s \<and> sv_frontend s) (?body same remaining c) (\<lambda>_. holding t) (\<lambda>_. holding t)"
    for same remaining c
    by (rule then_frontend [OF shut_frontend_triple] then_frontend [OF stop_result_triple] then_frontend [OF forget_active_triple]
        triple_bind [OF first] second)+
  show "triple guar t (\<lambda>s. holding t s \<and> (plan \<noteq> None \<longrightarrow> sv_frontend s))
    (case plan of None \<Rightarrow> returnT False | Some (same, remaining, c) \<Rightarrow> ?body same remaining c) (\<lambda>_. holding t) (\<lambda>_. holding t)"
  proof (cases plan)
    case (Some q)
    obtain same remaining c where "q = (same, remaining, c)" by (cases q)
    with Some body [where same = same and remaining = remaining and c = c] show ?thesis by simp
  qed (auto intro: triple_return)
qed

lemma try_acquire_triple: "triple guar t (here t) (try_acquire t) (\<lambda>got s. if got then holding t s else here t s) E"
  unfolding try_acquire_def by (rule triple_atomically) (auto intro: lock_step guar_refl here_running simp: holding_def)

lemma repair_active_triple [local]:
  assumes "t \<noteq> 0"
  shows "local_triple t (repair_active cfg t g rung)"
  unfolding repair_active_def
proof (rule triple_bind [OF try_acquire_triple])
  fix got
  have c: "triple guar t (holding t) (catchT (repair_locked cfg g rung) (\<lambda>_. True)
         (\<lambda>_. thenT (update (\<lambda>s. s\<lparr>sv_transition := None\<rparr>)) (returnT True))) (\<lambda>_. holding t) (\<lambda>_. holding t)"
    by (rule triple_catch [OF repair_locked_triple [OF assms]])
      (auto intro!: triple_then [OF update_triple(2)] triple_return)
  have "triple guar t (holding t) (bindT (finallyT (catchT (repair_locked cfg g rung) (\<lambda>_. True)
         (\<lambda>_. thenT (update (\<lambda>s. s\<lparr>sv_transition := None\<rparr>)) (returnT True))) release_lock) (\<lambda>fatal.
       provided fatal (thenT (force_shutdown t) (update (\<lambda>s. s\<lparr>sv_stop := True\<rparr>))))) (\<lambda>_. here t) (\<lambda>_. here t)"
    by (rule triple_bind [OF triple_finally [OF c release_triple release_triple]])
      (intro local_provided local_then force_shutdown_triple local_update untouched_stop)
  then show "triple guar t (\<lambda>s. if got then holding t s else here t s)
    (if \<not> got then returnT () else bindT (finallyT (catchT (repair_locked cfg g rung) (\<lambda>_. True)
         (\<lambda>_. thenT (update (\<lambda>s. s\<lparr>sv_transition := None\<rparr>)) (returnT True))) release_lock) (\<lambda>fatal.
       provided fatal (thenT (force_shutdown t) (update (\<lambda>s. s\<lparr>sv_stop := True\<rparr>))))) (\<lambda>_. here t) (\<lambda>_. here t)"
    by (cases got) (simp_all add: local_finished)
qed

lemma begin_check_triple [local]: "local_triple t (begin_check t)" and finish_check_triple [local]: "local_triple t (finish_check t)"
  unfolding begin_check_def finish_check_def by (rule local_section; simp)+

lemma ask_triple [local]: "local_triple t ask"
  unfolding ask_def by (rule local_section) simp

lemma drop_dead_triple [local]: "local_triple t (drop_dead le)"
  unfolding drop_dead_def by (intro local_bind chooses_here) (auto intro!: local_bind local_finished local_drop)

lemma check_health_triple [local]: "t \<noteq> 0 \<Longrightarrow> local_triple t (check_health cfg t failing failures g rung)"
  unfolding check_health_def Let_def
  by (intro local_bind ask_triple) (auto intro!: local_then repair_active_triple local_finished)

lemma drain_quietly_triple: "triple guar t (\<lambda>s. here t s \<and> due s) (drain_quietly t) (\<lambda>_. here t) (\<lambda>_. here t)"
  unfolding drain_quietly_def
  by (rule triple_then [OF triple_catch [OF drain_epoch_triple] update_triple(1)]) (auto intro: triple_return)

lemma watchdog_loop_triple: "t \<noteq> 0 \<Longrightarrow> local_triple t (watchdog_loop cfg t n failing failures)"
proof (induction n arbitrary: failing failures)
  case 0
  show ?case unfolding watchdog_loop.simps by (rule triple_await) (auto intro: guar_refl here_running)
next
  case (Suc n)
  have check: "local_triple t (bindT (begin_check t) (\<lambda>ok.
      if \<not> ok then watchdog_loop cfg t n None 0
      else bindT (finallyT (check_health cfg t failing failures g rung) (finish_check t)) (\<lambda>(failing, failures).
         watchdog_loop cfg t n failing failures)))" for g rung
    by (intro local_bind begin_check_triple)
      (auto intro!: Suc local_bind [OF local_finally [OF check_health_triple finish_check_triple]])
  have idle: "local_triple t (thenT linearize_draining (drain_quietly t))"
    by (rule triple_then [OF linearize_draining_triple drain_quietly_triple])
  have each: "local_triple t (eachT drop_dead leases)" for leases
    by (rule triple_each) (rule drop_dead_triple)
  show ?case unfolding watchdog_loop.simps
    by (intro local_bind reading_here) (auto intro!: local_finished local_then each local_bind [OF reading_here] idle Suc check split: option.split)
qed

lemma leave_only: "triple guar t (here t) (update (\<lambda>s. s\<lparr>sv_threads := sv_threads s - {t}\<rparr>)) (\<lambda>_ _. True) E"
proof (rule leave_triple)
  show "\<exists>w cs n. s\<lparr>sv_threads := sv_threads s - {t}\<rparr> =
      s\<lparr>sv_threads := sv_threads s - {t}, sv_worker := w, sv_connections := cs, sv_slots := n\<rparr>" for s
    by (rule exI [of _ "sv_worker s"], rule exI [of _ "sv_connections s"], rule exI [of _ "sv_slots s"]) simp
qed

lemma watchdog_main_triple:
  assumes "t \<noteq> 0"
  shows "triple guar t (here t) (watchdog_main cfg t n) (\<lambda>_ _. True) (\<lambda>_ _. True)"
  unfolding watchdog_main_def by (rule triple_finally [OF watchdog_loop_triple [OF assms] leave_only leave_only])


section \<open>Requests and connections\<close>

lemma refuse_unless_triple [local]: "local_triple t (refuse_unless m)"
  unfolding refuse_unless_def by (intro local_bind chooses_here local_finished)

lemma calling_here [local]: "local_triple t calling"
  unfolding calling_def by (rule local_section) simp

lemma own_lease_upd [simp]: "guarded (own_lease c l s) = guarded s" "sv_lock (own_lease c l s) = sv_lock s"
    "sv_threads (own_lease c l s) = sv_threads s" "sv_serving (own_lease c l s) = sv_serving s" "sv_starting (own_lease c l s) = sv_starting s"
    "du_fence (own_lease c l s) = du_fence s" "sv_phase (own_lease c l s) = sv_phase s" "sv_generation (own_lease c l s) = sv_generation s"
    "sv_leases (own_lease c l s) = sv_leases s" "sv_issued (own_lease c l s) = sv_issued s" "sv_frontend (own_lease c l s) = sv_frontend s"
    "sv_digest (own_lease c l s) = sv_digest s" "sv_contract (own_lease c l s) = sv_contract s" "sv_proved (own_lease c l s) = sv_proved s"
    "sv_gate (own_lease c l s) = sv_gate s" "sv_active (own_lease c l s) = sv_active s" "du_intents (own_lease c l s) = du_intents s"
    "du_providers (own_lease c l s) = du_providers s" "wo_provider (own_lease c l s) = wo_provider s"
  by (simp_all add: own_lease_def guarded_def)

text \<open>Establishing the first contract: the digest changes while the gate is shut.\<close>

lemma establish_step:
  assumes "here t s" and "sv_phase s \<noteq> Draining" and "sv_contract s = None"
  shows "beside s (s\<lparr>sv_contract := Some c, sv_digest := Some d, sv_executable := x\<rparr>)"
    and "ended (s\<lparr>sv_contract := Some c, sv_digest := Some d, sv_executable := x\<rparr>)"
    and "consistent (s\<lparr>sv_contract := Some c, sv_digest := Some d, sv_executable := x\<rparr>)"
proof -
  have i: "epoch_inv s" using assms(1) by (simp add: here_def)
  then have "sv_gate s = None" using assms(3)
    by (cases "sv_gate s") (auto simp: epoch_inv_def consistent_def gate_recorded_def)
  then show "beside s (s\<lparr>sv_contract := Some c, sv_digest := Some d, sv_executable := x\<rparr>)"
    by (simp add: beside_def guarded_def only_forward_def)
  show "ended (s\<lparr>sv_contract := Some c, sv_digest := Some d, sv_executable := x\<rparr>)"
    "consistent (s\<lparr>sv_contract := Some c, sv_digest := Some d, sv_executable := x\<rparr>)" using i by (simp_all add: inv_defs)
qed

lemma issue_step:
  assumes "beside s s1" and "ended s1" and "consistent s1" and "sv_phase s \<noteq> Draining" and "sv_phase s1 = sv_phase s"
  shows "beside s (own_lease c l (s1\<lparr>sv_leases := sv_leases s1 @ [le], sv_issued := Suc (sv_issued s1)\<rparr>))"
    and "ended (own_lease c l (s1\<lparr>sv_leases := sv_leases s1 @ [le], sv_issued := Suc (sv_issued s1)\<rparr>))"
    and "consistent (own_lease c l (s1\<lparr>sv_leases := sv_leases s1 @ [le], sv_issued := Suc (sv_issued s1)\<rparr>))"
  using assms by (simp_all add: beside_def only_forward_def ended_def consistent_def guarded_def)

lemma admit_lease_triple [local]: "local_triple t (admit_lease cfg c rg)"
  unfolding admit_lease_def
proof (rule triple_atomically, goal_cases)
  case (2 s e)
  have stay: "guar t s s" by (rule guar_refl [OF here_running [OF 2]])
  have inv: "beside s s" "ended s" "consistent s" using 2 by (simp_all add: beside_def only_forward_def here_def epoch_inv_def)
  show ?case
  proof (cases "sv_phase s = Draining \<or> context_leases c s \<noteq> [] \<or>
      (case sv_contract s of None \<Rightarrow> False | Some d \<Rightarrow> semantic_differences d (rg_contract rg) \<noteq> [])")
    case True
    then show ?thesis using 2 stay by auto
  next
    case False
    then have p: "sv_phase s \<noteq> Draining" by simp
    let ?c = "case sv_contract s of Some d \<Rightarrow> (d, s) | None \<Rightarrow> (rg_contract rg, s\<lparr>sv_contract := Some (rg_contract rg),
        sv_digest := Some (route_contract_digest (se_sha cfg) (rg_contract rg)), sv_executable := se_needs_executable cfg\<rparr>)"
    obtain contract s1 where c: "?c = (contract, s1)" by fastforce
    have s1: "beside s s1" "ended s1" "consistent s1" "sv_phase s1 = sv_phase s"
      using c inv establish_step [OF 2 p] by (auto split: option.splits)
    have ok1: "guar t s s1" "here t s1" using guar_beside [OF 2 s1(1-3)] by blast+
    have ok2: "guar t s (own_lease c l (s1\<lparr>sv_leases := sv_leases s1 @ [le], sv_issued := Suc (sv_issued s1)\<rparr>))"
      "here t (own_lease c l (s1\<lparr>sv_leases := sv_leases s1 @ [le], sv_issued := Suc (sv_issued s1)\<rparr>))" for l le
      using guar_beside [OF 2 issue_step [OF s1(1-3) p s1(4)]] by blast+
    show ?thesis using False ok1 ok2 unfolding c Let_def prod.case by (auto split: reply.split)
  qed
qed simp


lemma abandon_register_triple [local]: "local_triple t (abandon_register t l x)"
  unfolding abandon_register_def
  by (intro local_bind local_drop reading_here local_then local_catch drain_if_idle_triple local_finished local_provided
      local_update untouched_stop)

lemma registered_triple [local]: "local_triple t (registered cfg request l)"
  unfolding registered_def by (rule local_section) simp

lemma register_triple [local]: "t \<noteq> 0 \<Longrightarrow> local_triple t (register cfg t peer n kvs descriptors)"
  unfolding register_def
  by (intro local_bind local_finished)
    (auto intro!: local_then local_bind local_finished refuse_unless_triple local_section local_provided admit_lease_triple
      local_handle ensure_generation_triple abandon_register_triple registered_triple split: sum.split)

lemma untouched_set_lease:
  assumes "\<And>x. le_id (f x) = le_id x"
  shows "untouched s (set_lease l f s)"
proof -
  have "map le_id (map (\<lambda>x. if le_id x = l then f x else x) (sv_leases s)) = map le_id (sv_leases s)" using assms by simp
  then show ?thesis by (simp add: untouched_def set_lease_def guarded_def del: map_map)
qed

lemma untouched_child [simp]: "untouched s (set_child l p s)"
  by (simp add: untouched_def set_child_def guarded_def)

lemma untouched_durably: "(\<And>s. untouched s (f s)) \<Longrightarrow> untouched s (snd (durably r f s))"
  by (cases r) simp_all

lemma child_triples [local]:
  "local_triple t (put_child l)" "local_triple t (replace_child l p)" "local_triple t (delete_child l)"
  "local_triple t (create_scope l)" "local_triple t (provisional_lease c l)" "local_triple t (acknowledge_child c l child)"
  "local_triple t (releasable c l)"
  unfolding put_child_def replace_child_def delete_child_def create_scope_def provisional_lease_def acknowledge_child_def releasable_def
  by (rule local_section; auto simp: untouched_durably untouched_set_lease split: option.split)+

lemma attach_child_triple [local]: "local_triple t (attach_child cfg t kvs descriptors)"
proof -
  have u: "untouched s ((add_errors es s)\<lparr>sv_preserve := True\<rparr>)" for s es
    by (simp add: untouched_def add_errors_def guarded_def)
  have "local_triple t (undo_attach l x)" for l x
    unfolding undo_attach_def
    by (intro local_bind reconcile_scope_triple)
      (auto intro!: local_noting child_triples local_bind local_then local_finished local_update u)
  moreover have "local_triple t (attach_scope t l child)" for l child
    unfolding attach_scope_def by (intro local_then child_triples calling_here)
  ultimately show ?thesis
    unfolding attach_child_def
    by (intro local_bind local_finished)
      (auto intro!: local_then child_triples refuse_unless_triple calling_here local_catch local_finished)
qed

lemma release_lease_triple [local]: "local_triple t (release_lease cfg t kvs descriptors)"
proof -
  have "triple guar t (here t) (bindT (drop_lease l True) (\<lambda>last. thenT (provided last (drain_epoch t)) (k last))) (\<lambda>_. here t) (\<lambda>_. here t)"
    if "\<And>last. local_triple t (k last)" for l and k :: "bool \<Rightarrow> (supervisor, payload) thread"
  proof (rule triple_bind [OF drop_lease_here])
    fix "last"
    have "triple guar t (\<lambda>s. here t s \<and> (last \<longrightarrow> due s)) (provided last (drain_epoch t)) (\<lambda>_. here t) (\<lambda>_. here t)"
      by (rule provided_triple) (auto intro: drain_epoch_triple)
    then show "triple guar t (\<lambda>s. here t s \<and> (last \<longrightarrow> due s)) (thenT (provided last (drain_epoch t)) (k last)) (\<lambda>_. here t) (\<lambda>_. here t)"
      by (rule triple_then) (rule that)
  qed
  note drop = this
  show ?thesis
    unfolding release_lease_def
    by (rule local_bind [OF local_finished], clarify, rule local_then [OF child_triples(7)], rule drop)
      (intro local_bind reading_here local_finished)
qed

lemma reading_requests [local]: "local_triple t (status_request cfg kvs d)" "local_triple t (ip_request cfg kvs d)"
  unfolding status_request_def ip_request_def by (intro local_bind local_finished reading_here)+

lemma dispatch_triple [local]: "t \<noteq> 0 \<Longrightarrow> local_triple t (dispatch cfg t peer n kind kvs d)"
  unfolding dispatch_def by (auto intro!: local)

lemma untouched_replays [simp]: "untouched s (save_replay k c f r s)" "untouched s (snd (lookup_replay k c f s))"
  by (auto simp: untouched_def save_replay_def lookup_replay_def guarded_def Let_def split: option.split)

lemma respond_triple [local]: "local_triple t (respond t f kvs key r)"
  unfolding respond_def finish_message_def
  by (auto intro!: local_bind reading_here local_then local_finished local_update split: sum.split option.split)

lemma handle_message_triple [local]: "t \<noteq> 0 \<Longrightarrow> local_triple t (handle_message cfg t peer n kvs d)"
  unfolding handle_message_def Let_def
  by (auto intro!: respond_triple local_handle local_finished local_section dispatch_triple split: sum.split option.split prod.split)


lemma drop_owned_triple:
  "triple guar t (\<lambda>s. here t s \<and> (emptied \<longrightarrow> due s)) (drop_owned ls emptied) (\<lambda>last s. here t s \<and> (last \<longrightarrow> due s)) (\<lambda>_. here t)"
proof (induction ls arbitrary: emptied)
  case Nil
  show ?case by (simp add: triple_return)
next
  case (Cons l ls)
  show ?case unfolding drop_owned.simps
    by (rule triple_bind [OF triple_weaken [OF drop_lease_here] Cons.IH]) simp_all
qed

lemma connection_lost_triple: "local_triple t (connection_lost t)"
  unfolding connection_lost_def
proof (rule local_bind [OF reading_here])
  fix owned
  show "local_triple t (bindT (drop_owned owned False) (\<lambda>last. provided (owned \<noteq> [] \<and> last) (drain_quietly t)))"
  proof (rule triple_bind)
    show "triple guar t (here t) (drop_owned owned False) (\<lambda>last s. here t s \<and> (last \<longrightarrow> due s)) (\<lambda>_. here t)"
      using drop_owned_triple [of t False owned] by simp
    show "triple guar t (\<lambda>s. here t s \<and> (last \<longrightarrow> due s)) (provided (owned \<noteq> [] \<and> last) (drain_quietly t)) (\<lambda>_. here t) (\<lambda>_. here t)" for "last"
      by (rule provided_triple) (auto intro: drain_quietly_triple)
  qed
qed

lemma serve_messages_triple: "t \<noteq> 0 \<Longrightarrow> local_triple t (serve_messages cfg t peer ms)"
proof (induction ms)
  case (Cons m ms)
  then show ?case unfolding serve_messages.simps
    by (intro local_bind reading_here)
      (auto intro!: local_finished local_bind handle_message_triple chooses_here local_update split: prod.split)
qed (simp add: local)

lemma end_connection_triple: "triple guar t (here t) (end_connection t) (\<lambda>_ _. True) (\<lambda>_ _. True)"
  unfolding end_connection_def
proof (rule triple_handle [OF connection_lost_triple])
  have u: "triple guar t (here t) (update (\<lambda>s. case r of
         Inr _ \<Rightarrow> s\<lparr>sv_connections := filter (\<lambda>e. fst e \<noteq> t) (sv_connections s),
           sv_threads := sv_threads s - {t}, sv_slots := sv_slots s - 1\<rparr>
       | Inl _ \<Rightarrow> s\<lparr>sv_threads := sv_threads s - {t}\<rparr>)) (\<lambda>_ _. True) E" for r :: "unit result" and E
  proof (rule leave_triple)
    show "\<exists>w cs n. (case r of
         Inr _ \<Rightarrow> s\<lparr>sv_connections := filter (\<lambda>e. fst e \<noteq> t) (sv_connections s),
           sv_threads := sv_threads s - {t}, sv_slots := sv_slots s - 1\<rparr>
       | Inl _ \<Rightarrow> s\<lparr>sv_threads := sv_threads s - {t}\<rparr>) =
        s\<lparr>sv_threads := sv_threads s - {t}, sv_worker := w, sv_connections := cs, sv_slots := n\<rparr>" for s
    proof (cases r)
      case (Inl x)
      then show ?thesis
        by (intro exI [of _ "sv_worker s"] exI [of _ "sv_connections s"] exI [of _ "sv_slots s"]) simp
    next
      case (Inr x)
      then show ?thesis
        by (intro exI [of _ "sv_worker s"] exI [of _ "filter (\<lambda>e. fst e \<noteq> t) (sv_connections s)"] exI [of _ "sv_slots s - 1"]) simp
    qed
  qed
  have f: "triple guar t (here t) (thenT (update (\<lambda>s. case r of
         Inr _ \<Rightarrow> s\<lparr>sv_connections := filter (\<lambda>e. fst e \<noteq> t) (sv_connections s),
           sv_threads := sv_threads s - {t}, sv_slots := sv_slots s - 1\<rparr>
       | Inl _ \<Rightarrow> s\<lparr>sv_threads := sv_threads s - {t}\<rparr>)) (Finished r)) (\<lambda>_ _. True) (\<lambda>_ _. True)" for r :: "unit result"
    by (rule triple_then [OF u]) (rule triple_Finished, simp split: sum.split)
  show "triple guar t (here t) (thenT (update (\<lambda>s. case Inr a :: unit result of
         Inr _ \<Rightarrow> s\<lparr>sv_connections := filter (\<lambda>e. fst e \<noteq> t) (sv_connections s),
           sv_threads := sv_threads s - {t}, sv_slots := sv_slots s - 1\<rparr>
       | Inl _ \<Rightarrow> s\<lparr>sv_threads := sv_threads s - {t}\<rparr>)) (Finished (Inr a))) (\<lambda>_ _. True) (\<lambda>_ _. True)" for a :: unit
    by (rule f)
  show "triple guar t (here t) (thenT (update (\<lambda>s. case Inl x :: unit result of
         Inr _ \<Rightarrow> s\<lparr>sv_connections := filter (\<lambda>e. fst e \<noteq> t) (sv_connections s),
           sv_threads := sv_threads s - {t}, sv_slots := sv_slots s - 1\<rparr>
       | Inl _ \<Rightarrow> s\<lparr>sv_threads := sv_threads s - {t}\<rparr>)) (Finished (Inl x :: unit result))) (\<lambda>_ _. True) (\<lambda>_ _. True)" for x
    by (rule f)
qed

lemma connection_main_triple:
  assumes "t \<noteq> 0"
  shows "triple guar t (here t) (connection_main cfg t peer ms) (\<lambda>_ _. True) (\<lambda>_ _. True)"
proof -
  have "untouched s (s\<lparr>sv_connections := x\<rparr>)" for s x by (simp add: untouched_def guarded_def)
  then have o: "local_triple t (open_connection cfg t peer)"
    unfolding open_connection_def by (auto intro!: local_section)
  have b: "local_triple t (bindT (open_connection cfg t peer) (\<lambda>admitted. provided admitted (serve_messages cfg t peer ms)))"
    by (intro local_bind o local_provided serve_messages_triple [OF assms])
  show ?thesis unfolding connection_main_def by (rule triple_finally [OF b end_connection_triple end_connection_triple])
qed

section \<open>The end\<close>

text \<open>When only the main thread is left, nobody else can act.\<close>

definition alone :: "supervisor \<Rightarrow> bool" where
  "alone s \<longleftrightarrow> sv_threads s = {} \<and> \<not> sv_starting s \<and> \<not> sv_serving s"

lemma alone_steady: "steady guar 0 (\<lambda>s. here 0 s \<and> \<not> sv_serving s \<and> (b \<longrightarrow> alone s \<and> P s))"
  unfolding steady_def
proof (intro allI impI)
  fix u s s'
  assume u: "u \<noteq> 0" and g: "guar u s s'" and s: "here 0 s \<and> \<not> sv_serving s \<and> (b \<longrightarrow> alone s \<and> P s)"
  have "here 0 s'" using steady_here [of 0] u g s unfolding steady_def by blast
  moreover have "\<not> sv_serving s'" using u g s by (simp add: guar_def threads_kept_def)
  moreover have "\<not> b" using u g s by (auto simp: guar_def may_act_def running_thread_def alone_def)
  ultimately show "here 0 s' \<and> \<not> sv_serving s' \<and> (b \<longrightarrow> alone s' \<and> P s')" by simp
qed

definition unrecorded :: "supervisor \<Rightarrow> bool" where
  "unrecorded s \<longleftrightarrow> (\<forall>g. du_providers s g = None)"

lemma here0_untouched: "untouched s s' \<Longrightarrow> here 0 s \<Longrightarrow> guar 0 s s' \<and> here 0 s'"
  using guar_untouched untouched_keeps(1) here_running by blast

lemma finalize_memory_triple:
  "triple guar 0 (\<lambda>s. here 0 s \<and> \<not> sv_serving s) finalize_memory
     (\<lambda>errors s. here 0 s \<and> \<not> sv_serving s \<and> (errors = [] \<longrightarrow> alone s \<and> True)) E"
  unfolding finalize_memory_def
proof (rule triple_atomically)
  show "steady guar 0 (\<lambda>s. here 0 s \<and> \<not> sv_serving s)" using alone_steady [of False "\<lambda>_. True"] by simp
qed (use here0_untouched [OF untouched_stop] in \<open>simp add: alone_def\<close>)

lemma finalize_records_triple:
  "triple guar 0 (\<lambda>s. here 0 s \<and> \<not> sv_serving s \<and> (b \<longrightarrow> alone s \<and> True)) finalize_records
     (\<lambda>errors s. here 0 s \<and> \<not> sv_serving s \<and> (b \<and> errors = [] \<longrightarrow> alone s \<and> unrecorded s)) E"
  unfolding finalize_records_def
  by (rule triple_atomically [OF alone_steady])
    (use guar_refl here_running in \<open>auto simp: unrecorded_def split: reply.split\<close>)


lemma finalize_intents_triple:
  "triple guar 0 (\<lambda>s. here 0 s \<and> \<not> sv_serving s \<and> (b \<longrightarrow> alone s \<and> unrecorded s)) finalize_intents
     (\<lambda>_ s. here 0 s \<and> \<not> sv_serving s \<and> (b \<longrightarrow> alone s \<and> unrecorded s)) E"
  unfolding finalize_intents_def
  by (rule triple_atomically [OF alone_steady]) (use guar_refl here_running in \<open>auto split: reply.split\<close>)

lemma calling_steady:
  assumes "steady guar t P" and "\<And>s. P s \<Longrightarrow> running_thread t s"
  shows "triple guar t P calling (\<lambda>_. P) (\<lambda>_. P)"
  unfolding calling_def
proof (rule triple_atomically [OF assms(1)])
  show "guar t s (snd (loading (e 0) (), s)) \<and> (case fst (loading (e 0) (), s) of
      Inr a \<Rightarrow> P (snd (loading (e 0) (), s)) | Inl x \<Rightarrow> P (snd (loading (e 0) (), s)))" if "P s" for s e
    using that guar_refl [OF assms(2) [OF that]] by (simp split: sum.split)
qed

lemma clear_fence_triple:
  "triple guar 0 (\<lambda>s. here 0 s \<and> \<not> sv_serving s \<and> (True \<longrightarrow> alone s \<and> unrecorded s)) clear_fence (\<lambda>_. here 0) E"
  unfolding clear_fence_def
proof (rule triple_atomically [OF alone_steady], goal_cases)
  case (1 s e)
  then have h: "here 0 s" and a: "alone s" and u: "unrecorded s" by simp_all
  have i: "epoch_inv s" using h by (simp add: here_def)
  have none: "wo_provider s g \<noteq> Present" for g
    using i u by (auto simp: epoch_inv_def recorded_def unrecorded_def)
  have step: "guar 0 s (s\<lparr>du_fence := None, sv_fence := f\<rparr>)" "here 0 (s\<lparr>du_fence := None, sv_fence := f\<rparr>)" for f
  proof -
    have "epoch_inv (s\<lparr>du_fence := None, sv_fence := f\<rparr>)" using i a none by (simp add: inv_defs alone_def)
    then show "guar 0 s (s\<lparr>du_fence := None, sv_fence := f\<rparr>)" "here 0 (s\<lparr>du_fence := None, sv_fence := f\<rparr>)"
      by (simp_all add: guar_def may_act_def lock_kept_def only_forward_def threads_kept_def guarded_def here_def running_thread_def)
  qed
  have f: "untouched s (s\<lparr>sv_fence := None\<rparr>)" by (simp add: untouched_def guarded_def)
  have d: "guar 0 s (s\<lparr>du_fence := None\<rparr>)" "here 0 (s\<lparr>du_fence := None\<rparr>)" using step [of "sv_fence s"] by simp_all
  show ?case using here0_untouched [OF f h] here0_untouched [OF untouched_refl h] step [of None] d
    by (cases "e 0") auto
qed

lemma untouched_proved [simp]: "untouched s (s\<lparr>sv_proved := False\<rparr>)"
  by (simp add: untouched_def guarded_def)

lemma finalize_triple: "triple guar 0 (\<lambda>s. here 0 s \<and> \<not> sv_serving s) finalize (\<lambda>_. here 0) (\<lambda>_. here 0)"
  unfolding finalize_def Let_def
proof (rule triple_bind [OF finalize_memory_triple], rule triple_bind [OF finalize_records_triple], rule triple_bind [OF finalize_intents_triple])
  fix memory records intents :: "string list"
  define b where "b \<longleftrightarrow> memory = [] \<and> records = []"
  let ?P = "\<lambda>s. here 0 s \<and> \<not> sv_serving s \<and> (b \<longrightarrow> alone s \<and> unrecorded s)"
  have steady: "steady guar 0 ?P" by (rule alone_steady)
  have running: "\<And>s. ?P s \<Longrightarrow> running_thread 0 s" by (auto intro: here_running)
  have c: "triple guar 0 ?P calling (\<lambda>_. ?P) (\<lambda>_. ?P)" by (rule calling_steady [OF steady]) (rule running)
  have u: "triple guar 0 ?P (noting (\<lambda>_. True) (thenT calling calling)) (\<lambda>_. ?P) (\<lambda>_. here 0)"
    by (rule triple_weaken [OF noting_triple [OF triple_then [OF c c]]]) simp_all
  have o: "triple guar 0 ?P (noting (\<lambda>_. True) calling) (\<lambda>_. ?P) (\<lambda>_. here 0)"
    by (rule triple_weaken [OF noting_triple [OF c]]) simp_all
  have r: "triple guar 0 ?P (if go then noting (\<lambda>_. True) calling else returnT []) (\<lambda>_. ?P) (\<lambda>_. here 0)" for go
    using o by (auto intro: triple_return steady)
  have p: "triple guar 0 ?P (reading sv_proved) (\<lambda>_. ?P) (\<lambda>_. here 0)"
    by (rule reading_triple [OF steady]) (rule running)
  have f: "triple guar 0 ?P (if proved \<and> errors = [] then clear_fence else returnT []) (\<lambda>_. here 0) (\<lambda>_. here 0)"
    if "errors = [] \<Longrightarrow> b" for proved and errors :: "string list"
    using that by (auto intro: triple_return triple_weaken [OF clear_fence_triple])
  have e: "(memory @ records @ intents @ scopes @ unlinking) @ releasing = [] \<Longrightarrow> b" for scopes unlinking releasing
    by (simp add: b_def)
  show "triple guar 0 (\<lambda>s. here 0 s \<and> \<not> sv_serving s \<and> (memory = [] \<and> records = [] \<longrightarrow> alone s \<and> unrecorded s))
    (bindT (noting (\<lambda>_. True) calling) (\<lambda>scopes.
     bindT (noting (\<lambda>_. True) (thenT calling calling)) (\<lambda>unlinking. bindT (reading sv_proved) (\<lambda>proved.
       bindT (if proved \<and> memory @ records @ intents @ scopes @ unlinking = [] then noting (\<lambda>_. True) calling else returnT []) (\<lambda>releasing.
       bindT (if proved \<and> (memory @ records @ intents @ scopes @ unlinking) @ releasing = [] then clear_fence else returnT []) (\<lambda>clearing.
         provided ((memory @ records @ intents @ scopes @ unlinking) @ releasing @ clearing \<noteq> []) (update (\<lambda>s. s\<lparr>sv_proved := False\<rparr>))))))))
    (\<lambda>_. here 0) (\<lambda>_. here 0)"
    unfolding b_def [symmetric]
    by (rule triple_bind [OF o triple_bind [OF u triple_bind [OF p triple_bind [OF r triple_bind [OF f local_provided]]]]])
      (erule e, auto intro: local_update)
qed

lemma not_serving_kept: "kept (\<lambda>s. \<not> sv_serving s)"
  by (auto simp: kept_def guar_def threads_kept_def)

lemma serve_end_triple: "triple guar 0 (here 0) serve_end (\<lambda>_. here 0) (\<lambda>_. here 0)"
  unfolding serve_end_def
proof (rule triple_then)
  show "triple guar 0 (here 0) (update (\<lambda>s. s\<lparr>sv_serving := False, sv_stop := True\<rparr>)) (\<lambda>_ s. here 0 s \<and> \<not> sv_serving s) (\<lambda>_. here 0)"
  proof (rule triple_update)
    fix s
    assume h: "here 0 s"
    then have "epoch_inv (s\<lparr>sv_serving := False, sv_stop := True\<rparr>)" by (simp add: here_def inv_defs)
    then show "guar 0 s (s\<lparr>sv_serving := False, sv_stop := True\<rparr>) \<and> here 0 (s\<lparr>sv_serving := False, sv_stop := True\<rparr>) \<and>
        \<not> sv_serving (s\<lparr>sv_serving := False, sv_stop := True\<rparr>)"
      by (simp add: guar_def may_act_def lock_kept_def only_forward_def threads_kept_def guarded_def here_def running_thread_def)
  qed simp
  show "triple guar 0 (\<lambda>s. here 0 s \<and> \<not> sv_serving s)
    (bindT (reading (\<lambda>s. \<not> sv_proved s \<and> sv_leases s \<noteq> [])) (\<lambda>left. thenT (provided left (force_shutdown 0)) finalize))
    (\<lambda>_. here 0) (\<lambda>_. here 0)"
    unfolding thenT_def
    by (rule bind_kept [OF not_serving_kept reading_here bind_kept [OF not_serving_kept local_provided [OF force_shutdown_triple] finalize_triple]])
qed

section \<open>Every run of an epoch\<close>

lemma join_step:
  assumes "epoch_inv s" and "t \<noteq> 0" and "sv_serving s \<or> sv_starting s" and "b \<longrightarrow> sv_starting s"
  shows "guar t s (s\<lparr>sv_slots := n, sv_starting := b, sv_threads := insert t (sv_threads s)\<rparr>)"
    and "here t (s\<lparr>sv_slots := n, sv_starting := b, sv_threads := insert t (sv_threads s)\<rparr>)"
proof -
  have "epoch_inv (s\<lparr>sv_slots := n, sv_starting := b, sv_threads := insert t (sv_threads s)\<rparr>)"
    using assms by (auto simp: inv_defs)
  then show "guar t s (s\<lparr>sv_slots := n, sv_starting := b, sv_threads := insert t (sv_threads s)\<rparr>)"
    "here t (s\<lparr>sv_slots := n, sv_starting := b, sv_threads := insert t (sv_threads s)\<rparr>)" using assms(2,3)
    by (auto simp: guar_def may_act_def lock_kept_def only_forward_def threads_kept_def guarded_def here_def running_thread_def)
qed

lemma triple_guards: "triple G t P p (\<lambda>_ _. True) (\<lambda>_ _. True) \<Longrightarrow> P s \<Longrightarrow> guards G t p (\<lambda>_ _. True) s"
  by (auto simp: triple_def elim!: guards_weaken)

lemma triple_ignore: "triple G t P p N E \<Longrightarrow> triple G t P p (\<lambda>_ _. True) (\<lambda>_ _. True)"
  by (erule triple_weaken) simp_all

lemma starts_guarded:
  assumes "epoch_inv s" and "starts cfg t p s s'"
  shows "guar t s s' \<and> guards guar t p (\<lambda>_ _. True) s'"
  using assms(2)
proof cases
  case serving
  then have "here 0 s" using assms(1) by (simp add: here_def running_thread_def)
  then show ?thesis using serving triple_guards [OF triple_ignore [OF serve_end_triple]] guar_refl [OF here_running] by simp
next
  case (connection peer ms)
  have s': "s' = s\<lparr>sv_slots := Suc (sv_slots s), sv_starting := sv_starting s, sv_threads := insert t (sv_threads s)\<rparr>"
    using connection by simp
  show ?thesis using join_step [OF assms(1) connection(3), of "sv_starting s" "Suc (sv_slots s)"] connection(4)
      triple_guards [OF connection_main_triple [OF connection(3), of cfg peer ms]] unfolding s' connection(1) by simp
next
  case (watchdog n)
  have s': "s' = s\<lparr>sv_slots := sv_slots s, sv_starting := sv_starting s, sv_threads := insert t (sv_threads s)\<rparr>"
    using watchdog by simp
  show ?thesis using join_step [OF assms(1) watchdog(3), of "sv_starting s" "sv_slots s"] watchdog(4)
      triple_guards [OF watchdog_main_triple [OF watchdog(3), of cfg n]] unfolding s' watchdog(1) by simp
next
  case worker
  have s': "s' = s\<lparr>sv_slots := sv_slots s, sv_starting := False, sv_threads := insert t (sv_threads s)\<rparr>"
    using worker by simp
  show ?thesis using join_step [OF assms(1) worker(3), of False "sv_slots s"] worker(4)
      triple_guards [OF worker_main_triple [OF worker(3), of cfg]] unfolding s' worker(1) by simp
qed

lemma epoch_inv_new: "epoch_inv sv_new"
  by (simp add: inv_defs sv_new_def)

interpretation guaranteed_epoch: guaranteed guar epoch_inv "starts cfg" for cfg
  by unfold_locales (simp add: guar_def, rule starts_guarded)

lemma epoch_guarded: "epoch cfg s pool \<Longrightarrow> epoch_inv s"
  by (rule guaranteed_epoch.reachable_guarded(1) [OF _ epoch_inv_new])

lemma runs_forward: "epoch cfg s pool \<Longrightarrow> runs (starts cfg) s pool s' pool' \<Longrightarrow> (\<lambda>s s'. \<exists>t. guar t s s')\<^sup>*\<^sup>* s s'"
  by (rule guaranteed_epoch.later_progress [OF _ epoch_inv_new])

end
