(* ===== verification/Lifetime.thy ===== *)
theory Lifetime
  imports Epoch
begin

text \<open>
  The properties of an epoch of the supervisor, over every interleaving of its threads, and a run in
  which it serves: a wrapper registers, the worker publishes a generation, a child is attached. The
  run also shows the race between \<open>_attach_child\<close> and \<open>_drop_lease\<close>.
\<close>

section \<open>Runs of one thread\<close>

text \<open>\<open>p\<close> in state \<open>s\<close> may come to \<open>p'\<close> in \<open>s'\<close> with nobody in between.\<close>

inductive reduces :: "'s \<Rightarrow> ('s, 'a) thread \<Rightarrow> 's \<Rightarrow> ('s, 'a) thread \<Rightarrow> bool" where
  stays: "reduces s p s p"
| section_done: "g s \<Longrightarrow> reduces (f e s) (k e s) s' p' \<Longrightarrow> reduces s (Section g f k) s' p'"

lemma reduces_trans: "reduces s p s' p' \<Longrightarrow> reduces s' p' s'' p'' \<Longrightarrow> reduces s p s'' p''"
  by (induction rule: reduces.induct) (auto intro: section_done)

lemma reduces_handle: "reduces s p s' p' \<Longrightarrow> reduces s (handleT p h) s' (handleT p' h)"
  by (induction rule: reduces.induct) (auto intro: reduces.intros)

lemma runs_reduces:
  "reduces s p s' p' \<Longrightarrow> runs spawns s0 pool0 s pool \<Longrightarrow> pool t = Some p \<Longrightarrow> runs spawns s0 pool0 s' (pool(t \<mapsto> p'))"
proof (induction arbitrary: pool rule: reduces.induct)
  case (stays s p)
  then show ?case by (simp add: fun_upd_idem)
next
  case (section_done g s f e k s' p')
  from runs.section_of [OF section_done.prems(1) section_done.prems(2) section_done.hyps(1), of e]
  have "runs spawns s0 pool0 (f e s) (pool(t \<mapsto> k e s))" .
  from section_done.IH [OF this fun_upd_same] show ?case by (simp only: fun_upd_upd)
qed

lemma reduces_await: "g s \<Longrightarrow> f e s = (r, s') \<Longrightarrow> reduces s (await g f) s' (Finished r)"
  unfolding await_def by (rule section_done [where e = e]) (auto intro: stays)

lemma reduces_atomically: "f e s = (r, s') \<Longrightarrow> reduces s (atomically f) s' (Finished r)"
  unfolding atomically_def by (rule reduces_await) simp_all

lemma reduces_update: "f s = s' \<Longrightarrow> reduces s (update f) s' (returnT ())"
  unfolding update_def by (rule reduces_atomically) simp

lemma reduces_reading: "reduces s (reading f) s (returnT (f s))"
  unfolding reading_def by (rule reduces_atomically) simp

lemma reduces_chooses: "reduces s chooses s (returnT b)"
  unfolding chooses_def by (rule reduces_atomically [where e = "\<lambda>_. if b then Works 0 else Fails OSError"]) simp

lemma reduces_calling: "reduces s calling s (returnT ())"
  unfolding calling_def by (rule reduces_atomically [where e = "\<lambda>_. Works 0"]) simp

lemma bind_inside: "reduces s p s' p' \<Longrightarrow> reduces s (bindT p f) s' (bindT p' f)"
  and catch_inside: "reduces s p s' p' \<Longrightarrow> reduces s (catchT p caught k) s' (catchT p' caught k)"
  and finally_inside: "reduces s p s' p' \<Longrightarrow> reduces s (finallyT p q) s' (finallyT p' q)"
  unfolding bindT_def catchT_def finallyT_def by (rule reduces_handle, assumption)+

lemma then_inside: "reduces s q s' q' \<Longrightarrow> reduces s (thenT q r) s' (thenT q' r)"
  unfolding thenT_def by (rule bind_inside)

lemma handle_done: "handleT (Finished r) h = h r" and bind_done: "bindT (returnT a) f = f a"
  and finally_done: "finallyT (Finished r) q = bindT q (\<lambda>_. Finished r)"
  by (simp_all add: bindT_def finallyT_def)

lemma then_done: "thenT (returnT ()) q = q" and catch_done: "catchT (returnT a) caught k = returnT a"
  by (simp_all add: bindT_def thenT_def catchT_def)

lemma reduces_bind: "reduces s p s1 (returnT a) \<Longrightarrow> reduces s1 (f a) s' q \<Longrightarrow> reduces s (bindT p f) s' q"
  using reduces_trans [OF bind_inside] by (metis bind_done)

lemma reduces_then: "reduces s p s1 (returnT ()) \<Longrightarrow> reduces s1 r s' q \<Longrightarrow> reduces s (thenT p r) s' q"
  using reduces_trans [OF then_inside] by (metis then_done)

lemma reduces_handled: "reduces s p s1 (Finished r) \<Longrightarrow> reduces s1 (h r) s' q \<Longrightarrow> reduces s (handleT p h) s' q"
  using reduces_trans [OF reduces_handle] by (metis handle_done)

section \<open>A run that serves\<close>

definition sample_settings :: settings where
  "sample_settings = \<lparr>se_release_id = ''r1'', se_owner_epoch = ''epoch1'', se_expected_digest = replicate 64 (CHR ''a''),
     se_control_cap = 16, se_needs_executable = False, se_watchdog_failures = 1, se_sha = (\<lambda>_. replicate 64 (CHR ''a'')),
     se_status = (\<lambda>_. JNull), se_egress = (\<lambda>_. [])\<rparr>"

definition sample_identity :: json where
  "sample_identity = JObj [(''pid'', JInt 7), (''pid_start_ticks'', JInt 100),
     (''boot_id'', JStr ''11111111-2222-3333-4444-555555555555'')]"

definition sample_register :: payload where
  "sample_register = [(''type'', JStr ''register''), (''schema_version'', JInt SCHEMA_VERSION), (''protocol_version'', JInt PROTOCOL_VERSION),
     (''request_id'', JStr ''q1''), (''lease_nonce'', JStr (replicate 32 (CHR ''0''))), (''wrapper'', sample_identity),
     (''contract'', route_contract_to_dict sample_contract)]"

definition sample_lease_id :: string where
  "sample_lease_id = replicate 32 (CHR ''0'')"

definition sample_attach :: payload where
  "sample_attach = [(''type'', JStr ''attach-child''), (''schema_version'', JInt SCHEMA_VERSION), (''protocol_version'', JInt PROTOCOL_VERSION),
     (''request_id'', JStr ''q2''), (''owner_epoch'', JStr ''epoch1''), (''lease_id'', JStr sample_lease_id), (''child'', sample_identity)]"


definition sample_process :: process_identity where
  "sample_process = \<lparr>pi_pid = 7, pi_start_ticks = 100, pi_boot_id = ''11111111-2222-3333-4444-555555555555''\<rparr>"

lemma sample_register_key: "replay_key sample_register = Inr (''register'', Some [''register'', ''q1''])"
  by code_simp

lemma sample_attach_key:
  "replay_key sample_attach = Inr (''attach-child'', Some [''attach-child'', ''epoch1'', sample_lease_id, ''q2''])"
  by code_simp

lemma sample_register_parsed:
  "parse_register sample_settings sample_register 0 7 = Inr (''q1'', replicate 32 (CHR ''0''), sample_process)"
  by code_simp

lemma sample_attach_parsed:
  "parse_attach sample_settings sample_attach 1 = Inr (''q2'', sample_lease_id, sample_process)"
  by code_simp

lemma sample_contract_read: "request_contract (get_field sample_register ''contract'') = Inr sample_contract"
proof -
  have "get_field sample_register ''contract'' = route_contract_to_dict sample_contract"
    by (simp add: get_field_def sample_register_def)
  moreover have "route_contract_from_dict (route_contract_to_dict sample_contract) ''contract'' = Inr sample_contract"
    using route_contract_load_iff [OF route_contract_dump_wf [OF sample_contract_ok]] sample_contract_ok by blast
  ultimately show ?thesis by (simp add: request_contract_def catchE_def)
qed

lemma sample_digest: "route_contract_digest (se_sha sample_settings) c = replicate 64 (CHR ''a'')"
  by (simp add: route_contract_digest_def sample_settings_def)

lemma sample_id: "hex_digits 32 0 = sample_lease_id"
  by code_simp

lemma sample_frontend_new: "\<exists>fe. contract_frontend sample_contract = Inr fe"
proof -
  have "case contract_frontend sample_contract of Inr fe \<Rightarrow> True | Inl x \<Rightarrow> False" by code_simp
  then show ?thesis by (auto split: sum.splits)
qed

lemma sample_candidate: "\<exists>cg. candidate (se_sha sample_settings) sample_contract 1 0 = Inr cg"
proof -
  have "case candidate (se_sha sample_settings) sample_contract 1 0 of Inr cg \<Rightarrow> True | Inl x \<Rightarrow> False" by code_simp
  then show ?thesis by (auto split: sum.splits)
qed


subsection \<open>The wrapper registers\<close>

definition sample_fingerprint :: string where
  "sample_fingerprint = replicate 64 (CHR ''a'')"

definition after_answer :: "message list \<Rightarrow> payload \<Rightarrow> (supervisor, unit) thread" where
  "after_answer ms response = bindT chooses (\<lambda>sent.
     if \<not> sent then returnT ()
     else if get_field response ''shutdown'' = JBool True then update (\<lambda>s. s\<lparr>sv_stop := True\<rparr>)
     else serve_messages sample_settings 1 7 ms)"

lemma serve_step:
  assumes "\<not> sv_stop s"
  shows "reduces s (serve_messages sample_settings 1 7 ((kvs, d, n) # ms)) s
    (bindT (handle_message sample_settings 1 7 n kvs d) (after_answer ms))"
  unfolding serve_messages.simps
  by (rule reduces_bind [OF reduces_reading]) (use assms in \<open>simp add: stays after_answer_def [abs_def]\<close>)

lemma handle_step:
  assumes "replay_key kvs = Inr (kind, Some key)" and "map_of (sv_replays s) key = None"
  shows "reduces s (handle_message sample_settings 1 7 n kvs d) s
    (handleT (dispatch sample_settings 1 7 n kind kvs d) (respond 1 sample_fingerprint kvs (Some key)))"
proof -
  have "reduces s (atomically (\<lambda>_. lookup_replay key 1 sample_fingerprint)) s (returnT None)"
    by (rule reduces_atomically) (simp add: lookup_replay_def assms(2))
  moreover have "se_sha sample_settings x = sample_fingerprint" for x by (simp add: sample_settings_def sample_fingerprint_def)
  ultimately show ?thesis
    unfolding handle_message_def Let_def assms(1)
    by (simp only: sum.case prod.case option.case) (rule reduces_handled, assumption, simp only: sum.case option.case, rule stays)
qed

definition sample_lease :: lease where
  "sample_lease = \<lparr>le_id = sample_lease_id, le_nonce = replicate 32 (CHR ''0''), le_request_id = ''q1'', le_connection = 1,
     le_wrapper = sample_process, le_digest = replicate 64 (CHR ''a''), le_leader = hex_digits 12 0, le_live = False, le_child = None\<rparr>"

definition run_opened :: supervisor where
  "run_opened = sv_new\<lparr>sv_slots := 1, sv_threads := {1}, sv_connections := [(1, \<lparr>co_peer_pid = 7, co_leases = []\<rparr>)]\<rparr>"

definition run_admitted :: supervisor where
  "run_admitted = run_opened\<lparr>sv_connections := [(1, \<lparr>co_peer_pid = 7, co_leases = [sample_lease_id]\<rparr>)],
     sv_contract := Some sample_contract, sv_digest := Some (replicate 64 (CHR ''a'')), sv_leases := [sample_lease], sv_issued := 1,
     sv_worker := True, sv_starting := True\<rparr>"

definition waiting :: "bool \<Rightarrow> (supervisor, unit) thread" where
  "waiting peer_closed = (if peer_closed then bindT (drop_lease sample_lease_id True) (\<lambda>_.
         raiseT EpochDraining ''registration peer closed during provider transition'')
       else ensure_generation sample_lease_id (Suc 0))"

definition registering :: "unit result \<Rightarrow> (supervisor, payload) thread" where
  "registering r = (case r of Inl primary \<Rightarrow> abandon_register 1 sample_lease_id primary
     | Inr _ \<Rightarrow> registered sample_settings ''q1'' sample_lease_id)"

lemma reduces_refuse: "reduces s (refuse_unless m) s (returnT ())"
  unfolding refuse_unless_def
  by (rule reduces_bind [OF reduces_chooses [of s True]]) (simp add: raise_if_def stays)

lemma register_step:
  "reduces run_opened (register sample_settings 1 7 2 sample_register 0) run_admitted
     (handleT (bindT chooses waiting) registering)"
proof -
  have parsed: "from_pure (parse_register sample_settings sample_register 0 7) =
      returnT (''q1'', replicate 32 (CHR ''0''), sample_process)"
    by (simp only: sample_register_parsed)
  let ?mid = "run_admitted\<lparr>sv_worker := False, sv_starting := False\<rparr>"
  let ?rg = "\<lparr>rg_request_id = ''q1'', rg_nonce = replicate 32 (CHR ''0''), rg_wrapper = sample_process, rg_contract = sample_contract\<rparr>"
  have check: "reduces run_opened (atomically (\<lambda>_ s. (check_contract sample_settings sample_contract s, s))) run_opened (returnT ())"
    by (rule reduces_atomically)
      (simp add: check_contract_def run_opened_def sv_new_def sample_digest; simp add: sample_settings_def sample_contract_def raise_if_def)
  have admit: "reduces run_opened (admit_lease sample_settings 1 ?rg) ?mid (returnT sample_lease_id)"
    unfolding admit_lease_def
    by (rule reduces_atomically [where e = "\<lambda>_. Works 0"])
      (simp add: sample_digest Let_def run_opened_def sv_new_def context_leases_def connection_of_def own_lease_def
        run_admitted_def sample_lease_def sample_id; simp add: sample_contract_def sample_settings_def)
  have no_executable: "provided (se_needs_executable sample_settings) p = returnT ()" for p
    by (simp add: sample_settings_def provided_def)
  have reg: "(\<lambda>r. case r of Inl primary \<Rightarrow> abandon_register 1 sample_lease_id primary
     | Inr _ \<Rightarrow> registered sample_settings ''q1'' sample_lease_id) = registering"
    by (rule ext) (simp add: registering_def)
  have start: "reduces ?mid (generation_state sample_lease_id) run_admitted (returnT False)"
    unfolding generation_state_def
    by (rule reduces_atomically [where e = "\<lambda>_. Works 0"])
      (simp add: find_lease_def run_admitted_def run_opened_def sv_new_def sample_lease_def)
  have wait: "reduces ?mid (ensure_generation sample_lease_id 2) run_admitted (bindT chooses waiting)"
    unfolding numeral_2_eq_2 ensure_generation.simps(2) [of _ "Suc 0"]
    by (rule reduces_bind [OF start]) (simp only: if_False waiting_def [abs_def], rule stays)
  show ?thesis
    unfolding register_def parsed bind_done prod.case sample_contract_read no_executable then_done
    by (rule reduces_then [OF reduces_refuse], rule reduces_then [OF reduces_refuse], rule reduces_then [OF check],
        rule reduces_bind [OF admit])
      (unfold reg, rule reduces_handle [OF wait])
qed


definition sample_messages :: "message list" where
  "sample_messages = [(sample_register, 0, 2), (sample_attach, 1, 0)]"

text \<open>The connection while its registration waits for a generation.\<close>

definition registering_connection :: "(supervisor, unit) thread" where
  "registering_connection = finallyT (bindT (handleT (handleT (bindT chooses waiting) registering)
     (respond 1 sample_fingerprint sample_register (Some [''register'', ''q1'']))) (after_answer [(sample_attach, 1, 0)])) (end_connection 1)"

lemma connection_waits:
  "reduces (sv_new\<lparr>sv_slots := 1, sv_threads := {1}\<rparr>) (connection_main sample_settings 1 7 sample_messages) run_admitted registering_connection"
proof -
  have opened: "reduces (sv_new\<lparr>sv_slots := 1, sv_threads := {1}\<rparr>) (open_connection sample_settings 1 7) run_opened (returnT True)"
    unfolding open_connection_def
    by (rule reduces_atomically) (simp add: control_cap_def run_opened_def sv_new_def sample_settings_def)
  have stop: "\<not> sv_stop run_opened" and replays: "map_of (sv_replays run_opened) k = None" for k
    by (simp_all add: run_opened_def sv_new_def)
  have d: "dispatch sample_settings 1 7 2 ''register'' sample_register 0 = register sample_settings 1 7 2 sample_register 0"
    by (simp add: dispatch_def)
  have "reduces run_opened (handle_message sample_settings 1 7 2 sample_register 0) run_admitted
      (handleT (handleT (bindT chooses waiting) registering) (respond 1 sample_fingerprint sample_register (Some [''register'', ''q1''])))"
    by (rule reduces_trans [OF handle_step [OF sample_register_key replays]], unfold d, rule reduces_handle [OF register_step])
  then have "reduces run_opened (serve_messages sample_settings 1 7 sample_messages) run_admitted
      (bindT (handleT (handleT (bindT chooses waiting) registering) (respond 1 sample_fingerprint sample_register (Some [''register'', ''q1''])))
        (after_answer [(sample_attach, 1, 0)]))"
    unfolding sample_messages_def by (rule reduces_trans [OF serve_step [OF stop] bind_inside])
  then have "reduces (sv_new\<lparr>sv_slots := 1, sv_threads := {1}\<rparr>)
      (bindT (open_connection sample_settings 1 7) (\<lambda>admitted. provided admitted (serve_messages sample_settings 1 7 sample_messages)))
      run_admitted (bindT (handleT (handleT (bindT chooses waiting) registering) (respond 1 sample_fingerprint sample_register (Some [''register'', ''q1''])))
        (after_answer [(sample_attach, 1, 0)]))"
    by (intro reduces_bind [OF opened]) (simp add: provided_def)
  then show ?thesis
    unfolding connection_main_def registering_connection_def by (rule finally_inside)
qed

subsection \<open>The worker publishes a generation\<close>

definition reaches :: "'s \<Rightarrow> ('s, 'a) thread \<Rightarrow> 's \<Rightarrow> bool" where
  "reaches s p s' \<longleftrightarrow> (\<exists>p'. reduces s p s' p')"

lemma reaches_handle: "reaches s p s' \<Longrightarrow> reaches s (handleT p h) s'"
  unfolding reaches_def by (blast intro: reduces_handle)

lemma reaches_inside: "reaches s p s' \<Longrightarrow> reaches s (bindT p f) s'" "reaches s q s' \<Longrightarrow> reaches s (thenT q r) s'"
    "reaches s p s' \<Longrightarrow> reaches s (finallyT p final) s'"
  unfolding bindT_def thenT_def finallyT_def by (rule reaches_handle, assumption)+

lemma reaches_bind: "reduces s p s1 (returnT a) \<Longrightarrow> reaches s1 (f a) s' \<Longrightarrow> reaches s (bindT p f) s'"
  unfolding reaches_def by (blast intro: reduces_bind)

lemma reaches_then: "reduces s p s1 (returnT ()) \<Longrightarrow> reaches s1 q s' \<Longrightarrow> reaches s (thenT p q) s'"
  unfolding reaches_def by (blast intro: reduces_then)

lemma reaches_handled: "reduces s p s1 (Finished r) \<Longrightarrow> reaches s1 (h r) s' \<Longrightarrow> reaches s (handleT p h) s'"
  unfolding reaches_def by (blast intro: reduces_handled)

lemma reaches_done: "reduces s p s' q \<Longrightarrow> reaches s p s'"
  by (auto simp: reaches_def)

definition run_working :: supervisor where
  "run_working = run_admitted\<lparr>sv_starting := False, sv_threads := {2, 1}, sv_lock := Some 2, sv_frontend := True,
     sv_generation := 1, sv_transition := Some 0\<rparr>"

text \<open>The provider was started; nothing else is known of it than its records.\<close>

definition run_started :: supervisor where
  "run_started = set_world 1 Present (set_intent 1 (Some Prepared) (set_provider 1 (Some Prepared) run_working))"

definition sample_committed :: committed_generation where
  "sample_committed = (case candidate (se_sha sample_settings) sample_contract 1 0 of Inr cg \<Rightarrow> cg)"

definition run_open :: supervisor where
  "run_open = (set_intent 1 (Some Applied) (set_provider 1 (Some Applied) run_started))\<lparr>du_fence := Some Ready, sv_fence := Some Ready,
     sv_gate := Some sample_committed, sv_active := Some (1, ''home:desk''), sv_phase := Ready, sv_transition := None\<rparr>"

definition run_published :: supervisor where
  "run_published = run_open\<lparr>sv_lock := None\<rparr>"

abbreviation working :: replies where
  "working \<equiv> \<lambda>_. Works 0"

lemmas run_simps = run_published_def run_open_def run_started_def run_working_def run_admitted_def run_opened_def sv_new_def
  set_world_def set_intent_def set_provider_def

lemma worker_publishes:
  "reaches (run_admitted\<lparr>sv_starting := False, sv_threads := {2, 1}\<rparr>) (worker_main sample_settings 2) run_published"
proof -
  let ?s = "run_admitted\<lparr>sv_starting := False, sv_threads := {2, 1}\<rparr>"
  let ?locked = "?s\<lparr>sv_lock := Some 2\<rparr>"
  let ?front = "?locked\<lparr>sv_frontend := True\<rparr>"
  have lock: "reduces ?s (acquire 2) ?locked (returnT ())"
    unfolding acquire_def by (rule reduces_await) (simp_all add: run_simps)
  have begins: "reduces ?locked begin_transition ?locked (returnT (Some sample_contract))"
    unfolding begin_transition_def by (rule reduces_atomically) (simp add: run_simps)
  obtain fe where fe: "contract_frontend sample_contract = Inr fe" using sample_frontend_new by blast
  have front: "reduces ?locked (ensure_frontend sample_contract) ?front (returnT ())"
    unfolding ensure_frontend_def
    by (rule reduces_atomically [where e = working])
      (simp add: run_simps fe; simp add: effective_streams_def sample_contract_def)
  have alloc: "reduces ?front allocate run_working (returnT (1, 0))"
    unfolding allocate_def by (rule reduces_atomically [where e = working]) (simp add: run_simps)
  have put1: "reduces run_working (put_provider 1) (set_provider 1 (Some Prepared) run_working) (returnT ())"
    unfolding put_provider_def by (rule reduces_atomically [where e = working]) (simp add: run_simps)
  have put2: "reduces (set_provider 1 (Some Prepared) run_working) (put_intent 1)
      (set_intent 1 (Some Prepared) (set_provider 1 (Some Prepared) run_working)) (returnT ())"
    unfolding put_intent_def by (rule reduces_atomically [where e = working]) (simp add: run_simps)
  have start: "reduces (set_intent 1 (Some Prepared) (set_provider 1 (Some Prepared) run_working)) (start_provider 1) run_started (returnT ())"
    unfolding start_provider_def by (rule reduces_atomically [where e = working]) (simp add: run_started_def)
  have apply1: "reduces run_started (replace_provider 1 Applied) (set_provider 1 (Some Applied) run_started) (returnT ())"
    unfolding replace_provider_def by (rule reduces_atomically [where e = working]) simp
  have apply2: "reduces (set_provider 1 (Some Applied) run_started) (advance_intent 1 Prepared Applied)
      (set_intent 1 (Some Applied) (set_provider 1 (Some Applied) run_started)) (returnT ())"
    unfolding advance_intent_def by (rule reduces_atomically [where e = working]) (simp add: run_simps)
  have cg: "Finished (candidate (se_sha sample_settings) sample_contract 1 0) = returnT sample_committed"
    using sample_candidate by (auto simp: sample_committed_def)
  have publish: "reduces (set_intent 1 (Some Applied) (set_provider 1 (Some Applied) run_started))
      (publish 1 ''home:desk'' 0 sample_committed (replicate 64 (CHR ''a''))) run_open (returnT ())"
    unfolding publish_def
    by (rule reduces_atomically [where e = working]) (simp add: run_simps set_fence_phase_def)
  have commit: "reduces run_started (thenT (replace_provider 1 Applied) (thenT (advance_intent 1 Prepared Applied)
      (bindT (Finished (candidate (se_sha sample_settings) sample_contract 1 0)) (\<lambda>cg. publish 1 ''home:desk'' 0 cg (replicate 64 (CHR ''a''))))))
      run_open (returnT ())"
    unfolding cg bind_done by (rule reduces_then [OF apply1 reduces_then [OF apply2 publish]])
  have attempt: "reduces (set_intent 1 (Some Prepared) (set_provider 1 (Some Prepared) run_working))
      (attempt sample_settings sample_contract 1 ''home:desk'' 0) run_open (returnT True)"
    unfolding attempt_def sample_digest
    by (rule reduces_handled [OF start], unfold sum.case, rule reduces_handled [OF commit], unfold sum.case, rule stays)
  have tries: "reduces ?front (transition_candidates sample_settings sample_contract (''home:desk'' # rungs)) run_open (returnT ())" for rungs
  proof -
    have "starts_with ''home:desk'' ''ios:'' = False" by code_simp
    then show ?thesis
      unfolding transition_candidates.simps
      by (simp only: if_False bind_done simp_thms)
        (rule reduces_bind [OF alloc], unfold prod.case, rule reduces_then [OF put1], rule reduces_then [OF put2],
         rule reduces_bind [OF attempt], unfold if_True, rule stays)
  qed
  have "rc_ladder sample_contract = [''home:desk'', ''ios:phone'', ''vpn'']" by (simp add: sample_contract_def)
  then have go: "reduces ?locked (initial_transition sample_settings) run_open (returnT ())"
    unfolding initial_transition_def
    by (intro reduces_bind [OF begins]) (simp only: option.case, rule reduces_then [OF front], rule tries)
  have "reduces run_open release_lock run_published (returnT ())"
    unfolding release_lock_def run_published_def by (rule reduces_update) simp
  then have "reaches run_open (finallyT (returnT ()) release_lock) run_published"
    unfolding finally_done by (intro reaches_inside reaches_done)
  then have "reaches ?locked (finallyT (initial_transition sample_settings) release_lock) run_published"
    unfolding reaches_def using reduces_trans [OF finally_inside [OF go]] by blast
  then show ?thesis
    unfolding worker_main_def locked_def by (intro reaches_handle reaches_then [OF lock])
qed

subsection \<open>The child is attached\<close>

abbreviation attach_key :: "string list" where
  "attach_key \<equiv> [''attach-child'', ''epoch1'', sample_lease_id, ''q2'']"

definition run_attached :: "(string list \<times> replay) list \<Rightarrow> supervisor" where
  "run_attached reps = set_child sample_lease_id (Some C_attached) (set_scope sample_lease_id Present (run_published\<lparr>sv_replays := reps\<rparr>))"

definition attach_response :: payload where
  "attach_response = [(''ok'', JBool True), (''type'', JStr ''attached''), (''request_id'', JStr ''q2''),
     (''owner_epoch'', JStr (se_owner_epoch sample_settings)), (''lease_id'', JStr sample_lease_id), (''state'', JStr ''live'')]"

text \<open>The connection before it acknowledges the child: the scope exists and is recorded.\<close>

definition attaching_connection :: "(supervisor, unit) thread" where
  "attaching_connection = finallyT (bindT (handleT (thenT (catchT (acknowledge_child 1 sample_lease_id sample_process)
     (\<lambda>_. True) (undo_attach sample_lease_id)) (returnT attach_response)) (respond 1 sample_fingerprint sample_attach (Some attach_key)))
     (after_answer [])) (end_connection 1)"

lemma finish_step:
  assumes "sv_phase s \<noteq> Draining"
  shows "reduces s (respond 1 f kvs (Some key) (Inr response)) (save_replay key 1 f response s) (returnT response)"
proof -
  have "reduces s (finish_message 1 f (Some key) response) (save_replay key 1 f response s) (returnT response)"
    unfolding finish_message_def
    by (rule reduces_bind [OF reduces_reading])
      (use assms in \<open>auto intro!: reduces_then [OF reduces_update] stays\<close>)
  then show ?thesis by (simp add: respond_def)
qed

lemma registration_answered:
  "\<exists>reps. map_of reps attach_key = None \<and> reduces run_published registering_connection (run_published\<lparr>sv_replays := reps\<rparr>)
     (finallyT (serve_messages sample_settings 1 7 [(sample_attach, 1, 0)]) (end_connection 1))"
proof -
  have found: "find_lease sample_lease_id run_published = Some sample_lease"
    by (simp add: find_lease_def run_simps sample_lease_def)
  have waits: "reduces run_published (bindT chooses waiting) run_published (returnT ())"
  proof (rule reduces_bind [OF reduces_chooses [of _ False]])
    have "reduces run_published (generation_state sample_lease_id) run_published (returnT True)"
      unfolding generation_state_def by (rule reduces_atomically) (simp add: found; simp add: run_simps)
    from reduces_bind [OF this, where f = "\<lambda>ready. if ready then returnT () else q" for q]
    show "reduces run_published (waiting False) run_published (returnT ())"
      unfolding waiting_def by (auto intro!: reduces_bind [OF \<open>reduces run_published (generation_state sample_lease_id) run_published (returnT True)\<close>] stays)
  qed
  obtain response where answer: "reduces run_published (registered sample_settings ''q1'' sample_lease_id) run_published (returnT response)"
    "get_field response ''shutdown'' = JNull"
  proof
    show "reduces run_published (registered sample_settings ''q1'' sample_lease_id) run_published
      (returnT [(''ok'', JBool True), (''type'', JStr ''registered''), (''request_id'', JStr ''q1''),
                (''owner_epoch'', JStr (se_owner_epoch sample_settings)), (''lease_id'', JStr sample_lease_id), (''leader_path'', JStr (le_leader sample_lease)),
                (''public_endpoint'', endpoint_to_dict (rc_public_endpoint sample_contract)), (''contract_digest'', JStr (le_digest sample_lease)),
                (''state'', JStr ''provisional'')])"
      unfolding registered_def by (rule reduces_atomically) (simp add: found; simp add: run_simps)
  qed (simp add: get_field_def)
  define s where "s = save_replay [''register'', ''q1''] 1 sample_fingerprint response run_published"
  have s: "s = run_published\<lparr>sv_replays := sv_replays s\<rparr>" "map_of (sv_replays s) attach_key = None"
    by (simp_all add: s_def save_replay_def Let_def run_simps move_to_end_def MAX_REPLAYS_def)
  have "reduces run_published (handleT (handleT (bindT chooses waiting) registering)
     (respond 1 sample_fingerprint sample_register (Some [''register'', ''q1'']))) s (returnT response)"
  proof (rule reduces_handled)
    show "reduces run_published (handleT (bindT chooses waiting) registering) run_published (returnT response)"
      by (rule reduces_handled [OF waits]) (simp add: registering_def answer)
    show "reduces run_published (respond 1 sample_fingerprint sample_register (Some [''register'', ''q1'']) (Inr response)) s (returnT response)"
      unfolding s_def by (rule finish_step) (simp add: run_simps)
  qed
  moreover have "reduces s (after_answer [(sample_attach, 1, 0)] response) s (serve_messages sample_settings 1 7 [(sample_attach, 1, 0)])"
    unfolding after_answer_def by (rule reduces_bind [OF reduces_chooses [of _ True]]) (simp add: answer(2) stays)
  ultimately have "reduces run_published registering_connection s
      (finallyT (serve_messages sample_settings 1 7 [(sample_attach, 1, 0)]) (end_connection 1))"
    unfolding registering_connection_def by (intro finally_inside reduces_bind)
  then show ?thesis using s by metis
qed

lemma child_attaches:
  assumes "map_of reps attach_key = None"
  shows "reduces (run_published\<lparr>sv_replays := reps\<rparr>) (finallyT (serve_messages sample_settings 1 7 [(sample_attach, 1, 0)]) (end_connection 1))
    (run_attached reps) attaching_connection"
proof -
  let ?s = "run_published\<lparr>sv_replays := reps\<rparr>"
  have stop: "\<not> sv_stop ?s" and replays: "map_of (sv_replays ?s) attach_key = None" using assms by (simp_all add: run_simps)
  have d: "dispatch sample_settings 1 7 0 ''attach-child'' sample_attach 1 = attach_child sample_settings 1 sample_attach 1"
    by (simp add: dispatch_def)
  have parsed: "from_pure (parse_attach sample_settings sample_attach 1) = returnT (''q2'', sample_lease_id, sample_process)"
    by (simp only: sample_attach_parsed)
  have provisional: "reduces ?s (provisional_lease 1 sample_lease_id) ?s (returnT ())"
    unfolding provisional_lease_def
    by (rule reduces_atomically) (simp add: owned_lease_def find_lease_def run_simps sample_lease_def raise_if_def)
  let ?put = "set_child sample_lease_id (Some C_prepared) ?s"
  have put: "reduces ?s (put_child sample_lease_id) ?put (returnT ())"
    unfolding put_child_def by (rule reduces_atomically [where e = working]) (simp add: run_simps)
  let ?made = "set_scope sample_lease_id Present ?put"
  have made: "reduces ?put (create_scope sample_lease_id) ?made (returnT ())"
    unfolding create_scope_def by (rule reduces_atomically [where e = working]) simp
  have rep: "reduces s (replace_child sample_lease_id p) (set_child sample_lease_id (Some p) s) (returnT ())" for s p
    unfolding replace_child_def by (rule reduces_atomically [where e = working]) simp
  have same: "set_child sample_lease_id (Some C_attached) (set_child sample_lease_id (Some C_scope_created) ?made) = run_attached reps"
    by (simp add: run_attached_def set_child_def set_scope_def)
  have scope: "reduces ?put (attach_scope 1 sample_lease_id sample_process) (run_attached reps) (acknowledge_child 1 sample_lease_id sample_process)"
    unfolding attach_scope_def
    by (rule reduces_then [OF made], rule reduces_then [OF rep], rule reduces_then [OF reduces_calling], rule reduces_then [OF rep])
      (unfold same, rule stays)
  have "reduces ?s (attach_child sample_settings 1 sample_attach 1) (run_attached reps)
      (thenT (catchT (acknowledge_child 1 sample_lease_id sample_process) (\<lambda>_. True) (undo_attach sample_lease_id)) (returnT attach_response))"
    unfolding attach_child_def parsed bind_done prod.case attach_response_def
    by (rule reduces_then [OF provisional], rule reduces_then [OF reduces_refuse], rule reduces_then [OF reduces_calling],
        rule reduces_then [OF reduces_refuse], rule reduces_then [OF reduces_refuse], rule reduces_then [OF reduces_calling],
        rule reduces_then [OF put], rule then_inside, rule catch_inside, rule scope)
  from reduces_trans [OF handle_step [OF sample_attach_key replays, where n = 0 and d = 1, unfolded d] reduces_handle [OF this]]
  have "reduces ?s (handle_message sample_settings 1 7 0 sample_attach 1) (run_attached reps)
     (handleT (thenT (catchT (acknowledge_child 1 sample_lease_id sample_process) (\<lambda>_. True) (undo_attach sample_lease_id)) (returnT attach_response))
       (respond 1 sample_fingerprint sample_attach (Some attach_key)))" .
  from reduces_trans [OF serve_step [OF stop] bind_inside [OF this]] show ?thesis
    unfolding attaching_connection_def by (rule finally_inside)
qed


subsection \<open>The watchdog drops the lease meanwhile\<close>

definition run_watched :: "(string list \<times> replay) list \<Rightarrow> supervisor" where
  "run_watched reps = (run_attached reps)\<lparr>sv_threads := insert 3 (sv_threads (run_attached reps))\<rparr>"

text \<open>The rest of the watchdog's round after the leases of dead wrappers.\<close>

definition watch_rest :: "(supervisor, unit) thread" where
  "watch_rest = bindT (reading (\<lambda>s. sv_leases s = [])) (\<lambda>idle.
     if idle then thenT linearize_draining (drain_quietly 3)
     else bindT (begin_check 3) (\<lambda>ok.
       if \<not> ok then watchdog_loop sample_settings 3 0 None 0
       else bindT (finallyT (check_health sample_settings 3 None 0 1 ''home:desk'') (finish_check 3)) (\<lambda>(failing, failures).
         watchdog_loop sample_settings 3 0 failing failures)))"

definition dropping_watchdog :: "(supervisor, unit) thread" where
  "dropping_watchdog = finallyT (thenT (thenT (bindT (remove_lease sample_lease_id True True False) (\<lambda>_. returnT ()))
     (eachT drop_dead [])) watch_rest) (update (\<lambda>s. s\<lparr>sv_threads := sv_threads s - {3}\<rparr>))"

lemma attached_simps:
  "sv_leases (run_watched reps) = [sample_lease]" "sv_stop (run_watched reps) = False" "sv_phase (run_watched reps) = Ready"
  "sv_active (run_watched reps) = Some (1, ''home:desk'')" "find_lease sample_lease_id (run_watched reps) = Some sample_lease"
  by (simp_all add: run_watched_def run_attached_def set_child_def set_scope_def find_lease_def sample_lease_def run_simps)

lemma watchdog_drops: "reduces (run_watched reps) (watchdog_main sample_settings 3 1) (run_watched reps) dropping_watchdog"
proof -
  let ?s = "run_watched reps"
  have drop: "reduces ?s (drop_lease sample_lease_id True) ?s (remove_lease sample_lease_id True True False)"
  proof -
    have "reduces ?s (child_residue sample_lease_id) ?s (returnT False)"
      unfolding child_residue_def by (rule reduces_atomically) (simp add: attached_simps; simp add: sample_lease_def)
    then show ?thesis
      unfolding drop_lease_def
      by (intro reduces_bind [OF reduces_reading])
        (simp add: attached_simps, simp add: sample_lease_def bind_done, rule reduces_bind, assumption, rule stays)
  qed
  have dead: "reduces ?s (drop_dead sample_lease) ?s (bindT (remove_lease sample_lease_id True True False) (\<lambda>_. returnT ()))"
    unfolding drop_dead_def
    by (rule reduces_bind [OF reduces_chooses [of _ False]]) (simp add: sample_lease_def bind_inside [OF drop])
  have "reduces ?s (watchdog_loop sample_settings 3 (Suc 0) None 0) ?s
      (thenT (thenT (bindT (remove_lease sample_lease_id True True False) (\<lambda>_. returnT ())) (eachT drop_dead [])) watch_rest)"
    unfolding watchdog_loop.simps(2)
    by (rule reduces_bind [OF reduces_reading], simp only: attached_simps if_False,
        rule reduces_bind [OF reduces_reading], simp only: attached_simps prod.case epoch_phase.distinct if_False option.case)
      (unfold watch_rest_def, rule then_inside, unfold eachT.simps(2), rule then_inside [OF dead])
  then show ?thesis unfolding watchdog_main_def dropping_watchdog_def One_nat_def by (rule finally_inside)
qed


definition run_acknowledged :: "(string list \<times> replay) list \<Rightarrow> supervisor" where
  "run_acknowledged reps = set_lease sample_lease_id (\<lambda>x. x\<lparr>le_child := Some sample_process, le_live := True\<rparr>) (run_watched reps)"

lemma child_acknowledged: "reaches (run_watched reps) attaching_connection (run_acknowledged reps)"
proof -
  have "owned_lease 1 sample_lease_id (run_watched reps) = Some sample_lease"
    unfolding owned_lease_def attached_simps by (simp add: sample_lease_def)
  then have "reduces (run_watched reps) (acknowledge_child 1 sample_lease_id sample_process) (run_acknowledged reps) (returnT ())"
    unfolding acknowledge_child_def by (intro reduces_atomically) (simp add: attached_simps run_acknowledged_def)
  from catch_inside [OF this] have a: "reduces (run_watched reps) (catchT (acknowledge_child 1 sample_lease_id sample_process) (\<lambda>_. True)
      (undo_attach sample_lease_id)) (run_acknowledged reps) (returnT ())" by (simp only: catch_done)
  show ?thesis unfolding attaching_connection_def
    by (rule reaches_inside(3), rule reaches_inside(1), rule reaches_handle, rule reaches_inside(2), rule reaches_done [OF a])
qed

definition run_dropped :: "(string list \<times> replay) list \<Rightarrow> supervisor" where
  "run_dropped reps = (to_draining (set_child sample_lease_id None (discard_lease sample_lease_id (run_acknowledged reps))))
     \<lparr>du_fence := Some Draining, sv_fence := Some Draining\<rparr>"

lemmas dropped_simps = run_dropped_def run_acknowledged_def run_watched_def run_attached_def set_lease_def discard_lease_def to_draining_def
  set_child_def set_scope_def sample_lease_def add_errors_def

lemma acknowledged_simps:
  "sv_leases (run_acknowledged reps) = [sample_lease\<lparr>le_child := Some sample_process, le_live := True\<rparr>]"
  "sv_phase (run_acknowledged reps) = Ready" "sv_fence (run_acknowledged reps) = Some Ready" "du_fence (run_acknowledged reps) = Some Ready"
  by (simp add: dropped_simps; simp add: run_simps sample_lease_def)+

lemma lease_id [simp]: "le_id sample_lease = sample_lease_id"
  by (simp add: sample_lease_def)

lemma add_errors_Nil [simp]: "add_errors [] s = s"
  by (simp add: add_errors_def)

lemma fences [simp]:
  "sv_fence (to_draining s) = sv_fence s" "sv_fence (set_child l c s) = sv_fence s" "sv_fence (discard_lease l s) = sv_fence s"
  "du_fence (to_draining s) = du_fence s" "du_fence (set_child l c s) = du_fence s" "du_fence (discard_lease l s) = du_fence s"
  by (simp_all add: to_draining_def set_child_def discard_lease_def)

lemma watchdog_removes:
  "reduces (run_acknowledged reps) (remove_lease sample_lease_id True True False) (run_dropped reps) (returnT True)"
  unfolding remove_lease_def
  by (rule reduces_atomically [where e = working])
    (simp add: Let_def find_lease_def acknowledged_simps set_fence_phase_def run_dropped_def)

definition run_proved :: "(string list \<times> replay) list \<Rightarrow> supervisor" where
  "run_proved reps = (set_provider 1 None (set_intent 1 None (set_provider 1 (Some Cleaned) (set_intent 1 (Some Cleaned)
     (set_world 1 Gone ((run_dropped reps)\<lparr>sv_stop := True, sv_lock := Some 3, sv_gate := None, sv_active := None\<rparr>))))))\<lparr>sv_proved := True\<rparr>"

lemma watchdog_drains: "reaches (run_dropped reps) (drain_epoch 3) (run_proved reps)"
proof -
  let ?t1 = "(run_dropped reps)\<lparr>sv_stop := True\<rparr>"
  let ?t2 = "?t1\<lparr>sv_lock := Some 3\<rparr>"
  let ?t3 = "?t2\<lparr>sv_gate := None\<rparr>"
  let ?t4 = "?t3\<lparr>sv_active := None\<rparr>"
  let ?t5 = "set_world 1 Gone ?t4"
  let ?t6 = "set_intent 1 (Some Cleaned) ?t5"
  let ?t7 = "set_provider 1 (Some Cleaned) ?t6"
  let ?t8 = "set_intent 1 None ?t7"
  let ?t9 = "set_provider 1 None ?t8"
  have stop: "reduces (run_dropped reps) (update (\<lambda>s. s\<lparr>sv_stop := True\<rparr>)) ?t1 (returnT ())"
    by (rule reduces_update) simp
  have checks: "reduces ?t1 (others_checking 3) ?t1 (returnT [])"
    unfolding others_checking_def reading_def by (rule reduces_atomically) (simp add: dropped_simps; simp add: run_simps)
  have lock: "reduces ?t1 (acquire 3) ?t2 (returnT ())"
    unfolding acquire_def by (rule reduces_await) (simp add: dropped_simps; simp add: run_simps)+
  have errors: "reduces ?t2 (reading sv_errors) ?t2 (returnT [])"
    unfolding reading_def by (rule reduces_atomically) (simp add: dropped_simps; simp add: run_simps)
  have there: "reduces ?t2 (reading sv_frontend) ?t2 (returnT True)"
    unfolding reading_def by (rule reduces_atomically) (simp add: dropped_simps; simp add: run_simps)
  have shut: "reduces s shut_frontend (s\<lparr>sv_gate := None\<rparr>) (returnT ())" for s
    unfolding shut_frontend_def by (rule reduces_atomically [where e = working]) simp
  have noting: "reduces s (noting c p) s' (returnT [])" if "reduces s p s' (returnT ())" for s s' p c
    unfolding noting_def using reduces_trans [OF catch_inside [OF reduces_then [OF that stays]]] by (metis catch_done stays)
  have twice: "reduces ?t2 (thenT shut_frontend shut_frontend) ?t3 (returnT ())"
    using reduces_then [OF shut shut, of ?t2] by simp
  have front: "reduces ?t2 close_frontend ?t3 (returnT [])"
    unfolding close_frontend_def by (rule reduces_bind [OF there]) (simp only: if_True, rule noting [OF twice])
  have active: "reduces ?t3 take_active ?t4 (returnT (Some (1, ''home:desk'')))"
    unfolding take_active_def by (rule reduces_atomically) (simp add: dropped_simps; simp add: run_simps)
  have clean: "reduces ?t4 (prove_clean 1) ?t5 (returnT ())"
    unfolding prove_clean_def by (rule reduces_atomically [where e = working]) simp
  have i: "du_intents ?t5 1 = Some Applied" and d: "du_providers ?t6 1 = Some Applied" and c: "du_intents ?t7 1 = Some Cleaned"
    by (simp add: set_world_def set_intent_def set_provider_def dropped_simps; simp add: run_simps)+
  have intent: "reduces ?t5 (load_intent 1) ?t5 (returnT (Some Applied))"
    unfolding load_intent_def by (rule reduces_atomically [where e = working]) (simp only: i loading.simps)
  have advance: "reduces ?t5 (advance_intent 1 Applied Cleaned) ?t6 (returnT ())"
    unfolding advance_intent_def by (rule reduces_atomically [where e = working]) (simp only: i option.case effect_phase.distinct if_False simp_thms durably.simps)
  have stored: "reduces ?t6 (load_provider 1) ?t6 (returnT (Some Applied))"
    unfolding load_provider_def by (rule reduces_atomically [where e = working]) (simp only: d loading.simps)
  have replace: "reduces ?t6 (replace_provider 1 Cleaned) ?t7 (returnT ())"
    unfolding replace_provider_def by (rule reduces_atomically [where e = working]) simp
  have forget: "reduces ?t7 (delete_intent 1) ?t8 (returnT ())"
    unfolding delete_intent_def by (rule reduces_atomically [where e = working]) (simp only: c option.case if_False simp_thms durably.simps)
  have erase: "reduces ?t8 (delete_provider 1) ?t9 (returnT ())"
    unfolding delete_provider_def by (rule reduces_atomically [where e = working]) simp
  have ci: "clean_intent 1 (Some Applied) = advance_intent 1 Applied Cleaned" and cr: "clean_record 1 (Some Applied) = replace_provider 1 Cleaned"
    by (simp_all add: clean_intent_def clean_record_def)
  have "reduces ?t4 (stop_result 1) ?t9 (returnT ())"
    unfolding stop_result_def
    by (rule reduces_then [OF reduces_calling], rule reduces_then [OF clean], rule reduces_bind [OF intent], unfold ci,
        rule reduces_then [OF advance], rule reduces_bind [OF stored], unfold cr, rule reduces_then [OF replace])
      (simp only: provided_def option.distinct simp_thms if_True, rule reduces_then [OF forget erase])
  then have stopped: "reduces ?t4 (stop_active (Some (1, ''home:desk''))) ?t9 (returnT [])"
    unfolding stop_active_def option.case prod.case by (rule noting)
  have probes: "reduces ?t9 probes_left ?t9 (returnT [])"
    unfolding probes_left_def by (rule reduces_bind [OF reduces_chooses [of _ True]]) (simp add: stays)
  have again: "reduces ?t9 (checks_reopened 3 []) ?t9 (returnT [])"
    unfolding checks_reopened_def others_checking_def reading_def if_True refl simp_thms
    by (rule reduces_atomically) (simp add: set_provider_def set_intent_def set_world_def dropped_simps; simp add: run_simps)
  have finish: "reduces ?t9 (finish_drain ([] @ [] @ [] @ [] @ [] @ [])) (run_proved reps) (returnT ())"
    unfolding finish_drain_def
    by (rule reduces_atomically) (simp add: run_proved_def; simp add: dropped_simps set_intent_def set_provider_def set_world_def; simp add: run_simps)
  show ?thesis
    unfolding drain_epoch_def locked_def
    by (rule reaches_then [OF stop], rule reaches_bind [OF checks], rule reaches_then [OF lock], rule reaches_inside,
        rule reaches_bind [OF errors], rule reaches_bind [OF front], rule reaches_bind [OF active], rule reaches_bind [OF stopped],
        rule reaches_bind [OF probes], rule reaches_bind [OF again], rule reaches_done [OF finish])
qed

definition finishing_watchdog :: "(supervisor, unit) thread" where
  "finishing_watchdog = finallyT watch_rest (update (\<lambda>s. s\<lparr>sv_threads := sv_threads s - {3}\<rparr>))"

lemma watchdog_dropped: "reduces (run_acknowledged reps) dropping_watchdog (run_dropped reps) finishing_watchdog"
proof -
  have "reduces (run_acknowledged reps) (thenT (bindT (remove_lease sample_lease_id True True False) (\<lambda>_. returnT ())) (eachT drop_dead []))
      (run_dropped reps) (returnT ())"
    by (rule reduces_then [OF reduces_bind [OF watchdog_removes stays]]) (simp add: stays)
  from reduces_then [OF this stays] show ?thesis
    unfolding dropping_watchdog_def finishing_watchdog_def by (rule finally_inside)
qed

lemma watchdog_finishes: "reaches (run_dropped reps) finishing_watchdog (run_proved reps)"
proof -
  have idle: "reduces (run_dropped reps) (reading (\<lambda>s. sv_leases s = [])) (run_dropped reps) (returnT True)"
    unfolding reading_def by (rule reduces_atomically) (simp add: run_dropped_def acknowledged_simps)
  have line: "reduces (run_dropped reps) linearize_draining (run_dropped reps) (returnT ())"
    unfolding linearize_draining_def by (rule reduces_atomically) (simp add: run_dropped_def)
  have quiet: "reaches (run_dropped reps) (drain_quietly 3) (run_proved reps)"
    unfolding drain_quietly_def catchT_def by (intro reaches_inside reaches_handle watchdog_drains)
  have rest: "reaches (run_dropped reps) watch_rest (run_proved reps)"
    unfolding watch_rest_def by (rule reaches_bind [OF idle], unfold if_True, rule reaches_then [OF line quiet])
  then show ?thesis unfolding finishing_watchdog_def by (rule reaches_inside(3))
qed

section \<open>The run\<close>

lemma epoch_joins:
  assumes "epoch cfg s pool" and "pool t = None" and "starts cfg t p s s'" and "reduces s' p s'' p''"
  shows "epoch cfg s'' (pool(t \<mapsto> p''))"
proof -
  from runs.spawn [OF assms(1-3)] have "epoch cfg s' (pool(t \<mapsto> p))" .
  from runs_reduces [OF assms(4) this, of t] show ?thesis by simp
qed

lemma epoch_continues:
  "epoch cfg s pool \<Longrightarrow> pool t = Some p \<Longrightarrow> reaches s p s' \<Longrightarrow> \<exists>p'. epoch cfg s' (pool(t \<mapsto> p'))"
  unfolding reaches_def by (blast dest: runs_reduces)

text \<open>A generation is published and serves a registered wrapper.\<close>

lemma sample_serves: "\<exists>w. epoch sample_settings run_published [1 \<mapsto> registering_connection, 2 \<mapsto> w]"
proof -
  have 1: "epoch sample_settings run_admitted [1 \<mapsto> registering_connection]"
  proof (rule epoch_joins [OF runs.none])
    show "starts sample_settings 1 (connection_main sample_settings 1 7 sample_messages) sv_new
        (sv_new\<lparr>sv_slots := Suc (sv_slots sv_new), sv_threads := insert 1 (sv_threads sv_new)\<rparr>)"
      by (rule starts.connection) (simp_all add: sv_new_def control_cap_def sample_settings_def)
    show "reduces (sv_new\<lparr>sv_slots := Suc (sv_slots sv_new), sv_threads := insert 1 (sv_threads sv_new)\<rparr>)
        (connection_main sample_settings 1 7 sample_messages) run_admitted registering_connection"
      using connection_waits by (simp add: sv_new_def)
  qed simp
  obtain w where w: "reduces (run_admitted\<lparr>sv_starting := False, sv_threads := {2, 1}\<rparr>) (worker_main sample_settings 2) run_published w"
    using worker_publishes unfolding reaches_def by blast
  have "epoch sample_settings run_published ([1 \<mapsto> registering_connection](2 \<mapsto> w))"
  proof (rule epoch_joins [OF 1])
    have "sv_threads run_admitted = {1}" "sv_starting run_admitted" by (simp_all add: run_simps)
    then show "starts sample_settings 2 (worker_main sample_settings 2) run_admitted (run_admitted\<lparr>sv_starting := False, sv_threads := {2, 1}\<rparr>)"
      using starts.worker [of 2 run_admitted sample_settings] by simp
  qed (use w in simp_all)
  then show ?thesis by blast
qed

text \<open>
  The race: the watchdog looks at the lease before its child is acknowledged and removes it afterwards.
\<close>

lemma sample_race:
  "\<exists>reps pool. epoch sample_settings (run_dropped reps) pool \<and> pool 3 = Some finishing_watchdog"
proof -
  obtain w where "epoch sample_settings run_published [1 \<mapsto> registering_connection, 2 \<mapsto> w]" using sample_serves by blast
  note published = this
  obtain reps where reps: "map_of reps attach_key = None"
    and answered: "reduces run_published registering_connection (run_published\<lparr>sv_replays := reps\<rparr>)
       (finallyT (serve_messages sample_settings 1 7 [(sample_attach, 1, 0)]) (end_connection 1))"
    using registration_answered by blast
  have "reduces run_published registering_connection (run_attached reps) attaching_connection"
    by (rule reduces_trans [OF answered child_attaches [OF reps]])
  from runs_reduces [OF this published, of 1]
  have attached: "epoch sample_settings (run_attached reps) ([1 \<mapsto> registering_connection, 2 \<mapsto> w](1 \<mapsto> attaching_connection))"
    by simp
  have "sv_serving (run_attached reps)" by (simp add: dropped_simps; simp add: run_simps)
  then have watchdog: "starts sample_settings 3 (watchdog_main sample_settings 3 1) (run_attached reps) (run_watched reps)"
    unfolding run_watched_def by (intro starts.watchdog) simp_all
  let ?pool = "[1 \<mapsto> registering_connection, 2 \<mapsto> w, 1 \<mapsto> attaching_connection, 3 \<mapsto> dropping_watchdog] :: supervisor threads"
  have watched: "epoch sample_settings (run_watched reps) ?pool"
    using epoch_joins [OF attached _ watchdog watchdog_drops] by simp
  have "?pool 1 = Some attaching_connection" by simp
  from epoch_continues [OF watched this child_acknowledged] obtain c where
    "epoch sample_settings (run_acknowledged reps) (?pool(1 \<mapsto> c))" by blast
  from runs_reduces [OF watchdog_dropped this, of 3]
  have "epoch sample_settings (run_dropped reps) (?pool(1 \<mapsto> c, 3 \<mapsto> finishing_watchdog))" by simp
  moreover have "(?pool(1 \<mapsto> c, 3 \<mapsto> finishing_watchdog)) 3 = Some finishing_watchdog" by simp
  ultimately show ?thesis by blast
qed

section \<open>Properties\<close>

text \<open>
  C1: whenever the records a successor looks at say that an epoch left no effect, or the fence is gone, no
  resource of any provider generation can be left: at every moment of every interleaving, with every
  durable operation failing before or after its effect.
\<close>

theorem no_record_no_effect:
  assumes "epoch cfg s pool" and "stale_state_is_effect_free s \<or> du_fence s = None"
  shows "wo_provider s g \<noteq> Present"
proof
  assume "wo_provider s g = Present"
  then have "du_providers s g \<in> {Some Prepared, Some Applied, Some Failed} \<and> du_fence s \<noteq> None"
    using epoch_guarded [OF assms(1)] unfolding epoch_inv_def recorded_def by blast
  moreover have "du_providers s g \<in> {None, Some Cleaned} \<or> du_fence s = None"
    using assms(2) unfolding stale_state_is_effect_free_def by (elim disjE) simp_all
  ultimately show False by auto
qed

lemma proved_simps:
  "sv_proved (run_proved reps)" "sv_errors (run_proved reps) = []" "\<not> sv_preserve (run_proved reps)" "sv_leases (run_proved reps) = []"
  "wo_scope (run_proved reps) sample_lease_id = Present" "stale_state_is_effect_free (run_proved reps)"
  by (simp add: run_proved_def stale_state_is_effect_free_def set_provider_def set_intent_def set_world_def; simp add: dropped_simps; simp add: run_simps)+

lemma race_ends: "\<exists>reps pool. epoch sample_settings (run_proved reps) pool"
  using sample_race epoch_continues [OF _ _ watchdog_finishes] by blast

theorem no_record_no_effect_witness: "\<exists>reps. wo_provider (run_proved reps) 1 \<noteq> Present"
  using race_ends no_record_no_effect proved_simps(6) by blast

text \<open>
  C2: the frontend admits clients only to the active generation, under the established contract, whose
  resources are there, whose two records say \<open>APPLIED\<close>, and while the fence is there.
\<close>

theorem gate_is_recorded:
  assumes "epoch cfg s pool" and "sv_gate s = Some cg"
  shows "\<exists>g rung. sv_active s = Some (g, rung) \<and> int g = cg_generation cg \<and> sv_digest s = Some (cg_contract_digest cg) \<and>
    wo_provider s g = Present \<and> du_providers s g = Some Applied \<and> du_intents s g = Some Applied \<and> du_fence s \<noteq> None"
  using epoch_guarded [OF assms(1)] assms(2) unfolding epoch_inv_def gate_recorded_def recorded_def by blast

theorem gate_is_recorded_witness:
  "\<exists>g rung. sv_active run_published = Some (g, rung) \<and> du_providers run_published g = Some Applied"
proof -
  have "sv_gate run_published = Some sample_committed" by (simp add: run_simps)
  then show ?thesis using sample_serves gate_is_recorded by blast
qed

text \<open>
  C3: draining is final: from then on the epoch stays in that phase, no lease is ever added, and the gate
  can only close.
\<close>

theorem draining_is_final:
  assumes "epoch cfg s pool" and "sv_phase s = Draining" and "runs (starts cfg) s pool s' pool'"
  shows "sv_phase s' = Draining \<and> le_id ` set (sv_leases s') \<subseteq> le_id ` set (sv_leases s) \<and> sv_gate s' \<in> {None, sv_gate s}"
  using runs_forward [OF assms(1,3)]
proof induction
  case base
  show ?case using assms(2) by simp
next
  case (step s1 s2)
  then obtain t where "guar t s1 s2" by blast
  then have "only_forward s1 s2" by (rule guar_forward)
  then have "sv_phase s2 = Draining" "le_id ` set (sv_leases s2) \<subseteq> le_id ` set (sv_leases s1)" "sv_gate s2 \<in> {None, sv_gate s1}"
    using step.IH by (simp_all only: only_forward_def simp_thms)
  with step.IH show ?case by auto
qed

theorem draining_is_final_witness: "\<exists>reps. sv_phase (run_proved reps) = Draining"
proof -
  obtain reps pool where e: "epoch sample_settings (run_dropped reps) pool" "pool 3 = Some finishing_watchdog"
    using sample_race by blast
  obtain p where "reduces (run_dropped reps) finishing_watchdog (run_proved reps) p"
    using watchdog_finishes unfolding reaches_def by blast
  moreover have "runs (starts sample_settings) (run_dropped reps) pool (run_dropped reps) pool" by (rule runs.none)
  ultimately have "runs (starts sample_settings) (run_dropped reps) pool (run_proved reps) (pool(3 \<mapsto> p))"
    using e(2) by (rule runs_reduces)
  moreover have "sv_phase (run_dropped reps) = Draining" by (simp add: run_dropped_def)
  ultimately show ?thesis using draining_is_final [OF e(1)] by blast
qed

text \<open>
  C4: the epoch can end with its cleanup proved, no error noted and nothing recorded, although the scope of an
  attached child was never taken down: \<open>_drop_lease\<close> looks at the child of a lease before it takes
  the state lock again, and a child acknowledged in between loses its record with the lease.
\<close>

theorem attach_drop_race:
  "\<exists>cfg s pool l. epoch cfg s pool \<and> sv_proved s \<and> sv_errors s = [] \<and> \<not> sv_preserve s \<and> sv_leases s = [] \<and>
     stale_state_is_effect_free s \<and> wo_scope s l = Present"
  using race_ends proved_simps by blast


section \<open>Replays\<close>

text \<open>A thread run by itself, with the answers the outside gives to its sections.\<close>

primrec execute :: "replies list \<Rightarrow> ('s, 'a) thread \<Rightarrow> 's \<Rightarrow> ('s, 'a) thread \<times> 's" where
  "execute [] p s = (p, s)"
| "execute (e # es) p s = (case p of
     Finished r \<Rightarrow> (p, s)
   | Section g f k \<Rightarrow> if g s then execute es (k e s) (f e s) else (p, s))"

lemma execute_Finished [simp]: "execute es (Finished r) s = (Finished r, s)"
  by (cases es) simp_all

lemma execute_lookup:
  "execute (e # es) (handleT (atomically (\<lambda>_. lookup_replay key c f)) h) s =
     execute es (h (fst (lookup_replay key c f s))) (snd (lookup_replay key c f s))"
  by (simp add: atomically_def await_def)

lemma execute_respond:
  assumes "save_replay key c f (error_response kvs x) s = s" and "save_replay key c f (put_field ''shutdown'' (JBool True) (error_response kvs x)) s = s"
    and "is_answered (exc_class x)"
  shows "\<exists>response. get_field response ''ok'' = JBool False \<and>
    execute (e1 # e2 # es) (respond c f kvs (Some key) (Inl x)) s = (returnT response, s)"
proof -
  let ?r = "if sv_phase s = Draining then put_field ''shutdown'' (JBool True) (error_response kvs x) else error_response kvs x"
  have "get_field ?r ''ok'' = JBool False"
    by (auto simp: error_response_def get_field_def put_field_def split: json.split)
  moreover have "execute (e1 # e2 # es) (respond c f kvs (Some key) (Inl x)) s = (returnT ?r, s)"
    using assms by (simp add: respond_def finish_message_def reading_def update_def atomically_def await_def bindT_def thenT_def)
  ultimately show ?thesis by blast
qed

text \<open>
  C5: a remembered request is never carried out again. Repeated on its connection with its payload it is
  answered with the recorded response, and only the order of the cache changes; with another payload
  or from another connection it is refused, and nothing changes, the recorded outcome included.
\<close>

theorem replay_is_not_repeated:
  assumes "replay_key kvs = Inr (kind, Some key)" and "map_of (sv_replays s) key = Some r"
    and "fingerprint = se_sha cfg (canonical_json_bytes (JObj kvs))"
  shows "(if rp_connection r = c \<and> rp_fingerprint r = fingerprint
     then execute (ea # eb # ec # es) (handle_message cfg c peer n kvs d) s =
       (returnT (rp_response r), s\<lparr>sv_replays := move_to_end key r (sv_replays s)\<rparr>)
     else \<exists>response. get_field response ''ok'' = JBool False \<and>
       execute (ea # eb # ec # es) (handle_message cfg c peer n kvs d) s = (returnT response, s))"
proof -
  let ?m = "handle_message cfg c peer n kvs d"
  have m: "execute (ea # eb # ec # es) ?m s = execute (eb # ec # es)
      ((case fst (lookup_replay key c fingerprint s) of Inr (Some response) \<Rightarrow> returnT response
          | Inl x \<Rightarrow> respond c fingerprint kvs (Some key) (Inl x)
          | Inr None \<Rightarrow> handleT (dispatch cfg c peer n kind kvs d) (respond c fingerprint kvs (Some key))))
      (snd (lookup_replay key c fingerprint s))"
    unfolding handle_message_def Let_def assms(1) assms(3) [symmetric] sum.case prod.case option.case by (rule execute_lookup)
  show ?thesis
  proof (cases "rp_connection r = c \<and> rp_fingerprint r = fingerprint")
    case True
    then show ?thesis unfolding m by (simp add: lookup_replay_def assms(2))
  next
    case False
    then have keep: "save_replay key c fingerprint response s = s" for response
      using assms(2) by (auto simp: save_replay_def Let_def)
    obtain msg where l: "lookup_replay key c fingerprint s = (refuse msg, s)"
      using False assms(2) by (cases "rp_connection r = c") (auto simp: lookup_replay_def)
    have a: "is_answered (exc_class (Exc AdmissionError msg))" by (simp add: is_answered_def)
    show ?thesis using False execute_respond [OF keep keep a, where es = es] unfolding m l fst_conv snd_conv sum.case
      by (simp only: if_False)
  qed
qed

definition sample_remembered :: supervisor where
  "sample_remembered = sv_new\<lparr>sv_replays := [([''register'', ''q1''], \<lparr>rp_connection = 1, rp_fingerprint = [], rp_response = []\<rparr>)]\<rparr>"

theorem replay_is_not_repeated_witness:
  "\<exists>response. get_field response ''ok'' = JBool False \<and>
     execute [working, working, working] (handle_message sample_settings 2 7 2 sample_register 0) sample_remembered = (returnT response, sample_remembered)"
proof -
  let ?r = "\<lparr>rp_connection = 1, rp_fingerprint = [], rp_response = []\<rparr>"
  have "map_of (sv_replays sample_remembered) [''register'', ''q1''] = Some ?r" by (simp add: sample_remembered_def)
  from replay_is_not_repeated [OF sample_register_key this refl, where cfg = sample_settings and c = 2 and peer = 7 and n = 2 and d = 0
      and ea = working and eb = working and ec = working and es = "[]"]
  moreover have "\<not> (rp_connection ?r = 2 \<and> rp_fingerprint ?r = se_sha sample_settings (canonical_json_bytes (JObj sample_register)))"
    by simp
  ultimately show ?thesis by (simp only: if_False)
qed

end
