(* ===== verification/Queries.thy ===== *)
theory Queries
  imports Differences Files
begin

text \<open>
  What the admission modules (\<open>system/grok-proxy/grok_ms/rung_admission.py\<close> and
  \<open>release_admission.py\<close>) share: POSIX paths as \<open>pathlib\<close> treats them, the questions they put to the
  host, and the JSON documents they read. They change nothing on the host, so a program is a tree
  of questions, each followed by what the code does with the answer. A run takes the answers from
  a world, which may answer differently each time; in a settled tree of files it does not, and the
  outcome of a program becomes a function of the tree (\<open>result_in_bindA\<close> and the rules after it).
\<close>

section \<open>Paths\<close>

text \<open>A \<open>PurePosixPath\<close>: its root (empty, one slash or two) and its parts.\<close>

datatype path = Path (path_root: string) (path_parts: "string list")

abbreviation SLASH :: char where "SLASH \<equiv> CHR ''/''"

definition root_of :: "string \<Rightarrow> string" where
  "root_of s =
     (if starts_with s [SLASH, SLASH] \<and> \<not> starts_with s [SLASH, SLASH, SLASH] then [SLASH, SLASH]
      else if starts_with s [SLASH] then [SLASH] else [])"

definition parts_of :: "string \<Rightarrow> string list" where
  "parts_of s = filter (\<lambda>w. w \<noteq> [] \<and> w \<noteq> ''.'') (split_on SLASH s)"

definition path_of :: "string \<Rightarrow> path" where
  "path_of s = Path (root_of s) (parts_of s)"

text \<open>\<open>path / name\<close>: an absolute name replaces the path.\<close>

definition sub :: "path \<Rightarrow> string \<Rightarrow> path" where
  "sub p name = (if starts_with name [SLASH] then path_of name
                 else Path (path_root p) (path_parts p @ parts_of name))"

definition path_str :: "path \<Rightarrow> string" where
  "path_str p = (if path_root p = [] \<and> path_parts p = [] then ''.''
                 else path_root p @ join [SLASH] (path_parts p))"

definition path_name :: "path \<Rightarrow> string" where
  "path_name p = (if path_parts p = [] then [] else List.last (path_parts p))"

text \<open>\<open>path.parents[i]\<close>\<close>

definition parent :: "path \<Rightarrow> nat \<Rightarrow> path result" where
  "parent p i = (if i < length (path_parts p)
                 then Inr (Path (path_root p) (take (length (path_parts p) - Suc i) (path_parts p)))
                 else raise IndexError ''parents'')"

text \<open>\<open>path.relative_to(base).as_posix()\<close>\<close>

definition relative_to :: "path \<Rightarrow> path \<Rightarrow> string result" where
  "relative_to p base =
     (if path_root p = path_root base \<and> prefix (path_parts base) (path_parts p)
      then Inr (path_str (Path [] (drop (length (path_parts base)) (path_parts p))))
      else raise ValueError ''is not in the subpath'')"

text \<open>\<open>Path(os.path.abspath(path))\<close> in the working directory \<open>cwd\<close>.\<close>

definition norm_part :: "string list \<Rightarrow> string \<Rightarrow> string list" where
  "norm_part acc w = (if w = ''..'' then butlast acc else acc @ [w])"

definition abspath :: "path \<Rightarrow> path \<Rightarrow> path" where
  "abspath cwd p = (if path_root p = [] then Path (path_root cwd) (foldl norm_part [] (path_parts cwd @ path_parts p))
                    else Path (path_root p) (foldl norm_part [] (path_parts p)))"

section \<open>Questions\<close>

abbreviation mode_755 :: nat where "mode_755 \<equiv> 493"
abbreviation mode_444 :: nat where "mode_444 \<equiv> 292"

record info =
  fi_kind :: file_kind
  fi_uid :: int
  fi_gid :: int
  fi_mode :: nat
  fi_size :: nat
  fi_dev :: nat
  fi_ino :: nat

text \<open>
  \<open>Open_file\<close> is \<open>os.open\<close> with \<open>O_NOFOLLOW\<close>; the descriptor it gives is named by the path it was
  opened at, and \<open>Read_file p off n\<close> is \<open>os.read\<close> of at most \<open>n\<close> bytes at the position the earlier
  reads have reached. \<open>Fstat_fd\<close> asks about a descriptor the process was started with.
\<close>

datatype query =
    Lstat path
  | Is_link path
  | Exists path
  | Open_file path
  | Fstat_file path
  | Read_file path nat nat
  | Readlink path
  | Read_text path
  | Fstat_fd int
  | Lock_shared int
  | Get_uid
  | Get_gid
  | Get_euid
  | Get_egid
  | Get_cwd
  | Home_of int

datatype host_answer =
    A_unit
  | A_info info
  | A_bool bool
  | A_data string
  | A_num int
  | A_error exc_class

type_synonym world = "nat \<Rightarrow> query \<Rightarrow> host_answer"

datatype 'a asking = Result "'a result" | Ask query "host_answer \<Rightarrow> 'a asking"

primrec handleA :: "'a asking \<Rightarrow> ('a result \<Rightarrow> 'b asking) \<Rightarrow> 'b asking" where
  "handleA (Result r) h = h r"
| "handleA (Ask q k) h = Ask q (\<lambda>a. handleA (k a) h)"

abbreviation returnA :: "'a \<Rightarrow> 'a asking" where
  "returnA x \<equiv> Result (Inr x)"

abbreviation raiseA :: "exc_class \<Rightarrow> string \<Rightarrow> 'a asking" where
  "raiseA cls msg \<equiv> Result (raise cls msg)"

definition bindA :: "'a asking \<Rightarrow> ('a \<Rightarrow> 'b asking) \<Rightarrow> 'b asking" where
  "bindA p f = handleA p (\<lambda>r. case r of Inl e \<Rightarrow> Result (Inl e) | Inr x \<Rightarrow> f x)"

definition thenA :: "unit asking \<Rightarrow> 'b asking \<Rightarrow> 'b asking" where
  "thenA p q = bindA p (\<lambda>_. q)"

definition catchA :: "'a asking \<Rightarrow> (exc_class \<Rightarrow> bool) \<Rightarrow> (exc \<Rightarrow> 'a asking) \<Rightarrow> 'a asking" where
  "catchA p caught h = handleA p (\<lambda>r. case r of
     Inl e \<Rightarrow> (if caught (exc_class e) then h e else Result (Inl e)) | Inr x \<Rightarrow> returnA x)"

definition refuse_if :: "bool \<Rightarrow> exc_class \<Rightarrow> string \<Rightarrow> unit asking" where
  "refuse_if bad cls msg = Result (raise_if bad cls msg)"

text \<open>One question; an error of the host is the exception.\<close>

definition askA :: "query \<Rightarrow> (host_answer \<Rightarrow> 'a result) \<Rightarrow> 'a asking" where
  "askA q f = Ask q (\<lambda>a. Result (case a of A_error cls \<Rightarrow> raise cls [] | _ \<Rightarrow> f a))"

fun the_info :: "host_answer \<Rightarrow> info result" where
  "the_info (A_info i) = Inr i"
| "the_info _ = raise TypeError []"

fun the_bool :: "host_answer \<Rightarrow> bool result" where
  "the_bool (A_bool b) = Inr b"
| "the_bool _ = raise TypeError []"

fun the_bytes :: "host_answer \<Rightarrow> string result" where
  "the_bytes (A_data d) = Inr d"
| "the_bytes _ = raise TypeError []"

fun the_num :: "host_answer \<Rightarrow> int result" where
  "the_num (A_num i) = Inr i"
| "the_num _ = raise TypeError []"

fun the_unit :: "host_answer \<Rightarrow> unit result" where
  "the_unit _ = Inr ()"

text \<open>A run from the \<open>n\<close>-th question on: the outcome and the number of questions put so far.\<close>

primrec consult :: "world \<Rightarrow> 'a asking \<Rightarrow> nat \<Rightarrow> 'a result \<times> nat" where
  "consult w (Result r) n = (r, n)"
| "consult w (Ask q k) n = consult w (k (w n q)) (Suc n)"

definition result_in :: "(query \<Rightarrow> host_answer) \<Rightarrow> 'a asking \<Rightarrow> 'a result" where
  "result_in f p = fst (consult (\<lambda>_. f) p 0)"

section \<open>Rules for runs\<close>

lemma consult_handleA: "consult w (handleA p h) n = (case consult w p n of (r, m) \<Rightarrow> consult w (h r) m)"
  by (induction p arbitrary: n) simp_all

lemma consult_bindA:
  "consult w (bindA p f) n = (case consult w p n of (Inl e, m) \<Rightarrow> (Inl e, m) | (Inr x, m) \<Rightarrow> consult w (f x) m)"
  by (auto simp: bindA_def consult_handleA split: prod.split sum.split)

lemma consult_mono: "consult w p n = (r, m) \<Longrightarrow> n \<le> m"
  by (induction p arbitrary: n) (auto dest: Suc_leD)

lemma consult_constant: "fst (consult (\<lambda>_. f) p n) = result_in f p"
proof (induction p arbitrary: n)
  case (Ask q k)
  have "fst (consult (\<lambda>_. f) (k (f q)) (Suc n)) = result_in f (k (f q))" for n by (rule Ask.IH) simp
  then show ?case by (simp add: result_in_def)
qed (simp add: result_in_def)

lemma result_in_Result [simp]: "result_in f (Result r) = r"
  by (simp add: result_in_def)

lemma result_in_Ask [simp]: "result_in f (Ask q k) = result_in f (k (f q))"
  using consult_constant [of f "k (f q)" 1] by (simp add: result_in_def)

lemma result_in_handleA: "result_in f (handleA p h) = result_in f (h (result_in f p))"
  by (induction p) simp_all

lemma result_in_bindA [simp]: "result_in f (bindA p g) = bindE (result_in f p) (\<lambda>x. result_in f (g x))"
  by (simp add: bindA_def result_in_handleA bindE_def split: sum.split)

lemma result_in_thenA [simp]: "result_in f (thenA p q) = thenE (result_in f p) (result_in f q)"
  by (simp add: thenA_def thenE_def)

lemma result_in_catchA [simp]:
  "result_in f (catchA p c h) = catchE (result_in f p) c (\<lambda>e. result_in f (h e))"
  by (simp add: catchA_def result_in_handleA catchE_def split: sum.split)

lemma result_in_refuse_if [simp]: "result_in f (refuse_if b cls msg) = raise_if b cls msg"
  by (simp add: refuse_if_def)

lemma result_in_askA [simp]:
  "result_in f (askA q g) = (case f q of A_error cls \<Rightarrow> raise cls [] | _ \<Rightarrow> g (f q))"
  by (simp add: askA_def)


lemma consult_askA:
  "consult w (askA q g) n =
     ((case w n q of A_error cls \<Rightarrow> raise cls [] | _ \<Rightarrow> g (w n q)), Suc n)"
  by (simp add: askA_def)

text \<open>What a run that returned has done, step by step.\<close>

named_theorems consulted "how a run of a composed program returned"

lemma consult_bindA_Inr [consulted]:
  "consult w (bindA p f) n = (Inr y, m) \<longleftrightarrow>
   (\<exists>x j. consult w p n = (Inr x, j) \<and> consult w (f x) j = (Inr y, m))"
  by (auto simp: consult_bindA split: prod.splits sum.splits)

lemma consult_thenA_Inr [consulted]:
  "consult w (thenA p q) n = (Inr y, m) \<longleftrightarrow>
   (\<exists>j. consult w p n = (Inr (), j) \<and> consult w q j = (Inr y, m))"
  by (simp add: thenA_def consult_bindA_Inr)

lemma consult_Result_Inr [consulted]: "consult w (Result r) n = (Inr y, m) \<longleftrightarrow> r = Inr y \<and> m = n"
  by auto

lemma consult_refuse_if [consulted]: "consult w (refuse_if b cls msg) n = (Inr u, m) \<longleftrightarrow> \<not> b \<and> m = n"
  by (auto simp: refuse_if_def)

lemma consult_askA_Inr [consulted]:
  "consult w (askA q f) n = (Inr x, m) \<longleftrightarrow> m = Suc n \<and> f (w n q) = Inr x \<and> (\<forall>cls. w n q \<noteq> A_error cls)"
  by (auto simp: consult_askA split: host_answer.splits)

lemma the_answers [simp]:
  "the_info b = Inr i \<longleftrightarrow> b = A_info i" "the_bool b = Inr c \<longleftrightarrow> b = A_bool c"
  "the_bytes b = Inr d \<longleftrightarrow> b = A_data d" "the_num b = Inr x \<longleftrightarrow> b = A_num x"
  by (cases b; simp)+

section \<open>Reading a file\<close>

text \<open>
  The loop of \<open>_read_evidence\<close>: at most \<open>remaining\<close> further bytes. A read gives at most what was
  asked for.
\<close>

function read_bounded :: "path \<Rightarrow> nat \<Rightarrow> string \<Rightarrow> string asking" where
  "read_bounded p remaining acc =
     (if remaining = 0 then returnA acc
      else bindA (askA (Read_file p (length acc) (min 65536 remaining)) the_bytes) (\<lambda>d.
        let chunk = take (min 65536 remaining) d in
        if chunk = [] then returnA acc
        else read_bounded p (remaining - length chunk) (acc @ chunk)))"
  by pat_completeness auto

termination
  by (relation "measure (\<lambda>(p, remaining, acc). remaining)") auto

declare read_bounded.simps [simp del]

text \<open>The loop of \<open>_read\<close>: to the end of the file, unless it exceeds the maximum.\<close>

function read_whole :: "path \<Rightarrow> nat \<Rightarrow> string \<Rightarrow> string asking" where
  "read_whole p maximum acc =
     bindA (askA (Read_file p (length acc) 65536) the_bytes) (\<lambda>d.
       let chunk = take 65536 d in
       if chunk = [] then returnA acc
       else if length acc + length chunk > maximum then raiseA AdmissionError ''oversized release metadata''
       else read_whole p maximum (acc @ chunk))"
  by pat_completeness auto

termination
  by (relation "measure (\<lambda>(p, maximum, acc). Suc maximum - length acc)")
    (auto simp flip: length_greater_0_conv simp: min_def)

declare read_whole.simps [simp del]

section \<open>A settled tree of files\<close>

text \<open>
  The entry at a path, as \<open>lstat\<close> sees it; for a link its text, and whether it leads anywhere. One
  read moves at most \<open>k + 1\<close> bytes, and what is not about files the rest of the host answers.
\<close>

record node =
  nd_info :: info
  nd_data :: string
  nd_resolves :: bool

type_synonym tree = "path \<Rightarrow> node option"

definition node_info :: "node \<Rightarrow> info" where
  "node_info nd = (nd_info nd)\<lparr>fi_size := length (nd_data nd)\<rparr>"

definition is_link :: "node \<Rightarrow> bool" where
  "is_link nd \<longleftrightarrow> fi_kind (nd_info nd) = SymbolicLink"

fun settled :: "tree \<Rightarrow> nat \<Rightarrow> (query \<Rightarrow> host_answer) \<Rightarrow> query \<Rightarrow> host_answer" where
  "settled t k rest (Lstat p) =
     (case t p of None \<Rightarrow> A_error FileNotFoundError | Some nd \<Rightarrow> A_info (node_info nd))"
| "settled t k rest (Is_link p) = A_bool (case t p of None \<Rightarrow> False | Some nd \<Rightarrow> is_link nd)"
| "settled t k rest (Exists p) = A_bool (case t p of None \<Rightarrow> False | Some nd \<Rightarrow> is_link nd \<longrightarrow> nd_resolves nd)"
| "settled t k rest (Open_file p) =
     (case t p of None \<Rightarrow> A_error FileNotFoundError | Some nd \<Rightarrow> if is_link nd then A_error OSError else A_unit)"
| "settled t k rest (Fstat_file p) =
     (case t p of None \<Rightarrow> A_error OSError | Some nd \<Rightarrow> A_info (node_info nd))"
| "settled t k rest (Read_file p off n) =
     (case t p of None \<Rightarrow> A_error OSError | Some nd \<Rightarrow> A_data (take (min n (Suc k)) (drop off (nd_data nd))))"
| "settled t k rest (Readlink p) =
     (case t p of None \<Rightarrow> A_error FileNotFoundError
      | Some nd \<Rightarrow> if is_link nd then A_data (nd_data nd) else A_error OSError)"
| "settled t k rest q = rest q"

lemma node_info_simps [simp]:
  "fi_kind (node_info nd) = fi_kind (nd_info nd)" "fi_uid (node_info nd) = fi_uid (nd_info nd)"
  "fi_gid (node_info nd) = fi_gid (nd_info nd)" "fi_mode (node_info nd) = fi_mode (nd_info nd)"
  "fi_size (node_info nd) = length (nd_data nd)" "fi_dev (node_info nd) = fi_dev (nd_info nd)"
  "fi_ino (node_info nd) = fi_ino (nd_info nd)"
  by (simp_all add: node_info_def)

lemma take_split: "take r xs = take c xs @ take (r - c) (drop c xs)" if "c \<le> r"
  using that by (metis le_add_diff_inverse take_add)

lemma settled_read:
  assumes "t p = Some nd" and "xs = drop off (nd_data nd)" and "0 < m"
  obtains c where "result_in (settled t k rest) (askA (Read_file p off m) the_bytes) = Inr c"
    and "take m c = c" and "c = take (length c) xs" and "length c \<le> m" and "c = [] \<longleftrightarrow> xs = []"
proof
  let ?c = "take (min m (Suc k)) xs"
  show "result_in (settled t k rest) (askA (Read_file p off m) the_bytes) = Inr ?c"
    using assms(1,2) by simp
  show "take m ?c = ?c" "?c = take (length ?c) xs" "length ?c \<le> m" by (auto simp: min_def)
  show "?c = [] \<longleftrightarrow> xs = []" using assms(3) by (auto simp: min_def)
qed

lemma read_bounded_settled:
  assumes "t p = Some nd"
  shows "result_in (settled t k rest) (read_bounded p r acc) = Inr (acc @ take r (drop (length acc) (nd_data nd)))"
proof (induction r arbitrary: acc rule: less_induct)
  case (less r)
  let ?W = "settled t k rest" and ?xs = "drop (length acc) (nd_data nd)"
  show ?case
  proof (cases "r = 0")
    case False
    then have pos: "0 < min 65536 r" by simp
    obtain c where c: "result_in ?W (askA (Read_file p (length acc) (min 65536 r)) the_bytes) = Inr c"
        "take (min 65536 r) c = c" "c = take (length c) ?xs" "length c \<le> min 65536 r" "c = [] \<longleftrightarrow> ?xs = []"
      by (rule settled_read [of t p, OF assms refl pos])
    have step: "result_in ?W (read_bounded p r acc) =
        (if c = [] then Inr acc else result_in ?W (read_bounded p (r - length c) (acc @ c)))"
      using False by (subst read_bounded.simps)
        (simp only: result_in_bindA c(1,2) bindE_simps Let_def if_False result_in_Result split: if_split, simp)
    show ?thesis
    proof (cases "c = []")
      case True
      with c(5) step show ?thesis by simp
    next
      case ne: False
      then have "result_in ?W (read_bounded p (r - length c) (acc @ c)) =
          Inr ((acc @ c) @ take (r - length c) (drop (length (acc @ c)) (nd_data nd)))"
        using less.IH [of "r - length c"] False by simp
      moreover have "take r ?xs = c @ take (r - length c) (drop (length c) ?xs)"
        using take_split [of "length c" r ?xs] c(3,4) by simp
      ultimately show ?thesis unfolding step using ne by (simp add: add.commute)
    qed
  qed (subst read_bounded.simps, simp)
qed

lemma read_whole_settled:
  assumes "t p = Some nd" and "length acc \<le> maximum"
  shows "result_in (settled t k rest) (read_whole p maximum acc) =
    (if length acc + length (drop (length acc) (nd_data nd)) > maximum
     then raise AdmissionError ''oversized release metadata''
     else Inr (acc @ drop (length acc) (nd_data nd)))"
  using assms(2)
proof (induction "maximum - length acc" arbitrary: acc rule: less_induct)
  case less
  let ?W = "settled t k rest" and ?xs = "drop (length acc) (nd_data nd)"
  let ?big = "raise AdmissionError ''oversized release metadata'' :: string result"
  have pos: "0 < (65536 :: nat)" by simp
  obtain c where c: "result_in ?W (askA (Read_file p (length acc) 65536) the_bytes) = Inr c"
      "take 65536 c = c" "c = take (length c) ?xs" "length c \<le> 65536" "c = [] \<longleftrightarrow> ?xs = []"
    by (rule settled_read [of t p, OF assms(1) refl pos])
  have step: "result_in ?W (read_whole p maximum acc) =
      (if c = [] then Inr acc else if length acc + length c > maximum then ?big
       else result_in ?W (read_whole p maximum (acc @ c)))"
    by (subst read_whole.simps)
      (simp only: result_in_bindA c(1,2) bindE_simps Let_def result_in_Result split: if_split, simp)
  from c(3) have taken: "take (length c) ?xs = c" by (rule sym)
  have rest: "c @ drop (length c) ?xs = ?xs"
    using append_take_drop_id [of "length c" ?xs] unfolding taken .
  have le: "length c \<le> length ?xs" using arg_cong [OF rest, of length] by simp
  show ?case
  proof (cases "c = [] \<or> length acc + length c > maximum")
    case True
    then show ?thesis unfolding step using c(5) le less.prems by auto
  next
    case False
    then have fits: "length acc + length c \<le> maximum" and "c \<noteq> []" by auto
    then have "1 \<le> length c" by (cases c) simp_all
    with fits have "maximum - length (acc @ c) < maximum - length acc"
      unfolding length_append by linarith
    with less.hyps [of "acc @ c"] False
    have "result_in ?W (read_whole p maximum (acc @ c)) =
      (if length (acc @ c) + length (drop (length c) ?xs) > maximum then ?big
       else Inr (acc @ c @ drop (length c) ?xs))" by (simp add: add.commute)
    moreover have "length (acc @ c) + length (drop (length c) ?xs) = length acc + length ?xs"
      using arg_cong [OF rest, of length] by (simp only: length_append)
    ultimately show ?thesis unfolding step using False by (simp only: rest if_False split: if_split) simp
  qed
qed

section \<open>JSON documents\<close>

text \<open>\<open>mapping.get(key)\<close>, \<open>None\<close> when the key is missing.\<close>

definition dict_get :: "jobject \<Rightarrow> string \<Rightarrow> json" where
  "dict_get kvs k = (case map_of kvs k of None \<Rightarrow> JNull | Some v \<Rightarrow> v)"

text \<open>Python's \<open>int\<close> converts numerals of at most 4300 digits.\<close>

definition INT_LIMIT :: int where "INT_LIMIT = 10 ^ 4300"

primrec json_ints_ok :: "json \<Rightarrow> bool" where
  "json_ints_ok JNull = True"
| "json_ints_ok (JBool b) = True"
| "json_ints_ok (JInt i) = (\<bar>i\<bar> < INT_LIMIT)"
| "json_ints_ok (JStr s) = True"
| "json_ints_ok (JArr xs) = list_all id (map json_ints_ok xs)"
| "json_ints_ok (JObj kvs) = list_all snd (map (map_prod id json_ints_ok) kvs)"

text \<open>
  \<open>json.loads\<close> on bytes. \<open>gives_up\<close> tells the texts whose nesting the interpreter's decoder does not
  follow; where that is depends on the interpreter. Bytes outside ASCII are refused at once: no
  decoding of them is equal to the canonical text, which every caller compares with next and
  refuses with the exception it also turns a decoding error into.
\<close>

definition document_loads :: "(string \<Rightarrow> bool) \<Rightarrow> string \<Rightarrow> json result" where
  "document_loads gives_up raw =
     (if gives_up raw then raise RecursionError ''maximum recursion depth exceeded''
      else if \<not> is_ascii raw then raise UnicodeDecodeError ''not ASCII''
      else bindE (plain_json_loads raw) (\<lambda>v.
        if json_ints_ok v then Inr v else raise ValueError ''Exceeds the limit for integer string conversion''))"

definition canonical_line :: "json \<Rightarrow> string" where
  "canonical_line v = canonical_json_bytes v @ [CHR 0x0A]"

lemma canonical_line_read:
  assumes "json_wf v" and "json_ints_ok (json_canon v)" and "\<not> gives_up (canonical_line v)"
  shows "document_loads gives_up (canonical_line v) = Inr (json_canon v)"
proof -
  have "is_ascii (canonical_line v)"
    using is_ascii_json_dumps by (auto simp: canonical_line_def canonical_json_bytes_def is_ascii_def)
  moreover have "plain_json_loads (canonical_line v) = Inr (json_canon v)"
    unfolding plain_json_loads_def canonical_line_def canonical_json_bytes_def
    by (intro json_loads_dumps_line keeps_distinct_dict json_wf_canon assms(1)) simp
  ultimately show ?thesis using assms(2,3) by (simp add: document_loads_def)
qed

lemma dict_insert_keys:
  "distinct (map fst d) \<Longrightarrow> distinct (map fst (dict_insert k v d)) \<and>
   fst ` set (dict_insert k v d) = insert k (fst ` set d) \<and> snd ` set (dict_insert k v d) \<subseteq> insert v (snd ` set d)"
  by (induction d rule: dict_insert.induct) auto

lemma dict_of_pairs_keys:
  "distinct (map fst d) \<Longrightarrow> distinct (map fst (foldl (\<lambda>d (k, v). dict_insert k v d) d kvs)) \<and>
   snd ` set (foldl (\<lambda>d (k, v). dict_insert k v d) d kvs) \<subseteq> snd ` set d \<union> snd ` set kvs"
proof (induction kvs arbitrary: d)
  case (Cons kv kvs)
  obtain k v where kv: "kv = (k, v)" by (cases kv)
  let ?d = "dict_insert k v d"
  have d: "distinct (map fst ?d)" "snd ` set ?d \<subseteq> insert v (snd ` set d)"
    using dict_insert_keys [OF Cons.prems] by blast+
  let ?r = "foldl (\<lambda>d (k, v). dict_insert k v d) ?d kvs"
  have "distinct (map fst ?r)" and "snd ` set ?r \<subseteq> snd ` set ?d \<union> snd ` set kvs"
    using Cons.IH [OF d(1)] by blast+
  moreover from this(2) d(2) have "snd ` set ?r \<subseteq> snd ` set d \<union> insert v (snd ` set kvs)" by blast
  ultimately show ?case by (simp add: kv)
qed simp

lemma makes_distinct_dict: "makes_distinct dict_of_pairs"
  using dict_of_pairs_keys [of "[]"] by (auto simp: makes_distinct_def dict_of_pairs_def)

lemma document_loads_Inr:
  "document_loads g raw = Inr v \<Longrightarrow> json_wf v \<and> json_ints_ok v \<and> \<not> g raw"
  using json_loads_wf [OF makes_distinct_dict]
  by (auto simp: document_loads_def plain_json_loads_def bindE_Inr_iff split: if_splits)

text \<open>What is read from a canonical line is the value it was written from, its keys in order.\<close>

lemma canonical_document:
  "document_loads g raw = Inr v \<and> raw = canonical_line v \<longleftrightarrow>
   json_wf v \<and> json_canon v = v \<and> json_ints_ok v \<and> \<not> g raw \<and> raw = canonical_line v"
proof (cases "json_wf v \<and> raw = canonical_line v \<and> \<not> g raw")
  case True
  have "json_canon v = v \<and> json_ints_ok v" if "document_loads g raw = Inr v"
  proof -
    have "plain_json_loads raw = Inr (json_canon v)"
      using True unfolding plain_json_loads_def canonical_line_def canonical_json_bytes_def
      by (auto intro!: json_loads_dumps_line keeps_distinct_dict json_wf_canon)
    with that show ?thesis by (auto simp: document_loads_def split: if_splits)
  qed
  then show ?thesis using True canonical_line_read [of v g] by auto
qed (auto dest: document_loads_Inr)

lemma canonical_line_inj:
  "json_wf v \<Longrightarrow> json_wf w \<Longrightarrow> canonical_line v = canonical_line w \<longleftrightarrow> json_canon v = json_canon w"
  by (simp add: canonical_line_def canonical_json_bytes_inj_wf)

lemma small_ints_ok: "\<bar>i\<bar> \<le> 10 ^ 18 \<Longrightarrow> \<bar>i\<bar> < INT_LIMIT"
  unfolding INT_LIMIT_def by (erule le_less_trans) (rule power_strict_increasing; simp)

lemma json_ints_ok_canon [simp]: "json_ints_ok (json_canon v) \<longleftrightarrow> json_ints_ok v"
proof (induction v)
  case (JObj kvs)
  then have "\<forall>kv \<in> set kvs. json_ints_ok (json_canon (snd kv)) \<longleftrightarrow> json_ints_ok (snd kv)"
    by (auto simp: snds.simps)
  then show ?case by (simp add: list_all_iff json_canon.simps(6))
qed (simp_all add: list_all_iff)

text \<open>A dictionary against a record written out, key by key.\<close>

lemma dict_get_Some: "k \<in> fst ` set kvs \<Longrightarrow> map_of kvs k = Some (dict_get kvs k)"
  by (metis dict_get_def map_of_eq_None_iff not_Some_eq option.simps(5))

lemma canon_dict_iff:
  assumes "json_wf (JObj kvs)" and "distinct (map fst kvs')"
  shows "json_canon (JObj kvs) = json_canon (JObj kvs') \<longleftrightarrow>
    fst ` set kvs = fst ` set kvs' \<and> (\<forall>(k, v) \<in> set kvs'. json_canon (dict_get kvs k) = json_canon v)"
  unfolding canon_record_iff [OF assms]
proof (intro conj_cong refl ball_cong)
  fix kv assume keys: "fst ` set kvs = fst ` set kvs'" and "kv \<in> set kvs'"
  then have "fst kv \<in> fst ` set kvs" by simp
  from dict_get_Some [OF this]
  show "(\<exists>a. map_of kvs (fst kv) = Some a \<and> json_canon a = json_canon (snd kv)) \<longleftrightarrow>
      (case kv of (k, v) \<Rightarrow> json_canon (dict_get kvs k) = json_canon v)"
    by (cases kv) simp
qed

lemma map_dict_iff:
  assumes "distinct (map fst kvs')"
  shows "map_of kvs = map_of kvs' \<longleftrightarrow>
    fst ` set kvs = fst ` set kvs' \<and> (\<forall>(k, v) \<in> set kvs'. dict_get kvs k = v)"
proof
  assume eq: "map_of kvs = map_of kvs'"
  have "fst ` set kvs = fst ` set kvs'" using arg_cong [OF eq, of dom] by (simp add: dom_map_of_conv_image_fst)
  then show "fst ` set kvs = fst ` set kvs' \<and> (\<forall>(k, v) \<in> set kvs'. dict_get kvs k = v)"
    using assms by (auto simp: dict_get_def eq)
next
  assume keys: "fst ` set kvs = fst ` set kvs' \<and> (\<forall>(k, v) \<in> set kvs'. dict_get kvs k = v)"
  show "map_of kvs = map_of kvs'"
  proof
    fix k
    show "map_of kvs k = map_of kvs' k"
    proof (cases "map_of kvs' k")
      case None
      with keys show ?thesis by (metis map_of_eq_None_iff)
    next
      case (Some v)
      then have "(k, v) \<in> set kvs'" by (rule map_of_SomeD)
      with keys have "k \<in> fst ` set kvs" "dict_get kvs k = v" by force+
      with Some dict_get_Some show ?thesis by metis
    qed
  qed
qed

lemma json_canon_atoms [simp]:
  "json_canon v = JStr s \<longleftrightarrow> v = JStr s" "json_canon v = JInt i \<longleftrightarrow> v = JInt i"
  "json_canon v = JBool b \<longleftrightarrow> v = JBool b" "json_canon v = JNull \<longleftrightarrow> v = JNull"
  by (cases v; simp)+

lemma json_canon_JObj: "json_canon v = json_canon (JObj kvs) \<longleftrightarrow> (\<exists>m. v = JObj m \<and> json_canon (JObj m) = json_canon (JObj kvs))"
  by (cases v) (simp_all del: json_canon.simps(6) add: json_canon.simps(6) [of kvs])

lemma py_eq_atoms [simp]:
  "py_eq v (JStr s) \<longleftrightarrow> v = JStr s" "py_eq v JNull \<longleftrightarrow> v = JNull"
  "py_eq v (JInt i) \<longleftrightarrow> v = JInt i \<or> (\<exists>b. v = JBool b \<and> i = (if b then 1 else 0))"
  by (cases v; auto simp: py_eq_def)+

end
