(* ===== verification/RungAdmission.thy ===== *)
theory RungAdmission
  imports Queries "HOL-Library.Product_Lexorder"
begin

text \<open>
  The admission of route rungs at run time, \<open>system/grok-proxy/grok_ms/rung_admission.py\<close>. The root
  account publishes a canonical set of records and, for every record, one file of terminal evidence
  named by its digest. \<open>normalize_selected_rungs\<close> accepts exactly the canonical sets;
  \<open>eligible_selected_rungs\<close> keeps exactly the records whose evidence is the encoding of passing
  measurements for this release, host and rung. The digest function is an argument, and so is what
  the host answers.
\<close>

section \<open>Records and patterns\<close>

definition RUNG_EVIDENCE_SCHEMA_VERSION :: int where "RUNG_EVIDENCE_SCHEMA_VERSION = 9"
definition MAX_EVIDENCE_BYTES :: nat where "MAX_EVIDENCE_BYTES = 1048576"

definition RUNG_RECORD_FIELDS :: "string list" where
  "RUNG_RECORD_FIELDS = [''contract_sha256'', ''evidence_sha256'', ''grok_release_id'', ''rung'']"

definition RUNG_MEASUREMENT_FIELDS :: "string list" where
  "RUNG_MEASUREMENT_FIELDS =
     [''duration_ms'', ''fault_load_canary_verified'', ''host_limits_verified'',
      ''post_repair_reconnect_cache_execution_units_verified'', ''result_sha256'', ''shared_route'',
      ''teardown_clean'', ''transport_timing_verified'', ''two_sessions'']"

definition RUNG_RE :: "string \<Rightarrow> bool" where
  "RUNG_RE s \<longleftrightarrow> s = ''direct'' \<or> s = ''vpn'' \<or>
     (starts_with s ''home:'' \<and> HOME_LABEL_RE (drop 5 s) \<and> length s \<le> 125) \<or>
     (starts_with s ''ios:'' \<and> IOS_KEY_RE (drop 4 s))"

definition ROUTE_PROFILE_RE :: "string \<Rightarrow> bool" where
  "ROUTE_PROFILE_RE s \<longleftrightarrow> RUNG_RE s \<or> s \<in> {''iphone'', ''auto'', ''auto-no-direct''}"

definition GROK_RELEASE_RE :: "string \<Rightarrow> bool" where
  "GROK_RELEASE_RE s \<longleftrightarrow> HOME_LABEL_RE s \<and> length s \<le> 128"

definition MODEL_RE :: "string \<Rightarrow> bool" where
  "MODEL_RE s \<longleftrightarrow> TOKEN_RE s \<and> length s \<le> 128"

text \<open>\<open>type(value) is str and PATTERN.fullmatch(value) is not None\<close>\<close>

definition text_matches :: "(string \<Rightarrow> bool) \<Rightarrow> json \<Rightarrow> bool" where
  "text_matches pattern v = (case v of JStr s \<Rightarrow> pattern s | _ \<Rightarrow> False)"

record rung_record =
  rr_contract_sha256 :: string
  rr_evidence_sha256 :: string
  rr_grok_release_id :: string
  rr_rung :: string

type_synonym identity = "string \<times> string \<times> string"

section \<open>The selected set\<close>

text \<open>The checks of one record in \<open>normalize_selected_rungs\<close>, and the record kept of it.\<close>

definition read_rung_record :: "json \<Rightarrow> rung_record result" where
  "read_rung_record record =
     (case record of
        JObj kvs \<Rightarrow>
          thenE (raise_if (fst ` set kvs \<noteq> set RUNG_RECORD_FIELDS) RungAdmissionError
            ''selected qualified rung record has an unexpected shape'')
          (let rung = dict_get kvs ''rung''; contract = dict_get kvs ''contract_sha256'';
               evidence = dict_get kvs ''evidence_sha256''; grok_release = dict_get kvs ''grok_release_id''
           in thenE (raise_if (\<not> (text_matches RUNG_RE rung \<and> text_matches DIGEST_RE contract \<and>
                text_matches DIGEST_RE evidence \<and> text_matches GROK_RELEASE_RE grok_release))
                RungAdmissionError ''selected qualified rung identity is invalid'')
              (Inr \<lparr>rr_contract_sha256 = json_text contract, rr_evidence_sha256 = json_text evidence,
                rr_grok_release_id = json_text grok_release, rr_rung = json_text rung\<rparr>))
      | _ \<Rightarrow> raise RungAdmissionError ''selected qualified rung record has an unexpected shape'')"

definition identity :: "rung_record \<Rightarrow> identity" where
  "identity r = (rr_rung r, rr_contract_sha256 r, rr_grok_release_id r)"

text \<open>The loop over the records, with the identities seen and the records kept so far.\<close>

fun normalize_records :: "identity set \<Rightarrow> rung_record list \<Rightarrow> json list \<Rightarrow> rung_record list result" where
  "normalize_records identities normalized [] = Inr normalized"
| "normalize_records identities normalized (record # records) =
     bindE (read_rung_record record) (\<lambda>r.
       if identity r \<in> identities
       then raise RungAdmissionError ''selected qualified rung identity is duplicated''
       else normalize_records (insert (identity r) identities) (normalized @ [r]) records)"

definition normalize_selected_rungs :: "json \<Rightarrow> rung_record list result" where
  "normalize_selected_rungs records =
     (case records of
        JArr xs \<Rightarrow>
          thenE (raise_if (length xs > 64) RungAdmissionError ''selected qualified rung set exceeds its bound'')
          (bindE (normalize_records {} [] xs) (\<lambda>normalized.
             if normalized \<noteq> sort_key identity normalized
             then raise RungAdmissionError ''selected qualified rung set is not canonical''
             else Inr normalized))
      | _ \<Rightarrow> raise RungAdmissionError ''selected qualified rung set is not an array'')"

section \<open>The evidence\<close>

definition safe_directory :: "path \<Rightarrow> int \<Rightarrow> int \<Rightarrow> unit asking" where
  "safe_directory p uid gid =
     bindA (catchA (askA (Lstat p) the_info) is_os_error
              (\<lambda>_. raiseA RungEvidenceInvalid ''rung evidence directory is unavailable'')) (\<lambda>info.
     bindA (askA (Is_link p) the_bool) (\<lambda>link.
       refuse_if (link \<or> fi_kind info \<noteq> DirectoryFile \<or> fi_uid info \<noteq> uid \<or> fi_gid info \<noteq> gid \<or>
                  fi_mode info \<noteq> mode_755)
         RungEvidenceInvalid ''rung evidence directory is unsafe''))"

definition read_evidence :: "path \<Rightarrow> int \<Rightarrow> int \<Rightarrow> string asking" where
  "read_evidence p uid gid =
     thenA (catchA (askA (Open_file p) the_unit) is_os_error
              (\<lambda>_. raiseA RungEvidenceInvalid ''rung evidence is unavailable''))
    (bindA (askA (Fstat_file p) the_info) (\<lambda>info.
     thenA (refuse_if (fi_kind info \<noteq> RegularFile \<or> fi_uid info \<noteq> uid \<or> fi_gid info \<noteq> gid \<or>
                fi_mode info \<noteq> mode_444 \<or> \<not> (1 \<le> fi_size info \<and> fi_size info \<le> MAX_EVIDENCE_BYTES))
              RungEvidenceInvalid ''rung evidence has unsafe metadata'')
    (bindA (read_bounded p (MAX_EVIDENCE_BYTES + 1) []) (\<lambda>raw.
     thenA (refuse_if (length raw > MAX_EVIDENCE_BYTES) RungEvidenceInvalid ''rung evidence is oversized'')
       (returnA raw)))))"

definition route_matches :: "json \<Rightarrow> string \<Rightarrow> bool" where
  "route_matches route_profile rung =
     (case route_profile of
        JStr s \<Rightarrow> ROUTE_PROFILE_RE s \<and>
          (s = rung \<or> s = ''auto'' \<or> (s = ''auto-no-direct'' \<and> rung \<noteq> ''direct'') \<or>
           (s = ''iphone'' \<and> starts_with rung ''ios:''))
      | _ \<Rightarrow> False)"

definition EVIDENCE_FIELDS :: "string list" where
  "EVIDENCE_FIELDS =
     [''schema_version'', ''release_id'', ''host_id'', ''rung'', ''route_profile'', ''contract_sha256'',
      ''rung_qualification_sha256'', ''grok_release_id'', ''model_id'', ''qualification_profile_sha256'',
      ''measured_unix_ns'', ''canary_nonce'', ''release_qualification_sha256'', ''real_pair_result_sha256'',
      ''measurements'', ''overall_pass'']"

definition is_int_within :: "json \<Rightarrow> int \<Rightarrow> int option \<Rightarrow> bool" where
  "is_int_within v low high =
     (case v of JInt i \<Rightarrow> low \<le> i \<and> (case high of None \<Rightarrow> True | Some h \<Rightarrow> i \<le> h) | _ \<Rightarrow> False)"

text \<open>The condition on \<open>measurements\<close>.\<close>

definition measurements_pass :: "json \<Rightarrow> bool" where
  "measurements_pass v =
     (case v of
        JObj m \<Rightarrow>
          fst ` set m = set RUNG_MEASUREMENT_FIELDS \<and>
          (\<forall>name \<in> set RUNG_MEASUREMENT_FIELDS - {''duration_ms'', ''result_sha256''}. dict_get m name = JBool True) \<and>
          is_int_within (dict_get m ''duration_ms'') 1 (Some 86400000) \<and>
          text_matches DIGEST_RE (dict_get m ''result_sha256'')
      | _ \<Rightarrow> False)"

text \<open>The object whose digest \<open>result_sha256\<close> must be.\<close>

definition result_binding :: "json \<Rightarrow> json \<Rightarrow> json" where
  "result_binding real_pair release_qualification =
     JObj [(''real_pair_result_sha256'', real_pair), (''release_qualification_sha256'', release_qualification)]"

definition evidence_values_pass :: "jobject \<Rightarrow> rung_record \<Rightarrow> string \<Rightarrow> string \<Rightarrow> bool" where
  "evidence_values_pass value record release_id host_id \<longleftrightarrow>
     fst ` set value = set EVIDENCE_FIELDS \<and>
     py_eq (dict_get value ''schema_version'') (JInt RUNG_EVIDENCE_SCHEMA_VERSION) \<and>
     py_eq (dict_get value ''release_id'') (JStr release_id) \<and>
     py_eq (dict_get value ''host_id'') (JStr host_id) \<and>
     py_eq (dict_get value ''rung'') (JStr (rr_rung record)) \<and>
     route_matches (dict_get value ''route_profile'') (rr_rung record) \<and>
     text_matches DIGEST_RE (dict_get value ''contract_sha256'') \<and>
     py_eq (dict_get value ''rung_qualification_sha256'') (JStr (rr_contract_sha256 record)) \<and>
     py_eq (dict_get value ''grok_release_id'') (JStr (rr_grok_release_id record)) \<and>
     text_matches MODEL_RE (dict_get value ''model_id'') \<and>
     (dict_get value ''qualification_profile_sha256'' = JNull \<or>
      text_matches DIGEST_RE (dict_get value ''qualification_profile_sha256'')) \<and>
     is_int_within (dict_get value ''measured_unix_ns'') 1 None \<and>
     text_matches DIGEST_RE (dict_get value ''canary_nonce'') \<and>
     text_matches DIGEST_RE (dict_get value ''release_qualification_sha256'') \<and>
     text_matches DIGEST_RE (dict_get value ''real_pair_result_sha256'') \<and>
     measurements_pass (dict_get value ''measurements'') \<and>
     dict_get value ''overall_pass'' = JBool True"

text \<open>\<open>measurements["result_sha256"]\<close>, and the digest it must be.\<close>

definition result_of :: "jobject \<Rightarrow> json" where
  "result_of value = dict_get (case dict_get value ''measurements'' of JObj m \<Rightarrow> m | _ \<Rightarrow> []) ''result_sha256''"

definition binding_of :: "(string \<Rightarrow> string) \<Rightarrow> jobject \<Rightarrow> string" where
  "binding_of sha256 value = sha256 (canonical_line (result_binding (dict_get value ''real_pair_result_sha256'')
     (dict_get value ''release_qualification_sha256'')))"

text \<open>\<open>_validate_terminal_evidence\<close> after the file is read; then the whole function.\<close>

definition check_evidence ::
  "(string \<Rightarrow> string) \<Rightarrow> (string \<Rightarrow> bool) \<Rightarrow> string \<Rightarrow> rung_record \<Rightarrow> string \<Rightarrow> string \<Rightarrow> unit result" where
  "check_evidence sha256 gives_up raw record release_id host_id =
     thenE (raise_if (sha256 raw \<noteq> rr_evidence_sha256 record) RungEvidenceInvalid ''rung evidence digest changed'')
    (bindE (catchE (document_loads gives_up raw) (\<lambda>c. c \<in> {UnicodeDecodeError, JSONDecodeError})
              (\<lambda>_. raise RungEvidenceInvalid ''rung evidence is not JSON'')) (\<lambda>v.
     case v of
       JObj value \<Rightarrow>
         thenE (raise_if (raw \<noteq> canonical_line v) RungEvidenceInvalid ''rung evidence is not canonical'')
        (thenE (raise_if (\<not> evidence_values_pass value record release_id host_id)
           RungEvidenceInvalid ''rung evidence is failed or mismatched'')
        (raise_if (result_of value \<noteq> JStr (binding_of sha256 value))
           RungEvidenceInvalid ''rung evidence result binding is invalid''))
     | _ \<Rightarrow> raise RungEvidenceInvalid ''rung evidence is not canonical''))"

record authority =
  au_control_root :: path
  au_release_id :: string
  au_host_id :: string
  au_root_uid :: int
  au_root_gid :: int

definition evidence_root :: "authority \<Rightarrow> path" where
  "evidence_root a = sub (au_control_root a) ''rung-evidence''"

definition release_root :: "authority \<Rightarrow> path" where
  "release_root a = sub (evidence_root a) (au_release_id a)"

definition evidence_path :: "authority \<Rightarrow> rung_record \<Rightarrow> path" where
  "evidence_path a record = sub (release_root a) (rr_evidence_sha256 record @ ''.json'')"

definition validate_terminal_evidence ::
  "(string \<Rightarrow> string) \<Rightarrow> (string \<Rightarrow> bool) \<Rightarrow> authority \<Rightarrow> rung_record \<Rightarrow> unit asking" where
  "validate_terminal_evidence sha256 gives_up a record =
     thenA (safe_directory (evidence_root a) (au_root_uid a) (au_root_gid a))
    (thenA (safe_directory (release_root a) (au_root_uid a) (au_root_gid a))
    (bindA (read_evidence (evidence_path a record) (au_root_uid a) (au_root_gid a)) (\<lambda>raw.
     Result (check_evidence sha256 gives_up raw record (au_release_id a) (au_host_id a)))))"

section \<open>The admission\<close>

definition revokes :: "exc_class \<Rightarrow> bool" where
  "revokes c \<longleftrightarrow> is_os_error c \<or> c = RungEvidenceInvalid \<or> is_value_error c"

text \<open>The loop of \<open>eligible_selected_rungs\<close>, with the records admitted so far.\<close>

fun admit_records ::
  "(string \<Rightarrow> string) \<Rightarrow> (string \<Rightarrow> bool) \<Rightarrow> authority \<Rightarrow> rung_record list \<Rightarrow> rung_record list \<Rightarrow>
   rung_record list asking" where
  "admit_records sha256 gives_up a admitted [] = returnA admitted"
| "admit_records sha256 gives_up a admitted (record # records) =
     bindA (catchA (thenA (validate_terminal_evidence sha256 gives_up a record) (returnA [record]))
              revokes (\<lambda>_. returnA [])) (\<lambda>kept.
       admit_records sha256 gives_up a (admitted @ kept) records)"

definition eligible_selected_rungs ::
  "(string \<Rightarrow> string) \<Rightarrow> (string \<Rightarrow> bool) \<Rightarrow> json \<Rightarrow> authority \<Rightarrow> rung_record list asking" where
  "eligible_selected_rungs sha256 gives_up records a =
     bindA (Result (normalize_selected_rungs records)) (admit_records sha256 gives_up a [])"

section \<open>The canonical sets\<close>

definition rung_record_ok :: "rung_record \<Rightarrow> bool" where
  "rung_record_ok r \<longleftrightarrow> RUNG_RE (rr_rung r) \<and> DIGEST_RE (rr_contract_sha256 r) \<and>
     DIGEST_RE (rr_evidence_sha256 r) \<and> GROK_RELEASE_RE (rr_grok_release_id r)"

definition record_fields :: "rung_record \<Rightarrow> jobject" where
  "record_fields r =
     [(''contract_sha256'', JStr (rr_contract_sha256 r)), (''evidence_sha256'', JStr (rr_evidence_sha256 r)),
      (''grok_release_id'', JStr (rr_grok_release_id r)), (''rung'', JStr (rr_rung r))]"

text \<open>The dictionary with the fields of the record, in any order.\<close>

definition writes_record :: "json \<Rightarrow> rung_record \<Rightarrow> bool" where
  "writes_record v r \<longleftrightarrow> (\<exists>kvs. v = JObj kvs \<and> map_of kvs = map_of (record_fields r))"

definition canonical_rungs :: "rung_record list \<Rightarrow> bool" where
  "canonical_rungs rs \<longleftrightarrow> length rs \<le> 64 \<and> list_all rung_record_ok rs \<and> sorted_wrt (<) (map identity rs)"

lemma text_matches_iff: "text_matches P v \<longleftrightarrow> (\<exists>s. v = JStr s \<and> P s)"
  by (cases v) (simp_all add: text_matches_def)

lemma record_fields_keys: "fst ` set (record_fields r) = set RUNG_RECORD_FIELDS" "distinct (map fst (record_fields r))"
  by (simp_all add: record_fields_def RUNG_RECORD_FIELDS_def)

lemma read_rung_record_Inr:
  "read_rung_record v = Inr r \<longleftrightarrow> rung_record_ok r \<and> writes_record v r"
proof (cases v)
  case (JObj kvs)
  have "map_of kvs = map_of (record_fields r) \<longleftrightarrow> fst ` set kvs = set RUNG_RECORD_FIELDS \<and>
      dict_get kvs ''contract_sha256'' = JStr (rr_contract_sha256 r) \<and>
      dict_get kvs ''evidence_sha256'' = JStr (rr_evidence_sha256 r) \<and>
      dict_get kvs ''grok_release_id'' = JStr (rr_grok_release_id r) \<and>
      dict_get kvs ''rung'' = JStr (rr_rung r)"
    unfolding map_dict_iff [OF record_fields_keys(2)] record_fields_keys(1) by (simp add: record_fields_def)
  then show ?thesis unfolding JObj writes_record_def read_rung_record_def rung_record_ok_def
    by (cases r) (auto simp: Let_def errors text_matches_iff)
qed (auto simp: read_rung_record_def writes_record_def)

lemma raises_read_rung_record: "raises {RungAdmissionError} (read_rung_record v)"
  by (cases v) (auto simp: read_rung_record_def Let_def intro!: raising raises_raise_if)

lemma normalize_records_Inr:
  "normalize_records I acc xs = Inr rs \<longleftrightarrow>
   (\<exists>ys. rs = acc @ ys \<and> list_all2 (\<lambda>x r. read_rung_record x = Inr r) xs ys \<and>
      distinct (map identity ys) \<and> identity ` set ys \<inter> I = {})"
proof (induction xs arbitrary: I acc)
  case (Cons x xs)
  show ?case
  proof (cases "read_rung_record x")
    case (Inr r)
    then show ?thesis by (auto simp: Cons.IH list_all2_Cons1)
  qed (auto simp: list_all2_Cons1)
qed auto

lemma raises_normalize_records: "raises {RungAdmissionError} (normalize_records I acc xs)"
  by (induction xs arbitrary: I acc) (auto intro!: raising raises_read_rung_record)

lemma sort_key_fixed_iff: "xs = sort_key f xs \<longleftrightarrow> sorted (map f xs)"
  by (metis sort_key_id_if_sorted sorted_sort_key)

text \<open>
  \<open>normalize_selected_rungs\<close> accepts exactly the arrays that write at most 64 valid records with
  strictly ascending identities, and returns those records; it raises nothing but
  \<open>RungAdmissionError\<close>.
\<close>

theorem selected_rungs_canonical:
  "(normalize_selected_rungs v = Inr rs \<longleftrightarrow>
      canonical_rungs rs \<and> (\<exists>xs. v = JArr xs \<and> list_all2 writes_record xs rs)) \<and>
   raises {RungAdmissionError} (normalize_selected_rungs v)"
proof
  show "normalize_selected_rungs v = Inr rs \<longleftrightarrow>
      canonical_rungs rs \<and> (\<exists>xs. v = JArr xs \<and> list_all2 writes_record xs rs)"
  proof (cases v)
    case (JArr xs)
    have "list_all2 (\<lambda>x r. read_rung_record x = Inr r) xs rs \<longleftrightarrow>
        list_all rung_record_ok rs \<and> list_all2 writes_record xs rs"
      by (auto simp: read_rung_record_Inr list_all2_conv_all_nth list_all_length)
    moreover have "sorted_wrt (<) (map identity rs) \<longleftrightarrow> sorted (map identity rs) \<and> distinct (map identity rs)"
      by (rule strict_sorted_iff)
    moreover have "length xs = length rs" if "list_all2 writes_record xs rs"
      using that by (rule list_all2_lengthD)
    ultimately show ?thesis
      by (auto simp: JArr normalize_selected_rungs_def canonical_rungs_def errors normalize_records_Inr
          sort_key_fixed_iff)
  qed (auto simp: normalize_selected_rungs_def)
  show "raises {RungAdmissionError} (normalize_selected_rungs v)"
    by (cases v) (auto simp: normalize_selected_rungs_def intro!: raising raises_raise_if raises_normalize_records)
qed

section \<open>Passing evidence\<close>

text \<open>
  What a terminal evidence record says beyond its release, host and selected record, and the
  document that says it.
\<close>

record evidence =
  ev_route_profile :: string
  ev_contract_sha256 :: string
  ev_model_id :: string
  ev_profile_sha256 :: "string option"
  ev_measured_unix_ns :: int
  ev_canary_nonce :: string
  ev_release_qualification :: string
  ev_real_pair :: string
  ev_duration_ms :: int

definition result_digest :: "(string \<Rightarrow> string) \<Rightarrow> evidence \<Rightarrow> string" where
  "result_digest sha256 e =
     sha256 (canonical_line (result_binding (JStr (ev_real_pair e)) (JStr (ev_release_qualification e))))"

text \<open>Which route profiles may qualify a rung.\<close>

definition profile_covers :: "string \<Rightarrow> string \<Rightarrow> bool" where
  "profile_covers profile rung \<longleftrightarrow>
     (profile = rung \<and> ROUTE_PROFILE_RE profile) \<or> profile = ''auto'' \<or>
     (profile = ''auto-no-direct'' \<and> rung \<noteq> ''direct'') \<or> (profile = ''iphone'' \<and> starts_with rung ''ios:'')"

definition evidence_ok :: "(string \<Rightarrow> string) \<Rightarrow> string \<Rightarrow> evidence \<Rightarrow> bool" where
  "evidence_ok sha256 rung e \<longleftrightarrow>
     profile_covers (ev_route_profile e) rung \<and> DIGEST_RE (ev_contract_sha256 e) \<and> MODEL_RE (ev_model_id e) \<and>
     (\<forall>d \<in> set_option (ev_profile_sha256 e). DIGEST_RE d) \<and>
     0 < ev_measured_unix_ns e \<and> ev_measured_unix_ns e < INT_LIMIT \<and> DIGEST_RE (ev_canary_nonce e) \<and>
     DIGEST_RE (ev_release_qualification e) \<and> DIGEST_RE (ev_real_pair e) \<and>
     0 < ev_duration_ms e \<and> ev_duration_ms e \<le> 86400000 \<and> DIGEST_RE (result_digest sha256 e)"

definition measurement_fields :: "int \<Rightarrow> string \<Rightarrow> jobject" where
  "measurement_fields duration_ms result_sha256 =
     [(''duration_ms'', JInt duration_ms), (''fault_load_canary_verified'', JBool True),
      (''host_limits_verified'', JBool True),
      (''post_repair_reconnect_cache_execution_units_verified'', JBool True),
      (''result_sha256'', JStr result_sha256), (''shared_route'', JBool True),
      (''teardown_clean'', JBool True), (''transport_timing_verified'', JBool True), (''two_sessions'', JBool True)]"

definition evidence_fields :: "(string \<Rightarrow> string) \<Rightarrow> string \<Rightarrow> string \<Rightarrow> rung_record \<Rightarrow> evidence \<Rightarrow> jobject" where
  "evidence_fields sha256 release_id host_id r e =
     [(''schema_version'', JInt 9), (''release_id'', JStr release_id), (''host_id'', JStr host_id),
      (''rung'', JStr (rr_rung r)), (''route_profile'', JStr (ev_route_profile e)),
      (''contract_sha256'', JStr (ev_contract_sha256 e)),
      (''rung_qualification_sha256'', JStr (rr_contract_sha256 r)),
      (''grok_release_id'', JStr (rr_grok_release_id r)), (''model_id'', JStr (ev_model_id e)),
      (''qualification_profile_sha256'', case ev_profile_sha256 e of None \<Rightarrow> JNull | Some d \<Rightarrow> JStr d),
      (''measured_unix_ns'', JInt (ev_measured_unix_ns e)), (''canary_nonce'', JStr (ev_canary_nonce e)),
      (''release_qualification_sha256'', JStr (ev_release_qualification e)),
      (''real_pair_result_sha256'', JStr (ev_real_pair e)),
      (''measurements'', JObj (measurement_fields (ev_duration_ms e) (result_digest sha256 e))), (''overall_pass'', JBool True)]"

text \<open>The bytes of the evidence for a record, and that they are passing evidence.\<close>

definition evidence_line :: "(string \<Rightarrow> string) \<Rightarrow> string \<Rightarrow> string \<Rightarrow> rung_record \<Rightarrow> evidence \<Rightarrow> string" where
  "evidence_line sha256 release_id host_id r e = canonical_line (JObj (evidence_fields sha256 release_id host_id r e))"

definition passes :: "(string \<Rightarrow> string) \<Rightarrow> string \<Rightarrow> string \<Rightarrow> rung_record \<Rightarrow> string \<Rightarrow> bool" where
  "passes sha256 release_id host_id r raw \<longleftrightarrow> sha256 raw = rr_evidence_sha256 r \<and>
     (\<exists>e. evidence_ok sha256 (rr_rung r) e \<and> raw = evidence_line sha256 release_id host_id r e)"

lemma is_int_within_iff:
  "is_int_within v low high \<longleftrightarrow> (\<exists>i. v = JInt i \<and> low \<le> i \<and> (\<forall>h \<in> set_option high. i \<le> h))"
  by (cases v) (auto simp: is_int_within_def split: option.split)

lemma route_matches_iff:
  "route_matches v rung \<longleftrightarrow> (\<exists>s. v = JStr s \<and> profile_covers s rung)"
  by (cases v) (auto simp: route_matches_def profile_covers_def ROUTE_PROFILE_RE_def)

lemma measurement_fields_keys:
  "fst ` set (measurement_fields d s) = set RUNG_MEASUREMENT_FIELDS" "distinct (map fst (measurement_fields d s))"
  by (simp_all add: measurement_fields_def RUNG_MEASUREMENT_FIELDS_def insert_commute)

lemma evidence_fields_keys:
  "fst ` set (evidence_fields sha256 rel host r e) = set EVIDENCE_FIELDS" "distinct (map fst (evidence_fields sha256 rel host r e))"
  by (simp_all add: evidence_fields_def EVIDENCE_FIELDS_def insert_commute)

lemma json_wf_fields:
  "json_wf (JObj (measurement_fields d s))" "json_wf (JObj (evidence_fields sha256 rel host r e))"
proof -
  show m: "json_wf (JObj (measurement_fields d s))" for d s
    unfolding json_wf_JObj by (simp add: measurement_fields_def)
  show "json_wf (JObj (evidence_fields sha256 rel host r e))"
    unfolding json_wf_JObj using m by (simp add: evidence_fields_def split: option.split)
qed

lemma json_ints_ok_fields:
  "evidence_ok sha256 rung e \<Longrightarrow> json_ints_ok (JObj (evidence_fields sha256 rel host r e))"
  using small_ints_ok [of 9] small_ints_ok [of "ev_duration_ms e"]
  by (auto simp: evidence_fields_def measurement_fields_def evidence_ok_def split: option.split)

lemma measurement_flags:
  "set RUNG_MEASUREMENT_FIELDS - {''duration_ms'', ''result_sha256''} =
     {''fault_load_canary_verified'', ''host_limits_verified'',
      ''post_repair_reconnect_cache_execution_units_verified'', ''shared_route'',
      ''teardown_clean'', ''transport_timing_verified'', ''two_sessions''}"
  by (simp add: RUNG_MEASUREMENT_FIELDS_def insert_Diff_if)

lemma measurements_iff:
  assumes "json_wf v"
  shows "measurements_pass v \<and> dict_get (case v of JObj m \<Rightarrow> m | _ \<Rightarrow> []) ''result_sha256'' = JStr s \<longleftrightarrow>
    (\<exists>d. 0 < d \<and> d \<le> 86400000 \<and> DIGEST_RE s \<and> json_canon v = json_canon (JObj (measurement_fields d s)))"
proof (cases v)
  case (JObj m)
  have "json_canon v = json_canon (JObj (measurement_fields d s)) \<longleftrightarrow>
      fst ` set m = set RUNG_MEASUREMENT_FIELDS \<and> dict_get m ''duration_ms'' = JInt d \<and>
      dict_get m ''result_sha256'' = JStr s \<and>
      (\<forall>k \<in> set RUNG_MEASUREMENT_FIELDS - {''duration_ms'', ''result_sha256''}. dict_get m k = JBool True)" for d
    unfolding JObj canon_dict_iff [OF assms [unfolded JObj] measurement_fields_keys(2)] measurement_fields_keys(1)
    unfolding measurement_flags by (simp add: measurement_fields_def) argo
  then show ?thesis
    unfolding JObj measurements_pass_def is_int_within_iff text_matches_iff json.case by auto
qed (simp_all add: measurements_pass_def json_canon.simps(6))

lemma optional_digest_iff:
  "v = JNull \<or> text_matches DIGEST_RE v \<longleftrightarrow>
   (\<exists>x. v = (case x of None \<Rightarrow> JNull | Some d \<Rightarrow> JStr d) \<and> (\<forall>d \<in> set_option x. DIGEST_RE d))"
  by (auto simp: text_matches_iff split: option.splits intro: exI [of _ None])

lemma json_canon_optional [simp]:
  "json_canon v = json_canon (case x of None \<Rightarrow> JNull | Some d \<Rightarrow> JStr d) \<longleftrightarrow> v = (case x of None \<Rightarrow> JNull | Some d \<Rightarrow> JStr d)"
  by (cases x) simp_all

lemma evidence_fields_canon:
  assumes "json_wf (JObj value)"
  shows "json_canon (JObj value) = json_canon (JObj (evidence_fields sha256 rel host r e)) \<longleftrightarrow>
    fst ` set value = set EVIDENCE_FIELDS \<and>
    dict_get value ''schema_version'' = JInt 9 \<and> dict_get value ''release_id'' = JStr rel \<and>
    dict_get value ''host_id'' = JStr host \<and> dict_get value ''rung'' = JStr (rr_rung r) \<and>
    dict_get value ''route_profile'' = JStr (ev_route_profile e) \<and>
    dict_get value ''contract_sha256'' = JStr (ev_contract_sha256 e) \<and>
    dict_get value ''rung_qualification_sha256'' = JStr (rr_contract_sha256 r) \<and>
    dict_get value ''grok_release_id'' = JStr (rr_grok_release_id r) \<and>
    dict_get value ''model_id'' = JStr (ev_model_id e) \<and>
    dict_get value ''qualification_profile_sha256'' =
      (case ev_profile_sha256 e of None \<Rightarrow> JNull | Some d \<Rightarrow> JStr d) \<and>
    dict_get value ''measured_unix_ns'' = JInt (ev_measured_unix_ns e) \<and>
    dict_get value ''canary_nonce'' = JStr (ev_canary_nonce e) \<and>
    dict_get value ''release_qualification_sha256'' = JStr (ev_release_qualification e) \<and>
    dict_get value ''real_pair_result_sha256'' = JStr (ev_real_pair e) \<and>
    json_canon (dict_get value ''measurements'') =
      json_canon (JObj (measurement_fields (ev_duration_ms e) (result_digest sha256 e))) \<and>
    dict_get value ''overall_pass'' = JBool True"
  unfolding canon_dict_iff [OF assms evidence_fields_keys(2)] evidence_fields_keys(1)
  by (simp add: evidence_fields_def)

lemma dict_get_wf: "json_wf (JObj kvs) \<Longrightarrow> json_wf (dict_get kvs k)"
  by (auto simp: dict_get_def json_wf_JObj split: option.split dest!: map_of_SomeD)

lemma dict_get_ints_ok: "json_ints_ok (JObj kvs) \<Longrightarrow> json_ints_ok (dict_get kvs k)"
  by (auto simp: dict_get_def list_all_iff split: option.split dest!: map_of_SomeD)

lemma evidence_values_iff:
  assumes wf: "json_wf (JObj value)" and ints: "json_ints_ok (JObj value)"
  shows "evidence_values_pass value r rel host \<and> result_of value = JStr (binding_of sha256 value) \<longleftrightarrow>
    (\<exists>e. evidence_ok sha256 (rr_rung r) e \<and>
       json_canon (JObj value) = json_canon (JObj (evidence_fields sha256 rel host r e)))"
    (is "?passes \<longleftrightarrow> (\<exists>e. ?ok e \<and> ?same e)")
proof
  assume ?passes
  then have pass: "evidence_values_pass value r rel host" and bound: "result_of value = JStr (binding_of sha256 value)" by auto
  from pass obtain optional where
    optional: "dict_get value ''qualification_profile_sha256'' = (case optional of None \<Rightarrow> JNull | Some d \<Rightarrow> JStr d)"
      "\<forall>d \<in> set_option optional. DIGEST_RE d"
    unfolding evidence_values_pass_def optional_digest_iff by blast
  from pass obtain profile contract model measured nonce release pair where
    texts: "dict_get value ''route_profile'' = JStr profile" "profile_covers profile (rr_rung r)"
      "dict_get value ''contract_sha256'' = JStr contract" "DIGEST_RE contract"
      "dict_get value ''model_id'' = JStr model" "MODEL_RE model"
      "dict_get value ''measured_unix_ns'' = JInt measured" "1 \<le> measured"
      "dict_get value ''canary_nonce'' = JStr nonce" "DIGEST_RE nonce"
      "dict_get value ''release_qualification_sha256'' = JStr release" "DIGEST_RE release"
      "dict_get value ''real_pair_result_sha256'' = JStr pair" "DIGEST_RE pair"
    unfolding evidence_values_pass_def route_matches_iff text_matches_iff is_int_within_iff
    by (elim conjE exE) (rule that; assumption)
  from pass have "measurements_pass (dict_get value ''measurements'')" by (simp add: evidence_values_pass_def)
  with bound obtain duration where measurements: "0 < duration" "duration \<le> 86400000" "DIGEST_RE (binding_of sha256 value)"
      "json_canon (dict_get value ''measurements'') = json_canon (JObj (measurement_fields duration (binding_of sha256 value)))"
    using measurements_iff [OF dict_get_wf [OF wf], of "''measurements''" "binding_of sha256 value"]
    unfolding result_of_def by blast
  have "measured < INT_LIMIT" using dict_get_ints_ok [OF ints, of "''measured_unix_ns''"] texts(7) by simp
  let ?e = "\<lparr>ev_route_profile = profile, ev_contract_sha256 = contract, ev_model_id = model,
    ev_profile_sha256 = optional, ev_measured_unix_ns = measured, ev_canary_nonce = nonce,
    ev_release_qualification = release, ev_real_pair = pair, ev_duration_ms = duration\<rparr>"
  have digest: "result_digest sha256 ?e = binding_of sha256 value"
    by (simp add: result_digest_def binding_of_def texts optional)
  have "dict_get value ''schema_version'' = JInt 9"
    using pass by (auto simp: evidence_values_pass_def RUNG_EVIDENCE_SCHEMA_VERSION_def split: if_splits)
  have "?ok ?e" using texts optional measurements(1-3) \<open>measured < INT_LIMIT\<close> by (simp add: evidence_ok_def digest)
  moreover have "?same ?e"
    unfolding evidence_fields_canon [OF wf] digest
    using pass texts optional measurements(4) \<open>dict_get value ''schema_version'' = JInt 9\<close>
    by (simp add: evidence_values_pass_def)
  ultimately show "\<exists>e. ?ok e \<and> ?same e" by blast
next
  assume "\<exists>e. ?ok e \<and> ?same e"
  then obtain e where ok: "?ok e" and same: "?same e" by blast
  note fields = same [unfolded evidence_fields_canon [OF wf]]
  have digest: "result_digest sha256 e = binding_of sha256 value"
    using fields by (simp add: result_digest_def binding_of_def)
  have "measurements_pass (dict_get value ''measurements'') \<and> result_of value = JStr (binding_of sha256 value)"
    unfolding result_of_def measurements_iff [OF dict_get_wf [OF wf]]
    using fields ok by (auto simp: digest evidence_ok_def)
  moreover have "dict_get value ''qualification_profile_sha256'' = JNull \<or>
      text_matches DIGEST_RE (dict_get value ''qualification_profile_sha256'')"
    unfolding optional_digest_iff using fields ok by (auto simp: evidence_ok_def)
  ultimately show ?passes
    using fields ok
    by (simp add: evidence_values_pass_def evidence_ok_def route_matches_iff text_matches_iff is_int_within_iff
        RUNG_EVIDENCE_SCHEMA_VERSION_def)
qed

lemma check_evidence_iff:
  "check_evidence sha256 g raw r rel host = Inr () \<longleftrightarrow> \<not> g raw \<and> passes sha256 rel host r raw"
proof
  assume checked: "check_evidence sha256 g raw r rel host = Inr ()"
  then obtain kvs where loaded: "document_loads g raw = Inr (JObj kvs)" and line: "raw = canonical_line (JObj kvs)"
    and sha: "sha256 raw = rr_evidence_sha256 r"
    and "evidence_values_pass kvs r rel host" "result_of kvs = JStr (binding_of sha256 kvs)"
    by (auto simp: check_evidence_def errors case_JObj_Inr)
  moreover from loaded line have doc: "json_wf (JObj kvs)" "json_ints_ok (JObj kvs)" "\<not> g raw"
    using canonical_document [of g raw "JObj kvs"] by auto
  ultimately obtain e where "evidence_ok sha256 (rr_rung r) e"
      "json_canon (JObj kvs) = json_canon (JObj (evidence_fields sha256 rel host r e))"
    using evidence_values_iff [OF doc(1,2)] by blast
  then show "\<not> g raw \<and> passes sha256 rel host r raw"
    using doc sha line canonical_line_inj [OF doc(1) json_wf_fields(2)]
    by (auto simp: passes_def evidence_line_def)
next
  assume passes: "\<not> g raw \<and> passes sha256 rel host r raw"
  then obtain e where sha: "sha256 raw = rr_evidence_sha256 r" and e: "evidence_ok sha256 (rr_rung r) e"
    and line: "raw = canonical_line (JObj (evidence_fields sha256 rel host r e))"
    by (auto simp: passes_def evidence_line_def)
  let ?fields = "JObj (evidence_fields sha256 rel host r e)"
  obtain kvs where kvs: "json_canon ?fields = JObj kvs" by (simp add: json_canon.simps(6))
  have wf: "json_wf (JObj kvs)" using json_wf_canon [OF json_wf_fields(2)] kvs by metis
  have ints: "json_ints_ok (JObj kvs)" using json_ints_ok_fields [OF e] kvs json_ints_ok_canon by metis
  have loaded: "document_loads g raw = Inr (JObj kvs)"
    using canonical_line_read [OF json_wf_fields(2)] json_ints_ok_fields [OF e] passes
    unfolding line kvs [symmetric] by simp
  have same: "json_canon (JObj kvs) = json_canon ?fields" using kvs by (metis json_canon_idem)
  then have "raw = canonical_line (JObj kvs)"
    unfolding line canonical_line_def canonical_json_bytes_def by simp
  moreover have "evidence_values_pass kvs r rel host \<and> result_of kvs = JStr (binding_of sha256 kvs)"
    using evidence_values_iff [OF wf ints] e same by blast
  ultimately show "check_evidence sha256 g raw r rel host = Inr ()"
    using loaded sha by (simp add: check_evidence_def)
qed

section \<open>The admission in a settled tree\<close>

definition owned_by_root :: "authority \<Rightarrow> file_kind \<Rightarrow> nat \<Rightarrow> info \<Rightarrow> bool" where
  "owned_by_root a kind mode i \<longleftrightarrow> fi_kind i = kind \<and> fi_uid i = au_root_uid a \<and> fi_gid i = au_root_gid a \<and> fi_mode i = mode"

definition directory_at :: "tree \<Rightarrow> authority \<Rightarrow> path \<Rightarrow> bool" where
  "directory_at t a p \<longleftrightarrow> (\<exists>nd. t p = Some nd \<and> owned_by_root a DirectoryFile mode_755 (nd_info nd))"

text \<open>The tree has, in directories of the root account, a file of evidence with this content.\<close>

definition evidence_at :: "tree \<Rightarrow> authority \<Rightarrow> rung_record \<Rightarrow> string \<Rightarrow> bool" where
  "evidence_at t a r raw \<longleftrightarrow> directory_at t a (evidence_root a) \<and> directory_at t a (release_root a) \<and>
     (\<exists>nd. t (evidence_path a r) = Some nd \<and> owned_by_root a RegularFile mode_444 (nd_info nd) \<and>
        raw = nd_data nd \<and> raw \<noteq> [] \<and> length raw \<le> MAX_EVIDENCE_BYTES)"

text \<open>The texts the decoder gives up on, and those outside what is modelled of it.\<close>

definition undecided :: "(string \<Rightarrow> bool) \<Rightarrow> string \<Rightarrow> bool" where
  "undecided g raw \<longleftrightarrow> g raw \<or> (is_ascii raw \<and> (\<exists>m. plain_json_loads raw = raise Unmodelled m))"

definition evidenced :: "(string \<Rightarrow> string) \<Rightarrow> tree \<Rightarrow> authority \<Rightarrow> rung_record \<Rightarrow> bool" where
  "evidenced sha256 t a r \<longleftrightarrow> (\<exists>raw. evidence_at t a r raw \<and> passes sha256 (au_release_id a) (au_host_id a) r raw)"

definition blocked :: "(string \<Rightarrow> string) \<Rightarrow> (string \<Rightarrow> bool) \<Rightarrow> tree \<Rightarrow> authority \<Rightarrow> rung_record \<Rightarrow> bool" where
  "blocked sha256 g t a r \<longleftrightarrow>
     (\<exists>raw. evidence_at t a r raw \<and> sha256 raw = rr_evidence_sha256 r \<and> undecided g raw)"

lemma safe_directory_settled:
  "result_in (settled t k rest) (safe_directory p (au_root_uid a) (au_root_gid a)) =
     (if directory_at t a p then Inr ()
      else raise RungEvidenceInvalid (if t p = None then ''rung evidence directory is unavailable''
                                      else ''rung evidence directory is unsafe''))"
  by (cases "t p") (auto simp: safe_directory_def directory_at_def owned_by_root_def is_link_def raise_if_def)

lemma read_evidence_settled:
  "result_in (settled t k rest) (read_evidence p (au_root_uid a) (au_root_gid a)) = Inr raw \<longleftrightarrow>
     (\<exists>nd. t p = Some nd \<and> owned_by_root a RegularFile mode_444 (nd_info nd) \<and>
        raw = nd_data nd \<and> raw \<noteq> [] \<and> length raw \<le> MAX_EVIDENCE_BYTES)"
  "raises {RungEvidenceInvalid} (result_in (settled t k rest) (read_evidence p (au_root_uid a) (au_root_gid a)))"
proof -
  have "result_in (settled t k rest) (read_evidence p (au_root_uid a) (au_root_gid a)) =
     (case t p of None \<Rightarrow> raise RungEvidenceInvalid ''rung evidence is unavailable''
      | Some nd \<Rightarrow>
          if is_link nd then raise RungEvidenceInvalid ''rung evidence is unavailable''
          else if owned_by_root a RegularFile mode_444 (nd_info nd) \<and> nd_data nd \<noteq> [] \<and>
                  length (nd_data nd) \<le> MAX_EVIDENCE_BYTES
               then Inr (nd_data nd) else raise RungEvidenceInvalid ''rung evidence has unsafe metadata'')"
    by (cases "t p") (auto simp: read_evidence_def owned_by_root_def raise_if_def read_bounded_settled Suc_le_eq)
  then show "result_in (settled t k rest) (read_evidence p (au_root_uid a) (au_root_gid a)) = Inr raw \<longleftrightarrow>
     (\<exists>nd. t p = Some nd \<and> owned_by_root a RegularFile mode_444 (nd_info nd) \<and>
        raw = nd_data nd \<and> raw \<noteq> [] \<and> length raw \<le> MAX_EVIDENCE_BYTES)"
    and "raises {RungEvidenceInvalid} (result_in (settled t k rest) (read_evidence p (au_root_uid a) (au_root_gid a)))"
    by (auto simp: is_link_def owned_by_root_def split: option.split)
qed

abbreviation beyond :: "exc \<Rightarrow> bool" where
  "beyond e \<equiv> exc_class e \<in> {RecursionError, Unmodelled}"

lemma document_loads_Inl:
  assumes "document_loads g raw = Inl e"
  shows "(undecided g raw \<and> beyond e) \<or> (\<not> undecided g raw \<and> is_value_error (exc_class e))"
proof (cases "g raw \<or> \<not> is_ascii raw")
  case True
  then show ?thesis using assms by (auto simp: document_loads_def undecided_def split: if_splits)
next
  case False
  show ?thesis
  proof (cases "plain_json_loads raw")
    case (Inl e')
    have "decoder_error e'"
      using json_loads_errors [OF hook_errors_dict] Inl unfolding plain_json_loads_def by force
    moreover have "e' = e" using assms False Inl by (simp add: document_loads_def)
    ultimately show ?thesis using False Inl by (cases e) (auto simp: undecided_def)
  next
    case (Inr v)
    then have "exc_class e = ValueError" using assms False by (auto simp: document_loads_def split: if_splits)
    then show ?thesis using False Inr by (simp add: undecided_def)
  qed
qed

lemma undecided_document: "undecided g raw \<Longrightarrow> \<exists>e. document_loads g raw = Inl e \<and> beyond e"
  by (auto simp: undecided_def document_loads_def)

lemma check_evidence_Inl:
  assumes "check_evidence sha256 g raw r rel host = Inl e"
  shows "(sha256 raw = rr_evidence_sha256 r \<and> undecided g raw \<and> beyond e) \<or>
    (\<not> (sha256 raw = rr_evidence_sha256 r \<and> undecided g raw) \<and> revokes (exc_class e))"
proof (cases "sha256 raw = rr_evidence_sha256 r")
  case True
  show ?thesis
  proof (cases "document_loads g raw")
    case (Inl e')
    then show ?thesis using assms True document_loads_Inl [OF Inl]
      by (auto simp: check_evidence_def revokes_def split: if_splits)
  next
    case (Inr v)
    then have "\<not> undecided g raw" using undecided_document by fastforce
    moreover have "exc_class e = RungEvidenceInvalid"
      using assms True Inr by (auto simp: check_evidence_def errors case_JObj_Inl)
    ultimately show ?thesis by (simp add: revokes_def)
  qed
qed (use assms in \<open>auto simp: check_evidence_def revokes_def\<close>)

text \<open>One record: its evidence passes, or the check revokes it, or the check does not come to an answer.\<close>

abbreviation validation :: "(string \<Rightarrow> string) \<Rightarrow> (string \<Rightarrow> bool) \<Rightarrow> authority \<Rightarrow> (query \<Rightarrow> host_answer) \<Rightarrow> rung_record \<Rightarrow> unit result" where
  "validation sha256 g a f r \<equiv> result_in f (validate_terminal_evidence sha256 g a r)"

lemma validation_settled:
  "validation sha256 g a (settled t k rest) r =
     (if directory_at t a (evidence_root a) \<and> directory_at t a (release_root a)
      then bindE (result_in (settled t k rest) (read_evidence (evidence_path a r) (au_root_uid a) (au_root_gid a)))
             (\<lambda>raw. check_evidence sha256 g raw r (au_release_id a) (au_host_id a))
      else thenE (result_in (settled t k rest) (safe_directory (evidence_root a) (au_root_uid a) (au_root_gid a)))
             (result_in (settled t k rest) (safe_directory (release_root a) (au_root_uid a) (au_root_gid a))))"
  by (auto simp: validate_terminal_evidence_def safe_directory_settled)

lemma check_evidence_undecided: "check_evidence sha256 g raw r rel host = Inr () \<Longrightarrow> \<not> undecided g raw"
  using undecided_document [of g raw] by (auto simp: check_evidence_def errors)

lemma beyond_not_revoked: "beyond e \<Longrightarrow> \<not> revokes (exc_class e)"
  by (auto simp: revokes_def)

lemma evidence_at_read:
  "evidence_at t a r raw \<longleftrightarrow> directory_at t a (evidence_root a) \<and> directory_at t a (release_root a) \<and>
     result_in (settled t k rest) (read_evidence (evidence_path a r) (au_root_uid a) (au_root_gid a)) = Inr raw"
  by (simp add: evidence_at_def read_evidence_settled(1))

lemma validation_cases:
  "(validation sha256 g a (settled t k rest) r = Inr () \<longleftrightarrow> evidenced sha256 t a r \<and> \<not> blocked sha256 g t a r) \<and>
   (\<forall>e. validation sha256 g a (settled t k rest) r = Inl e \<longrightarrow> (blocked sha256 g t a r \<longleftrightarrow> \<not> revokes (exc_class e)))"
proof (cases "\<exists>raw. evidence_at t a r raw")
  case True
  then obtain raw where at: "evidence_at t a r raw" by blast
  then have only: "evidence_at t a r raw' \<longleftrightarrow> raw' = raw" for raw'
    by (auto simp: evidence_at_def)
  have v: "validation sha256 g a (settled t k rest) r =
      check_evidence sha256 g raw r (au_release_id a) (au_host_id a)"
    using at unfolding evidence_at_read [of _ _ _ _ k rest] by (simp add: validation_settled)
  have evidenced: "evidenced sha256 t a r \<longleftrightarrow> passes sha256 (au_release_id a) (au_host_id a) r raw"
    and blocked: "blocked sha256 g t a r \<longleftrightarrow> sha256 raw = rr_evidence_sha256 r \<and> undecided g raw"
    by (auto simp: evidenced_def blocked_def only)
  have "\<not> undecided g raw \<Longrightarrow> \<not> g raw" by (simp add: undecided_def)
  then have "validation sha256 g a (settled t k rest) r = Inr () \<longleftrightarrow> evidenced sha256 t a r \<and> \<not> blocked sha256 g t a r"
    using check_evidence_iff [of sha256 g raw r "au_release_id a" "au_host_id a"]
      check_evidence_undecided [of sha256 g raw r "au_release_id a" "au_host_id a"]
    by (auto simp: v evidenced blocked passes_def)
  moreover have "blocked sha256 g t a r \<longleftrightarrow> \<not> revokes (exc_class e)"
    if "validation sha256 g a (settled t k rest) r = Inl e" for e
    using check_evidence_Inl [of sha256 g raw r _ _ e] that beyond_not_revoked [of e] unfolding v blocked by blast
  ultimately show ?thesis by blast
next
  case False
  then have none: "\<not> evidenced sha256 t a r" "\<not> blocked sha256 g t a r" by (auto simp: evidenced_def blocked_def)
  have "raises {RungEvidenceInvalid} (validation sha256 g a (settled t k rest) r) \<and>
      validation sha256 g a (settled t k rest) r \<noteq> Inr ()"
  proof (cases "directory_at t a (evidence_root a) \<and> directory_at t a (release_root a)")
    case True
    with False have "\<nexists>raw. result_in (settled t k rest)
        (read_evidence (evidence_path a r) (au_root_uid a) (au_root_gid a)) = Inr raw"
      unfolding evidence_at_read [of _ _ _ _ k rest] by blast
    then obtain e where "result_in (settled t k rest)
        (read_evidence (evidence_path a r) (au_root_uid a) (au_root_gid a)) = Inl e"
      by (metis sum.exhaust)
    with read_evidence_settled(2) [of t k rest "evidence_path a r" a] True
    show ?thesis by (simp add: validation_settled)
  next
    case outside: False
    then show ?thesis by (auto simp: validation_settled safe_directory_settled)
  qed
  with none show ?thesis by (auto simp: raises_def revokes_def)
qed

lemma admit_records_settled:
  "result_in (settled t k rest) (admit_records sha256 g a acc rs) = Inr out \<longleftrightarrow>
     out = acc @ filter (evidenced sha256 t a) rs \<and> (\<forall>r \<in> set rs. \<not> blocked sha256 g t a r)"
proof (induction rs arbitrary: acc)
  case (Cons r rs)
  note cases = validation_cases [of t k rest sha256 g a r]
  show ?case
  proof (cases "validation sha256 g a (settled t k rest) r")
    case (Inl e)
    then have "evidenced sha256 t a r \<Longrightarrow> blocked sha256 g t a r" using cases by auto
    then show ?thesis using cases Inl by (auto simp: Cons.IH)
  next
    case (Inr u)
    then show ?thesis using cases by (simp add: Cons.IH)
  qed
qed auto

text \<open>
  In a settled tree of files \<open>eligible_selected_rungs\<close> returns exactly the records of the
  canonical selection for which the tree has passing evidence, in their order: a missing, unsafe or
  failing evidence file removes only its own record. It returns unless the selection is refused or
  some record's evidence, with the selected digest, is a text the JSON decoder gives up on (or one
  outside the modelled part of the decoder).
\<close>

theorem eligible_rungs_exact:
  "result_in (settled t k rest) (eligible_selected_rungs sha256 gives_up v a) = Inr admitted \<longleftrightarrow>
     (\<exists>rs. normalize_selected_rungs v = Inr rs \<and> admitted = filter (evidenced sha256 t a) rs \<and>
        \<not> list_ex (blocked sha256 gives_up t a) rs)"
  by (cases "normalize_selected_rungs v")
    (auto simp: eligible_selected_rungs_def admit_records_settled list_ex_iff)

section \<open>The admission while files change\<close>

lemma admit_records_consult:
  assumes "consult w (admit_records sha256 g a acc rs) n = (Inr out, m)"
  shows "\<exists>kept. out = acc @ kept \<and> subseq kept rs \<and>
    (\<forall>r \<in> set kept. \<exists>i j. n \<le> i \<and> j \<le> m \<and> consult w (validate_terminal_evidence sha256 g a r) i = (Inr (), j))"
  using assms
proof (induction rs arbitrary: acc n)
  case (Cons r rs)
  let ?attempt = "catchA (thenA (validate_terminal_evidence sha256 g a r) (returnA [r])) revokes (\<lambda>_. returnA [])"
  from Cons.prems obtain one j where one: "consult w ?attempt n = (Inr one, j)"
    and rest: "consult w (admit_records sha256 g a (acc @ one) rs) j = (Inr out, m)"
    unfolding admit_records.simps consult_bindA_Inr by blast
  from Cons.IH [OF rest] obtain kept where kept: "out = (acc @ one) @ kept" "subseq kept rs"
      "\<forall>r \<in> set kept. \<exists>i l. j \<le> i \<and> l \<le> m \<and> consult w (validate_terminal_evidence sha256 g a r) i = (Inr (), l)"
    by blast
  have nj: "n \<le> j" and jm: "j \<le> m" using one rest consult_mono by blast+
  from kept(3) nj have kept': "\<forall>r \<in> set kept. \<exists>i l. n \<le> i \<and> l \<le> m \<and>
      consult w (validate_terminal_evidence sha256 g a r) i = (Inr (), l)" by (meson le_trans)
  from one have "one = [] \<or> one = [r] \<and> (\<exists>l. l \<le> j \<and> consult w (validate_terminal_evidence sha256 g a r) n = (Inr (), l))"
    by (auto simp: catchA_def consult_handleA thenA_def consult_bindA split: prod.splits sum.splits if_splits)
  then show ?case
  proof
    assume "one = []"
    with kept(1,2) kept' show ?thesis by (intro exI [of _ kept]) auto
  next
    assume "one = [r] \<and> (\<exists>l. l \<le> j \<and> consult w (validate_terminal_evidence sha256 g a r) n = (Inr (), l))"
    with kept(1,2) kept' jm show ?thesis by (intro exI [of _ "r # kept"]) (auto intro: le_trans)
  qed
qed auto

text \<open>What is read of a file is a regular file of the root account, at the moment it is read.\<close>

definition read_as_root :: "world \<Rightarrow> authority \<Rightarrow> path \<Rightarrow> string \<Rightarrow> nat \<Rightarrow> nat \<Rightarrow> bool" where
  "read_as_root w a p raw i j \<longleftrightarrow>
     (\<exists>st. w i (Fstat_file p) = A_info st \<and> owned_by_root a RegularFile mode_444 st) \<and>
     consult w (read_bounded p (MAX_EVIDENCE_BYTES + 1) []) (Suc i) = (Inr raw, j) \<and> length raw \<le> MAX_EVIDENCE_BYTES"

lemma read_evidence_consult:
  assumes "consult w (read_evidence p (au_root_uid a) (au_root_gid a)) n = (Inr raw, m)"
  shows "\<exists>i. n \<le> i \<and> read_as_root w a p raw i m"
proof -
  from assms obtain i st where
    i: "consult w (catchA (askA (Open_file p) the_unit) is_os_error
       (\<lambda>_. raiseA RungEvidenceInvalid ''rung evidence is unavailable'')) n = (Inr (), i)"
    and "w i (Fstat_file p) = A_info st" "owned_by_root a RegularFile mode_444 st"
      "consult w (read_bounded p (MAX_EVIDENCE_BYTES + 1) []) (Suc i) = (Inr raw, m)"
      "length raw \<le> MAX_EVIDENCE_BYTES"
    unfolding read_evidence_def consulted the_answers owned_by_root_def by (elim exE conjE) (simp add: not_less)
  with consult_mono [OF i] show ?thesis unfolding read_as_root_def by blast
qed

lemma validation_consult:
  assumes "consult w (validate_terminal_evidence sha256 g a r) n = (Inr (), m)"
  shows "\<exists>i raw. n \<le> i \<and> read_as_root w a (evidence_path a r) raw i m \<and>
    passes sha256 (au_release_id a) (au_host_id a) r raw"
proof -
  from assms obtain i j raw where
    steps: "consult w (safe_directory (evidence_root a) (au_root_uid a) (au_root_gid a)) n = (Inr (), i)"
      "consult w (safe_directory (release_root a) (au_root_uid a) (au_root_gid a)) i = (Inr (), j)"
      "consult w (read_evidence (evidence_path a r) (au_root_uid a) (au_root_gid a)) j = (Inr raw, m)"
    and "check_evidence sha256 g raw r (au_release_id a) (au_host_id a) = Inr ()"
    unfolding validate_terminal_evidence_def consulted by blast
  moreover from this(4) have "passes sha256 (au_release_id a) (au_host_id a) r raw"
    unfolding check_evidence_iff by blast
  moreover have "n \<le> j" using consult_mono [OF steps(1)] consult_mono [OF steps(2)] by simp
  ultimately show ?thesis using read_evidence_consult [OF steps(3)] by (meson le_trans)
qed

text \<open>
  Whatever changes on the host meanwhile, the records \<open>eligible_selected_rungs\<close> returns are some of
  the canonical selection, in order, and for each of them the call itself read passing evidence for
  this release, host and record, from a file that was at that moment a regular file of the root
  account with mode 0444.
\<close>

theorem admitted_on_evidence:
  assumes "consult w (eligible_selected_rungs sha256 gives_up v a) n = (Inr admitted, m)"
  shows "\<exists>rs. normalize_selected_rungs v = Inr rs \<and> subseq admitted rs \<and>
    (\<forall>r \<in> set admitted. \<exists>i raw j. n \<le> i \<and> j \<le> m \<and> read_as_root w a (evidence_path a r) raw i j \<and>
       passes sha256 (au_release_id a) (au_host_id a) r raw)"
proof -
  from assms obtain rs where
    rs: "normalize_selected_rungs v = Inr rs"
    and run: "consult w (admit_records sha256 gives_up a [] rs) n = (Inr admitted, m)"
    unfolding eligible_selected_rungs_def consulted by blast
  from admit_records_consult [OF run] have kept: "subseq admitted rs"
    "\<forall>r \<in> set admitted. \<exists>i j. n \<le> i \<and> j \<le> m \<and>
       consult w (validate_terminal_evidence sha256 gives_up a r) i = (Inr (), j)" by auto
  have "\<exists>i raw j. n \<le> i \<and> j \<le> m \<and> read_as_root w a (evidence_path a r) raw i j \<and>
      passes sha256 (au_release_id a) (au_host_id a) r raw" if "r \<in> set admitted" for r
    using kept(2) that validation_consult [of w sha256 gives_up a r] by (meson le_trans)
  with rs kept(1) show ?thesis by blast
qed

text \<open>A release with one record and its evidence.\<close>

definition sample_sha256 :: "string \<Rightarrow> string" where
  "sample_sha256 s = replicate 64 (CHR ''a'')"

definition sample_authority :: authority where
  "sample_authority = \<lparr>au_control_root = Path ''/'' [''control''], au_release_id = ''r1'', au_host_id = ''h1'',
     au_root_uid = 0, au_root_gid = 0\<rparr>"

definition sample_record :: rung_record where
  "sample_record = \<lparr>rr_contract_sha256 = sample_sha256 [], rr_evidence_sha256 = sample_sha256 [],
     rr_grok_release_id = ''g1'', rr_rung = ''vpn''\<rparr>"

definition sample_evidence :: evidence where
  "sample_evidence = \<lparr>ev_route_profile = ''auto'', ev_contract_sha256 = sample_sha256 [], ev_model_id = ''m1'',
     ev_profile_sha256 = None, ev_measured_unix_ns = 1, ev_canary_nonce = sample_sha256 [],
     ev_release_qualification = sample_sha256 [], ev_real_pair = sample_sha256 [], ev_duration_ms = 1\<rparr>"

definition sample_line :: string where
  "sample_line = evidence_line sample_sha256 ''r1'' ''h1'' sample_record sample_evidence"

definition sample_node :: "file_kind \<Rightarrow> nat \<Rightarrow> string \<Rightarrow> node" where
  "sample_node kind mode content =
     \<lparr>nd_info = \<lparr>fi_kind = kind, fi_uid = 0, fi_gid = 0, fi_mode = mode, fi_size = 0, fi_dev = 1, fi_ino = 1\<rparr>,
      nd_data = content, nd_resolves = True\<rparr>"

definition sample_tree :: tree where
  "sample_tree = [evidence_root sample_authority \<mapsto> sample_node DirectoryFile mode_755 [],
     release_root sample_authority \<mapsto> sample_node DirectoryFile mode_755 [],
     evidence_path sample_authority sample_record \<mapsto> sample_node RegularFile mode_444 sample_line]"

definition sample_world :: world where
  "sample_world n = settled sample_tree 99 (\<lambda>_. A_unit)"

lemma sample_paths:
  "evidence_root sample_authority = Path ''/'' [''control'', ''rung-evidence'']"
  "release_root sample_authority = Path ''/'' [''control'', ''rung-evidence'', ''r1'']"
  "evidence_path sample_authority sample_record = Path ''/'' [''control'', ''rung-evidence'', ''r1'', sample_sha256 [] @ ''.json'']"
  by code_simp+

lemma length_join: "length (join [c] ss) = sum_list (map length ss) + (length ss - 1)"
  by (induction "[c]" ss rule: join.induct) auto

lemma length_json_quote: "length (json_quote s) \<le> 6 * length s + 2"
  by (induction s) (auto simp: json_quote_def json_escape_def)

lemma length_dumps_JObj: "length (json_dumps (JObj kvs)) =
    2 + (length kvs - 1) + sum_list (map (\<lambda>kv. Suc (length (json_quote (fst kv)) + length (json_dumps (snd kv)))) kvs)"
  by (simp add: length_join json_member_def comp_def)

lemma length_dumps_canon: "length (json_dumps (json_canon v)) = length (json_dumps v)"
proof (induction v)
  case (JArr xs)
  then have same: "map (\<lambda>x. length (json_dumps (json_canon x))) xs = map (\<lambda>x. length (json_dumps x)) xs" by simp
  show ?case by (simp add: length_join comp_def arg_cong [OF same, of sum_list])
next
  case (JObj kvs)
  let ?f = "\<lambda>kv. Suc (length (json_quote (fst kv)) + length (json_dumps (snd kv)))"
  let ?c = "map (map_prod id json_canon) kvs"
  have "sum_list (map ?f (sort_key fst ?c)) = sum_list (map ?f ?c)" by (rule sum_list_sort_key)
  also have "\<dots> = sum_list (map ?f kvs)"
    using JObj by (auto simp: comp_def snds.simps intro!: arg_cong [of _ _ sum_list] map_cong)
  finally show ?case unfolding json_canon.simps(6) length_dumps_JObj by simp
qed simp_all

text \<open>An upper bound of the length of an encoding.\<close>

primrec dumps_bound :: "json \<Rightarrow> nat" where
  "dumps_bound JNull = 4"
| "dumps_bound (JBool b) = 5"
| "dumps_bound (JInt i) = length (int_dec i)"
| "dumps_bound (JStr s) = 6 * length s + 2"
| "dumps_bound (JArr xs) = 2 + sum_list (map Suc (map dumps_bound xs))"
| "dumps_bound (JObj kvs) = 2 + sum_list (map (\<lambda>(k, b). 6 * length k + 4 + b) (map (map_prod id dumps_bound) kvs))"

lemma length_dumps_bound: "length (json_dumps v) \<le> dumps_bound v"
proof (induction v)
  case (JStr s)
  then show ?case using length_json_quote [of s] by simp
next
  case (JArr xs)
  then have "sum_list (map (\<lambda>x. length (json_dumps x)) xs) \<le> sum_list (map dumps_bound xs)"
    by (intro sum_list_mono) simp
  then show ?case by (simp add: length_join comp_def sum_list_Suc)
next
  case (JObj kvs)
  have "sum_list (map (\<lambda>kv. Suc (length (json_quote (fst kv)) + length (json_dumps (snd kv)))) kvs) \<le>
      sum_list (map (\<lambda>kv. 6 * length (fst kv) + 3 + dumps_bound (snd kv)) kvs)"
  proof (intro sum_list_mono)
    fix kv assume "kv \<in> set kvs"
    then have "length (json_dumps (snd kv)) \<le> dumps_bound (snd kv)" by (cases kv) (auto intro!: JObj snds.intros)
    with length_json_quote [of "fst kv"]
    show "Suc (length (json_quote (fst kv)) + length (json_dumps (snd kv))) \<le> 6 * length (fst kv) + 3 + dumps_bound (snd kv)" by simp
  qed
  moreover have "sum_list (map (\<lambda>(k, b). 6 * length k + 4 + b) (map (map_prod id dumps_bound) kvs)) =
      length kvs + sum_list (map (\<lambda>kv. 6 * length (fst kv) + 3 + dumps_bound (snd kv)) kvs)"
    by (induction kvs) auto
  ultimately show ?case unfolding length_dumps_JObj dumps_bound.simps by linarith
qed simp_all

lemma sample_line_length: "sample_line \<noteq> [] \<and> length sample_line \<le> MAX_EVIDENCE_BYTES"
proof -
  let ?v = "JObj (evidence_fields sample_sha256 ''r1'' ''h1'' sample_record sample_evidence)"
  have "length sample_line = Suc (length (json_dumps ?v))"
    by (simp add: sample_line_def evidence_line_def canonical_line_def canonical_json_bytes_def length_dumps_canon)
  also have "\<dots> \<le> Suc (dumps_bound ?v)" using length_dumps_bound unfolding Suc_le_mono .
  also have "\<dots> \<le> MAX_EVIDENCE_BYTES"
    by (simp add: evidence_fields_def measurement_fields_def sample_record_def sample_evidence_def sample_sha256_def
        result_digest_def MAX_EVIDENCE_BYTES_def int_dec_def nat_dec.simps)
  finally show ?thesis by (auto simp: sample_line_def evidence_line_def canonical_line_def)
qed

lemma sample_sha256_ok: "DIGEST_RE (sample_sha256 s)"
  by (simp add: DIGEST_RE_def sample_sha256_def list_all_iff is_hex_def)

lemma sample_evidence_ok: "evidence_ok sample_sha256 (rr_rung sample_record) sample_evidence"
  using sample_sha256_ok small_ints_ok [of 1]
  by (simp add: evidence_ok_def sample_evidence_def profile_covers_def result_digest_def MODEL_RE_def TOKEN_RE_def
      char_class_defs)

lemma sample_passes: "passes sample_sha256 ''r1'' ''h1'' sample_record sample_line"
  using sample_evidence_ok
  by (auto simp: passes_def sample_line_def sample_record_def sample_sha256_def)

lemma sample_ids: "au_release_id sample_authority = ''r1''" "au_host_id sample_authority = ''h1''"
  "au_root_uid sample_authority = 0" "au_root_gid sample_authority = 0"
  by (simp_all add: sample_authority_def)

lemma sample_evidence_at: "evidence_at sample_tree sample_authority sample_record raw \<longleftrightarrow> raw = sample_line"
  using sample_line_length
  by (auto simp: evidence_at_def directory_at_def owned_by_root_def sample_tree_def sample_node_def sample_paths sample_ids)

lemma sample_decided: "\<not> undecided (\<lambda>_. False) sample_line"
  using undecided_document [of "\<lambda>_. False" sample_line]
    canonical_line_read [OF json_wf_fields(2), of sample_sha256 "''r1''" "''h1''" sample_record sample_evidence "\<lambda>_. False"]
    json_ints_ok_fields [OF sample_evidence_ok]
  by (auto simp: sample_line_def evidence_line_def)

lemma sample_normalized:
  "normalize_selected_rungs (JArr [JObj (record_fields sample_record)]) = Inr [sample_record]"
  by code_simp

lemma sample_selection_admitted:
  "result_in (settled sample_tree 99 (\<lambda>_. A_unit)) (eligible_selected_rungs sample_sha256 (\<lambda>_. False)
     (JArr [JObj (record_fields sample_record)]) sample_authority) = Inr [sample_record]"
proof -
  have "evidenced sample_sha256 sample_tree sample_authority sample_record"
    using sample_passes by (simp add: evidenced_def sample_evidence_at sample_ids)
  moreover have "\<not> blocked sample_sha256 (\<lambda>_. False) sample_tree sample_authority sample_record"
    using sample_decided by (auto simp: blocked_def sample_evidence_at)
  ultimately show ?thesis
    by (simp add: eligible_selected_rungs_def sample_normalized admit_records_settled del: admit_records.simps)
qed

theorem admitted_on_evidence_witness:
  "\<exists>rs m. normalize_selected_rungs (JArr [JObj (record_fields sample_record)]) = Inr rs \<and> subseq [sample_record] rs \<and>
    (\<exists>i raw j. 0 \<le> i \<and> j \<le> m \<and>
       read_as_root sample_world sample_authority (evidence_path sample_authority sample_record) raw i j \<and>
       passes sample_sha256 (au_release_id sample_authority) (au_host_id sample_authority) sample_record raw)"
proof -
  let ?p = "eligible_selected_rungs sample_sha256 (\<lambda>_. False) (JArr [JObj (record_fields sample_record)]) sample_authority"
  have "fst (consult sample_world ?p 0) = Inr [sample_record]"
    using sample_selection_admitted unfolding result_in_def sample_world_def [abs_def] .
  then obtain m where "consult sample_world ?p 0 = (Inr [sample_record], m)" by (metis prod.collapse)
  from admitted_on_evidence [OF this] show ?thesis by simp blast
qed

end
