(* ===== verification/ReleaseAdmission.thy ===== *)
theory ReleaseAdmission
  imports Queries Runtime
begin

text \<open>
  The self-admission of an installed release, \<open>system/grok-proxy/grok_ms/release_admission.py\<close>. Before
  a payload runs it proves that it is the release the root account selected: it takes the shared
  selection lock, reads the selection, the two manifests and the final evidence, and compares the
  digests that bind them to each other and to its own executable; a durable deny ledger stops it
  unless the call is a release canary or an authorised recovery. The digest function and what the
  host answers are arguments.
\<close>

section \<open>Reading release metadata\<close>

abbreviation mode_700 :: nat where "mode_700 \<equiv> 448"
abbreviation mode_555 :: nat where "mode_555 \<equiv> 365"
abbreviation mode_600 :: nat where "mode_600 \<equiv> 384"
abbreviation mode_644 :: nat where "mode_644 \<equiv> 420"

definition has_metadata :: "file_kind \<Rightarrow> int \<Rightarrow> int \<Rightarrow> nat \<Rightarrow> info \<Rightarrow> bool" where
  "has_metadata kind uid gid mode i \<longleftrightarrow> fi_kind i = kind \<and> fi_uid i = uid \<and> fi_gid i = gid \<and> fi_mode i = mode"

definition regular :: "path \<Rightarrow> int \<Rightarrow> int \<Rightarrow> nat \<Rightarrow> info asking" where
  "regular p uid gid mode =
     bindA (askA (Lstat p) the_info) (\<lambda>value.
     bindA (askA (Is_link p) the_bool) (\<lambda>link.
     thenA (refuse_if (link \<or> \<not> has_metadata RegularFile uid gid mode value) AdmissionError ''unsafe release file'')
       (returnA value)))"

definition directory :: "path \<Rightarrow> int \<Rightarrow> int \<Rightarrow> nat \<Rightarrow> unit asking" where
  "directory p uid gid mode =
     bindA (askA (Lstat p) the_info) (\<lambda>value.
     bindA (askA (Is_link p) the_bool) (\<lambda>link.
       refuse_if (link \<or> \<not> has_metadata DirectoryFile uid gid mode value) AdmissionError ''unsafe release directory''))"

definition read_file :: "path \<Rightarrow> int \<Rightarrow> int \<Rightarrow> nat \<Rightarrow> string asking" where
  "read_file p uid gid mode =
     bindA (regular p uid gid mode) (\<lambda>_.
     thenA (askA (Open_file p) the_unit)
    (bindA (askA (Fstat_file p) the_info) (\<lambda>value.
     thenA (refuse_if (\<not> has_metadata RegularFile uid gid mode value) AdmissionError ''release file changed while opening'')
       (read_whole p (1024 * 1024) []))))"

definition json_file :: "(string \<Rightarrow> bool) \<Rightarrow> path \<Rightarrow> int \<Rightarrow> int \<Rightarrow> nat \<Rightarrow> (jobject \<times> string) asking" where
  "json_file gives_up p uid gid mode =
     bindA (read_file p uid gid mode) (\<lambda>raw.
     bindA (Result (catchE (document_loads gives_up raw) is_value_error
              (\<lambda>_. raise AdmissionError ''invalid release metadata''))) (\<lambda>v.
     case v of
       JObj value \<Rightarrow>
         thenA (refuse_if (raw \<noteq> canonical_line v) AdmissionError ''release metadata is not canonical'')
           (returnA (value, raw))
     | _ \<Rightarrow> raiseA AdmissionError ''release metadata is not an object''))"

definition selector :: "path \<Rightarrow> int \<Rightarrow> int \<Rightarrow> string \<Rightarrow> unit asking" where
  "selector p uid gid release_id =
     bindA (askA (Lstat p) the_info) (\<lambda>value.
     thenA (refuse_if (fi_kind value \<noteq> SymbolicLink \<or> fi_uid value \<noteq> uid \<or> fi_gid value \<noteq> gid)
              AdmissionError ''release selector is not coherent'')
    (bindA (askA (Readlink p) the_bytes) (\<lambda>target.
       refuse_if (target \<noteq> ''releases/'' @ release_id) AdmissionError ''release selector is not coherent'')))"

text \<open>The environment, and \<open>_control\<close>: the control root with its owner, and whether it is a test one.\<close>

type_synonym environment = "(string \<times> string) list"

definition ROOT_CONTROL :: path where "ROOT_CONTROL = path_of ''/var/lib/grok-proxy/release-control''"
definition ROOT_ROOT :: path where "ROOT_ROOT = path_of ''/usr/local/libexec/grok-proxy''"

definition control :: "environment \<Rightarrow> (path \<times> int \<times> int \<times> bool) asking" where
  "control environment =
     (if map_of environment ''GROK_TESTING'' \<noteq> Some ''1'' \<or>
         map_of environment ''GROK_TEST_ROOT_RELEASE_CONTROL'' \<in> {None, Some []}
      then returnA (ROOT_CONTROL, 0, 0, False)
      else let candidate = path_of (the (map_of environment ''GROK_TEST_ROOT_RELEASE_CONTROL'')) in
        if path_root candidate = [] then raiseA AdmissionError ''test release-control path is not absolute''
        else bindA (askA Get_euid the_num) (\<lambda>uid. bindA (askA Get_egid the_num) (\<lambda>gid.
               returnA (candidate, uid, gid, True))))"

section \<open>The owner of the recovery fence\<close>

definition unreadable :: "exc_class \<Rightarrow> bool" where
  "unreadable c \<longleftrightarrow> is_os_error c \<or> c = UnicodeDecodeError"

text \<open>\<open>v in {...}\<close> for a set of strings: a list or dict is unhashable.\<close>

definition member_of :: "json \<Rightarrow> string set \<Rightarrow> bool result" where
  "member_of v names = (if hashable v then Inr (case v of JStr s \<Rightarrow> s \<in> names | _ \<Rightarrow> False)
                        else raise TypeError ''unhashable type'')"

definition FENCE_FIELDS :: "string list" where
  "FENCE_FIELDS = [''schema_version'', ''release_id'', ''owner_epoch'', ''pid'', ''pid_start_ticks'', ''boot_id'', ''phase'']"

definition check_fence :: "jobject \<Rightarrow> string \<Rightarrow> string \<Rightarrow> unit result" where
  "check_fence fence release_id owner_epoch =
     thenE (raise_if (\<not> (fst ` set fence = set FENCE_FIELDS \<and>
         py_eq (dict_get fence ''schema_version'') (JInt 1) \<and>
         py_eq (dict_get fence ''release_id'') (JStr release_id) \<and>
         py_eq (dict_get fence ''owner_epoch'') (JStr owner_epoch) \<and>
         (case dict_get fence ''pid'' of JInt pid \<Rightarrow> 1 \<le> pid \<and> pid \<le> 2 ^ 31 - 1 | _ \<Rightarrow> False) \<and>
         (case dict_get fence ''pid_start_ticks'' of JInt t \<Rightarrow> 1 \<le> t \<and> t \<le> 2 ^ 63 - 1 | _ \<Rightarrow> False) \<and>
         (case dict_get fence ''boot_id'' of JStr b \<Rightarrow> BOOT_ID_RE b | _ \<Rightarrow> False)))
       AdmissionError ''provider recovery fence is not exact'')
    (bindE (member_of (dict_get fence ''phase'') (set FENCE_PHASES)) (\<lambda>known.
       raise_if (\<not> known) AdmissionError ''provider recovery fence is not exact''))"

text \<open>The fields after the command name in \<open>/proc/<pid>/stat\<close>.\<close>

definition stat_fields :: "string \<Rightarrow> string list" where
  "stat_fields process_stat =
     (case rfind_close process_stat of None \<Rightarrow> [] | Some closing \<Rightarrow> split_ws (drop (closing + 2) process_stat))"

definition owner_is_gone :: "string \<Rightarrow> int \<Rightarrow> unit result" where
  "owner_is_gone process_stat start_ticks =
     (let fields = stat_fields process_stat in
      thenE (raise_if (length fields \<le> 19 \<or> length (fields ! 0) \<noteq> 1 \<or> \<not> list_all is_digit (fields ! 19))
        AdmissionError ''provider recovery owner identity is malformed'')
     (thenE (raise_if (length (fields ! 19) > 4300) ValueError ''Exceeds the limit for integer string conversion'')
     (if int (dec_nat (fields ! 19)) \<noteq> start_ticks \<or> fields ! 0 \<in> {''Z'', ''X'', ''x''} then Inr ()
      else raise AdmissionError ''provider recovery fence owner is still live'')))"

definition BOOT_ID_PATH :: path where "BOOT_ID_PATH = path_of ''/proc/sys/kernel/random/boot_id''"

definition stat_path :: "int \<Rightarrow> path" where
  "stat_path pid = sub (sub (path_of ''/proc'') (int_dec pid)) ''stat''"

definition dead_provider_recovery_fence ::
  "(string \<Rightarrow> bool) \<Rightarrow> path \<Rightarrow> int \<Rightarrow> int \<Rightarrow> string \<Rightarrow> environment \<Rightarrow> unit asking" where
  "dead_provider_recovery_fence gives_up user_root target_uid target_gid release_id environment =
     (let owner_epoch = map_of environment ''GROK_PROVIDER_OWNER_EPOCH'' in
      thenA (refuse_if (map_of environment ''GROK_PROVIDER_MODE'' \<noteq> Some ''1'' \<or>
               \<not> (\<exists>e \<in> set_option owner_epoch. RUNTIME_TOKEN_RE e) \<or>
               map_of environment ''GROK_ACTIVE_RELEASE_ID'' \<noteq> Some release_id)
             AdmissionError ''provider recovery identity is incomplete'')
     (bindA (Result (parent user_root 2)) (\<lambda>account_home.
      let place = sub account_home ''.local/state/grok-proxy/control'' in
      thenA (directory place target_uid target_gid mode_700)
     (bindA (json_file gives_up (sub place ''recovery.fence'') target_uid target_gid mode_600) (\<lambda>(fence, _).
      thenA (Result (check_fence fence release_id (the owner_epoch)))
     (bindA (catchA (askA (Read_text BOOT_ID_PATH) the_bytes) unreadable
               (\<lambda>_. raiseA AdmissionError ''cannot inspect the running boot identity'')) (\<lambda>boot_text.
      let running_boot = map lower_char (strip boot_text) in
      thenA (refuse_if (\<not> BOOT_ID_RE running_boot) AdmissionError ''running boot identity is invalid'')
     (if json_text (dict_get fence ''boot_id'') \<noteq> running_boot then returnA ()
      else bindA (catchA (catchA (bindA (askA (Read_text (stat_path (json_int (dict_get fence ''pid'')))) the_bytes)
                   (\<lambda>t. returnA (Some t))) (\<lambda>c. c = FileNotFoundError) (\<lambda>_. returnA None)) unreadable
                 (\<lambda>_. raiseA AdmissionError ''cannot inspect the provider recovery owner'')) (\<lambda>process_stat.
        case process_stat of
          None \<Rightarrow> returnA ()
        | Some text \<Rightarrow> Result (owner_is_gone text (json_int (dict_get fence ''pid_start_ticks''))))))))))))"

section \<open>Manifests, evidence and inventory\<close>

text \<open>\<open>for record in manifest.get("files", [])\<close>: what iterating over the value yields.\<close>

fun iterate :: "json \<Rightarrow> json list result" where
  "iterate (JArr xs) = Inr xs"
| "iterate (JStr s) = Inr (map (\<lambda>c. JStr [c]) s)"
| "iterate (JObj kvs) = Inr (map (\<lambda>kv. JStr (fst kv)) kvs)"
| "iterate _ = raise TypeError ''object is not iterable''"

definition records_at :: "string \<Rightarrow> json list \<Rightarrow> jobject list" where
  "records_at relative items =
     concat (map (\<lambda>v. case v of
       JObj record \<Rightarrow> (if py_eq (dict_get record ''path'') (JStr relative) then [record] else []) | _ \<Rightarrow> []) items)"

definition manifest_file ::
  "(string \<Rightarrow> string) \<Rightarrow> jobject \<Rightarrow> string \<Rightarrow> path \<Rightarrow> int \<Rightarrow> int \<Rightarrow> unit asking" where
  "manifest_file sha256 manifest relative p uid gid =
     bindA (Result (iterate (case map_of manifest ''files'' of None \<Rightarrow> JArr [] | Some v \<Rightarrow> v))) (\<lambda>items.
     case records_at relative items of
       [record] \<Rightarrow>
         bindA (read_file p uid gid mode_555) (\<lambda>raw.
           refuse_if (\<not> py_eq (dict_get record ''mode'') (JStr ''0555'') \<or>
                      \<not> py_eq (dict_get record ''size'') (JInt (int (length raw))) \<or>
                      \<not> py_eq (dict_get record ''sha256'') (JStr (sha256 raw)))
             AdmissionError ''release manifest digest differs'')
     | _ \<Rightarrow> raiseA AdmissionError ''release manifest does not bind the file'')"

definition ZERO_DIGEST :: string where "ZERO_DIGEST = replicate 64 (CHR ''0'')"

definition validate_selected_release_evidence ::
  "(string \<Rightarrow> string) \<Rightarrow> (string \<Rightarrow> bool) \<Rightarrow> path \<Rightarrow> string \<Rightarrow> int \<Rightarrow> int \<Rightarrow> jobject \<Rightarrow> unit asking" where
  "validate_selected_release_evidence sha256 gives_up root release_id root_uid root_gid selection =
     (let evidence_digest = dict_get selection ''evidence_sha256'' in
      thenA (refuse_if (\<not> (case evidence_digest of JStr d \<Rightarrow> DIGEST_RE d \<and> d \<noteq> ZERO_DIGEST | _ \<Rightarrow> False))
        AdmissionError ''selected release lacks final evidence'')
     (bindA (json_file gives_up (sub (sub root ''evidence'') (release_id @ ''.json'')) root_uid root_gid mode_444)
       (\<lambda>(evidence, evidence_raw).
      refuse_if (JStr (sha256 evidence_raw) \<noteq> evidence_digest \<or>
                 \<not> py_eq (dict_get evidence ''schema_version'') (JInt 3) \<or>
                 \<not> py_eq (dict_get evidence ''release_id'') (JStr release_id) \<or>
                 dict_get evidence ''overall_pass'' \<noteq> JBool True \<or>
                 \<not> py_eq (dict_get evidence ''user_manifest_sha256'') (dict_get selection ''user_manifest_sha256'') \<or>
                 \<not> py_eq (dict_get evidence ''root_manifest_sha256'') (dict_get selection ''root_manifest_sha256'') \<or>
                 \<not> py_eq (dict_get evidence ''root_files'') (dict_get selection ''root_files''))
        AdmissionError ''selected release evidence is invalid'')))"

definition host_id :: "(string \<Rightarrow> string) \<Rightarrow> string asking" where
  "host_id sha256 =
     bindA (catchA (askA (Read_text (path_of ''/etc/machine-id'')) the_bytes) unreadable
              (\<lambda>_. raiseA AdmissionError ''cannot read host identity'')) (\<lambda>text.
     thenA (refuse_if (\<not> (length (strip text) = 32 \<and> list_all is_hex (strip text)))
              AdmissionError ''host machine identity is invalid'')
       (returnA (sha256 (strip text))))"

definition INVENTORY_FIELDS :: "string list" where
  "INVENTORY_FIELDS = [''schema_version'', ''release_id'', ''host_id'', ''boot_id'', ''checked_unix_ns'', ''inventory_sha256'']"

text \<open>\<open>_host_id()\<close> is only called when the comparisons before it hold.\<close>

definition validate_boot_inventory ::
  "(string \<Rightarrow> string) \<Rightarrow> (string \<Rightarrow> bool) \<Rightarrow> path \<Rightarrow> string \<Rightarrow> int \<Rightarrow> int \<Rightarrow> unit asking" where
  "validate_boot_inventory sha256 gives_up root release_id root_uid root_gid =
     bindA (json_file gives_up (sub (sub root ''boot-inventory'') (release_id @ ''.json'')) root_uid root_gid mode_444)
       (\<lambda>(inventory, _).
     bindA (catchA (askA (Read_text BOOT_ID_PATH) the_bytes) unreadable
              (\<lambda>_. raiseA AdmissionError ''cannot read current boot identity'')) (\<lambda>text.
     thenA (refuse_if (\<not> BOOT_ID_RE (strip text)) AdmissionError ''current boot identity is invalid'')
    (thenA (refuse_if (fst ` set inventory \<noteq> set INVENTORY_FIELDS \<or>
              \<not> py_eq (dict_get inventory ''schema_version'') (JInt 1) \<or>
              \<not> py_eq (dict_get inventory ''release_id'') (JStr release_id))
            AdmissionError ''current-boot root inventory is invalid'')
    (bindA (host_id sha256) (\<lambda>host.
       refuse_if (\<not> py_eq (dict_get inventory ''host_id'') (JStr host) \<or>
                  \<not> py_eq (dict_get inventory ''boot_id'') (JStr (strip text)) \<or>
                  \<not> (case dict_get inventory ''checked_unix_ns'' of JInt i \<Rightarrow> 0 < i | _ \<Rightarrow> False) \<or>
                  \<not> (case dict_get inventory ''inventory_sha256'' of JStr s \<Rightarrow> DIGEST_RE s | _ \<Rightarrow> False))
         AdmissionError ''current-boot root inventory is invalid'')))))"

section \<open>The admission\<close>

record request =
  rq_release_dir :: path
  rq_executable :: path
  rq_lock_fd :: int
  rq_environment :: environment
  rq_canary_fd :: "int option"
  rq_public_recovery :: bool
  rq_provider_recovery :: bool
  rq_managed_doctor :: bool

text \<open>The local variables of \<open>validate\<close> once the manifests are read.\<close>

record located =
  lo_control :: path
  lo_uid :: int
  lo_gid :: int
  lo_release_id :: string
  lo_user_root :: path
  lo_root_root :: path
  lo_selection :: jobject
  lo_user_manifest_raw :: string
  lo_root_manifest_raw :: string

text \<open>\<open>validate\<close> up to the lock: the flags, the control root and the fixed lock file.\<close>

definition same_file :: "info \<Rightarrow> info \<Rightarrow> bool" where
  "same_file i j \<longleftrightarrow> fi_dev i = fi_dev j \<and> fi_ino i = fi_ino j"

definition take_lock :: "request \<Rightarrow> (path \<times> int \<times> int \<times> bool) asking" where
  "take_lock rq =
     thenA (refuse_if (rq_provider_recovery rq \<and> \<not> rq_public_recovery rq) AdmissionError
              ''provider recovery requires public recovery admission'')
    (thenA (refuse_if (rq_managed_doctor rq \<and> (rq_canary_fd rq \<noteq> None \<or> rq_public_recovery rq)) AdmissionError
              ''managed doctor admission cannot combine with recovery/canary'')
    (bindA (control (rq_environment rq)) (\<lambda>(root, uid, gid, test_install).
     thenA (refuse_if (\<not> test_install \<and>
              list_ex (\<lambda>name. name = ''GROK_TESTING'' \<or> starts_with name ''GROK_TEST_'') (map fst (rq_environment rq)))
            AdmissionError ''test variables are forbidden in a production release'')
    (thenA (directory root uid gid mode_755)
    (bindA (regular (sub root ''install.lock'') uid gid mode_644) (\<lambda>lock_info.
     bindA (askA (Fstat_fd (rq_lock_fd rq)) the_info) (\<lambda>actual_lock.
     thenA (refuse_if (fi_kind actual_lock \<noteq> RegularFile \<or> \<not> same_file actual_lock lock_info)
              AdmissionError ''release lock descriptor is not the fixed lock'')
    (thenA (askA (Lock_shared (rq_lock_fd rq)) the_unit)
       (returnA (root, uid, gid, test_install))))))))))"

text \<open>\<open>Path(os.path.abspath(path))\<close>\<close>

definition absolute :: "path \<Rightarrow> path asking" where
  "absolute p =
     (if path_root p \<noteq> [] then returnA (abspath p p)
      else bindA (askA Get_cwd the_bytes) (\<lambda>cwd. returnA (abspath (path_of cwd) p)))"

definition canonical_roots :: "bool \<Rightarrow> path \<Rightarrow> path \<Rightarrow> unit asking" where
  "canonical_roots test_install user_root root_root =
     (if test_install then returnA ()
      else bindA (askA Get_uid the_num) (\<lambda>uid. bindA (askA (Home_of uid) the_bytes) (\<lambda>home.
        refuse_if (user_root \<noteq> sub (path_of home) ''.local/lib/grok-proxy'' \<or> root_root \<noteq> ROOT_ROOT)
          AdmissionError ''selection roots are not canonical'')))"

text \<open>The directories of the release, and the pair of manifests in them.\<close>

definition release_at :: "path \<Rightarrow> string \<Rightarrow> path" where
  "release_at root release_id = sub (sub root ''releases'') release_id"

definition release_directories :: "path \<Rightarrow> path \<Rightarrow> path \<Rightarrow> string \<Rightarrow> int \<Rightarrow> int \<Rightarrow> unit asking" where
  "release_directories user_root root_root release_dir release_id uid gid =
     thenA (directory user_root uid gid mode_755)
    (thenA (directory (sub user_root ''releases'') uid gid mode_755)
    (thenA (directory release_dir uid gid mode_555)
    (thenA (directory root_root uid gid mode_755)
    (thenA (directory (sub root_root ''releases'') uid gid mode_755)
           (directory (release_at root_root release_id) uid gid mode_555)))))"

definition coherent_manifests ::
  "(string \<Rightarrow> bool) \<Rightarrow> path \<Rightarrow> path \<Rightarrow> string \<Rightarrow> int \<Rightarrow> int \<Rightarrow> (jobject \<times> string \<times> string) asking" where
  "coherent_manifests gives_up release_dir root_dir release_id uid gid =
     bindA (json_file gives_up (sub release_dir ''release.json'') uid gid mode_444) (\<lambda>(user_manifest, user_raw).
     bindA (json_file gives_up (sub root_dir ''release.json'') uid gid mode_444) (\<lambda>(root_manifest, root_raw).
     thenA (refuse_if (\<not> py_eq (dict_get user_manifest ''schema_version'') (JInt 2) \<or>
              \<not> py_eq (dict_get user_manifest ''kind'') (JStr ''user'') \<or>
              \<not> py_eq (dict_get user_manifest ''release_id'') (JStr release_id) \<or>
              \<not> py_eq (dict_get root_manifest ''schema_version'') (JInt 2) \<or>
              \<not> py_eq (dict_get root_manifest ''kind'') (JStr ''root'') \<or>
              \<not> py_eq (dict_get root_manifest ''release_id'') (JStr release_id))
            AdmissionError ''release manifests are not one coherent pair'')
       (returnA (user_manifest, user_raw, root_raw))))"

text \<open>From the lock to the executable's manifest record: the checks on the two roots, and what is before them.\<close>

definition bind_payload ::
  "(string \<Rightarrow> string) \<Rightarrow> (string \<Rightarrow> bool) \<Rightarrow> path \<times> int \<times> int \<times> bool \<Rightarrow> path \<Rightarrow> path \<Rightarrow> jobject \<Rightarrow> path \<Rightarrow> path \<Rightarrow>
   located asking" where
  "bind_payload sha256 gives_up place release_dir executable selection user_root root_root =
     (case place of (root, uid, gid, test_install) \<Rightarrow>
      let release_id = path_name release_dir in
      thenA (canonical_roots test_install user_root root_root)
     (thenA (refuse_if (\<not> py_eq (dict_get selection ''root_control'') (JStr (path_str root)))
               AdmissionError ''selection control root differs'')
     (thenA (refuse_if (release_dir \<noteq> release_at user_root release_id)
               AdmissionError ''release is not at its canonical selected path'')
     (thenA (release_directories user_root root_root release_dir release_id uid gid)
     (bindA (coherent_manifests gives_up release_dir (release_at root_root release_id) release_id uid gid)
       (\<lambda>(user_manifest, user_raw, root_raw).
      bindA (Result (relative_to executable release_dir)) (\<lambda>relative.
      thenA (manifest_file sha256 user_manifest relative executable uid gid)
        (returnA \<lparr>lo_control = root, lo_uid = uid, lo_gid = gid, lo_release_id = release_id,
           lo_user_root = user_root, lo_root_root = root_root, lo_selection = selection,
           lo_user_manifest_raw = user_raw, lo_root_manifest_raw = root_raw\<rparr>))))))))"

definition locate_release ::
  "(string \<Rightarrow> string) \<Rightarrow> (string \<Rightarrow> bool) \<Rightarrow> request \<Rightarrow> path \<times> int \<times> int \<times> bool \<Rightarrow> located asking" where
  "locate_release sha256 gives_up rq place =
     (case place of (root, uid, gid, test_install) \<Rightarrow>
      bindA (absolute (rq_release_dir rq)) (\<lambda>release_dir.
      bindA (absolute (rq_executable rq)) (\<lambda>executable.
      thenA (refuse_if (\<not> DIGEST_RE (path_name release_dir)) AdmissionError ''release directory has no release identity'')
     (bindA (json_file gives_up (sub root ''selected-release.json'') uid gid mode_444) (\<lambda>(selection, _).
      case (dict_get selection ''user_root'', dict_get selection ''root_root'') of
        (JStr user, JStr rootr) \<Rightarrow>
          bind_payload sha256 gives_up place release_dir executable selection (path_of user) (path_of rootr)
      | _ \<Rightarrow> raiseA AdmissionError ''selection roots are invalid'')))))"

text \<open>\<open>path.exists() or path.is_symlink()\<close>\<close>

definition present :: "path \<Rightarrow> bool asking" where
  "present p = bindA (askA (Exists p) the_bool) (\<lambda>e. if e then returnA True else askA (Is_link p) the_bool)"

definition deny_path :: "located \<Rightarrow> path" where
  "deny_path l = sub (lo_control l) ''rollback-deny.json''"

text \<open>The canary branch: the fixed authorisation lock and the release it is for.\<close>

definition admit_canary :: "request \<Rightarrow> int \<Rightarrow> located \<Rightarrow> string asking" where
  "admit_canary rq canary_fd l =
     bindA (regular (sub (lo_control l) ''canary-auth.lock'') (lo_uid l) (lo_gid l) mode_600) (\<lambda>auth_info.
     bindA (askA (Fstat_fd canary_fd) the_info) (\<lambda>actual_auth.
     thenA (refuse_if (fi_kind actual_auth \<noteq> RegularFile \<or> \<not> same_file actual_auth auth_info \<or>
              map_of (rq_environment rq) ''GROK_RELEASE_CANARY_RELEASE_ID'' \<noteq> Some (lo_release_id l))
            AdmissionError ''release canary authorization is not fixed'')
       (returnA (lo_release_id l))))"

definition DENY_FIELDS :: "string list" where
  "DENY_FIELDS = [''schema_version'', ''operation'', ''from_release'', ''to_release'']"

text \<open>The deny ledger, as far as the recovery branch checks it.\<close>

definition check_deny :: "jobject \<Rightarrow> string \<Rightarrow> unit result" where
  "check_deny deny release_id =
     thenE (raise_if (fst ` set deny \<noteq> set DENY_FIELDS \<or> \<not> py_eq (dict_get deny ''schema_version'') (JInt 1))
       AdmissionError ''public recovery deny ledger is invalid'')
    (bindE (member_of (dict_get deny ''operation'') {''install'', ''rollback'', ''canary''}) (\<lambda>known.
     thenE (raise_if (\<not> known) AdmissionError ''public recovery deny ledger is invalid'')
    (thenE (raise_if (\<not> (hashable (dict_get deny ''from_release'') \<and> hashable (dict_get deny ''to_release'')))
       TypeError ''unhashable type'')
       (raise_if (JStr release_id \<notin> {dict_get deny ''from_release'', dict_get deny ''to_release''})
         AdmissionError ''public recovery deny ledger is invalid''))))"

definition admit_recovery :: "(string \<Rightarrow> bool) \<Rightarrow> request \<Rightarrow> located \<Rightarrow> string asking" where
  "admit_recovery gives_up rq l =
     bindA (json_file gives_up (deny_path l) (lo_uid l) (lo_gid l) mode_444) (\<lambda>(deny, _).
     thenA (Result (check_deny deny (lo_release_id l)))
    (case (dict_get (lo_selection l) ''target_uid'', dict_get (lo_selection l) ''target_gid'') of
       (JInt target_uid, JInt target_gid) \<Rightarrow>
         thenA (if rq_provider_recovery rq
                then dead_provider_recovery_fence gives_up (lo_user_root l) target_uid target_gid
                       (lo_release_id l) (rq_environment rq)
                else returnA ())
           (returnA (lo_release_id l))
     | _ \<Rightarrow> raiseA AdmissionError ''selection target identity is invalid''))"

text \<open>\<open>root_copy\<close>: the selection without \<open>user_selection_sha256\<close>.\<close>

definition without_key :: "string \<Rightarrow> jobject \<Rightarrow> jobject" where
  "without_key k kvs = filter (\<lambda>kv. fst kv \<noteq> k) kvs"

definition selection_ready :: "(string \<Rightarrow> string) \<Rightarrow> jobject \<Rightarrow> located \<Rightarrow> bool" where
  "selection_ready sha256 root_copy l \<longleftrightarrow>
     py_eq (dict_get root_copy ''schema_version'') (JInt 1) \<and>
     py_eq (dict_get root_copy ''release_schema_version'') (JInt 2) \<and>
     py_eq (dict_get root_copy ''handshake_protocol'') (JInt 1) \<and>
     py_eq (dict_get root_copy ''selection_phase'') (JStr ''READY'') \<and>
     py_eq (dict_get root_copy ''release_id'') (JStr (lo_release_id l)) \<and>
     py_eq (dict_get root_copy ''user_release_id'') (JStr (lo_release_id l)) \<and>
     py_eq (dict_get root_copy ''root_release_id'') (JStr (lo_release_id l)) \<and>
     (case dict_get root_copy ''qualified_rungs'' of JArr _ \<Rightarrow> True | _ \<Rightarrow> False) \<and>
     py_eq (dict_get root_copy ''user_manifest_sha256'') (JStr (sha256 (lo_user_manifest_raw l))) \<and>
     py_eq (dict_get root_copy ''root_manifest_sha256'') (JStr (sha256 (lo_root_manifest_raw l)))"

definition admission_errors :: "exc_class \<Rightarrow> bool" where
  "admission_errors c \<longleftrightarrow> c \<in> {AdmissionError, ManagedDoctorBlocked} \<or> is_os_error c \<or> is_value_error c"

text \<open>From the target account to the end: the ordinary admission.\<close>

definition admit_selected ::
  "(string \<Rightarrow> string) \<Rightarrow> (string \<Rightarrow> bool) \<Rightarrow> request \<Rightarrow> located \<Rightarrow> string asking" where
  "admit_selected sha256 gives_up rq l =
     bindA (askA Get_uid the_num) (\<lambda>uid.
     thenA (refuse_if (\<not> py_eq (dict_get (lo_selection l) ''target_uid'') (JInt uid)) AdmissionError
              ''selection targets another account'')
    (bindA (askA Get_gid the_num) (\<lambda>gid.
     thenA (refuse_if (\<not> py_eq (dict_get (lo_selection l) ''target_gid'') (JInt gid)) AdmissionError
              ''selection targets another account'')
    (bindA (Result (parent (lo_user_root l) 2)) (\<lambda>account_home.
     let user_control = sub account_home ''.local/state/grok-proxy/release-control'';
         root_copy = without_key ''user_selection_sha256'' (lo_selection l) in
     thenA (directory user_control uid gid mode_700)
    (bindA (json_file gives_up (sub user_control ''selected-release.json'') uid gid mode_444) (\<lambda>(user_selection, user_raw).
     thenA (refuse_if (\<not> py_eq (dict_get (lo_selection l) ''user_selection_sha256'') (JStr (sha256 user_raw)) \<or>
              \<not> py_eq (JObj root_copy) (JObj user_selection))
            AdmissionError ''root and user selection records differ'')
    (thenA (refuse_if (\<not> selection_ready sha256 root_copy l) AdmissionError
              ''selected release metadata is not READY and coherent'')
    (thenA (catchA (validate_selected_release_evidence sha256 gives_up (lo_control l) (lo_release_id l) (lo_uid l) (lo_gid l) root_copy)
              (\<lambda>c. admission_errors c \<and> rq_managed_doctor rq)
              (\<lambda>_. raiseA ManagedDoctorBlocked ''selected release evidence is unavailable''))
    (thenA (selector (sub (lo_user_root l) ''current'') (lo_uid l) (lo_gid l) (lo_release_id l))
    (thenA (selector (sub (lo_root_root l) ''current'') (lo_uid l) (lo_gid l) (lo_release_id l))
    (thenA (if map_of (rq_environment rq) ''GROK_MULTI_SESSION'' = Some ''1'' \<and> \<not> rq_managed_doctor rq
            then validate_boot_inventory sha256 gives_up (lo_control l) (lo_release_id l) (lo_uid l) (lo_gid l)
            else returnA ())
    (bindA (present (deny_path l)) (\<lambda>denied.
     thenA (refuse_if denied AdmissionError ''durable deny appeared during admission'')
       (returnA (lo_release_id l))))))))))))))))"

definition validate :: "(string \<Rightarrow> string) \<Rightarrow> (string \<Rightarrow> bool) \<Rightarrow> request \<Rightarrow> string asking" where
  "validate sha256 gives_up rq =
     bindA (take_lock rq) (\<lambda>place.
     bindA (locate_release sha256 gives_up rq place) (\<lambda>l.
     case rq_canary_fd rq of
       Some fd \<Rightarrow> admit_canary rq fd l
     | None \<Rightarrow>
         bindA (present (deny_path l)) (\<lambda>deny_present.
           if deny_present \<and> rq_public_recovery rq then admit_recovery gives_up rq l
           else thenA (refuse_if deny_present AdmissionError ''durable install/rollback deny is active'')
             (admit_selected sha256 gives_up rq l))))"

text \<open>\<open>main\<close>: the exit status of the gate, once its arguments are parsed.\<close>

definition gate_status :: "(string \<Rightarrow> string) \<Rightarrow> (string \<Rightarrow> bool) \<Rightarrow> request \<Rightarrow> int asking" where
  "gate_status sha256 gives_up rq =
     catchA (catchA (bindA (validate sha256 gives_up rq) (\<lambda>_. returnA 0))
       (\<lambda>c. c = ManagedDoctorBlocked) (\<lambda>_. returnA 79)) admission_errors (\<lambda>_. returnA 78)"

section \<open>What an admission has seen\<close>

text \<open>
  Whatever else changes on the host during a run: a record was read between two questions of it, from
  a file that was at that moment a regular file of its owner with the mode it must have, and its
  bytes are the canonical text of the object.
\<close>

definition was_read :: "world \<Rightarrow> nat \<Rightarrow> nat \<Rightarrow> path \<Rightarrow> int \<Rightarrow> int \<Rightarrow> nat \<Rightarrow> string \<Rightarrow> bool" where
  "was_read w n m p uid gid mode raw \<longleftrightarrow> (\<exists>i j st. n \<le> i \<and> j \<le> m \<and> w i (Fstat_file p) = A_info st \<and>
     has_metadata RegularFile uid gid mode st \<and> consult w (read_whole p (1024 * 1024) []) (Suc i) = (Inr raw, j))"

definition record_read :: "world \<Rightarrow> nat \<Rightarrow> nat \<Rightarrow> path \<Rightarrow> int \<Rightarrow> int \<Rightarrow> nat \<Rightarrow> jobject \<Rightarrow> string \<Rightarrow> bool" where
  "record_read w n m p uid gid mode kvs raw \<longleftrightarrow>
     was_read w n m p uid gid mode raw \<and> json_wf (JObj kvs) \<and> raw = canonical_line (JObj kvs)"

lemma was_read_wider: "was_read w i j p uid gid mode raw \<Longrightarrow> n \<le> i \<Longrightarrow> j \<le> m \<Longrightarrow> was_read w n m p uid gid mode raw"
  unfolding was_read_def by (meson le_trans)

lemma record_read_wider:
  "record_read w i j p uid gid mode kvs raw \<Longrightarrow> n \<le> i \<Longrightarrow> j \<le> m \<Longrightarrow> record_read w n m p uid gid mode kvs raw"
  unfolding record_read_def using was_read_wider by blast

lemma read_file_consult:
  assumes "consult w (read_file p uid gid mode) n = (Inr raw, m)"
  shows "was_read w n m p uid gid mode raw"
proof -
  from assms obtain i st where i: "consult w (regular p uid gid mode) n = (Inr st, i)"
    and "\<exists>st. w (Suc i) (Fstat_file p) = A_info st \<and> has_metadata RegularFile uid gid mode st \<and>
      consult w (read_whole p (1024 * 1024) []) (Suc (Suc i)) = (Inr raw, m)"
    unfolding read_file_def consulted the_answers by (elim exE conjE) simp
  with consult_mono [OF i] show ?thesis unfolding was_read_def by (meson le_SucI order_refl)
qed

lemma json_file_consult:
  assumes "consult w (json_file g p uid gid mode) n = (Inr (kvs, raw), m)"
  shows "record_read w n m p uid gid mode kvs raw"
proof -
  from assms obtain i bytes v where i: "consult w (read_file p uid gid mode) n = (Inr bytes, i)"
    and v: "catchE (document_loads g bytes) is_value_error (\<lambda>_. raise AdmissionError ''invalid release metadata'') = Inr v"
    and rest: "consult w (case v of
       JObj value \<Rightarrow>
         thenA (refuse_if (bytes \<noteq> canonical_line v) AdmissionError ''release metadata is not canonical'')
           (returnA (value, bytes))
     | _ \<Rightarrow> raiseA AdmissionError ''release metadata is not an object'') i = (Inr (kvs, raw), m)"
    unfolding json_file_def consulted by blast
  from rest have "v = JObj kvs \<and> raw = bytes \<and> bytes = canonical_line v \<and> m = i"
    by (cases v) (auto simp: consulted)
  moreover have "document_loads g bytes = Inr v"
    using v by (cases "document_loads g bytes") (auto simp: catchE_def split: if_splits)
  ultimately show ?thesis using read_file_consult [OF i] document_loads_Inr by (auto simp: record_read_def)
qed

text \<open>The control root of a run that got past the lock.\<close>

lemma take_lock_consult:
  assumes "consult w (take_lock rq) n = (Inr (root, uid, gid, test_install), m)"
  shows "n \<le> m" and "rq_provider_recovery rq \<Longrightarrow> rq_public_recovery rq"
    and "rq_managed_doctor rq \<Longrightarrow> rq_canary_fd rq = None \<and> \<not> rq_public_recovery rq"
    and "test_install \<or> root = ROOT_CONTROL \<and> uid = 0 \<and> gid = 0 \<and>
      (\<forall>(name, v) \<in> set (rq_environment rq). name \<noteq> ''GROK_TESTING'' \<and> \<not> starts_with name ''GROK_TEST_'')"
proof -
  show "n \<le> m" using assms by (rule consult_mono)
  have flags: "\<not> (rq_provider_recovery rq \<and> \<not> rq_public_recovery rq)"
    "\<not> (rq_managed_doctor rq \<and> (rq_canary_fd rq \<noteq> None \<or> rq_public_recovery rq))"
    using assms unfolding take_lock_def by (simp_all only: consulted) blast+
  then show "rq_provider_recovery rq \<Longrightarrow> rq_public_recovery rq"
    and "rq_managed_doctor rq \<Longrightarrow> rq_canary_fd rq = None \<and> \<not> rq_public_recovery rq" by auto
  obtain i where c: "consult w (control (rq_environment rq)) n = (Inr (root, uid, gid, test_install), i)"
    and e: "\<not> (\<not> test_install \<and> list_ex (\<lambda>name. name = ''GROK_TESTING'' \<or> starts_with name ''GROK_TEST_'')
      (map fst (rq_environment rq)))"
    using assms unfolding take_lock_def by (auto simp: consulted split: prod.splits)
  have "test_install \<or> root = ROOT_CONTROL \<and> uid = 0 \<and> gid = 0"
    using c unfolding control_def Let_def by (auto simp: consulted split: if_splits)
  then show "test_install \<or> root = ROOT_CONTROL \<and> uid = 0 \<and> gid = 0 \<and>
      (\<forall>(name, v) \<in> set (rq_environment rq). name \<noteq> ''GROK_TESTING'' \<and> \<not> starts_with name ''GROK_TEST_'')"
    using e by (auto simp: list_ex_iff)
qed

text \<open>
  What binds the payload to its release: the selection, read from the control root; the pair of
  manifests at the canonical places it names; and the executable's bytes, read while the run lasted,
  in the one record of the user manifest that has its path.
\<close>

definition bound_to_manifest :: "(string \<Rightarrow> string) \<Rightarrow> jobject \<Rightarrow> string \<Rightarrow> string \<Rightarrow> bool" where
  "bound_to_manifest sha256 manifest relative raw \<longleftrightarrow>
     (\<exists>items record. iterate (case map_of manifest ''files'' of None \<Rightarrow> JArr [] | Some v \<Rightarrow> v) = Inr items \<and>
        records_at relative items = [record] \<and> dict_get record ''mode'' = JStr ''0555'' \<and>
        py_eq (dict_get record ''size'') (JInt (int (length raw))) \<and> dict_get record ''sha256'' = JStr (sha256 raw))"

definition manifest_of :: "string \<Rightarrow> string \<Rightarrow> jobject \<Rightarrow> bool" where
  "manifest_of kind release_id manifest \<longleftrightarrow> py_eq (dict_get manifest ''schema_version'') (JInt 2) \<and>
     dict_get manifest ''kind'' = JStr kind \<and> dict_get manifest ''release_id'' = JStr release_id"

definition selection_read :: "world \<Rightarrow> nat \<Rightarrow> nat \<Rightarrow> located \<Rightarrow> bool" where
  "selection_read w n m l \<longleftrightarrow>
     (\<exists>raw user rootr. record_read w n m (sub (lo_control l) ''selected-release.json'') (lo_uid l) (lo_gid l) mode_444 (lo_selection l) raw \<and>
        dict_get (lo_selection l) ''user_root'' = JStr user \<and> lo_user_root l = path_of user \<and>
        dict_get (lo_selection l) ''root_root'' = JStr rootr \<and> lo_root_root l = path_of rootr \<and>
        dict_get (lo_selection l) ''root_control'' = JStr (path_str (lo_control l)))"

definition payload_bound :: "(string \<Rightarrow> string) \<Rightarrow> world \<Rightarrow> nat \<Rightarrow> nat \<Rightarrow> request \<Rightarrow> located \<Rightarrow> bool" where
  "payload_bound sha256 w n m rq l \<longleftrightarrow>
     DIGEST_RE (lo_release_id l) \<and>
     (\<exists>h i j release_dir executable user_manifest root_manifest relative raw.
        n \<le> h \<and> consult w (absolute (rq_release_dir rq)) h = (Inr release_dir, i) \<and>
        consult w (absolute (rq_executable rq)) i = (Inr executable, j) \<and>
        lo_release_id l = path_name release_dir \<and> release_dir = release_at (lo_user_root l) (lo_release_id l) \<and>
        record_read w n m (sub release_dir ''release.json'') (lo_uid l) (lo_gid l) mode_444 user_manifest (lo_user_manifest_raw l) \<and>
        record_read w n m (sub (release_at (lo_root_root l) (lo_release_id l)) ''release.json'') (lo_uid l) (lo_gid l) mode_444
          root_manifest (lo_root_manifest_raw l) \<and>
        manifest_of ''user'' (lo_release_id l) user_manifest \<and> manifest_of ''root'' (lo_release_id l) root_manifest \<and>
        relative_to executable release_dir = Inr relative \<and>
        was_read w n m executable (lo_uid l) (lo_gid l) mode_555 raw \<and> bound_to_manifest sha256 user_manifest relative raw)"

lemma manifest_file_consult:
  assumes "consult w (manifest_file sha256 manifest relative p uid gid) n = (Inr (), m)"
  shows "\<exists>raw. was_read w n m p uid gid mode_555 raw \<and> bound_to_manifest sha256 manifest relative raw"
proof -
  from assms obtain items where items: "iterate (case map_of manifest ''files'' of None \<Rightarrow> JArr [] | Some v \<Rightarrow> v) = Inr items"
    and rest: "consult w (case records_at relative items of
       [record] \<Rightarrow>
         bindA (read_file p uid gid mode_555) (\<lambda>raw.
           refuse_if (\<not> py_eq (dict_get record ''mode'') (JStr ''0555'') \<or>
                      \<not> py_eq (dict_get record ''size'') (JInt (int (length raw))) \<or>
                      \<not> py_eq (dict_get record ''sha256'') (JStr (sha256 raw)))
             AdmissionError ''release manifest digest differs'')
     | _ \<Rightarrow> raiseA AdmissionError ''release manifest does not bind the file'') n = (Inr (), m)"
    unfolding manifest_file_def consulted by blast
  then obtain entry where entry: "records_at relative items = [entry]"
    by (cases "records_at relative items"; cases "List.tl (records_at relative items)") simp_all
  from rest [unfolded entry list.case consulted]
  obtain raw where "was_read w n m p uid gid mode_555 raw" and "py_eq (dict_get entry ''mode'') (JStr ''0555'')"
      "py_eq (dict_get entry ''size'') (JInt (int (length raw)))" "py_eq (dict_get entry ''sha256'') (JStr (sha256 raw))"
    using read_file_consult by blast
  moreover from this items entry have "bound_to_manifest sha256 manifest relative raw"
    unfolding bound_to_manifest_def by (intro exI [of _ items] exI [of _ entry]) simp
  ultimately show ?thesis by blast
qed

lemma consult_pair:
  "(\<exists>x j. consult w p n = (Inr x, j) \<and> consult w (case x of (a, b) \<Rightarrow> f a b) j = r) \<longleftrightarrow>
   (\<exists>a b j. consult w p n = (Inr (a, b), j) \<and> consult w (f a b) j = r)"
  "(\<exists>x j. consult w q n = (Inr (c, x), j) \<and> consult w (case x of (a, b) \<Rightarrow> h a b) j = s) \<longleftrightarrow>
   (\<exists>a b j. consult w q n = (Inr (c, a, b), j) \<and> consult w (h a b) j = s)"
  by auto

lemma coherent_manifests_consult:
  assumes "consult w (coherent_manifests g release_dir root_dir release_id uid gid) n = (Inr (um, user_raw, root_raw), m)"
  shows "record_read w n m (sub release_dir ''release.json'') uid gid mode_444 um user_raw \<and> manifest_of ''user'' release_id um \<and>
    (\<exists>rm. record_read w n m (sub root_dir ''release.json'') uid gid mode_444 rm root_raw \<and> manifest_of ''root'' release_id rm)"
proof -
  from assms obtain i rm where i: "consult w (json_file g (sub release_dir ''release.json'') uid gid mode_444) n = (Inr (um, user_raw), i)"
    and j: "consult w (json_file g (sub root_dir ''release.json'') uid gid mode_444) i = (Inr (rm, root_raw), m)"
    and "manifest_of ''user'' release_id um" "manifest_of ''root'' release_id rm"
    unfolding coherent_manifests_def manifest_of_def consulted consult_pair py_eq_atoms(1) by blast
  then show ?thesis
    using record_read_wider [OF json_file_consult [OF i] order_refl consult_mono [OF j]]
      record_read_wider [OF json_file_consult [OF j] consult_mono [OF i] order_refl] by blast
qed

lemma bind_payload_consult:
  assumes "consult w (bind_payload sha256 g (root, uid, gid, test_install) release_dir executable selection user_root root_root) n = (Inr l, m)"
  shows "\<exists>um rm relative raw. lo_control l = root \<and> lo_uid l = uid \<and> lo_gid l = gid \<and> lo_release_id l = path_name release_dir \<and>
    lo_user_root l = user_root \<and> lo_root_root l = root_root \<and> lo_selection l = selection \<and>
    dict_get selection ''root_control'' = JStr (path_str root) \<and> release_dir = release_at user_root (path_name release_dir) \<and>
    record_read w n m (sub release_dir ''release.json'') uid gid mode_444 um (lo_user_manifest_raw l) \<and>
    record_read w n m (sub (release_at root_root (path_name release_dir)) ''release.json'') uid gid mode_444 rm (lo_root_manifest_raw l) \<and>
    manifest_of ''user'' (path_name release_dir) um \<and> manifest_of ''root'' (path_name release_dir) rm \<and>
    relative_to executable release_dir = Inr relative \<and>
    was_read w n m executable uid gid mode_555 raw \<and> bound_to_manifest sha256 um relative raw"
proof -
  from assms obtain i j p q um user_raw root_raw relative where
    "consult w (canonical_roots test_install user_root root_root) n = (Inr (), i)"
    and roots: "dict_get selection ''root_control'' = JStr (path_str root)" "release_dir = release_at user_root (path_name release_dir)"
    and "consult w (release_directories user_root root_root release_dir (path_name release_dir) uid gid) i = (Inr (), p)"
    and manifests: "consult w (coherent_manifests g release_dir (release_at root_root (path_name release_dir)) (path_name release_dir) uid gid) p =
      (Inr (um, user_raw, root_raw), q)"
    and relative: "relative_to executable release_dir = Inr relative"
    and exe: "consult w (manifest_file sha256 um relative executable uid gid) q = (Inr (), m)"
    and l: "l = \<lparr>lo_control = root, lo_uid = uid, lo_gid = gid, lo_release_id = path_name release_dir,
         lo_user_root = user_root, lo_root_root = root_root, lo_selection = selection,
         lo_user_manifest_raw = user_raw, lo_root_manifest_raw = root_raw\<rparr>"
    unfolding bind_payload_def Let_def prod.case consulted consult_pair py_eq_atoms(1) not_not by blast
  moreover have "n \<le> i" "i \<le> p" "p \<le> q" "q \<le> m" using calculation(1,4) manifests exe by (auto dest: consult_mono)
  then have o: "n \<le> p" "n \<le> q" "q \<le> m" by simp_all
  from coherent_manifests_consult [OF manifests] obtain rm where
    "record_read w p q (sub release_dir ''release.json'') uid gid mode_444 um user_raw" "manifest_of ''user'' (path_name release_dir) um"
    "record_read w p q (sub (release_at root_root (path_name release_dir)) ''release.json'') uid gid mode_444 rm root_raw"
    "manifest_of ''root'' (path_name release_dir) rm" by blast
  moreover from manifest_file_consult [OF exe] obtain raw where
    "was_read w q m executable uid gid mode_555 raw" "bound_to_manifest sha256 um relative raw" by blast
  ultimately show ?thesis
    unfolding l located.simps
    using roots relative record_read_wider [OF _ o(1,3)] was_read_wider [OF _ o(2) order_refl] by blast
qed

lemma locate_release_consult:
  assumes "consult w (locate_release sha256 g rq (root, uid, gid, test_install)) n = (Inr l, m)"
  shows "lo_control l = root \<and> lo_uid l = uid \<and> lo_gid l = gid \<and> selection_read w n m l \<and> payload_bound sha256 w n m rq l"
proof -
  from assms obtain release_dir executable i j k selection raw where
    1: "consult w (absolute (rq_release_dir rq)) n = (Inr release_dir, i)"
      "consult w (absolute (rq_executable rq)) i = (Inr executable, j)"
      "consult w (json_file g (sub root ''selected-release.json'') uid gid mode_444) j = (Inr (selection, raw), k)"
    and digest: "DIGEST_RE (path_name release_dir)"
    and rest: "consult w (case (dict_get selection ''user_root'', dict_get selection ''root_root'') of
        (JStr user, JStr rootr) \<Rightarrow>
          bind_payload sha256 g (root, uid, gid, test_install) release_dir executable selection (path_of user) (path_of rootr)
      | _ \<Rightarrow> raiseA AdmissionError ''selection roots are invalid'') k = (Inr l, m)"
    unfolding locate_release_def prod.case consulted consult_pair by blast
  from rest obtain user rootr where roots: "dict_get selection ''user_root'' = JStr user" "dict_get selection ''root_root'' = JStr rootr"
    and bind: "consult w (bind_payload sha256 g (root, uid, gid, test_install) release_dir executable selection (path_of user) (path_of rootr)) k = (Inr l, m)"
    by (auto split: json.splits)
  have o: "n \<le> i" "i \<le> j" "j \<le> k" "k \<le> m" using 1 bind by (auto dest: consult_mono)
  from bind_payload_consult [OF bind] obtain um rm relative raw' where
    b: "lo_control l = root" "lo_uid l = uid" "lo_gid l = gid" "lo_release_id l = path_name release_dir"
      "lo_user_root l = path_of user" "lo_root_root l = path_of rootr" "lo_selection l = selection"
      "dict_get selection ''root_control'' = JStr (path_str root)" "release_dir = release_at (path_of user) (path_name release_dir)"
    and r: "record_read w k m (sub release_dir ''release.json'') uid gid mode_444 um (lo_user_manifest_raw l)"
      "record_read w k m (sub (release_at (path_of rootr) (path_name release_dir)) ''release.json'') uid gid mode_444 rm (lo_root_manifest_raw l)"
      "was_read w k m executable uid gid mode_555 raw'"
    and c: "manifest_of ''user'' (path_name release_dir) um" "manifest_of ''root'' (path_name release_dir) rm"
      "relative_to executable release_dir = Inr relative" "bound_to_manifest sha256 um relative raw'"
    by blast
  have "n \<le> k" "n \<le> j" using o by simp_all
  then have s: "record_read w n m (sub root ''selected-release.json'') uid gid mode_444 selection raw"
    using record_read_wider [OF json_file_consult [OF 1(3)]] o(4) by blast
  have "selection_read w n m l" unfolding selection_read_def using s roots b by auto
  moreover have "payload_bound sha256 w n m rq l" unfolding payload_bound_def b(1-7)
    using digest 1(1,2) b(9) c record_read_wider [OF r(1)] record_read_wider [OF r(2)] was_read_wider [OF r(3)] \<open>n \<le> k\<close>
    by (blast intro: order_refl)
  ultimately show ?thesis using b by simp
qed

lemma located_wider:
  assumes "n \<le> i" and "j \<le> m"
  shows "selection_read w i j l \<Longrightarrow> selection_read w n m l" and "payload_bound sha256 w i j rq l \<Longrightarrow> payload_bound sha256 w n m rq l"
proof -
  show "selection_read w i j l \<Longrightarrow> selection_read w n m l"
    using record_read_wider [OF _ assms] unfolding selection_read_def by blast
  show "payload_bound sha256 w i j rq l \<Longrightarrow> payload_bound sha256 w n m rq l"
    unfolding payload_bound_def
    by (elim exE conjE, intro conjI exI)
      (assumption | erule record_read_wider [OF _ assms] | erule was_read_wider [OF _ assms] | erule le_trans [OF assms(1)])+
qed

text \<open>The three ways to be admitted: by the canary's lock, by the deny ledger, by the selection.\<close>

definition by_canary :: "world \<Rightarrow> request \<Rightarrow> located \<Rightarrow> bool" where
  "by_canary w rq l \<longleftrightarrow>
     (\<exists>fd i j auth held. rq_canary_fd rq = Some fd \<and>
        consult w (regular (sub (lo_control l) ''canary-auth.lock'') (lo_uid l) (lo_gid l) mode_600) i = (Inr auth, j) \<and>
        w j (Fstat_fd fd) = A_info held \<and> fi_kind held = RegularFile \<and> same_file held auth \<and>
        map_of (rq_environment rq) ''GROK_RELEASE_CANARY_RELEASE_ID'' = Some (lo_release_id l))"

lemma admit_canary_consult:
  assumes "consult w (admit_canary rq fd l) n = (Inr rid, m)" and "rq_canary_fd rq = Some fd"
  shows "rid = lo_release_id l \<and> by_canary w rq l"
  using assms unfolding admit_canary_def consulted the_answers by_canary_def by blast

text \<open>The recorded owner cannot run any more: another boot, no such process, or not that process alive.\<close>

definition owner_dead :: "world \<Rightarrow> jobject \<Rightarrow> bool" where
  "owner_dead w fence \<longleftrightarrow>
     (\<exists>i text. w i (Read_text BOOT_ID_PATH) = A_data text \<and> BOOT_ID_RE (map lower_char (strip text)) \<and>
        (json_text (dict_get fence ''boot_id'') \<noteq> map lower_char (strip text) \<or>
         (\<exists>j. w j (Read_text (stat_path (json_int (dict_get fence ''pid'')))) = A_error FileNotFoundError) \<or>
         (\<exists>j stat. w j (Read_text (stat_path (json_int (dict_get fence ''pid'')))) = A_data stat \<and>
            owner_is_gone stat (json_int (dict_get fence ''pid_start_ticks'')) = Inr ())))"

definition fence_released :: "world \<Rightarrow> nat \<Rightarrow> nat \<Rightarrow> path \<Rightarrow> int \<Rightarrow> int \<Rightarrow> string \<Rightarrow> environment \<Rightarrow> bool" where
  "fence_released w n m user_root uid gid release_id environment \<longleftrightarrow>
     (\<exists>owner_epoch home fence raw. map_of environment ''GROK_PROVIDER_MODE'' = Some ''1'' \<and>
        map_of environment ''GROK_PROVIDER_OWNER_EPOCH'' = Some owner_epoch \<and>
        map_of environment ''GROK_ACTIVE_RELEASE_ID'' = Some release_id \<and> parent user_root 2 = Inr home \<and>
        record_read w n m (sub (sub home ''.local/state/grok-proxy/control'') ''recovery.fence'') uid gid mode_600 fence raw \<and>
        check_fence fence release_id owner_epoch = Inr () \<and> owner_dead w fence)"

lemma consult_catchA_Inr:
  "consult w (catchA p c h) n = (Inr x, m) \<longleftrightarrow> consult w p n = (Inr x, m) \<or>
   (\<exists>e j. consult w p n = (Inl e, j) \<and> c (exc_class e) \<and> consult w (h e) j = (Inr x, m))"
  by (auto simp: catchA_def consult_handleA split: prod.splits sum.splits)

lemma fence_consult:
  assumes "consult w (dead_provider_recovery_fence g user_root uid gid rid env) n = (Inr (), m)"
  shows "fence_released w n m user_root uid gid rid env"
proof -
  let ?ask = "\<lambda>fence. catchA (catchA (bindA (askA (Read_text (stat_path (json_int (dict_get fence ''pid'')))) the_bytes)
                   (\<lambda>t. returnA (Some t))) (\<lambda>c. c = FileNotFoundError) (\<lambda>_. returnA None)) unreadable
                 (\<lambda>_. raiseA AdmissionError ''cannot inspect the provider recovery owner'')"
  let ?judge = "\<lambda>fence process_stat. case process_stat of
          None \<Rightarrow> returnA ()
        | Some text \<Rightarrow> Result (owner_is_gone text (json_int (dict_get fence ''pid_start_ticks'')))"
  from assms obtain home i j k fence raw boot where
    env: "\<not> (map_of env ''GROK_PROVIDER_MODE'' \<noteq> Some ''1'' \<or>
        \<not> (\<exists>e \<in> set_option (map_of env ''GROK_PROVIDER_OWNER_EPOCH''). RUNTIME_TOKEN_RE e) \<or>
        map_of env ''GROK_ACTIVE_RELEASE_ID'' \<noteq> Some rid)" "parent user_root 2 = Inr home"
    and d: "consult w (directory (sub home ''.local/state/grok-proxy/control'') uid gid mode_700) n = (Inr (), i)"
    and f: "consult w (json_file g (sub (sub home ''.local/state/grok-proxy/control'') ''recovery.fence'') uid gid mode_600) i = (Inr (fence, raw), j)"
    and c: "check_fence fence rid (the (map_of env ''GROK_PROVIDER_OWNER_EPOCH'')) = Inr ()"
    and b: "consult w (catchA (askA (Read_text BOOT_ID_PATH) the_bytes) unreadable
               (\<lambda>_. raiseA AdmissionError ''cannot inspect the running boot identity'')) j = (Inr boot, k)"
      "BOOT_ID_RE (map lower_char (strip boot))"
    and rest: "consult w (if json_text (dict_get fence ''boot_id'') \<noteq> map lower_char (strip boot) then returnA ()
      else bindA (?ask fence) (?judge fence)) k = (Inr (), m)"
    unfolding dead_provider_recovery_fence_def Let_def consulted consult_pair prod.case by blast
  have boot: "w j (Read_text BOOT_ID_PATH) = A_data boot" "k = Suc j"
    using b(1) by (auto simp: consult_catchA_Inr consulted)
  have "json_text (dict_get fence ''boot_id'') \<noteq> map lower_char (strip boot) \<or>
      w k (Read_text (stat_path (json_int (dict_get fence ''pid'')))) = A_error FileNotFoundError \<or>
      (\<exists>stat. w k (Read_text (stat_path (json_int (dict_get fence ''pid'')))) = A_data stat \<and>
         owner_is_gone stat (json_int (dict_get fence ''pid_start_ticks'')) = Inr ())"
  proof (cases "json_text (dict_get fence ''boot_id'') \<noteq> map lower_char (strip boot)")
    case False
    with rest obtain ps q where ps: "consult w (?ask fence) k = (Inr ps, q)" "consult w (?judge fence ps) q = (Inr (), m)"
      by (auto simp: consulted)
    show ?thesis
    proof (cases ps)
      case None
      then have "w k (Read_text (stat_path (json_int (dict_get fence ''pid'')))) = A_error FileNotFoundError"
        using ps(1) by (auto simp: consult_catchA_Inr consulted consult_bindA consult_askA split: host_answer.splits sum.splits)
      then show ?thesis by blast
    next
      case (Some stat)
      then have "w k (Read_text (stat_path (json_int (dict_get fence ''pid'')))) = A_data stat"
        using ps(1) by (auto simp: consult_catchA_Inr consulted)
      moreover have "owner_is_gone stat (json_int (dict_get fence ''pid_start_ticks'')) = Inr ()"
        using ps(2) Some by (simp add: consulted)
      ultimately show ?thesis by blast
    qed
  qed simp
  then have dead: "owner_dead w fence" using boot(1) b(2) unfolding owner_dead_def by blast
  have "n \<le> i" "j \<le> m" using consult_mono [OF d] consult_mono [OF rest] boot(2) by simp_all
  then have "record_read w n m (sub (sub home ''.local/state/grok-proxy/control'') ''recovery.fence'') uid gid mode_600 fence raw"
    by (rule record_read_wider [OF json_file_consult [OF f]])
  moreover obtain e where "map_of env ''GROK_PROVIDER_OWNER_EPOCH'' = Some e" using env(1) by auto
  moreover from this have "check_fence fence rid e = Inr ()" using c by simp
  ultimately show ?thesis using env dead unfolding fence_released_def by blast
qed

definition by_ledger :: "world \<Rightarrow> nat \<Rightarrow> nat \<Rightarrow> request \<Rightarrow> located \<Rightarrow> bool" where
  "by_ledger w n m rq l \<longleftrightarrow> rq_public_recovery rq \<and>
     (\<exists>deny raw uid gid. record_read w n m (deny_path l) (lo_uid l) (lo_gid l) mode_444 deny raw \<and>
        check_deny deny (lo_release_id l) = Inr () \<and>
        dict_get (lo_selection l) ''target_uid'' = JInt uid \<and> dict_get (lo_selection l) ''target_gid'' = JInt gid \<and>
        (rq_provider_recovery rq \<longrightarrow> fence_released w n m (lo_user_root l) uid gid (lo_release_id l) (rq_environment rq)))"

lemma fence_released_wider:
  "fence_released w i j p uid gid r env \<Longrightarrow> n \<le> i \<Longrightarrow> j \<le> m \<Longrightarrow> fence_released w n m p uid gid r env"
  unfolding fence_released_def using record_read_wider by blast

lemma admit_recovery_consult:
  assumes "consult w (admit_recovery g rq l) n = (Inr rid, m)" and "rq_public_recovery rq"
  shows "rid = lo_release_id l \<and> by_ledger w n m rq l"
proof -
  from assms(1) obtain deny raw i where d: "consult w (json_file g (deny_path l) (lo_uid l) (lo_gid l) mode_444) n = (Inr (deny, raw), i)"
    and c: "check_deny deny (lo_release_id l) = Inr ()"
    and rest: "consult w (case (dict_get (lo_selection l) ''target_uid'', dict_get (lo_selection l) ''target_gid'') of
       (JInt target_uid, JInt target_gid) \<Rightarrow>
         thenA (if rq_provider_recovery rq
                then dead_provider_recovery_fence g (lo_user_root l) target_uid target_gid
                       (lo_release_id l) (rq_environment rq)
                else returnA ())
           (returnA (lo_release_id l))
     | _ \<Rightarrow> raiseA AdmissionError ''selection target identity is invalid'') i = (Inr rid, m)"
    unfolding admit_recovery_def consulted consult_pair prod.case by blast
  from rest obtain uid gid where ids: "dict_get (lo_selection l) ''target_uid'' = JInt uid" "dict_get (lo_selection l) ''target_gid'' = JInt gid"
    by (auto split: json.splits)
  have "rid = lo_release_id l" and f: "rq_provider_recovery rq \<Longrightarrow>
      consult w (dead_provider_recovery_fence g (lo_user_root l) uid gid (lo_release_id l) (rq_environment rq)) i = (Inr (), m)"
    using rest by (auto simp: ids consulted split: if_splits)
  moreover have "n \<le> i" "i \<le> m" using consult_mono [OF d] consult_mono [OF rest] by simp_all
  ultimately show ?thesis
    using assms(2) c ids record_read_wider [OF json_file_consult [OF d]] fence_released_wider [OF fence_consult [OF f]]
    unfolding by_ledger_def by blast
qed

text \<open>The record of the user's side, the evidence and the selectors, for a selection that is ready.\<close>

definition evidence_passes :: "(string \<Rightarrow> string) \<Rightarrow> world \<Rightarrow> nat \<Rightarrow> nat \<Rightarrow> located \<Rightarrow> jobject \<Rightarrow> bool" where
  "evidence_passes sha256 w n m l selection \<longleftrightarrow>
     (\<exists>evidence raw. record_read w n m (sub (sub (lo_control l) ''evidence'') (lo_release_id l @ ''.json'')) (lo_uid l) (lo_gid l)
          mode_444 evidence raw \<and>
        dict_get selection ''evidence_sha256'' = JStr (sha256 raw) \<and> DIGEST_RE (sha256 raw) \<and> sha256 raw \<noteq> ZERO_DIGEST \<and>
        py_eq (dict_get evidence ''schema_version'') (JInt 3) \<and>
        dict_get evidence ''release_id'' = JStr (lo_release_id l) \<and> dict_get evidence ''overall_pass'' = JBool True \<and>
        py_eq (dict_get evidence ''user_manifest_sha256'') (dict_get selection ''user_manifest_sha256'') \<and>
        py_eq (dict_get evidence ''root_manifest_sha256'') (dict_get selection ''root_manifest_sha256'') \<and>
        py_eq (dict_get evidence ''root_files'') (dict_get selection ''root_files''))"

lemma evidence_consult:
  assumes "consult w (validate_selected_release_evidence sha256 g (lo_control l) (lo_release_id l) (lo_uid l) (lo_gid l) selection) n = (Inr (), m)"
  shows "evidence_passes sha256 w n m l selection"
proof -
  from assms obtain evidence raw where
    d: "case dict_get selection ''evidence_sha256'' of JStr d \<Rightarrow> DIGEST_RE d \<and> d \<noteq> ZERO_DIGEST | _ \<Rightarrow> False"
    and r: "consult w (json_file g (sub (sub (lo_control l) ''evidence'') (lo_release_id l @ ''.json'')) (lo_uid l) (lo_gid l) mode_444) n =
      (Inr (evidence, raw), m)"
    and sha: "JStr (sha256 raw) = dict_get selection ''evidence_sha256''" and e: "py_eq (dict_get evidence ''schema_version'') (JInt 3)"
      "dict_get evidence ''release_id'' = JStr (lo_release_id l)" "dict_get evidence ''overall_pass'' = JBool True"
      "py_eq (dict_get evidence ''user_manifest_sha256'') (dict_get selection ''user_manifest_sha256'')"
      "py_eq (dict_get evidence ''root_manifest_sha256'') (dict_get selection ''root_manifest_sha256'')"
      "py_eq (dict_get evidence ''root_files'') (dict_get selection ''root_files'')"
    unfolding validate_selected_release_evidence_def Let_def consulted consult_pair prod.case py_eq_atoms(1) by blast
  from d have "DIGEST_RE (sha256 raw) \<and> sha256 raw \<noteq> ZERO_DIGEST" unfolding sha [symmetric] by simp
  then show ?thesis using json_file_consult [OF r] sha [symmetric] e unfolding evidence_passes_def by blast
qed

lemma selector_consult:
  "consult w (selector p uid gid rid) n = (Inr (), m) \<Longrightarrow> \<exists>i. w i (Readlink p) = A_data (''releases/'' @ rid)"
  unfolding selector_def consulted the_answers by auto

lemma present_consult:
  "consult w (present p) n = (Inr False, m) \<longleftrightarrow>
     m = Suc (Suc n) \<and> w n (Exists p) = A_bool False \<and> w (Suc n) (Is_link p) = A_bool False"
  by (cases "w n (Exists p)"; cases "w (Suc n) (Is_link p)") (auto simp: present_def consult_bindA consult_askA)

definition current_inventory :: "world \<Rightarrow> nat \<Rightarrow> nat \<Rightarrow> located \<Rightarrow> bool" where
  "current_inventory w n m l \<longleftrightarrow>
     (\<exists>inventory raw i boot. record_read w n m (sub (sub (lo_control l) ''boot-inventory'') (lo_release_id l @ ''.json''))
          (lo_uid l) (lo_gid l) mode_444 inventory raw \<and>
        dict_get inventory ''release_id'' = JStr (lo_release_id l) \<and>
        w i (Read_text BOOT_ID_PATH) = A_data boot \<and> dict_get inventory ''boot_id'' = JStr (strip boot))"

lemma inventory_consult:
  assumes "consult w (validate_boot_inventory sha256 g (lo_control l) (lo_release_id l) (lo_uid l) (lo_gid l)) n = (Inr (), m)"
  shows "current_inventory w n m l"
proof -
  from assms obtain inventory raw i j k boot host where
    r: "consult w (json_file g (sub (sub (lo_control l) ''boot-inventory'') (lo_release_id l @ ''.json'')) (lo_uid l) (lo_gid l) mode_444) n =
      (Inr (inventory, raw), i)"
    and b: "consult w (catchA (askA (Read_text BOOT_ID_PATH) the_bytes) unreadable
              (\<lambda>_. raiseA AdmissionError ''cannot read current boot identity'')) i = (Inr boot, j)"
    and h: "consult w (host_id sha256) j = (Inr host, m)"
    and "dict_get inventory ''release_id'' = JStr (lo_release_id l)" "dict_get inventory ''boot_id'' = JStr (strip boot)"
    unfolding validate_boot_inventory_def Let_def consulted consult_pair prod.case py_eq_atoms(1) by blast
  moreover have "w i (Read_text BOOT_ID_PATH) = A_data boot" using b by (auto simp: consult_catchA_Inr consulted)
  moreover have "i \<le> m" using consult_mono [OF b] consult_mono [OF h] by simp
  then have "record_read w n m (sub (sub (lo_control l) ''boot-inventory'') (lo_release_id l @ ''.json'')) (lo_uid l) (lo_gid l) mode_444
      inventory raw"
    by (rule record_read_wider [OF json_file_consult [OF r] order_refl])
  ultimately show ?thesis unfolding current_inventory_def by blast
qed

text \<open>The calling account is the target, and its own record is the root's without the digest of it.\<close>

definition accounts_agree :: "(string \<Rightarrow> string) \<Rightarrow> world \<Rightarrow> nat \<Rightarrow> nat \<Rightarrow> located \<Rightarrow> bool" where
  "accounts_agree sha256 w n m l \<longleftrightarrow>
     (\<exists>i uid j gid home selection raw. w i Get_uid = A_num uid \<and> py_eq (dict_get (lo_selection l) ''target_uid'') (JInt uid) \<and>
        w j Get_gid = A_num gid \<and> py_eq (dict_get (lo_selection l) ''target_gid'') (JInt gid) \<and>
        parent (lo_user_root l) 2 = Inr home \<and>
        record_read w n m (sub (sub home ''.local/state/grok-proxy/release-control'') ''selected-release.json'') uid gid mode_444
          selection raw \<and>
        dict_get (lo_selection l) ''user_selection_sha256'' = JStr (sha256 raw) \<and>
        py_eq (JObj (without_key ''user_selection_sha256'' (lo_selection l))) (JObj selection))"

definition selected_at :: "world \<Rightarrow> path \<Rightarrow> string \<Rightarrow> bool" where
  "selected_at w root release_id \<longleftrightarrow> (\<exists>i. w i (Readlink (sub root ''current'')) = A_data (''releases/'' @ release_id))"

text \<open>The last two questions of a run found no deny ledger.\<close>

definition no_deny :: "world \<Rightarrow> located \<Rightarrow> nat \<Rightarrow> bool" where
  "no_deny w l m \<longleftrightarrow>
     (\<exists>i. m = Suc (Suc i) \<and> w i (Exists (deny_path l)) = A_bool False \<and> w (Suc i) (Is_link (deny_path l)) = A_bool False)"

definition by_selection :: "(string \<Rightarrow> string) \<Rightarrow> world \<Rightarrow> nat \<Rightarrow> nat \<Rightarrow> request \<Rightarrow> located \<Rightarrow> bool" where
  "by_selection sha256 w n m rq l \<longleftrightarrow> (let copy = without_key ''user_selection_sha256'' (lo_selection l) in
     selection_ready sha256 copy l \<and> evidence_passes sha256 w n m l copy \<and> accounts_agree sha256 w n m l \<and>
     selected_at w (lo_user_root l) (lo_release_id l) \<and> selected_at w (lo_root_root l) (lo_release_id l) \<and>
     (map_of (rq_environment rq) ''GROK_MULTI_SESSION'' = Some ''1'' \<and> \<not> rq_managed_doctor rq \<longrightarrow> current_inventory w n m l) \<and>
     no_deny w l m)"

lemma evidence_wider:
  "evidence_passes sha256 w i j l s \<Longrightarrow> n \<le> i \<Longrightarrow> j \<le> m \<Longrightarrow> evidence_passes sha256 w n m l s"
  "current_inventory w i j l \<Longrightarrow> n \<le> i \<Longrightarrow> j \<le> m \<Longrightarrow> current_inventory w n m l"
  "accounts_agree sha256 w i j l \<Longrightarrow> n \<le> i \<Longrightarrow> j \<le> m \<Longrightarrow> accounts_agree sha256 w n m l"
  unfolding evidence_passes_def current_inventory_def accounts_agree_def using record_read_wider by blast+

lemma way_wider:
  assumes "n \<le> i"
  shows "by_selection sha256 w i m rq l \<Longrightarrow> by_selection sha256 w n m rq l" and "by_ledger w i m rq l \<Longrightarrow> by_ledger w n m rq l"
proof -
  note wider = evidence_wider [OF _ assms order_refl] record_read_wider [OF _ assms order_refl] fence_released_wider [OF _ assms order_refl]
  show "by_selection sha256 w i m rq l \<Longrightarrow> by_selection sha256 w n m rq l"
    unfolding by_selection_def Let_def by (elim conjE, intro conjI) (blast intro: wider)+
  show "by_ledger w i m rq l \<Longrightarrow> by_ledger w n m rq l"
    unfolding by_ledger_def by (elim exE conjE, intro conjI exI) (assumption | erule wider | blast intro: wider)+
qed

lemma admit_selected_consult:
  assumes "consult w (admit_selected sha256 g rq l) n = (Inr rid, m)"
  shows "rid = lo_release_id l \<and> by_selection sha256 w n m rq l"
proof -
  let ?copy = "without_key ''user_selection_sha256'' (lo_selection l)"
  let ?control = "\<lambda>home. sub home ''.local/state/grok-proxy/release-control''"
  from assms obtain uid gid home c d selection raw e f h i denied where
    ids: "w n Get_uid = A_num uid" "py_eq (dict_get (lo_selection l) ''target_uid'') (JInt uid)"
      "w (Suc n) Get_gid = A_num gid" "py_eq (dict_get (lo_selection l) ''target_gid'') (JInt gid)"
      "parent (lo_user_root l) 2 = Inr home" "consult w (directory (?control home) uid gid mode_700) (Suc (Suc n)) = (Inr (), c)"
    and user: "consult w (json_file g (sub (?control home) ''selected-release.json'') uid gid mode_444) c = (Inr (selection, raw), d)"
      "dict_get (lo_selection l) ''user_selection_sha256'' = JStr (sha256 raw)" "py_eq (JObj ?copy) (JObj selection)"
    and ready: "selection_ready sha256 ?copy l"
    and ev: "consult w (catchA (validate_selected_release_evidence sha256 g (lo_control l) (lo_release_id l) (lo_uid l) (lo_gid l) ?copy)
              (\<lambda>c. admission_errors c \<and> rq_managed_doctor rq)
              (\<lambda>_. raiseA ManagedDoctorBlocked ''selected release evidence is unavailable'')) d = (Inr (), e)"
    and links: "consult w (selector (sub (lo_user_root l) ''current'') (lo_uid l) (lo_gid l) (lo_release_id l)) e = (Inr (), f)"
      "consult w (selector (sub (lo_root_root l) ''current'') (lo_uid l) (lo_gid l) (lo_release_id l)) f = (Inr (), h)"
    and inv: "consult w (if map_of (rq_environment rq) ''GROK_MULTI_SESSION'' = Some ''1'' \<and> \<not> rq_managed_doctor rq
            then validate_boot_inventory sha256 g (lo_control l) (lo_release_id l) (lo_uid l) (lo_gid l)
            else returnA ()) h = (Inr (), i)"
    and deny: "consult w (present (deny_path l)) i = (Inr denied, m)" "\<not> denied" and rid: "rid = lo_release_id l"
    unfolding admit_selected_def Let_def consulted consult_pair prod.case py_eq_atoms(1) not_not the_answers by clarify (erule notE, rule that; (assumption | rule refl))
  have o: "n \<le> d" "n \<le> c" "n \<le> h" "i \<le> m" "e \<le> m" "d \<le> m"
    using consult_mono [OF ids(6)] consult_mono [OF user(1)] consult_mono [OF ev]
      consult_mono [OF links(1)] consult_mono [OF links(2)] consult_mono [OF inv] consult_mono [OF deny(1)] by simp_all
  have "consult w (validate_selected_release_evidence sha256 g (lo_control l) (lo_release_id l) (lo_uid l) (lo_gid l) ?copy) d = (Inr (), e)"
    using ev by (auto simp: consult_catchA_Inr consulted)
  then have "evidence_passes sha256 w n m l ?copy" using evidence_wider(1) [OF evidence_consult o(1,5)] by blast
  moreover have "current_inventory w n m l" if "map_of (rq_environment rq) ''GROK_MULTI_SESSION'' = Some ''1''" "\<not> rq_managed_doctor rq"
    using inv that evidence_wider(2) [OF inventory_consult o(3,4)] by simp
  moreover have "accounts_agree sha256 w n m l"
    using record_read_wider [OF json_file_consult [OF user(1)] o(2,6)] ids user(2,3) unfolding accounts_agree_def by blast
  moreover have "selected_at w (lo_user_root l) (lo_release_id l)" "selected_at w (lo_root_root l) (lo_release_id l)"
    using selector_consult [OF links(1)] selector_consult [OF links(2)] unfolding selected_at_def .
  moreover have "no_deny w l m" using deny by (simp add: present_consult no_deny_def)
  ultimately show ?thesis using rid ready unfolding by_selection_def Let_def by blast
qed

section \<open>What an admission means\<close>

text \<open>
  Whatever changes on the host meanwhile, and for every way to call it: when the gate admits a
  release, the run itself read the selection from the control root, which is root's own unless test
  variables name another; it read the two manifests at the canonical places the selection names, and
  the executable's bytes, whose size, mode and digest are those of the one record with its path. And
  one of three holds: the call holds the canary's lock for this release; it is a recovery and the
  deny ledger names this release, with the owner of the recovery fence dead where a provider is to
  be recovered; or the selection is ready, its evidence passes and is bound to it by its digest, the
  user's record and both selectors agree, and no deny was there before or after. A managed doctor is
  only admitted the third way.
\<close>

theorem admitted_release:
  assumes "consult w (validate sha256 gives_up rq) n = (Inr rid, m)"
  shows "\<exists>l. lo_release_id l = rid \<and> selection_read w n m l \<and> payload_bound sha256 w n m rq l \<and>
    (lo_control l = ROOT_CONTROL \<and> lo_uid l = 0 \<and> lo_gid l = 0 \<or> map_of (rq_environment rq) ''GROK_TESTING'' = Some ''1'') \<and>
    (by_canary w rq l \<or> by_ledger w n m rq l \<or> by_selection sha256 w n m rq l) \<and>
    (rq_managed_doctor rq \<longrightarrow> by_selection sha256 w n m rq l) \<and> (rq_provider_recovery rq \<longrightarrow> rq_public_recovery rq)"
proof -
  from assms obtain place i l j where lock: "consult w (take_lock rq) n = (Inr place, i)"
    and located: "consult w (locate_release sha256 gives_up rq place) i = (Inr l, j)"
    and rest: "consult w (case rq_canary_fd rq of
       Some fd \<Rightarrow> admit_canary rq fd l
     | None \<Rightarrow>
         bindA (present (deny_path l)) (\<lambda>deny_present.
           if deny_present \<and> rq_public_recovery rq then admit_recovery gives_up rq l
           else thenA (refuse_if deny_present AdmissionError ''durable install/rollback deny is active'')
             (admit_selected sha256 gives_up rq l))) j = (Inr rid, m)"
    unfolding validate_def consulted by blast
  obtain root uid gid test_install where place: "place = (root, uid, gid, test_install)" by (cases place)
  note lock' = take_lock_consult [OF lock [unfolded place]]
  note l = locate_release_consult [OF located [unfolded place]]
  have o: "n \<le> i" "j \<le> m" "i \<le> m" "n \<le> j" using consult_mono [OF lock] consult_mono [OF located] consult_mono [OF rest] by simp_all
  have "test_install \<Longrightarrow> map_of (rq_environment rq) ''GROK_TESTING'' = Some ''1''"
    using lock unfolding place take_lock_def control_def Let_def
    by (auto simp: consulted split: if_splits)
  then have control: "lo_control l = ROOT_CONTROL \<and> lo_uid l = 0 \<and> lo_gid l = 0 \<or> map_of (rq_environment rq) ''GROK_TESTING'' = Some ''1''"
    using lock'(4) l by auto
  have way: "lo_release_id l = rid \<and> (by_canary w rq l \<or> by_ledger w n m rq l \<or> by_selection sha256 w n m rq l) \<and>
      (rq_canary_fd rq = None \<and> \<not> rq_public_recovery rq \<longrightarrow> by_selection sha256 w n m rq l)"
  proof (cases "rq_canary_fd rq")
    case (Some fd)
    then show ?thesis using admit_canary_consult [of w rq fd l j rid m] rest by simp
  next
    case None
    from rest [unfolded None option.case consulted] obtain denied k where
      k: "consult w (present (deny_path l)) j = (Inr denied, k)"
      and go: "consult w (if denied \<and> rq_public_recovery rq then admit_recovery gives_up rq l
           else thenA (refuse_if denied AdmissionError ''durable install/rollback deny is active'')
             (admit_selected sha256 gives_up rq l)) k = (Inr rid, m)"
      by blast
    have "n \<le> k" using o(4) consult_mono [OF k] by simp
    show ?thesis
    proof (cases "denied \<and> rq_public_recovery rq")
      case True
      then have "consult w (admit_recovery gives_up rq l) k = (Inr rid, m)" using go by simp
      from admit_recovery_consult [OF this] True show ?thesis using way_wider(2) [OF \<open>n \<le> k\<close>] by blast
    next
      case False
      then have "consult w (admit_selected sha256 gives_up rq l) k = (Inr rid, m)"
        using go unfolding if_not_P [OF False] consulted by blast
      from admit_selected_consult [OF this] show ?thesis using way_wider(1) [OF \<open>n \<le> k\<close>] by blast
    qed
  qed
  show ?thesis
    using way control l lock'(2,3) located_wider [OF o(1) o(2)] by (intro exI [of _ l]) auto
qed

text \<open>The gate's exit status is 0 exactly when the release is admitted.\<close>

theorem gate_opens_for_admitted:
  "consult w (gate_status sha256 gives_up rq) n = (Inr 0, m) \<longleftrightarrow> (\<exists>rid. consult w (validate sha256 gives_up rq) n = (Inr rid, m))"
  by (simp add: gate_status_def consult_catchA_Inr consult_bindA_Inr consult_Result_Inr)

end
