(* ===== verification/Spec2Isabelle.thy ===== *)
theory Spec2Isabelle
  imports Differences Qualification Shamir IosRegistry Frontend Lifetime RungAdmission ReleaseAdmission
begin

text \<open>
  A verification development for the coding-system-rebuild repository: a backup and restore system
  for the machine of a group of coding agents. Its largest program, and the core of this
  development, is the multi-session proxy under \<open>system/grok-proxy/grok_ms\<close>, which gives several
  agent sessions of one user one qualified network route: a client freezes a route contract, a
  supervisor starts route providers and records every effect durably before it happens, and a
  frontend relays client traffic to the one committed backend. The passphrase of the encrypted
  backup is shared with \<open>bin/lib/shamir.py\<close>.

  \<^bold>\<open>Parts and theories.\<close> Every definition that models code keeps the name of its function where it
  can; the manifest lists the lines of each.

  \<^item> \<open>Prelude\<close>: Python exceptions as values (\<open>exc\<close>, one constructor per class), results
    (\<open>exc + 'a\<close>) with their sequencing, characters and the string operations the modules use. A
    \<open>str\<close> and a \<open>bytes\<close> are lists of characters below 256; what would need other code points answers
    with the exception class \<open>Unmodelled\<close> and is not given a made-up meaning.
  \<^item> \<open>Json\<close>: \<open>canonical_json_bytes\<close> of \<open>contract.py\<close>, the strict reader and writer of control packets
    of \<open>ipc.py\<close> with the scanner of the standard library they rely on.
  \<^item> \<open>Validators\<close>, \<open>Codec\<close>, \<open>Policies\<close>, \<open>Contract\<close>, \<open>Differences\<close>, \<open>Qualification\<close>: \<open>contract.py\<close>. The
    dataclasses are records; \<open>__post_init__\<close>, \<open>to_dict\<close> and \<open>from_dict\<close> are functions, the checks in the
    order of the source. \<open>Codec\<close> states what every such record promises as a locale,
    which each dataclass interprets. \<open>Differences\<close> is \<open>semantic_differences\<close>, \<open>Qualification\<close> the
    projection to one rung, the reconstruction of a narrowed ladder and the profile match.
  \<^item> \<open>Files\<close>, \<open>Durable\<close>, \<open>Runtime\<close>, \<open>Stores\<close>: \<open>runtime.py\<close>. \<open>Files\<close> is a directory of a POSIX file
    system with what a power failure may leave of it, and programs over it as trees of system
    calls: any call may fail, and a run may be cut off anywhere. \<open>Durable\<close> has the primitives (staged
    write, creation by link, replacement by rename, removal, bounded read, clean-up), \<open>Runtime\<close> the
    process identities and the two records, \<open>Stores\<close> the fence and the intents.
  \<^item> \<open>Addresses\<close>, \<open>IosRegistry\<close>: \<open>ios_registry.py\<close>, the registry of phones: devices, the
    operations on a registry, and the commands as programs of \<open>Files\<close>. \<open>Addresses\<close> is the part of the
    standard library's \<open>ipaddress\<close> that the modules use.
  \<^item> \<open>Socks\<close>, \<open>Frontend\<close>: \<open>frontend.py\<close>. \<open>Socks\<close> is the observer of the SOCKS handshake. \<open>Frontend\<close> has
    the shared state as one record and one definition per section of code under a lock; the relation
    \<open>system_step\<close> interleaves the holder of the transition lock, the accept loop and one worker per
    stream, with the kernel's answers and the expiry of deadlines as choices of the environment. What
    a step shows (a call, an answer, bytes written to a socket) is an event, and the properties of
    commits and of held responses speak of the events of an execution.
  \<^item> \<open>Threads\<close>, \<open>Supervisor\<close>, \<open>Epoch\<close>, \<open>Lifetime\<close>: \<open>supervisor.py\<close>. \<open>Threads\<close> has programs of several
    threads as trees of uninterrupted sections, with rely and guarantee; its locale \<open>guaranteed\<close> says
    what a system of threads has to obey. \<open>Supervisor\<close> is the state of one epoch and a definition per
    method: every block under \<open>_state_lock\<close> and every call outside is one section, \<open>_transition_lock\<close> is
    part of the state, durable operations may fail before or after their effect, and directories of
    records are maps, as the theorems on \<open>Stores\<close> allow. Providers, scopes and the frontend are seen
    through their interface. \<open>Epoch\<close> proves what every thread guarantees to the others, \<open>Lifetime\<close>
    the properties, with a run of three threads that shows they are not empty.
  \<^item> \<open>Queries\<close>, \<open>ReleaseAdmission\<close>, \<open>RungAdmission\<close>: \<open>release_admission.py\<close> and \<open>rung_admission.py\<close>, which
    decide at run time whether an installed release may run and which rungs its selection may use.
    They only read, so in \<open>Queries\<close> a program is a tree of questions to the host, which answers as it
    likes, and differently each time, unless the tree of files is assumed to be settled.
  \<^item> \<open>Interpolation\<close>, \<open>Gf256\<close>, \<open>Shamir\<close>: \<open>shamir.py\<close>. Interpolation over a field, the field of
    256 elements as the code computes it, and splitting and combining with their parsing.

  \<^bold>\<open>What the lemmas show.\<close>

  \<^item> Records: the constructors accept exactly the values that satisfy a declarative
    well-formedness predicate; the readers accept exactly what the writers produce, up to the order
    of keys; canonical bytes identify a record; every refusal is an exception of a known class.
  \<^item> Durability: whatever fails and wherever a call is cut off, a record is all old or all new, a
    returned answer is true and survives a crash, and no other file is touched. The stores and the
    registry commands refine a plain map, an optional record and a list of devices.
  \<^item> Frontend: by invariants of every interleaving, traffic reaches the candidate of the last commit
    only, a commit is all or nothing, the buffers stay within their bounds, and while responses are
    held the bytes written to a client are the SOCKS handshake alone.
  \<^item> Supervisor: in every interleaving, records that look effect-free mean that no resource of a
    provider is left, the gate is open for a recorded generation only, draining is final, and a
    request is carried out once. One race, between attaching a child and dropping its lease, escapes
    the records; the run that shows it is a theorem.
  \<^item> Admission: whatever changes on the host meanwhile, a release is admitted only by a run that
    itself read the selection, the manifests and the executable they bind, and found the selection
    ready, or the canary's lock held, or a deny ledger that allows the recovery (\<open>admitted_release\<close>);
    a rung only by one that read its passing evidence (\<open>admitted_on_evidence\<close>). In a settled tree the
    admitted rungs are exactly those with passing evidence (\<open>eligible_rungs_exact\<close>).
  \<^item> Secret sharing: any k shares give the secret, k - 1 shares say nothing about it, and the loops
    end except on the negative index the code does not refuse.

  \<^bold>\<open>Fuel and bounds.\<close> The JSON scanner runs on fuel twice the length of its text and one more, and is
  shown not to run out. The loops of \<open>write\<close>, \<open>read\<close> and descriptor calls are programs with a bound
  on their iterations: a read stops at its byte limit, a write at the length of its data, and a
  working kernel lets every one of them end. The multiplication loop of \<open>shamir.py\<close> is a partial
  function, so that not returning is a value. Runs of the frontend and of the supervisor are unbounded:
  their properties are invariants of an inductive set of states. A supervisor thread carries how often
  it looks again (a watchdog its rounds, a registration its waits, a connection its messages), any
  number of times.

  \<^bold>\<open>Not modelled.\<close> Of the supervisor: bootstrap and hand-over, the operations of the guarded
  qualification, probes, detached scopes, the provider canary, the contents of a status and offline
  recovery; where one of them can refuse a registration or keep the fence at the end, that is a
  choice of the environment. The transport of control packets, the command lines, and Python's own limits
  (memory, and recursion depth except as a parameter of the admission modules' reader). Floats: the code's only use is for timeouts, which the model replaces by
  the choice of when a wait gives up. The hash function is a parameter: digests are compared through
  the bytes they are taken of. The installers and verifiers
  (\<open>install-release.py\<close>, \<open>qualification_verifier.py\<close>, \<open>verify-*.py\<close>, \<open>bin/lib\<close> apart from
  \<open>shamir.py\<close>) and the skills under \<open>agents\<close> are separate programs that share no state with the modelled
  ones except the files they leave; they are listed in the manifest as not modelled.
\<close>

end
